(* ===== verification/Go_Prelude.thy ===== *)
theory Go_Prelude
  imports Main "HOL-Library.Sublist"
begin

text \<open>
  Shared layer of the development. A Go string is a byte sequence, so it is modelled as a
  \<open>string\<close> (a list of 8-bit characters) and \<open>len\<close> is \<open>length\<close>. This theory holds the parts of
  Go's \<open>strings\<close> and \<open>bytes\<close> packages that the sources use, the result type of fallible calls,
  and the generic lemmas on them. The operations follow the standard library: searching is
  on bytes, white space and letter case are those of UTF-8 encoded Unicode.
\<close>

named_theorems go_defs "definitions of library operations that proofs unfold"

type_synonym bytes = string

text \<open>Byte constants of the sources.\<close>

abbreviation nul :: char where "nul \<equiv> CHR 0x00"
abbreviation tab :: char where "tab \<equiv> CHR 0x09"
abbreviation lf :: char where "lf \<equiv> CHR 0x0A"
abbreviation cr :: char where "cr \<equiv> CHR 0x0D"
abbreviation sp :: char where "sp \<equiv> CHR 0x20"
abbreviation dquote :: char where "dquote \<equiv> CHR 0x22"
abbreviation backslash :: char where "backslash \<equiv> CHR 0x5C"

text \<open>The numeric value of a byte.\<close>

definition bval :: "char \<Rightarrow> nat" where
  "bval c = of_char c"

lemma bval_less: "bval c < 256"
proof -
  have "(of_char c :: nat) mod 2 ^ 8 = of_char c mod 256" by simp
  then show ?thesis
    by (metis bval_def of_char_mod_256 mod_less_divisor zero_less_numeral)
qed

lemma bval_inj: "bval a = bval b \<longleftrightarrow> a = b"
  by (simp add: bval_def)

subsection \<open>Searching\<close>

definition hasPrefix :: "string \<Rightarrow> string \<Rightarrow> bool" where
  "hasPrefix s p \<longleftrightarrow> take (length p) s = p"

definition hasSuffix :: "string \<Rightarrow> string \<Rightarrow> bool" where
  "hasSuffix s p \<longleftrightarrow> length p \<le> length s \<and> drop (length s - length p) s = p"

fun containsStr :: "string \<Rightarrow> string \<Rightarrow> bool" where
  "containsStr [] p = (p = [])"
| "containsStr (c # cs) p = (hasPrefix (c # cs) p \<or> containsStr cs p)"

definition containsAny :: "string \<Rightarrow> string \<Rightarrow> bool" where
  "containsAny s chars \<longleftrightarrow> list_ex (\<lambda>c. c \<in> set chars) s"

fun indexByte :: "string \<Rightarrow> char \<Rightarrow> nat option" where
  "indexByte [] b = None"
| "indexByte (c # cs) b = (if c = b then Some 0 else map_option Suc (indexByte cs b))"

definition trimPrefix :: "string \<Rightarrow> string \<Rightarrow> string" where
  "trimPrefix s p = (if hasPrefix s p then drop (length p) s else s)"

definition trimSuffix :: "string \<Rightarrow> string \<Rightarrow> string" where
  "trimSuffix s p = (if hasSuffix s p then take (length s - length p) s else s)"

lemma hasPrefix_iff_prefix: "hasPrefix s p \<longleftrightarrow> prefix p s"
  by (auto simp: hasPrefix_def prefix_def) (metis append_take_drop_id)

lemma hasPrefix_iff: "hasPrefix s p \<longleftrightarrow> (\<exists>t. s = p @ t)"
  by (simp add: hasPrefix_iff_prefix prefix_def)

lemma hasSuffix_iff: "hasSuffix s p \<longleftrightarrow> (\<exists>t. s = t @ p)"
  by (auto simp: hasSuffix_def) (metis append_take_drop_id)

lemma hasPrefix_Nil [simp]: "hasPrefix s []"
  by (simp add: hasPrefix_def)

lemma hasPrefix_Nil_left [simp]: "hasPrefix [] p \<longleftrightarrow> p = []"
  by (auto simp: hasPrefix_def)

lemma hasPrefix_Cons [simp]: "hasPrefix (c # cs) (d # ds) \<longleftrightarrow> c = d \<and> hasPrefix cs ds"
  by (simp add: hasPrefix_def)

lemma hasPrefix_length: "hasPrefix s p \<Longrightarrow> length p \<le> length s"
  by (auto simp: hasPrefix_iff)

lemma containsStr_Nil [simp]: "containsStr s []"
  by (cases s) auto

lemma containsStr_iff: "containsStr s p \<longleftrightarrow> (\<exists>u v. s = u @ p @ v)"
proof (induction s)
  case Nil
  then show ?case by auto
next
  case (Cons c cs)
  show ?case
  proof
    assume "containsStr (c # cs) p"
    then consider "hasPrefix (c # cs) p" | "containsStr cs p" by auto
    then show "\<exists>u v. c # cs = u @ p @ v"
    proof cases
      case 1
      then show ?thesis by (auto simp: hasPrefix_iff intro: exI [of _ "[]"])
    next
      case 2
      with Cons.IH obtain u v where "cs = u @ p @ v" by auto
      then have "c # cs = (c # u) @ p @ v" by simp
      then show ?thesis by blast
    qed
  next
    assume "\<exists>u v. c # cs = u @ p @ v"
    then obtain u v where uv: "c # cs = u @ p @ v" by blast
    show "containsStr (c # cs) p"
    proof (cases u)
      case Nil
      with uv have "hasPrefix (c # cs) p" by (auto simp: hasPrefix_iff)
      then show ?thesis by simp
    next
      case (Cons d u')
      with uv have "cs = u' @ p @ v" by simp
      with Cons.IH show ?thesis by auto
    qed
  qed
qed

lemma containsStr_length: "containsStr s p \<Longrightarrow> length p \<le> length s"
  by (auto simp: containsStr_iff)

lemma containsStr_refl [simp]: "containsStr s s"
  by (metis containsStr_iff append.left_neutral append_Nil2)

lemma containsStr_trans: "containsStr s t \<Longrightarrow> containsStr t u \<Longrightarrow> containsStr s u"
  by (metis containsStr_iff append_assoc)

lemma containsAny_iff: "containsAny s cs \<longleftrightarrow> set s \<inter> set cs \<noteq> {}"
  by (auto simp: containsAny_def list_ex_iff)

lemma containsAny_append [simp]:
  "containsAny (s @ t) cs \<longleftrightarrow> containsAny s cs \<or> containsAny t cs"
  by (auto simp: containsAny_iff)

lemma indexByte_None: "indexByte s b = None \<longleftrightarrow> b \<notin> set s"
  by (induction s) auto

lemma indexByte_Some:
  "indexByte s b = Some i \<longleftrightarrow> i < length s \<and> s ! i = b \<and> b \<notin> set (take i s)"
proof (induction s arbitrary: i)
  case Nil
  then show ?case by simp
next
  case (Cons c cs)
  then show ?case by (cases i) auto
qed

lemma indexByte_append:
  "b \<notin> set s \<Longrightarrow> indexByte (s @ b # t) b = Some (length s)"
  by (induction s) auto

text \<open>
  A pattern none of whose bytes is a delimiter cannot straddle a delimiter: this is what makes
  occurrences of such a pattern local to the text between delimiters.
\<close>

lemma contains_append_delim:
  assumes "containsStr (u @ v) p" and "u \<noteq> []" and "last u \<notin> set p" and "p \<noteq> []"
  shows "containsStr u p \<or> containsStr v p"
proof -
  from assms(1) obtain x y where xy: "u @ v = x @ p @ y" by (auto simp: containsStr_iff)
  show ?thesis
  proof (cases "length u \<le> length x")
    case True
    then have "\<exists>z. x = u @ z" using xy by (metis append_eq_append_conv_if append_take_drop_id)
    then obtain z where "x = u @ z" by blast
    with xy have "v = z @ p @ y" by simp
    then show ?thesis by (auto simp: containsStr_iff)
  next
    case False
    show ?thesis
    proof (cases "length (x @ p) \<le> length u")
      case True
      from xy have "u @ v = (x @ p) @ y" by simp
      with True have "\<exists>z. u = (x @ p) @ z"
        by (metis append_eq_append_conv_if append_take_drop_id)
      then obtain z where "u = (x @ p) @ z" by blast
      then show ?thesis by (auto simp: containsStr_iff)
    next
      case inside: False
      let ?i = "length u - 1"
      have "u ! ?i = last u" using assms(2) by (simp add: last_conv_nth)
      moreover have "u ! ?i = (u @ v) ! ?i" using assms(2) by (simp add: nth_append)
      moreover have i: "length x \<le> ?i" "?i - length x < length p"
        using False inside by auto
      moreover from i have "(x @ p @ y) ! ?i = p ! (?i - length x)"
        by (auto simp: nth_append)
      ultimately have "last u \<in> set p" using xy by (metis nth_mem)
      with assms(3) show ?thesis by simp
    qed
  qed
qed

subsection \<open>Splitting, trimming, replacing\<close>

text \<open>\<open>strings.Split\<close> with a one-byte separator: never empty.\<close>

fun splitByte :: "string \<Rightarrow> char \<Rightarrow> string list" where
  "splitByte [] b = [[]]"
| "splitByte (c # cs) b =
     (if c = b then [] # splitByte cs b
      else (case splitByte cs b of [] \<Rightarrow> [[c]] | w # ws \<Rightarrow> (c # w) # ws))"

lemma splitByte_ne [simp]: "splitByte s b \<noteq> []"
  by (cases s) (auto split: list.splits)

lemma splitByte_no_sep: "w \<in> set (splitByte s b) \<Longrightarrow> b \<notin> set w"
  by (induction s arbitrary: w) (auto split: list.splits if_splits)

lemma splitByte_subset: "w \<in> set (splitByte s b) \<Longrightarrow> set w \<subseteq> set s"
proof (induction s arbitrary: w)
  case (Cons c cs)
  then show ?case by (cases "splitByte cs b") (fastforce split: if_splits)+
qed simp

fun joinByte :: "char \<Rightarrow> string list \<Rightarrow> string" where
  "joinByte b [] = []"
| "joinByte b [w] = w"
| "joinByte b (w # ws) = w @ b # joinByte b ws"

lemma joinByte_Cons2: "ws \<noteq> [] \<Longrightarrow> joinByte b (w # ws) = w @ b # joinByte b ws"
  by (cases ws) auto

lemma join_split: "joinByte b (splitByte s b) = s"
proof (induction s)
  case Nil
  then show ?case by simp
next
  case (Cons c cs)
  show ?case
  proof (cases "splitByte cs b")
    case Nil
    then show ?thesis by simp
  next
    case (Cons w ws)
    with Cons.IH show ?thesis by (cases ws) (auto simp: joinByte_Cons2)
  qed
qed

lemma split_join:
  "ws \<noteq> [] \<Longrightarrow> (\<forall>w \<in> set ws. b \<notin> set w) \<Longrightarrow> splitByte (joinByte b ws) b = ws"
proof (induction ws rule: joinByte.induct)
  case (1 b)
  then show ?case by simp
next
  case (2 b w)
  then have "b \<notin> set w" by simp
  then show ?case by (induction w) auto
next
  case (3 b w v vs)
  then have "b \<notin> set w" and IH: "splitByte (joinByte b (v # vs)) b = v # vs" by auto
  then have "splitByte (w @ b # joinByte b (v # vs)) b = w # v # vs"
    by (induction w) auto
  then show ?case by simp
qed

lemma set_concat_map_subset: "(\<And>c. set (f c) \<subseteq> A) \<Longrightarrow> set (concat (map f s)) \<subseteq> A"
  by (induction s) auto

text \<open>The UTF-8 encodings of the runes for which \<open>unicode.IsSpace\<close> holds.\<close>

definition spaceRunes :: "string list" where
  "spaceRunes =
     [[CHR 0x09], [CHR 0x0A], [CHR 0x0B], [CHR 0x0C], [CHR 0x0D], [CHR 0x20],
      [CHR 0xC2, CHR 0x85], [CHR 0xC2, CHR 0xA0],
      [CHR 0xE1, CHR 0x9A, CHR 0x80],
      [CHR 0xE2, CHR 0x80, CHR 0x80], [CHR 0xE2, CHR 0x80, CHR 0x81],
      [CHR 0xE2, CHR 0x80, CHR 0x82], [CHR 0xE2, CHR 0x80, CHR 0x83],
      [CHR 0xE2, CHR 0x80, CHR 0x84], [CHR 0xE2, CHR 0x80, CHR 0x85],
      [CHR 0xE2, CHR 0x80, CHR 0x86], [CHR 0xE2, CHR 0x80, CHR 0x87],
      [CHR 0xE2, CHR 0x80, CHR 0x88], [CHR 0xE2, CHR 0x80, CHR 0x89],
      [CHR 0xE2, CHR 0x80, CHR 0x8A], [CHR 0xE2, CHR 0x80, CHR 0xA8],
      [CHR 0xE2, CHR 0x80, CHR 0xA9], [CHR 0xE2, CHR 0x80, CHR 0xAF],
      [CHR 0xE2, CHR 0x81, CHR 0x9F], [CHR 0xE3, CHR 0x80, CHR 0x80]]"

definition leadingSpace :: "string list \<Rightarrow> string \<Rightarrow> nat" where
  "leadingSpace runes s =
     (case find (hasPrefix s) runes of None \<Rightarrow> 0 | Some r \<Rightarrow> length r)"

lemma leadingSpace_le: "leadingSpace runes s \<le> length s"
  by (auto simp: leadingSpace_def find_Some_iff split: option.splits dest!: hasPrefix_length)

function trimLeftRunes :: "string list \<Rightarrow> string \<Rightarrow> string" where
  "trimLeftRunes runes s =
     (if leadingSpace runes s = 0 then s
      else trimLeftRunes runes (drop (leadingSpace runes s) s))"
  by pat_completeness auto
termination
proof (relation "measure (\<lambda>(runes, s). length s)")
  fix runes s
  assume "leadingSpace runes s \<noteq> 0"
  with leadingSpace_le [of runes s]
  show "((runes, drop (leadingSpace runes s) s), runes, s) \<in> measure (\<lambda>(runes, s). length s)"
    by (auto simp: leadingSpace_def)
qed auto

declare trimLeftRunes.simps [simp del]

text \<open>
  \<open>strings.TrimSpace\<close>: white space runes are removed from both ends; the right end is the left
  end of the reversed byte sequence with reversed encodings.
\<close>

definition trimSpace :: "string \<Rightarrow> string" where
  "trimSpace s =
     rev (trimLeftRunes (map rev spaceRunes) (rev (trimLeftRunes spaceRunes s)))"

text \<open>\<open>strings.Trim\<close> with a cutset of ASCII bytes.\<close>

definition trimBytes :: "string \<Rightarrow> string \<Rightarrow> string" where
  "trimBytes s cutset =
     rev (dropWhile (\<lambda>c. c \<in> set cutset) (rev (dropWhile (\<lambda>c. c \<in> set cutset) s)))"

lemma trimLeftRunes_suffix: "\<exists>p. s = p @ trimLeftRunes runes s"
proof (induction runes s rule: trimLeftRunes.induct)
  case (1 runes s)
  show ?case
  proof (cases "leadingSpace runes s = 0")
    case True
    then show ?thesis by (subst trimLeftRunes.simps) simp
  next
    case False
    with 1 obtain p where
      p: "drop (leadingSpace runes s) s = p @ trimLeftRunes runes (drop (leadingSpace runes s) s)"
      by blast
    have "s = take (leadingSpace runes s) s @ drop (leadingSpace runes s) s" by simp
    also have "\<dots> = (take (leadingSpace runes s) s @ p) @
        trimLeftRunes runes (drop (leadingSpace runes s) s)"
      by (subst p) simp
    finally have "s = (take (leadingSpace runes s) s @ p) @
        trimLeftRunes runes (drop (leadingSpace runes s) s)" .
    moreover from False have
      "trimLeftRunes runes s = trimLeftRunes runes (drop (leadingSpace runes s) s)"
      by (subst trimLeftRunes.simps) simp
    ultimately show ?thesis by metis
  qed
qed

lemma trimSpace_infix: "\<exists>u v. s = u @ trimSpace s @ v"
proof -
  obtain u where u: "s = u @ trimLeftRunes spaceRunes s" using trimLeftRunes_suffix by blast
  obtain v where "rev (trimLeftRunes spaceRunes s) =
      v @ trimLeftRunes (map rev spaceRunes) (rev (trimLeftRunes spaceRunes s))"
    using trimLeftRunes_suffix by blast
  then have "trimLeftRunes spaceRunes s = trimSpace s @ rev v"
    by (metis trimSpace_def rev_append rev_rev_ident)
  with u show ?thesis by metis
qed

lemma length_trimSpace: "length (trimSpace s) \<le> length s"
  using trimSpace_infix [of s] by (metis length_append le_add1 le_add2 le_trans)

lemma set_trimSpace: "set (trimSpace s) \<subseteq> set s"
  using trimSpace_infix [of s] by (metis Un_upper1 Un_upper2 order_trans set_append)

text \<open>
  \<open>strings.ReplaceAll\<close> for a non-empty pattern: occurrences are replaced from left to right
  without overlap. The sources never pass an empty pattern, for which the text is returned.
\<close>

function replaceAll :: "string \<Rightarrow> string \<Rightarrow> string \<Rightarrow> string" where
  "replaceAll s old new =
     (if old = [] then s
      else case s of
        [] \<Rightarrow> []
      | c # cs \<Rightarrow>
          if hasPrefix s old then new @ replaceAll (drop (length old) s) old new
          else c # replaceAll cs old new)"
  by pat_completeness auto
termination
  by (relation "measure (\<lambda>(s, old, new). length s)") auto

declare replaceAll.simps [simp del]

lemma replaceAll_Nil [simp]: "replaceAll [] old new = []"
  by (subst replaceAll.simps) simp

lemma replaceAll_hit:
  "old \<noteq> [] \<Longrightarrow> hasPrefix s old \<Longrightarrow>
     replaceAll s old new = new @ replaceAll (drop (length old) s) old new"
  by (subst replaceAll.simps) (auto split: list.splits)

lemma replaceAll_miss:
  "old \<noteq> [] \<Longrightarrow> \<not> hasPrefix (c # cs) old \<Longrightarrow>
     replaceAll (c # cs) old new = c # replaceAll cs old new"
  by (simp add: replaceAll.simps [of "c # cs"])

lemma replaceAll_cases [consumes 1, case_names Nil hit miss]:
  assumes "old \<noteq> []"
    and "P []"
    and "\<And>s. hasPrefix s old \<Longrightarrow> P (drop (length old) s) \<Longrightarrow> P s"
    and "\<And>c cs. \<not> hasPrefix (c # cs) old \<Longrightarrow> P cs \<Longrightarrow> P (c # cs)"
  shows "P s"
proof (induction s rule: length_induct)
  case (1 s)
  show ?case
  proof (cases s)
    case Nil
    with assms(2) show ?thesis by simp
  next
    case (Cons c cs)
    show ?thesis
    proof (cases "hasPrefix s old")
      case True
      have "length (drop (length old) s) < length s" using assms(1) Cons by simp
      with 1 have "P (drop (length old) s)" by blast
      with True assms(3) show ?thesis by blast
    next
      case False
      with 1 Cons assms(4) show ?thesis by simp
    qed
  qed
qed

lemma replaceAll_id: "old \<noteq> [] \<Longrightarrow> \<not> containsStr s old \<Longrightarrow> replaceAll s old new = s"
  by (induction s) (auto simp: replaceAll_miss)

text \<open>
  Replacement text that starts and ends with a delimiter isolates what is around it. A pattern
  free of delimiters occurs in the result only where it occurred before, or inside the
  replacement itself.
\<close>

lemma replaceAll_prefix_back:
  assumes old: "old \<noteq> []" and new: "new \<noteq> []" "hd new \<notin> set q"
    and "hasPrefix (replaceAll s old new) q"
  shows "hasPrefix s q"
  using old assms(4) new(2)
proof (induction s arbitrary: q rule: replaceAll_cases)
  case Nil
  then show ?case by simp
next
  case (hit s)
  then have "hasPrefix (new @ replaceAll (drop (length old) s) old new) q"
    using old by (simp add: replaceAll_hit)
  with hit(4) new(1) have "q = []" by (cases q; cases new) auto
  then show ?case by simp
next
  case (miss c cs)
  then show ?case using old by (cases q) (auto simp: replaceAll_miss)
qed

lemma replaceAll_contains_back:
  assumes old: "old \<noteq> []" and new: "new \<noteq> []" "hd new \<notin> set q" "last new \<notin> set q"
    and q: "q \<noteq> []" and "containsStr (replaceAll s old new) q"
  shows "containsStr s q \<or> containsStr new q"
  using old assms(6)
proof (induction s rule: replaceAll_cases)
  case Nil
  then show ?case by simp
next
  case (hit s)
  have "containsStr (new @ replaceAll (drop (length old) s) old new) q"
    using hit(1,3) old by (simp add: replaceAll_hit)
  then have "containsStr new q \<or> containsStr (replaceAll (drop (length old) s) old new) q"
    using new q by (intro contains_append_delim) auto
  then have "containsStr new q \<or> containsStr (drop (length old) s) q"
    using hit(2) by blast
  moreover have "containsStr s (drop (length old) s)"
    by (metis append_Nil2 append_take_drop_id containsStr_iff)
  ultimately show ?case by (metis containsStr_trans)
next
  case (miss c cs)
  then have r: "containsStr (c # replaceAll cs old new) q" using old by (simp add: replaceAll_miss)
  then consider "hasPrefix (c # replaceAll cs old new) q" | "containsStr (replaceAll cs old new) q"
    by auto
  then show ?case
  proof cases
    case 1
    with q obtain q' where q': "q = c # q'" "hasPrefix (replaceAll cs old new) q'"
      by (cases q) auto
    with new have "hd new \<notin> set q'" by simp
    with q'(2) have "hasPrefix cs q'" using replaceAll_prefix_back [OF old new(1)] by blast
    with q' show ?thesis by simp
  next
    case 2
    with miss(2) show ?thesis by auto
  qed
qed

lemma replaceAll_removes:
  assumes old: "old \<noteq> []" and new: "new \<noteq> []" "hd new \<notin> set old" "last new \<notin> set old"
    and "\<not> containsStr new old"
  shows "\<not> containsStr (replaceAll s old new) old"
  using old
proof (induction s rule: replaceAll_cases)
  case Nil
  then show ?case using old by simp
next
  case (hit s)
  show ?case
  proof
    assume "containsStr (replaceAll s old new) old"
    with hit(1) old have "containsStr (new @ replaceAll (drop (length old) s) old new) old"
      by (simp add: replaceAll_hit)
    then have "containsStr new old \<or> containsStr (replaceAll (drop (length old) s) old new) old"
      using new old by (intro contains_append_delim) auto
    with hit(2) assms(5) show False by blast
  qed
next
  case (miss c cs)
  show ?case
  proof
    assume "containsStr (replaceAll (c # cs) old new) old"
    then have "containsStr (c # replaceAll cs old new) old"
      using old miss(1) by (simp add: replaceAll_miss)
    with miss(2) have "hasPrefix (c # replaceAll cs old new) old" by auto
    with old obtain o' where o': "old = c # o'" "hasPrefix (replaceAll cs old new) o'"
      by (cases old) auto
    with new have "hd new \<notin> set o'" by simp
    with o'(2) have "hasPrefix cs o'" using replaceAll_prefix_back [OF old new(1)] by blast
    with o' miss(1) show False by simp
  qed
qed

lemma set_replaceAll: "old \<noteq> [] \<Longrightarrow> set (replaceAll s old new) \<subseteq> set s \<union> set new"
proof (induction s rule: replaceAll_cases)
  case (hit s)
  then show ?case
    using set_drop_subset [of "length old" s] by (cases "old = []") (auto simp: replaceAll_hit)
next
  case (miss c cs)
  then show ?case by (cases "old = []") (auto simp: replaceAll_miss)
qed auto

text \<open>A guard that returns an error, and the success of the code after it.\<close>

lemma if_Inl_eq_Inr: "(if A then Inl e else X) = Inr out \<longleftrightarrow> \<not> A \<and> X = Inr out"
  by simp

text \<open>The sequence \<open>x, err := f(); if err != nil { return err }\<close>.\<close>

definition andThen :: "'e + 'a \<Rightarrow> ('a \<Rightarrow> 'e + 'b) \<Rightarrow> 'e + 'b" where
  "andThen r f = (case r of Inl e \<Rightarrow> Inl e | Inr a \<Rightarrow> f a)"

lemma andThen_Inr: "andThen r f = Inr b \<longleftrightarrow> (\<exists>a. r = Inr a \<and> f a = Inr b)"
  by (auto simp: andThen_def split: sum.splits)

lemma andThen_Inl: "andThen r f = Inl e \<longleftrightarrow> r = Inl e \<or> (\<exists>a. r = Inr a \<and> f a = Inl e)"
  by (auto simp: andThen_def split: sum.splits)

lemma andThen_simps [simp]: "andThen (Inl e) f = Inl e" "andThen (Inr a) f = f a"
  by (simp_all add: andThen_def)

end
