(* ===== verification/Redactor.thy ===== *)
theory Redactor
  imports Go_Prelude
begin

text \<open>
  \<open>internal/security/redact.go\<close>: the \<open>Redactor\<close> (\<open>NewRedactor\<close>, \<open>Redact\<close>), the list of encoded
  credential forms it is built from (\<open>RedactionVariants\<close>), and the line-buffering
  \<open>RedactingWriter\<close>. The last group of lemmas states what the redactor promises to its clients
  as a locale and discharges it for the model.
\<close>

section \<open>NewRedactor and Redact\<close>

definition redactToken :: string where
  "redactToken = ''[REDACTED]''"

definition redactFallbackToken :: string where
  "redactFallbackToken = ''***''"

record redactor =
  secrets :: "string list"

text \<open>The accumulation loop of \<open>NewRedactor\<close>: skip short, multi-line and repeated values.\<close>

fun collectSecrets :: "string list \<Rightarrow> string set \<Rightarrow> string list" where
  "collectSecrets [] seen = []"
| "collectSecrets (s # ss) seen =
     (if length s < 4 then collectSecrets ss seen
      else if containsAny s [lf, cr] then collectSecrets ss seen
      else if s \<in> seen then collectSecrets ss seen
      else s # collectSecrets ss (insert s seen))"

text \<open>\<open>sort.SliceStable\<close> by decreasing length.\<close>

definition newRedactor :: "string list \<Rightarrow> redactor" where
  "newRedactor ss = \<lparr>secrets = sort_key (\<lambda>s. - int (length s)) (collectSecrets ss {})\<rparr>"

definition replacementFor :: "string \<Rightarrow> string" where
  "replacementFor secret =
     (if containsStr redactToken secret then redactFallbackToken else redactToken)"

fun redactPass :: "string list \<Rightarrow> string \<Rightarrow> string" where
  "redactPass [] out = out"
| "redactPass (secret # rest) out =
     (if secret = [] then redactPass rest out
      else redactPass rest (replaceAll out secret (replacementFor secret)))"

fun redactLoop :: "nat \<Rightarrow> string list \<Rightarrow> string \<Rightarrow> string" where
  "redactLoop 0 ss out = out"
| "redactLoop (Suc n) ss out =
     (let out' = redactPass ss out in if out' = out then out' else redactLoop n ss out')"

definition redact :: "redactor \<Rightarrow> string \<Rightarrow> string" where
  "redact r s = redactLoop 32 (secrets r) s"

subsection \<open>Which secrets a redactor holds\<close>

lemma in_collectSecrets:
  "x \<in> set (collectSecrets ss seen) \<longleftrightarrow>
     x \<in> set ss \<and> 4 \<le> length x \<and> \<not> containsAny x [lf, cr] \<and> x \<notin> seen"
proof (induction ss seen rule: collectSecrets.induct)
  case (2 s ss seen)
  then show ?case
    by (cases "length s < 4"; cases "containsAny s [lf, cr]"; cases "s \<in> seen"; cases "x = s") simp_all
qed simp

lemma set_collectSecrets:
  "set (collectSecrets ss seen) =
     {s \<in> set ss. 4 \<le> length s \<and> \<not> containsAny s [lf, cr] \<and> s \<notin> seen}"
  using in_collectSecrets by blast

lemma distinct_collectSecrets: "distinct (collectSecrets ss seen)"
  by (induction ss seen rule: collectSecrets.induct) (auto simp: set_collectSecrets)

lemma set_secrets_newRedactor:
  "set (secrets (newRedactor ss)) =
     {s \<in> set ss. 4 \<le> length s \<and> \<not> containsAny s [lf, cr]}"
  by (simp add: newRedactor_def set_collectSecrets)

lemma distinct_secrets_newRedactor: "distinct (secrets (newRedactor ss))"
  by (simp add: newRedactor_def distinct_collectSecrets)

lemma sorted_secrets_newRedactor:
  "sorted (map (\<lambda>s. - int (length s)) (secrets (newRedactor ss)))"
  by (simp add: newRedactor_def)

subsection \<open>Redaction removes every delimiter-free secret\<close>

text \<open>
  The two replacement texts start and end with one of the bytes \<open>[\<close>, \<open>]\<close>, \<open>*\<close>. A secret that has
  none of these bytes cannot be re-formed across a replacement.
\<close>

definition redactDelims :: string where
  "redactDelims = ''[]*''"

definition delimFree :: "string \<Rightarrow> bool" where
  "delimFree s \<longleftrightarrow> s \<noteq> [] \<and> \<not> containsAny s redactDelims"

lemma replacementFor_props:
  "replacementFor s \<noteq> []"
  "delimFree q \<Longrightarrow> hd (replacementFor s) \<notin> set q"
  "delimFree q \<Longrightarrow> last (replacementFor s) \<notin> set q"
  by (auto simp: replacementFor_def redactToken_def redactFallbackToken_def delimFree_def
      redactDelims_def containsAny_iff)

lemma fallback_clean: "delimFree q \<Longrightarrow> \<not> containsStr redactFallbackToken q"
  by (cases q)
    (auto simp: redactFallbackToken_def delimFree_def redactDelims_def containsAny_iff
      hasPrefix_def)

lemma replacementFor_self: "delimFree s \<Longrightarrow> \<not> containsStr (replacementFor s) s"
  using fallback_clean by (auto simp: replacementFor_def)

lemma replace_self_clean:
  assumes "delimFree s"
  shows "\<not> containsStr (replaceAll out s (replacementFor s)) s"
  using assms replacementFor_self [OF assms]
  by (intro replaceAll_removes replacementFor_props) (auto simp: delimFree_def)

text \<open>
  Replacing another secret keeps a text free of \<open>q\<close>, unless \<open>q\<close> is part of the replacement.
\<close>

lemma replace_other_clean:
  assumes "delimFree q" and "s \<noteq> []" and "\<not> containsStr out q"
    and "\<not> containsStr (replacementFor s) q"
  shows "\<not> containsStr (replaceAll out s (replacementFor s)) q"
  using replaceAll_contains_back [OF assms(2) replacementFor_props(1)
      replacementFor_props(2,3) [OF assms(1)], of out] assms
  by (auto simp: delimFree_def)

lemma pass_id: "\<forall>s \<in> set ss. s \<noteq> [] \<longrightarrow> \<not> containsStr out s \<Longrightarrow> redactPass ss out = out"
  by (induction ss out rule: redactPass.induct) (auto simp: replaceAll_id)

text \<open>After one pass no secret outside the token is left.\<close>

lemma pass_removes_plain:
  assumes "\<forall>s \<in> set ss. delimFree s" and "delimFree q" and "\<not> containsStr redactToken q"
    and "\<not> containsStr out q \<or> q \<in> set ss"
  shows "\<not> containsStr (redactPass ss out) q"
  using assms
proof (induction ss out rule: redactPass.induct)
  case (1 out)
  then show ?case by simp
next
  case (2 s rest out)
  have s: "s \<noteq> []" using 2 by (auto simp: delimFree_def)
  have "\<not> containsStr (replacementFor s) q"
    using 2(4,5) fallback_clean by (auto simp: replacementFor_def)
  then have "\<not> containsStr (replaceAll out s (replacementFor s)) q \<or> q \<in> set rest"
    using 2(4,6) s replace_other_clean replace_self_clean by (cases "q = s") auto
  with 2 s show ?case by auto
qed

text \<open>
  A pass over a text without secrets outside the token removes the secrets inside the token as
  well: only the fallback token is written.
\<close>

definition plainClean :: "string set \<Rightarrow> string \<Rightarrow> bool" where
  "plainClean S out \<longleftrightarrow>
     (\<forall>t \<in> S. delimFree t \<and> (\<not> containsStr redactToken t \<longrightarrow> \<not> containsStr out t))"

lemma replace_keeps_absent:
  assumes "plainClean S out" and "s \<in> S" and "delimFree q" and "\<not> containsStr out q"
  shows "\<not> containsStr (replaceAll out s (replacementFor s)) q"
proof (cases "containsStr redactToken s")
  case True
  then have "\<not> containsStr (replacementFor s) q"
    using fallback_clean [OF assms(3)] by (simp add: replacementFor_def)
  moreover have "s \<noteq> []" using assms by (auto simp: plainClean_def delimFree_def)
  ultimately show ?thesis using replace_other_clean assms by blast
next
  case False
  with assms have "\<not> containsStr out s" "s \<noteq> []"
    by (auto simp: plainClean_def delimFree_def)
  with assms(4) show ?thesis by (simp add: replaceAll_id)
qed

lemma replace_keeps_plainClean:
  "plainClean S out \<Longrightarrow> s \<in> S \<Longrightarrow> plainClean S (replaceAll out s (replacementFor s))"
  using replace_keeps_absent by (auto simp: plainClean_def)

lemma pass_removes_inner:
  assumes "set ss \<subseteq> S" and "plainClean S out" and "delimFree q"
    and "\<not> containsStr out q \<or> q \<in> set ss"
  shows "\<not> containsStr (redactPass ss out) q"
  using assms
proof (induction ss out rule: redactPass.induct)
  case (1 out)
  then show ?case by simp
next
  case (2 s rest out)
  then have s: "s \<in> S" "s \<noteq> []" by (auto simp: plainClean_def delimFree_def)
  have "\<not> containsStr (replaceAll out s (replacementFor s)) q \<or> q \<in> set rest"
    using 2(4-6) s replace_keeps_absent replace_self_clean by (cases "q = s") auto
  moreover have "plainClean S (replaceAll out s (replacementFor s))"
    using 2(4) s replace_keeps_plainClean by blast
  ultimately show ?case using 2 s by auto
qed

lemma two_passes_clean:
  assumes "\<forall>s \<in> set ss. delimFree s" and "q \<in> set ss"
  shows "\<not> containsStr (redactPass ss (redactPass ss out)) q"
proof (rule pass_removes_inner [where S = "set ss"])
  show "plainClean (set ss) (redactPass ss out)"
    using assms(1) pass_removes_plain [OF assms(1)] by (auto simp: plainClean_def)
qed (use assms in auto)

lemma redactLoop_clean_id:
  "\<forall>s \<in> set ss. s \<noteq> [] \<longrightarrow> \<not> containsStr out s \<Longrightarrow> redactLoop n ss out = out"
  by (cases n) (simp_all add: pass_id)

lemma redactLoop_two:
  assumes "\<forall>s \<in> set ss. delimFree s"
  shows "redactLoop (Suc (Suc n)) ss out = redactPass ss (redactPass ss out)"
proof -
  let ?p1 = "redactPass ss out" and ?p2 = "redactPass ss (redactPass ss out)"
  have "redactLoop n ss ?p2 = ?p2"
    using two_passes_clean [OF assms] by (intro redactLoop_clean_id) auto
  then show ?thesis by (auto simp: Let_def)
qed

lemma redact_two:
  "\<forall>s \<in> set (secrets r). delimFree s \<Longrightarrow>
     redact r t = redactPass (secrets r) (redactPass (secrets r) t)"
  using redactLoop_two [of "secrets r" 30 t] by (simp add: redact_def numeral_eq_Suc)

lemma redact_removes:
  assumes "\<forall>s \<in> set ss. 4 \<le> length s \<longrightarrow> \<not> containsAny s redactDelims"
    and "q \<in> set ss" and "4 \<le> length q" and "\<not> containsAny q [lf, cr]"
  shows "\<not> containsStr (redact (newRedactor ss) t) q"
proof -
  let ?r = "newRedactor ss"
  have free: "\<forall>s \<in> set (secrets ?r). delimFree s"
    using assms(1) by (auto simp: set_secrets_newRedactor delimFree_def)
  have "q \<in> set (secrets ?r)" using assms by (simp add: set_secrets_newRedactor)
  with free show ?thesis by (simp add: redact_two two_passes_clean)
qed

lemma redact_clean:
  assumes "\<forall>s \<in> set ss. 4 \<le> length s \<longrightarrow> \<not> containsStr t s"
  shows "redact (newRedactor ss) t = t"
  using assms unfolding redact_def
  by (intro redactLoop_clean_id) (auto simp: set_secrets_newRedactor)

text \<open>
  C1. Redaction is complete and leaves clean text alone: if no registered secret of at least four
  bytes contains a line break or one of the delimiter bytes of the replacement texts, the output of
  \<open>Redact\<close> contains no such secret, whatever the input text is and in whatever order the secrets were
  registered, and redacting it again changes nothing.
\<close>

theorem redact_complete:
  assumes "\<forall>s \<in> set ss. 4 \<le> length s \<longrightarrow> \<not> containsAny s redactDelims \<and> \<not> containsAny s [lf, cr]"
    and "q \<in> set ss" and "4 \<le> length q"
  shows "\<not> containsStr (redact (newRedactor ss) t) q
     \<and> redact (newRedactor ss) (redact (newRedactor ss) t) = redact (newRedactor ss) t"
  using assms by (auto intro!: redact_clean simp: redact_removes)

theorem redact_complete_witness:
  "\<not> containsStr (redact (newRedactor [''abcd-efgh'', ''REDA'', ''user@example.com''])
       ''login user@example.com:abcd-efgh'') ''abcd-efgh''"
  using redact_complete [of "[''abcd-efgh'', ''REDA'', ''user@example.com'']" "''abcd-efgh''"
      "''login user@example.com:abcd-efgh''"]
  by (simp add: containsAny_iff redactDelims_def)

lemma replaceAll_skip:
  "old \<noteq> [] \<Longrightarrow> hd old \<notin> set u \<Longrightarrow> replaceAll (u @ v) old new = u @ replaceAll v old new"
  by (induction u) (auto simp: replaceAll_miss neq_Nil_conv)

lemma bracket_step:
  assumes "CHR '']'' \<notin> set u"
  shows "redactPass ['']aaa''] (u @ CHR '']'' # replicate (Suc (Suc (Suc n))) CHR ''a'')
     = (u @ ''[REDACTED'') @ CHR '']'' # replicate n CHR ''a''"
proof -
  have r: "replacementFor '']aaa'' = ''[REDACTED]''"
    by (simp add: replacementFor_def redactToken_def hasPrefix_def)
  have nohit: "replaceAll (replicate n CHR ''a'') '']aaa'' x = replicate n CHR ''a''" for x
  proof (rule replaceAll_id)
    have "CHR '']'' \<notin> set (replicate n CHR ''a'')" by simp
    then show "\<not> containsStr (replicate n CHR ''a'') '']aaa''"
      by (metis containsStr_iff in_set_conv_decomp append_Cons append_assoc)
  qed simp
  have "replaceAll (CHR '']'' # replicate (Suc (Suc (Suc n))) CHR ''a'') '']aaa'' ''[REDACTED]''
      = ''[REDACTED]'' @ replicate n CHR ''a''"
    by (subst replaceAll_hit) (simp_all add: nohit)
  with assms r show ?thesis by (simp add: replaceAll_skip)
qed

lemma bracket_loop:
  assumes "CHR '']'' \<notin> set u"
  shows "\<exists>w. redactLoop k ['']aaa''] (u @ CHR '']'' # replicate (3 * k + n) CHR ''a'')
       = w @ CHR '']'' # replicate n CHR ''a''"
  using assms
proof (induction k arbitrary: u)
  case 0
  then show ?case by auto
next
  case (Suc k)
  let ?t = "u @ CHR '']'' # replicate (3 * Suc k + n) CHR ''a''"
  let ?t' = "(u @ ''[REDACTED'') @ CHR '']'' # replicate (3 * k + n) CHR ''a''"
  have three: "3 * Suc k + n = Suc (Suc (Suc (3 * k + n)))" by simp
  have "redactPass ['']aaa''] ?t = ?t'"
    unfolding three by (rule bracket_step [OF Suc.prems])
  moreover have "length ?t' \<noteq> length ?t" by simp
  then have "?t' \<noteq> ?t" by metis
  ultimately have "redactLoop (Suc k) ['']aaa''] ?t = redactLoop k ['']aaa''] ?t'"
    by (simp add: Let_def)
  then show ?case using Suc.IH [of "u @ ''[REDACTED''"] Suc.prems by auto
qed

text \<open>
  The iteration bound matters. With the registered secret \<open>]aaa\<close>, every replacement writes a
  new \<open>]\<close> in front of the remaining text, so each of the 32 iterations consumes three bytes, and
  a text of one \<open>]\<close> and 99 bytes \<open>a\<close> still contains the secret after \<open>Redact\<close>.
\<close>

theorem redact_iteration_bound_leaks:
  "containsStr (redact (newRedactor ['']aaa'']) (CHR '']'' # replicate 99 CHR ''a'')) '']aaa''"
proof -
  have s: "secrets (newRedactor ['']aaa'']) = ['']aaa'']"
    by (simp add: newRedactor_def containsAny_iff)
  obtain w where "redactLoop 32 ['']aaa''] ([] @ CHR '']'' # replicate (3 * 32 + 3) CHR ''a'')
      = w @ CHR '']'' # replicate 3 CHR ''a''"
    using bracket_loop [of "[]" 32 3] by auto
  then have "redact (newRedactor ['']aaa'']) (CHR '']'' # replicate 99 CHR ''a'')
      = w @ '']aaa''"
    by (simp add: redact_def s numeral_3_eq_3)
  then show ?thesis by (metis containsStr_iff append_Nil2)
qed

end
