(* ===== verification/Go_Encoding.thy ===== *)
theory Go_Encoding
  imports Go_Prelude
begin

text \<open>
  The text encodings of Go's standard library that the sources use: UTF-8 rune sizes, base64 in
  its four variants, URL query and path escaping with path unescaping, the body of a JSON string
  as \<open>json.Marshal\<close> writes it, and case folding.
\<close>

subsection \<open>UTF-8\<close>

definition inRange :: "nat \<Rightarrow> nat \<Rightarrow> char \<Rightarrow> bool" where
  "inRange lo hi c \<longleftrightarrow> lo \<le> bval c \<and> bval c \<le> hi"

text \<open>The size of the rune at the head of a byte sequence, 0 where it is not valid UTF-8.\<close>

fun utf8Size :: "string \<Rightarrow> nat" where
  "utf8Size [] = 0"
| "utf8Size (a # s) =
     (if bval a < 0x80 then 1
      else case s of
        [] \<Rightarrow> 0
      | b # t \<Rightarrow>
          if inRange 0xC2 0xDF a then (if inRange 0x80 0xBF b then 2 else 0)
          else case t of
            [] \<Rightarrow> 0
          | c # u \<Rightarrow>
              if inRange 0xE0 0xEF a
              then (if inRange (if bval a = 0xE0 then 0xA0 else 0x80)
                       (if bval a = 0xED then 0x9F else 0xBF) b \<and> inRange 0x80 0xBF c
                    then 3 else 0)
              else case u of
                [] \<Rightarrow> 0
              | d # _ \<Rightarrow>
                  if inRange 0xF0 0xF4 a
                    \<and> inRange (if bval a = 0xF0 then 0x90 else 0x80)
                        (if bval a = 0xF4 then 0x8F else 0xBF) b
                    \<and> inRange 0x80 0xBF c \<and> inRange 0x80 0xBF d
                  then 4 else 0)"

lemma utf8Size_le: "utf8Size s \<le> length s"
  by (cases s) (auto split: list.splits)

text \<open>\<open>utf8.ValidString\<close>.\<close>

function validUTF8 :: "string \<Rightarrow> bool" where
  "validUTF8 s = (if s = [] then True else if utf8Size s = 0 then False
                  else validUTF8 (drop (utf8Size s) s))"
  by pat_completeness auto
termination
  by (relation "measure length") auto

declare validUTF8.simps [simp del]

subsection \<open>Hexadecimal, base64, URL escaping, JSON strings\<close>

definition hexDigit :: "string \<Rightarrow> nat \<Rightarrow> char" where
  "hexDigit digits n = digits ! (n mod 16)"

definition lowerHex :: string where "lowerHex = ''0123456789abcdef''"
definition upperHex :: string where "upperHex = ''0123456789ABCDEF''"

definition b64Std :: string where
  "b64Std = ''ABCDEFGHIJKLMNOPQRSTUVWXYZabcdefghijklmnopqrstuvwxyz0123456789+/''"

definition b64Url :: string where
  "b64Url = ''ABCDEFGHIJKLMNOPQRSTUVWXYZabcdefghijklmnopqrstuvwxyz0123456789-_''"

definition sextet :: "string \<Rightarrow> nat \<Rightarrow> char" where
  "sextet alphabet n = alphabet ! (n mod 64)"

fun base64 :: "string \<Rightarrow> bool \<Rightarrow> string \<Rightarrow> string" where
  "base64 al pad [] = []"
| "base64 al pad [x] =
     [sextet al (bval x div 4), sextet al (bval x mod 4 * 16)]
     @ (if pad then ''=='' else [])"
| "base64 al pad [x, y] =
     [sextet al (bval x div 4), sextet al (bval x mod 4 * 16 + bval y div 16),
      sextet al (bval y mod 16 * 4)]
     @ (if pad then ''='' else [])"
| "base64 al pad (x # y # z # rest) =
     [sextet al (bval x div 4), sextet al (bval x mod 4 * 16 + bval y div 16),
      sextet al (bval y mod 16 * 4 + bval z div 64), sextet al (bval z mod 64)]
     @ base64 al pad rest"

definition isAlnum :: "char \<Rightarrow> bool" where
  "isAlnum c \<longleftrightarrow> inRange 0x30 0x39 c \<or> inRange 0x41 0x5A c \<or> inRange 0x61 0x7A c"

definition percentByte :: "char \<Rightarrow> string" where
  "percentByte c = [CHR ''%'', hexDigit upperHex (bval c div 16), hexDigit upperHex (bval c)]"

definition queryEscape :: "string \<Rightarrow> string" where
  "queryEscape s =
     concat (map (\<lambda>c. if isAlnum c \<or> c \<in> set ''-_.~'' then [c]
                      else if c = sp then ''+'' else percentByte c) s)"

definition pathEscape :: "string \<Rightarrow> string" where
  "pathEscape s =
     concat (map (\<lambda>c. if isAlnum c \<or> c \<in> set ''-_.~$&+:=@'' then [c] else percentByte c) s)"

definition hexValue :: "char \<Rightarrow> nat option" where
  "hexValue c =
     (if inRange 0x30 0x39 c then Some (bval c - 0x30)
      else if inRange 0x61 0x66 c then Some (bval c - 0x61 + 10)
      else if inRange 0x41 0x46 c then Some (bval c - 0x41 + 10)
      else None)"

text \<open>\<open>url.PathUnescape\<close>: \<open>None\<close> is the escape error.\<close>

fun pathUnescape :: "string \<Rightarrow> string option" where
  "pathUnescape [] = Some []"
| "pathUnescape (c # s) =
     (if c = CHR ''%'' then
        (case s of
           a # b # rest \<Rightarrow>
             (case (hexValue a, hexValue b) of
                (Some x, Some y) \<Rightarrow> map_option ((#) (char_of (16 * x + y))) (pathUnescape rest)
              | _ \<Rightarrow> None)
         | _ \<Rightarrow> None)
      else map_option ((#) c) (pathUnescape s))"

text \<open>
  The body of the JSON string \<open>json.Marshal\<close> writes for a Go string, HTML escaping included.
\<close>

definition jsonByte :: "char \<Rightarrow> string" where
  "jsonByte c =
     (if c = dquote \<or> c = backslash then [backslash, c]
      else if bval c = 8 then [backslash, CHR ''b'']
      else if bval c = 12 then [backslash, CHR ''f'']
      else if c = lf then [backslash, CHR ''n'']
      else if c = cr then [backslash, CHR ''r'']
      else if c = tab then [backslash, CHR ''t'']
      else if bval c < 0x20 \<or> c \<in> set ''<>&''
      then [backslash, CHR ''u'', CHR ''0'', CHR ''0'',
            hexDigit lowerHex (bval c div 16), hexDigit lowerHex (bval c)]
      else [c])"

text \<open>One rune: how many bytes it takes and what is written for it.\<close>

definition jsonRune :: "string \<Rightarrow> nat \<times> string" where
  "jsonRune s =
     (if bval (hd s) < 0x80 then (1, jsonByte (hd s))
      else if utf8Size s = 0 then (1, backslash # ''ufffd'')
      else if take 3 s = [CHR 0xE2, CHR 0x80, CHR 0xA8] then (3, backslash # ''u2028'')
      else if take 3 s = [CHR 0xE2, CHR 0x80, CHR 0xA9] then (3, backslash # ''u2029'')
      else (utf8Size s, take (utf8Size s) s))"

lemma jsonRune_pos: "0 < fst (jsonRune s)"
  by (simp add: jsonRune_def)

function jsonString :: "string \<Rightarrow> string" where
  "jsonString s =
     (if s = [] then [] else snd (jsonRune s) @ jsonString (drop (fst (jsonRune s)) s))"
  by pat_completeness auto
termination
  by (relation "measure length") (auto simp: jsonRune_pos)

declare jsonString.simps [simp del]

subsection \<open>Case\<close>

definition lowerByte :: "char \<Rightarrow> char" where
  "lowerByte c = (if inRange 0x41 0x5A c then char_of (bval c + 32) else c)"

text \<open>
  \<open>strings.ToLower\<close> and \<open>strings.EqualFold\<close> as the sources use them, that is against ASCII text.
  Besides the ASCII letters, \<open>ToLower\<close> maps U+212A and U+0130 to ASCII letters, and folding
  identifies U+212A with \<open>k\<close> and U+017F with \<open>s\<close>; no other rune reaches ASCII, so the remaining
  multi-byte runes are kept as they are.
\<close>

fun toLower :: "string \<Rightarrow> string" where
  "toLower [] = []"
| "toLower (a # s) =
     (if take 3 (a # s) = [CHR 0xE2, CHR 0x84, CHR 0xAA] then CHR ''k'' # toLower (drop 2 s)
      else if take 2 (a # s) = [CHR 0xC4, CHR 0xB0] then CHR ''i'' # toLower (drop 1 s)
      else lowerByte a # toLower s)"

fun foldCase :: "string \<Rightarrow> string" where
  "foldCase [] = []"
| "foldCase (a # s) =
     (if take 3 (a # s) = [CHR 0xE2, CHR 0x84, CHR 0xAA] then CHR ''k'' # foldCase (drop 2 s)
      else if take 2 (a # s) = [CHR 0xC5, CHR 0xBF] then CHR ''s'' # foldCase (drop 1 s)
      else lowerByte a # foldCase s)"

definition equalFold :: "string \<Rightarrow> string \<Rightarrow> bool" where
  "equalFold s t \<longleftrightarrow> foldCase s = foldCase t"

lemma equalFold_refl [simp]: "equalFold s s"
  by (simp add: equalFold_def)

subsection \<open>The alphabets of the encodings\<close>

lemma sextet_in: "length al = 64 \<Longrightarrow> sextet al n \<in> set al"
  by (simp add: sextet_def)

lemma set_base64: "length al = 64 \<Longrightarrow> set (base64 al pad s) \<subseteq> set al \<union> {CHR ''=''}"
  by (induction al pad s rule: base64.induct) (auto simp: sextet_in)

lemma hexDigit_in: "length ds = 16 \<Longrightarrow> hexDigit ds n \<in> set ds"
  by (simp add: hexDigit_def)

lemma length_hexes: "length upperHex = 16" "length lowerHex = 16"
  by (simp_all add: upperHex_def lowerHex_def)

lemma set_percentByte: "set (percentByte c) \<subseteq> set upperHex \<union> {CHR ''%''}"
  using hexDigit_in [OF length_hexes(1)] by (simp add: percentByte_def)

lemma set_queryEscape:
  "set (queryEscape s) \<subseteq> {c. isAlnum c} \<union> set ''-_.~+%'' \<union> set upperHex"
proof -
  have "set (if isAlnum c \<or> c \<in> set ''-_.~'' then [c] else if c = sp then ''+'' else percentByte c)
      \<subseteq> {c. isAlnum c} \<union> set ''-_.~+%'' \<union> set upperHex" for c
    using set_percentByte [of c] by auto
  then show ?thesis unfolding queryEscape_def by (rule set_concat_map_subset)
qed

lemma set_pathEscape:
  "set (pathEscape s) \<subseteq> {c. isAlnum c} \<union> set ''-_.~$&+:=@%'' \<union> set upperHex"
proof -
  have "set (if isAlnum c \<or> c \<in> set ''-_.~$&+:=@'' then [c] else percentByte c)
      \<subseteq> {c. isAlnum c} \<union> set ''-_.~$&+:=@%'' \<union> set upperHex" for c
    using set_percentByte [of c] by auto
  then show ?thesis unfolding pathEscape_def by (rule set_concat_map_subset)
qed

lemma set_jsonByte:
  "set (jsonByte c) \<subseteq> {c, backslash} \<union> set ''bfnrtu'' \<union> set lowerHex"
  using hexDigit_in [OF length_hexes(2)] by (auto simp: jsonByte_def lowerHex_def)

lemma set_jsonRune:
  assumes "s \<noteq> []"
  shows "set (snd (jsonRune s)) \<subseteq> set s \<union> {backslash} \<union> set ''bfnrtu'' \<union> set lowerHex"
    (is "_ \<subseteq> ?A")
proof -
  have "set (jsonByte (hd s)) \<subseteq> ?A"
    using set_jsonByte [of "hd s"] hd_in_set [OF assms] by blast
  moreover have "set (take (utf8Size s) s) \<subseteq> ?A" using set_take_subset by fast
  moreover have "set (backslash # ''ufffd'') \<subseteq> ?A" "set (backslash # ''u2028'') \<subseteq> ?A"
      "set (backslash # ''u2029'') \<subseteq> ?A"
    by (simp_all add: lowerHex_def)
  ultimately show ?thesis
    unfolding jsonRune_def by (simp only: snd_conv simp_thms split: if_split)
qed

lemma set_jsonString:
  "set (jsonString s) \<subseteq> set s \<union> {backslash} \<union> set ''bfnrtu'' \<union> set lowerHex"
proof (induction s rule: jsonString.induct)
  case (1 s)
  show ?case
  proof (cases "s = []")
    case True
    then show ?thesis by (simp add: jsonString.simps)
  next
    case False
    let ?d = "drop (fst (jsonRune s)) s"
    have "set ?d \<subseteq> set s" by (rule set_drop_subset)
    moreover have "set (jsonString s) = set (snd (jsonRune s)) \<union> set (jsonString ?d)"
      using False by (subst jsonString.simps) simp
    ultimately show ?thesis using 1 [OF False] set_jsonRune [OF False] by blast
  qed
qed

end
