(* ===== verification/Redact_Writer.thy ===== *)
theory Redact_Writer
  imports Redactor Go_Encoding
begin

text \<open>
  The rest of \<open>internal/security/redact.go\<close>: the credential forms handed to the redactor
  (\<open>RedactionVariants\<close>) and the \<open>RedactingWriter\<close> that buffers stderr into complete lines before
  it redacts them. The underlying \<open>io.Writer\<close> is a function from its state and the data to the
  number of bytes taken, an error, and its new state.
\<close>

section \<open>RedactionVariants\<close>

record credentialPair =
  username :: string
  password :: string

definition addRaw :: "string \<Rightarrow> string list \<Rightarrow> string list" where
  "addRaw v vs = (if v = [] then vs else if v \<in> set vs then vs else vs @ [v])"

definition addVariant :: "string \<Rightarrow> string list \<Rightarrow> string list" where
  "addVariant v vs = addRaw (jsonString v) (addRaw v vs)"

definition addEncodings :: "string \<Rightarrow> string list \<Rightarrow> string list" where
  "addEncodings v vs =
     addVariant (base64 b64Url False v)
       (addVariant (base64 b64Url True v)
         (addVariant (base64 b64Std False v)
           (addVariant (base64 b64Std True v) vs)))"

definition basicForm :: "credentialPair \<Rightarrow> string" where
  "basicForm c = username c @ '':'' @ password c"

definition plainForm :: "credentialPair \<Rightarrow> string" where
  "plainForm c = [nul] @ username c @ [nul] @ password c"

definition plainWithAuthzID :: "credentialPair \<Rightarrow> string" where
  "plainWithAuthzID c = username c @ [nul] @ username c @ [nul] @ password c"

definition credentialVariants :: "credentialPair \<Rightarrow> string list \<Rightarrow> string list" where
  "credentialVariants c vs0 =
     (let vs1 = addVariant (password c) (addVariant (username c) vs0);
          vs2 = addVariant (pathEscape (username c)) (addVariant (queryEscape (username c)) vs1);
          vs3 = addVariant (pathEscape (password c)) (addVariant (queryEscape (password c)) vs2);
          vs4 = addEncodings (password c) (addEncodings (username c) vs3);
          vs5 = addEncodings (basicForm c) (addVariant (basicForm c) vs4);
          vs6 = addEncodings (plainForm c) (addVariant (plainForm c) vs5)
      in addEncodings (plainWithAuthzID c) (addVariant (plainWithAuthzID c) vs6))"

definition redactionVariants :: "credentialPair list \<Rightarrow> string list" where
  "redactionVariants cs = fold credentialVariants cs []"

lemma set_addRaw: "set (addRaw v vs) = set vs \<union> ({v} - {[]})"
  by (auto simp: addRaw_def)

text \<open>A set of values as the variants hold it: with the JSON-escaped forms, without the empty one.\<close>

definition withJson :: "string set \<Rightarrow> string set" where
  "withJson S = (S \<union> jsonString ` S) - {[]}"

lemma withJson_Un: "withJson (A \<union> B) = withJson A \<union> withJson B"
  by (auto simp: withJson_def)

lemma set_addVariant: "set (addVariant v vs) = set vs \<union> withJson {v}"
  by (auto simp: addVariant_def set_addRaw withJson_def)

definition encodedForms :: "string \<Rightarrow> string set" where
  "encodedForms v = {base64 al pad v |al pad. al \<in> {b64Std, b64Url}}"

lemma encodedForms_eq:
  "encodedForms v = {base64 b64Std True v, base64 b64Std False v, base64 b64Url True v,
     base64 b64Url False v}"
  by (auto simp: encodedForms_def) (metis (full_types))+

lemma set_addEncodings:
  "set (addEncodings v vs) = set vs \<union> withJson (encodedForms v)"
  by (auto simp: addEncodings_def set_addVariant encodedForms_eq withJson_def)

text \<open>The forms of one credential, before JSON escaping.\<close>

definition credentialForms :: "credentialPair \<Rightarrow> string set" where
  "credentialForms c =
     {username c, password c, queryEscape (username c), pathEscape (username c),
      queryEscape (password c), pathEscape (password c), basicForm c, plainForm c,
      plainWithAuthzID c}
     \<union> encodedForms (username c) \<union> encodedForms (password c) \<union> encodedForms (basicForm c)
     \<union> encodedForms (plainForm c) \<union> encodedForms (plainWithAuthzID c)"

lemma set_credentialVariants:
  "set (credentialVariants c vs) = set vs \<union> withJson (credentialForms c)"
proof -
  let ?w = "withJson"
  have "set (credentialVariants c vs) =
      set vs \<union> ?w ({username c} \<union> {password c} \<union> {queryEscape (username c)}
        \<union> {pathEscape (username c)} \<union> {queryEscape (password c)} \<union> {pathEscape (password c)}
        \<union> encodedForms (username c) \<union> encodedForms (password c)
        \<union> {basicForm c} \<union> encodedForms (basicForm c) \<union> {plainForm c} \<union> encodedForms (plainForm c)
        \<union> {plainWithAuthzID c} \<union> encodedForms (plainWithAuthzID c))"
    unfolding credentialVariants_def Let_def
    by (simp only: set_addVariant set_addEncodings withJson_Un Un_assoc)
  also have "{username c} \<union> {password c} \<union> {queryEscape (username c)}
        \<union> {pathEscape (username c)} \<union> {queryEscape (password c)} \<union> {pathEscape (password c)}
        \<union> encodedForms (username c) \<union> encodedForms (password c)
        \<union> {basicForm c} \<union> encodedForms (basicForm c) \<union> {plainForm c} \<union> encodedForms (plainForm c)
        \<union> {plainWithAuthzID c} \<union> encodedForms (plainWithAuthzID c) = credentialForms c"
    unfolding credentialForms_def by blast
  finally show ?thesis .
qed

lemma set_redactionVariants:
  "set (redactionVariants cs) = (\<Union>c \<in> set cs. withJson (credentialForms c))"
proof -
  have "set (fold credentialVariants cs vs) =
      set vs \<union> (\<Union>c \<in> set cs. withJson (credentialForms c))" for vs
    by (induction cs arbitrary: vs) (auto simp: set_credentialVariants)
  then show ?thesis by (simp add: redactionVariants_def)
qed

subsection \<open>No encoding introduces a delimiter byte\<close>

lemma noDelim_jsonString: "\<not> containsAny s redactDelims \<Longrightarrow> \<not> containsAny (jsonString s) redactDelims"
  using set_jsonString [of s]
  by (auto simp: containsAny_iff redactDelims_def lowerHex_def)

lemma isAlnum_delims: "\<not> isAlnum CHR ''[''" "\<not> isAlnum CHR '']''" "\<not> isAlnum CHR ''*''"
  by (simp_all add: isAlnum_def inRange_def bval_def)

lemma noDelim_escape:
  "\<not> containsAny (queryEscape s) redactDelims" "\<not> containsAny (pathEscape s) redactDelims"
  using set_queryEscape [of s] set_pathEscape [of s] isAlnum_delims
  by (auto simp: containsAny_iff redactDelims_def upperHex_def)

lemma noDelim_encoded: "v \<in> encodedForms s \<Longrightarrow> \<not> containsAny v redactDelims"
proof -
  have l: "length b64Std = 64" "length b64Url = 64" by (simp_all add: b64Std_def b64Url_def)
  have n: "set b64Std \<inter> set redactDelims = {}" "set b64Url \<inter> set redactDelims = {}"
      "CHR ''='' \<notin> set redactDelims"
    by (simp_all add: b64Std_def b64Url_def redactDelims_def)
  assume "v \<in> encodedForms s"
  then show ?thesis
    using set_base64 [OF l(1)] set_base64 [OF l(2)] n
    unfolding encodedForms_def containsAny_iff by blast
qed

lemma noDelim_forms:
  assumes "\<not> containsAny (username c) redactDelims" "\<not> containsAny (password c) redactDelims"
    and "v \<in> credentialForms c"
  shows "\<not> containsAny v redactDelims"
proof -
  have "\<not> containsAny (basicForm c) redactDelims" "\<not> containsAny (plainForm c) redactDelims"
      "\<not> containsAny (plainWithAuthzID c) redactDelims"
    using assms(1,2)
    by (simp_all add: basicForm_def plainForm_def plainWithAuthzID_def containsAny_def
        redactDelims_def)
  with assms noDelim_escape noDelim_encoded show ?thesis
    unfolding credentialForms_def by blast
qed

text \<open>
  C2. No form of a configured credential survives redaction. If the user names and passwords
  contain none of the bytes \<open>[\<close>, \<open>]\<close>, \<open>*\<close>, then the text redacted with the variants of these
  credentials contains no user name, no password, no URL-escaped form, no Basic-auth pair and no
  SASL PLAIN string, neither raw nor base64-encoded in any of the four alphabets, of at least
  four bytes and on one line.
\<close>

theorem credentials_never_survive:
  assumes "\<forall>c \<in> set cs. \<not> containsAny (username c) redactDelims
      \<and> \<not> containsAny (password c) redactDelims"
    and "c \<in> set cs" and "form \<in> credentialForms c \<union> jsonString ` credentialForms c"
    and "4 \<le> length form" and "\<not> containsAny form [lf, cr]"
  shows "\<not> containsStr (redact (newRedactor (redactionVariants cs)) t) form"
proof (rule redact_removes)
  show "\<forall>s \<in> set (redactionVariants cs). 4 \<le> length s \<longrightarrow> \<not> containsAny s redactDelims"
    using assms(1) noDelim_forms noDelim_jsonString
    unfolding set_redactionVariants withJson_def by blast
  have "form \<noteq> []" using assms(4) by auto
  then show "form \<in> set (redactionVariants cs)"
    using assms(2,3) unfolding set_redactionVariants withJson_def by blast
qed (use assms in auto)

definition sampleCredential :: credentialPair where
  "sampleCredential = \<lparr>username = ''me@icloud.com'', password = ''abcd-efgh-ijkl''\<rparr>"

theorem credentials_never_survive_witness:
  "\<not> containsStr (redact (newRedactor (redactionVariants [sampleCredential]))
        (''Authorization: Basic '' @ base64 b64Std True (basicForm sampleCredential)))
      (base64 b64Std True (basicForm sampleCredential))"
proof (rule credentials_never_survive)
  show "base64 b64Std True (basicForm sampleCredential)
      \<in> credentialForms sampleCredential \<union> jsonString ` credentialForms sampleCredential"
    by (simp add: credentialForms_def encodedForms_eq)
qed (auto simp: sampleCredential_def containsAny_iff redactDelims_def basicForm_def bval_def
    sextet_def b64Std_def)

section \<open>RedactingWriter\<close>

datatype io_error = ErrShortWrite | WriterFailed string

type_synonym 'w sink = "'w \<Rightarrow> string \<Rightarrow> nat \<times> io_error option \<times> 'w"

definition maxRedactBuf :: nat where
  "maxRedactBuf = 65536"

definition oversizedRedactMarker :: string where
  "oversizedRedactMarker = ''[REDACTED: oversized record truncated]'' @ [lf]"

record 'w redactingWriter =
  rw_w :: 'w
  rw_r :: redactor
  rw_buf :: string
  rw_discarding :: bool

definition newRedactingWriter :: "'w \<Rightarrow> redactor \<Rightarrow> 'w redactingWriter" where
  "newRedactingWriter w r = \<lparr>rw_w = w, rw_r = r, rw_buf = [], rw_discarding = False\<rparr>"

definition writeLocked ::
  "'w sink \<Rightarrow> 'w redactingWriter \<Rightarrow> string \<Rightarrow> io_error option \<times> 'w redactingWriter" where
  "writeLocked sink rw data =
     (case sink (rw_w rw) data of (n, err, w') \<Rightarrow>
        ((if err = None \<and> n \<noteq> length data then Some ErrShortWrite else err), rw\<lparr>rw_w := w'\<rparr>))"

definition emitOversizedMarkerLocked ::
  "'w sink \<Rightarrow> 'w redactingWriter \<Rightarrow> io_error option \<times> 'w redactingWriter" where
  "emitOversizedMarkerLocked sink rw = writeLocked sink rw (redact (rw_r rw) oversizedRedactMarker)"

text \<open>\<open>bytes.LastIndexByte(buf, '\n') + 1\<close>: the bytes through the last newline.\<close>

definition lineCut :: "string \<Rightarrow> nat" where
  "lineCut b = (case indexByte (rev b) lf of None \<Rightarrow> 0 | Some i \<Rightarrow> length b - i)"

definition emitLocked ::
  "'w sink \<Rightarrow> bool \<Rightarrow> 'w redactingWriter \<Rightarrow> io_error option \<times> 'w redactingWriter" where
  "emitLocked sink force rw =
     (if rw_buf rw = [] then (None, rw)
      else let cut = (if force then length (rw_buf rw) else lineCut (rw_buf rw)) in
        if cut = 0 then (None, rw)
        else writeLocked sink (rw\<lparr>rw_buf := drop cut (rw_buf rw)\<rparr>)
               (redact (rw_r rw) (take cut (rw_buf rw))))"

function writeLoop ::
  "'w sink \<Rightarrow> 'w redactingWriter \<Rightarrow> string \<Rightarrow> io_error option \<times> 'w redactingWriter" where
  "writeLoop sink rw p =
     (if p = [] then (None, rw)
      else if rw_discarding rw then
        (case indexByte p lf of
           None \<Rightarrow> (None, rw)
         | Some newline \<Rightarrow> writeLoop sink (rw\<lparr>rw_discarding := False\<rparr>) (drop (newline + 1) p))
      else case indexByte p lf of
        Some newline \<Rightarrow>
          (let recordLen = length (rw_buf rw) + newline + 1 in
           if recordLen > maxRedactBuf then
             (case emitOversizedMarkerLocked sink (rw\<lparr>rw_buf := []\<rparr>) of
                (Some e, rw') \<Rightarrow> (Some e, rw')
              | (None, rw') \<Rightarrow> writeLoop sink rw' (drop (newline + 1) p))
           else
             (case emitLocked sink False (rw\<lparr>rw_buf := rw_buf rw @ take (newline + 1) p\<rparr>) of
                (Some e, rw') \<Rightarrow> (Some e, rw')
              | (None, rw') \<Rightarrow> writeLoop sink rw' (drop (newline + 1) p)))
      | None \<Rightarrow>
          if length p + length (rw_buf rw) \<ge> maxRedactBuf then
            emitOversizedMarkerLocked sink (rw\<lparr>rw_buf := [], rw_discarding := True\<rparr>)
          else (None, rw\<lparr>rw_buf := rw_buf rw @ p\<rparr>))"
  by pat_completeness auto
termination
  by (relation "measure (\<lambda>(sink, rw, p). length p)") auto

declare writeLoop.simps [simp del]

text \<open>\<open>Write\<close> returns the length of its input, or 0 and the error.\<close>

definition rwWrite ::
  "'w sink \<Rightarrow> 'w redactingWriter \<Rightarrow> string \<Rightarrow> (nat \<times> io_error option) \<times> 'w redactingWriter" where
  "rwWrite sink rw p =
     (case writeLoop sink rw p of
        (None, rw') \<Rightarrow> ((length p, None), rw')
      | (Some e, rw') \<Rightarrow> ((0, Some e), rw'))"

definition rwFlush ::
  "'w sink \<Rightarrow> 'w redactingWriter \<Rightarrow> io_error option \<times> 'w redactingWriter" where
  "rwFlush sink rw = emitLocked sink True (rw\<lparr>rw_discarding := False\<rparr>)"

subsection \<open>A byte-at-a-time reference\<close>

text \<open>The sink that keeps everything it is given.\<close>

definition memSink :: "string sink" where
  "memSink w data = (length data, None, w @ data)"

definition rwStep :: "char \<Rightarrow> string redactingWriter \<Rightarrow> string redactingWriter" where
  "rwStep b rw =
     (if rw_discarding rw then (if b = lf then rw\<lparr>rw_discarding := False\<rparr> else rw)
      else if b = lf then
        rw\<lparr>rw_w := rw_w rw @ redact (rw_r rw) (rw_buf rw @ [lf]), rw_buf := []\<rparr>
      else if length (rw_buf rw) + 1 \<ge> maxRedactBuf then
        rw\<lparr>rw_w := rw_w rw @ redact (rw_r rw) oversizedRedactMarker, rw_buf := [],
           rw_discarding := True\<rparr>
      else rw\<lparr>rw_buf := rw_buf rw @ [b]\<rparr>)"

definition rwInv :: "'w redactingWriter \<Rightarrow> bool" where
  "rwInv rw \<longleftrightarrow> length (rw_buf rw) < maxRedactBuf \<and> lf \<notin> set (rw_buf rw)
     \<and> (rw_discarding rw \<longrightarrow> rw_buf rw = [])"

lemma rwInv_new: "rwInv (newRedactingWriter w r)"
  by (simp add: rwInv_def newRedactingWriter_def maxRedactBuf_def)

lemma rwInv_step: "rwInv rw \<Longrightarrow> rwInv (rwStep b rw)"
  by (auto simp: rwInv_def rwStep_def maxRedactBuf_def)

lemma rwInv_fold: "rwInv rw \<Longrightarrow> rwInv (fold rwStep p rw)"
  by (induction p arbitrary: rw) (auto simp: rwInv_step)

lemma fold_step_discarding:
  "lf \<notin> set p \<Longrightarrow> rw_discarding rw \<Longrightarrow> fold rwStep p rw = rw"
  by (induction p) (auto simp: rwStep_def)

lemma fold_step_plain:
  assumes "lf \<notin> set p" and "\<not> rw_discarding rw" and "length (rw_buf rw) < maxRedactBuf"
  shows "fold rwStep p rw =
     (if length p + length (rw_buf rw) \<ge> maxRedactBuf
      then rw\<lparr>rw_w := rw_w rw @ redact (rw_r rw) oversizedRedactMarker, rw_buf := [],
              rw_discarding := True\<rparr>
      else rw\<lparr>rw_buf := rw_buf rw @ p\<rparr>)"
  using assms
proof (induction p arbitrary: rw)
  case Nil
  then show ?case by simp
next
  case (Cons b p)
  show ?case
  proof (cases "length (rw_buf rw) + 1 \<ge> maxRedactBuf")
    case True
    let ?rw' = "rw\<lparr>rw_w := rw_w rw @ redact (rw_r rw) oversizedRedactMarker, rw_buf := [],
        rw_discarding := True\<rparr>"
    from True Cons.prems have "rwStep b rw = ?rw'" by (auto simp: rwStep_def)
    moreover have "fold rwStep p ?rw' = ?rw'"
      using Cons.prems(1) by (intro fold_step_discarding) auto
    ultimately show ?thesis using True by simp
  next
    case False
    with Cons.prems have "rwStep b rw = rw\<lparr>rw_buf := rw_buf rw @ [b]\<rparr>"
      by (auto simp: rwStep_def)
    with False Cons show ?thesis by simp
  qed
qed

lemma lineCut_line: "lf \<notin> set b \<Longrightarrow> lineCut (b @ p @ [lf]) = length (b @ p @ [lf])"
  by (simp add: lineCut_def)

lemma emit_line:
  assumes "rw_buf rw = u @ [lf]"
  shows "emitLocked memSink False rw =
     (None, rw\<lparr>rw_w := rw_w rw @ redact (rw_r rw) (u @ [lf]), rw_buf := []\<rparr>)"
  using assms
  by (simp add: emitLocked_def lineCut_def Let_def writeLocked_def memSink_def)

lemma emit_marker:
  "emitOversizedMarkerLocked memSink rw =
     (None, rw\<lparr>rw_w := rw_w rw @ redact (rw_r rw) oversizedRedactMarker\<rparr>)"
  by (simp add: emitOversizedMarkerLocked_def writeLocked_def memSink_def)

lemma split_at_newline:
  assumes "indexByte p lf = Some i"
  shows "p = take i p @ lf # drop (i + 1) p" and "lf \<notin> set (take i p)" and "i < length p"
    and "take (i + 1) p = take i p @ [lf]"
  using assms id_take_nth_drop [of i p] by (auto simp: indexByte_Some take_Suc_conv_app_nth)

lemma writeLoop_refines:
  "rwInv rw \<Longrightarrow> writeLoop memSink rw p = (None, fold rwStep p rw)"
proof (induction p arbitrary: rw rule: length_induct)
  case (1 p)
  show ?case
  proof (cases "p = []")
    case True
    then show ?thesis by (simp add: writeLoop.simps)
  next
    case ne: False
    show ?thesis
    proof (cases "indexByte p lf")
      case None
      then have nl: "lf \<notin> set p" by (simp add: indexByte_None)
      show ?thesis
      proof (cases "rw_discarding rw")
        case True
        with ne None nl show ?thesis by (simp add: writeLoop.simps [of _ rw] fold_step_discarding)
      next
        case False
        with ne None nl 1(2) show ?thesis
          by (subst writeLoop.simps) (simp add: fold_step_plain rwInv_def emit_marker)
      qed
    next
      case (Some i)
      note sp = split_at_newline [OF Some]
      let ?u = "take i p" and ?q = "drop (i + 1) p"
      have len: "length ?q < length p" using sp(3) by simp
      have ih: "writeLoop memSink rw' ?q = (None, fold rwStep ?q rw')" if "rwInv rw'" for rw'
        using 1(1) len that by blast
      have fold_p: "fold rwStep p rw = fold rwStep ?q (rwStep lf (fold rwStep ?u rw))"
        by (subst sp(1)) simp
      show ?thesis
      proof (cases "rw_discarding rw")
        case True
        then have "rwStep lf (fold rwStep ?u rw) = rw\<lparr>rw_discarding := False\<rparr>"
          using sp(2) by (simp add: fold_step_discarding) (simp add: rwStep_def)
        moreover have "rwInv (rw\<lparr>rw_discarding := False\<rparr>)" using 1(2) by (simp add: rwInv_def)
        ultimately show ?thesis
          using True ne Some ih fold_p by (subst writeLoop.simps) simp
      next
        case False
        note plain = fold_step_plain [OF sp(2) False]
        have b: "length (rw_buf rw) < maxRedactBuf" using 1(2) by (simp add: rwInv_def)
        show ?thesis
        proof (cases "length (rw_buf rw) + i + 1 > maxRedactBuf")
          case True
          let ?rw' = "rw\<lparr>rw_buf := [], rw_w := rw_w rw @ redact (rw_r rw) oversizedRedactMarker\<rparr>"
          have "rwStep lf (fold rwStep ?u rw) = ?rw'"
            using plain [OF b] True sp(3) False by (simp add: rwStep_def)
          moreover have "rwInv ?rw'" using False by (simp add: rwInv_def maxRedactBuf_def)
          ultimately show ?thesis
            using True False ne Some ih fold_p
            by (subst writeLoop.simps) (simp add: emit_marker Let_def)
        next
          case small: False
          let ?rw' = "rw\<lparr>rw_w := rw_w rw @ redact (rw_r rw) (rw_buf rw @ ?u @ [lf]), rw_buf := []\<rparr>"
          have "rwStep lf (fold rwStep ?u rw) = ?rw'"
            using plain [OF b] small sp(3) False by (simp add: rwStep_def)
          moreover have "rwInv ?rw'" using False by (simp add: rwInv_def maxRedactBuf_def)
          moreover have "emitLocked memSink False (rw\<lparr>rw_buf := rw_buf rw @ take (i + 1) p\<rparr>)
              = (None, ?rw')"
            using sp(4) by (subst emit_line [where u = "rw_buf rw @ ?u"]) auto
          ultimately show ?thesis
            using small False ne Some ih fold_p
            by (subst writeLoop.simps) (simp add: Let_def)
        qed
      qed
    qed
  qed
qed

lemma rwWrite_mem:
  "rwInv rw \<Longrightarrow> rwWrite memSink rw p = ((length p, None), fold rwStep p rw)"
  by (simp add: rwWrite_def writeLoop_refines)

text \<open>A sequence of \<open>Write\<close> calls.\<close>

definition rwWrites :: "string list \<Rightarrow> string redactingWriter \<Rightarrow> string redactingWriter" where
  "rwWrites ps rw = fold (\<lambda>p rw. snd (rwWrite memSink rw p)) ps rw"

lemma rwWrites_eq: "rwInv rw \<Longrightarrow> rwWrites ps rw = fold rwStep (concat ps) rw"
proof (induction ps arbitrary: rw)
  case Nil
  then show ?case by (simp add: rwWrites_def)
next
  case (Cons p ps)
  then have "rwWrites ps (fold rwStep p rw) = fold rwStep (concat ps) (fold rwStep p rw)"
    by (simp add: rwInv_fold)
  with Cons.prems show ?case by (simp add: rwWrites_def rwWrite_mem)
qed

text \<open>
  C3. How the log text is cut into \<open>Write\<close> calls makes no difference: over a writer that accepts
  its data, any sequence of writes leaves the same output, the same buffered partial line and the
  same discarding state as one write of the concatenated text, including records at and above the
  64 KiB limit.
\<close>

theorem write_chunking_irrelevant:
  "rwWrites ps (newRedactingWriter w r) = snd (rwWrite memSink (newRedactingWriter w r) (concat ps))"
  by (simp add: rwWrites_eq rwInv_new rwWrite_mem)

section \<open>What the redactor promises to its clients\<close>

text \<open>
  The interface of a filter over texts: what it guards does not occur in its output, a guarded
  value lies within one line, and a terminated line stays a terminated line. Every client that
  forwards complete filtered lines is then free of the guarded values.
\<close>

locale line_filter =
  fixes filt :: "'r \<Rightarrow> string \<Rightarrow> string"
    and guarded :: "'r \<Rightarrow> string \<Rightarrow> bool"
  assumes filt_clean: "guarded r q \<Longrightarrow> \<not> containsStr (filt r t) q"
    and guarded_line: "guarded r q \<Longrightarrow> q \<noteq> [] \<and> lf \<notin> set q"
    and filt_line: "guarded r q \<Longrightarrow> \<exists>v. filt r (u @ [lf]) = v @ [lf]"
begin

lemma clean_append_line:
  assumes "guarded r q" and "\<not> containsStr w q" and "w = [] \<or> last w = lf"
  shows "\<not> containsStr (w @ filt r t) q"
proof (cases "w = []")
  case True
  with assms(1) filt_clean show ?thesis by simp
next
  case False
  show ?thesis
  proof
    assume c: "containsStr (w @ filt r t) q"
    have "last w \<notin> set q" "q \<noteq> []" using assms(1,3) False guarded_line by auto
    then have "containsStr w q \<or> containsStr (filt r t) q"
      using contains_append_delim [OF c False] by blast
    with assms(1,2) filt_clean show False by blast
  qed
qed

lemma lines_clean:
  assumes "guarded r q"
  shows "\<not> containsStr (concat (map (\<lambda>u. filt r (u @ [lf])) us) @ filt r t) q"
proof -
  let ?out = "\<lambda>us. concat (map (\<lambda>u. filt r (u @ [lf])) us)"
  have "\<not> containsStr (?out us) q \<and> (?out us = [] \<or> last (?out us) = lf)"
  proof (induction us rule: rev_induct)
    case Nil
    then show ?case using assms guarded_line by auto
  next
    case (snoc u us)
    obtain v where v: "filt r (u @ [lf]) = v @ [lf]" using filt_line [OF assms] by blast
    have "\<not> containsStr (?out us @ filt r (u @ [lf])) q"
      using snoc clean_append_line [OF assms] by blast
    with v show ?case by simp
  qed
  then show ?thesis using clean_append_line [OF assms] by blast
qed

end

subsection \<open>The redactor keeps line terminators\<close>

lemma replaceAll_snoc:
  assumes "old \<noteq> []" and "c \<notin> set old"
  shows "replaceAll (u @ [c]) old new = replaceAll u old new @ [c]"
  using assms(1)
proof (induction u rule: replaceAll_cases)
  case Nil
  have "\<not> hasPrefix [c] old" using assms by (cases old) auto
  then show ?case using assms(1) by (simp add: replaceAll_miss)
next
  case (hit s)
  then have "hasPrefix (s @ [c]) old" and "drop (length old) (s @ [c]) = drop (length old) s @ [c]"
    by (auto simp: hasPrefix_iff)
  with hit assms(1) show ?case by (simp add: replaceAll_hit)
next
  case (miss d cs)
  have "\<not> hasPrefix (d # cs @ [c]) old"
  proof
    assume "hasPrefix (d # cs @ [c]) old"
    then have "prefix old ((d # cs) @ [c])" by (simp add: hasPrefix_iff_prefix)
    then have "old = (d # cs) @ [c] \<or> prefix old (d # cs)" by (simp only: prefix_snoc)
    with assms(2) miss(1) show False by (auto simp: hasPrefix_iff_prefix)
  qed
  with miss assms(1) show ?case by (simp add: replaceAll_miss)
qed

lemma redactPass_snoc:
  "\<forall>s \<in> set ss. c \<notin> set s \<Longrightarrow> redactPass ss (u @ [c]) = redactPass ss u @ [c]"
  by (induction ss u rule: redactPass.induct) (auto simp: replaceAll_snoc)

lemma redactLoop_snoc:
  "\<forall>s \<in> set ss. c \<notin> set s \<Longrightarrow> redactLoop n ss (u @ [c]) = redactLoop n ss u @ [c]"
  by (induction n arbitrary: u) (auto simp: redactPass_snoc Let_def)

lemma redact_snoc:
  "\<forall>s \<in> set (secrets r). c \<notin> set s \<Longrightarrow> redact r (u @ [c]) = redact r u @ [c]"
  by (simp add: redact_def redactLoop_snoc)

definition wellFormedRedactor :: "redactor \<Rightarrow> bool" where
  "wellFormedRedactor r \<longleftrightarrow> (\<forall>s \<in> set (secrets r). delimFree s \<and> lf \<notin> set s)"

definition registered :: "redactor \<Rightarrow> string \<Rightarrow> bool" where
  "registered r q \<longleftrightarrow> wellFormedRedactor r \<and> q \<in> set (secrets r)"

lemma registered_newRedactor:
  assumes "\<forall>s \<in> set ss. 4 \<le> length s \<longrightarrow> \<not> containsAny s redactDelims"
    and "q \<in> set ss" and "4 \<le> length q" and "\<not> containsAny q [lf, cr]"
  shows "registered (newRedactor ss) q"
  using assms
  by (auto simp: registered_def wellFormedRedactor_def set_secrets_newRedactor delimFree_def
      containsAny_iff)

interpretation red: line_filter redact registered
proof
  fix r q t u
  assume "registered r q"
  then have w: "\<forall>s \<in> set (secrets r). delimFree s" "\<forall>s \<in> set (secrets r). lf \<notin> set s"
    and q: "q \<in> set (secrets r)"
    by (auto simp: registered_def wellFormedRedactor_def)
  show "\<not> containsStr (redact r t) q"
    using w(1) q by (simp add: redact_two two_passes_clean)
  show "q \<noteq> [] \<and> lf \<notin> set q" using w q by (auto simp: delimFree_def)
  show "\<exists>v. redact r (u @ [lf]) = v @ [lf]" using redact_snoc [OF w(2)] by blast
qed

subsection \<open>The writer forwards redacted lines only\<close>

definition rwOutputs :: "string redactingWriter \<Rightarrow> bool" where
  "rwOutputs rw \<longleftrightarrow> (\<exists>us. rw_w rw = concat (map (\<lambda>u. redact (rw_r rw) (u @ [lf])) us))"

lemma rwOutputs_snoc:
  assumes "rwOutputs rw" and "rw_w rw' = rw_w rw @ redact (rw_r rw) (u @ [lf])"
    and "rw_r rw' = rw_r rw"
  shows "rwOutputs rw'"
proof -
  obtain us where "rw_w rw = concat (map (\<lambda>u. redact (rw_r rw) (u @ [lf])) us)"
    using assms(1) by (auto simp: rwOutputs_def)
  with assms have "rw_w rw' = concat (map (\<lambda>u. redact (rw_r rw') (u @ [lf])) (us @ [u]))" by simp
  then show ?thesis unfolding rwOutputs_def by blast
qed

lemma rwOutputs_step:
  assumes "rwOutputs rw"
  shows "rwOutputs (rwStep b rw)"
proof -
  have same: "rw_w rw' = rw_w rw \<Longrightarrow> rw_r rw' = rw_r rw \<Longrightarrow> rwOutputs rw'" for rw'
    using assms by (simp add: rwOutputs_def)
  have line: "rw_w rw' = rw_w rw @ redact (rw_r rw) (rw_buf rw @ [lf]) \<Longrightarrow> rw_r rw' = rw_r rw \<Longrightarrow>
      rwOutputs rw'" for rw'
    using rwOutputs_snoc [OF assms] by blast
  have marker: "rw_w rw' = rw_w rw @ redact (rw_r rw) oversizedRedactMarker \<Longrightarrow>
      rw_r rw' = rw_r rw \<Longrightarrow> rwOutputs rw'" for rw'
    using rwOutputs_snoc [OF assms] unfolding oversizedRedactMarker_def by blast
  show ?thesis
    unfolding rwStep_def by (simp add: same line marker split: if_split)
qed

lemma rwOutputs_fold: "rwOutputs rw \<Longrightarrow> rwOutputs (fold rwStep p rw)"
  by (induction p arbitrary: rw) (auto simp: rwOutputs_step)

lemma rw_r_fold [simp]: "rw_r (fold rwStep p rw) = rw_r rw"
  by (induction p arbitrary: rw) (auto simp: rwStep_def)

lemma rwFlush_mem:
  "rw_w (snd (rwFlush memSink rw)) = rw_w rw @ (if rw_buf rw = [] then [] else redact (rw_r rw) (rw_buf rw))"
  by (simp add: rwFlush_def emitLocked_def Let_def writeLocked_def memSink_def)

text \<open>
  C4. Nothing written through the \<open>RedactingWriter\<close> contains a registered secret of at least four
  bytes and without a line break, even when the secret was split over several \<open>Write\<close> calls: after
  any sequence of writes and a final \<open>Flush\<close>, the bytes that reached the underlying writer contain
  none of these secrets, provided no registered secret of at least four bytes contains a delimiter
  byte (\<open>[\<close>, \<open>]\<close> or \<open>*\<close>) of the replacement texts.
\<close>

theorem writer_never_emits_secret:
  assumes "\<forall>s \<in> set ss. 4 \<le> length s \<longrightarrow> \<not> containsAny s redactDelims"
    and "q \<in> set ss" and "4 \<le> length q" and "\<not> containsAny q [lf, cr]"
  shows "\<not> containsStr
      (rw_w (snd (rwFlush memSink (rwWrites ps (newRedactingWriter [] (newRedactor ss)))))) q"
proof -
  let ?r = "newRedactor ss"
  let ?init = "newRedactingWriter [] ?r"
  let ?rw = "rwWrites ps ?init"
  have g: "registered ?r q" using assms by (rule registered_newRedactor)
  have rw: "?rw = fold rwStep (concat ps) ?init" by (simp add: rwWrites_eq rwInv_new)
  have r: "rw_r ?rw = ?r" by (simp add: rw) (simp add: newRedactingWriter_def)
  have "rwOutputs ?init" by (auto simp: rwOutputs_def newRedactingWriter_def intro: exI [of _ "[]"])
  then have "rwOutputs ?rw" by (simp add: rw rwOutputs_fold)
  then obtain us where us: "rw_w ?rw = concat (map (\<lambda>u. redact ?r (u @ [lf])) us)"
    using r by (auto simp: rwOutputs_def)
  have "\<not> containsStr (concat (map (\<lambda>u. redact ?r (u @ [lf])) us) @ redact ?r (rw_buf ?rw)) q"
    using g by (rule red.lines_clean)
  moreover have "\<not> containsStr (concat (map (\<lambda>u. redact ?r (u @ [lf])) us)) q"
    using calculation by (metis containsStr_iff append_assoc)
  ultimately show ?thesis by (simp add: rwFlush_mem us r)
qed

theorem writer_never_emits_secret_witness:
  "\<not> containsStr
      (rw_w (snd (rwFlush memSink (rwWrites [''pass=abcd-'', ''efgh'' @ [lf]]
        (newRedactingWriter [] (newRedactor [''abcd-efgh''])))))) ''abcd-efgh''"
  by (rule writer_never_emits_secret) (auto simp: containsAny_iff redactDelims_def)

end
