(* ===== verification/Permissions.thy ===== *)
theory Permissions
  imports Go_Prelude
begin

text \<open>
  \<open>internal/config/config.go\<close>, the capability policy: \<open>Permissions\<close> and its parser, the global
  read-only switch, the legacy switches, the effective \<open>CapabilitySet\<close> and the questions the
  loader and the validator ask of a policy. A configuration error is its message.
\<close>

type_synonym config_error = string

record permissions =
  p_configured :: bool
  p_calendarRead :: bool
  p_calendarWrite :: bool
  p_calendarDelete :: bool
  p_contactsRead :: bool
  p_contactsWrite :: bool
  p_contactsDelete :: bool
  p_mailRead :: bool
  p_mailMutate :: bool
  p_mailTrash :: bool
  p_mailSend :: bool
  p_mailArchive :: bool

definition noPermissions :: permissions where
  "noPermissions =
     \<lparr>p_configured = False, p_calendarRead = False, p_calendarWrite = False,
      p_calendarDelete = False, p_contactsRead = False, p_contactsWrite = False,
      p_contactsDelete = False, p_mailRead = False, p_mailMutate = False, p_mailTrash = False,
      p_mailSend = False, p_mailArchive = False\<rparr>"

section \<open>ParsePermissions\<close>

text \<open>The \<open>switch\<close> over one capability token.\<close>

definition grantToken :: "string \<Rightarrow> permissions \<Rightarrow> permissions option" where
  "grantToken token p =
     (if token = ''calendar.read'' then Some (p\<lparr>p_calendarRead := True\<rparr>)
      else if token = ''calendar.write'' then Some (p\<lparr>p_calendarWrite := True\<rparr>)
      else if token = ''calendar.delete'' then Some (p\<lparr>p_calendarDelete := True\<rparr>)
      else if token = ''contacts.read'' then Some (p\<lparr>p_contactsRead := True\<rparr>)
      else if token = ''contacts.write'' then Some (p\<lparr>p_contactsWrite := True\<rparr>)
      else if token = ''contacts.delete'' then Some (p\<lparr>p_contactsDelete := True\<rparr>)
      else if token = ''mail.read'' then Some (p\<lparr>p_mailRead := True\<rparr>)
      else if token = ''mail.mutate'' then Some (p\<lparr>p_mailMutate := True\<rparr>)
      else if token = ''mail.trash'' then Some (p\<lparr>p_mailTrash := True\<rparr>)
      else if token = ''mail.send'' then Some (p\<lparr>p_mailSend := True\<rparr>)
      else if token = ''mail.archive'' then Some (p\<lparr>p_mailArchive := True\<rparr>)
      else None)"

fun parseTokens :: "string list \<Rightarrow> string set \<Rightarrow> permissions \<Rightarrow> config_error + permissions" where
  "parseTokens [] seen p = Inr p"
| "parseTokens (t # ts) seen p =
     (let token = trimSpace t in
      if token = [] then Inl ''invalid ICLOUD_MCP_PERMISSIONS: empty capability''
      else if token \<in> seen then Inl ''invalid ICLOUD_MCP_PERMISSIONS: duplicate capability''
      else case grantToken token p of
             None \<Rightarrow> Inl ''invalid ICLOUD_MCP_PERMISSIONS: unknown capability''
           | Some p' \<Rightarrow> parseTokens ts (insert token seen) p')"

definition parsePermissions :: "string \<Rightarrow> config_error + permissions" where
  "parsePermissions v =
     (let value = trimSpace v in
      if value = [] then Inr noPermissions
      else parseTokens (splitByte value CHR '','') {} (noPermissions\<lparr>p_configured := True\<rparr>))"

section \<open>The effective policy\<close>

definition effective :: "permissions \<Rightarrow> bool \<Rightarrow> permissions" where
  "effective p readOnly =
     (if \<not> p_configured p then p
      else if readOnly
      then p\<lparr>p_calendarWrite := False, p_calendarDelete := False, p_contactsWrite := False,
             p_contactsDelete := False, p_mailMutate := False, p_mailTrash := False,
             p_mailSend := False, p_mailArchive := False\<rparr>
      else p)"

definition legacyPermissions :: "bool \<Rightarrow> bool \<Rightarrow> bool \<Rightarrow> bool \<Rightarrow> bool \<Rightarrow> permissions" where
  "legacyPermissions readOnly contactsEnabled mailEnabled mailWrite mailSend =
     \<lparr>p_configured = False,
      p_calendarRead = True, p_calendarWrite = (\<not> readOnly), p_calendarDelete = (\<not> readOnly),
      p_contactsRead = contactsEnabled,
      p_contactsWrite = (contactsEnabled \<and> \<not> readOnly),
      p_contactsDelete = (contactsEnabled \<and> \<not> readOnly),
      p_mailRead = mailEnabled,
      p_mailMutate = (mailEnabled \<and> mailWrite \<and> \<not> readOnly),
      p_mailTrash = (mailEnabled \<and> mailWrite \<and> \<not> readOnly),
      p_mailSend = (mailEnabled \<and> mailSend \<and> \<not> readOnly),
      p_mailArchive = False\<rparr>"

record capabilitySet =
  c_calendarRead :: bool
  c_calendarWrite :: bool
  c_calendarDelete :: bool
  c_contactsRead :: bool
  c_contactsWrite :: bool
  c_contactsDelete :: bool
  c_mailRead :: bool
  c_mailMutate :: bool
  c_mailTrash :: bool
  c_mailSend :: bool
  c_mailArchive :: bool

definition capabilities :: "permissions \<Rightarrow> bool \<Rightarrow> capabilitySet" where
  "capabilities p readOnly =
     (let e = effective p readOnly;
          s = \<lparr>c_calendarRead = p_calendarRead e, c_calendarWrite = p_calendarWrite e,
               c_calendarDelete = p_calendarDelete e, c_contactsRead = p_contactsRead e,
               c_contactsWrite = p_contactsWrite e, c_contactsDelete = p_contactsDelete e,
               c_mailRead = p_mailRead e, c_mailMutate = p_mailMutate e,
               c_mailTrash = p_mailTrash e, c_mailSend = p_mailSend e,
               c_mailArchive = p_mailArchive e\<rparr>
      in if readOnly
         then s\<lparr>c_calendarWrite := False, c_calendarDelete := False, c_contactsWrite := False,
                c_contactsDelete := False, c_mailMutate := False, c_mailTrash := False,
                c_mailSend := False, c_mailArchive := False\<rparr>
         else s)"

definition requestsCalendar :: "permissions \<Rightarrow> bool" where
  "requestsCalendar p \<longleftrightarrow> p_calendarRead p \<or> p_calendarWrite p \<or> p_calendarDelete p"

definition requestsContacts :: "permissions \<Rightarrow> bool" where
  "requestsContacts p \<longleftrightarrow> p_contactsRead p \<or> p_contactsWrite p \<or> p_contactsDelete p"

definition requestsMail :: "permissions \<Rightarrow> bool" where
  "requestsMail p \<longleftrightarrow>
     p_mailRead p \<or> p_mailMutate p \<or> p_mailTrash p \<or> p_mailSend p \<or> p_mailArchive p"

definition requestedContactsMutation :: "permissions \<Rightarrow> bool" where
  "requestedContactsMutation p \<longleftrightarrow> p_contactsWrite p \<or> p_contactsDelete p"

definition requestedMailMutation :: "permissions \<Rightarrow> bool" where
  "requestedMailMutation p \<longleftrightarrow> p_mailMutate p \<or> p_mailTrash p"

definition requestedDomains :: "bool \<Rightarrow> bool \<Rightarrow> permissions \<Rightarrow> bool \<times> bool \<times> bool" where
  "requestedDomains enableContacts enableMail p =
     (if p_configured p then (requestsCalendar p, requestsContacts p, requestsMail p)
      else (True, enableContacts, enableMail))"

section \<open>What the parser accepts\<close>

text \<open>The specification of a policy: the set of granted tokens.\<close>

definition capabilityTokens :: "string list" where
  "capabilityTokens =
     [''calendar.read'', ''calendar.write'', ''calendar.delete'', ''contacts.read'',
      ''contacts.write'', ''contacts.delete'', ''mail.read'', ''mail.mutate'', ''mail.trash'',
      ''mail.send'', ''mail.archive'']"

definition granted :: "permissions \<Rightarrow> string set" where
  "granted p =
     {t. t = ''calendar.read'' \<and> p_calendarRead p \<or> t = ''calendar.write'' \<and> p_calendarWrite p
       \<or> t = ''calendar.delete'' \<and> p_calendarDelete p \<or> t = ''contacts.read'' \<and> p_contactsRead p
       \<or> t = ''contacts.write'' \<and> p_contactsWrite p \<or> t = ''contacts.delete'' \<and> p_contactsDelete p
       \<or> t = ''mail.read'' \<and> p_mailRead p \<or> t = ''mail.mutate'' \<and> p_mailMutate p
       \<or> t = ''mail.trash'' \<and> p_mailTrash p \<or> t = ''mail.send'' \<and> p_mailSend p
       \<or> t = ''mail.archive'' \<and> p_mailArchive p}"

lemma grantToken_None: "grantToken t p = None \<longleftrightarrow> t \<notin> set capabilityTokens"
  by (simp add: grantToken_def capabilityTokens_def)

lemma grantToken_Some:
  "grantToken t p = Some q \<Longrightarrow>
     granted q = insert t (granted p) \<and> p_configured q = p_configured p"
  unfolding grantToken_def
  by (simp split: if_splits; force simp: granted_def)

lemma granted_none [simp]: "granted noPermissions = {}"
    "granted (noPermissions\<lparr>p_configured := b\<rparr>) = {}"
  by (simp_all add: granted_def noPermissions_def)

text \<open>Which token lists are accepted, and what they grant.\<close>

definition goodTokens :: "string list \<Rightarrow> string set \<Rightarrow> bool" where
  "goodTokens ts seen \<longleftrightarrow>
     set (map trimSpace ts) \<subseteq> set capabilityTokens \<and> distinct (map trimSpace ts)
       \<and> set (map trimSpace ts) \<inter> seen = {}"

lemma parseTokens_Inr:
  "parseTokens ts seen p = Inr q \<Longrightarrow>
     goodTokens ts seen \<and> granted q = granted p \<union> set (map trimSpace ts)
       \<and> p_configured q = p_configured p"
proof (induction ts seen p rule: parseTokens.induct)
  case (1 seen p)
  then show ?case by (simp add: goodTokens_def)
next
  case (2 t ts seen p)
  let ?t = "trimSpace t"
  from 2(2) have ne: "?t \<noteq> []" "?t \<notin> seen" by (auto simp: Let_def split: if_splits)
  with 2(2) obtain p' where p': "grantToken ?t p = Some p'"
      and rest: "parseTokens ts (insert ?t seen) p' = Inr q"
    by (auto simp: Let_def split: option.splits)
  have tok: "?t \<in> set capabilityTokens" using p' grantToken_None [of ?t p] by auto
  have IH: "goodTokens ts (insert ?t seen) \<and> granted q = granted p' \<union> set (map trimSpace ts)
      \<and> p_configured q = p_configured p'"
    using 2(1) [OF refl ne p' rest] .
  with grantToken_Some [OF p'] tok ne show ?case by (auto simp: goodTokens_def)
qed

lemma parseTokens_total: "goodTokens ts seen \<Longrightarrow> \<exists>q. parseTokens ts seen p = Inr q"
proof (induction ts seen p rule: parseTokens.induct)
  case (1 seen p)
  then show ?case by simp
next
  case (2 t ts seen p)
  let ?t = "trimSpace t"
  from 2(2) have t: "?t \<in> set capabilityTokens" "?t \<notin> seen" "goodTokens ts (insert ?t seen)"
    by (auto simp: goodTokens_def)
  then have ne: "?t \<noteq> []" by (auto simp: capabilityTokens_def)
  obtain p' where p': "grantToken ?t p = Some p'" using grantToken_None t(1) by blast
  with 2(1) [OF refl ne t(2) p' t(3)] ne t(2) show ?case by (auto simp: Let_def)
qed

lemma granted_iff:
  "''calendar.read'' \<in> granted p \<longleftrightarrow> p_calendarRead p"
  "''calendar.write'' \<in> granted p \<longleftrightarrow> p_calendarWrite p"
  "''calendar.delete'' \<in> granted p \<longleftrightarrow> p_calendarDelete p"
  "''contacts.read'' \<in> granted p \<longleftrightarrow> p_contactsRead p"
  "''contacts.write'' \<in> granted p \<longleftrightarrow> p_contactsWrite p"
  "''contacts.delete'' \<in> granted p \<longleftrightarrow> p_contactsDelete p"
  "''mail.read'' \<in> granted p \<longleftrightarrow> p_mailRead p"
  "''mail.mutate'' \<in> granted p \<longleftrightarrow> p_mailMutate p"
  "''mail.trash'' \<in> granted p \<longleftrightarrow> p_mailTrash p"
  "''mail.send'' \<in> granted p \<longleftrightarrow> p_mailSend p"
  "''mail.archive'' \<in> granted p \<longleftrightarrow> p_mailArchive p"
  by (simp_all add: granted_def)

lemma permissions_eqI:
  assumes "p_configured p = p_configured q" and "granted p = granted q"
  shows "p = (q :: permissions)"
  using assms granted_iff [of p] granted_iff [of q] by (intro permissions.equality) auto

text \<open>
  C5. The permission parser is exact. A non-blank value is accepted if and only if its
  comma-separated entries, trimmed, are distinct known capabilities, and the resulting policy is
  the one that is marked configured and grants exactly these capabilities.
\<close>

theorem parsePermissions_exact:
  assumes "trimSpace v \<noteq> []"
  shows "parsePermissions v = Inr q \<longleftrightarrow>
    goodTokens (splitByte (trimSpace v) CHR '','') {} \<and> p_configured q
      \<and> granted q = set (map trimSpace (splitByte (trimSpace v) CHR '',''))"
    (is "_ \<longleftrightarrow> goodTokens ?ts {} \<and> _ \<and> _")
proof -
  have eq: "parsePermissions v = parseTokens ?ts {} (noPermissions\<lparr>p_configured := True\<rparr>)"
    using assms by (simp add: parsePermissions_def Let_def)
  show ?thesis
  proof
    assume "parsePermissions v = Inr q"
    then show "goodTokens ?ts {} \<and> p_configured q \<and> granted q = set (map trimSpace ?ts)"
      unfolding eq using parseTokens_Inr by fastforce
  next
    assume q: "goodTokens ?ts {} \<and> p_configured q \<and> granted q = set (map trimSpace ?ts)"
    then obtain q' where q': "parsePermissions v = Inr q'"
      unfolding eq using parseTokens_total by blast
    then have "granted q' = set (map trimSpace ?ts) \<and> p_configured q'"
      unfolding eq using parseTokens_Inr by fastforce
    with q have "q' = q" by (intro permissions_eqI) auto
    with q' show "parsePermissions v = Inr q" by simp
  qed
qed

theorem parsePermissions_exact_witness:
  "trimSpace '' mail.read, mail.send'' \<noteq> [] \<and>
   parsePermissions '' mail.read, mail.send'' =
     Inr (noPermissions\<lparr>p_configured := True, p_mailRead := True, p_mailSend := True\<rparr>)"
proof -
  have t: "trimSpace '' mail.read, mail.send'' \<noteq> []" by code_simp
  have ts: "map trimSpace (splitByte (trimSpace '' mail.read, mail.send'') CHR '','')
      = [''mail.read'', ''mail.send'']"
    by code_simp
  show ?thesis
    using t ts parsePermissions_exact [OF t,
        of "noPermissions\<lparr>p_configured := True, p_mailRead := True, p_mailSend := True\<rparr>"]
    by (auto simp: goodTokens_def capabilityTokens_def granted_def noPermissions_def)
qed

end
