(* ===== verification/Capability_Plan.thy ===== *)
theory Capability_Plan
  imports Permissions "HOL-Library.Char_ord" "HOL-Library.List_Lexorder" "HOL-Library.Multiset"
begin

text \<open>
  \<open>internal/mcptools/register.go\<close>, \<open>contacts_register.go\<close>, the registration part of
  \<open>mail_register.go\<close> and \<open>icloud_capabilities.go\<close>: the immutable registration plan, the tool
  manifest, the registration itself with its panics, and the report of
  \<open>icloud_capabilities\<close>. The MCP server is modelled by the list of tool names it holds; a tool
  added twice replaces its handler and keeps one name. Strings are ordered bytewise, as
  \<open>sort.Strings\<close> orders them.
\<close>

record capabilityPlan =
  pl_readOnly :: bool
  pl_calendarRead :: bool
  pl_calendarWrite :: bool
  pl_calendarDelete :: bool
  pl_contactsRead :: bool
  pl_contactsWrite :: bool
  pl_contactsDelete :: bool
  pl_mailRead :: bool
  pl_mailMutate :: bool
  pl_mailTrash :: bool
  pl_mailSend :: bool
  pl_mailReply :: bool

definition newCapabilityPlan :: "bool \<Rightarrow> bool \<Rightarrow> bool \<Rightarrow> bool \<Rightarrow> bool \<Rightarrow> capabilityPlan" where
  "newCapabilityPlan readOnly contactsEnabled mailEnabled mailMutations mailSend =
     \<lparr>pl_readOnly = readOnly,
      pl_calendarRead = True, pl_calendarWrite = (\<not> readOnly), pl_calendarDelete = (\<not> readOnly),
      pl_contactsRead = contactsEnabled,
      pl_contactsWrite = (contactsEnabled \<and> \<not> readOnly),
      pl_contactsDelete = (contactsEnabled \<and> \<not> readOnly),
      pl_mailRead = mailEnabled,
      pl_mailMutate = (mailEnabled \<and> mailMutations \<and> \<not> readOnly),
      pl_mailTrash = (mailEnabled \<and> mailMutations \<and> \<not> readOnly),
      pl_mailSend = (mailEnabled \<and> mailSend \<and> \<not> readOnly),
      pl_mailReply = (mailEnabled \<and> mailSend \<and> \<not> readOnly)\<rparr>"

definition newCapabilityPlanFromConfig :: "bool \<Rightarrow> capabilitySet \<Rightarrow> capabilityPlan" where
  "newCapabilityPlanFromConfig readOnly s0 =
     (let s = (if readOnly
               then s0\<lparr>c_calendarWrite := False, c_calendarDelete := False,
                       c_contactsWrite := False, c_contactsDelete := False,
                       c_mailMutate := False, c_mailTrash := False, c_mailSend := False\<rparr>
               else s0)
      in \<lparr>pl_readOnly = readOnly,
          pl_calendarRead = c_calendarRead s, pl_calendarWrite = c_calendarWrite s,
          pl_calendarDelete = c_calendarDelete s, pl_contactsRead = c_contactsRead s,
          pl_contactsWrite = c_contactsWrite s, pl_contactsDelete = c_contactsDelete s,
          pl_mailRead = c_mailRead s, pl_mailMutate = c_mailMutate s,
          pl_mailTrash = c_mailTrash s, pl_mailSend = c_mailSend s,
          pl_mailReply = (c_mailRead s \<and> c_mailSend s)\<rparr>)"

definition calendarWritesEnabled :: "capabilityPlan \<Rightarrow> bool" where
  "calendarWritesEnabled p \<longleftrightarrow> pl_calendarWrite p \<or> pl_calendarDelete p"

definition contactsEnabled :: "capabilityPlan \<Rightarrow> bool" where
  "contactsEnabled p \<longleftrightarrow> pl_contactsRead p \<or> pl_contactsWrite p \<or> pl_contactsDelete p"

definition contactsWritesEnabled :: "capabilityPlan \<Rightarrow> bool" where
  "contactsWritesEnabled p \<longleftrightarrow> pl_contactsWrite p \<or> pl_contactsDelete p"

definition mailEnabled :: "capabilityPlan \<Rightarrow> bool" where
  "mailEnabled p \<longleftrightarrow> pl_mailRead p \<or> pl_mailMutate p \<or> pl_mailTrash p \<or> pl_mailSend p"

section \<open>The tool manifest\<close>

definition calendarReadToolNames :: "string list" where
  "calendarReadToolNames =
     [''list_calendars'', ''search_events'', ''get_event'', ''find_free_slots'',
      ''validate_event'', ''calendar_capabilities'']"

definition contactsReadToolNames :: "string list" where
  "contactsReadToolNames = [''list_address_books'', ''search_contacts'', ''get_contact'']"

definition mailReadToolNames :: "string list" where
  "mailReadToolNames = [''list_mailboxes'', ''search_messages'', ''get_message'']"

definition manifestNames :: "capabilityPlan \<Rightarrow> string list" where
  "manifestNames p =
     (if pl_calendarRead p then calendarReadToolNames else [])
     @ (if pl_calendarWrite p then [''create_event'', ''update_event''] else [])
     @ (if pl_calendarDelete p then [''delete_event''] else [])
     @ (if pl_contactsRead p then contactsReadToolNames else [])
     @ (if pl_contactsWrite p then [''create_contact'', ''update_contact''] else [])
     @ (if pl_contactsDelete p then [''delete_contact''] else [])
     @ (if pl_mailRead p then mailReadToolNames else [])
     @ (if pl_mailMutate p then [''set_message_flags'', ''move_message''] else [])
     @ (if pl_mailTrash p then [''trash_message''] else [])
     @ (if pl_mailSend p then [''send_message''] else [])
     @ (if pl_mailReply p then [''reply_message''] else [])
     @ [''icloud_capabilities'']"

definition registeredTools :: "capabilityPlan \<Rightarrow> string list" where
  "registeredTools p = sort (manifestNames p)"

definition toolCount :: "capabilityPlan \<Rightarrow> nat" where
  "toolCount p = length (registeredTools p)"

section \<open>Registration\<close>

text \<open>Which dependencies are present; a field is \<open>False\<close> for a nil dependency.\<close>

record toolDeps =
  d_server :: bool
  d_service :: bool
  d_contactsService :: bool
  d_mailService :: bool
  d_audit :: bool
  d_redactor :: bool

definition addTool :: "string \<Rightarrow> string list \<Rightarrow> string list" where
  "addTool n s = (if n \<in> set s then s else s @ [n])"

definition addTools :: "string list \<Rightarrow> string list \<Rightarrow> string list" where
  "addTools ns s = fold addTool ns s"

definition registerCalendar ::
  "bool \<Rightarrow> bool \<Rightarrow> bool \<Rightarrow> string list \<Rightarrow> string list \<times> string list" where
  "registerCalendar allowRead allowWrite allowDelete s =
     (let names =
        (if allowRead
         then [''list_calendars'', ''search_events'', ''get_event'', ''find_free_slots'',
               ''validate_event'', ''calendar_capabilities''] else [])
        @ (if allowWrite then [''create_event'', ''update_event''] else [])
        @ (if allowDelete then [''delete_event''] else [])
      in (names, addTools names s))"

definition registerContacts ::
  "bool \<Rightarrow> bool \<Rightarrow> bool \<Rightarrow> bool \<Rightarrow> string list \<Rightarrow> string + string list \<times> string list" where
  "registerContacts redactor allowRead allowWrite allowDelete s =
     (if \<not> redactor then Inl ''mcptools: Contacts tools require a non-nil redactor''
      else let names =
        (if allowRead then [''list_address_books'', ''search_contacts'', ''get_contact''] else [])
        @ (if allowWrite then [''create_contact'', ''update_contact''] else [])
        @ (if allowDelete then [''delete_contact''] else [])
      in Inr (names, addTools names s))"

definition registerMail ::
  "bool \<Rightarrow> bool \<Rightarrow> bool \<Rightarrow> bool \<Rightarrow> bool \<Rightarrow> bool \<Rightarrow> string list
     \<Rightarrow> string + string list \<times> string list" where
  "registerMail redactor allowRead allowMutations allowTrash allowSend allowReply s =
     (if \<not> redactor then Inl ''mcptools: Mail tools require a non-nil redactor''
      else let names =
        (if allowRead then [''list_mailboxes'', ''search_messages'', ''get_message''] else [])
        @ (if allowMutations then [''set_message_flags'', ''move_message''] else [])
        @ (if allowTrash then [''trash_message''] else [])
        @ (if allowSend then [''send_message''] else [])
        @ (if allowReply then [''reply_message''] else [])
      in Inr (names, addTools names s))"

definition mutationsEnabled :: "capabilityPlan \<Rightarrow> bool" where
  "mutationsEnabled p \<longleftrightarrow>
     calendarWritesEnabled p \<or> contactsWritesEnabled p \<or> pl_mailMutate p \<or> pl_mailTrash p
       \<or> pl_mailSend p"

text \<open>
  \<open>RegisterUnified\<close>: \<open>Inl\<close> is a panic, \<open>Inr\<close> the tool names the server holds afterwards.
\<close>

definition registerUnified ::
  "toolDeps \<Rightarrow> capabilityPlan \<Rightarrow> string list \<Rightarrow> string + string list" where
  "registerUnified deps plan s0 =
     (if \<not> d_server deps then Inl ''mcptools: cannot register tools on a nil MCP server''
      else if \<not> d_service deps \<and> (pl_calendarRead plan \<or> calendarWritesEnabled plan)
      then Inl ''mcptools: Calendar tools are enabled but Calendar service is nil''
      else if \<not> d_redactor deps then Inl ''mcptools: enabled tools require a non-nil redactor''
      else if contactsEnabled plan \<and> \<not> d_contactsService deps
      then Inl ''mcptools: Contacts tools are enabled but Contacts service is nil''
      else if mailEnabled plan \<and> \<not> d_mailService deps
      then Inl ''mcptools: Mail tools are enabled but Mail service is nil''
      else if mutationsEnabled plan \<and> \<not> d_audit deps
      then Inl ''mcptools: enabled mutation tools require a non-nil audit logger''
      else
        (let (reg1, s1) =
               (if pl_calendarRead plan \<or> calendarWritesEnabled plan
                then registerCalendar (pl_calendarRead plan) (pl_calendarWrite plan)
                       (pl_calendarDelete plan) s0
                else ([], s0))
         in case (if contactsEnabled plan
                  then registerContacts (d_redactor deps) (pl_contactsRead plan)
                         (pl_contactsWrite plan) (pl_contactsDelete plan) s1
                  else Inr ([], s1)) of
              Inl e \<Rightarrow> Inl e
            | Inr (reg2, s2) \<Rightarrow>
                (case (if mailEnabled plan
                       then registerMail (d_redactor deps) (pl_mailRead plan) (pl_mailMutate plan)
                              (pl_mailTrash plan) (pl_mailSend plan) (pl_mailReply plan) s2
                       else Inr ([], s2)) of
                   Inl e \<Rightarrow> Inl e
                 | Inr (reg3, s3) \<Rightarrow>
                     (let s4 = addTool ''icloud_capabilities'' s3;
                          registered = sort (reg1 @ reg2 @ reg3 @ [''icloud_capabilities'']);
                          expected = registeredTools plan;
                          actual = sort s4
                      in if registered \<noteq> expected
                         then Inl ''mcptools: registration manifest mismatch''
                         else if actual \<noteq> expected
                         then Inl ''mcptools: server tool inventory mismatch''
                         else Inr actual))))"

section \<open>The capability report\<close>

record capabilitiesResponse =
  r_version :: string
  r_readOnly :: bool
  r_healthcheckActive :: bool
  r_domains :: "bool \<times> bool \<times> bool"
  r_groups :: "(string \<times> bool) list"
  r_tools :: "string list"
  r_toolCount :: nat

definition icloudCapabilitiesHandler ::
  "string \<Rightarrow> bool \<Rightarrow> capabilityPlan \<Rightarrow> capabilitiesResponse" where
  "icloudCapabilitiesHandler version health plan =
     \<lparr>r_version = (if version = [] then ''dev'' else version),
      r_readOnly = pl_readOnly plan,
      r_healthcheckActive = health,
      r_domains = (pl_calendarRead plan \<or> calendarWritesEnabled plan, contactsEnabled plan,
                   mailEnabled plan),
      r_groups =
        [(''calendarRead'', pl_calendarRead plan), (''calendarWrite'', pl_calendarWrite plan),
         (''calendarDelete'', pl_calendarDelete plan), (''contactsRead'', pl_contactsRead plan),
         (''contactsWrite'', pl_contactsWrite plan), (''contactsDelete'', pl_contactsDelete plan),
         (''mailRead'', pl_mailRead plan), (''mailMutation'', pl_mailMutate plan),
         (''mailTrash'', pl_mailTrash plan), (''mailSend'', pl_mailSend plan),
         (''mailReply'', pl_mailReply plan)],
      r_tools = registeredTools plan,
      r_toolCount = length (registeredTools plan)\<rparr>"

section \<open>Lemmas\<close>

lemmas toolName_defs =
  calendarReadToolNames_def contactsReadToolNames_def mailReadToolNames_def

lemmas enabled_defs =
  calendarWritesEnabled_def contactsEnabled_def contactsWritesEnabled_def mailEnabled_def
  mutationsEnabled_def

lemma set_registeredTools: "set (registeredTools p) = set (manifestNames p)"
  by (simp add: registeredTools_def)

lemma length_registeredTools: "toolCount p = length (manifestNames p)"
  by (simp add: toolCount_def registeredTools_def)

text \<open>A list put together from gated groups is distinct if all groups together are.\<close>

definition gated :: "(bool \<times> 'a list) list \<Rightarrow> 'a list" where
  "gated parts = concat (map (\<lambda>(b, ns). if b then ns else []) parts)"

lemma set_gated: "set (gated parts) \<subseteq> set (concat (map snd parts))"
  by (induction parts) (auto simp: gated_def)

lemma distinct_gated: "distinct (concat (map snd parts)) \<Longrightarrow> distinct (gated parts)"
proof (induction parts)
  case Nil
  then show ?case by (simp add: gated_def)
next
  case (Cons x parts)
  then show ?case
    using set_gated [of parts] by (cases x) (auto simp: gated_def)
qed

lemma distinct_manifest: "distinct (manifestNames p)"
proof -
  let ?parts = "[(pl_calendarRead p, calendarReadToolNames),
     (pl_calendarWrite p, [''create_event'', ''update_event'']),
     (pl_calendarDelete p, [''delete_event'']),
     (pl_contactsRead p, contactsReadToolNames),
     (pl_contactsWrite p, [''create_contact'', ''update_contact'']),
     (pl_contactsDelete p, [''delete_contact'']),
     (pl_mailRead p, mailReadToolNames),
     (pl_mailMutate p, [''set_message_flags'', ''move_message'']),
     (pl_mailTrash p, [''trash_message'']),
     (pl_mailSend p, [''send_message'']),
     (pl_mailReply p, [''reply_message'']),
     (True, [''icloud_capabilities''])]"
  have "manifestNames p = gated ?parts" by (simp add: manifestNames_def gated_def)
  moreover have "distinct (concat (map snd ?parts))" by (simp add: toolName_defs)
  ultimately show ?thesis by (simp add: distinct_gated)
qed

lemma addTools_Nil: "distinct ns \<Longrightarrow> set ns \<inter> set s = {} \<Longrightarrow> addTools ns s = s @ ns"
  unfolding addTools_def
  by (induction ns arbitrary: s) (auto simp: addTool_def)

definition readTools :: "string list" where
  "readTools = calendarReadToolNames @ contactsReadToolNames @ mailReadToolNames
     @ [''icloud_capabilities'']"

text \<open>
  The legacy switches and the policy path agree: the plan built from the effective
  capabilities of the legacy permissions is the plan the legacy constructor builds.
\<close>

theorem legacy_plan_agrees:
  "newCapabilityPlanFromConfig ro (capabilities (legacyPermissions ro contacts mail write send) ro)
     = newCapabilityPlan ro contacts mail write send"
  by (auto simp: newCapabilityPlanFromConfig_def newCapabilityPlan_def capabilities_def
      effective_def legacyPermissions_def Let_def)

text \<open>
  A plan that one of the two constructors can build enables replies only together with sending.
\<close>

definition planOk :: "capabilityPlan \<Rightarrow> bool" where
  "planOk p \<longleftrightarrow> (pl_mailReply p \<longrightarrow> pl_mailSend p \<and> pl_mailRead p)
     \<and> (pl_readOnly p \<longrightarrow> \<not> mutationsEnabled p)"

lemma planOk_constructors:
  "planOk (newCapabilityPlan ro c m w s)" "planOk (newCapabilityPlanFromConfig ro caps)"
  by (auto simp: planOk_def newCapabilityPlan_def newCapabilityPlanFromConfig_def Let_def
      enabled_defs)

definition allDeps :: toolDeps where
  "allDeps = \<lparr>d_server = True, d_service = True, d_contactsService = True, d_mailService = True,
     d_audit = True, d_redactor = True\<rparr>"

lemma registerUnified_ok:
  assumes "planOk p"
  shows "registerUnified allDeps p [] = Inr (registeredTools p)"
proof -
  define cal where "cal = (if pl_calendarRead p then calendarReadToolNames else [])
     @ (if pl_calendarWrite p then [''create_event'', ''update_event''] else [])
     @ (if pl_calendarDelete p then [''delete_event''] else [])"
  define con where "con = (if pl_contactsRead p then contactsReadToolNames else [])
     @ (if pl_contactsWrite p then [''create_contact'', ''update_contact''] else [])
     @ (if pl_contactsDelete p then [''delete_contact''] else [])"
  define mail where "mail = (if pl_mailRead p then mailReadToolNames else [])
     @ (if pl_mailMutate p then [''set_message_flags'', ''move_message''] else [])
     @ (if pl_mailTrash p then [''trash_message''] else [])
     @ (if pl_mailSend p then [''send_message''] else [])
     @ (if pl_mailReply p then [''reply_message''] else [])"
  have m: "manifestNames p = cal @ con @ mail @ [''icloud_capabilities'']"
    by (simp add: manifestNames_def cal_def con_def mail_def)
  have d: "distinct (cal @ con @ mail @ [''icloud_capabilities''])"
    using distinct_manifest [of p] unfolding m .
  have "addTools con cal = cal @ con" by (rule addTools_Nil) (use d in auto)
  moreover have "addTools mail (cal @ con) = (cal @ con) @ mail"
    by (rule addTools_Nil) (use d in auto)
  ultimately have adds: "addTools cal [] = cal" "addTools con cal = cal @ con"
      "addTools mail (cal @ con) = cal @ con @ mail"
      "addTool ''icloud_capabilities'' (cal @ con @ mail) = cal @ con @ mail @ [''icloud_capabilities'']"
    using d by (auto simp: addTools_Nil addTool_def)
  have c1: "(if pl_calendarRead p \<or> calendarWritesEnabled p
        then registerCalendar (pl_calendarRead p) (pl_calendarWrite p) (pl_calendarDelete p) []
        else ([], [])) = (cal, cal)"
  proof (cases "pl_calendarRead p \<or> calendarWritesEnabled p")
    case True
    then show ?thesis
      using adds(1) unfolding cal_def calendarReadToolNames_def
      by (simp only: registerCalendar_def Let_def if_True)
  next
    case False
    then have "cal = []" by (simp add: calendarWritesEnabled_def cal_def)
    with False show ?thesis by simp
  qed
  have c2: "(if contactsEnabled p
        then registerContacts True (pl_contactsRead p) (pl_contactsWrite p) (pl_contactsDelete p)
          cal
        else Inr ([], cal)) = Inr (con, cal @ con)"
  proof (cases "contactsEnabled p")
    case True
    then show ?thesis
      using adds(2) unfolding con_def contactsReadToolNames_def
      by (simp only: registerContacts_def Let_def simp_thms if_True if_False)
  next
    case False
    then have "con = []" by (simp add: contactsEnabled_def con_def)
    with False show ?thesis by simp
  qed
  have c3: "(if mailEnabled p
        then registerMail True (pl_mailRead p) (pl_mailMutate p) (pl_mailTrash p) (pl_mailSend p)
          (pl_mailReply p) (cal @ con)
        else Inr ([], cal @ con)) = Inr (mail, cal @ con @ mail)"
  proof (cases "mailEnabled p")
    case True
    then show ?thesis
      using adds(3) unfolding mail_def mailReadToolNames_def
      by (simp only: registerMail_def Let_def simp_thms if_True if_False)
  next
    case False
    with assms have "mail = []" by (simp add: mailEnabled_def planOk_def mail_def)
    with False show ?thesis by simp
  qed
  show ?thesis
    unfolding registerUnified_def registeredTools_def
    by (simp only: allDeps_def toolDeps.simps simp_thms if_True if_False c1 c2 c3 adds m
        split_conv sum.case prod.case Let_def append_assoc)
qed

text \<open>
  Registration installs exactly the manifest: for every capability set and read-only switch,
  with all dependencies present and a fresh server, \<open>RegisterUnified\<close> does not panic and leaves the
  server with the tools of the plan's manifest, the list that \<open>icloud_capabilities\<close> reports.
\<close>

theorem registration_matches_manifest:
  "registerUnified allDeps (newCapabilityPlanFromConfig ro caps) []
     = Inr (r_tools (icloudCapabilitiesHandler version health (newCapabilityPlanFromConfig ro caps)))"
  by (simp add: registerUnified_ok planOk_constructors icloudCapabilitiesHandler_def)

lemma registerUnified_Inr:
  assumes "registerUnified deps plan s0 = Inr names"
  shows "names = registeredTools plan" and "mutationsEnabled plan \<longrightarrow> d_audit deps"
    and "d_redactor deps"
  using assms unfolding registerUnified_def
  by (auto simp: Let_def split: if_splits sum.splits prod.splits)

text \<open>
  C6. Global read-only is a kill switch: whatever the capability set says, under read-only the
  registration of all domains on a fresh server succeeds, and the tools the server then holds are
  read tools. The same holds with any dependencies missing and for a server that already holds tools:
  the registration panics or leaves the server with read tools only.
\<close>

theorem readOnly_registers_reads_only:
  "(\<exists>names. registerUnified allDeps (newCapabilityPlanFromConfig True caps) [] = Inr names
       \<and> set names \<subseteq> set readTools)
   \<and> (case registerUnified deps (newCapabilityPlanFromConfig True caps) s0 of
        Inl panic \<Rightarrow> True
      | Inr names \<Rightarrow> set names \<subseteq> set readTools)"
proof -
  let ?p = "newCapabilityPlanFromConfig True caps"
  have reads: "set (registeredTools ?p) \<subseteq> set readTools"
    by (auto simp: set_registeredTools manifestNames_def newCapabilityPlanFromConfig_def
        readTools_def Let_def)
  moreover have "registerUnified allDeps ?p [] = Inr (registeredTools ?p)"
    by (rule registerUnified_ok) (rule planOk_constructors)
  ultimately show ?thesis
    using registerUnified_Inr(1) [of deps ?p s0] by (auto split: sum.split)
qed

text \<open>
  C7. No mutation tool without an audit log: if registration succeeds although the audit logger
  is nil, every tool the server holds is a read tool.
\<close>

theorem no_mutation_without_audit:
  assumes "registerUnified deps (newCapabilityPlanFromConfig ro caps) s0 = Inr names"
    and "\<not> d_audit deps"
  shows "set names \<subseteq> set readTools"
proof -
  let ?p = "newCapabilityPlanFromConfig ro caps"
  from registerUnified_Inr [OF assms(1)] assms(2)
  have names: "names = registeredTools ?p" and "\<not> mutationsEnabled ?p" by auto
  moreover have "planOk ?p" by (rule planOk_constructors)
  ultimately show ?thesis
    by (auto simp: set_registeredTools manifestNames_def enabled_defs planOk_def readTools_def)
qed

theorem no_mutation_without_audit_witness:
  "set (registeredTools (newCapabilityPlanFromConfig True
      (capabilities (legacyPermissions True True True True True) True))) \<subseteq> set readTools"
proof (rule no_mutation_without_audit)
  let ?p = "newCapabilityPlanFromConfig True
      (capabilities (legacyPermissions True True True True True) True)"
  show "registerUnified (allDeps\<lparr>d_audit := False\<rparr>) ?p [] = Inr (registeredTools ?p)"
    by code_simp
qed simp

text \<open>
  The size of the tool surface: ten tools by default, seven under read-only with the optional
  domains off, 24 with every gate on, and never more than 24.
\<close>

theorem tool_surface_size:
  "toolCount (newCapabilityPlan False False False False False) = 10
   \<and> toolCount (newCapabilityPlan True False False False False) = 7
   \<and> toolCount (newCapabilityPlan False True True True True) = 24
   \<and> toolCount p \<le> 24"
  by (simp add: length_registeredTools manifestNames_def newCapabilityPlan_def toolName_defs)

end
