(* ===== verification/Scopes.thy ===== *)
theory Scopes
  imports Permissions
begin

text \<open>
  \<open>internal/config/scopes.go\<close>: the resource allowlists of \<open>ICLOUD_MCP_RESOURCE_SCOPES\<close>, their
  parser, and the lookup with its fallbacks. The Go map from action to resources is a map; a
  lookup returns \<open>None\<close> for "not restricted" and \<open>Some vals\<close> for "restricted to these".
\<close>

record resourceScopes =
  s_configured :: bool
  s_values :: "string \<rightharpoonup> string list"

definition noScopes :: resourceScopes where
  "noScopes = \<lparr>s_configured = False, s_values = Map.empty\<rparr>"

definition resourceScopeKeys :: "string list" where
  "resourceScopeKeys =
     [''calendar.read'', ''calendar.write'', ''calendar.delete'', ''contacts.read'',
      ''contacts.write'', ''contacts.delete'', ''mail.read'', ''mail.mutate'', ''mail.archive'']"

definition validScopeCalendarPath :: "string \<Rightarrow> bool" where
  "validScopeCalendarPath value \<longleftrightarrow>
     \<not> (value = [] \<or> 1024 < length value \<or> \<not> hasPrefix value ''/'' \<or> containsStr value ''://''
        \<or> containsAny value [cr, lf, nul])
     \<and> list_all (\<lambda>segment. segment \<noteq> ''..'') (splitByte value CHR ''/'')"

text \<open>The inner loop: the resources of one entry.\<close>

fun scopeParts :: "string \<Rightarrow> string list \<Rightarrow> string list \<Rightarrow> config_error + string list" where
  "scopeParts key [] vals = Inr vals"
| "scopeParts key (p # ps) vals =
     (let part = trimSpace p in
      if part = [] \<or> 1024 < length part \<or> containsAny part [cr, lf, nul]
      then Inl ''invalid ICLOUD_MCP_RESOURCE_SCOPES: empty or invalid resource''
      else if hasPrefix key ''calendar.'' \<and> \<not> validScopeCalendarPath part
      then Inl ''invalid ICLOUD_MCP_RESOURCE_SCOPES: invalid calendar path''
      else if part \<in> set vals
      then Inl ''invalid ICLOUD_MCP_RESOURCE_SCOPES: duplicate resource''
      else scopeParts key ps (vals @ [part]))"

text \<open>The body of the outer loop: one \<open>action=value\<close> entry.\<close>

definition scopeEntry ::
  "string \<Rightarrow> (string \<rightharpoonup> string list) \<Rightarrow> config_error + (string \<rightharpoonup> string list)" where
  "scopeEntry e m =
     (let entry = trimSpace e in
      if entry = [] then Inl ''invalid ICLOUD_MCP_RESOURCE_SCOPES: empty entry''
      else case indexByte entry CHR ''='' of
        None \<Rightarrow> Inl ''invalid ICLOUD_MCP_RESOURCE_SCOPES: expected action=value''
      | Some equals \<Rightarrow>
          if equals = 0 \<or> equals = length entry - 1
          then Inl ''invalid ICLOUD_MCP_RESOURCE_SCOPES: expected action=value''
          else
            (let key = trimSpace (take equals entry) in
             if key \<notin> set resourceScopeKeys
             then Inl ''invalid ICLOUD_MCP_RESOURCE_SCOPES: unknown action''
             else if m key \<noteq> None
             then Inl ''invalid ICLOUD_MCP_RESOURCE_SCOPES: duplicate action''
             else
               (let raw = trimSpace (drop (equals + 1) entry) in
                if raw = ''*'' then Inr (m(key \<mapsto> [''*'']))
                else if containsStr raw ''*''
                then Inl ''invalid ICLOUD_MCP_RESOURCE_SCOPES: wildcard is valid only as the complete value''
                else if 64 < length (splitByte raw CHR '','')
                then Inl ''invalid ICLOUD_MCP_RESOURCE_SCOPES: too many resources''
                else case scopeParts key (splitByte raw CHR '','') [] of
                       Inl err \<Rightarrow> Inl err
                     | Inr vals \<Rightarrow> Inr (m(key \<mapsto> vals)))))"

fun scopeEntries ::
  "string list \<Rightarrow> (string \<rightharpoonup> string list) \<Rightarrow> config_error + (string \<rightharpoonup> string list)" where
  "scopeEntries [] m = Inr m"
| "scopeEntries (e # es) m =
     (case scopeEntry e m of Inl err \<Rightarrow> Inl err | Inr m' \<Rightarrow> scopeEntries es m')"

definition parseResourceScopes :: "string \<Rightarrow> config_error + resourceScopes" where
  "parseResourceScopes v =
     (let value = trimSpace v in
      if value = [] then Inr noScopes
      else if 64 < length (splitByte value CHR '';'')
      then Inl ''invalid ICLOUD_MCP_RESOURCE_SCOPES: too many entries''
      else case scopeEntries (splitByte value CHR '';'') Map.empty of
             Inl err \<Rightarrow> Inl err
           | Inr m \<Rightarrow> Inr \<lparr>s_configured = True, s_values = m\<rparr>)"

section \<open>Lookup\<close>

fun firstScope :: "(string \<rightharpoonup> string list) \<Rightarrow> string list \<Rightarrow> string list option" where
  "firstScope m [] = None"
| "firstScope m (c # cs) =
     (if c = [] then firstScope m cs
      else case m c of
        None \<Rightarrow> firstScope m cs
      | Some vals \<Rightarrow> if vals = [''*''] then None else Some vals)"

definition forAction :: "resourceScopes \<Rightarrow> string \<Rightarrow> string list \<Rightarrow> string list option" where
  "forAction s action fallbacks =
     (if \<not> s_configured s then None else firstScope (s_values s) (action # fallbacks))"

definition scopesCalendar :: "resourceScopes \<Rightarrow> string \<Rightarrow> string list option" where
  "scopesCalendar s action =
     (if action = ''calendar.write'' then forAction s action [''calendar.read'']
      else if action = ''calendar.delete''
      then forAction s action [''calendar.write'', ''calendar.read'']
      else forAction s action [])"

definition scopesContacts :: "resourceScopes \<Rightarrow> string \<Rightarrow> string list option" where
  "scopesContacts s action =
     (if action = ''contacts.write'' then forAction s action [''contacts.read'']
      else if action = ''contacts.delete''
      then forAction s action [''contacts.write'', ''contacts.read'']
      else forAction s action [])"

definition scopesMail :: "resourceScopes \<Rightarrow> string \<Rightarrow> string list option" where
  "scopesMail s action =
     (if action = ''mail.mutate'' then forAction s action [''mail.read'']
      else if action = ''mail.archive'' then forAction s action [''mail.mutate'', ''mail.read'']
      else forAction s action [])"

section \<open>The invariant of parsed scopes\<close>

definition goodPart :: "string \<Rightarrow> string \<Rightarrow> bool" where
  "goodPart key v \<longleftrightarrow> v \<noteq> [] \<and> length v \<le> 1024 \<and> \<not> containsAny v [cr, lf, nul]
     \<and> (hasPrefix key ''calendar.'' \<longrightarrow> validScopeCalendarPath v)"

definition goodScope :: "string \<Rightarrow> string list \<Rightarrow> bool" where
  "goodScope key vals \<longleftrightarrow>
     vals = [''*''] \<or>
     (vals \<noteq> [] \<and> distinct vals \<and> length vals \<le> 64
      \<and> (\<forall>v \<in> set vals. goodPart key v \<and> CHR ''*'' \<notin> set v))"

definition scopesOk :: "(string \<rightharpoonup> string list) \<Rightarrow> bool" where
  "scopesOk m \<longleftrightarrow> (\<forall>k vals. m k = Some vals \<longrightarrow> k \<in> set resourceScopeKeys \<and> goodScope k vals)"

lemma scopeParts_step:
  "scopeParts key (p # ps) vals = Inr out \<longleftrightarrow>
     goodPart key (trimSpace p) \<and> trimSpace p \<notin> set vals
     \<and> scopeParts key ps (vals @ [trimSpace p]) = Inr out"
  unfolding scopeParts.simps Let_def if_Inl_eq_Inr goodPart_def not_less de_Morgan_disj de_Morgan_conj
    not_not imp_conv_disj conj_assoc ..

lemma scopeParts_ok:
  assumes "scopeParts key ps vals = Inr out" and "distinct vals" and "\<forall>v \<in> set vals. goodPart key v"
  shows "distinct out \<and> length out = length vals + length ps
    \<and> set out = set vals \<union> set (map trimSpace ps) \<and> (\<forall>v \<in> set out. goodPart key v)"
  using assms
proof (induction ps arbitrary: vals)
  case (Cons p ps)
  from Cons.prems(1) have step: "goodPart key (trimSpace p)" "trimSpace p \<notin> set vals"
      "scopeParts key ps (vals @ [trimSpace p]) = Inr out"
    unfolding scopeParts_step by blast+
  have "distinct (vals @ [trimSpace p])" "\<forall>v \<in> set (vals @ [trimSpace p]). goodPart key v"
    using step(1,2) Cons.prems(2,3) by simp_all
  from Cons.IH [OF step(3) this] show ?case by simp
qed simp

lemma star_absent:
  assumes "\<not> containsStr raw ''*''" and "w \<in> set (splitByte raw c)"
  shows "CHR ''*'' \<notin> set (trimSpace w)"
proof -
  have "set (trimSpace w) \<subseteq> set raw"
    using splitByte_subset [OF assms(2)] set_trimSpace [of w] by blast
  moreover have "CHR ''*'' \<notin> set raw"
  proof
    assume "CHR ''*'' \<in> set raw"
    then obtain u v where "raw = u @ CHR ''*'' # v" by (auto simp: in_set_conv_decomp)
    then have "raw = u @ ''*'' @ v" by simp
    then show False using assms(1) unfolding containsStr_iff by blast
  qed
  ultimately show ?thesis by blast
qed

lemma scopeEntry_ok:
  assumes "scopeEntry e m = Inr m'" and "scopesOk m"
  shows "scopesOk m' \<and> (\<exists>key vals. m key = None \<and> m' = m(key \<mapsto> vals))"
proof -
  let ?entry = "trimSpace e"
  from assms(1) obtain eqs where idx: "indexByte ?entry CHR ''='' = Some eqs"
    by (auto simp: scopeEntry_def Let_def split: if_splits option.splits)
  let ?key = "trimSpace (take eqs ?entry)" and ?raw = "trimSpace (drop (eqs + 1) ?entry)"
  from assms(1) idx have key: "?key \<in> set resourceScopeKeys" "m ?key = None"
    by (auto simp: scopeEntry_def Let_def split: if_splits)
  have good: "\<exists>vals. m' = m(?key \<mapsto> vals) \<and> goodScope ?key vals"
  proof (cases "?raw = ''*''")
    case True
    with assms(1) idx key have "m' = m(?key \<mapsto> [''*''])"
      by (auto simp: scopeEntry_def Let_def split: if_splits)
    then show ?thesis by (auto simp: goodScope_def)
  next
    case False
    with assms(1) idx key obtain vals where
      nostar: "\<not> containsStr ?raw ''*''" and few: "length (splitByte ?raw CHR '','') \<le> 64"
      and parts: "scopeParts ?key (splitByte ?raw CHR '','') [] = Inr vals"
      and m': "m' = m(?key \<mapsto> vals)"
      by (auto simp: scopeEntry_def Let_def split: if_splits sum.splits)
    from scopeParts_ok [OF parts] have ok: "distinct vals"
      "length vals = length (splitByte ?raw CHR '','')"
      "set vals = set (map trimSpace (splitByte ?raw CHR '',''))" "\<forall>v \<in> set vals. goodPart ?key v"
      by simp_all
    have "\<forall>v \<in> set vals. CHR ''*'' \<notin> set v" using star_absent [OF nostar] ok(3) by auto
    moreover have "vals \<noteq> []" using ok(2) splitByte_ne by (metis length_0_conv)
    ultimately have "goodScope ?key vals" using ok few unfolding goodScope_def by simp
    then show ?thesis using m' by blast
  qed
  then obtain vals where "m' = m(?key \<mapsto> vals)" "goodScope ?key vals" by blast
  with key assms(2) show ?thesis by (auto simp: scopesOk_def)
qed

lemma scopeEntries_ok: "scopeEntries es m = Inr m' \<Longrightarrow> scopesOk m \<Longrightarrow> scopesOk m'"
  by (induction es m rule: scopeEntries.induct) (auto split: sum.splits dest!: scopeEntry_ok)

lemma parseResourceScopes_scopesOk:
  assumes "parseResourceScopes v = Inr s"
  shows "scopesOk (s_values s)"
proof -
  have "scopesOk Map.empty" by (simp add: scopesOk_def)
  then show ?thesis
    using assms
    by (auto simp: parseResourceScopes_def Let_def noScopes_def split: if_splits sum.splits
        dest!: scopeEntries_ok)
qed

text \<open>
  What the scope parser accepts is well formed: every action of an accepted value is one of
  the nine known actions, and its resources are either the single wildcard or between one and 64
  distinct, non-empty, single-line values of at most 1024 bytes without a wildcard; Calendar
  resources are absolute paths without a \<open>..\<close> segment.
\<close>

theorem parseResourceScopes_ok:
  assumes "parseResourceScopes v = Inr s"
  shows "scopesOk (s_values s)"
  using assms by (rule parseResourceScopes_scopesOk)

theorem parseResourceScopes_ok_witness:
  "scopesOk (s_values (case parseResourceScopes ''calendar.read=/a/, /b/;mail.read=*'' of
      Inr s \<Rightarrow> s | Inl _ \<Rightarrow> noScopes))
   \<and> s_values (case parseResourceScopes ''calendar.read=/a/, /b/;mail.read=*'' of
      Inr s \<Rightarrow> s | Inl _ \<Rightarrow> noScopes) ''calendar.read'' = Some [''/a/'', ''/b/'']"
proof -
  let ?v = "''calendar.read=/a/, /b/;mail.read=*''"
  have "isl (parseResourceScopes ?v) = False" by code_simp
  then have p: "parseResourceScopes ?v = Inr (projr (parseResourceScopes ?v))" by simp
  have "s_values (projr (parseResourceScopes ?v)) ''calendar.read'' = Some [''/a/'', ''/b/'']"
    by code_simp
  with parseResourceScopes_ok [OF p] show ?thesis by (subst (1 2) p) simp
qed

section \<open>Fallbacks only restrict\<close>

lemma forAction_cases:
  "forAction s action fallbacks =
     (if s_configured s then firstScope (s_values s) (action # fallbacks) else None)"
  by (simp add: forAction_def)

text \<open>
  A scope that restricts reads restricts every other action of the domain for which no scope of
  its own is configured: writes and deletes fall back to the read list.
\<close>

definition unscoped :: "resourceScopes \<Rightarrow> string \<Rightarrow> bool" where
  "unscoped s action \<longleftrightarrow> s_values s action = None"

lemma calendar_fallback:
  assumes "scopesCalendar s ''calendar.read'' = Some vals" and "unscoped s ''calendar.write''"
  shows "scopesCalendar s ''calendar.write'' = Some vals"
    and "unscoped s ''calendar.delete'' \<Longrightarrow> scopesCalendar s ''calendar.delete'' = Some vals"
  using assms
  by (auto simp: scopesCalendar_def forAction_def unscoped_def split: if_splits option.splits)

lemma contacts_fallback:
  assumes "scopesContacts s ''contacts.read'' = Some vals" and "unscoped s ''contacts.write''"
  shows "scopesContacts s ''contacts.write'' = Some vals"
    and "unscoped s ''contacts.delete'' \<Longrightarrow> scopesContacts s ''contacts.delete'' = Some vals"
  using assms
  by (auto simp: scopesContacts_def forAction_def unscoped_def split: if_splits option.splits)

lemma mail_fallback:
  assumes "scopesMail s ''mail.read'' = Some vals" and "unscoped s ''mail.mutate''"
  shows "scopesMail s ''mail.mutate'' = Some vals"
    and "unscoped s ''mail.archive'' \<Longrightarrow> scopesMail s ''mail.archive'' = Some vals"
  using assms
  by (auto simp: scopesMail_def forAction_def unscoped_def split: if_splits option.splits)

end
