(* ===== verification/Go_Errors.thy ===== *)
theory Go_Errors
  imports Go_Encoding "HOL-Library.AList"
begin

text \<open>
  The error values of the program: Go's \<open>error\<close> interface as one datatype, with the typed errors of
  \<open>internal/icloud/errors.go\<close>, \<open>internal/contacts/errors.go\<close> and \<open>internal/mail/errors.go\<close> as
  constructors, their classifiers and the public error codes. Durations are integers in
  nanoseconds, as \<open>time.Duration\<close> is.
\<close>

section \<open>Durations, decimal printing and parsing\<close>

type_synonym duration = int

abbreviation millisecond :: duration where "millisecond \<equiv> 1000000"
abbreviation second :: duration where "second \<equiv> 1000000000"
abbreviation minute :: duration where "minute \<equiv> 60000000000"

text \<open>The verb \<open>%d\<close> of \<open>fmt\<close>.\<close>

definition digitChar :: "nat \<Rightarrow> char" where
  "digitChar d = char_of (48 + d mod 10)"

fun decimalNat :: "nat \<Rightarrow> string" where
  "decimalNat n = (if n < 10 then [digitChar n] else decimalNat (n div 10) @ [digitChar n])"

declare decimalNat.simps [simp del]

definition decimal :: "int \<Rightarrow> string" where
  "decimal i = (if i < 0 then CHR ''-'' # decimalNat (nat (- i)) else decimalNat (nat i))"

text \<open>\<open>strconv.ParseInt(s, 10, 64)\<close>: an optional sign and decimal digits within 64 bits.\<close>

fun digitsValue :: "string \<Rightarrow> nat \<Rightarrow> nat option" where
  "digitsValue [] acc = Some acc"
| "digitsValue (c # cs) acc =
     (if inRange 0x30 0x39 c then digitsValue cs (acc * 10 + (bval c - 48)) else None)"

definition parseInt64 :: "string \<Rightarrow> int option" where
  "parseInt64 s =
     (let (neg, ds) = (case s of [] \<Rightarrow> (False, [])
                       | c # cs \<Rightarrow> if c = CHR ''-'' then (True, cs)
                                   else if c = CHR ''+'' then (False, cs) else (False, s)) in
      if ds = [] then None
      else case digitsValue ds 0 of
             None \<Rightarrow> None
           | Some n \<Rightarrow>
               (let v = (if neg then - int n else int n) in
                if - (2 ^ 63) \<le> v \<and> v < 2 ^ 63 then Some v else None))"

section \<open>Errors\<close>

type_synonym code = string

text \<open>
  \<open>CalErr\<close>, \<open>ContactsErr\<close> and \<open>MailErr\<close> are the \<open>Error\<close> structs of the three domain packages,
  \<open>WrapError\<close> is \<open>fmt.Errorf\<close> with \<open>%w\<close>, \<open>PlainError\<close> is \<open>errors.New\<close> or \<open>fmt.Errorf\<close> without it.
\<close>

datatype goError =
    ContextCanceled
  | DeadlineExceeded
  | PlainError string
  | WrapError string goError
  | CalErr (e_code: code) (e_status: int) (e_message: string) (e_retryable: bool)
      (e_retryAfter: duration) (e_details: "(string \<times> string) list") (e_cause: "goError option")
  | ContactsErr (ce_code: code) (ce_status: int) (ce_message: string) (ce_retryable: bool)
      (ce_retryAfter: duration) (ce_reconciliation: string)
  | MailErr (me_code: code) (me_message: string) (me_retryable: bool)
      (me_retryAfter: duration) (me_reconciliation: string)

text \<open>The codes of \<open>internal/icloud/errors.go\<close>; the other two packages use a subset of them.\<close>

definition codeValidation :: code where "codeValidation = ''validation''"
definition codeAuthenticationRefused :: code where
  "codeAuthenticationRefused = ''authentication_refused''"
definition codeAuthentication :: code where "codeAuthentication = ''authentication''"
definition codeForbidden :: code where "codeForbidden = ''forbidden''"
definition codeAuthorization :: code where "codeAuthorization = ''authorization''"
definition codeNotFound :: code where "codeNotFound = ''not_found''"
definition codeConflict :: code where "codeConflict = ''conflict''"
definition codeConcurrentModification :: code where
  "codeConcurrentModification = ''concurrent_modification''"
definition codeRateLimited :: code where "codeRateLimited = ''rate_limited''"
definition codeTimeout :: code where "codeTimeout = ''timeout''"
definition codeServerUnavailable :: code where "codeServerUnavailable = ''server_unavailable''"
definition codeUnavailable :: code where "codeUnavailable = ''unavailable''"
definition codePartialFailure :: code where "codePartialFailure = ''partial_failure''"
definition codeProtocolError :: code where "codeProtocolError = ''protocol_error''"
definition codePayloadTooLarge :: code where "codePayloadTooLarge = ''payload_too_large''"
definition codeOutcomeUnknown :: code where "codeOutcomeUnknown = ''outcome_unknown''"
definition codeHTTPError :: code where "codeHTTPError = ''http_error''"
definition codeInternal :: code where "codeInternal = ''internal_error''"

lemmas code_defs = codeValidation_def codeAuthenticationRefused_def codeAuthentication_def
  codeForbidden_def codeAuthorization_def codeNotFound_def codeConflict_def
  codeConcurrentModification_def codeRateLimited_def codeTimeout_def codeServerUnavailable_def
  codeUnavailable_def codePartialFailure_def codeProtocolError_def codePayloadTooLarge_def
  codeOutcomeUnknown_def codeHTTPError_def codeInternal_def

section \<open>internal/icloud/errors.go\<close>

definition newError :: "code \<Rightarrow> int \<Rightarrow> string \<Rightarrow> goError option \<Rightarrow> goError" where
  "newError c status message cause = CalErr c status message False 0 [] cause"

definition newValidationError :: "string \<Rightarrow> goError" where
  "newValidationError message = CalErr codeValidation 0 message False 0 [] None"

text \<open>\<open>errors.As\<close> follows the chain of wrapped errors to the first value of the type.\<close>

fun asICloudError :: "goError \<Rightarrow> goError option" where
  "asICloudError (CalErr c s m r a d k) = Some (CalErr c s m r a d k)"
| "asICloudError (WrapError m e) = asICloudError e"
| "asICloudError _ = None"

definition defaultRateLimitRetryAfter :: duration where "defaultRateLimitRetryAfter = 5 * second"
definition defaultUnavailableRetryAfter :: duration where
  "defaultUnavailableRetryAfter = 2 * second"
definition maxPublicRetryAfter :: duration where "maxPublicRetryAfter = 60 * second"

definition classifyStatusBare :: "int \<Rightarrow> goError" where
  "classifyStatusBare status =
     (if status = 401 then newError codeAuthenticationRefused status
        ''iCloud authentication refused: check ICLOUD_EMAIL and the app-specific password'' None
      else if status = 403 then newError codeForbidden status
        ''iCloud refused the request (forbidden): the app-specific password may have been revoked, or the calendar quota (50,000 events) is exceeded'' None
      else if status = 404 then newError codeNotFound status
        ''iCloud resource not found: the calendar or event no longer exists'' None
      else if status = 409 then CalErr codeConflict status
        ''the request conflicts with the current state of the resource'' False 0 [] None
      else if status = 412 then CalErr codeConcurrentModification status
        ''the event was modified by another client since it was read (ETag mismatch): re-read and retry the update''
        False 0 [] None
      else if status = 423 then CalErr codeConflict status
        ''the calendar resource is locked'' True 0 [] None
      else if status = 429 then CalErr codeRateLimited status
        ''iCloud is rate limiting requests (HTTP 429) after retries: reduce the request rate''
        True defaultRateLimitRetryAfter [] None
      else if 500 \<le> status then CalErr codeServerUnavailable status
        (''iCloud CalDAV shard is temporarily unavailable (HTTP '' @ decimal status @ '') after retries'')
        True defaultUnavailableRetryAfter [] None
      else newError codeProtocolError status
        (''iCloud returned an unexpected HTTP status ('' @ decimal status @ '')'') None)"

definition capPublicRetryAfter :: "duration \<Rightarrow> duration" where
  "capPublicRetryAfter d =
     (if d \<le> 0 then 0 else if maxPublicRetryAfter < d then maxPublicRetryAfter else d)"

text \<open>The assignment \<open>err.RetryAfter = \<dots>\<close> on a Calendar error.\<close>

fun setRetryAfter :: "duration \<Rightarrow> goError \<Rightarrow> goError" where
  "setRetryAfter a' (CalErr c s m r a d k) = CalErr c s m r a' d k"
| "setRetryAfter a' e = e"

definition classifyStatusWithRetryAfter :: "int \<Rightarrow> duration \<Rightarrow> goError" where
  "classifyStatusWithRetryAfter status retryAfter =
     (let err = classifyStatusBare status in
      if 0 < retryAfter \<and> (e_code err = codeRateLimited \<or> e_code err = codeServerUnavailable
           \<or> e_code err = codeUnavailable)
      then setRetryAfter (capPublicRetryAfter retryAfter) err
      else err)"

definition classifyStatus :: "int \<Rightarrow> goError" where
  "classifyStatus status = classifyStatusWithRetryAfter status 0"

definition outcomeUnknownError :: "int \<Rightarrow> goError" where
  "outcomeUnknownError status =
     CalErr codeOutcomeUnknown status ''the Calendar mutation outcome is unknown'' False 0
       [(''reconciliation'',
         ''Re-read the target event before retrying; do not repeat the mutation blindly.'')] None"

text \<open>The map of details is an association list without duplicate keys.\<close>

definition putDetail :: "string \<Rightarrow> string \<Rightarrow> (string \<times> string) list \<Rightarrow> (string \<times> string) list" where
  "putDetail k v details = AList.update k v details"

definition withOutcomeReconciliation :: "goError \<Rightarrow> string \<Rightarrow> string \<Rightarrow> goError" where
  "withOutcomeReconciliation err uid reconciliation =
     (case asICloudError err of
        Some (CalErr c s m r a d k) \<Rightarrow>
          if c \<noteq> codeOutcomeUnknown then err
          else CalErr c s m r a
                 (putDetail ''reconciliation'' reconciliation
                    (if uid \<noteq> [] then putDetail ''uid'' uid d else d)) k
      | _ \<Rightarrow> err)"

definition publicCode :: "code \<Rightarrow> code" where
  "publicCode c =
     (if c = codeAuthenticationRefused then codeAuthentication
      else if c = codeForbidden then codeAuthorization
      else if c = codeServerUnavailable then codeUnavailable
      else if c = codeHTTPError then codeProtocolError
      else c)"

section \<open>internal/contacts/errors.go\<close>

definition contactsError :: "code \<Rightarrow> int \<Rightarrow> string \<Rightarrow> goError" where
  "contactsError c status message = ContactsErr c status message False 0 []"

definition contactsValidationError :: "string \<Rightarrow> goError" where
  "contactsValidationError message = contactsError codeValidation 0 message"

fun asContactsError :: "goError \<Rightarrow> goError option" where
  "asContactsError (ContactsErr c s m r a k) = Some (ContactsErr c s m r a k)"
| "asContactsError (WrapError m e) = asContactsError e"
| "asContactsError (CalErr c s m r a d (Some e)) = asContactsError e"
| "asContactsError _ = None"

definition contactsClassifyStatus :: "int \<Rightarrow> goError" where
  "contactsClassifyStatus status =
     (if status = 401 then contactsError codeAuthentication status
        ''iCloud Contacts authentication was rejected''
      else if status = 403 then contactsError codeAuthorization status
        ''iCloud Contacts denied the operation''
      else if status = 404 then contactsError codeNotFound status
        ''contact resource was not found''
      else if status = 409 then contactsError codeConflict status
        ''the operation conflicts with the current resource state''
      else if status = 412 then contactsError codeConcurrentModification status
        ''the contact changed since it was read''
      else if status = 413 \<or> status = 507 then contactsError codePayloadTooLarge status
        ''the contact exceeds the server resource limit''
      else if status = 429 then ContactsErr codeRateLimited status
        ''iCloud Contacts is rate limiting requests'' True (5 * second) []
      else if status = 408 \<or> status = 504 then ContactsErr codeTimeout status
        ''the Contacts request timed out'' True (2 * second) []
      else if 500 \<le> status then ContactsErr codeUnavailable status
        ''iCloud Contacts is temporarily unavailable'' True (2 * second) []
      else contactsError codeProtocolError status
        ''iCloud Contacts returned an unexpected HTTP status'')"

section \<open>internal/mail/errors.go\<close>

definition mailError :: "code \<Rightarrow> string \<Rightarrow> goError" where
  "mailError c message = MailErr c message False 0 []"

definition newRetryableError :: "code \<Rightarrow> string \<Rightarrow> goError" where
  "newRetryableError c message =
     MailErr c message True
       (if c = codeRateLimited then 5 * second
        else if c = codeTimeout \<or> c = codeUnavailable then 2 * second else 0) []"

definition mailValidationError :: "string \<Rightarrow> goError" where
  "mailValidationError message = mailError codeValidation message"

fun asMailError :: "goError \<Rightarrow> goError option" where
  "asMailError (MailErr c m r a k) = Some (MailErr c m r a k)"
| "asMailError (WrapError m e) = asMailError e"
| "asMailError (CalErr c s m r a d (Some e)) = asMailError e"
| "asMailError _ = None"

section \<open>Sequences of checks\<close>

text \<open>The first error of a sequence of checks, evaluated in order.\<close>

fun firstError :: "goError option list \<Rightarrow> goError option" where
  "firstError [] = None"
| "firstError (None # es) = firstError es"
| "firstError (Some e # es) = Some e"

lemma firstError_None: "firstError es = None \<longleftrightarrow> (\<forall>e \<in> set es. e = None)"
  by (induction es rule: firstError.induct) auto

lemma firstError_Cons: "firstError (e # es) = None \<longleftrightarrow> e = None \<and> firstError es = None"
  by (cases e) auto

lemma firstError_append: "firstError (xs @ ys) = None \<longleftrightarrow> firstError xs = None \<and> firstError ys = None"
  by (auto simp: firstError_None)

lemmas firstError_iff = firstError_Cons firstError_append firstError.simps(1)

lemma if_Some_eq_None: "(if A then Some e else X) = None \<longleftrightarrow> \<not> A \<and> X = None"
  by simp

section \<open>Bounds of the classified errors\<close>

text \<open>The public vocabulary: what an MCP client can see.\<close>

definition publicCodes :: "code list" where
  "publicCodes =
     [codeValidation, codeAuthentication, codeAuthorization, codeNotFound, codeConflict,
      codeConcurrentModification, codeRateLimited, codeTimeout, codeUnavailable,
      codePartialFailure, codeProtocolError, codePayloadTooLarge, codeOutcomeUnknown,
      codeInternal]"

lemma classifyStatusBare_cal: "is_CalErr (classifyStatusBare status)"
  by (simp add: classifyStatusBare_def newError_def)

lemma classify_cal: "is_CalErr (classifyStatusWithRetryAfter status d)"
  using classifyStatusBare_cal [of status]
  by (cases "classifyStatusBare status") (simp_all add: classifyStatusWithRetryAfter_def Let_def)

lemma setRetryAfter_sel [simp]:
  "is_CalErr e \<Longrightarrow> e_code (setRetryAfter a e) = e_code e"
  "is_CalErr e \<Longrightarrow> e_status (setRetryAfter a e) = e_status e"
  "is_CalErr e \<Longrightarrow> e_retryAfter (setRetryAfter a e) = a"
  "is_CalErr e \<Longrightarrow> e_retryable (setRetryAfter a e) = e_retryable e"
  by (cases e; simp)+

lemma classify_code: "e_code (classifyStatusWithRetryAfter status d) = e_code (classifyStatusBare status)"
  using classifyStatusBare_cal [of status] by (simp add: classifyStatusWithRetryAfter_def Let_def)

lemma capPublicRetryAfter_bounds:
  "0 \<le> capPublicRetryAfter d" "capPublicRetryAfter d \<le> 60 * second"
  by (simp_all add: capPublicRetryAfter_def maxPublicRetryAfter_def)

lemma classify_retryAfter:
  "0 \<le> e_retryAfter (classifyStatusWithRetryAfter status d)
   \<and> e_retryAfter (classifyStatusWithRetryAfter status d) \<le> 60 * second"
proof -
  have "0 \<le> e_retryAfter (classifyStatusBare status)
      \<and> e_retryAfter (classifyStatusBare status) \<le> 60 * second"
    by (simp add: classifyStatusBare_def newError_def defaultRateLimitRetryAfter_def
        defaultUnavailableRetryAfter_def)
  then show ?thesis
    using classifyStatusBare_cal [of status] capPublicRetryAfter_bounds [of d]
    by (simp add: classifyStatusWithRetryAfter_def Let_def)
qed

lemma classify_public: "publicCode (e_code (classifyStatusWithRetryAfter status d)) \<in> set publicCodes"
  unfolding classify_code
  by (simp add: classifyStatusBare_def newError_def publicCode_def publicCodes_def code_defs)

lemma classify_not_unknown: "e_code (classifyStatusWithRetryAfter status d) \<noteq> codeOutcomeUnknown"
  unfolding classify_code by (simp add: classifyStatusBare_def newError_def code_defs)

lemma publicCode_idem: "publicCode (publicCode c) = publicCode c"
  by (simp add: publicCode_def code_defs)

end
