(* ===== verification/Resource_Scope.thy ===== *)
theory Resource_Scope
  imports Scopes Go_Errors "HOL-Library.List_Lexorder" "HOL-Library.Char_ord"
    "HOL-Library.Product_Lexorder"
begin

text \<open>
  \<open>internal/mcptools/resources.go\<close>: the checks that keep every tool inside the resource scopes of
  \<open>Scopes.thy\<close>. The Contacts service is an interface: a record of its two read operations, each a
  function of the state of the outside world that returns the world after the call, so two calls
  may answer differently. Go compares strings by bytes, which is the lexicographic order of
  \<open>List_Lexorder\<close> over the byte order of \<open>Char_ord\<close>; \<open>strings.ToLower\<close> in the sort of the display
  names is a parameter.
\<close>

section \<open>Data\<close>

record calendar =
  cal_path :: string
  cal_name :: string
  cal_description :: string
  cal_color :: string

record mailbox =
  mb_name :: string
  mb_delimiter :: string
  mb_attributes :: "string list"

record typedValue =
  tv_type :: string
  tv_value :: string

record addressBook =
  ab_identifier :: string
  ab_name :: string
  ab_description :: string
  ab_supportedVersions :: "string list"
  ab_writeVersion :: string
  ab_maxResourceSize :: int

record contactSummary =
  cs_addressBook :: string
  cs_uid :: string
  cs_etag :: string
  cs_displayName :: string
  cs_organization :: string
  cs_emails :: "typedValue list"
  cs_phones :: "typedValue list"
  cs_isGroup :: bool

record searchOptions =
  so_addressBook :: string
  so_query :: string
  so_email :: string
  so_phone :: string
  so_includeGroups :: bool
  so_limit :: int

record searchResult =
  sr_contacts :: "contactSummary list"
  sr_truncated :: bool
  sr_scanLimitReached :: bool

definition emptyResult :: searchResult where
  "emptyResult = \<lparr>sr_contacts = [], sr_truncated = False, sr_scanLimitReached = False\<rparr>"

record 'w contactsService =
  svc_listAddressBooks :: "'w \<Rightarrow> (goError + addressBook list) \<times> 'w"
  svc_searchContacts :: "searchOptions \<Rightarrow> 'w \<Rightarrow> (goError + searchResult) \<times> 'w"

section \<open>Calendar and Mail\<close>

fun scopeContains :: "string list \<Rightarrow> string \<Rightarrow> bool" where
  "scopeContains [] candidate \<longleftrightarrow> False"
| "scopeContains (v # vs) candidate \<longleftrightarrow> (if v = candidate then True else scopeContains vs candidate)"

definition authorizeCalendar :: "resourceScopes \<Rightarrow> string \<Rightarrow> string \<Rightarrow> goError option" where
  "authorizeCalendar scopes action path =
     (case scopesCalendar scopes action of
        None \<Rightarrow> None
      | Some vals \<Rightarrow>
          if scopeContains vals path then None
          else Some (newError codeAuthorization 0
                       ''calendar is outside the configured resource scope'' None))"

definition authorizeCalendarRead :: "resourceScopes \<Rightarrow> string \<Rightarrow> goError option" where
  "authorizeCalendarRead scopes path = authorizeCalendar scopes ''calendar.read'' path"

definition authorizeCalendarWrite :: "resourceScopes \<Rightarrow> string \<Rightarrow> goError option" where
  "authorizeCalendarWrite scopes path = authorizeCalendar scopes ''calendar.write'' path"

definition authorizeCalendarDelete :: "resourceScopes \<Rightarrow> string \<Rightarrow> goError option" where
  "authorizeCalendarDelete scopes path = authorizeCalendar scopes ''calendar.delete'' path"

definition filterCalendars :: "calendar list \<Rightarrow> resourceScopes \<Rightarrow> string \<Rightarrow> calendar list" where
  "filterCalendars calendars scopes action =
     (case scopesCalendar scopes action of
        None \<Rightarrow> calendars
      | Some vals \<Rightarrow> filter (\<lambda>c. scopeContains vals (cal_path c)) calendars)"

definition filterCalendarReads :: "calendar list \<Rightarrow> resourceScopes \<Rightarrow> calendar list" where
  "filterCalendarReads calendars scopes = filterCalendars calendars scopes ''calendar.read''"

definition calendarReadScope :: "resourceScopes \<Rightarrow> string list option" where
  "calendarReadScope scopes = scopesCalendar scopes ''calendar.read''"

definition authorizeMailbox :: "resourceScopes \<Rightarrow> string \<Rightarrow> string \<Rightarrow> goError option" where
  "authorizeMailbox scopes action mailbox =
     (case scopesMail scopes action of
        None \<Rightarrow> None
      | Some vals \<Rightarrow>
          if scopeContains vals mailbox then None
          else Some (MailErr codeAuthorization ''mailbox is outside the configured resource scope''
                       False 0 []))"

text \<open>The loop over the mutate and archive actions; \<open>None\<close> is its early return.\<close>

fun mailboxScopes :: "resourceScopes \<Rightarrow> string list \<Rightarrow> string list \<Rightarrow> string list option" where
  "mailboxScopes scopes [] allowed = Some allowed"
| "mailboxScopes scopes (action # actions) allowed =
     (case scopesMail scopes action of
        None \<Rightarrow> None
      | Some vals \<Rightarrow> mailboxScopes scopes actions (allowed @ vals))"

definition filterMailboxes :: "mailbox list \<Rightarrow> resourceScopes \<Rightarrow> mailbox list" where
  "filterMailboxes mailboxes scopes =
     (case scopesMail scopes ''mail.read'' of
        None \<Rightarrow> mailboxes
      | Some readValues \<Rightarrow>
          (case mailboxScopes scopes [''mail.mutate'', ''mail.archive''] readValues of
             None \<Rightarrow> mailboxes
           | Some allowed \<Rightarrow> filter (\<lambda>m. mb_name m \<in> set allowed) mailboxes))"

definition selectableMailbox :: "mailbox \<Rightarrow> bool" where
  "selectableMailbox m \<longleftrightarrow>
     \<not> list_ex (\<lambda>a. equalFold a (backslash # ''Noselect'') \<or> equalFold a (backslash # ''NonExistent''))
         (mb_attributes m)"

definition trashMailbox :: "mailbox \<Rightarrow> bool" where
  "trashMailbox m \<longleftrightarrow> list_ex (\<lambda>a. equalFold a (backslash # ''Trash'')) (mb_attributes m)"

definition uniqueTrashMailbox :: "mailbox list \<Rightarrow> goError + string" where
  "uniqueTrashMailbox mailboxes =
     (let trash = map mb_name (filter (\<lambda>m. selectableMailbox m \<and> trashMailbox m) mailboxes) in
      if length trash \<noteq> 1
      then Inl (MailErr codeProtocolError
                  ''exactly one selectable SPECIAL-USE Trash mailbox is required'' False 0 [])
      else Inr (hd trash))"

section \<open>Contacts\<close>

text \<open>
  The set of allowed identifiers is the Go map from identifier to \<open>true\<close>. \<open>resolveScope\<close> is the body
  of the loop over the configured values and \<open>resolveScopes\<close> the loop.
\<close>

definition resolveScope :: "addressBook list \<Rightarrow> string \<Rightarrow> string set \<Rightarrow> goError + string set" where
  "resolveScope books value allowed =
     (if list_ex (\<lambda>b. ab_identifier b = value) books then Inr (insert value allowed)
      else
        (let byName = map ab_identifier (filter (\<lambda>b. ab_name b = value) books) in
         if length byName = 0
         then Inl (PlainError ''configured address book scope does not match a discovered address book'')
         else if length byName = 1 then Inr (insert (byName ! 0) allowed)
         else Inl (PlainError ''configured address book scope is ambiguous'')))"

fun resolveScopes :: "addressBook list \<Rightarrow> string list \<Rightarrow> string set \<Rightarrow> goError + string set" where
  "resolveScopes books [] allowed = Inr allowed"
| "resolveScopes books (value # vs) allowed =
     (case resolveScope books value allowed of
        Inl err \<Rightarrow> Inl err
      | Inr allowed' \<Rightarrow> resolveScopes books vs allowed')"

text \<open>\<open>Inr None\<close> is the unrestricted answer.\<close>

definition allowedContactBooks ::
  "resourceScopes \<Rightarrow> 'w contactsService \<Rightarrow> string \<Rightarrow> 'w \<Rightarrow> (goError + string set option) \<times> 'w" where
  "allowedContactBooks scopes service action w =
     (case scopesContacts scopes action of
        None \<Rightarrow> (Inr None, w)
      | Some vals \<Rightarrow>
          (case svc_listAddressBooks service w of
             (Inl err, w') \<Rightarrow> (Inl err, w')
           | (Inr books, w') \<Rightarrow>
               (case resolveScopes books vals {} of
                  Inl err \<Rightarrow> (Inl err, w')
                | Inr allowed \<Rightarrow> (Inr (Some allowed), w'))))"

definition contactScopeAllows ::
  "resourceScopes \<Rightarrow> 'w contactsService \<Rightarrow> string \<Rightarrow> string \<Rightarrow> 'w \<Rightarrow> (goError + bool) \<times> 'w" where
  "contactScopeAllows scopes service action addressBook w =
     (case allowedContactBooks scopes service action w of
        (Inl err, w') \<Rightarrow> (Inl err, w')
      | (Inr None, w') \<Rightarrow> (Inr True, w')
      | (Inr (Some allowed), w') \<Rightarrow> (Inr (addressBook \<in> allowed), w'))"

definition authorizeContactBook ::
  "resourceScopes \<Rightarrow> 'w contactsService \<Rightarrow> string \<Rightarrow> string \<Rightarrow> 'w \<Rightarrow> goError option \<times> 'w" where
  "authorizeContactBook scopes service action addressBook w =
     (case contactScopeAllows scopes service action addressBook w of
        (Inl err, w') \<Rightarrow> (Some err, w')
      | (Inr allowed, w') \<Rightarrow>
          (if \<not> allowed
           then Some (ContactsErr codeAuthorization 0
                        ''address book is outside the configured resource scope'' False 0 [])
           else None, w'))"

text \<open>On an error the books come back beside it, as in the code; callers return the error.\<close>

definition filterAddressBooks ::
  "addressBook list \<Rightarrow> resourceScopes \<Rightarrow> 'w contactsService \<Rightarrow> 'w
     \<Rightarrow> (addressBook list \<times> goError option) \<times> 'w" where
  "filterAddressBooks books scopes service w =
     (case allowedContactBooks scopes service ''contacts.read'' w of
        (Inl err, w') \<Rightarrow> ((books, Some err), w')
      | (Inr None, w') \<Rightarrow> ((books, None), w')
      | (Inr (Some allowed), w') \<Rightarrow>
          ((filter (\<lambda>b. ab_identifier b \<in> allowed) books, None), w'))"

definition filterContactsByBook :: "contactSummary list \<Rightarrow> string \<Rightarrow> contactSummary list" where
  "filterContactsByBook contactsList addressBook =
     filter (\<lambda>c. cs_addressBook c = addressBook) contactsList"

text \<open>\<open>sort.SliceStable\<close> with a comparison by three keys in turn.\<close>

definition sortContactSummaries :: "(string \<Rightarrow> string) \<Rightarrow> searchResult \<Rightarrow> searchResult" where
  "sortContactSummaries lower result =
     result\<lparr>sr_contacts :=
       sort_key (\<lambda>c. (lower (cs_displayName c), cs_uid c, cs_addressBook c)) (sr_contacts result)\<rparr>"

text \<open>The loop over the sorted identifiers.\<close>

fun searchBooks ::
  "'w contactsService \<Rightarrow> searchOptions \<Rightarrow> string list \<Rightarrow> searchResult \<Rightarrow> 'w
     \<Rightarrow> (goError + searchResult) \<times> 'w" where
  "searchBooks service opts [] combined w = (Inr combined, w)"
| "searchBooks service opts (bookId # ids) combined w =
     (case svc_searchContacts service (opts\<lparr>so_addressBook := bookId\<rparr>) w of
        (Inl err, w') \<Rightarrow> (Inl err, w')
      | (Inr part, w') \<Rightarrow>
          searchBooks service opts ids
            \<lparr>sr_contacts = sr_contacts combined @ filterContactsByBook (sr_contacts part) bookId,
             sr_truncated = (sr_truncated combined \<or> sr_truncated part),
             sr_scanLimitReached = (sr_scanLimitReached combined \<or> sr_scanLimitReached part)\<rparr> w')"

definition limitResult :: "int \<Rightarrow> searchResult \<Rightarrow> searchResult" where
  "limitResult limit result =
     (if 0 < limit \<and> limit < int (length (sr_contacts result))
      then result\<lparr>sr_contacts := take (nat limit) (sr_contacts result), sr_truncated := True\<rparr>
      else result)"

definition searchScopedContacts ::
  "(string \<Rightarrow> string) \<Rightarrow> resourceScopes \<Rightarrow> 'w contactsService \<Rightarrow> searchOptions \<Rightarrow> 'w
     \<Rightarrow> (goError + searchResult) \<times> 'w" where
  "searchScopedContacts lower scopes service opts w =
     (if so_addressBook opts \<noteq> []
      then
        (case authorizeContactBook scopes service ''contacts.read'' (so_addressBook opts) w of
           (Some err, w') \<Rightarrow> (Inl err, w')
         | (None, w') \<Rightarrow>
             (case svc_searchContacts service opts w' of
                (Inl err, w'') \<Rightarrow> (Inl err, w'')
              | (Inr result, w'') \<Rightarrow>
                  (Inr (result\<lparr>sr_contacts :=
                     filterContactsByBook (sr_contacts result) (so_addressBook opts)\<rparr>), w'')))
      else
        (case allowedContactBooks scopes service ''contacts.read'' w of
           (Inl err, w') \<Rightarrow> (Inl err, w')
         | (Inr None, w') \<Rightarrow> svc_searchContacts service opts w'
         | (Inr (Some allowed), w') \<Rightarrow>
             (case searchBooks service opts (sorted_list_of_set allowed) emptyResult w' of
                (Inl err, w'') \<Rightarrow> (Inl err, w'')
              | (Inr combined, w'') \<Rightarrow>
                  (Inr (limitResult (so_limit opts) (sortContactSummaries lower combined)), w''))))"

section \<open>Lemmas\<close>

lemma scopeContains_iff [simp]: "scopeContains vs c \<longleftrightarrow> c \<in> set vs"
  by (induction vs) auto

text \<open>
  What a configured value stands for: the address book with that identifier or, when no book has
  it as identifier, the only book of that name.
\<close>

definition designates :: "addressBook list \<Rightarrow> string \<Rightarrow> string \<Rightarrow> bool" where
  "designates books value bookId \<longleftrightarrow>
     (if value \<in> ab_identifier ` set books then bookId = value
      else \<exists>b. filter (\<lambda>b. ab_name b = value) books = [b] \<and> bookId = ab_identifier b)"

lemma designates_book: "designates books value bookId \<Longrightarrow> \<exists>b \<in> set books. ab_identifier b = bookId"
proof -
  assume d: "designates books value bookId"
  have "b \<in> set books" if "filter (\<lambda>b. ab_name b = value) books = [b]" for b
    using that by (metis filter_is_subset list.set_intros(1) subsetD)
  with d show ?thesis by (auto simp: designates_def split: if_splits)
qed

lemma resolveScope_exact:
  assumes "resolveScope books value allowed = Inr allowed'"
  shows "allowed' = allowed \<union> {i. designates books value i} \<and> (\<exists>i. designates books value i)"
proof (cases "value \<in> ab_identifier ` set books")
  case True
  then have "list_ex (\<lambda>b. ab_identifier b = value) books" by (auto simp: list_ex_iff)
  with True show ?thesis using assms by (auto simp: resolveScope_def designates_def)
next
  case False
  then have "\<not> list_ex (\<lambda>b. ab_identifier b = value) books" by (auto simp: list_ex_iff)
  with assms have "length (filter (\<lambda>b. ab_name b = value) books) = 1"
    and a: "allowed' = insert (map ab_identifier (filter (\<lambda>b. ab_name b = value) books) ! 0) allowed"
    by (auto simp: resolveScope_def Let_def split: if_splits)
  then obtain b where b: "filter (\<lambda>b. ab_name b = value) books = [b]" by (auto simp: length_Suc_conv)
  with a False show ?thesis by (auto simp: designates_def)
qed

lemma resolveScopes_exact:
  "resolveScopes books vs allowed = Inr out \<Longrightarrow>
     out = allowed \<union> {i. \<exists>v \<in> set vs. designates books v i}
     \<and> (\<forall>v \<in> set vs. \<exists>i. designates books v i)"
proof (induction vs arbitrary: allowed)
  case (Cons v vs)
  from Cons.prems(1) obtain mid where mid: "resolveScope books v allowed = Inr mid"
    and rest: "resolveScopes books vs mid = Inr out" by (auto split: sum.splits)
  from resolveScope_exact [OF mid] Cons.IH [OF rest] show ?case by auto
qed simp

lemma resolveScopes_finite: "resolveScopes books vs {} = Inr out \<Longrightarrow> finite out"
proof -
  assume r: "resolveScopes books vs {} = Inr out"
  have "out \<subseteq> ab_identifier ` set books"
    using resolveScopes_exact [OF r] designates_book by fastforce
  then show ?thesis by (rule finite_subset) simp
qed

lemma allowedContactBooks_Some:
  assumes "allowedContactBooks scopes service action w = (Inr (Some allowed), w')"
  obtains vals books where "scopesContacts scopes action = Some vals"
    and "svc_listAddressBooks service w = (Inr books, w')"
    and "resolveScopes books vals {} = Inr allowed"
  using assms by (auto simp: allowedContactBooks_def split: option.splits prod.splits sum.splits)

lemma allowedContactBooks_finite:
  "allowedContactBooks scopes service action w = (Inr (Some allowed), w') \<Longrightarrow> finite allowed"
  by (erule allowedContactBooks_Some) (rule resolveScopes_finite)

lemma searchBooks_sound:
  "searchBooks service opts ids combined w = (Inr out, w') \<Longrightarrow>
     c \<in> set (sr_contacts out) \<Longrightarrow> c \<in> set (sr_contacts combined) \<or> cs_addressBook c \<in> set ids"
  by (induction service opts ids combined w rule: searchBooks.induct)
    (fastforce simp: filterContactsByBook_def split: prod.splits sum.splits)+

lemma limitResult_sound: "set (sr_contacts (limitResult n r)) \<subseteq> set (sr_contacts r)"
  by (auto simp: limitResult_def dest: in_set_takeD)

lemma sortContactSummaries_set [simp]:
  "set (sr_contacts (sortContactSummaries lower r)) = set (sr_contacts r)"
  by (simp add: sortContactSummaries_def)

lemma searchScopedContacts_restricted:
  assumes res: "scopesContacts scopes ''contacts.read'' = Some vals"
    and ok: "searchScopedContacts lower scopes service opts w = (Inr r, w')"
  obtains books w1 allowed where "svc_listAddressBooks service w = (Inr books, w1)"
    and "resolveScopes books vals {} = Inr allowed"
    and "\<forall>c \<in> set (sr_contacts r). cs_addressBook c \<in> allowed"
proof -
  obtain acc w1 where acc: "allowedContactBooks scopes service ''contacts.read'' w = (Inr (Some acc), w1)"
    using ok res
    by (auto simp: searchScopedContacts_def authorizeContactBook_def contactScopeAllows_def
        allowedContactBooks_def split: if_splits prod.splits sum.splits option.splits)
  then obtain books where list: "svc_listAddressBooks service w = (Inr books, w1)"
    and allowed: "resolveScopes books vals {} = Inr acc"
    using res by (auto elim!: allowedContactBooks_Some)
  have "\<forall>c \<in> set (sr_contacts r). cs_addressBook c \<in> acc"
  proof (cases "so_addressBook opts = []")
    case False
    then have "so_addressBook opts \<in> acc"
      and "\<forall>c \<in> set (sr_contacts r). cs_addressBook c = so_addressBook opts"
      using ok acc
      by (auto simp: searchScopedContacts_def authorizeContactBook_def contactScopeAllows_def
          filterContactsByBook_def split: if_splits prod.splits sum.splits option.splits)
    then show ?thesis by simp
  next
    case True
    then obtain comb where
      b: "searchBooks service opts (sorted_list_of_set acc) emptyResult w1 = (Inr comb, w')"
      and r: "r = limitResult (so_limit opts) (sortContactSummaries lower comb)"
      using ok acc by (auto simp: searchScopedContacts_def split: prod.splits sum.splits)
    show ?thesis
    proof
      fix c assume "c \<in> set (sr_contacts r)"
      then have "c \<in> set (sr_contacts comb)" using limitResult_sound r by fastforce
      from searchBooks_sound [OF b this] show "cs_addressBook c \<in> acc"
        using resolveScopes_finite [OF allowed] by (simp add: emptyResult_def)
    qed
  qed
  with that list allowed show thesis by blast
qed

section \<open>Properties\<close>

text \<open>
  C8. Scoped contact search never leaks a contact from another address book. Whenever the read
  scope is restricted and the search succeeds, every returned contact belongs to an address book
  that the server lists and that a configured value designates (by identifier or, failing that, as
  the only book of that name), for every Contacts service, including one that answers a search for
  one book with contacts of another and whose answers change between calls.
\<close>

theorem scoped_search_confined:
  assumes "scopesContacts scopes ''contacts.read'' = Some vals"
    and "searchScopedContacts lower scopes service opts w = (Inr r, w')"
    and "c \<in> set (sr_contacts r)"
  shows "\<exists>books w1. svc_listAddressBooks service w = (Inr books, w1)
           \<and> (\<exists>v \<in> set vals. designates books v (cs_addressBook c))
           \<and> cs_addressBook c \<in> ab_identifier ` set books"
proof -
  obtain books w1 allowed where b: "svc_listAddressBooks service w = (Inr books, w1)"
    "resolveScopes books vals {} = Inr allowed" "\<forall>c \<in> set (sr_contacts r). cs_addressBook c \<in> allowed"
    using searchScopedContacts_restricted [OF assms(1,2)] by blast
  then obtain v where "v \<in> set vals" "designates books v (cs_addressBook c)"
    using resolveScopes_exact [OF b(2)] assms(3) by auto
  with b(1) designates_book [OF this(2)] show ?thesis by force
qed

text \<open>A service that ignores the requested book and answers with contacts of two books.\<close>

definition sampleBook :: "string \<Rightarrow> string \<Rightarrow> addressBook" where
  "sampleBook i n = \<lparr>ab_identifier = i, ab_name = n, ab_description = [], ab_supportedVersions = [],
     ab_writeVersion = [], ab_maxResourceSize = 0\<rparr>"

definition sampleContact :: "string \<Rightarrow> string \<Rightarrow> contactSummary" where
  "sampleContact b u = \<lparr>cs_addressBook = b, cs_uid = u, cs_etag = [], cs_displayName = u,
     cs_organization = [], cs_emails = [], cs_phones = [], cs_isGroup = False\<rparr>"

definition leakyService :: "unit contactsService" where
  "leakyService = \<lparr>
     svc_listAddressBooks = (\<lambda>w. (Inr [sampleBook ''1'' ''Home'', sampleBook ''2'' ''Work''], w)),
     svc_searchContacts = (\<lambda>opts w. (Inr \<lparr>sr_contacts = [sampleContact ''2'' ''bob'',
       sampleContact ''1'' ''zoe'', sampleContact ''1'' ''ann''],
       sr_truncated = False, sr_scanLimitReached = False\<rparr>, w))\<rparr>"

definition sampleOptions :: searchOptions where
  "sampleOptions = \<lparr>so_addressBook = [], so_query = [], so_email = [], so_phone = [],
     so_includeGroups = False, so_limit = 5\<rparr>"

definition sampleScopes :: resourceScopes where
  "sampleScopes = \<lparr>s_configured = True, s_values = [''contacts.read'' \<mapsto> [''Home'']]\<rparr>"

theorem scoped_search_confined_witness:
  "searchScopedContacts id sampleScopes leakyService sampleOptions () =
     (Inr \<lparr>sr_contacts = [sampleContact ''1'' ''ann'', sampleContact ''1'' ''zoe''],
       sr_truncated = False, sr_scanLimitReached = False\<rparr>, ())
   \<and> (\<exists>books w1. svc_listAddressBooks leakyService () = (Inr books, w1)
        \<and> (\<exists>v \<in> set [''Home'']. designates books v (cs_addressBook (sampleContact ''1'' ''ann'')))
        \<and> cs_addressBook (sampleContact ''1'' ''ann'') \<in> ab_identifier ` set books)"
proof -
  let ?r = "\<lparr>sr_contacts = [sampleContact ''1'' ''ann'', sampleContact ''1'' ''zoe''],
       sr_truncated = False, sr_scanLimitReached = False\<rparr>"
  have s: "scopesContacts sampleScopes ''contacts.read'' = Some [''Home'']" by code_simp
  have r: "searchScopedContacts id sampleScopes leakyService sampleOptions () = (Inr ?r, ())"
    by code_simp
  have "sampleContact ''1'' ''ann'' \<in> set (sr_contacts ?r)" by simp
  from scoped_search_confined [OF s r this] r show ?thesis by (intro conjI)
qed

text \<open>
  Every Calendar path that a tool is allowed to touch under a restricted scope is one of the
  configured paths and passes the path policy: for scopes that came out of the parser, an authorised
  path is a non-empty absolute path of at most 1024 bytes, without a scheme, a line break or a
  \<open>..\<close> segment.
\<close>

theorem authorized_calendar_path_valid:
  assumes "parseResourceScopes v = Inr s"
    and "action \<in> {''calendar.read'', ''calendar.write'', ''calendar.delete''}"
    and "scopesCalendar s action = Some vals"
    and "authorizeCalendar s action path = None"
  shows "path \<in> set vals \<and> validScopeCalendarPath path"
proof -
  have "\<exists>k \<in> {''calendar.read'', ''calendar.write'', ''calendar.delete''}.
      s_values s k = Some vals \<and> vals \<noteq> [''*'']"
    using assms(2,3) unfolding scopesCalendar_def forAction_def
    by (elim insertE) (auto split: if_splits option.splits)
  then obtain k where "k \<in> {''calendar.read'', ''calendar.write'', ''calendar.delete''}"
    and v: "s_values s k = Some vals" "vals \<noteq> [''*'']" by blast
  then have k: "hasPrefix k ''calendar.''" "s_values s k = Some vals" "vals \<noteq> [''*'']"
    by (auto simp: hasPrefix_def)
  have "scopesOk (s_values s)" by (rule parseResourceScopes_scopesOk [OF assms(1)])
  with k have "\<forall>v \<in> set vals. validScopeCalendarPath v"
    unfolding scopesOk_def goodScope_def goodPart_def by blast
  with assms(3,4) show ?thesis by (simp add: authorizeCalendar_def split: if_splits)
qed

theorem authorized_calendar_path_valid_witness:
  "''/a/'' \<in> set [''/a/'', ''/b/''] \<and> validScopeCalendarPath ''/a/''"
proof -
  let ?v = "''calendar.read=/a/, /b/;mail.read=*''"
  let ?s = "projr (parseResourceScopes ?v)"
  have "isl (parseResourceScopes ?v) = False" by code_simp
  then have p: "parseResourceScopes ?v = Inr ?s" by simp
  have s: "scopesCalendar ?s ''calendar.delete'' = Some [''/a/'', ''/b/'']" by code_simp
  have a: "authorizeCalendar ?s ''calendar.delete'' ''/a/'' = None" by code_simp
  show ?thesis by (rule authorized_calendar_path_valid [OF p _ s a]) simp
qed

end
