(* ===== verification/Cal_Validation.thy ===== *)
theory Cal_Validation
  imports Go_Errors
begin

text \<open>
  Input validation and the event location cache of the Calendar client:
  \<open>internal/icloud/validation.go\<close> (paths, UIDs, ETags, text fields, ranges), \<open>etag.go\<close>,
  \<open>location_cache.go\<close>, and the home-set confinement of \<open>client.go\<close>. A validator returns \<open>None\<close> for
  a nil error. Instants are nanoseconds; their RFC 3339 rendering in a message is a parameter.
\<close>

section \<open>validation.go\<close>

definition maxUIDLen :: nat where "maxUIDLen = 255"
definition maxETagBytes :: nat where "maxETagBytes = 512"
definition maxRangeDays :: int where "maxRangeDays = 366"

definition dotdot :: string where "dotdot = ''..''"

definition quoted :: "string \<Rightarrow> string" where
  "quoted s = [CHR 0x27] @ s @ [CHR 0x27]"

definition validateCalendarPath :: "string \<Rightarrow> goError option" where
  "validateCalendarPath path =
     (if path = [] then Some (PlainError ''calendar path cannot be empty'')
      else if 1024 < length path
      then Some (PlainError ''calendar path is too long (max 1024 UTF-8 bytes)'')
      else if \<not> hasPrefix path ''/'' then Some (PlainError (''calendar path must start with '' @ quoted ''/''))
      else if hasPrefix path ''//'' \<or> containsStr path [backslash]
      then Some (PlainError ''calendar path must be path-absolute (no host or scheme)'')
      else if containsAny path ''?#''
      then Some (PlainError ''calendar path contains invalid characters'')
      else if containsAny path [nul, lf, cr]
      then Some (PlainError ''calendar path contains invalid characters'')
      else if containsStr path dotdot
      then Some (PlainError (''calendar path contains a directory traversal sequence ('' @ quoted dotdot @ '')''))
      else
        (let decoded = (case pathUnescape path of Some d \<Rightarrow> d | None \<Rightarrow> path) in
         if containsStr decoded dotdot
         then Some (PlainError (''calendar path contains a directory traversal sequence ('' @ quoted dotdot @ '')''))
         else if hasPrefix decoded ''//'' \<or> containsStr decoded [backslash]
         then Some (PlainError ''calendar path must be path-absolute (no host or scheme)'')
         else if containsAny decoded (''?#'' @ [nul, lf, cr])
         then Some (PlainError ''calendar path contains invalid characters'')
         else None))"

text \<open>
  The loop of \<open>ValidateUID\<close> ranges over runes; a rune below \<open>0x20\<close> or equal to \<open>0x7f\<close> is one byte,
  and no byte of a longer or invalid sequence decodes to such a rune.
\<close>

definition validateUID :: "string \<Rightarrow> goError option" where
  "validateUID uid =
     (if uid = [] then Some (PlainError ''UID cannot be empty'')
      else if maxUIDLen < length uid
      then Some (PlainError (''UID is too long (max '' @ decimal (int maxUIDLen) @ '' UTF-8 bytes)''))
      else if containsStr uid dotdot
      then Some (PlainError (''UID contains a directory traversal sequence ('' @ quoted dotdot @ '')''))
      else if containsAny uid [nul, lf, cr, CHR ''/'', CHR ''%'', backslash]
      then Some (PlainError ''UID contains invalid characters'')
      else if list_ex (\<lambda>c. bval c < 0x20 \<or> bval c = 0x7F) uid
      then Some (PlainError ''UID contains invalid characters'')
      else None)"

definition validateTextField :: "string \<Rightarrow> string \<Rightarrow> nat \<Rightarrow> goError option" where
  "validateTextField name value mx =
     (if mx < length value
      then Some (PlainError (name @ '' too long (max '' @ decimal (int mx) @ '' UTF-8 bytes, got ''
                   @ decimal (int (length value)) @ '')''))
      else if nul \<in> set value
      then Some (PlainError (name @ '' contains a forbidden character (NUL)''))
      else None)"

definition validateRange :: "(int \<Rightarrow> string) \<Rightarrow> int \<Rightarrow> int \<Rightarrow> goError option" where
  "validateRange rfc3339 start end' =
     (if \<not> start < end'
      then Some (PlainError (''end date ('' @ rfc3339 end' @ '') must be after start date (''
                   @ rfc3339 start @ '')''))
      else if maxRangeDays * 24 * 3600 * second < min (2 ^ 63 - 1) (end' - start)
      then Some (PlainError (''date range exceeds '' @ decimal maxRangeDays @ '' days (maximum allowed)''))
      else None)"

section \<open>etag.go\<close>

definition etagInner :: "char \<Rightarrow> bool" where
  "etagInner b \<longleftrightarrow> \<not> (bval b < 0x21 \<or> bval b = 0x22 \<or> bval b = 0x7F)"

definition parseStrongETag :: "string \<Rightarrow> goError + string" where
  "parseStrongETag v =
     (if maxETagBytes < length v then Inl (PlainError ''invalid strong entity-tag'')
      else
        (let value = trimBytes v [sp, tab] in
         if length value < 2 \<or> hd value \<noteq> dquote \<or> last value \<noteq> dquote
         then Inl (PlainError ''invalid strong entity-tag'')
         else if \<not> list_all etagInner (butlast (tl value))
         then Inl (PlainError ''invalid strong entity-tag'')
         else Inr value))"

definition strongETagFromHeader :: "string list \<Rightarrow> goError + string" where
  "strongETagFromHeader vals =
     (if length vals = 0 then Inr []
      else if length vals \<noteq> 1 then Inl (PlainError ''invalid entity-tag field count'')
      else parseStrongETag (hd vals))"

definition validateIfMatchETag :: "string \<Rightarrow> goError option" where
  "validateIfMatchETag etag =
     (if etag = [] then None
      else case parseStrongETag etag of
             Inl _ \<Rightarrow> Some (newValidationError
               ''etag must be exactly one valid strong quoted entity-tag from get_event or search_events'')
           | Inr _ \<Rightarrow> None)"

section \<open>client.go: confinement to the home set\<close>

definition pathUnderHomeSet :: "string \<Rightarrow> string \<Rightarrow> bool" where
  "pathUnderHomeSet path homeSet =
     (let home = trimSuffix homeSet ''/'' in
      if home = [] then False
      else if trimSuffix path ''/'' = home then True
      else hasPrefix path (home @ ''/''))"

definition validateAgentCalendarPath :: "string \<Rightarrow> string \<Rightarrow> goError option" where
  "validateAgentCalendarPath homeSetPath path =
     (case validateCalendarPath path of
        Some err \<Rightarrow> Some err
      | None \<Rightarrow>
          if homeSetPath = [] then Some (PlainError ''calendar home-set not discovered'')
          else if \<not> pathUnderHomeSet path homeSetPath
          then Some (newValidationError ''calendar path is outside the discovered calendar home-set'')
          else None)"

text \<open>The path of the object that holds an event: \<open>directPath\<close> and the path of a create.\<close>

definition objectPath :: "string \<Rightarrow> string \<Rightarrow> string" where
  "objectPath calendarPath uid = trimSuffix calendarPath ''/'' @ ''/'' @ uid @ ''.ics''"

section \<open>location_cache.go\<close>

definition maxCachedEventLocations :: nat where "maxCachedEventLocations = 1024"

record eventLocationCache =
  lc_entries :: "string \<rightharpoonup> string"
  lc_order :: "string list"

definition newEventLocationCache :: eventLocationCache where
  "newEventLocationCache = \<lparr>lc_entries = Map.empty, lc_order = []\<rparr>"

definition eventLocationKey :: "string \<Rightarrow> string \<Rightarrow> string" where
  "eventLocationKey calendarPath uid = trimSuffix calendarPath ''/'' @ [nul] @ uid"

definition locGet :: "eventLocationCache \<Rightarrow> string \<Rightarrow> string \<Rightarrow> string option" where
  "locGet c calendarPath uid = lc_entries c (eventLocationKey calendarPath uid)"

definition locPut :: "eventLocationCache \<Rightarrow> string \<Rightarrow> string \<Rightarrow> string \<Rightarrow> eventLocationCache" where
  "locPut c calendarPath uid path =
     (if path = [] \<or> \<not> hasPrefix path (trimSuffix calendarPath ''/'' @ ''/'') then c
      else
        (let key = eventLocationKey calendarPath uid in
         if lc_entries c key \<noteq> None then c\<lparr>lc_entries := (lc_entries c)(key \<mapsto> path)\<rparr>
         else
           (let c' = (if maxCachedEventLocations \<le> length (lc_order c)
                      then \<lparr>lc_entries = (lc_entries c)(hd (lc_order c) := None),
                            lc_order = tl (lc_order c)\<rparr>
                      else c)
            in \<lparr>lc_entries = (lc_entries c')(key \<mapsto> path), lc_order = lc_order c' @ [key]\<rparr>)))"

definition locEvict :: "eventLocationCache \<Rightarrow> string \<Rightarrow> string \<Rightarrow> eventLocationCache" where
  "locEvict c calendarPath uid =
     (let key = eventLocationKey calendarPath uid in
      if lc_entries c key = None then c
      else \<lparr>lc_entries = (lc_entries c)(key := None), lc_order = remove1 key (lc_order c)\<rparr>)"

section \<open>Paths\<close>

lemma splitByte_append: "splitByte (a @ c # b) c = splitByte a c @ splitByte b c"
proof (induction a)
  case (Cons x a)
  show ?case
  proof (cases "x = c")
    case False
    obtain w ws where "splitByte a c = w # ws" by (cases "splitByte a c") simp_all
    then show ?thesis using Cons False by simp
  qed (use Cons in simp)
qed simp

lemma splitByte_single: "c \<notin> set s \<Longrightarrow> splitByte s c = [s]"
  by (induction s) auto

lemma splitByte_infix: "w \<in> set (splitByte s c) \<Longrightarrow> containsStr s w"
proof -
  assume w: "w \<in> set (splitByte s c)"
  have join: "\<exists>u v. joinByte c ws = u @ w @ v" if "w \<in> set ws" for ws
    using that
  proof (induction ws)
    case (Cons x xs)
    show ?case
    proof (cases "xs = []")
      case True
      then have "joinByte c (x # xs) = [] @ w @ []" using Cons.prems by simp
      then show ?thesis by blast
    next
      case False
      then have j: "joinByte c (x # xs) = x @ c # joinByte c xs" by (rule joinByte_Cons2)
      show ?thesis
      proof (cases "w = x")
        case True
        then have "joinByte c (x # xs) = [] @ w @ (c # joinByte c xs)" using j by simp
        then show ?thesis by blast
      next
        case ne: False
        with Cons obtain u v where "joinByte c xs = u @ w @ v" by auto
        then have "joinByte c (x # xs) = (x @ c # u) @ w @ v" using j by simp
        then show ?thesis by blast
      qed
    qed
  qed simp
  show ?thesis unfolding containsStr_iff using join [OF w] by (simp add: join_split)
qed

lemma containsStr_append: "containsStr a p \<or> containsStr b p \<Longrightarrow> containsStr (a @ b) p"
  unfolding containsStr_iff by (metis append.assoc)

lemma pathUnescape_slash:
  "pathUnescape (s @ CHR ''/'' # t) =
     (case (pathUnescape s, pathUnescape t) of
        (Some a, Some b) \<Rightarrow> Some (a @ CHR ''/'' # b) | _ \<Rightarrow> None)"
proof (induction "length s" arbitrary: s rule: less_induct)
  case less
  have slash: "hexValue CHR ''/'' = None" by code_simp
  show ?case
  proof (cases s)
    case Nil
    then show ?thesis by (simp split: option.splits)
  next
    case (Cons c u)
    show ?thesis
    proof (cases "c = CHR ''%''")
      case False
      then show ?thesis using less [of u] Cons by (simp split: option.splits)
    next
      case True
      consider "u = []" | a where "u = [a]" | a b rest where "u = a # b # rest"
        by (cases u rule: remdups_adj.cases) auto
      then show ?thesis
      proof cases
        case 1
        then show ?thesis using Cons True slash by (cases t) (simp_all split: option.splits)
      next
        case 2
        then show ?thesis using Cons True slash by (simp split: option.splits)
      next
        case 3
        then show ?thesis using Cons True less [of rest] by (simp split: option.splits)
      qed
    qed
  qed
qed

lemma pathUnescape_plain: "CHR ''%'' \<notin> set s \<Longrightarrow> pathUnescape s = Some s"
  by (induction s rule: pathUnescape.induct) auto

lemma trimSuffix_slash:
  obtains "trimSuffix s ''/'' = s" "\<not> hasSuffix s ''/''" | "s = trimSuffix s ''/'' @ ''/''"
proof (cases "hasSuffix s ''/''")
  case True
  then obtain t where "s = t @ ''/''" unfolding hasSuffix_iff by blast
  then have "trimSuffix s ''/'' = t" using True by (simp add: trimSuffix_def)
  then show ?thesis using \<open>s = t @ ''/''\<close> that(2) by simp
next
  case False
  then show ?thesis using that(1) by (simp add: trimSuffix_def)
qed

text \<open>What a validated path guarantees, in the form the proofs use.\<close>

lemma validateCalendarPath_None:
  assumes "validateCalendarPath path = None"
  shows "path \<noteq> []" "length path \<le> 1024" "hasPrefix path ''/''" "\<not> hasPrefix path ''//''"
    and "\<not> containsStr path dotdot" "\<not> containsAny path [nul, lf, cr]" "\<not> containsAny path ''?#''"
    and "pathUnescape path = Some d \<Longrightarrow> \<not> containsStr d dotdot"
  using assms unfolding validateCalendarPath_def Let_def
  by (simp_all split: if_splits)

lemma validateUID_None:
  assumes "validateUID uid = None"
  shows "uid \<noteq> []" "length uid \<le> 255" "CHR ''/'' \<notin> set uid" "CHR ''%'' \<notin> set uid" "nul \<notin> set uid"
  using assms unfolding validateUID_def containsAny_iff maxUIDLen_def
  by (auto split: if_splits)

lemma segments_no_dotdot:
  assumes "\<not> containsStr d dotdot" and "CHR ''/'' \<notin> set uid"
  shows "dotdot \<notin> set (splitByte (d @ ''/'' @ uid @ ''.ics'') CHR ''/'')"
proof -
  have "CHR ''/'' \<notin> set (uid @ ''.ics'')" using assms(2) by simp
  then have "splitByte (d @ ''/'' @ uid @ ''.ics'') CHR ''/''
      = splitByte d CHR ''/'' @ [uid @ ''.ics'']"
    using splitByte_append [of d "CHR ''/''" "uid @ ''.ics''"] splitByte_single by simp
  moreover have "dotdot \<noteq> uid @ ''.ics''"
    by (rule notI, drule arg_cong [of _ _ last]) (simp add: dotdot_def)
  moreover have "dotdot \<notin> set (splitByte d CHR ''/'')" using splitByte_infix assms(1) by blast
  ultimately show ?thesis by simp
qed

lemma underHome_nonroot:
  assumes "pathUnderHomeSet path home"
  shows "trimSuffix path ''/'' \<noteq> []"
  using assms
  by (cases path rule: trimSuffix_slash)
    (auto simp: pathUnderHomeSet_def Let_def hasPrefix_iff split: if_splits
      simp: append_eq_Cons_conv)

lemma objectPath_under:
  assumes "trimSuffix cp ''/'' \<noteq> []"
  shows "pathUnderHomeSet (objectPath cp uid) cp"
  using assms by (simp add: pathUnderHomeSet_def Let_def objectPath_def hasPrefix_iff)

lemma underHome_trans:
  assumes "pathUnderHomeSet cp home"
  shows "pathUnderHomeSet (objectPath cp uid) home"
proof -
  let ?h = "trimSuffix home ''/''"
  from assms have h: "?h \<noteq> []" and
    c: "trimSuffix cp ''/'' = ?h \<or> hasPrefix cp (?h @ ''/'')"
    by (auto simp: pathUnderHomeSet_def Let_def split: if_splits)
  have "hasPrefix (objectPath cp uid) (?h @ ''/'')"
  proof (cases "trimSuffix cp ''/'' = ?h")
    case True
    then show ?thesis by (simp add: objectPath_def hasPrefix_iff)
  next
    case False
    with c obtain t where t: "cp = ?h @ ''/'' @ t" by (auto simp: hasPrefix_iff)
    show ?thesis
    proof (cases cp rule: trimSuffix_slash)
      case 1
      then show ?thesis using t by (simp add: objectPath_def hasPrefix_iff)
    next
      case 2
      then have "trimSuffix cp ''/'' @ ''/'' = ?h @ ''/'' @ t" using t by simp
      then show ?thesis unfolding objectPath_def hasPrefix_iff by (metis append.assoc)
    qed
  qed
  with h show ?thesis by (simp add: pathUnderHomeSet_def Let_def)
qed

text \<open>
  C10. The path built for an event object cannot leave its calendar. For every calendar path that
  the agent-path check accepts and every accepted UID, the object path lies under the selected
  calendar and under the discovered home set, has at most 1284 bytes, and has no \<open>..\<close> segment,
  neither as written nor after percent-decoding.
\<close>

theorem object_path_confined:
  assumes "validateAgentCalendarPath home cp = None" and "validateUID uid = None"
  shows "pathUnderHomeSet (objectPath cp uid) cp \<and> pathUnderHomeSet (objectPath cp uid) home
    \<and> length (objectPath cp uid) \<le> 1284
    \<and> dotdot \<notin> set (splitByte (objectPath cp uid) CHR ''/'')
    \<and> (\<forall>d. pathUnescape (objectPath cp uid) = Some d \<longrightarrow> dotdot \<notin> set (splitByte d CHR ''/''))"
proof -
  from assms(1) have v: "validateCalendarPath cp = None" and under: "pathUnderHomeSet cp home"
    by (auto simp: validateAgentCalendarPath_def split: option.splits if_splits)
  note path = validateCalendarPath_None [OF v] and uid = validateUID_None [OF assms(2)]
  let ?t = "trimSuffix cp ''/''"
  have t: "cp = ?t \<or> cp = ?t @ ''/''" by (cases cp rule: trimSuffix_slash) auto
  then have raw: "\<not> containsStr ?t dotdot" using path(5) containsStr_append by metis
  have len: "length ?t \<le> 1024" using t path(2) by (metis le_add1 length_append le_trans)
  have dec: "\<not> containsStr d' dotdot" if "pathUnescape ?t = Some d'" for d'
  proof -
    have "pathUnescape cp = Some d' \<or> pathUnescape cp = Some (d' @ ''/'')"
      using t that pathUnescape_slash [of ?t "[]"] by auto
    then show ?thesis using path(8) containsStr_append by blast
  qed
  have "dotdot \<notin> set (splitByte d CHR ''/'')" if "pathUnescape (objectPath cp uid) = Some d" for d
  proof -
    have "CHR ''%'' \<notin> set (uid @ ''.ics'')" using uid(4) by simp
    then have "pathUnescape (uid @ ''.ics'') = Some (uid @ ''.ics'')" by (rule pathUnescape_plain)
    with that obtain d' where "pathUnescape ?t = Some d'" "d = d' @ ''/'' @ uid @ ''.ics''"
      by (auto simp: objectPath_def pathUnescape_slash split: option.splits)
    then show ?thesis using segments_no_dotdot dec uid(3) by blast
  qed
  moreover have "dotdot \<notin> set (splitByte (objectPath cp uid) CHR ''/'')"
    unfolding objectPath_def using segments_no_dotdot [OF raw uid(3)] .
  moreover have "length (objectPath cp uid) \<le> 1284" using len uid(2) by (simp add: objectPath_def)
  ultimately show ?thesis
    using objectPath_under [OF underHome_nonroot [OF under]] underHome_trans [OF under] by blast
qed

theorem object_path_confined_witness:
  "pathUnderHomeSet (objectPath ''/1/calendars/w%20k/'' ''a-b'') ''/1/calendars/''
   \<and> objectPath ''/1/calendars/w%20k/'' ''a-b'' = ''/1/calendars/w%20k/a-b.ics''"
proof -
  have a: "validateAgentCalendarPath ''/1/calendars/'' ''/1/calendars/w%20k/'' = None" by code_simp
  have u: "validateUID ''a-b'' = None" by code_simp
  have "objectPath ''/1/calendars/w%20k/'' ''a-b'' = ''/1/calendars/w%20k/a-b.ics''" by code_simp
  with object_path_confined [OF a u] show ?thesis by blast
qed

section \<open>Entity tags\<close>

lemma trimBytes_infix: "\<exists>u v. s = u @ trimBytes s cs @ v"
proof -
  let ?P = "\<lambda>c. c \<in> set cs" and ?t = "dropWhile (\<lambda>c. c \<in> set cs) s"
  have "rev ?t = takeWhile ?P (rev ?t) @ dropWhile ?P (rev ?t)" by simp
  then have "?t = rev (dropWhile ?P (rev ?t)) @ rev (takeWhile ?P (rev ?t))"
    by (metis rev_append rev_rev_ident)
  then have "s = takeWhile ?P s @ trimBytes s cs @ rev (takeWhile ?P (rev ?t))"
    unfolding trimBytes_def by (metis takeWhile_dropWhile_id)
  then show ?thesis by blast
qed

lemma trimBytes_id:
  assumes "s \<noteq> []" and "hd s \<notin> set cs" and "last s \<notin> set cs"
  shows "trimBytes s cs = s"
proof -
  have "dropWhile (\<lambda>c. c \<in> set cs) s = s" using assms(1,2) by (cases s) simp_all
  moreover have "dropWhile (\<lambda>c. c \<in> set cs) (rev s) = rev s"
    using assms(1,3) by (cases "rev s") (simp_all add: hd_rev [symmetric])
  ultimately show ?thesis by (simp add: trimBytes_def)
qed

lemma parseStrongETag_Inr:
  assumes "parseStrongETag v = Inr e"
  shows "length v \<le> 512" "e = trimBytes v [sp, tab]" "2 \<le> length e" "hd e = dquote" "last e = dquote"
    and "list_all etagInner (butlast (tl e))"
  using assms unfolding parseStrongETag_def Let_def maxETagBytes_def
  by (simp_all split: if_splits)

lemma quoted_bytes:
  assumes "2 \<le> length e" and "hd e = dquote" and "last e = dquote"
  shows "set e = insert dquote (set (butlast (tl e)))"
proof -
  have "length (tl e) \<noteq> 0" "e \<noteq> []" using assms(1) by auto
  then obtain x y where e: "e = x # y" "y \<noteq> []" by (cases e) auto
  then have "y = butlast y @ [last y]" by simp
  then have "set y = set (butlast y) \<union> {last y}" by (metis set_append list.set(1,2))
  then show ?thesis using e assms(2,3) by auto
qed

text \<open>
  A strong ETag is passed on exactly, and cannot carry anything but one tag: what the parser
  accepts is a quoted infix of its input of at most 512 bytes in which every byte is a printing
  byte above the space other than DEL (so no CR, LF, NUL or second field), and parsing the result
  again gives the same bytes, so a tag survives every hop between tool call and \<open>If-Match\<close> header
  unchanged.
\<close>

theorem strong_etag_exact:
  assumes "parseStrongETag v = Inr e"
  shows "parseStrongETag e = Inr e \<and> containsStr v e \<and> length e \<le> 512
    \<and> hd e = dquote \<and> last e = dquote \<and> (\<forall>b \<in> set e. 0x21 \<le> bval b \<and> bval b \<noteq> 0x7F)"
proof -
  note p = parseStrongETag_Inr [OF assms]
  obtain u w where uw: "v = u @ e @ w" using trimBytes_infix p(2) by metis
  then have len: "length e \<le> 512" using p(1) by simp
  have "dquote \<notin> set [sp, tab]" by simp
  then have "trimBytes e [sp, tab] = e" using p(3-5) by (intro trimBytes_id) auto
  then have again: "parseStrongETag e = Inr e"
    using p(3-6) len unfolding parseStrongETag_def Let_def maxETagBytes_def by simp
  have "bval dquote = 0x22" by (simp add: bval_def)
  then have bytes: "\<forall>b \<in> set e. 0x21 \<le> bval b \<and> bval b \<noteq> 0x7F"
    using p(6) unfolding quoted_bytes [OF p(3-5)] list_all_iff etagInner_def by auto
  have "containsStr v e" unfolding containsStr_iff using uw by blast
  with again len p(4,5) bytes show ?thesis by blast
qed

theorem strong_etag_exact_witness:
  "parseStrongETag ([sp, dquote] @ ''a-1'' @ [dquote, tab]) = Inr ([dquote] @ ''a-1'' @ [dquote])
   \<and> parseStrongETag ([dquote] @ ''a-1'' @ [dquote]) = Inr ([dquote] @ ''a-1'' @ [dquote])"
proof -
  have e: "parseStrongETag ([sp, dquote] @ ''a-1'' @ [dquote, tab]) = Inr ([dquote] @ ''a-1'' @ [dquote])"
    by code_simp
  from strong_etag_exact [OF e] e show ?thesis by blast
qed

section \<open>The location cache against its history\<close>

text \<open>
  The interface of a bounded cache: lookups are allowed to forget, never to invent. \<open>norm\<close> says
  which keys are the same entry, \<open>accepts\<close> which insertions take effect.
\<close>

datatype ('k, 'v) cacheOp = Put 'k 'v | Evict 'k

fun latest :: "('k \<Rightarrow> 'n) \<Rightarrow> ('k \<Rightarrow> 'v \<Rightarrow> bool) \<Rightarrow> ('k, 'v) cacheOp list \<Rightarrow> 'k \<Rightarrow> 'v option" where
  "latest norm accepts [] k = None"
| "latest norm accepts (Put k' v # older) k =
     (if norm k' = norm k \<and> accepts k' v then Some v else latest norm accepts older k)"
| "latest norm accepts (Evict k' # older) k =
     (if norm k' = norm k then None else latest norm accepts older k)"

fun runOps ::
  "('c \<Rightarrow> 'k \<Rightarrow> 'v \<Rightarrow> 'c) \<Rightarrow> ('c \<Rightarrow> 'k \<Rightarrow> 'c) \<Rightarrow> 'c \<Rightarrow> ('k, 'v) cacheOp list \<Rightarrow> 'c" where
  "runOps put evict c [] = c"
| "runOps put evict c (Put k v # older) = put (runOps put evict c older) k v"
| "runOps put evict c (Evict k # older) = evict (runOps put evict c older) k"

locale bounded_cache =
  fixes empty :: 'c and get :: "'c \<Rightarrow> 'k \<Rightarrow> 'v option"
    and put :: "'c \<Rightarrow> 'k \<Rightarrow> 'v \<Rightarrow> 'c" and evict :: "'c \<Rightarrow> 'k \<Rightarrow> 'c"
    and norm :: "'k \<Rightarrow> 'n" and accepts :: "'k \<Rightarrow> 'v \<Rightarrow> bool"
    and inv :: "'c \<Rightarrow> bool" and size_of :: "'c \<Rightarrow> nat" and bound :: nat
  assumes inv_empty: "inv empty"
    and inv_put: "inv c \<Longrightarrow> inv (put c k v)"
    and inv_evict: "inv c \<Longrightarrow> inv (evict c k)"
    and inv_bound: "inv c \<Longrightarrow> size_of c \<le> bound"
    and get_empty: "get empty k = None"
    and get_put: "inv c \<Longrightarrow> get (put c k v) k' = Some x \<Longrightarrow>
          (if norm k = norm k' \<and> accepts k v then x = v else get c k' = Some x)"
    and get_evict: "inv c \<Longrightarrow> get (evict c k) k' = Some x \<Longrightarrow> norm k \<noteq> norm k' \<and> get c k' = Some x"
    and put_get: "inv c \<Longrightarrow> accepts k v \<Longrightarrow> get (put c k v) k = Some v"
begin

lemma run_inv: "inv (runOps put evict empty h)"
proof (induction h)
  case (Cons op h)
  then show ?case by (cases op) (simp_all add: inv_put inv_evict)
qed (simp add: inv_empty)

lemma run_bound: "size_of (runOps put evict empty h) \<le> bound"
  by (rule inv_bound [OF run_inv])

lemma get_latest:
  "get (runOps put evict empty h) k = Some v \<Longrightarrow> latest norm accepts h k = Some v"
proof (induction h arbitrary: v)
  case Nil
  then show ?case by (simp add: get_empty)
next
  case (Cons op older)
  show ?case
  proof (cases op)
    case (Put k' x)
    with get_put [OF run_inv, of older k' x k v] Cons show ?thesis by (auto split: if_splits)
  next
    case (Evict k')
    with get_evict [OF run_inv, of older k' k v] Cons show ?thesis by auto
  qed
qed

end

definition locInv :: "eventLocationCache \<Rightarrow> bool" where
  "locInv c \<longleftrightarrow> distinct (lc_order c) \<and> set (lc_order c) = dom (lc_entries c)
     \<and> length (lc_order c) \<le> maxCachedEventLocations"

definition locAccepts :: "string \<times> string \<Rightarrow> string \<Rightarrow> bool" where
  "locAccepts k path \<longleftrightarrow> path \<noteq> [] \<and> hasPrefix path (trimSuffix (fst k) ''/'' @ ''/'')"

lemma locPut_rejected: "\<not> locAccepts (cp, uid) path \<Longrightarrow> locPut c cp uid path = c"
  by (auto simp: locPut_def locAccepts_def)

lemma locPut_accepted:
  assumes "locAccepts (cp, uid) path"
  shows "locPut c cp uid path =
    (let key = eventLocationKey cp uid in
     if lc_entries c key \<noteq> None then c\<lparr>lc_entries := (lc_entries c)(key \<mapsto> path)\<rparr>
     else if maxCachedEventLocations \<le> length (lc_order c)
     then \<lparr>lc_entries = (lc_entries c)(hd (lc_order c) := None, key \<mapsto> path),
           lc_order = tl (lc_order c) @ [key]\<rparr>
     else \<lparr>lc_entries = (lc_entries c)(key \<mapsto> path), lc_order = lc_order c @ [key]\<rparr>)"
  using assms by (simp add: locPut_def locAccepts_def Let_def)

lemma locInv_put:
  assumes "locInv c"
  shows "locInv (locPut c cp uid path)"
proof (cases "locAccepts (cp, uid) path")
  case True
  let ?k = "eventLocationKey cp uid"
  note inv = assms [unfolded locInv_def]
  show ?thesis
  proof (cases "lc_entries c ?k")
    case (Some x)
    then show ?thesis using True inv by (auto simp: locPut_accepted Let_def locInv_def)
  next
    case None
    then have fresh: "?k \<notin> set (lc_order c)" using inv by auto
    show ?thesis
    proof (cases "maxCachedEventLocations \<le> length (lc_order c)")
      case False
      then show ?thesis using True None inv fresh by (auto simp: locPut_accepted Let_def locInv_def)
    next
      case full: True
      then obtain x xs where o: "lc_order c = x # xs"
        by (cases "lc_order c") (auto simp: maxCachedEventLocations_def)
      then have "dom (lc_entries c) = insert x (set xs)" "x \<notin> set xs" "distinct xs" using inv by auto
      then have "dom ((lc_entries c)(x := None)) = set xs" by auto
      then show ?thesis using True None inv fresh full o
        by (auto simp: locPut_accepted Let_def locInv_def)
    qed
  qed
qed (use assms in \<open>simp add: locPut_rejected\<close>)

lemma locInv_evict: "locInv c \<Longrightarrow> locInv (locEvict c cp uid)"
  by (auto simp: locInv_def locEvict_def Let_def length_remove1 set_remove1_eq)

interpretation loc: bounded_cache newEventLocationCache "\<lambda>c k. locGet c (fst k) (snd k)"
  "\<lambda>c k. locPut c (fst k) (snd k)" "\<lambda>c k. locEvict c (fst k) (snd k)"
  "\<lambda>k. eventLocationKey (fst k) (snd k)" locAccepts locInv "\<lambda>c. length (lc_order c)" 1024
proof (unfold_locales, goal_cases)
  case 1
  show ?case by (simp add: locInv_def newEventLocationCache_def)
next
  case (6 c k v k' x)
  then show ?case
    by (cases "locAccepts (fst k, snd k) v")
      (auto simp: locPut_accepted locPut_rejected locGet_def Let_def split: if_splits)
next
  case (8 c k v)
  then show ?case by (auto simp: locPut_accepted locGet_def Let_def)
qed (auto simp: locInv_put locInv_evict, auto simp: locInv_def maxCachedEventLocations_def
    newEventLocationCache_def locGet_def locEvict_def Let_def split: if_splits)

lemma key_calendar:
  assumes "eventLocationKey cp uid = eventLocationKey cp' uid'"
    and "nul \<notin> set cp" and "nul \<notin> set cp'"
  shows "trimSuffix cp ''/'' = trimSuffix cp' ''/''"
proof -
  have sub: "set (trimSuffix s ''/'') \<subseteq> set s" for s
    by (auto simp: trimSuffix_def dest: in_set_takeD)
  have first: "splitByte (eventLocationKey s u) nul = trimSuffix s ''/'' # splitByte u nul"
    if "nul \<notin> set s" for s u
  proof -
    have "nul \<notin> set (trimSuffix s ''/'')" using sub that by blast
    then show ?thesis unfolding eventLocationKey_def
      using splitByte_append [of "trimSuffix s ''/''" nul u] by (simp add: splitByte_single)
  qed
  from first [OF assms(2), of uid] first [OF assms(3), of uid'] assms(1) show ?thesis by simp
qed

lemma latest_accepted:
  assumes "latest norm acc h k = Some v"
  shows "\<exists>k'. Put k' v \<in> set h \<and> norm k' = norm k \<and> acc k' v"
  using assms by (induction norm acc h k rule: latest.induct) (auto split: if_splits)

text \<open>
  A cached event location is never wrong, whatever the history of insertions and evictions: a
  lookup answers with the path last stored for that calendar and UID (the cache may have forgotten
  it, but a later eviction or overwrite is never undone), that path lies inside the calendar asked
  for, and the cache never holds more than 1024 entries.
\<close>

theorem location_cache_sound:
  assumes "locGet (runOps (\<lambda>c k. locPut c (fst k) (snd k)) (\<lambda>c k. locEvict c (fst k) (snd k))
             newEventLocationCache h) cp uid = Some path"
    and "\<forall>k v. Put k v \<in> set h \<longrightarrow> nul \<notin> set (fst k)" and "nul \<notin> set cp"
  shows "latest (\<lambda>k. eventLocationKey (fst k) (snd k)) locAccepts h (cp, uid) = Some path
    \<and> hasPrefix path (trimSuffix cp ''/'' @ ''/'')
    \<and> length (lc_order (runOps (\<lambda>c k. locPut c (fst k) (snd k))
         (\<lambda>c k. locEvict c (fst k) (snd k)) newEventLocationCache h)) \<le> 1024"
proof -
  have l: "latest (\<lambda>k. eventLocationKey (fst k) (snd k)) locAccepts h (cp, uid) = Some path"
    using loc.get_latest [of h "(cp, uid)" path] assms(1) by simp
  from latest_accepted [OF l] obtain k' where k': "Put k' path \<in> set h"
    "eventLocationKey (fst k') (snd k') = eventLocationKey cp uid" "locAccepts k' path" by auto
  then have "trimSuffix (fst k') ''/'' = trimSuffix cp ''/''"
    using key_calendar assms(2,3) by blast
  with k'(3) l loc.run_bound show ?thesis by (auto simp: locAccepts_def)
qed

theorem location_cache_sound_witness:
  "locGet (runOps (\<lambda>c k. locPut c (fst k) (snd k)) (\<lambda>c k. locEvict c (fst k) (snd k))
     newEventLocationCache [Put (''/c/'', ''u'') ''/c/y.ics'', Evict (''/c'', ''u''),
       Put (''/c'', ''u'') ''/c/x.ics'']) ''/c'' ''u'' = Some ''/c/y.ics''
   \<and> hasPrefix ''/c/y.ics'' (trimSuffix ''/c'' ''/'' @ ''/'')"
proof -
  let ?h = "[Put (''/c/'', ''u'') ''/c/y.ics'', Evict (''/c'', ''u''), Put (''/c'', ''u'') ''/c/x.ics'']"
  have g: "locGet (runOps (\<lambda>c k. locPut c (fst k) (snd k)) (\<lambda>c k. locEvict c (fst k) (snd k))
      newEventLocationCache ?h) ''/c'' ''u'' = Some ''/c/y.ics''" by code_simp
  have "\<forall>k v. Put k v \<in> set ?h \<longrightarrow> nul \<notin> set (fst k)" by auto
  from location_cache_sound [OF g this] g show ?thesis by simp
qed

end
