(* ===== verification/Cal_Retry.thy ===== *)
theory Cal_Retry
  imports Go_Errors
begin

text \<open>
  \<open>internal/icloud/retry.go\<close> and \<open>internal/icloud/middleware.go\<close>: the HTTP retry classifier and the
  guarded service. What lies outside (the network, the clock, the request context, the
  token-bucket limiter of \<open>golang.org/x/time/rate\<close>, the scheduler that resolves a \<open>select\<close>) is a
  record of functions over an arbitrary world state, so the theorems hold for every network, every
  clock and every cancellation. \<open>Go_Errors\<close> has the errors; durations are 64-bit nanoseconds, with
  the wrap-around of the shift and of the sums written out.
\<close>

section \<open>The outside\<close>

definition wrap64 :: "int \<Rightarrow> int" where
  "wrap64 i = (i + 2 ^ 63) mod 2 ^ 64 - 2 ^ 63"

lemma wrap64_id: "- (2 ^ 63) \<le> i \<Longrightarrow> i < 2 ^ 63 \<Longrightarrow> wrap64 i = i"
  by (simp add: wrap64_def)

text \<open>
  \<open>ctx_err\<close> is \<open>ctx.Err()\<close> now; \<open>ctx_timer\<close> is a \<open>select\<close> between a timer and \<open>ctx.Done()\<close>, true when
  the timer fired first; \<open>ctx_getBody\<close> is the callback \<open>GetBody\<close> of the request, where it is set.
\<close>

record 'w reqContext =
  ctx_err :: "'w \<Rightarrow> goError option"
  ctx_timer :: "duration \<Rightarrow> 'w \<Rightarrow> bool \<times> 'w"
  ctx_getBody :: "'w \<Rightarrow> goError option \<times> 'w"

record httpResponse =
  rs_statusCode :: int
  rs_retryAfter :: string
  rs_body :: "string option"

text \<open>\<open>rq_getBodySet\<close> says whether \<open>GetBody\<close> is not nil.\<close>

record httpRequest =
  rq_method :: string
  rq_url :: string
  rq_header :: "(string \<times> string) list"
  rq_body :: string
  rq_getBodySet :: bool

text \<open>
  \<open>rc_jitter d\<close> is the value of \<open>time.Duration(rand() * float64(d) * 0.25)\<close>; \<open>rc_parseTime\<close> is
  \<open>http.ParseTime\<close>; \<open>rc_now\<close> the clock, in nanoseconds.
\<close>

record 'w retryClassifier =
  rc_inner :: "httpRequest \<Rightarrow> 'w \<Rightarrow> (httpResponse option \<times> goError option) \<times> 'w"
  rc_maxTries :: int
  rc_baseDelay :: duration
  rc_maxDelay :: duration
  rc_now :: "'w \<Rightarrow> int"
  rc_parseTime :: "string \<Rightarrow> int option"
  rc_jitter :: "duration \<Rightarrow> 'w \<Rightarrow> duration \<times> 'w"

definition newRetryClassifier ::
  "(httpRequest \<Rightarrow> 'w \<Rightarrow> (httpResponse option \<times> goError option) \<times> 'w) \<Rightarrow> ('w \<Rightarrow> int)
   \<Rightarrow> (string \<Rightarrow> int option) \<Rightarrow> (duration \<Rightarrow> 'w \<Rightarrow> duration \<times> 'w) \<Rightarrow> 'w retryClassifier" where
  "newRetryClassifier inner clock parseTime jitter =
     \<lparr>rc_inner = inner, rc_maxTries = 6, rc_baseDelay = 500 * millisecond,
      rc_maxDelay = 10 * second, rc_now = clock, rc_parseTime = parseTime, rc_jitter = jitter\<rparr>"

section \<open>Errors of the context\<close>

text \<open>\<open>errors.Is\<close> against one of the two context sentinels.\<close>

fun errIs :: "goError \<Rightarrow> goError \<Rightarrow> bool" where
  "errIs (WrapError m e) t \<longleftrightarrow> errIs e t"
| "errIs (CalErr c s m r a d (Some e)) t \<longleftrightarrow> errIs e t"
| "errIs ContextCanceled t \<longleftrightarrow> t = ContextCanceled"
| "errIs DeadlineExceeded t \<longleftrightarrow> t = DeadlineExceeded"
| "errIs _ t \<longleftrightarrow> False"

definition calendarContextError :: "goError option \<Rightarrow> goError" where
  "calendarContextError err =
     newError codeTimeout 0
       (if (case err of None \<Rightarrow> False | Some e \<Rightarrow> errIs e DeadlineExceeded)
        then ''Calendar request timed out'' else ''Calendar request was canceled'') err"

section \<open>retry.go\<close>

definition isCalendarMutationMethod :: "string \<Rightarrow> bool" where
  "isCalendarMutationMethod meth \<longleftrightarrow> meth = ''PUT'' \<or> meth = ''DELETE''"

definition rewindRequestBody :: "'w reqContext \<Rightarrow> httpRequest \<Rightarrow> 'w \<Rightarrow> goError option \<times> 'w" where
  "rewindRequestBody ctx rq w =
     (if \<not> rq_getBodySet rq then (None, w)
      else case ctx_getBody ctx w of
             (Some err, w') \<Rightarrow> (Some (WrapError ''rewinding request body for retry'' err), w')
           | (None, w') \<Rightarrow> (None, w'))"

definition isRetryStatus :: "int \<Rightarrow> bool" where
  "isRetryStatus status \<longleftrightarrow> status = 429 \<or> status = 502 \<or> status = 503 \<or> status = 504"

text \<open>\<open>None\<close> when the header is absent or unreadable. A subtraction of times saturates.\<close>

definition subTime :: "int \<Rightarrow> int \<Rightarrow> duration" where
  "subTime t u = max (- (2 ^ 63)) (min (2 ^ 63 - 1) (t - u))"

definition headerRetryAfter :: "'w retryClassifier \<Rightarrow> httpResponse \<Rightarrow> 'w \<Rightarrow> duration option" where
  "headerRetryAfter r resp w =
     (let ra = rs_retryAfter resp in
      if ra = [] then None
      else case parseInt64 ra of
             Some secs \<Rightarrow> if secs \<le> 0 then Some 0 else Some (min secs 60 * second)
           | None \<Rightarrow>
               (case rc_parseTime r ra of
                  Some t \<Rightarrow> (let d = subTime t (rc_now r w) in if d < 0 then Some 0 else Some d)
                | None \<Rightarrow> None))"

definition capDelay :: "duration \<Rightarrow> duration \<Rightarrow> duration" where
  "capDelay d mx = (if mx < d then mx else d)"

definition retryDelay ::
  "'w retryClassifier \<Rightarrow> httpResponse \<Rightarrow> nat \<Rightarrow> 'w \<Rightarrow> duration \<times> 'w" where
  "retryDelay r resp attempt w =
     (case headerRetryAfter r resp w of
        Some d \<Rightarrow> (capDelay d (rc_maxDelay r), w)
      | None \<Rightarrow>
          (let d = capDelay (wrap64 (rc_baseDelay r * 2 ^ attempt)) (rc_maxDelay r);
               (jitter, w') = rc_jitter r d w
           in (capDelay (wrap64 (d + jitter)) (rc_maxDelay r), w')))"

definition sleep :: "'w reqContext \<Rightarrow> duration \<Rightarrow> 'w \<Rightarrow> goError option \<times> 'w" where
  "sleep ctx d w =
     (if d \<le> 0
      then (map_option (\<lambda>e. calendarContextError (Some e)) (ctx_err ctx w), w)
      else case ctx_timer ctx d w of
             (True, w') \<Rightarrow> (None, w')
           | (False, w') \<Rightarrow> (Some (calendarContextError (ctx_err ctx w')), w'))"

text \<open>
  \<open>(*retryClassifier).Do\<close>. The result pairs the response with the error; the loop of the source is
  the recursion on \<open>attempt\<close>. A response without a body gets \<open>http.NoBody\<close>.
\<close>

definition withBody :: "httpResponse \<Rightarrow> httpResponse" where
  "withBody resp = (case rs_body resp of None \<Rightarrow> resp\<lparr>rs_body := Some []\<rparr> | Some _ \<Rightarrow> resp)"

function doAttempt ::
  "'w retryClassifier \<Rightarrow> 'w reqContext \<Rightarrow> httpRequest \<Rightarrow> nat \<Rightarrow> 'w
     \<Rightarrow> (httpResponse option \<times> goError option) \<times> 'w" where
  "doAttempt r ctx rq attempt w =
     (let write = isCalendarMutationMethod (rq_method rq) in
      case ctx_err ctx w of
        Some err \<Rightarrow> ((None, Some (calendarContextError (Some err))), w)
      | None \<Rightarrow>
          (case rewindRequestBody ctx rq w of
             (Some err, w1) \<Rightarrow> ((None, Some err), w1)
           | (None, w1) \<Rightarrow>
               (case rc_inner r rq w1 of
                  ((resp, Some err), w2) \<Rightarrow>
                    if write then ((None, Some (outcomeUnknownError 0)), w2)
                    else if errIs err ContextCanceled \<or> errIs err DeadlineExceeded
                    then ((None, Some (calendarContextError (Some err))), w2)
                    else ((resp, Some err), w2)
                | ((None, None), w2) \<Rightarrow>
                    if write then ((None, Some (outcomeUnknownError 0)), w2)
                    else ((None, Some (newError codeProtocolError 0
                             ''Calendar HTTP client returned no response'' None)), w2)
                | ((Some resp, None), w2) \<Rightarrow>
                    if isRetryStatus (rs_statusCode resp)
                    then
                      (if write
                       then
                         (if rs_statusCode resp = 429
                          then ((None, Some (classifyStatusWithRetryAfter 429
                                  (case headerRetryAfter r resp w2 of Some d \<Rightarrow> d | None \<Rightarrow> 0))), w2)
                          else ((None, Some (outcomeUnknownError (rs_statusCode resp))), w2))
                       else
                         (case retryDelay r resp attempt w2 of
                            (wait, w3) \<Rightarrow>
                              if rc_maxTries r \<le> int attempt + 1
                              then ((None, Some (classifyStatusWithRetryAfter
                                      (rs_statusCode resp) wait)), w3)
                              else case sleep ctx wait w3 of
                                     (Some err, w4) \<Rightarrow> ((None, Some err), w4)
                                   | (None, w4) \<Rightarrow> doAttempt r ctx rq (Suc attempt) w4))
                    else ((Some (withBody resp), None), w2))))"
  by pat_completeness auto
termination
  by (relation "measure (\<lambda>(r, ctx, rq, attempt, w). nat (rc_maxTries r - int attempt))") auto

declare doAttempt.simps [simp del]

definition retryDo ::
  "'w retryClassifier \<Rightarrow> 'w reqContext \<Rightarrow> httpRequest \<Rightarrow> 'w
     \<Rightarrow> (httpResponse option \<times> goError option) \<times> 'w" where
  "retryDo r ctx rq w = doAttempt r ctx rq 0 w"

section \<open>middleware.go\<close>

text \<open>
  \<open>lim_reserve\<close> is \<open>Reserve\<close> followed by \<open>OK\<close> and \<open>DelayFrom(now)\<close>: \<open>None\<close> when the reservation is
  not OK. \<open>sem_acquire\<close> is the \<open>select\<close> between a send on the semaphore channel and \<open>ctx.Done()\<close>.
  Both are indexed by the limiter: reads or writes.
\<close>

datatype limitKind = ReadLimit | WriteLimit

record 'w guardEnv =
  ge_ctx :: "'w reqContext"
  lim_reserve :: "limitKind \<Rightarrow> 'w \<Rightarrow> duration option \<times> 'w"
  lim_cancel :: "limitKind \<Rightarrow> 'w \<Rightarrow> 'w"
  sem_acquire :: "limitKind \<Rightarrow> 'w \<Rightarrow> bool \<times> 'w"
  sem_release :: "limitKind \<Rightarrow> 'w \<Rightarrow> 'w"

record guardedService =
  g_readInterval :: duration
  g_readBurst :: nat
  g_writeInterval :: duration
  g_writeBurst :: nat
  g_readSem :: nat
  g_writeSem :: nat
  g_maxRetries :: int
  g_baseDelay :: duration

definition newGuardedService :: "int \<Rightarrow> duration \<Rightarrow> guardedService" where
  "newGuardedService maxRetries baseDelay =
     \<lparr>g_readInterval = minute div 60, g_readBurst = 10, g_writeInterval = minute div 20,
      g_writeBurst = 3, g_readSem = 4, g_writeSem = 2, g_maxRetries = maxRetries,
      g_baseDelay = baseDelay\<rparr>"

definition maxRateWait :: duration where "maxRateWait = 2 * second"

definition kindName :: "limitKind \<Rightarrow> string" where
  "kindName k = (case k of ReadLimit \<Rightarrow> ''read'' | WriteLimit \<Rightarrow> ''write'')"

definition acquireCalendar :: "'w guardEnv \<Rightarrow> limitKind \<Rightarrow> 'w \<Rightarrow> goError option \<times> 'w" where
  "acquireCalendar e k w =
     (case sem_acquire e k w of
        (True, w') \<Rightarrow> (None, w')
      | (False, w') \<Rightarrow> (Some (calendarContextError (ctx_err (ge_ctx e) w')), w'))"

definition waitLimiter :: "'w guardEnv \<Rightarrow> limitKind \<Rightarrow> 'w \<Rightarrow> goError option \<times> 'w" where
  "waitLimiter e k w =
     (case ctx_err (ge_ctx e) w of
        Some err \<Rightarrow> (Some (calendarContextError (Some err)), w)
      | None \<Rightarrow>
          (case lim_reserve e k w of
             (None, w1) \<Rightarrow>
               (Some (newError codeRateLimited 429 (kindName k @ '' rate limit exceeded'') None), w1)
           | (Some delay, w1) \<Rightarrow>
               (case ctx_err (ge_ctx e) w1 of
                  Some err \<Rightarrow> (Some (calendarContextError (Some err)), lim_cancel e k w1)
                | None \<Rightarrow>
                    if maxRateWait < delay
                    then (Some (CalErr codeRateLimited 429
                            (kindName k @ '' rate limit exceeded: retry later'') True
                            (capPublicRetryAfter delay) [] None), lim_cancel e k w1)
                    else if delay \<le> 0 then (None, w1)
                    else (case ctx_timer (ge_ctx e) delay w1 of
                            (True, w2) \<Rightarrow> (None, w2)
                          | (False, w2) \<Rightarrow>
                              (let w3 = lim_cancel e k w2 in
                               (Some (calendarContextError (ctx_err (ge_ctx e) w3)), w3))))))"

text \<open>
  \<open>(*GuardedService).retry\<close>. The closure \<open>fn\<close> also assigns the captured \<open>result\<close>, so the loop carries
  the last value assigned (\<open>res\<close>) and the last error. The delay goes through
  \<open>math.Pow\<close>, which is exact for the attempts that occur.
\<close>

function guardedRetry ::
  "guardedService \<Rightarrow> 'w reqContext \<Rightarrow> ('w \<Rightarrow> ('a \<times> goError option) \<times> 'w) \<Rightarrow> nat \<Rightarrow> 'a \<Rightarrow> goError option
     \<Rightarrow> 'w \<Rightarrow> ('a \<times> goError option) \<times> 'w" where
  "guardedRetry g ctx fn attempt res lastErr w =
     (if g_maxRetries g < int attempt then ((res, lastErr), w)
      else case fn w of
        ((res', None), w1) \<Rightarrow> ((res', None), w1)
      | ((res', Some err), w1) \<Rightarrow>
          if errIs err ContextCanceled \<or> errIs err DeadlineExceeded
          then ((res', Some (calendarContextError (Some err))), w1)
          else if asICloudError err \<noteq> None then ((res', Some err), w1)
          else if int attempt = g_maxRetries g then ((res', Some err), w1)
          else (case ctx_timer ctx (wrap64 (g_baseDelay g * 2 ^ attempt)) w1 of
                  (False, w2) \<Rightarrow> ((res', Some (calendarContextError (ctx_err ctx w2))), w2)
                | (True, w2) \<Rightarrow> guardedRetry g ctx fn (Suc attempt) res' (Some err) w2))"
  by pat_completeness auto
termination
  by (relation "measure (\<lambda>(g, ctx, fn, attempt, res, lastErr, w). nat (g_maxRetries g + 1 - int attempt))")
    auto

declare guardedRetry.simps [simp del]

text \<open>
  \<open>ListCalendars\<close>, \<open>SearchEvents\<close> and \<open>GetEvent\<close> share one body around their call of the inner service
  (\<open>fn\<close>) with their zero result; \<open>CreateEvent\<close>, \<open>UpdateEvent\<close> and \<open>DeleteEvent\<close> share the other.
\<close>

definition guardedRead ::
  "guardedService \<Rightarrow> 'w guardEnv \<Rightarrow> 'a \<Rightarrow> ('w \<Rightarrow> ('a \<times> goError option) \<times> 'w) \<Rightarrow> 'w
     \<Rightarrow> ('a \<times> goError option) \<times> 'w" where
  "guardedRead g e zero fn w =
     (case waitLimiter e ReadLimit w of
        (Some err, w1) \<Rightarrow> ((zero, Some err), w1)
      | (None, w1) \<Rightarrow>
          (case acquireCalendar e ReadLimit w1 of
             (Some err, w2) \<Rightarrow> ((zero, Some err), w2)
           | (None, w2) \<Rightarrow>
               (case guardedRetry g (ge_ctx e) fn 0 zero None w2 of
                  (out, w3) \<Rightarrow> (out, sem_release e ReadLimit w3))))"

definition guardedWrite ::
  "'w guardEnv \<Rightarrow> 'a \<Rightarrow> ('w \<Rightarrow> ('a \<times> goError option) \<times> 'w) \<Rightarrow> 'w \<Rightarrow> ('a \<times> goError option) \<times> 'w" where
  "guardedWrite e zero fn w =
     (case waitLimiter e WriteLimit w of
        (Some err, w1) \<Rightarrow> ((zero, Some err), w1)
      | (None, w1) \<Rightarrow>
          (case acquireCalendar e WriteLimit w1 of
             (Some err, w2) \<Rightarrow> ((zero, Some err), w2)
           | (None, w2) \<Rightarrow> (case fn w2 of (out, w3) \<Rightarrow> (out, sem_release e WriteLimit w3))))"

text \<open>
  The six operations of the interface, over an inner service. The payload types (search results,
  event details, new events, updates, delete options and results) pass through unchanged and are
  type parameters.
\<close>

record ('cal, 'opts, 'search, 'detail, 'new, 'update, 'delopts, 'delres, 'w) calendarService =
  sv_listCalendars :: "'w \<Rightarrow> ('cal list \<times> goError option) \<times> 'w"
  sv_searchEvents :: "string \<Rightarrow> int \<Rightarrow> int \<Rightarrow> 'opts \<Rightarrow> 'w \<Rightarrow> ('search \<times> goError option) \<times> 'w"
  sv_getEvent :: "string \<Rightarrow> string \<Rightarrow> 'w \<Rightarrow> ('detail option \<times> goError option) \<times> 'w"
  sv_createEvent :: "string \<Rightarrow> 'new \<Rightarrow> 'w \<Rightarrow> (string \<times> goError option) \<times> 'w"
  sv_updateEvent :: "string \<Rightarrow> string \<Rightarrow> 'update \<Rightarrow> 'w \<Rightarrow> (unit \<times> goError option) \<times> 'w"
  sv_deleteEvent :: "string \<Rightarrow> string \<Rightarrow> 'delopts \<Rightarrow> 'w \<Rightarrow> ('delres \<times> goError option) \<times> 'w"

text \<open>\<open>zeroSearch\<close> and \<open>zeroDelete\<close> are the zero values returned beside an early error.\<close>

definition guardService ::
  "guardedService \<Rightarrow> 'w guardEnv \<Rightarrow> 'search \<Rightarrow> 'delres
     \<Rightarrow> ('cal, 'opts, 'search, 'detail, 'new, 'update, 'delopts, 'delres, 'w) calendarService
     \<Rightarrow> ('cal, 'opts, 'search, 'detail, 'new, 'update, 'delopts, 'delres, 'w) calendarService" where
  "guardService g e zeroSearch zeroDelete inner =
     \<lparr>sv_listCalendars = guardedRead g e [] (sv_listCalendars inner),
      sv_searchEvents = (\<lambda>path start end' opts.
        guardedRead g e zeroSearch (sv_searchEvents inner path start end' opts)),
      sv_getEvent = (\<lambda>path uid. guardedRead g e None (sv_getEvent inner path uid)),
      sv_createEvent = (\<lambda>path ev. guardedWrite e [] (sv_createEvent inner path ev)),
      sv_updateEvent = (\<lambda>path uid up. guardedWrite e () (sv_updateEvent inner path uid up)),
      sv_deleteEvent = (\<lambda>path uid opts.
        guardedWrite e zeroDelete (sv_deleteEvent inner path uid opts))\<rparr>"

section \<open>What a mutation reports\<close>

text \<open>
  The report of a dispatched mutation says what the server answered: a gateway error leaves the
  outcome unknown, a 429 was not applied, any other response is handed on as it came, and without a
  response the outcome is unknown.
\<close>

definition reportsAnswer ::
  "httpResponse option \<times> goError option \<Rightarrow> httpResponse option \<times> goError option \<Rightarrow> bool" where
  "reportsAnswer answer out =
     (case answer of
        (Some resp, None) \<Rightarrow>
          if rs_statusCode resp \<in> {502, 503, 504}
          then \<exists>err. out = (None, Some err) \<and> e_code err = codeOutcomeUnknown
                 \<and> e_status err = rs_statusCode resp
          else if rs_statusCode resp = 429
          then \<exists>err. out = (None, Some err) \<and> e_code err = codeRateLimited
          else \<exists>body. out = (Some (resp\<lparr>rs_body := body\<rparr>), None)
                 \<and> body = (case rs_body resp of None \<Rightarrow> Some [] | Some b \<Rightarrow> Some b)
      | _ \<Rightarrow> \<exists>err. out = (None, Some err) \<and> e_code err = codeOutcomeUnknown)"

section \<open>Metering a run\<close>

text \<open>
  What an observer of the outside counts: the dispatches to the inner doer and the delays handed to
  timers. The locale states what every operation does to the two meters.
\<close>

locale dispatch_meter =
  fixes r :: "'w retryClassifier" and ctx :: "'w reqContext"
    and sent :: "'w \<Rightarrow> nat" and waits :: "'w \<Rightarrow> duration list"
  assumes inner_meters: "rc_inner r rq w = (out, w') \<Longrightarrow> sent w' = Suc (sent w) \<and> waits w' = waits w"
    and timer_meters: "ctx_timer ctx d w = (b, w') \<Longrightarrow> sent w' = sent w \<and> waits w' = waits w @ [d]"
    and body_meters: "ctx_getBody ctx w = (e, w') \<Longrightarrow> sent w' = sent w \<and> waits w' = waits w"
    and jitter_meters: "rc_jitter r d w = (j, w') \<Longrightarrow> sent w' = sent w \<and> waits w' = waits w"
begin

lemma rewind_meters:
  "rewindRequestBody ctx rq w = (e, w') \<Longrightarrow> sent w' = sent w \<and> waits w' = waits w"
  using body_meters
  by (fastforce simp: rewindRequestBody_def split: if_splits prod.splits option.splits)

lemma capDelay_le: "capDelay d mx \<le> mx"
  by (simp add: capDelay_def)

lemma retryDelay_meters:
  assumes "retryDelay r resp n w = (d, w')"
  shows "d \<le> rc_maxDelay r \<and> sent w' = sent w \<and> waits w' = waits w"
  using assms capDelay_le jitter_meters
  by (fastforce simp: retryDelay_def Let_def split: option.splits prod.splits)

lemma sleep_meters:
  assumes "sleep ctx d w = (e, w')"
  shows "sent w' = sent w \<and> (waits w' = waits w \<or> waits w' = waits w @ [d])"
  using assms timer_meters by (fastforce simp: sleep_def split: if_splits prod.splits bool.splits)

text \<open>One pass over the body of the loop, for a mutation.\<close>

lemma write_once:
  assumes "isCalendarMutationMethod (rq_method rq)" and "doAttempt r ctx rq n w = (out, w')"
  shows "waits w' = waits w \<and>
    (sent w' = sent w \<and> fst out = None \<and> snd out \<noteq> None
     \<or> sent w' = Suc (sent w)
       \<and> (\<exists>w1 answer. rc_inner r rq w1 = (answer, w') \<and> reportsAnswer answer out))"
proof (cases "ctx_err ctx w")
  case (Some err)
  then show ?thesis using assms by (auto simp: doAttempt.simps [of r ctx rq n w])
next
  case None
  obtain e w1 where rw: "rewindRequestBody ctx rq w = (e, w1)" by fastforce
  note m1 = rewind_meters [OF rw]
  show ?thesis
  proof (cases e)
    case (Some err)
    then show ?thesis using assms None rw m1 by (auto simp: doAttempt.simps [of r ctx rq n w])
  next
    case e: None
    obtain resp err w2 where inn: "rc_inner r rq w1 = ((resp, err), w2)" by (metis surj_pair)
    note m2 = inner_meters [OF inn]
    have c429: "e_code (classifyStatusWithRetryAfter 429 d) = codeRateLimited" for d
      unfolding classify_code by (simp add: classifyStatusBare_def)
    have unk: "e_code (outcomeUnknownError s) = codeOutcomeUnknown" "e_status (outcomeUnknownError s) = s" for s
      by (simp_all add: outcomeUnknownError_def)
    have run: "(out, w') = (case (resp, err) of
        (Some x, None) \<Rightarrow>
          (if isRetryStatus (rs_statusCode x)
           then (if rs_statusCode x = 429
                 then ((None, Some (classifyStatusWithRetryAfter 429
                         (case headerRetryAfter r x w2 of Some d \<Rightarrow> d | None \<Rightarrow> 0))), w2)
                 else ((None, Some (outcomeUnknownError (rs_statusCode x))), w2))
           else ((Some (withBody x), None), w2))
      | _ \<Rightarrow> ((None, Some (outcomeUnknownError 0)), w2))"
      using assms None rw e inn
      by (cases resp; cases err) (auto simp: doAttempt.simps [of r ctx rq n w])
    have "w' = w2" using run by (auto split: option.splits if_splits)
    moreover have "reportsAnswer (resp, err) out"
      using run c429 unk
      by (auto simp: reportsAnswer_def isRetryStatus_def withBody_def split: option.splits if_splits)
    ultimately show ?thesis using m1 m2 inn by auto
  qed
qed

text \<open>One pass of a read: it returns, or it slept within the cap and tries again.\<close>

definition slept :: "nat \<Rightarrow> 'w \<Rightarrow> 'w \<Rightarrow> bool" where
  "slept n w w' \<longleftrightarrow> sent w' = Suc (sent w) \<and> int n + 1 < rc_maxTries r
     \<and> (waits w' = waits w \<or> (\<exists>d \<le> rc_maxDelay r. waits w' = waits w @ [d]))"

lemma read_step:
  assumes "\<not> isCalendarMutationMethod (rq_method rq)" and "doAttempt r ctx rq n w = (out, w')"
  shows "sent w' \<le> Suc (sent w) \<and> waits w' = waits w \<or> slept n w w'
    \<or> (\<exists>w4. slept n w w4 \<and> doAttempt r ctx rq (Suc n) w4 = (out, w'))"
proof (cases "ctx_err ctx w")
  case (Some err)
  then show ?thesis using assms by (simp add: doAttempt.simps [of r ctx rq n w])
next
  case None
  obtain e w1 where rw: "rewindRequestBody ctx rq w = (e, w1)" by fastforce
  obtain resp err w2 where inn: "rc_inner r rq w1 = ((resp, err), w2)" by (metis surj_pair)
  note m = rewind_meters [OF rw] inner_meters [OF inn]
  show ?thesis
  proof (cases "e = None \<and> err = None \<and> (\<exists>x. resp = Some x \<and> isRetryStatus (rs_statusCode x))")
    case False
    with assms None rw inn m show ?thesis
      by (auto simp: doAttempt.simps [of r ctx rq n w] Let_def split: option.splits if_splits)
  next
    case True
    then obtain x where x: "e = None" "err = None" "resp = Some x" "isRetryStatus (rs_statusCode x)"
      by blast
    obtain d w3 where rd: "retryDelay r x n w2 = (d, w3)" by fastforce
    obtain e4 w4 where sl: "sleep ctx d w3 = (e4, w4)" by fastforce
    have "slept n w w4" if "\<not> rc_maxTries r \<le> int n + 1"
      using that m retryDelay_meters [OF rd] sleep_meters [OF sl] by (auto simp: slept_def)
    with assms None rw inn m x rd sl retryDelay_meters [OF rd] show ?thesis
      by (cases e4)
        (auto simp: doAttempt.simps [of r ctx rq n w] Let_def split: if_splits)
  qed
qed

lemma read_bounded:
  assumes "\<not> isCalendarMutationMethod (rq_method rq)" and "doAttempt r ctx rq n w = (out, w')"
  shows "sent w' \<le> sent w + max 1 (nat (rc_maxTries r) - n)
    \<and> (\<exists>ds. waits w' = waits w @ ds \<and> length ds \<le> nat (rc_maxTries r) - n - 1
         \<and> (\<forall>d \<in> set ds. d \<le> rc_maxDelay r))"
  using assms(2)
proof (induction "nat (rc_maxTries r) - n" arbitrary: n w rule: less_induct)
  case less
  have here: ?case if "sent w' \<le> Suc (sent w) \<and> waits w' = waits w \<or> slept n w w'"
    using that by (auto simp: slept_def)
  show ?case
  proof (cases "sent w' \<le> Suc (sent w) \<and> waits w' = waits w \<or> slept n w w'")
    case False
    then obtain w4 where s: "slept n w w4" and go: "doAttempt r ctx rq (Suc n) w4 = (out, w')"
      using read_step [OF assms(1) less.prems] by blast
    then have lt: "int n + 1 < rc_maxTries r" by (simp add: slept_def)
    then have "nat (rc_maxTries r) - Suc n < nat (rc_maxTries r) - n" by linarith
    from less.hyps [OF this go] obtain ds where
      ih: "sent w' \<le> sent w4 + max 1 (nat (rc_maxTries r) - Suc n)" "waits w' = waits w4 @ ds"
        "length ds \<le> nat (rc_maxTries r) - Suc n - 1" "\<forall>d \<in> set ds. d \<le> rc_maxDelay r" by blast
    from s obtain ps where ps: "waits w4 = waits w @ ps" "length ps \<le> 1"
      "\<forall>d \<in> set ps. d \<le> rc_maxDelay r" by (fastforce simp: slept_def)
    have "waits w' = waits w @ (ps @ ds)" using ih(2) ps(1) by simp
    moreover have "length (ps @ ds) \<le> nat (rc_maxTries r) - n - 1" using ih(3) ps(2) lt by simp
    moreover have "\<forall>d \<in> set (ps @ ds). d \<le> rc_maxDelay r" using ih(4) ps(3) by auto
    moreover have "sent w' \<le> sent w + max 1 (nat (rc_maxTries r) - n)"
      using ih(1) s lt by (simp add: slept_def)
    ultimately show ?thesis by blast
  qed (rule here)
qed

end

text \<open>
  Every classifier and context can be observed: the world is paired with the two meters and every
  operation is run on the world with the meters updated beside it.
\<close>

type_synonym 'w metered = "'w \<times> nat \<times> duration list"

definition keepMeters :: "('w \<Rightarrow> 'a \<times> 'w) \<Rightarrow> 'w metered \<Rightarrow> 'a \<times> 'w metered" where
  "keepMeters f m = (case m of (w, n, ds) \<Rightarrow> (case f w of (a, w') \<Rightarrow> (a, (w', n, ds))))"

definition meteredClassifier :: "'w retryClassifier \<Rightarrow> 'w metered retryClassifier" where
  "meteredClassifier r =
     \<lparr>rc_inner = (\<lambda>rq (w, n, ds). case rc_inner r rq w of (out, w') \<Rightarrow> (out, (w', Suc n, ds))),
      rc_maxTries = rc_maxTries r, rc_baseDelay = rc_baseDelay r, rc_maxDelay = rc_maxDelay r,
      rc_now = (\<lambda>(w, _). rc_now r w), rc_parseTime = rc_parseTime r,
      rc_jitter = (\<lambda>d. keepMeters (rc_jitter r d))\<rparr>"

definition meteredContext :: "'w reqContext \<Rightarrow> 'w metered reqContext" where
  "meteredContext ctx =
     \<lparr>ctx_err = (\<lambda>(w, _). ctx_err ctx w),
      ctx_timer = (\<lambda>d (w, n, ds). case ctx_timer ctx d w of (b, w') \<Rightarrow> (b, (w', n, ds @ [d]))),
      ctx_getBody = keepMeters (ctx_getBody ctx)\<rparr>"

abbreviation sentOf :: "'w metered \<Rightarrow> nat" where "sentOf m \<equiv> fst (snd m)"
abbreviation waitsOf :: "'w metered \<Rightarrow> duration list" where "waitsOf m \<equiv> snd (snd m)"

interpretation obs: dispatch_meter "meteredClassifier r" "meteredContext ctx"
  "\<lambda>m. fst (snd m)" "\<lambda>m. snd (snd m)"
  for r :: "'w retryClassifier" and ctx :: "'w reqContext"
  by unfold_locales
    (auto simp: meteredClassifier_def meteredContext_def keepMeters_def split: prod.splits)

text \<open>
  C9. A Calendar mutation is never replayed, and its outcome is never misreported. For every
  network, clock and cancellation, the classifier dispatches a PUT or DELETE at most once and never
  sleeps for it. If it dispatched, the caller gets the report of the answer that the network gave to
  this request: \<open>outcome_unknown\<close> after 502, 503 or 504 (with that status) and when there is no
  response, \<open>rate_limited\<close> after 429, and otherwise the server's own response. Without a dispatch the
  caller gets an error.
\<close>

theorem mutation_dispatched_once:
  assumes "isCalendarMutationMethod (rq_method rq)"
    and "retryDo (meteredClassifier r) (meteredContext ctx) rq (w, 0, []) = (out, (w', sent, waits))"
  shows "waits = [] \<and>
    (sent = 0 \<and> fst out = None \<and> snd out \<noteq> None
     \<or> sent = 1 \<and> (\<exists>w1 answer. rc_inner r rq w1 = (answer, w') \<and> reportsAnswer answer out))"
proof -
  from obs.write_once [OF assms(1) assms(2) [unfolded retryDo_def]]
  have "waits = []" and cases: "sent = 0 \<and> fst out = None \<and> snd out \<noteq> None
    \<or> sent = 1 \<and> (\<exists>m answer. rc_inner (meteredClassifier r) rq m = (answer, (w', sent, waits))
        \<and> reportsAnswer answer out)" by auto
  moreover have "\<exists>w1. rc_inner r rq w1 = (answer, w')"
    if "rc_inner (meteredClassifier r) rq m = (answer, (w', sent, waits))" for m answer
    using that by (auto simp: meteredClassifier_def split: prod.splits)
  ultimately show ?thesis by blast
qed

text \<open>A network that answers with the statuses of a list, one per request, then with 200.\<close>

definition scriptedInner ::
  "httpRequest \<Rightarrow> int list \<Rightarrow> (httpResponse option \<times> goError option) \<times> int list" where
  "scriptedInner rq w =
     (case w of
        [] \<Rightarrow> ((Some \<lparr>rs_statusCode = 200, rs_retryAfter = [], rs_body = None\<rparr>, None), [])
      | s # ss \<Rightarrow> ((Some \<lparr>rs_statusCode = s, rs_retryAfter = [], rs_body = None\<rparr>, None), ss))"

definition scripted :: "int list retryClassifier" where
  "scripted = newRetryClassifier scriptedInner (\<lambda>_. 0) (\<lambda>_. None) (\<lambda>d w. (d div 8, w))"

definition patientContext :: "'w reqContext" where
  "patientContext = \<lparr>ctx_err = (\<lambda>_. None), ctx_timer = (\<lambda>_ w. (True, w)), ctx_getBody = (\<lambda>w. (None, w))\<rparr>"

definition sampleRequest :: "string \<Rightarrow> httpRequest" where
  "sampleRequest meth =
     \<lparr>rq_method = meth, rq_url = ''/x'', rq_header = [], rq_body = [], rq_getBodySet = True\<rparr>"

theorem mutation_dispatched_once_witness:
  "retryDo (meteredClassifier scripted) (meteredContext patientContext) (sampleRequest ''PUT'')
     ([503, 200], 0, []) = ((None, Some (outcomeUnknownError 503)), ([200], 1, []))
   \<and> (\<exists>w1 answer. rc_inner scripted (sampleRequest ''PUT'') w1 = (answer, [200])
        \<and> reportsAnswer answer (None, Some (outcomeUnknownError 503)))"
proof -
  have run: "retryDo (meteredClassifier scripted) (meteredContext patientContext)
      (sampleRequest ''PUT'') ([503, 200], 0, [])
      = ((None, Some (outcomeUnknownError 503)), ([200], 1, []))" by code_simp
  have "isCalendarMutationMethod (rq_method (sampleRequest ''PUT''))" by code_simp
  from mutation_dispatched_once [OF this run] run show ?thesis by simp
qed

text \<open>
  Reads are retried within a fixed budget: for every network and clock a request that is not a
  mutation is dispatched at most \<open>maxTries\<close> times (six for the classifier the program builds), with
  at most five pauses between them, none longer than the cap of ten seconds, whatever
  \<open>Retry-After\<close> the server sends.
\<close>

theorem read_retry_budget:
  assumes "\<not> isCalendarMutationMethod (rq_method rq)"
    and "retryDo (meteredClassifier (newRetryClassifier inner clock parseTime jitter))
           (meteredContext ctx) rq (w, 0, []) = (out, (w', sent, waits))"
  shows "sent \<le> 6 \<and> length waits \<le> 5 \<and> (\<forall>d \<in> set waits. d \<le> 10 * second)"
proof -
  let ?r = "newRetryClassifier inner clock parseTime jitter"
  have "rc_maxTries (meteredClassifier ?r) = 6" "rc_maxDelay (meteredClassifier ?r) = 10 * second"
    by (simp_all add: meteredClassifier_def newRetryClassifier_def)
  with obs.read_bounded [OF assms(1) assms(2) [unfolded retryDo_def]] show ?thesis by auto
qed

theorem read_retry_budget_witness:
  "retryDo (meteredClassifier scripted) (meteredContext patientContext) (sampleRequest ''GET'')
     ([503, 429], 0, [])
   = ((Some \<lparr>rs_statusCode = 200, rs_retryAfter = [], rs_body = Some []\<rparr>, None),
      ([], 3, [562500000, 1125000000]))
   \<and> 562500000 \<le> 10 * second \<and> 1125000000 \<le> 10 * second"
proof -
  have run: "retryDo (meteredClassifier scripted) (meteredContext patientContext)
      (sampleRequest ''GET'') ([503, 429], 0, [])
      = ((Some \<lparr>rs_statusCode = 200, rs_retryAfter = [], rs_body = Some []\<rparr>, None),
         ([], 3, [562500000, 1125000000]))" by code_simp
  have "\<not> isCalendarMutationMethod (rq_method (sampleRequest ''GET''))" by code_simp
  from read_retry_budget [OF this run [unfolded scripted_def]] run show ?thesis by simp
qed

section \<open>Metering the guarded service\<close>

text \<open>
  The meters of the guard: calls of the inner service, and semaphore slots held. \<open>calls\<close> and \<open>held\<close>
  only move where the laws say.
\<close>

locale guard_meter =
  fixes e :: "'w guardEnv" and fn :: "'w \<Rightarrow> ('a \<times> goError option) \<times> 'w"
    and calls :: "'w \<Rightarrow> nat" and held :: "'w \<Rightarrow> int"
  assumes call_meters: "fn w = (out, w') \<Longrightarrow> calls w' = Suc (calls w) \<and> held w' = held w"
    and timer_keeps: "ctx_timer (ge_ctx e) d w = (b, w') \<Longrightarrow> calls w' = calls w \<and> held w' = held w"
    and reserve_keeps: "lim_reserve e k w = (d', w') \<Longrightarrow> calls w' = calls w \<and> held w' = held w"
    and cancel_keeps: "calls (lim_cancel e k w) = calls w" "held (lim_cancel e k w) = held w"
    and acquire_meters: "sem_acquire e k w = (ok, w') \<Longrightarrow>
          calls w' = calls w \<and> held w' = (if ok then held w + 1 else held w)"
    and release_meters: "calls (sem_release e k w) = calls w" "held (sem_release e k w) = held w - 1"
begin

lemma waitLimiter_keeps:
  assumes "waitLimiter e k w = (x, w')"
  shows "calls w' = calls w \<and> held w' = held w"
proof (cases "ctx_err (ge_ctx e) w")
  case (Some err)
  then show ?thesis using assms by (auto simp: waitLimiter_def)
next
  case None
  obtain d w1 where r: "lim_reserve e k w = (d, w1)" by fastforce
  show ?thesis
    using assms None r reserve_keeps [OF r] timer_keeps
    by (fastforce simp: waitLimiter_def Let_def cancel_keeps
        split: option.splits if_splits prod.splits bool.splits)
qed

lemma acquireCalendar_meters:
  assumes "acquireCalendar e k w = (x, w')"
  shows "calls w' = calls w \<and> held w' = (if x = None then held w + 1 else held w)"
  using assms acquire_meters
  by (fastforce simp: acquireCalendar_def split: prod.splits bool.splits)

lemma guardedRetry_meters:
  assumes "guardedRetry g (ge_ctx e) fn n res lastErr w = (out, w')"
  shows "held w' = held w \<and> calls w' \<le> calls w + nat (g_maxRetries g + 1 - int n)"
  using assms
proof (induction "nat (g_maxRetries g + 1 - int n)" arbitrary: n res lastErr w rule: less_induct)
  case less
  show ?case
  proof (cases "g_maxRetries g < int n")
    case True
    then show ?thesis using less.prems by (simp add: guardedRetry.simps [of g _ fn n])
  next
    case False
    obtain res' err w1 where f: "fn w = ((res', err), w1)" by (metis surj_pair)
    note m = call_meters [OF f]
    obtain b w2 where t: "ctx_timer (ge_ctx e) (wrap64 (g_baseDelay g * 2 ^ n)) w1 = (b, w2)"
      by fastforce
    note m2 = timer_keeps [OF t]
    show ?thesis
    proof (cases "\<exists>x. err = Some x \<and> \<not> errIs x ContextCanceled \<and> \<not> errIs x DeadlineExceeded
        \<and> asICloudError x = None \<and> int n \<noteq> g_maxRetries g \<and> b")
      case True
      then obtain x where "guardedRetry g (ge_ctx e) fn (Suc n) res' (Some x) w2 = (out, w')"
        and lt: "int n < g_maxRetries g"
        using less.prems False f t by (auto simp: guardedRetry.simps [of g _ fn n])
      then have "held w' = held w2 \<and> calls w' \<le> calls w2 + nat (g_maxRetries g + 1 - int (Suc n))"
        by (intro less.hyps) auto
      then show ?thesis using m m2 lt by auto
    next
      case stop: False
      have "w' = w1 \<or> w' = w2"
        using less.prems False f t stop
        by (auto simp: guardedRetry.simps [of g _ fn n] split: option.splits if_splits bool.splits)
      then show ?thesis using m m2 False by auto
    qed
  qed
qed

lemma guardedRead_meters:
  assumes "guardedRead g e zero fn w = (out, w')"
  shows "held w' = held w \<and> calls w' \<le> calls w + nat (g_maxRetries g + 1)"
proof -
  obtain x w1 where l: "waitLimiter e ReadLimit w = (x, w1)" by fastforce
  obtain y w2 where a: "acquireCalendar e ReadLimit w1 = (y, w2)" by fastforce
  obtain o3 w3 where q: "guardedRetry g (ge_ctx e) fn 0 zero None w2 = (o3, w3)" by fastforce
  show ?thesis
    using assms l a q waitLimiter_keeps [OF l] acquireCalendar_meters [OF a]
      guardedRetry_meters [OF q]
    by (auto simp: guardedRead_def release_meters split: option.splits)
qed

lemma guardedWrite_meters:
  assumes "guardedWrite e zero fn w = (out, w')"
  shows "held w' = held w \<and> (calls w' = calls w \<and> snd out \<noteq> None \<and> fst out = zero
           \<or> calls w' = Suc (calls w) \<and> (\<exists>w1 w2. fn w1 = (out, w2)))"
proof -
  obtain x w1 where l: "waitLimiter e WriteLimit w = (x, w1)" by fastforce
  obtain y w2 where a: "acquireCalendar e WriteLimit w1 = (y, w2)" by fastforce
  obtain o3 w3 where q: "fn w2 = (o3, w3)" by fastforce
  show ?thesis
    using assms l a q waitLimiter_keeps [OF l] acquireCalendar_meters [OF a] call_meters [OF q]
    by (auto simp: guardedWrite_def release_meters split: option.splits)
qed

end

type_synonym 'w guarded = "'w \<times> nat \<times> int"

definition keepGuard :: "('w \<Rightarrow> 'a \<times> 'w) \<Rightarrow> 'w guarded \<Rightarrow> 'a \<times> 'w guarded" where
  "keepGuard f m = (case m of (w, n, h) \<Rightarrow> (case f w of (a, w') \<Rightarrow> (a, (w', n, h))))"

definition meteredCall :: "('w \<Rightarrow> 'a \<times> 'w) \<Rightarrow> 'w guarded \<Rightarrow> 'a \<times> 'w guarded" where
  "meteredCall f m = (case m of (w, n, h) \<Rightarrow> (case f w of (a, w') \<Rightarrow> (a, (w', Suc n, h))))"

definition meteredGuard :: "'w guardEnv \<Rightarrow> 'w guarded guardEnv" where
  "meteredGuard e =
     \<lparr>ge_ctx = \<lparr>ctx_err = (\<lambda>(w, _). ctx_err (ge_ctx e) w),
                ctx_timer = (\<lambda>d. keepGuard (ctx_timer (ge_ctx e) d)),
                ctx_getBody = keepGuard (ctx_getBody (ge_ctx e))\<rparr>,
      lim_reserve = (\<lambda>k. keepGuard (lim_reserve e k)),
      lim_cancel = (\<lambda>k (w, m). (lim_cancel e k w, m)),
      sem_acquire = (\<lambda>k (w, n, h). case sem_acquire e k w of
                       (ok, w') \<Rightarrow> (ok, (w', n, if ok then h + 1 else h))),
      sem_release = (\<lambda>k (w, n, h). (sem_release e k w, n, h - 1))\<rparr>"

interpretation gobs: guard_meter "meteredGuard e" "meteredCall fn"
  "\<lambda>m. fst (snd m)" "\<lambda>m. snd (snd m)"
  for e :: "'w guardEnv" and fn :: "'w \<Rightarrow> ('a \<times> goError option) \<times> 'w"
  by unfold_locales
    (auto simp: meteredGuard_def meteredCall_def keepGuard_def split: prod.splits if_splits)

text \<open>
  The guarded service calls the inner service at most once for a create, update or delete, with
  no retry at this layer; when it does, the caller gets exactly the inner answer, and when it does
  not, an error beside the zero result. On every path, errors included, the semaphore slots held
  afterwards are those held before.
\<close>

theorem guarded_write_once:
  assumes "guardedWrite (meteredGuard e) zero (meteredCall fn) (w, 0, h) = (out, (w', calls, h'))"
  shows "h' = h \<and> (calls = 0 \<and> snd out \<noteq> None \<and> fst out = zero
           \<or> calls = 1 \<and> (\<exists>w1 w2. fn w1 = (out, w2)))"
proof -
  from gobs.guardedWrite_meters [OF assms]
  have "h' = h \<and> (calls = 0 \<and> snd out \<noteq> None \<and> fst out = zero
      \<or> calls = 1 \<and> (\<exists>w1 w2. meteredCall fn w1 = (out, w2)))" by simp
  moreover have "\<exists>u1 u2. fn u1 = (out, u2)" if "meteredCall fn w1 = (out, w2)" for w1 w2
    using that by (auto simp: meteredCall_def split: prod.splits)
  ultimately show ?thesis by blast
qed

definition grantingEnv :: "duration \<Rightarrow> unit guardEnv" where
  "grantingEnv delay =
     \<lparr>ge_ctx = patientContext, lim_reserve = (\<lambda>_ w. (Some delay, w)), lim_cancel = (\<lambda>_ w. w),
      sem_acquire = (\<lambda>_ w. (True, w)), sem_release = (\<lambda>_ w. w)\<rparr>"

theorem guarded_write_once_witness:
  "guardedWrite (meteredGuard (grantingEnv second)) [] (meteredCall (\<lambda>w. ((''uid'', None), w))) ((), 0, 0)
     = ((''uid'', None), ((), 1, 0)) \<and> (0 :: int) = 0"
proof -
  have run: "guardedWrite (meteredGuard (grantingEnv second)) []
      (meteredCall (\<lambda>w. ((''uid'', None), w))) ((), 0, 0) = ((''uid'', None), ((), 1, 0))"
    by code_simp
  from guarded_write_once [OF run] run show ?thesis by simp
qed

text \<open>
  A guarded read calls the inner service at most \<open>maxRetries + 1\<close> times and gives back its
  semaphore slot on every path, for every inner service, limiter and cancellation.
\<close>

theorem guarded_read_budget:
  assumes "guardedRead g (meteredGuard e) zero (meteredCall fn) (w, 0, h) = (out, (w', calls, h'))"
  shows "h' = h \<and> calls \<le> nat (g_maxRetries g + 1)"
  using gobs.guardedRead_meters [OF assms] by simp

theorem guarded_read_budget_witness:
  "guardedRead (newGuardedService 2 (500 * millisecond)) (meteredGuard (grantingEnv 0)) []
     (meteredCall (\<lambda>w. (([] :: string, Some (PlainError ''reset'')), w))) ((), 0, 0)
   = (([], Some (PlainError ''reset'')), ((), 3, 0)) \<and> 3 \<le> nat (2 + 1)"
proof -
  have run: "guardedRead (newGuardedService 2 (500 * millisecond)) (meteredGuard (grantingEnv 0)) []
      (meteredCall (\<lambda>w. (([] :: string, Some (PlainError ''reset'')), w))) ((), 0, 0)
      = (([], Some (PlainError ''reset'')), ((), 3, 0))" by code_simp
  from guarded_read_budget [OF run] run show ?thesis by (simp add: newGuardedService_def)
qed

end
