(* ===== verification/Net_Policy.thy ===== *)
theory Net_Policy
  imports Go_Errors
begin

text \<open>
  The egress policy of \<open>internal/security/allowlist.go\<close> and \<open>internal/security/mail_dial.go\<close>: host
  predicates, the allowlisting round tripper, and the two fixed-endpoint mail dialers. A parsed
  URL is the part of \<open>url.URL\<close> the program looks at; the network behind the policy is an arbitrary
  function of the world.
\<close>

section \<open>URLs\<close>

record url =
  u_scheme :: string
  u_opaque :: string
  u_user :: "string option"
  u_host :: string
  u_escapedPath :: string
  u_forceQuery :: bool
  u_rawQuery :: string
  u_fragment :: string

text \<open>\<open>(*URL).Hostname\<close> and \<open>(*URL).Port\<close>, which split \<open>Host\<close> at its last colon.\<close>

definition isDigit :: "char \<Rightarrow> bool" where
  "isDigit c \<longleftrightarrow> inRange 0x30 0x39 c"

definition splitHostPort :: "string \<Rightarrow> string \<times> string" where
  "splitHostPort hostPort =
     (let tailRev = takeWhile (\<lambda>c. c \<noteq> CHR '':'') (rev hostPort);
          (host, port) = (if CHR '':'' \<in> set hostPort \<and> list_all isDigit tailRev
                          then (take (length hostPort - length tailRev - 1) hostPort, rev tailRev)
                          else (hostPort, []))
      in if hasPrefix host ''['' \<and> hasSuffix host '']''
         then (butlast (tl host), port) else (host, port))"

definition hostname :: "url \<Rightarrow> string" where
  "hostname u = fst (splitHostPort (u_host u))"

definition urlPort :: "url \<Rightarrow> string" where
  "urlPort u = snd (splitHostPort (u_host u))"

section \<open>Hosts and ports\<close>

text \<open>The regular expression \<open>^p\d{1,3}<suffix>$\<close>.\<close>

definition matchShard :: "string \<Rightarrow> string \<Rightarrow> bool" where
  "matchShard sfx host \<longleftrightarrow>
     hasPrefix host ''p'' \<and> hasSuffix host sfx
     \<and> (let ds = take (length host - length sfx - 1) (tl host) in
        length host = 1 + length ds + length sfx \<and> 1 \<le> length ds \<and> length ds \<le> 3
        \<and> list_all isDigit ds)"

definition isICloudHost :: "string \<Rightarrow> bool" where
  "isICloudHost host \<longleftrightarrow> host = ''caldav.icloud.com'' \<or> matchShard ''-caldav.icloud.com'' host"

definition isContactsHost :: "string \<Rightarrow> bool" where
  "isContactsHost host \<longleftrightarrow> host = ''contacts.icloud.com'' \<or> matchShard ''-contacts.icloud.com'' host"

definition portAllowed :: "string \<Rightarrow> bool" where
  "portAllowed port \<longleftrightarrow> port = [] \<or> port = ''443''"

section \<open>AllowlistTransport\<close>

text \<open>\<open>at_quote\<close> is the rendering of the verb \<open>%q\<close> in the error messages.\<close>

record ('r, 'w) allowlistTransport =
  at_inner :: "url \<Rightarrow> 'w \<Rightarrow> (goError + 'r) \<times> 'w"
  at_allowed :: "string \<Rightarrow> bool"
  at_quote :: "string \<Rightarrow> string"

definition newAllowlistTransport ::
  "(string \<Rightarrow> string) \<Rightarrow> (url \<Rightarrow> 'w \<Rightarrow> (goError + 'r) \<times> 'w) \<Rightarrow> (string \<Rightarrow> bool)
     \<Rightarrow> ('r, 'w) allowlistTransport" where
  "newAllowlistTransport q inner allowed = \<lparr>at_inner = inner, at_allowed = allowed, at_quote = q\<rparr>"

definition roundTrip :: "('r, 'w) allowlistTransport \<Rightarrow> url \<Rightarrow> 'w \<Rightarrow> (goError + 'r) \<times> 'w" where
  "roundTrip t u w =
     (if u_scheme u \<noteq> ''https''
      then (Inl (PlainError (''network allowlist: scheme '' @ at_quote t (u_scheme u) @ '' rejected (https only)'')), w)
      else if \<not> portAllowed (urlPort u)
      then (Inl (PlainError (''network allowlist: port '' @ at_quote t (urlPort u) @ '' rejected (443 only)'')), w)
      else if \<not> at_allowed t (hostname u)
      then (Inl (PlainError (''network allowlist: host '' @ at_quote t (hostname u) @ '' rejected'')), w)
      else at_inner t u w)"

text \<open>The transports of the two production clients; the HTTP transport itself is the parameter.\<close>

definition iCloudTransport :: "(string \<Rightarrow> string) \<Rightarrow> (url \<Rightarrow> 'w \<Rightarrow> (goError + 'r) \<times> 'w) \<Rightarrow> ('r, 'w) allowlistTransport" where
  "iCloudTransport q inner = newAllowlistTransport q inner isICloudHost"

definition contactsTransport :: "(string \<Rightarrow> string) \<Rightarrow> (url \<Rightarrow> 'w \<Rightarrow> (goError + 'r) \<times> 'w) \<Rightarrow> ('r, 'w) allowlistTransport" where
  "contactsTransport q inner = newAllowlistTransport q inner isContactsHost"

section \<open>Mail dialers\<close>

definition imapAddress :: string where "imapAddress = ''imap.mail.me.com:993''"
definition smtpAddress :: string where "smtpAddress = ''smtp.mail.me.com:587''"
definition imapServerName :: string where "imapServerName = ''imap.mail.me.com''"

text \<open>
  A dialer takes the network and the address. \<open>handshake\<close> is \<open>tls.Client(raw, config)\<close> and its
  handshake for the given server name: the TLS connection, or an error.
\<close>

type_synonym ('c, 'w) dialer = "string \<Rightarrow> string \<Rightarrow> 'w \<Rightarrow> (goError + 'c) \<times> 'w"

definition newIMAPDialer ::
  "('c, 'w) dialer option \<Rightarrow> (string \<Rightarrow> 'c \<Rightarrow> 'w \<Rightarrow> (goError + 't) \<times> 'w) \<Rightarrow> ('c \<Rightarrow> 'w \<Rightarrow> 'w)
     \<Rightarrow> ('t, 'w) dialer" where
  "newIMAPDialer dial handshake closeConn network address w =
     (if network \<noteq> ''tcp'' \<or> address \<noteq> imapAddress
      then (Inl (PlainError ''network allowlist: IMAP destination rejected''), w)
      else case dial of
        None \<Rightarrow> (Inl (PlainError ''network allowlist: IMAP dialer is unavailable''), w)
      | Some d \<Rightarrow>
          (case d ''tcp'' imapAddress w of
             (Inl err, w1) \<Rightarrow> (Inl (WrapError ''IMAP connection failed'' err), w1)
           | (Inr raw, w1) \<Rightarrow>
               (case handshake imapServerName raw w1 of
                  (Inl err, w2) \<Rightarrow> (Inl (WrapError ''IMAP TLS handshake failed'' err), closeConn raw w2)
                | (Inr conn, w2) \<Rightarrow> (Inr conn, w2))))"

definition newSMTPDialer :: "('c, 'w) dialer option \<Rightarrow> ('c, 'w) dialer" where
  "newSMTPDialer dial network address w =
     (if network \<noteq> ''tcp'' \<or> address \<noteq> smtpAddress
      then (Inl (PlainError ''network allowlist: SMTP destination rejected''), w)
      else case dial of
        None \<Rightarrow> (Inl (PlainError ''network allowlist: SMTP dialer is unavailable''), w)
      | Some d \<Rightarrow> d ''tcp'' smtpAddress w)"

section \<open>Properties\<close>

lemma matchShard_iff:
  "matchShard sfx host \<longleftrightarrow>
     (\<exists>ds. host = ''p'' @ ds @ sfx \<and> 1 \<le> length ds \<and> length ds \<le> 3 \<and> list_all isDigit ds)"
proof
  assume m: "matchShard sfx host"
  let ?ds = "take (length host - length sfx - 1) (tl host)"
  from m obtain t where t: "host = t @ sfx" unfolding matchShard_def hasSuffix_iff by blast
  from m have l: "length host = 1 + length ?ds + length sfx" and d: "1 \<le> length ?ds" "length ?ds \<le> 3"
    "list_all isDigit ?ds" unfolding matchShard_def Let_def by blast+
  from m obtain r where r: "host = CHR ''p'' # r"
    unfolding matchShard_def hasPrefix_iff by auto
  have "length t = 1 + length ?ds" using t l by simp
  then obtain ds where ds: "t = CHR ''p'' # ds" using t r by (cases t) auto
  then have "?ds = ds" "host = ''p'' @ ds @ sfx" using t by simp_all
  then have "host = ''p'' @ ?ds @ sfx" by simp
  then show "\<exists>ds. host = ''p'' @ ds @ sfx \<and> 1 \<le> length ds \<and> length ds \<le> 3 \<and> list_all isDigit ds"
    using d by blast
next
  assume "\<exists>ds. host = ''p'' @ ds @ sfx \<and> 1 \<le> length ds \<and> length ds \<le> 3 \<and> list_all isDigit ds"
  then obtain ds where "host = ''p'' @ ds @ sfx" "1 \<le> length ds" "length ds \<le> 3" "list_all isDigit ds"
    by blast
  then show "matchShard sfx host"
    by (simp add: matchShard_def hasPrefix_iff hasSuffix_iff Let_def)
qed

text \<open>
  The hosts of the two services written out as sets of strings, independent of the matcher.
\<close>

definition decimalDigits :: "char set" where
  "decimalDigits = set ''0123456789''"

definition shardHosts :: "string \<Rightarrow> string set" where
  "shardHosts tail = {''p'' @ ds @ tail | ds. ds \<noteq> [] \<and> length ds \<le> 3 \<and> set ds \<subseteq> decimalDigits}"

definition serviceHosts :: "string \<Rightarrow> string set" where
  "serviceHosts service =
     insert (service @ ''.icloud.com'') (shardHosts (''-'' @ service @ ''.icloud.com''))"

lemma isDigit_iff: "isDigit c \<longleftrightarrow> c \<in> decimalDigits"
proof
  assume "isDigit c"
  then have "0x30 \<le> bval c" "bval c \<le> 0x39" by (auto simp: isDigit_def inRange_def)
  then have "bval c = 0x30 \<or> bval c = 0x31 \<or> bval c = 0x32 \<or> bval c = 0x33 \<or> bval c = 0x34
      \<or> bval c = 0x35 \<or> bval c = 0x36 \<or> bval c = 0x37 \<or> bval c = 0x38 \<or> bval c = 0x39" by arith
  then show "c \<in> decimalDigits"
    by (elim disjE) (simp_all add: decimalDigits_def bval_inj [symmetric] bval_def)
qed (auto simp: isDigit_def inRange_def bval_def decimalDigits_def)

lemma matchShard_hosts: "matchShard sfx h \<longleftrightarrow> h \<in> shardHosts sfx"
proof -
  have "1 \<le> length ds \<and> length ds \<le> 3 \<and> list_all isDigit ds
      \<longleftrightarrow> ds \<noteq> [] \<and> length ds \<le> 3 \<and> set ds \<subseteq> decimalDigits" for ds
    by (cases ds) (auto simp: list_all_iff isDigit_iff)
  then show ?thesis unfolding matchShard_iff shardHosts_def by blast
qed

lemma isICloudHost_iff: "isICloudHost h \<longleftrightarrow> h \<in> serviceHosts ''caldav''"
proof -
  have "''-caldav.icloud.com'' = ''-'' @ ''caldav'' @ ''.icloud.com''"
    "''caldav.icloud.com'' = ''caldav'' @ ''.icloud.com''" by simp_all
  then show ?thesis unfolding isICloudHost_def serviceHosts_def matchShard_hosts by (metis insert_iff)
qed

lemma isContactsHost_iff: "isContactsHost h \<longleftrightarrow> h \<in> serviceHosts ''contacts''"
proof -
  have "''-contacts.icloud.com'' = ''-'' @ ''contacts'' @ ''.icloud.com''"
    "''contacts.icloud.com'' = ''contacts'' @ ''.icloud.com''" by simp_all
  then show ?thesis unfolding isContactsHost_def serviceHosts_def matchShard_hosts
    by (metis insert_iff)
qed

lemma serviceHosts_tail: "h \<in> serviceHosts service \<Longrightarrow> \<exists>t. h = t @ service @ ''.icloud.com''"
proof -
  assume "h \<in> serviceHosts service"
  then consider "h = [] @ service @ ''.icloud.com''"
    | ds where "h = (''p'' @ ds @ ''-'') @ service @ ''.icloud.com''"
    unfolding serviceHosts_def shardHosts_def by auto
  then show ?thesis by cases blast+
qed

lemma serviceHosts_disjoint: "h \<in> serviceHosts ''caldav'' \<Longrightarrow> h \<notin> serviceHosts ''contacts''"
proof
  assume a: "h \<in> serviceHosts ''caldav''" and b: "h \<in> serviceHosts ''contacts''"
  from serviceHosts_tail [OF a] obtain t where "h = t @ ''caldav.icloud.com''" by auto
  then have "rev h ! 11 = CHR ''v''" by simp
  moreover from serviceHosts_tail [OF b] obtain t' where "h = t' @ ''contacts.icloud.com''" by auto
  then have "rev h ! 11 = CHR ''s''" by simp
  ultimately show False by simp
qed

text \<open>
  C11. Egress is confined and the two services are separated: a request reaches the network through
  the Calendar transport only over https, on port 443, to \<open>caldav.icloud.com\<close> or a shard of it with
  one to three digits; any other request is answered with an error and leaves the world untouched;
  and no request that the Calendar transport forwards would be forwarded by the Contacts transport.
\<close>

theorem calendar_egress_confined:
  "(if u_scheme u = ''https'' \<and> urlPort u \<in> {[], ''443''} \<and> hostname u \<in> serviceHosts ''caldav''
    then roundTrip (iCloudTransport q inner) u w = inner u w
         \<and> (\<exists>err. roundTrip (contactsTransport q inner) u w = (Inl err, w))
    else \<exists>err. roundTrip (iCloudTransport q inner) u w = (Inl err, w))"
proof (cases "u_scheme u = ''https'' \<and> urlPort u \<in> {[], ''443''}
    \<and> hostname u \<in> serviceHosts ''caldav''")
  case True
  then have "portAllowed (urlPort u)" "isICloudHost (hostname u)" "\<not> isContactsHost (hostname u)"
    using serviceHosts_disjoint by (auto simp: portAllowed_def isICloudHost_iff isContactsHost_iff)
  with True show ?thesis
    by (simp add: roundTrip_def iCloudTransport_def contactsTransport_def newAllowlistTransport_def)
next
  case False
  then have "\<not> (u_scheme u = ''https'' \<and> portAllowed (urlPort u) \<and> isICloudHost (hostname u))"
    by (auto simp: portAllowed_def isICloudHost_iff)
  then have "\<exists>err. roundTrip (iCloudTransport q inner) u w = (Inl err, w)"
    by (auto simp: roundTrip_def iCloudTransport_def newAllowlistTransport_def)
  with False show ?thesis by (simp only: if_False)
qed

end
