(* ===== verification/Cal_Dav.thy ===== *)
theory Cal_Dav
  imports Cal_Validation Cal_Retry Net_Policy
begin

text \<open>
  The Calendar DAV transport policy: \<open>doCalendarRequest\<close> with its redirect loop and URL checks
  (\<open>internal/icloud/dav.go\<close>), path resolution on the discovered shard and discovery hrefs
  (\<open>internal/icloud/discovery.go\<close>). The functions of \<open>net/url\<close> that parse, resolve and render a URL
  and the wrapped HTTP client are parameters: the theorems hold for all of them.
\<close>

section \<open>Data\<close>

text \<open>\<open>dr_request\<close> is \<open>resp.Request\<close>: its URL (which may be nil) and method.\<close>

record davResponse =
  dr_status :: int
  dr_location :: string
  dr_request :: "(url option \<times> string) option"
  dr_body :: "string option"

record davRequest =
  dq_method :: string
  dq_url :: url
  dq_header :: "(string \<times> string) list"
  dq_body :: "string option"

record 'w davLib =
  dl_parse :: "string \<Rightarrow> url option"
  dl_resolve :: "url \<Rightarrow> url \<Rightarrow> url"
  dl_string :: "url \<Rightarrow> string"
  dl_newRequest :: "string \<Rightarrow> string \<Rightarrow> bool"
  dl_do :: "(davRequest \<Rightarrow> 'w \<Rightarrow> (davResponse option \<times> goError option) \<times> 'w) option"

record calClient =
  cc_baseURL :: string
  cc_shardBase :: string
  cc_homeSetPath :: string
  cc_allowHost :: "(string \<Rightarrow> bool) option"

definition newClient :: "string \<Rightarrow> (string \<Rightarrow> bool) option \<Rightarrow> calClient" where
  "newClient baseURL allowHost =
     \<lparr>cc_baseURL = trimSuffix baseURL ''/'', cc_shardBase = [], cc_homeSetPath = [],
      cc_allowHost = allowHost\<rparr>"

definition maxCalendarRedirects :: nat where "maxCalendarRedirects = 3"

section \<open>URL checks\<close>

definition davPort :: "url \<Rightarrow> string" where
  "davPort u = (if urlPort u \<noteq> [] then urlPort u else if u_scheme u = ''https'' then ''443'' else [])"

definition sameDAVOrigin :: "url option \<Rightarrow> url option \<Rightarrow> bool" where
  "sameDAVOrigin a b =
     (case (a, b) of
        (Some x, Some y) \<Rightarrow>
          equalFold (u_scheme x) (u_scheme y) \<and> equalFold (hostname x) (hostname y)
          \<and> davPort x = davPort y
      | _ \<Rightarrow> False)"

definition davOrigin :: "url option \<Rightarrow> string" where
  "davOrigin u = (case u of None \<Rightarrow> [] | Some x \<Rightarrow> u_scheme x @ ''://'' @ u_host x)"

definition allowsHost :: "calClient \<Rightarrow> string \<Rightarrow> bool" where
  "allowsHost c host = (case cc_allowHost c of None \<Rightarrow> False | Some f \<Rightarrow> f host)"

definition validateCalendarRequestURL ::
  "'w davLib \<Rightarrow> calClient \<Rightarrow> url \<Rightarrow> string \<Rightarrow> goError option" where
  "validateCalendarRequestURL l c target scopePath =
     (if u_scheme target \<noteq> ''https'' \<or> u_host target = [] \<or> u_opaque target \<noteq> []
         \<or> u_user target \<noteq> None \<or> u_fragment target \<noteq> [] \<or> u_rawQuery target \<noteq> []
         \<or> u_forceQuery target
      then Some (newError codeProtocolError 0
                   ''Calendar DAV URL failed scheme or authority validation'' None)
      else if \<not> allowsHost c (hostname target)
      then Some (newError codeProtocolError 0
                   ''Calendar DAV URL is outside the domain allowlist'' None)
      else if isICloudHost (hostname target) \<and> \<not> portAllowed (urlPort target)
      then Some (newError codeProtocolError 0 ''Calendar DAV URL uses a disallowed port'' None)
      else if validateCalendarPath (u_escapedPath target) \<noteq> None
      then Some (newError codeProtocolError 0 ''Calendar DAV URL path is invalid'' None)
      else if scopePath = [] then None
      else if \<not> sameDAVOrigin (Some target) (dl_parse l (cc_shardBase c))
      then Some (newError codeProtocolError 0 ''Calendar DAV request left the discovered shard'' None)
      else if \<not> pathUnderHomeSet (u_escapedPath target) scopePath
      then Some (newError codeProtocolError 0
                   ''Calendar DAV request left the selected calendar collection'' None)
      else None)"

text \<open>The conditions on a server-provided href, shared by the two resolvers.\<close>

definition badHref :: "'w davLib \<Rightarrow> string \<Rightarrow> bool" where
  "badHref l href =
     (case dl_parse l href of
        None \<Rightarrow> True
      | Some ref \<Rightarrow> u_opaque ref \<noteq> [] \<or> u_user ref \<noteq> None \<or> u_rawQuery ref \<noteq> []
          \<or> u_fragment ref \<noteq> [] \<or> u_forceQuery ref \<or> containsAny href ''?#'')"

definition resolveDAVHref ::
  "'w davLib \<Rightarrow> calClient \<Rightarrow> url option \<Rightarrow> string \<Rightarrow> string \<Rightarrow> goError + url" where
  "resolveDAVHref l c base href scopePath =
     (case base of
        None \<Rightarrow> Inl (newError codeProtocolError 0 ''Calendar DAV response contains an invalid href'' None)
      | Some b \<Rightarrow>
          if href = [] \<or> 4096 < length href \<or> badHref l href
          then Inl (newError codeProtocolError 0 ''Calendar DAV response contains an invalid href'' None)
          else
            (let resolved = dl_resolve l b (the (dl_parse l href)) in
             if \<not> sameDAVOrigin (Some resolved) (Some b)
             then Inl (newError codeProtocolError 0 ''Calendar DAV href changed origin'' None)
             else case validateCalendarRequestURL l c resolved scopePath of
                    Some err \<Rightarrow> Inl err
                  | None \<Rightarrow> Inr resolved))"

definition validateDiscoveryURL :: "calClient \<Rightarrow> url \<Rightarrow> string \<Rightarrow> goError option" where
  "validateDiscoveryURL c u kind =
     (if u_scheme u \<noteq> ''https'' \<or> u_host u = [] \<or> u_opaque u \<noteq> [] \<or> u_user u \<noteq> None
         \<or> u_rawQuery u \<noteq> [] \<or> u_fragment u \<noteq> [] \<or> \<not> allowsHost c (hostname u)
      then Some (PlainError (''iCloud discovery: '' @ kind @ '' outside allowlist ('' @ hostname u @ '')''))
      else if isICloudHost (hostname u) \<and> \<not> portAllowed (urlPort u)
      then Some (PlainError (''iCloud discovery: '' @ kind @ '' port '' @ [dquote] @ urlPort u @ [dquote]
                   @ '' rejected (443 only)''))
      else if validateCalendarPath (u_escapedPath u) \<noteq> None
      then Some (newError codeProtocolError 0
                   (''iCloud discovery returned an invalid '' @ kind @ '' path'') None)
      else None)"

definition resolveDiscoveryHref ::
  "'w davLib \<Rightarrow> calClient \<Rightarrow> url option \<Rightarrow> string \<Rightarrow> string \<Rightarrow> goError + url" where
  "resolveDiscoveryHref l c base href kind =
     (let bad = Inl (newError codeProtocolError 0
                       (''iCloud discovery returned an invalid '' @ kind @ '' href'') None) in
      case base of
        None \<Rightarrow> bad
      | Some b \<Rightarrow>
          if href = [] \<or> 4096 < length href \<or> badHref l href then bad
          else
            (let resolved = dl_resolve l b (the (dl_parse l href)) in
             case validateDiscoveryURL c resolved kind of
               Some err \<Rightarrow> Inl err
             | None \<Rightarrow> Inr resolved))"

text \<open>A parse error of \<open>net/url\<close> is passed through; its text is left out.\<close>

definition resolvePathOnBase :: "'w davLib \<Rightarrow> string \<Rightarrow> string \<Rightarrow> goError + string" where
  "resolvePathOnBase l base path =
     (case validateCalendarPath path of
        Some err \<Rightarrow> Inl err
      | None \<Rightarrow>
          (case dl_parse l base of
             None \<Rightarrow> Inl (PlainError ''parse'')
           | Some b \<Rightarrow>
               if u_scheme b \<noteq> ''https'' \<or> u_host b = [] \<or> u_opaque b \<noteq> [] \<or> u_user b \<noteq> None
                  \<or> u_rawQuery b \<noteq> [] \<or> u_fragment b \<noteq> []
               then Inl (PlainError ''invalid Calendar base URL'')
               else
                 (case dl_parse l path of
                    None \<Rightarrow> Inl (PlainError ''parse'')
                  | Some r \<Rightarrow>
                      if u_scheme r \<noteq> [] \<or> u_host r \<noteq> [] \<or> u_user r \<noteq> None \<or> u_rawQuery r \<noteq> []
                         \<or> u_fragment r \<noteq> [] \<or> u_opaque r \<noteq> []
                      then Inl (PlainError ''calendar path must not include a host or scheme'')
                      else
                        (let out = dl_resolve l b r in
                         if \<not> sameDAVOrigin (Some out) (Some b)
                         then Inl (PlainError ''calendar path resolves outside base host'')
                         else Inr (dl_string l out)))))"

section \<open>doCalendarRequest\<close>

text \<open>
  What the code does with an answer of the HTTP client once it has a response: an error, a redirect
  to follow, or the response with the URL it came from.
\<close>

datatype davStep =
    Fail goError
  | Follow url
  | Answer davResponse url

definition isRedirect :: "int \<Rightarrow> bool" where
  "isRedirect status \<longleftrightarrow> status \<in> {301, 302, 307, 308}"

definition withDavBody :: "davResponse \<Rightarrow> davResponse" where
  "withDavBody resp = (case dr_body resp of None \<Rightarrow> resp\<lparr>dr_body := Some []\<rparr> | Some _ \<Rightarrow> resp)"

text \<open>Line 89 to 100: a client that followed a redirect by itself is refused.\<close>

definition followedSilently :: "'w davLib \<Rightarrow> string \<Rightarrow> url \<Rightarrow> davResponse \<Rightarrow> bool" where
  "followedSilently l meth current resp =
     (case dr_request resp of
        None \<Rightarrow> False
      | Some (None, _) \<Rightarrow> True
      | Some (Some u, m) \<Rightarrow> dl_string l u \<noteq> dl_string l current \<or> m \<noteq> meth)"

definition responseURL :: "url \<Rightarrow> davResponse \<Rightarrow> url" where
  "responseURL current resp =
     (case dr_request resp of Some (Some u, _) \<Rightarrow> u | _ \<Rightarrow> current)"

definition davAnswer ::
  "'w davLib \<Rightarrow> calClient \<Rightarrow> string \<Rightarrow> string \<Rightarrow> nat \<Rightarrow> url \<Rightarrow> davResponse \<Rightarrow> davStep" where
  "davAnswer l c meth scopePath redirects current resp =
     (let status = dr_status resp in
      if followedSilently l meth current resp
      then
        (if isCalendarMutationMethod meth then Fail (outcomeUnknownError 0)
         else Fail (newError codeProtocolError 0
                      ''the Calendar HTTP client followed an automatic redirect'' None))
      else if isCalendarMutationMethod meth \<and> status = 429 then Fail (classifyStatus status)
      else if isCalendarMutationMethod meth
              \<and> (status = 408 \<or> 500 \<le> status \<or> 300 \<le> status \<and> status < 400)
      then Fail (outcomeUnknownError status)
      else if isRedirect status
      then
        (if maxCalendarRedirects \<le> redirects \<or> dr_location resp = [] \<or> 4096 < length (dr_location resp)
         then Fail (newError codeProtocolError status
                      ''Calendar redirect limit exceeded or Location was invalid'' None)
         else case dl_parse l (dr_location resp) of
                None \<Rightarrow> Fail (newError codeProtocolError status
                               ''Calendar redirect Location was invalid'' None)
              | Some next \<Rightarrow>
                  (let resolved = dl_resolve l current next in
                   case validateCalendarRequestURL l c resolved scopePath of
                     Some err \<Rightarrow> Fail err
                   | None \<Rightarrow> Follow resolved))
      else if status = 303
      then Fail (newError codeProtocolError status ''Calendar DAV does not allow 303 redirects'' None)
      else if 300 \<le> status \<and> status < 400
      then Fail (newError codeProtocolError status
                   ''Calendar DAV received an unsupported redirect status'' None)
      else Answer (withDavBody resp) (responseURL current resp))"

text \<open>A redirect is followed only within the limit, to a URL that passed the checks.\<close>

lemma davAnswer_Follow:
  assumes "davAnswer l c meth scopePath redirects current resp = Follow u"
  shows "redirects < maxCalendarRedirects \<and> \<not> isCalendarMutationMethod meth
    \<and> validateCalendarRequestURL l c u scopePath = None"
proof -
  have "\<not> isCalendarMutationMethod meth" if "isRedirect (dr_status resp)"
    using assms that by (auto simp: davAnswer_def Let_def isRedirect_def split: if_splits)
  then show ?thesis
    using assms unfolding davAnswer_def Let_def
    by (auto split: if_splits option.splits)
qed

text \<open>The error the code returns when the HTTP client itself failed.\<close>

definition davDoError :: "string \<Rightarrow> goError \<Rightarrow> goError" where
  "davDoError meth err =
     (if isCalendarMutationMethod meth \<and> asICloudError err = None then outcomeUnknownError 0
      else if errIs err ContextCanceled \<or> errIs err DeadlineExceeded
      then calendarContextError (Some err)
      else err)"

function davLoop ::
  "'w davLib \<Rightarrow> 'w reqContext \<Rightarrow> calClient
     \<Rightarrow> (davRequest \<Rightarrow> 'w \<Rightarrow> (davResponse option \<times> goError option) \<times> 'w)
     \<Rightarrow> string \<Rightarrow> (string \<times> string) list \<Rightarrow> string option \<Rightarrow> string \<Rightarrow> nat \<Rightarrow> url \<Rightarrow> 'w
     \<Rightarrow> (goError + davResponse \<times> url) \<times> 'w" where
  "davLoop l ctx c httpDo meth headers body scopePath redirects current w =
     (case ctx_err ctx w of
        Some err \<Rightarrow> (Inl (calendarContextError (Some err)), w)
      | None \<Rightarrow>
          (case validateCalendarRequestURL l c current scopePath of
             Some err \<Rightarrow> (Inl err, w)
           | None \<Rightarrow>
               if \<not> dl_newRequest l meth (dl_string l current)
               then (Inl (newError codeInternal 0 ''failed to build a Calendar DAV request'' None), w)
               else
                 (case httpDo \<lparr>dq_method = meth, dq_url = current, dq_header = headers, dq_body = body\<rparr> w of
                    ((_, Some err), w1) \<Rightarrow> (Inl (davDoError meth err), w1)
                  | ((None, None), w1) \<Rightarrow>
                      (if isCalendarMutationMethod meth then (Inl (outcomeUnknownError 0), w1)
                       else (Inl (newError codeProtocolError 0
                               ''Calendar HTTP client returned no response'' None), w1))
                  | ((Some resp, None), w1) \<Rightarrow>
                      (case davAnswer l c meth scopePath redirects current resp of
                         Fail err \<Rightarrow> (Inl err, w1)
                       | Answer r u \<Rightarrow> (Inr (r, u), w1)
                       | Follow next \<Rightarrow>
                           davLoop l ctx c httpDo meth headers body scopePath (Suc redirects) next w1))))"
  by pat_completeness auto
termination
  by (relation "measure (\<lambda>(l, ctx, c, d, m, h, b, s, redirects, u, w). maxCalendarRedirects - redirects)")
    (auto dest: davAnswer_Follow)

declare davLoop.simps [simp del]

definition doCalendarRequest ::
  "'w davLib \<Rightarrow> 'w reqContext \<Rightarrow> calClient \<Rightarrow> string \<Rightarrow> string \<Rightarrow> (string \<times> string) list
     \<Rightarrow> string option \<Rightarrow> string \<Rightarrow> 'w \<Rightarrow> (goError + davResponse \<times> url) \<times> 'w" where
  "doCalendarRequest l ctx c meth target headers body scopePath w =
     (case dl_do l of
        None \<Rightarrow> (Inl (newError codeInternal 0 ''Calendar HTTP client is not configured'' None), w)
      | Some httpDo \<Rightarrow>
          (case dl_parse l target of
             None \<Rightarrow> (Inl (newError codeProtocolError 0 ''Calendar DAV target is invalid'' None), w)
           | Some current \<Rightarrow> davLoop l ctx c httpDo meth headers body scopePath 0 current w))"

section \<open>What reaches the wire\<close>

text \<open>
  The interface between the loop and the client below it: \<open>wire w\<close> is the list of requests handed to
  the client so far, and only a call of the client extends it.
\<close>

definition dispatchOk ::
  "'w davLib \<Rightarrow> calClient \<Rightarrow> string \<Rightarrow> (string \<times> string) list \<Rightarrow> string option \<Rightarrow> string
     \<Rightarrow> davRequest \<Rightarrow> bool" where
  "dispatchOk l c meth headers body scope rq \<longleftrightarrow>
     dq_method rq = meth \<and> dq_header rq = headers \<and> dq_body rq = body
     \<and> validateCalendarRequestURL l c (dq_url rq) scope = None"

locale wire_log =
  fixes ctx :: "'w reqContext"
    and httpDo :: "davRequest \<Rightarrow> 'w \<Rightarrow> (davResponse option \<times> goError option) \<times> 'w"
    and wire :: "'w \<Rightarrow> davRequest list"
  assumes do_logs: "httpDo rq w = (out, w') \<Longrightarrow> wire w' = wire w @ [rq]"
begin

text \<open>One pass: nothing sent, or one request sent and the loop returns or follows a redirect.\<close>

lemma davLoop_step:
  assumes "davLoop l ctx c httpDo meth headers body scope redirects current w = (out, w')"
  obtains "w' = w"
  | rq w1 where "dispatchOk l c meth headers body scope rq" "wire w1 = wire w @ [rq]" "w' = w1"
  | rq w1 nxt where "dispatchOk l c meth headers body scope rq" "wire w1 = wire w @ [rq]"
      "redirects < maxCalendarRedirects" "\<not> isCalendarMutationMethod meth"
      "davLoop l ctx c httpDo meth headers body scope (Suc redirects) nxt w1 = (out, w')"
proof (cases "ctx_err ctx w = None \<and> validateCalendarRequestURL l c current scope = None
    \<and> dl_newRequest l meth (dl_string l current)")
  case False
  then have "w' = w"
    using assms by (auto simp: davLoop.simps [of l ctx c httpDo meth] split: option.splits if_splits)
  then show thesis by (rule that(1))
next
  case True
  let ?rq = "\<lparr>dq_method = meth, dq_url = current, dq_header = headers, dq_body = body\<rparr>"
  obtain resp err w1 where d: "httpDo ?rq w = ((resp, err), w1)" by (metis surj_pair)
  have ok: "dispatchOk l c meth headers body scope ?rq" using True by (simp add: dispatchOk_def)
  note logged = do_logs [OF d]
  show thesis
  proof (cases "\<exists>x nxt. err = None \<and> resp = Some x
      \<and> davAnswer l c meth scope redirects current x = Follow nxt")
    case True2: True
    then obtain x nxt where x: "err = None" "resp = Some x"
      "davAnswer l c meth scope redirects current x = Follow nxt" by blast
    from davAnswer_Follow [OF x(3)] ok logged show thesis
      using assms True d x
      by (intro that(3) [OF ok logged]) (auto simp: davLoop.simps [of l ctx c httpDo meth _ _ _ redirects])
  next
    case False
    then have "w' = w1"
      using assms True d
      by (auto simp: davLoop.simps [of l ctx c httpDo meth] split: option.splits if_splits davStep.splits)
    with ok logged show thesis by (rule that(2))
  qed
qed

lemma davLoop_wire:
  assumes "davLoop l ctx c httpDo meth headers body scope redirects current w = (out, w')"
    and "redirects \<le> maxCalendarRedirects"
  shows "\<exists>rqs. wire w' = wire w @ rqs \<and> (\<forall>rq \<in> set rqs. dispatchOk l c meth headers body scope rq)
    \<and> length rqs \<le> (if isCalendarMutationMethod meth then 1 else maxCalendarRedirects + 1 - redirects)"
  using assms
proof (induction "maxCalendarRedirects - redirects" arbitrary: redirects current w rule: less_induct)
  case less
  from less.prems(1) show ?case
  proof (cases rule: davLoop_step)
    case 1
    then show ?thesis by simp
  next
    case (2 rq w1)
    then have "wire w' = wire w @ [rq]" by simp
    with 2(1) less.prems(2) show ?thesis by (intro exI [of _ "[rq]"]) auto
  next
    case (3 rq w1 nxt)
    have "maxCalendarRedirects - Suc redirects < maxCalendarRedirects - redirects"
      "Suc redirects \<le> maxCalendarRedirects" using 3(3) by linarith+
    from less.hyps [OF this(1) 3(5) this(2)] 3(4) obtain rqs where
      "wire w' = wire w1 @ rqs" "\<forall>rq \<in> set rqs. dispatchOk l c meth headers body scope rq"
      "length rqs \<le> maxCalendarRedirects + 1 - Suc redirects" by auto
    with 3 show ?thesis by (intro exI [of _ "rq # rqs"]) auto
  qed
qed

end

text \<open>Any client can be watched: the log rides beside the world.\<close>

definition loggedDo ::
  "(davRequest \<Rightarrow> 'w \<Rightarrow> (davResponse option \<times> goError option) \<times> 'w)
     \<Rightarrow> davRequest \<Rightarrow> 'w \<times> davRequest list \<Rightarrow> (davResponse option \<times> goError option) \<times> 'w \<times> davRequest list" where
  "loggedDo f rq m = (case m of (w, log) \<Rightarrow> (case f rq w of (out, w') \<Rightarrow> (out, (w', log @ [rq]))))"

interpretation wired: wire_log ctx "loggedDo f" snd
  for ctx :: "('w \<times> davRequest list) reqContext"
    and f :: "davRequest \<Rightarrow> 'w \<Rightarrow> (davResponse option \<times> goError option) \<times> 'w"
  by unfold_locales (auto simp: loggedDo_def split: prod.splits)

lemma validateCalendarRequestURL_None:
  assumes "validateCalendarRequestURL l c u scope = None"
  shows "u_scheme u = ''https''" "u_user u = None" "u_rawQuery u = []" "u_fragment u = []"
    and "allowsHost c (hostname u)" "isICloudHost (hostname u) \<longrightarrow> portAllowed (urlPort u)"
    and "validateCalendarPath (u_escapedPath u) = None"
    and "scope \<noteq> [] \<longrightarrow> sameDAVOrigin (Some u) (dl_parse l (cc_shardBase c))
           \<and> pathUnderHomeSet (u_escapedPath u) scope"
  using assms unfolding validateCalendarRequestURL_def by (simp_all split: if_splits)

text \<open>
  C12. No Calendar request leaves the selected collection, redirects included. Whatever the server
  answers and however URLs are parsed and resolved, every request handed to the HTTP client goes
  over https to an allowlisted host (on port 443 for iCloud hosts), carries the original method,
  headers and body, has a validated path and, within a scope, stays on the discovered shard and
  under the selected collection; at most four are sent, and at most one for a mutation.
\<close>

theorem calendar_requests_confined:
  assumes "dl_do l = Some (loggedDo f)"
    and "doCalendarRequest l ctx c meth target headers body scope (w, []) = (out, (w', sent))"
  shows "length sent \<le> (if isCalendarMutationMethod meth then 1 else 4)
    \<and> (\<forall>rq \<in> set sent. dq_method rq = meth \<and> dq_header rq = headers \<and> dq_body rq = body
         \<and> u_scheme (dq_url rq) = ''https'' \<and> allowsHost c (hostname (dq_url rq))
         \<and> (isICloudHost (hostname (dq_url rq)) \<longrightarrow> portAllowed (urlPort (dq_url rq)))
         \<and> validateCalendarPath (u_escapedPath (dq_url rq)) = None
         \<and> (scope \<noteq> [] \<longrightarrow> sameDAVOrigin (Some (dq_url rq)) (dl_parse l (cc_shardBase c))
               \<and> pathUnderHomeSet (u_escapedPath (dq_url rq)) scope))"
proof (cases "dl_parse l target")
  case None
  then show ?thesis using assms by (simp add: doCalendarRequest_def)
next
  case (Some current)
  then have "davLoop l ctx c (loggedDo f) meth headers body scope 0 current (w, []) = (out, (w', sent))"
    using assms by (simp add: doCalendarRequest_def)
  from wired.davLoop_wire [OF this]
  have "length sent \<le> (if isCalendarMutationMethod meth then 1 else 4)"
    and ok: "\<forall>rq \<in> set sent. dispatchOk l c meth headers body scope rq"
    by (auto simp: maxCalendarRedirects_def)
  moreover have "dispatchOk l c meth headers body scope rq \<Longrightarrow>
      dq_method rq = meth \<and> dq_header rq = headers \<and> dq_body rq = body
         \<and> u_scheme (dq_url rq) = ''https'' \<and> allowsHost c (hostname (dq_url rq))
         \<and> (isICloudHost (hostname (dq_url rq)) \<longrightarrow> portAllowed (urlPort (dq_url rq)))
         \<and> validateCalendarPath (u_escapedPath (dq_url rq)) = None
         \<and> (scope \<noteq> [] \<longrightarrow> sameDAVOrigin (Some (dq_url rq)) (dl_parse l (cc_shardBase c))
               \<and> pathUnderHomeSet (u_escapedPath (dq_url rq)) scope)" for rq
    unfolding dispatchOk_def using validateCalendarRequestURL_None [of l c "dq_url rq" scope] by simp
  ultimately show ?thesis by blast
qed

text \<open>A shard that redirects every request to an object elsewhere.\<close>

definition sampleURL :: "string \<Rightarrow> string \<Rightarrow> url" where
  "sampleURL host path =
     \<lparr>u_scheme = ''https'', u_opaque = [], u_user = None, u_host = host, u_escapedPath = path,
      u_forceQuery = False, u_rawQuery = [], u_fragment = []\<rparr>"

definition redirectingDo :: "davRequest \<Rightarrow> unit \<Rightarrow> (davResponse option \<times> goError option) \<times> unit" where
  "redirectingDo rq w =
     ((Some \<lparr>dr_status = 302, dr_location = ''e'', dr_request = None, dr_body = None\<rparr>, None), w)"

definition sampleLib :: "(unit \<times> davRequest list) davLib" where
  "sampleLib =
     \<lparr>dl_parse = (\<lambda>s. if s = ''e'' then Some (sampleURL ''evil.example'' ''/x'')
                      else Some (sampleURL ''p1-caldav.icloud.com:443'' s)),
      dl_resolve = (\<lambda>_ ref. ref), dl_string = u_escapedPath, dl_newRequest = (\<lambda>_ _. True),
      dl_do = Some (loggedDo redirectingDo)\<rparr>"

theorem calendar_requests_confined_witness:
  "doCalendarRequest sampleLib patientContext (newClient ''/'' (Some isICloudHost)) ''GET'' ''/cal/a.ics''
     [] None ''/cal/'' ((), [])
   = (Inl (newError codeProtocolError 0 ''Calendar DAV URL is outside the domain allowlist'' None),
      ((), [\<lparr>dq_method = ''GET'', dq_url = sampleURL ''p1-caldav.icloud.com:443'' ''/cal/a.ics'',
             dq_header = [], dq_body = None\<rparr>]))
   \<and> pathUnderHomeSet ''/cal/a.ics'' ''/cal/''"
proof -
  let ?rq = "\<lparr>dq_method = ''GET'', dq_url = sampleURL ''p1-caldav.icloud.com:443'' ''/cal/a.ics'',
             dq_header = [], dq_body = None\<rparr>"
  have d: "dl_do sampleLib = Some (loggedDo redirectingDo)" by (simp add: sampleLib_def)
  have run: "doCalendarRequest sampleLib patientContext (newClient ''/'' (Some isICloudHost)) ''GET''
      ''/cal/a.ics'' [] None ''/cal/'' ((), [])
    = (Inl (newError codeProtocolError 0 ''Calendar DAV URL is outside the domain allowlist'' None),
       ((), [?rq]))" by code_simp
  have "u_escapedPath (dq_url ?rq) = ''/cal/a.ics''" by (simp add: sampleURL_def)
  with calendar_requests_confined [OF d run] run show ?thesis by simp
qed

end
