(* ===== verification/Idempotency.thy ===== *)
theory Idempotency
  imports Go_Errors
begin

text \<open>
  \<open>internal/mcptools/idempotency.go\<close>: the process-local store that makes a mutating tool call with an
  \<open>idempotency_key\<close> happen at most once. Entries are shared by pointer (a waiter keeps its entry after
  the map dropped it), so the store is a map from keys to addresses and a heap from addresses to
  entries. Every critical section is one function; a transition system interleaves the critical
  sections of any number of callers, with a clock that only moves forward, and records what an
  observer sees: claims, completions and replays. Instants are nanoseconds, and the
  zero \<open>time.Time\<close> is \<open>None\<close>.
\<close>

section \<open>The store\<close>

definition idempotencyTTL :: duration where "idempotencyTTL = 15 * minute"
definition maxIdempotencyEntries :: nat where "maxIdempotencyEntries = 1024"
definition maxIdempotencyPayload :: nat where "maxIdempotencyPayload = 262144"
definition maxIdempotencyKeyBytes :: nat where "maxIdempotencyKeyBytes = 512"

record 's idempotencyOutcome =
  io_payload :: string
  io_structured :: "'s option"
  io_isError :: bool

text \<open>\<open>ie_done\<close> says that the channel \<open>done\<close> is closed.\<close>

record 's idempotencyEntry =
  ie_paramsHash :: string
  ie_outcome :: "'s idempotencyOutcome"
  ie_expires :: "int option"
  ie_pending :: bool
  ie_done :: bool

record 's idempotencyStore =
  is_entries :: "(string \<times> nat) list"
  is_heap :: "'s idempotencyEntry list"

definition newIdempotencyStore :: "'s idempotencyStore" where
  "newIdempotencyStore = \<lparr>is_entries = [], is_heap = []\<rparr>"

definition emptyOutcome :: "'s idempotencyOutcome" where
  "emptyOutcome = \<lparr>io_payload = [], io_structured = None, io_isError = False\<rparr>"

definition namespacedIdempotencyKey :: "string \<Rightarrow> string \<Rightarrow> string" where
  "namespacedIdempotencyKey tool key = (if tool = [] \<or> key = [] then [] else tool @ [nul] @ key)"

text \<open>\<open>hashIdempotencyParams\<close>, over the JSON encoder and the digest.\<close>

definition hashIdempotencyParams :: "('v \<Rightarrow> string option) \<Rightarrow> (string \<Rightarrow> string) \<Rightarrow> 'v \<Rightarrow> string option" where
  "hashIdempotencyParams marshal sha256 v =
     (case marshal v of
        None \<Rightarrow> None
      | Some b \<Rightarrow> Some (concat (map (\<lambda>c. [hexDigit lowerHex (bval c div 16), hexDigit lowerHex (bval c mod 16)])
                          (sha256 b))))"

definition expired :: "int \<Rightarrow> 's idempotencyEntry \<Rightarrow> bool" where
  "expired now e \<longleftrightarrow> \<not> ie_pending e \<and> (case ie_expires e of None \<Rightarrow> False | Some t \<Rightarrow> t \<le> now)"

definition purgeLocked :: "int \<Rightarrow> 's idempotencyStore \<Rightarrow> 's idempotencyStore" where
  "purgeLocked now s =
     s\<lparr>is_entries := filter (\<lambda>(k, r). \<not> expired now (is_heap s ! r)) (is_entries s)\<rparr>"

text \<open>
  One pass of the loop of \<open>beginContext\<close>, from \<open>Lock\<close> to \<open>Unlock\<close>; \<open>cancelled\<close> is \<open>ctx.Err() != nil\<close>.
\<close>

datatype 's decision =
    Refuse
  | Conflict
  | Hit "'s idempotencyOutcome"
  | Wait nat
  | Claim nat

definition beginLocked ::
  "bool \<Rightarrow> int \<Rightarrow> string \<Rightarrow> string \<Rightarrow> 's idempotencyStore \<Rightarrow> 's decision \<times> 's idempotencyStore" where
  "beginLocked cancelled now key paramsHash s0 =
     (if cancelled then (Refuse, s0)
      else
        (let s = purgeLocked now s0 in
         case map_of (is_entries s) key of
           Some r \<Rightarrow>
             (let entry = is_heap s ! r in
              if \<not> ie_pending entry
              then (if ie_paramsHash entry \<noteq> paramsHash then (Conflict, s) else (Hit (ie_outcome entry), s))
              else (if ie_paramsHash entry \<noteq> paramsHash then (Conflict, s) else (Wait r, s)))
         | None \<Rightarrow>
             if maxIdempotencyEntries \<le> length (is_entries s) then (Refuse, s)
             else
               (let r = length (is_heap s) in
                (Claim r,
                 \<lparr>is_entries = (key, r) # is_entries s,
                  is_heap = is_heap s @ [\<lparr>ie_paramsHash = paramsHash, ie_outcome = emptyOutcome,
                     ie_expires = None, ie_pending = True, ie_done = False\<rparr>]\<rparr>))))"

text \<open>The guard at the top of \<open>beginContext\<close>.\<close>

definition validClaim :: "string \<Rightarrow> string \<Rightarrow> bool" where
  "validClaim key paramsHash \<longleftrightarrow>
     \<not> (key = [] \<or> paramsHash = [] \<or> maxIdempotencyKeyBytes < length key)"

text \<open>
  \<open>complete\<close>. A tool result is its list of content blocks (the text, or \<open>None\<close> for another kind),
  the structured content and the error flag; no result at all is a nil pointer.
\<close>

record 's callResult =
  cr_content :: "string option list"
  cr_structured :: "'s option"
  cr_isError :: bool

definition unrecordedOutcome :: "'s idempotencyOutcome" where
  "unrecordedOutcome =
     \<lparr>io_payload = ''{'' @ [dquote] @ ''code'' @ [dquote] @ '':'' @ [dquote] @ ''outcome_unknown'' @ [dquote]
        @ '','' @ [dquote] @ ''message'' @ [dquote] @ '':'' @ [dquote]
        @ ''The mutation outcome could not be recorded.'' @ [dquote] @ '','' @ [dquote]
        @ ''reconciliation'' @ [dquote] @ '':'' @ [dquote]
        @ ''Read the resource before using a new idempotency key.'' @ [dquote] @ ''}'',
      io_structured = None, io_isError = True\<rparr>"

definition recordedOutcome :: "'s callResult option \<Rightarrow> 's idempotencyOutcome \<times> bool" where
  "recordedOutcome result =
     (case result of
        None \<Rightarrow> (unrecordedOutcome, False)
      | Some res \<Rightarrow>
          (case cr_content res of
             [Some text] \<Rightarrow>
               if text \<noteq> [] \<and> length text \<le> maxIdempotencyPayload
               then (\<lparr>io_payload = text, io_structured = cr_structured res,
                      io_isError = cr_isError res\<rparr>, True)
               else (unrecordedOutcome, False)
           | _ \<Rightarrow> (unrecordedOutcome, False)))"

definition completeStore ::
  "int \<Rightarrow> string \<Rightarrow> string \<Rightarrow> 's callResult option \<Rightarrow> bool \<Rightarrow> 's idempotencyStore \<Rightarrow> 's idempotencyStore" where
  "completeStore now key paramsHash result retain s =
     (if key = [] \<or> paramsHash = [] then s
      else
        (let (outcome, valid) = recordedOutcome result in
         case map_of (is_entries s) key of
           None \<Rightarrow> s
         | Some r \<Rightarrow>
             (let entry = is_heap s ! r in
              if \<not> ie_pending entry \<or> ie_paramsHash entry \<noteq> paramsHash then s
              else s\<lparr>is_heap := (is_heap s)[r := entry\<lparr>ie_outcome := outcome, ie_pending := False,
                     ie_expires := (if valid \<and> \<not> retain then Some (now + idempotencyTTL)
                                    else ie_expires entry),
                     ie_done := True\<rparr>]\<rparr>)))"

section \<open>Callers\<close>

text \<open>
  A caller is trying to claim a key, waiting on an entry, owning a claim (it alone runs the mutation)
  or finished. \<open>Completed\<close> records the expiry instant, or \<open>None\<close> for an outcome kept until exit.
\<close>

datatype 's phase =
    Idle
  | Trying string string
  | Waiting string string nat
  | Owning string string nat
  | Finished

datatype 's event =
    Claimed string string int nat
  | Completed string nat int "'s idempotencyOutcome" "int option"
  | Replayed string string "'s idempotencyOutcome"

record 's system =
  sy_store :: "'s idempotencyStore"
  sy_phase :: "nat \<Rightarrow> 's phase"
  sy_now :: int
  sy_log :: "'s event list"

definition initialSystem :: "int \<Rightarrow> 's system" where
  "initialSystem t =
     \<lparr>sy_store = newIdempotencyStore, sy_phase = (\<lambda>_. Idle), sy_now = t, sy_log = []\<rparr>"

text \<open>What a decision of the critical section does to the caller, and what it shows.\<close>

definition afterBegin :: "string \<Rightarrow> string \<Rightarrow> int \<Rightarrow> 's decision \<Rightarrow> 's phase \<times> 's event list" where
  "afterBegin key h now d =
     (case d of
        Refuse \<Rightarrow> (Finished, [])
      | Conflict \<Rightarrow> (Finished, [])
      | Hit o' \<Rightarrow> (Finished, [Replayed key h o'])
      | Wait r \<Rightarrow> (Waiting key h r, [])
      | Claim r \<Rightarrow> (Owning key h r, [Claimed key h now r]))"

inductive systemStep :: "'s system \<Rightarrow> 's system \<Rightarrow> bool" where
  tick: "sy_now s \<le> t \<Longrightarrow> systemStep s (s\<lparr>sy_now := t\<rparr>)"
| arrive: "sy_phase s c \<in> {Idle, Finished} \<Longrightarrow> validClaim key h \<Longrightarrow>
    systemStep s (s\<lparr>sy_phase := (sy_phase s)(c := Trying key h)\<rparr>)"
| enter: "sy_phase s c = Trying key h \<Longrightarrow>
    beginLocked cancelled (sy_now s) key h (sy_store s) = (d, store') \<Longrightarrow>
    afterBegin key h (sy_now s) d = (p, evs) \<Longrightarrow>
    systemStep s (s\<lparr>sy_store := store', sy_phase := (sy_phase s)(c := p), sy_log := evs @ sy_log s\<rparr>)"
| wake: "sy_phase s c = Waiting key h r \<Longrightarrow> ie_done (is_heap (sy_store s) ! r) \<Longrightarrow>
    entry = is_heap (sy_store s) ! r \<Longrightarrow>
    (p, evs) = (if cancelled then (Finished, [])
                else if \<not> ie_pending entry then (Finished, [Replayed key h (ie_outcome entry)])
                else (Trying key h, [])) \<Longrightarrow>
    systemStep s (s\<lparr>sy_phase := (sy_phase s)(c := p), sy_log := evs @ sy_log s\<rparr>)"
| giveUp: "sy_phase s c = Waiting key h r \<Longrightarrow>
    systemStep s (s\<lparr>sy_phase := (sy_phase s)(c := Finished)\<rparr>)"
| finish: "sy_phase s c = Owning key h r \<Longrightarrow>
    recordedOutcome result = (out, valid) \<Longrightarrow>
    systemStep s (s\<lparr>sy_store := completeStore (sy_now s) key h result retain (sy_store s),
      sy_phase := (sy_phase s)(c := Finished),
      sy_log := Completed key r (sy_now s) out
        (if valid \<and> \<not> retain then Some (sy_now s + idempotencyTTL) else None) # sy_log s\<rparr>)"

inductive_cases systemStep_cases: "systemStep s s'"

inductive reachable :: "'s system \<Rightarrow> bool" where
  start: "reachable (initialSystem t)"
| step: "reachable s \<Longrightarrow> systemStep s s' \<Longrightarrow> reachable s'"

section \<open>The contract\<close>

text \<open>
  The observable contract, on a log with the newest event first: a key is claimed again only after
  the previous claim was completed with a known outcome whose 15 minutes are over; a completion
  belongs to a claim; a replay repeats the outcome of a completed claim with the same key and the
  same parameters.
\<close>

fun lastClaim :: "'s event list \<Rightarrow> string \<Rightarrow> nat option" where
  "lastClaim [] k = None"
| "lastClaim (Claimed k' h t r # l) k = (if k' = k then Some r else lastClaim l k)"
| "lastClaim (_ # l) k = lastClaim l k"

fun contract :: "'s event list \<Rightarrow> bool" where
  "contract [] \<longleftrightarrow> True"
| "contract (Claimed k h t r # l) \<longleftrightarrow> contract l
     \<and> (case lastClaim l k of None \<Rightarrow> True
        | Some r' \<Rightarrow> \<exists>tc out. Completed k r' tc out (Some (tc + idempotencyTTL)) \<in> set l
                       \<and> tc + idempotencyTTL \<le> t)"
| "contract (Completed k r t out e # l) \<longleftrightarrow> contract l \<and> (\<exists>h t'. Claimed k h t' r \<in> set l)
     \<and> (\<nexists>t' out' e'. Completed k r t' out' e' \<in> set l)"
| "contract (Replayed k h out # l) \<longleftrightarrow> contract l
     \<and> (\<exists>r t t' e. Claimed k h t r \<in> set l \<and> Completed k r t' out e \<in> set l)"

section \<open>Invariants\<close>

definition storeInv :: "'s idempotencyStore \<Rightarrow> bool" where
  "storeInv s \<longleftrightarrow>
     distinct (map fst (is_entries s)) \<and> (\<forall>(k, r) \<in> set (is_entries s). r < length (is_heap s))
     \<and> length (is_entries s) \<le> maxIdempotencyEntries
     \<and> (\<forall>e \<in> set (is_heap s). (ie_done e \<longleftrightarrow> \<not> ie_pending e) \<and> (ie_pending e \<longrightarrow> ie_expires e = None))"

text \<open>Every address was claimed once, and the heap agrees with the log about what became of it.\<close>

definition entryLogged :: "'s idempotencyEntry \<Rightarrow> string \<Rightarrow> nat \<Rightarrow> 's event list \<Rightarrow> bool" where
  "entryLogged e k r log \<longleftrightarrow>
     (if ie_pending e then \<forall>k' t' out x. Completed k' r t' out x \<notin> set log
      else \<exists>t'. Completed k r t' (ie_outcome e) (ie_expires e) \<in> set log
             \<and> (ie_expires e \<noteq> None \<longrightarrow> ie_expires e = Some (t' + idempotencyTTL)))"

definition heapLogged :: "'s idempotencyEntry list \<Rightarrow> 's event list \<Rightarrow> bool" where
  "heapLogged heap log \<longleftrightarrow>
     (\<forall>k h t r. Claimed k h t r \<in> set log \<longrightarrow>
        r < length heap \<and> ie_paramsHash (heap ! r) = h \<and> entryLogged (heap ! r) k r log)
     \<and> (\<forall>k r t out e. Completed k r t out e \<in> set log \<longrightarrow> r < length heap)
     \<and> (\<forall>k k' h h' t t' r. Claimed k h t r \<in> set log \<longrightarrow> Claimed k' h' t' r \<in> set log \<longrightarrow> k = k')"

lemma entryLogged_other [simp]:
  "entryLogged e k r (Claimed k' h t r' # log) = entryLogged e k r log"
  "entryLogged e k r (Replayed k' h out # log) = entryLogged e k r log"
  "r \<noteq> r' \<Longrightarrow> entryLogged e k r (Completed k' r' t out x # log) = entryLogged e k r log"
  by (simp_all add: entryLogged_def)

lemma heapLoggedD:
  assumes "heapLogged heap log" and "Claimed k h t r \<in> set log"
  shows "r < length heap" "ie_paramsHash (heap ! r) = h" "entryLogged (heap ! r) k r log"
  using assms unfolding heapLogged_def by blast+

lemma heapLogged_completed: "heapLogged heap log \<Longrightarrow> Completed k r t out e \<in> set log \<Longrightarrow> r < length heap"
  unfolding heapLogged_def by blast

lemma heapLogged_key:
  "heapLogged heap log \<Longrightarrow> Claimed k h t r \<in> set log \<Longrightarrow> Claimed k' h' t' r \<in> set log \<Longrightarrow> k = k'"
  unfolding heapLogged_def by blast

definition entriesLogged :: "(string \<times> nat) list \<Rightarrow> 's event list \<Rightarrow> int \<Rightarrow> bool" where
  "entriesLogged entries log now \<longleftrightarrow>
     (\<forall>k r. map_of entries k = Some r \<longrightarrow> lastClaim log k = Some r \<and> (\<exists>h t. Claimed k h t r \<in> set log))
     \<and> (\<forall>k r. map_of entries k = None \<longrightarrow> lastClaim log k = Some r \<longrightarrow>
          (\<exists>tc out. Completed k r tc out (Some (tc + idempotencyTTL)) \<in> set log
             \<and> tc + idempotencyTTL \<le> now))"

definition phaseInv :: "'s idempotencyStore \<Rightarrow> 's event list \<Rightarrow> (nat \<Rightarrow> 's phase) \<Rightarrow> bool" where
  "phaseInv s log phase \<longleftrightarrow>
     (\<forall>c k h r. phase c = Owning k h r \<longrightarrow> validClaim k h \<and> map_of (is_entries s) k = Some r
        \<and> ie_pending (is_heap s ! r) \<and> (\<exists>t. Claimed k h t r \<in> set log))
     \<and> (\<forall>c k h r. phase c = Waiting k h r \<longrightarrow> validClaim k h \<and> (\<exists>t. Claimed k h t r \<in> set log))
     \<and> (\<forall>c k h. phase c = Trying k h \<longrightarrow> validClaim k h)
     \<and> (\<forall>c c' k h r h' r'. phase c = Owning k h r \<longrightarrow> phase c' = Owning k h' r' \<longrightarrow> c = c')"

definition systemInv :: "'s system \<Rightarrow> bool" where
  "systemInv s \<longleftrightarrow> storeInv (sy_store s) \<and> heapLogged (is_heap (sy_store s)) (sy_log s)
     \<and> entriesLogged (is_entries (sy_store s)) (sy_log s) (sy_now s)
     \<and> phaseInv (sy_store s) (sy_log s) (sy_phase s) \<and> contract (sy_log s)"

lemma map_of_filter_entries:
  assumes "distinct (map fst xs)"
  shows "map_of (filter (\<lambda>(k, r). P r) xs) k = (case map_of xs k of None \<Rightarrow> None
    | Some r \<Rightarrow> if P r then Some r else None)"
  using assms by (induction xs) (auto simp: map_of_eq_None_iff rev_image_eqI split: option.splits)

lemma purge_entries:
  assumes "storeInv s"
  shows "map_of (is_entries (purgeLocked now s)) k = (case map_of (is_entries s) k of None \<Rightarrow> None
    | Some r \<Rightarrow> if expired now (is_heap s ! r) then None else Some r)"
  using assms map_of_filter_entries [of "is_entries s" "\<lambda>r. \<not> expired now (is_heap s ! r)"]
  by (simp add: purgeLocked_def storeInv_def split: option.splits)

lemma purge_heap [simp]: "is_heap (purgeLocked now s) = is_heap s"
  by (simp add: purgeLocked_def)

lemma purge_storeInv: "storeInv s \<Longrightarrow> storeInv (purgeLocked now s)"
  unfolding storeInv_def purgeLocked_def
  by (auto simp: distinct_map_filter intro: le_trans [OF length_filter_le])

lemma purge_entriesLogged:
  assumes "storeInv s" and "heapLogged (is_heap s) log" and "entriesLogged (is_entries s) log now"
  shows "entriesLogged (is_entries (purgeLocked now s)) log now"
  unfolding entriesLogged_def
proof (intro conjI allI impI)
  fix k r
  assume "map_of (is_entries (purgeLocked now s)) k = Some r"
  then have "map_of (is_entries s) k = Some r"
    using purge_entries [OF assms(1)] by (simp split: option.splits if_splits)
  then show "lastClaim log k = Some r" and "\<exists>h t. Claimed k h t r \<in> set log"
    using assms(3) by (auto simp: entriesLogged_def)
next
  fix k r
  assume none: "map_of (is_entries (purgeLocked now s)) k = None" and last: "lastClaim log k = Some r"
  show "\<exists>tc out. Completed k r tc out (Some (tc + idempotencyTTL)) \<in> set log
      \<and> tc + idempotencyTTL \<le> now"
  proof (cases "map_of (is_entries s) k")
    case None
    then show ?thesis using assms(3) last by (auto simp: entriesLogged_def)
  next
    case (Some r')
    then have r': "r' = r" "\<exists>h t. Claimed k h t r \<in> set log"
      using assms(3) last by (auto simp: entriesLogged_def)
    have "expired now (is_heap s ! r)"
      using none Some r'(1) purge_entries [OF assms(1)] by (simp split: if_splits)
    then obtain e where "\<not> ie_pending (is_heap s ! r)" "ie_expires (is_heap s ! r) = Some e" "e \<le> now"
      by (auto simp: expired_def split: option.splits)
    moreover obtain h t where "Claimed k h t r \<in> set log" using r'(2) by blast
    ultimately show ?thesis using heapLoggedD(3) [OF assms(2)] unfolding entryLogged_def by fastforce
  qed
qed

lemma purge_phaseInv:
  assumes "storeInv s" and "phaseInv s log phase"
  shows "phaseInv (purgeLocked now s) log phase"
  using assms(2) purge_entries [OF assms(1)]
  unfolding phaseInv_def by (auto simp: expired_def)

text \<open>The invariant after each kind of step.\<close>

lemma inv_initial: "systemInv (initialSystem t)"
  by (simp add: systemInv_def initialSystem_def newIdempotencyStore_def storeInv_def heapLogged_def
      entriesLogged_def phaseInv_def)

lemma inv_tick: "systemInv s \<Longrightarrow> sy_now s \<le> t \<Longrightarrow> systemInv (s\<lparr>sy_now := t\<rparr>)"
  unfolding systemInv_def entriesLogged_def by (auto intro: order_trans) (meson order_trans)

lemma phaseInv_update:
  assumes "phaseInv s log phase" and "p \<in> {Idle, Finished} \<or> (\<exists>k h. p = Trying k h \<and> validClaim k h)"
  shows "phaseInv s log (phase(c := p))"
  using assms unfolding phaseInv_def by auto

lemma inv_phase_only:
  assumes "systemInv s" and "p \<in> {Idle, Finished} \<or> (\<exists>k h. p = Trying k h \<and> validClaim k h)"
  shows "systemInv (s\<lparr>sy_phase := (sy_phase s)(c := p)\<rparr>)"
  using assms by (simp add: systemInv_def phaseInv_update)

lemma replay_mono:
  shows "heapLogged heap log \<Longrightarrow> heapLogged heap (Replayed k h out # log)"
    and "entriesLogged entries log now \<Longrightarrow> entriesLogged entries (Replayed k h out # log) now"
    and "phaseInv s log phase \<Longrightarrow> phaseInv s (Replayed k h out # log) phase"
  by (simp_all add: heapLogged_def entriesLogged_def phaseInv_def)

text \<open>A replay is justified by the completed claim of the entry it reads.\<close>

lemma replay_contract:
  assumes "heapLogged heap log" and "contract log" and "Claimed k h t r \<in> set log"
    and "\<not> ie_pending (heap ! r)"
  shows "contract (Replayed k h (ie_outcome (heap ! r)) # log)"
  using heapLoggedD(3) [OF assms(1,3)] assms(2-4) unfolding entryLogged_def by auto

lemma claim_heapLogged:
  assumes "heapLogged heap log" and "ie_pending e" and "ie_paramsHash e = h"
  shows "heapLogged (heap @ [e]) (Claimed k h t (length heap) # log)"
proof -
  note old = heapLoggedD(1) [OF assms(1)] and comp = heapLogged_completed [OF assms(1)]
  show ?thesis
    unfolding heapLogged_def
  proof (intro conjI allI impI, goal_cases)
    case (1 k' h' t' r)
    then show ?case using old by (force simp: less_Suc_eq)
  next
    case (2 k' h' t' r)
    then show ?case using old assms heapLoggedD(2) [OF assms(1)] by (fastforce simp: nth_append)
  next
    case (3 k' h' t' r)
    show ?case
    proof (cases "Claimed k' h' t' r \<in> set log")
      case True
      from old [OF True] heapLoggedD(3) [OF assms(1) True] show ?thesis
        by (simp add: nth_append)
    next
      case False
      then show ?thesis using 3 comp assms(2) by (fastforce simp: entryLogged_def)
    qed
  next
    case (4 k' r t' o' x)
    then show ?case using comp by (force simp: less_Suc_eq)
  next
    case (5 k1 k2 h1 h2 t1 t2 r)
    then show ?case using old heapLogged_key [OF assms(1)] by (metis event.inject(1) less_irrefl set_ConsD)
  qed
qed

lemma claim_entriesLogged:
  assumes "entriesLogged entries log now"
  shows "entriesLogged ((key, r) # entries) (Claimed key h t r # log) now"
  using assms unfolding entriesLogged_def by auto

lemma phaseInvD:
  assumes "phaseInv s log phase"
  shows "phase c = Owning k h r \<Longrightarrow> validClaim k h \<and> map_of (is_entries s) k = Some r
        \<and> ie_pending (is_heap s ! r) \<and> (\<exists>t. Claimed k h t r \<in> set log)"
    and "phase c = Waiting k h r \<Longrightarrow> validClaim k h \<and> (\<exists>t. Claimed k h t r \<in> set log)"
    and "phase c = Trying k h \<Longrightarrow> validClaim k h"
    and "phase c = Owning k h r \<Longrightarrow> phase c' = Owning k h' r' \<Longrightarrow> c = c'"
  using assms unfolding phaseInv_def by blast+

lemma phaseInv_mono:
  assumes "phaseInv s log phase" and "set log \<subseteq> set log'" and "is_entries s' = is_entries s"
    and "\<And>c k h r. phase c = Owning k h r \<Longrightarrow> ie_pending (is_heap s' ! r)"
  shows "phaseInv s' log' phase"
proof -
  have "validClaim k h \<and> map_of (is_entries s') k = Some r \<and> ie_pending (is_heap s' ! r)
      \<and> (\<exists>t. Claimed k h t r \<in> set log')" if "phase c = Owning k h r" for c k h r
    using phaseInvD(1) [OF assms(1) that] assms(2,3) assms(4) [OF that] by auto
  moreover have "validClaim k h \<and> (\<exists>t. Claimed k h t r \<in> set log')" if "phase c = Waiting k h r" for c k h r
    using phaseInvD(2) [OF assms(1) that] assms(2) by auto
  moreover have "validClaim k h" if "phase c = Trying k h" for c k h
    by (rule phaseInvD(3) [OF assms(1) that])
  moreover have "c = c'" if "phase c = Owning k h r" "phase c' = Owning k h' r'" for c c' k h r h' r'
    by (rule phaseInvD(4) [OF assms(1) that])
  ultimately show ?thesis unfolding phaseInv_def by (intro conjI allI impI) blast+
qed

lemma claim_phaseInv:
  assumes "phaseInv s log phase" and "heapLogged (is_heap s) log"
    and "map_of (is_entries s) key = None" and "validClaim key h" and "ie_pending e"
  shows "phaseInv \<lparr>is_entries = (key, length (is_heap s)) # is_entries s, is_heap = is_heap s @ [e]\<rparr>
    (Claimed key h t (length (is_heap s)) # log) (phase(c := Owning key h (length (is_heap s))))"
proof -
  let ?r = "length (is_heap s)"
  have own: "k \<noteq> key \<and> map_of (is_entries s) k = Some r \<and> r < ?r \<and> ie_pending (is_heap s ! r)
      \<and> validClaim k h' \<and> (\<exists>t. Claimed k h' t r \<in> set log)"
    if "phase c' = Owning k h' r" for c' k h' r
    using phaseInvD(1) [OF assms(1) that] assms(3) heapLoggedD(1) [OF assms(2)] by auto
  have o1: "validClaim k h' \<and> map_of ((key, ?r) # is_entries s) k = Some r
      \<and> ie_pending ((is_heap s @ [e]) ! r) \<and> (\<exists>t'. Claimed k h' t' r \<in> set (Claimed key h t ?r # log))"
    if "(phase(c := Owning key h ?r)) c' = Owning k h' r" for c' k h' r
  proof (cases "c' = c")
    case True
    then show ?thesis using that assms(4,5) by auto
  next
    case False
    then have "phase c' = Owning k h' r" using that by simp
    from own [OF this] show ?thesis by (auto simp: nth_append)
  qed
  have o2: "c1 = c2" if "(phase(c := Owning key h ?r)) c1 = Owning k h1 r1"
      "(phase(c := Owning key h ?r)) c2 = Owning k h2 r2" for c1 c2 k h1 r1 h2 r2
    using that own phaseInvD(4) [OF assms(1)] by (metis fun_upd_apply phase.inject(3))
  have w: "validClaim k h' \<and> (\<exists>t'. Claimed k h' t' r \<in> set (Claimed key h t ?r # log))"
    if "(phase(c := Owning key h ?r)) c' = Waiting k h' r" for c' k h' r
    using that phaseInvD(2) [OF assms(1), of c' k h' r] by (auto split: if_splits)
  have y: "validClaim k h'" if "(phase(c := Owning key h ?r)) c' = Trying k h'" for c' k h'
    using that phaseInvD(3) [OF assms(1), of c' k h'] by (auto split: if_splits)
  show ?thesis
    using o1 o2 w y unfolding phaseInv_def idempotencyStore.select_convs by blast
qed

lemma inv_enter:
  fixes s :: "'s system"
  assumes inv: "systemInv s" and trying: "sy_phase s c = Trying key h"
    and b: "beginLocked cancelled (sy_now s) key h (sy_store s) = (d, store')"
    and a: "afterBegin key h (sy_now s) d = (p, evs)"
  shows "systemInv (s\<lparr>sy_store := store', sy_phase := (sy_phase s)(c := p), sy_log := evs @ sy_log s\<rparr>)"
proof (cases cancelled)
  case True
  then have "d = Refuse" "store' = sy_store s" using b by (simp_all add: beginLocked_def)
  then show ?thesis using a inv_phase_only [OF inv, of Finished c] by (simp add: afterBegin_def)
next
  case False
  define st where "st = purgeLocked (sy_now s) (sy_store s)"
  note I = inv [unfolded systemInv_def]
  have si: "storeInv st" and hl: "heapLogged (is_heap st) (sy_log s)"
    and el: "entriesLogged (is_entries st) (sy_log s) (sy_now s)"
    and ph: "phaseInv st (sy_log s) (sy_phase s)" and ct: "contract (sy_log s)"
    unfolding st_def using I by (auto intro: purge_storeInv purge_entriesLogged purge_phaseInv)
  have valid: "validClaim key h" by (rule phaseInvD(3) [OF ph trying])
  show ?thesis
  proof (cases "map_of (is_entries st) key")
    case (Some r)
    then obtain h' t' where cl: "Claimed key h' t' r \<in> set (sy_log s)"
      using el unfolding entriesLogged_def by blast
    note hash = heapLoggedD(2) [OF hl cl]
    have store': "store' = st" and d: "d = Conflict
        \<or> d = Hit (ie_outcome (is_heap st ! r)) \<and> \<not> ie_pending (is_heap st ! r) \<and> h' = h
        \<or> d = Wait r \<and> h' = h"
      using b False Some hash unfolding beginLocked_def st_def [symmetric] Let_def
      by (auto split: if_splits)
    from d show ?thesis
    proof (elim disjE conjE)
      assume "d = Conflict"
      then show ?thesis using a store' si hl el ct phaseInv_update [OF ph, of Finished c]
        by (simp add: afterBegin_def systemInv_def)
    next
      assume "d = Hit (ie_outcome (is_heap st ! r))" "\<not> ie_pending (is_heap st ! r)" "h' = h"
      moreover from this have "p = Finished" "evs = [Replayed key h (ie_outcome (is_heap st ! r))]"
        using a by (simp_all add: afterBegin_def)
      ultimately show ?thesis
        using store' si replay_mono(1) [OF hl] replay_mono(2) [OF el]
          replay_mono(3) [OF phaseInv_update [OF ph, of Finished c]] replay_contract [OF hl ct] cl
        by (simp add: systemInv_def del: contract.simps)
    next
      assume "d = Wait r" "h' = h"
      moreover have "phaseInv st (sy_log s) ((sy_phase s)(c := Waiting key h r))"
        using ph valid cl \<open>h' = h\<close> unfolding phaseInv_def by auto
      ultimately show ?thesis using a store' si hl el ct by (simp add: afterBegin_def systemInv_def)
    qed
  next
    case None
    show ?thesis
    proof (cases "maxIdempotencyEntries \<le> length (is_entries st)")
      case True
      then have "d = Refuse" "store' = st"
        using b False None unfolding beginLocked_def st_def [symmetric] Let_def by auto
      then show ?thesis using a si hl el ct phaseInv_update [OF ph, of Finished c]
        by (simp add: afterBegin_def systemInv_def)
    next
      case room: False
      define e :: "'s idempotencyEntry" where "e = \<lparr>ie_paramsHash = h, ie_outcome = emptyOutcome, ie_expires = None,
        ie_pending = True, ie_done = False\<rparr>"
      let ?r = "length (is_heap st)"
      have d: "d = Claim ?r" and store': "store' = \<lparr>is_entries = (key, ?r) # is_entries st,
          is_heap = is_heap st @ [e]\<rparr>"
        using b False None room unfolding beginLocked_def st_def [symmetric] Let_def e_def by auto
      have "storeInv store'"
        using si None room unfolding store' storeInv_def e_def
        by (auto simp: map_of_eq_None_iff less_Suc_eq)
      moreover have "contract (Claimed key h (sy_now s) ?r # sy_log s)"
        using ct el None unfolding entriesLogged_def by (auto split: option.splits)
      moreover have "ie_pending e" "ie_paramsHash e = h" by (simp_all add: e_def)
      moreover have "p = Owning key h ?r" "evs = [Claimed key h (sy_now s) ?r]"
        using a d by (simp_all add: afterBegin_def)
      ultimately show ?thesis
        using store' claim_heapLogged [OF hl] claim_entriesLogged [OF el]
          claim_phaseInv [OF ph hl None valid]
        by (simp add: systemInv_def del: contract.simps)
    qed
  qed
qed

lemma inv_wake:
  assumes inv: "systemInv s" and wait: "sy_phase s c = Waiting key h r"
    and isDone: "ie_done (is_heap (sy_store s) ! r)" and e: "e = is_heap (sy_store s) ! r"
    and p: "(p, evs) = (if cancelled then (Finished, [])
                else if \<not> ie_pending e then (Finished, [Replayed key h (ie_outcome e)])
                else (Trying key h, []))"
  shows "systemInv (s\<lparr>sy_phase := (sy_phase s)(c := p), sy_log := evs @ sy_log s\<rparr>)"
proof -
  note I = inv [unfolded systemInv_def]
  have hl: "heapLogged (is_heap (sy_store s)) (sy_log s)"
    and el: "entriesLogged (is_entries (sy_store s)) (sy_log s) (sy_now s)"
    and ph: "phaseInv (sy_store s) (sy_log s) (sy_phase s)" and ct: "contract (sy_log s)"
    using I by blast+
  obtain t where cl: "Claimed key h t r \<in> set (sy_log s)" using phaseInvD(2) [OF ph wait] by blast
  have "is_heap (sy_store s) ! r \<in> set (is_heap (sy_store s))" using heapLoggedD(1) [OF hl cl] by simp
  then have np: "\<not> ie_pending e" using I isDone e unfolding storeInv_def by blast
  show ?thesis
  proof (cases cancelled)
    case True
    then show ?thesis using p inv_phase_only [OF inv, of Finished c] by simp
  next
    case False
    then have "p = Finished" "evs = [Replayed key h (ie_outcome e)]" using p np by simp_all
    then show ?thesis
      using I replay_mono(1) [OF hl] replay_mono(2) [OF el]
        replay_mono(3) [OF phaseInv_update [OF ph, of Finished c]] replay_contract [OF hl ct cl] np e
      by (simp add: systemInv_def del: contract.simps)
  qed
qed

text \<open>The owner's completion always finds its own pending entry.\<close>

lemma owner_completes:
  assumes "systemInv s" and "sy_phase s c = Owning key h r" and "recordedOutcome result = (out, valid)"
  shows "completeStore now key h result retain (sy_store s) = (sy_store s)\<lparr>is_heap :=
    (is_heap (sy_store s))[r := (is_heap (sy_store s) ! r)\<lparr>ie_outcome := out, ie_pending := False,
       ie_expires := (if valid \<and> \<not> retain then Some (now + idempotencyTTL)
                      else ie_expires (is_heap (sy_store s) ! r)), ie_done := True\<rparr>]\<rparr>"
proof -
  note I = assms(1) [unfolded systemInv_def]
  then have "phaseInv (sy_store s) (sy_log s) (sy_phase s)" by blast
  note own = phaseInvD(1) [OF this assms(2)]
  have "key \<noteq> []" "h \<noteq> []" "map_of (is_entries (sy_store s)) key = Some r"
    "ie_pending (is_heap (sy_store s) ! r)"
    using own I by (auto simp: validClaim_def)
  moreover have "ie_paramsHash (is_heap (sy_store s) ! r) = h"
    using own I heapLoggedD(2) by blast
  ultimately show ?thesis using assms(3) by (simp add: completeStore_def Let_def)
qed

lemma complete_heapLogged:
  assumes "heapLogged heap log" and "Claimed key h t r \<in> set log"
    and "\<not> ie_pending e" and "ie_paramsHash e = h"
    and "ie_expires e = None \<or> ie_expires e = Some (now + idempotencyTTL)"
  shows "heapLogged (heap[r := e]) (Completed key r now (ie_outcome e) (ie_expires e) # log)"
proof -
  have r: "r < length heap" by (rule heapLoggedD(1) [OF assms(1,2)])
  have "entryLogged (heap[r := e] ! r') k r' (Completed key r now (ie_outcome e) (ie_expires e) # log)
      \<and> ie_paramsHash (heap[r := e] ! r') = h' \<and> r' < length heap"
    if cl: "Claimed k h' t' r' \<in> set log" for k h' t' r'
  proof (cases "r' = r")
    case True
    with cl heapLogged_key [OF assms(1,2)] have "k = key" by metis
    moreover have "h' = h" using heapLoggedD(2) [OF assms(1)] assms(2) cl True by metis
    ultimately show ?thesis using True r assms(3-5) by (auto simp: entryLogged_def)
  next
    case False
    then show ?thesis using heapLoggedD [OF assms(1) cl] by simp
  qed
  then show ?thesis
    using heapLogged_completed [OF assms(1)] heapLogged_key [OF assms(1)] r
    unfolding heapLogged_def by auto
qed

lemma inv_finish:
  assumes inv: "systemInv s" and own: "sy_phase s c = Owning key h r"
    and rec: "recordedOutcome result = (out, valid)"
  shows "systemInv (s\<lparr>sy_store := completeStore (sy_now s) key h result retain (sy_store s),
      sy_phase := (sy_phase s)(c := Finished),
      sy_log := Completed key r (sy_now s) out
        (if valid \<and> \<not> retain then Some (sy_now s + idempotencyTTL) else None) # sy_log s\<rparr>)"
proof -
  define st where "st = sy_store s"
  define x where "x = (if valid \<and> \<not> retain then Some (sy_now s + idempotencyTTL) else None)"
  define e where "e = (is_heap st ! r)\<lparr>ie_outcome := out, ie_pending := False, ie_expires := x,
    ie_done := True\<rparr>"
  note I = inv [unfolded systemInv_def, folded st_def]
  have hl: "heapLogged (is_heap st) (sy_log s)" and ph: "phaseInv st (sy_log s) (sy_phase s)"
    and ct: "contract (sy_log s)" and si: "storeInv st"
    and el: "entriesLogged (is_entries st) (sy_log s) (sy_now s)" using I by blast+
  obtain t where cl: "Claimed key h t r \<in> set (sy_log s)" and pend: "ie_pending (is_heap st ! r)"
    using phaseInvD(1) [OF ph own] by blast
  have fresh: "\<forall>k' t' o' y. Completed k' r t' o' y \<notin> set (sy_log s)"
    using heapLoggedD(3) [OF hl cl] pend by (simp add: entryLogged_def)
  have r: "r < length (is_heap st)" by (rule heapLoggedD(1) [OF hl cl])
  then have "ie_expires (is_heap st ! r) = None" using si pend by (simp add: storeInv_def)
  then have store': "completeStore (sy_now s) key h result retain (sy_store s)
      = st\<lparr>is_heap := (is_heap st)[r := e]\<rparr>"
    using owner_completes [OF inv own rec] by (simp add: e_def x_def st_def)
  have si': "storeInv (st\<lparr>is_heap := (is_heap st)[r := e]\<rparr>)"
    using si set_update_subset_insert [of "is_heap st" r e] unfolding storeInv_def e_def by fastforce
  have "ie_paramsHash e = h" using heapLoggedD(2) [OF hl cl] by (simp add: e_def)
  moreover have "\<not> ie_pending e" "ie_outcome e = out" "ie_expires e = x"
    "ie_expires e = None \<or> ie_expires e = Some (sy_now s + idempotencyTTL)" by (simp_all add: e_def x_def)
  ultimately have hl': "heapLogged ((is_heap st)[r := e]) (Completed key r (sy_now s) out x # sy_log s)"
    using complete_heapLogged [OF hl cl] by metis
  have el': "entriesLogged (is_entries st) (Completed key r (sy_now s) out x # sy_log s) (sy_now s)"
    using el unfolding entriesLogged_def by (simp, blast)
  have ph': "phaseInv (st\<lparr>is_heap := (is_heap st)[r := e]\<rparr>) (Completed key r (sy_now s) out x # sy_log s)
      ((sy_phase s)(c := Finished))"
  proof -
    have other: "r' \<noteq> r" if "sy_phase s c' = Owning k h' r'" "c' \<noteq> c" for c' k h' r'
      using that phaseInvD(1) [OF ph that(1)] phaseInvD(4) [OF ph own] heapLogged_key [OF hl cl] by metis
    have "ie_pending ((is_heap st)[r := e] ! r')"
      if "((sy_phase s)(c := Finished)) c' = Owning k h' r'" for c' k h' r'
    proof -
      from that have "c' \<noteq> c" "sy_phase s c' = Owning k h' r'" by (auto split: if_splits)
      then have "r' \<noteq> r" "ie_pending (is_heap st ! r')" using other phaseInvD(1) [OF ph] by blast+
      then show ?thesis by simp
    qed
    then show ?thesis
      by (intro phaseInv_mono [OF phaseInv_update [OF ph, of Finished c]]) auto
  qed
  have "contract (Completed key r (sy_now s) out x # sy_log s)" using ct cl fresh by auto
  with si' hl' el' ph' show ?thesis
    unfolding systemInv_def store' x_def [symmetric] by (simp del: contract.simps)
qed

theorem systemInv_step: "systemStep s s' \<Longrightarrow> systemInv s \<Longrightarrow> systemInv s'"
proof (induction rule: systemStep.induct)
  case (tick s t)
  then show ?case by (simp add: inv_tick)
next
  case (arrive s c key h)
  then show ?case by (intro inv_phase_only) auto
next
  case (enter s c key h cancelled d store' p evs)
  then show ?case by (intro inv_enter)
next
  case (wake s c key h r entry p evs cancelled)
  then show ?case by (intro inv_wake)
next
  case (giveUp s c key h r)
  then show ?case by (intro inv_phase_only) auto
next
  case (finish s c key h r result out valid retain)
  then show ?case by (intro inv_finish)
qed

lemma reachable_inv: "reachable s \<Longrightarrow> systemInv s"
  by (induction rule: reachable.induct) (auto intro: inv_initial systemInv_step)

text \<open>A pending entry always has a running owner, so a waiter is never left behind.\<close>

definition ownerInv :: "'s system \<Rightarrow> bool" where
  "ownerInv s \<longleftrightarrow> (\<forall>k h t r. Claimed k h t r \<in> set (sy_log s) \<longrightarrow> ie_pending (is_heap (sy_store s) ! r) \<longrightarrow>
     (\<exists>c. sy_phase s c = Owning k h r))"

lemma ownerInv_keep:
  assumes "ownerInv s" and "\<And>k h r. sy_phase s c \<noteq> Owning k h r"
    and "\<And>k h t r. Claimed k h t r \<in> set log' \<Longrightarrow> Claimed k h t r \<in> set (sy_log s)"
    and "\<And>r. ie_pending (is_heap store' ! r) \<Longrightarrow> ie_pending (is_heap (sy_store s) ! r)"
  shows "ownerInv (s\<lparr>sy_store := store', sy_phase := (sy_phase s)(c := p), sy_log := log'\<rparr>)"
  unfolding ownerInv_def
proof (intro allI impI)
  fix k h t r
  assume a: "Claimed k h t r \<in> set (sy_log (s\<lparr>sy_store := store', sy_phase := (sy_phase s)(c := p), sy_log := log'\<rparr>))"
    and b: "ie_pending (is_heap (sy_store (s\<lparr>sy_store := store', sy_phase := (sy_phase s)(c := p), sy_log := log'\<rparr>)) ! r)"
  from a b assms(3,4) obtain c' where c': "sy_phase s c' = Owning k h r"
    using assms(1) unfolding ownerInv_def by fastforce
  then have "c' \<noteq> c" using assms(2) by metis
  with c' show "\<exists>c'. sy_phase (s\<lparr>sy_store := store', sy_phase := (sy_phase s)(c := p), sy_log := log'\<rparr>) c'
      = Owning k h r" by (intro exI [of _ c']) simp
qed

lemma ownerInv_enter:
  assumes "systemInv s" and "ownerInv s" and "sy_phase s c = Trying key h"
    and b: "beginLocked cancelled (sy_now s) key h (sy_store s) = (d, store')"
    and a: "afterBegin key h (sy_now s) d = (p, evs)"
  shows "ownerInv (s\<lparr>sy_store := store', sy_phase := (sy_phase s)(c := p), sy_log := evs @ sy_log s\<rparr>)"
proof (cases "\<exists>r. d = Claim r")
  case False
  have "is_heap store' = is_heap (sy_store s)"
    using b False by (auto simp: beginLocked_def Let_def split: if_splits option.splits)
  moreover have "Claimed k h' t r \<in> set evs \<Longrightarrow> False" for k h' t r
    using a False by (auto simp: afterBegin_def split: decision.splits)
  ultimately show ?thesis using assms(3) by (intro ownerInv_keep [OF assms(2)]) auto
next
  case True
  then obtain r where d: "d = Claim r" by blast
  then have r: "r = length (is_heap (sy_store s))" and heap: "\<exists>e. is_heap store' = is_heap (sy_store s) @ [e]"
    using b by (auto simp: beginLocked_def Let_def split: if_splits option.splits)
  have p: "p = Owning key h r" "evs = [Claimed key h (sy_now s) r]" using a d by (simp_all add: afterBegin_def)
  have old: "r' < length (is_heap (sy_store s))" if "Claimed k h' t r' \<in> set (sy_log s)" for k h' t r'
    using assms(1) that heapLoggedD(1) unfolding systemInv_def by blast
  show ?thesis
    unfolding ownerInv_def
  proof (intro allI impI, goal_cases)
    case (1 k h' t r')
    show ?case
    proof (cases "Claimed k h' t r' \<in> set (sy_log s)")
      case True
      with 1 heap old [OF True] have "ie_pending (is_heap (sy_store s) ! r')" by (auto simp: nth_append)
      then obtain c' where c': "sy_phase s c' = Owning k h' r'" using True assms(2) unfolding ownerInv_def by blast
      then have "c' \<noteq> c" using assms(3) by auto
      then show ?thesis using c' by (intro exI [of _ c']) simp
    next
      case False
      then show ?thesis using 1 p by (intro exI [of _ c]) simp
    qed
  qed
qed

lemma ownerInv_finish:
  assumes "systemInv s" and "ownerInv s" and own: "sy_phase s c = Owning key h r"
    and rec: "recordedOutcome result = (out, valid)"
  shows "ownerInv (s\<lparr>sy_store := completeStore now key h result retain (sy_store s),
      sy_phase := (sy_phase s)(c := Finished), sy_log := Completed key r t' out x # sy_log s\<rparr>)"
  unfolding ownerInv_def
proof (intro allI impI, goal_cases)
  case (1 k h' t r')
  then have cl: "Claimed k h' t r' \<in> set (sy_log s)" by simp
  then have lt: "r' < length (is_heap (sy_store s))" using assms(1) heapLoggedD(1) unfolding systemInv_def by blast
  have "r' \<noteq> r \<and> ie_pending (is_heap (sy_store s) ! r')"
    using 1(2) lt unfolding owner_completes [OF assms(1) own rec]
    by (cases "r' = r") simp_all
  then obtain c' where c': "sy_phase s c' = Owning k h' r'" "r' \<noteq> r"
    using cl assms(2) unfolding ownerInv_def by blast
  then have "c' \<noteq> c" using own by auto
  then show ?case using c' by (intro exI [of _ c']) simp
qed

lemma ownerInv_step: "systemStep s s' \<Longrightarrow> systemInv s \<Longrightarrow> ownerInv s \<Longrightarrow> ownerInv s'"
proof (induction rule: systemStep.induct)
  case (tick s t)
  then show ?case by (simp add: ownerInv_def)
next
  case (arrive s c key h)
  then show ?case using ownerInv_keep [of s c "sy_log s" "sy_store s"] by auto
next
  case (enter s c key h cancelled d store' p evs)
  then show ?case by (intro ownerInv_enter)
next
  case (wake s c key h r entry p evs cancelled)
  then have "Claimed k h' t r' \<notin> set evs" for k h' t r' by (auto split: if_splits)
  then show ?case using wake ownerInv_keep [of s c "evs @ sy_log s" "sy_store s" p] by auto
next
  case (giveUp s c key h r)
  then show ?case using ownerInv_keep [of s c "sy_log s" "sy_store s"] by auto
next
  case (finish s c key h r result out valid retain)
  then show ?case by (intro ownerInv_finish)
qed

lemma reachable_owner: "reachable s \<Longrightarrow> ownerInv s"
proof (induction rule: reachable.induct)
  case (start t)
  then show ?case by (simp add: ownerInv_def initialSystem_def)
next
  case (step s s')
  then show ?case using ownerInv_step reachable_inv by blast
qed

section \<open>Properties\<close>

text \<open>
  C13. Idempotency keys mean at most once. In every interleaving of any number of callers, with any
  timing of cancellations and any completion results, the observable history satisfies the contract:
  a key is claimed again only after its previous claim completed with a known outcome and the 15
  minutes of that outcome are over (a pending or uncertain mutation is therefore never repeated),
  every claim is completed at most once, and every replayed answer is the recorded outcome of a
  completed claim with the same key and the same parameter hash.
\<close>

theorem idempotency_contract:
  assumes "reachable s"
  shows "contract (sy_log s)"
  using reachable_inv [OF assms] by (simp add: systemInv_def)

text \<open>A run of two callers with the same key and parameters: one claims, the other replays.\<close>

definition sampleResult :: "unit callResult" where
  "sampleResult = \<lparr>cr_content = [Some ''ok''], cr_structured = None, cr_isError = False\<rparr>"

definition sampleOutcome :: "unit idempotencyOutcome" where
  "sampleOutcome = \<lparr>io_payload = ''ok'', io_structured = None, io_isError = False\<rparr>"

definition sampleStore :: "nat \<Rightarrow> unit idempotencyStore" where
  "sampleStore n =
     (let s1 = snd (beginLocked False 0 ''k'' ''h'' newIdempotencyStore) in
      if n = 0 then s1 else completeStore 0 ''k'' ''h'' (Some sampleResult) False s1)"

lemma sample_claim: "beginLocked False 0 ''k'' ''h'' newIdempotencyStore = (Claim 0, sampleStore 0)"
  by (simp add: beginLocked_def sampleStore_def newIdempotencyStore_def purgeLocked_def Let_def
      maxIdempotencyEntries_def)

lemma sample_hit: "beginLocked False 0 ''k'' ''h'' (sampleStore 1) = (Hit sampleOutcome, sampleStore 1)"
  by (simp add: beginLocked_def sampleStore_def newIdempotencyStore_def purgeLocked_def Let_def
      maxIdempotencyEntries_def completeStore_def recordedOutcome_def sampleResult_def
      sampleOutcome_def expired_def idempotencyTTL_def maxIdempotencyPayload_def)

lemma sample_owner:
  "reachable \<lparr>sy_store = sampleStore 0, sy_phase = (\<lambda>_. Idle)(0 := Owning ''k'' ''h'' 0),
      sy_now = 0, sy_log = [Claimed ''k'' ''h'' 0 0]\<rparr>"
proof -
  have v: "validClaim ''k'' ''h''" by (simp add: validClaim_def maxIdempotencyKeyBytes_def)
  have r0: "reachable (initialSystem 0 :: unit system)" by (rule reachable.start)
  have r1: "reachable ((initialSystem 0 :: unit system)\<lparr>sy_phase := (\<lambda>_. Idle)(0 := Trying ''k'' ''h'')\<rparr>)"
    using reachable.step [OF r0 systemStep.arrive [OF _ v, of _ 0]] by (simp add: initialSystem_def)
  show ?thesis
    using reachable.step [OF r1 systemStep.enter [of _ 0 "''k''" "''h''" False "Claim 0" "sampleStore 0"
      "Owning ''k'' ''h'' 0" "[Claimed ''k'' ''h'' 0 0]"]] sample_claim
    by (simp add: initialSystem_def afterBegin_def)
qed

lemma sample_wait: "beginLocked False 0 ''k'' ''h'' (sampleStore 0) = (Wait 0, sampleStore 0)"
  by (simp add: beginLocked_def sampleStore_def newIdempotencyStore_def purgeLocked_def Let_def
      maxIdempotencyEntries_def expired_def)

lemma sample_waiter:
  "reachable \<lparr>sy_store = sampleStore 0,
     sy_phase = (\<lambda>_. Idle)(0 := Owning ''k'' ''h'' 0, 1 := Waiting ''k'' ''h'' 0),
     sy_now = 0, sy_log = [Claimed ''k'' ''h'' 0 0]\<rparr>"
proof -
  have v: "validClaim ''k'' ''h''" by (simp add: validClaim_def maxIdempotencyKeyBytes_def)
  have r1: "reachable \<lparr>sy_store = sampleStore 0,
      sy_phase = (\<lambda>_. Idle)(0 := Owning ''k'' ''h'' 0, 1 := Trying ''k'' ''h''),
      sy_now = 0, sy_log = [Claimed ''k'' ''h'' 0 0]\<rparr>"
    using reachable.step [OF sample_owner systemStep.arrive [OF _ v, of _ 1]] by simp
  show ?thesis
    using reachable.step [OF r1 systemStep.enter [of _ 1 "''k''" "''h''" False "Wait 0" "sampleStore 0"
      "Waiting ''k'' ''h'' 0" "[]"]] sample_wait
    by (simp add: afterBegin_def)
qed

lemma sample_run:
  "reachable \<lparr>sy_store = sampleStore 1, sy_phase = (\<lambda>_. Idle)(0 := Finished, 1 := Finished), sy_now = 0,
     sy_log = [Replayed ''k'' ''h'' sampleOutcome, Completed ''k'' 0 0 sampleOutcome (Some idempotencyTTL),
       Claimed ''k'' ''h'' 0 0]\<rparr>"
proof -
  have v: "validClaim ''k'' ''h''" by (simp add: validClaim_def maxIdempotencyKeyBytes_def)
  have rec: "recordedOutcome (Some sampleResult) = (sampleOutcome, True)"
    by (simp add: recordedOutcome_def sampleResult_def sampleOutcome_def maxIdempotencyPayload_def)
  have done': "completeStore 0 ''k'' ''h'' (Some sampleResult) False (sampleStore 0) = sampleStore 1"
    by (simp add: sampleStore_def)
  have r3: "reachable \<lparr>sy_store = sampleStore 1, sy_phase = (\<lambda>_. Idle)(0 := Finished), sy_now = 0,
      sy_log = [Completed ''k'' 0 0 sampleOutcome (Some idempotencyTTL), Claimed ''k'' ''h'' 0 0]\<rparr>"
    using reachable.step [OF sample_owner systemStep.finish [of _ 0 "''k''" "''h''" 0 "Some sampleResult" _ _ False, OF _ rec]]
      done' by simp
  have r4: "reachable \<lparr>sy_store = sampleStore 1, sy_phase = (\<lambda>_. Idle)(0 := Finished, 1 := Trying ''k'' ''h''),
      sy_now = 0, sy_log = [Completed ''k'' 0 0 sampleOutcome (Some idempotencyTTL), Claimed ''k'' ''h'' 0 0]\<rparr>"
    using reachable.step [OF r3 systemStep.arrive [OF _ v, of _ 1]] by simp
  show ?thesis
    using reachable.step [OF r4 systemStep.enter [of _ 1 "''k''" "''h''" False "Hit sampleOutcome" "sampleStore 1"
      Finished "[Replayed ''k'' ''h'' sampleOutcome]"]] sample_hit
    by (simp add: afterBegin_def)
qed

theorem idempotency_contract_witness:
  "contract [Replayed ''k'' ''h'' sampleOutcome, Completed ''k'' 0 0 sampleOutcome (Some idempotencyTTL),
     Claimed ''k'' ''h'' 0 0]"
  using idempotency_contract [OF sample_run] by (simp del: contract.simps)

text \<open>
  At any moment at most one caller is running the mutation of a key, and the store never holds
  more than 1024 entries.
\<close>

theorem single_owner:
  assumes "reachable s" and "sy_phase s c = Owning k h r" and "sy_phase s c' = Owning k h' r'"
  shows "c = c' \<and> length (is_entries (sy_store s)) \<le> 1024"
  using reachable_inv [OF assms(1)] phaseInvD(4) [OF _ assms(2,3)]
  unfolding systemInv_def storeInv_def maxIdempotencyEntries_def by blast

theorem single_owner_witness: "(0 :: nat) = 0 \<and> length (is_entries (sampleStore 0)) \<le> 1024"
  using single_owner [OF sample_owner, of 0 "''k''" "''h''" 0 0 "''h''" 0] by simp

text \<open>
  C14. No waiter is left behind: a caller that waits for an outcome either finds it recorded, so that
  its next step returns it, or the owner of that very claim is still running and will record it.
\<close>

theorem waiter_has_owner:
  assumes "reachable s" and "sy_phase s c = Waiting k h r"
  shows "ie_done (is_heap (sy_store s) ! r) \<or> (\<exists>c'. sy_phase s c' = Owning k h r)"
proof -
  note I = reachable_inv [OF assms(1), unfolded systemInv_def]
  then have "phaseInv (sy_store s) (sy_log s) (sy_phase s)" by blast
  from phaseInvD(2) [OF this assms(2)] obtain t where cl: "Claimed k h t r \<in> set (sy_log s)" by blast
  with I have "r < length (is_heap (sy_store s))" using heapLoggedD(1) by blast
  with I have "ie_done (is_heap (sy_store s) ! r) \<longleftrightarrow> \<not> ie_pending (is_heap (sy_store s) ! r)"
    unfolding storeInv_def by (meson nth_mem)
  with reachable_owner [OF assms(1)] cl show ?thesis unfolding ownerInv_def by blast
qed

theorem waiter_has_owner_witness:
  "ie_done (is_heap (sampleStore 0) ! 0)
   \<or> (\<exists>c'. ((\<lambda>_. Idle)(0 := Owning ''k'' ''h'' 0, 1 := Waiting ''k'' ''h'' 0) :: nat \<Rightarrow> unit phase) c'
        = Owning ''k'' ''h'' 0)"
  using waiter_has_owner [OF sample_waiter, of 1 "''k''" "''h''" 0] by simp

end
