(* ===== verification/Free_Slots.thy ===== *)
theory Free_Slots
  imports Go_Errors "HOL-Library.Product_Lexorder"
begin

text \<open>
  \<open>internal/icloud/freeslots.go\<close>: busy intervals, their merge and inversion, the walk over civil days
  that clips free time to working hours, and the placement of slots. An instant is a number of
  nanoseconds since the epoch. A location is its \<open>lookup\<close> function from seconds to the offset in
  force and the half-open range of seconds in which it holds; \<open>time.Date\<close> is the algorithm of the
  standard library on it. The day walk has no bound in the code, so it is a \<open>partial_function\<close> into
  \<open>option\<close>: \<open>None\<close> is a walk that never ends.
\<close>

section \<open>Civil time\<close>

type_synonym location = "int \<Rightarrow> int \<times> int \<times> int"

abbreviation daySeconds :: int where "daySeconds \<equiv> 86400"

definition utcLocation :: location where
  "utcLocation sec = (0, - (2 ^ 63), 2 ^ 63 - 1)"

text \<open>The civil day of an instant, counted from 1970-01-01, and its weekday (Sunday is 0).\<close>

definition civilDay :: "location \<Rightarrow> int \<Rightarrow> int" where
  "civilDay loc t = (let sec = t div second in (sec + fst (loc sec)) div daySeconds)"

definition weekday :: "location \<Rightarrow> int \<Rightarrow> int" where
  "weekday loc t = (civilDay loc t + 4) mod 7"

text \<open>\<open>time.Date\<close> for a civil day and seconds after its midnight.\<close>

definition goDate :: "location \<Rightarrow> int \<Rightarrow> int \<Rightarrow> int" where
  "goDate loc day secs =
     (let unix = day * daySeconds + secs;
          (offset, start, end') = loc unix
      in second *
         (if offset = 0 then unix
          else
            (let utc = unix - offset in
             if utc < start \<or> end' \<le> utc then unix - fst (loc utc) else utc)))"

definition startOfLocalDay :: "location \<Rightarrow> int \<Rightarrow> int" where
  "startOfLocalDay loc t = goDate loc (civilDay loc t) 0"

definition nextLocalCivilDay :: "location \<Rightarrow> int \<Rightarrow> int" where
  "nextLocalCivilDay loc day = goDate loc (civilDay loc day + 1) 0"

definition prevLocalCivilDay :: "location \<Rightarrow> int \<Rightarrow> int" where
  "prevLocalCivilDay loc day = goDate loc (civilDay loc day - 1) 0"

definition localTimeOnDay :: "location \<Rightarrow> int \<Rightarrow> int \<Rightarrow> int" where
  "localTimeOnDay loc day minutesFromMidnight =
     (if 24 * 60 \<le> minutesFromMidnight then goDate loc (civilDay loc day + 1) 0
      else
        (let m = (if minutesFromMidnight < 0 then 0 else minutesFromMidnight) in
         goDate loc (civilDay loc day) ((m div 60) * 3600 + (m mod 60) * 60)))"

section \<open>Intervals\<close>

record interval =
  iv_start :: int
  iv_end :: int

abbreviation Iv :: "int \<Rightarrow> int \<Rightarrow> interval" where
  "Iv s e \<equiv> \<lparr>iv_start = s, iv_end = e\<rparr>"

definition intersect :: "interval \<Rightarrow> interval \<Rightarrow> interval" where
  "intersect a b =
     Iv (if iv_start a < iv_start b then iv_start b else iv_start a)
        (if iv_end b < iv_end a then iv_end b else iv_end a)"

fun mergeRest :: "interval \<Rightarrow> interval list \<Rightarrow> interval list" where
  "mergeRest prev [] = [prev]"
| "mergeRest prev (cur # rest) =
     (if iv_start cur \<le> iv_end prev
      then mergeRest (if iv_end prev < iv_end cur then prev\<lparr>iv_end := iv_end cur\<rparr> else prev) rest
      else prev # mergeRest cur rest)"

definition mergeIntervals :: "interval list \<Rightarrow> interval list" where
  "mergeIntervals ivs =
     (case sort_key (\<lambda>i. (iv_start i, iv_end i)) ivs of [] \<Rightarrow> [] | first # rest \<Rightarrow> mergeRest first rest)"

text \<open>An event as \<open>BusyFromEvents\<close> reads it; a time carries its own location.\<close>

record busyEvent =
  ev_status :: string
  ev_transp :: string
  ev_allDay :: bool
  ev_start :: int
  ev_startLoc :: location
  ev_end :: int
  ev_endLoc :: location

definition isTransparentOrCancelled :: "busyEvent \<Rightarrow> bool" where
  "isTransparentOrCancelled e \<longleftrightarrow>
     equalFold (ev_status e) ''CANCELLED'' \<or> equalFold (ev_transp e) ''TRANSPARENT''"

fun busyFromEvents ::
  "busyEvent list \<Rightarrow> bool \<Rightarrow> duration \<Rightarrow> duration \<Rightarrow> location \<Rightarrow> interval list" where
  "busyFromEvents [] includeAllDay before after loc = []"
| "busyFromEvents (e # es) includeAllDay before after loc =
     (if isTransparentOrCancelled e \<or> ev_allDay e \<and> \<not> includeAllDay
      then busyFromEvents es includeAllDay before after loc
      else
        (let s = (if ev_allDay e then goDate loc (civilDay (ev_startLoc e) (ev_start e)) 0 else ev_start e) - before;
             t = (if ev_allDay e then goDate loc (civilDay (ev_endLoc e) (ev_end e)) 0 else ev_end e) + after
         in if \<not> s < t then busyFromEvents es includeAllDay before after loc
            else Iv s t # busyFromEvents es includeAllDay before after loc))"

fun invertLoop :: "int \<Rightarrow> int \<Rightarrow> int \<Rightarrow> interval list \<Rightarrow> interval list" where
  "invertLoop rangeStart rangeEnd cursor [] =
     (if cursor < rangeEnd then [Iv cursor rangeEnd] else [])"
| "invertLoop rangeStart rangeEnd cursor (b # busy) =
     (if iv_end b \<le> rangeStart then invertLoop rangeStart rangeEnd cursor busy
      else if \<not> iv_start b < rangeEnd
      then (if cursor < rangeEnd then [Iv cursor rangeEnd] else [])
      else
        (let bs = (if iv_start b < rangeStart then rangeStart else iv_start b);
             be = (if rangeEnd < iv_end b then rangeEnd else iv_end b);
             cursor' = (if cursor < be then be else cursor)
         in if cursor < bs then Iv cursor bs # invertLoop rangeStart rangeEnd cursor' busy
            else invertLoop rangeStart rangeEnd cursor' busy))"

definition invertBusy :: "int \<Rightarrow> int \<Rightarrow> interval list \<Rightarrow> interval list" where
  "invertBusy rangeStart rangeEnd busy = invertLoop rangeStart rangeEnd rangeStart busy"

section \<open>Working hours\<close>

record freeSlotOptions =
  fo_rangeStart :: int
  fo_rangeEnd :: int
  fo_duration :: duration
  fo_workingHourStart :: int
  fo_workingHourEnd :: int
  fo_daysOfWeek :: "int list"
  fo_limit :: int

definition useWH :: "freeSlotOptions \<Rightarrow> bool" where
  "useWH opts \<longleftrightarrow> fo_workingHourStart opts \<noteq> 0 \<or> fo_workingHourEnd opts \<noteq> 0"

definition overnight :: "freeSlotOptions \<Rightarrow> bool" where
  "overnight opts \<longleftrightarrow> useWH opts \<and> fo_workingHourEnd opts \<le> fo_workingHourStart opts"

definition dayAllowed :: "freeSlotOptions \<Rightarrow> int \<Rightarrow> bool" where
  "dayAllowed opts wd \<longleftrightarrow> (if fo_daysOfWeek opts = [] then 0 \<le> wd \<and> wd \<le> 6 else wd \<in> set (fo_daysOfWeek opts))"

definition daySegment :: "location \<Rightarrow> freeSlotOptions \<Rightarrow> int \<Rightarrow> interval" where
  "daySegment loc opts day =
     (if \<not> useWH opts then Iv day (nextLocalCivilDay loc day)
      else if \<not> overnight opts
      then Iv (localTimeOnDay loc day (fo_workingHourStart opts)) (localTimeOnDay loc day (fo_workingHourEnd opts))
      else Iv (localTimeOnDay loc day (fo_workingHourStart opts))
              (localTimeOnDay loc (nextLocalCivilDay loc day) (fo_workingHourEnd opts)))"

text \<open>The pass of the inner loop over one day.\<close>

definition clipDay :: "location \<Rightarrow> freeSlotOptions \<Rightarrow> interval \<Rightarrow> int \<Rightarrow> interval list \<Rightarrow> interval list" where
  "clipDay loc opts win day out =
     (if \<not> dayAllowed opts (weekday loc day) then out
      else
        (let inter = intersect win (daySegment loc opts day) in
         if iv_start inter < iv_end inter then out @ [inter] else out))"

partial_function (option) clipDays ::
  "location \<Rightarrow> freeSlotOptions \<Rightarrow> interval \<Rightarrow> int \<Rightarrow> interval list \<Rightarrow> interval list option" where
  "clipDays loc opts win day out =
     (if \<not> day \<le> iv_end win then Some out
      else clipDays loc opts win (nextLocalCivilDay loc day) (clipDay loc opts win day out))"

declare clipDays.simps [code]

definition firstDay :: "location \<Rightarrow> freeSlotOptions \<Rightarrow> interval \<Rightarrow> int" where
  "firstDay loc opts win =
     (let day = startOfLocalDay loc (iv_start win) in
      if overnight opts then prevLocalCivilDay loc day else day)"

fun clipWindows ::
  "location \<Rightarrow> freeSlotOptions \<Rightarrow> interval list \<Rightarrow> interval list \<Rightarrow> interval list option" where
  "clipWindows loc opts [] out = Some out"
| "clipWindows loc opts (win # free) out =
     (case clipDays loc opts win (firstDay loc opts win) out of
        None \<Rightarrow> None
      | Some out' \<Rightarrow> clipWindows loc opts free out')"

definition clipWorkingHours ::
  "location \<Rightarrow> freeSlotOptions \<Rightarrow> interval list \<Rightarrow> interval list option" where
  "clipWorkingHours loc opts free = map_option mergeIntervals (clipWindows loc opts free [])"

section \<open>Slots\<close>

text \<open>The greedy placement in one window; the flag says that the limit was reached.\<close>

function placeSlots ::
  "duration \<Rightarrow> nat \<Rightarrow> interval \<Rightarrow> int \<Rightarrow> interval list \<Rightarrow> interval list \<times> bool" where
  "placeSlots dur limit win cursor out =
     (let slotEnd = cursor + dur in
      if iv_end win < slotEnd then (out, False)
      else
        (let out' = out @ [Iv cursor slotEnd] in
         if limit \<le> length out' then (out', True)
         else placeSlots dur limit win slotEnd out'))"
  by pat_completeness auto
termination by (relation "measure (\<lambda>(dur, limit, win, cursor, out). limit - length out)") auto

declare placeSlots.simps [simp del]

fun placeWindows :: "duration \<Rightarrow> nat \<Rightarrow> interval list \<Rightarrow> interval list \<Rightarrow> interval list" where
  "placeWindows dur limit [] out = out"
| "placeWindows dur limit (win # free) out =
     (case placeSlots dur limit win (iv_start win) out of
        (out', True) \<Rightarrow> out'
      | (out', False) \<Rightarrow> placeWindows dur limit free out')"

definition slotLimit :: "freeSlotOptions \<Rightarrow> nat" where
  "slotLimit opts = nat (min (if fo_limit opts \<le> 0 then 50 else fo_limit opts) 200)"

definition findFreeSlots ::
  "location \<Rightarrow> interval list \<Rightarrow> freeSlotOptions \<Rightarrow> (goError + interval list) option" where
  "findFreeSlots loc busy opts =
     (if \<not> fo_rangeStart opts < fo_rangeEnd opts
      then Some (Inl (newValidationError ''free-slot range end must be after start''))
      else if fo_duration opts \<le> 0
      then Some (Inl (newValidationError ''duration_minutes must be positive''))
      else if min (2 ^ 63 - 1) (fo_rangeEnd opts - fo_rangeStart opts) < fo_duration opts
      then Some (Inl (newValidationError ''requested duration is longer than the search range''))
      else if fo_workingHourStart opts < 0 \<or> 24 * 60 < fo_workingHourStart opts
              \<or> fo_workingHourEnd opts < 0 \<or> 24 * 60 < fo_workingHourEnd opts
      then Some (Inl (newValidationError ''working hours must be between 00:00 and 24:00''))
      else if list_ex (\<lambda>d. d < 0 \<or> 6 < d) (fo_daysOfWeek opts)
      then Some (Inl (newValidationError ''days of week must be between Sunday and Saturday''))
      else
        (case clipWorkingHours loc opts
                (invertBusy (fo_rangeStart opts) (fo_rangeEnd opts) (mergeIntervals busy)) of
           None \<Rightarrow> None
         | Some free \<Rightarrow> Some (Inr (placeWindows (fo_duration opts) (slotLimit opts) free []))))"

text \<open>\<open>ParseWorkingHours\<close>; \<open>quote\<close> renders the verb \<open>%q\<close>.\<close>

definition parseWorkingHours :: "(string \<Rightarrow> string) \<Rightarrow> string \<Rightarrow> goError + int" where
  "parseWorkingHours q s =
     (if length s \<noteq> 5 \<or> s ! 2 \<noteq> CHR '':''
         \<or> \<not> (inRange 0x30 0x39 (s ! 0) \<and> inRange 0x30 0x39 (s ! 1)
               \<and> inRange 0x30 0x39 (s ! 3) \<and> inRange 0x30 0x39 (s ! 4))
      then Inl (newValidationError (''invalid working hours '' @ q s @ '': use HH:MM''))
      else
        (let h = int (bval (s ! 0) - 48) * 10 + int (bval (s ! 1) - 48);
             m = int (bval (s ! 3) - 48) * 10 + int (bval (s ! 4) - 48)
         in if 24 < h \<or> 59 < m \<or> h = 24 \<and> m \<noteq> 0
            then Inl (newValidationError (''invalid working hours '' @ q s))
            else Inr (h * 60 + m)))"

section \<open>Intervals as sets of instants\<close>

definition pts :: "interval \<Rightarrow> int set" where
  "pts i = {t. iv_start i \<le> t \<and> t < iv_end i}"

definition cover :: "interval list \<Rightarrow> int set" where
  "cover is = (\<Union>i \<in> set is. pts i)"

abbreviation byStart :: "interval list \<Rightarrow> bool" where
  "byStart is \<equiv> sorted_wrt (\<lambda>a b. iv_start a \<le> iv_start b) is"

text \<open>Merged intervals have a gap between any two.\<close>

abbreviation separated :: "interval list \<Rightarrow> bool" where
  "separated is \<equiv> sorted_wrt (\<lambda>a b. iv_end a < iv_start b) is"

lemma cover_simps [simp]:
  "cover [] = {}" "cover (i # is) = pts i \<union> cover is" "cover (is @ js) = cover is \<union> cover js"
  by (simp_all add: cover_def)

lemma byStart_sort: "byStart (sort_key (\<lambda>i. (iv_start i, iv_end i)) is)"
proof -
  have "sorted (map (\<lambda>i. (iv_start i, iv_end i)) (sort_key (\<lambda>i. (iv_start i, iv_end i)) is))" by simp
  then show ?thesis unfolding sorted_map by (rule sorted_wrt_mono_rel [rotated]) auto
qed

lemma mergeRest_starts:
  assumes "byStart (prev # rest)" and "i \<in> set (mergeRest prev rest)"
  shows "iv_start prev \<le> iv_start i"
  using assms by (induction prev rest rule: mergeRest.induct) (force split: if_splits)+

lemma mergeRest_cover:
  assumes "byStart (prev # rest)"
  shows "cover (mergeRest prev rest) = pts prev \<union> cover rest"
  using assms
proof (induction prev rest rule: mergeRest.induct)
  case (2 prev cur rest)
  show ?case
  proof (cases "iv_start cur \<le> iv_end prev")
    case True
    let ?m = "if iv_end prev < iv_end cur then prev\<lparr>iv_end := iv_end cur\<rparr> else prev"
    have "byStart (?m # rest)" using 2(3) by simp
    with 2(1) True have "cover (mergeRest prev (cur # rest)) = pts ?m \<union> cover rest" by simp
    also have "pts ?m = pts prev \<union> pts cur" using True 2(3) by (auto simp: pts_def)
    finally show ?thesis by auto
  next
    case False
    then show ?thesis using 2 by simp
  qed
qed simp

lemma mergeRest_separated:
  assumes "byStart (prev # rest)"
  shows "separated (mergeRest prev rest)"
  using assms
proof (induction prev rest rule: mergeRest.induct)
  case (2 prev cur rest)
  show ?case
  proof (cases "iv_start cur \<le> iv_end prev")
    case True
    let ?m = "if iv_end prev < iv_end cur then prev\<lparr>iv_end := iv_end cur\<rparr> else prev"
    have "byStart (?m # rest)" using 2(3) by simp
    with 2(1) True show ?thesis by simp
  next
    case False
    then have "separated (mergeRest cur rest)" using 2 by simp
    moreover have "iv_end prev < iv_start i" if "i \<in> set (mergeRest cur rest)" for i
      using mergeRest_starts [OF _ that] 2(3) False by fastforce
    ultimately show ?thesis using False by simp
  qed
qed simp

lemma mergeIntervals_cover: "cover (mergeIntervals is) = cover is"
proof (cases "sort_key (\<lambda>i. (iv_start i, iv_end i)) is")
  case Nil
  then have "is = []" by (metis length_0_conv length_sort)
  then show ?thesis by (simp add: mergeIntervals_def)
next
  case (Cons first rest)
  have "cover (first # rest) = cover is" using Cons by (metis cover_def set_sort)
  moreover have "byStart (first # rest)" using byStart_sort [of "is"] Cons by simp
  ultimately show ?thesis using mergeRest_cover Cons by (simp add: mergeIntervals_def)
qed

lemma mergeIntervals_separated: "separated (mergeIntervals is)"
  using byStart_sort [of "is"] mergeRest_separated
  by (auto simp: mergeIntervals_def split: list.splits)

lemma mergeIntervals_byStart: "byStart (mergeIntervals is)"
proof (cases "sort_key (\<lambda>i. (iv_start i, iv_end i)) is")
  case (Cons first rest)
  have "byStart (mergeRest prev xs)" if "byStart (prev # xs)" for prev xs
    using that
  proof (induction prev xs rule: mergeRest.induct)
    case (2 prev cur rest)
    show ?case
    proof (cases "iv_start cur \<le> iv_end prev")
      case True
      let ?m = "if iv_end prev < iv_end cur then prev\<lparr>iv_end := iv_end cur\<rparr> else prev"
      have "byStart (?m # rest)" using 2(3) by simp
      with 2(1) True show ?thesis by simp
    next
      case False
      moreover have "iv_start prev \<le> iv_start i" if "i \<in> set (mergeRest cur rest)" for i
        using mergeRest_starts [OF _ that] 2(3) by fastforce
      ultimately show ?thesis using 2 by simp
    qed
  qed simp
  then show ?thesis using byStart_sort [of "is"] Cons by (simp add: mergeIntervals_def)
qed (simp add: mergeIntervals_def)

lemma invertLoop_cover:
  assumes "byStart busy" and "rs \<le> cursor"
  shows "cover (invertLoop rs re cursor busy) = {t. cursor \<le> t \<and> t < re} - cover busy"
  using assms
proof (induction rs re cursor busy rule: invertLoop.induct)
  case (1 rs re cursor)
  then show ?case by (auto simp: pts_def)
next
  case (2 rs re cursor b busy)
  have later: "t \<notin> cover busy" if "t < iv_start b" for t
    using 2(4) that by (auto simp: cover_def pts_def)
  show ?case
  proof (cases "iv_end b \<le> rs")
    case True
    then show ?thesis using 2 by (auto simp: pts_def)
  next
    case not_before: False
    show ?thesis
    proof (cases "iv_start b < re")
      case False
      then show ?thesis using not_before 2(4,5) later by (auto simp: pts_def)
    next
      case True
      let ?bs = "if iv_start b < rs then rs else iv_start b"
      let ?be = "if re < iv_end b then re else iv_end b"
      let ?c = "if cursor < ?be then ?be else cursor"
      have ih: "cover (invertLoop rs re ?c busy) = {t. ?c \<le> t \<and> t < re} - cover busy"
        using 2(2,3) not_before True 2(4,5) by (cases "cursor < ?bs") (simp_all add: Let_def)
      have "cover (invertLoop rs re cursor (b # busy))
          = {t. cursor \<le> t \<and> t < ?bs} \<union> cover (invertLoop rs re ?c busy)"
        using not_before True by (auto simp: Let_def pts_def)
      also have "\<dots> = {t. cursor \<le> t \<and> t < re} - cover (b # busy)"
        unfolding ih using later 2(5) True not_before by (auto simp: pts_def split: if_splits)
      finally show ?thesis .
    qed
  qed
qed

lemma free_cover:
  "cover (invertBusy rs re (mergeIntervals busy)) = {t. rs \<le> t \<and> t < re} - cover busy"
  unfolding invertBusy_def using invertLoop_cover [OF mergeIntervals_byStart] mergeIntervals_cover by simp

section \<open>Clipping\<close>

definition workTime :: "location \<Rightarrow> freeSlotOptions \<Rightarrow> int set" where
  "workTime loc opts = {t. \<exists>day. dayAllowed opts (weekday loc day) \<and> t \<in> pts (daySegment loc opts day)}"

lemma pts_intersect: "pts (intersect a b) = pts a \<inter> pts b"
  by (auto simp: pts_def intersect_def)

lemma clipDay_sound: "cover (clipDay loc opts win day out) \<subseteq> cover out \<union> (pts win \<inter> workTime loc opts)"
  by (auto simp: clipDay_def Let_def pts_intersect workTime_def)

lemma clipDays_sound:
  assumes "clipDays loc opts win day out = Some out'"
  shows "cover out' \<subseteq> cover out \<union> (pts win \<inter> workTime loc opts)"
proof (rule clipDays.raw_induct [where P = "\<lambda>loc opts win day out out'.
    cover out' \<subseteq> cover out \<union> (pts win \<inter> workTime loc opts)", OF _ assms], goal_cases)
  case (1 f loc opts win day out out')
  show ?case
  proof (cases "day \<le> iv_end win")
    case True
    then have "f loc opts win (nextLocalCivilDay loc day) (clipDay loc opts win day out) = Some out'"
      using 1(2) by simp
    from 1(1) [OF this] clipDay_sound [of loc opts win day out] show ?thesis by blast
  next
    case False
    then show ?thesis using 1(2) by simp
  qed
qed

lemma clipWindows_sound:
  "clipWindows loc opts free out = Some out' \<Longrightarrow> cover out' \<subseteq> cover out \<union> (cover free \<inter> workTime loc opts)"
proof (induction free arbitrary: out)
  case (Cons win free)
  then obtain mid where mid: "clipDays loc opts win (firstDay loc opts win) out = Some mid"
    "clipWindows loc opts free mid = Some out'" by (auto split: option.splits)
  from clipDays_sound [OF mid(1)] Cons.IH [OF mid(2)] show ?case by auto
qed simp

section \<open>Placement\<close>

definition slotsIn :: "duration \<Rightarrow> int \<Rightarrow> int \<Rightarrow> interval list \<Rightarrow> bool" where
  "slotsIn dur lo hi slots \<longleftrightarrow>
     (\<forall>s \<in> set slots. iv_end s = iv_start s + dur \<and> lo \<le> iv_start s \<and> iv_end s \<le> hi)
     \<and> sorted_wrt (\<lambda>a b. iv_end a \<le> iv_start b) slots"

lemma placeSlots_sound:
  assumes "placeSlots dur limit win cursor out = (out', full)" and "0 < dur" and "length out < limit"
  shows "\<exists>new. out' = out @ new \<and> slotsIn dur cursor (iv_end win) new
    \<and> length out' \<le> limit \<and> (\<not> full \<longrightarrow> length out' < limit)"
  using assms
proof (induction dur limit win cursor out rule: placeSlots.induct)
  case (1 dur limit win cursor out)
  let ?s = "Iv cursor (cursor + dur)"
  note unf = placeSlots.simps [of dur limit win cursor out]
  show ?case
  proof (cases "iv_end win < cursor + dur")
    case True
    then have "out' = out" using 1(2) unf by simp
    then show ?thesis using 1(4) by (intro exI [of _ "[]"]) (simp add: slotsIn_def)
  next
    case room: False
    show ?thesis
    proof (cases "limit \<le> length (out @ [?s])")
      case True
      then have "out' = out @ [?s]" "full" using 1(2) unf room by (simp_all add: Let_def)
      then show ?thesis using 1(4) room by (intro exI [of _ "[?s]"]) (simp add: slotsIn_def)
    next
      case False
      then have "placeSlots dur limit win (cursor + dur) (out @ [?s]) = (out', full)"
        using 1(2) unf room by (simp add: Let_def)
      with 1(1) [OF refl room refl False] 1(3) False obtain new where
        new: "out' = (out @ [?s]) @ new" "slotsIn dur (cursor + dur) (iv_end win) new"
          "length out' \<le> limit" "\<not> full \<longrightarrow> length out' < limit" by auto
      have "slotsIn dur cursor (iv_end win) (?s # new)"
        using new(2) room 1(3) by (fastforce simp: slotsIn_def)
      then show ?thesis using new by (intro exI [of _ "?s # new"]) simp
    qed
  qed
qed

lemma placeWindows_sound:
  assumes "separated free" and "0 < dur" and "length out < limit"
    and "sorted_wrt (\<lambda>a b. iv_end a \<le> iv_start b) out"
    and "\<forall>s \<in> set out. \<forall>w \<in> set free. iv_end s \<le> iv_start w"
  shows "\<exists>new. placeWindows dur limit free out = out @ new \<and> length (out @ new) \<le> limit
    \<and> sorted_wrt (\<lambda>a b. iv_end a \<le> iv_start b) (out @ new)
    \<and> (\<forall>s \<in> set new. iv_end s = iv_start s + dur
         \<and> (\<exists>w \<in> set free. iv_start w \<le> iv_start s \<and> iv_end s \<le> iv_end w))"
  using assms
proof (induction free arbitrary: out)
  case Nil
  then show ?case by (intro exI [of _ "[]"]) simp
next
  case (Cons win free)
  obtain mid full where m: "placeSlots dur limit win (iv_start win) out = (mid, full)" by fastforce
  from placeSlots_sound [OF m Cons.prems(2,3)] obtain new where
    new: "mid = out @ new" "slotsIn dur (iv_start win) (iv_end win) new" "length mid \<le> limit"
      "\<not> full \<longrightarrow> length mid < limit" by blast
  have srt: "sorted_wrt (\<lambda>a b. iv_end a \<le> iv_start b) (out @ new)"
    using Cons.prems(4,5) new(2) by (fastforce simp: slotsIn_def sorted_wrt_append)
  have inwin: "\<forall>s \<in> set new. iv_end s = iv_start s + dur \<and> iv_start win \<le> iv_start s \<and> iv_end s \<le> iv_end win"
    using new(2) by (auto simp: slotsIn_def)
  show ?case
  proof (cases full)
    case True
    then show ?thesis using m new srt inwin by (intro exI [of _ new]) auto
  next
    case False
    have "\<forall>s \<in> set mid. \<forall>w \<in> set free. iv_end s \<le> iv_start w"
      using Cons.prems(1,5) inwin new(1) by fastforce
    with Cons.IH [of mid] Cons.prems(1,2) new False srt obtain rest where
      r: "placeWindows dur limit free mid = mid @ rest" "length (mid @ rest) \<le> limit"
        "sorted_wrt (\<lambda>a b. iv_end a \<le> iv_start b) (mid @ rest)"
        "\<forall>s \<in> set rest. iv_end s = iv_start s + dur
           \<and> (\<exists>w \<in> set free. iv_start w \<le> iv_start s \<and> iv_end s \<le> iv_end w)" by auto
    then show ?thesis using m False new(1) inwin by (intro exI [of _ "new @ rest"]) auto
  qed
qed

section \<open>Properties\<close>

text \<open>
  Merging busy intervals keeps exactly the busy instants and leaves a gap between any two
  results, so no zero-length free time remains between them.
\<close>

theorem merge_intervals_correct:
  "cover (mergeIntervals busy) = cover busy \<and> separated (mergeIntervals busy)"
  by (simp add: mergeIntervals_cover mergeIntervals_separated)

lemma findFreeSlots_Inr:
  assumes "findFreeSlots loc busy opts = Some (Inr slots)"
  obtains clipped where "0 < fo_duration opts"
    and "clipWindows loc opts (invertBusy (fo_rangeStart opts) (fo_rangeEnd opts) (mergeIntervals busy)) []
           = Some clipped"
    and "slots = placeWindows (fo_duration opts) (slotLimit opts) (mergeIntervals clipped) []"
  using assms
  by (auto simp: findFreeSlots_def clipWorkingHours_def split: if_splits option.splits)

text \<open>
  C15. Every proposed slot is really free. When \<open>FindFreeSlots\<close> answers with slots, each has exactly the
  requested duration, every instant of it lies in the search range, outside every busy interval
  and inside the working hours of an allowed day; the slots are in order and do not overlap, and
  there are at most as many as the limit, never more than 200.
\<close>

theorem free_slots_sound:
  assumes "findFreeSlots loc busy opts = Some (Inr slots)"
  shows "(\<forall>s \<in> set slots. iv_end s = iv_start s + fo_duration opts
      \<and> pts s \<subseteq> {t. fo_rangeStart opts \<le> t \<and> t < fo_rangeEnd opts} - cover busy
      \<and> pts s \<subseteq> workTime loc opts)
    \<and> sorted_wrt (\<lambda>a b. iv_end a \<le> iv_start b) slots
    \<and> length slots \<le> slotLimit opts \<and> slotLimit opts \<le> 200"
proof -
  from findFreeSlots_Inr [OF assms] obtain clipped where dur: "0 < fo_duration opts"
    and clip: "clipWindows loc opts (invertBusy (fo_rangeStart opts) (fo_rangeEnd opts) (mergeIntervals busy)) []
      = Some clipped"
    and slots: "slots = placeWindows (fo_duration opts) (slotLimit opts) (mergeIntervals clipped) []" .
  have "0 < slotLimit opts" by (simp add: slotLimit_def)
  then have "\<exists>new. placeWindows (fo_duration opts) (slotLimit opts) (mergeIntervals clipped) [] = [] @ new
    \<and> length ([] @ new) \<le> slotLimit opts \<and> sorted_wrt (\<lambda>a b. iv_end a \<le> iv_start b) ([] @ new)
    \<and> (\<forall>s \<in> set new. iv_end s = iv_start s + fo_duration opts
         \<and> (\<exists>w \<in> set (mergeIntervals clipped). iv_start w \<le> iv_start s \<and> iv_end s \<le> iv_end w))"
    by (intro placeWindows_sound [OF mergeIntervals_separated dur]) simp_all
  then have len: "length slots \<le> slotLimit opts" and srt: "sorted_wrt (\<lambda>a b. iv_end a \<le> iv_start b) slots"
    and inw: "\<forall>s \<in> set slots. iv_end s = iv_start s + fo_duration opts
         \<and> (\<exists>w \<in> set (mergeIntervals clipped). iv_start w \<le> iv_start s \<and> iv_end s \<le> iv_end w)"
    unfolding slots append_Nil by metis+
  have sub: "pts s \<subseteq> cover clipped" if "s \<in> set slots" for s
  proof -
    from inw that obtain w where "w \<in> set (mergeIntervals clipped)" "iv_start w \<le> iv_start s"
      "iv_end s \<le> iv_end w" by blast
    then have "pts s \<subseteq> pts w" "pts w \<subseteq> cover (mergeIntervals clipped)" by (auto simp: cover_def pts_def)
    then have "pts s \<subseteq> cover (mergeIntervals clipped)" by (rule subset_trans)
    then show ?thesis by (simp add: mergeIntervals_cover)
  qed
  have "cover clipped \<subseteq> ({t. fo_rangeStart opts \<le> t \<and> t < fo_rangeEnd opts} - cover busy) \<inter> workTime loc opts"
    using clipWindows_sound [OF clip] by (simp add: free_cover)
  moreover have "slotLimit opts \<le> 200" by (simp add: slotLimit_def)
  ultimately show ?thesis using sub inw len srt by blast
qed

definition sampleSlotOptions :: "int \<Rightarrow> int \<Rightarrow> freeSlotOptions" where
  "sampleSlotOptions rs re = \<lparr>fo_rangeStart = rs, fo_rangeEnd = re, fo_duration = 60 * minute,
     fo_workingHourStart = 540, fo_workingHourEnd = 720, fo_daysOfWeek = [4], fo_limit = 2\<rparr>"

theorem free_slots_sound_witness:
  "findFreeSlots utcLocation [Iv (34200 * second) (36000 * second)] (sampleSlotOptions 0 (86400 * second))
     = Some (Inr [Iv (36000 * second) (39600 * second), Iv (39600 * second) (43200 * second)])
   \<and> pts (Iv (36000 * second) (39600 * second)) \<subseteq> workTime utcLocation (sampleSlotOptions 0 (86400 * second))"
proof -
  have run: "findFreeSlots utcLocation [Iv (34200 * second) (36000 * second)]
      (sampleSlotOptions 0 (86400 * second))
    = Some (Inr [Iv (36000 * second) (39600 * second), Iv (39600 * second) (43200 * second)])" by code_simp
  from free_slots_sound [OF run] run show ?thesis by auto
qed

section \<open>Termination of the day walk\<close>

text \<open>
  What the walk relies on: local midnight, as \<open>time.Date\<close> computes it, lies on its own civil day, and
  offsets stay below a day.
\<close>

definition regularZone :: "location \<Rightarrow> bool" where
  "regularZone loc \<longleftrightarrow> (\<forall>d. civilDay loc (goDate loc d 0) = d) \<and> (\<forall>sec. \<bar>fst (loc sec)\<bar> \<le> daySeconds)"

lemma goDate_lower:
  assumes "regularZone loc"
  shows "second * ((d - 1) * daySeconds) \<le> goDate loc d 0"
proof -
  have b: "\<bar>fst (loc x)\<bar> \<le> daySeconds" for x using assms by (simp add: regularZone_def)
  obtain off st en where l: "loc (d * daySeconds) = (off, st, en)" by (metis prod_cases3)
  have "off \<le> daySeconds" using b [of "d * daySeconds"] l by simp
  moreover have "fst (loc (d * daySeconds - off)) \<le> daySeconds" using b [of "d * daySeconds - off"] by simp
  ultimately show ?thesis using l by (simp add: goDate_def Let_def)
qed

lemma clipDays_terminates:
  assumes "regularZone loc"
  shows "\<exists>out'. clipDays loc opts win (goDate loc d 0) out = Some out'"
proof -
  define E where "E = iv_end win div (second * daySeconds) + 2"
  have past: "iv_end win < goDate loc x 0" if "E \<le> x" for x
  proof -
    have "iv_end win < (second * daySeconds) * (E - 1)" unfolding E_def by (simp add: algebra_simps)
    also have "\<dots> \<le> (second * daySeconds) * (x - 1)" using that by simp
    finally show ?thesis using goDate_lower [OF assms, of x] by (simp add: algebra_simps)
  qed
  show ?thesis
  proof (induction "nat (E - d)" arbitrary: d out rule: less_induct)
    case less
    show ?case
    proof (cases "goDate loc d 0 \<le> iv_end win")
      case False
      then show ?thesis by (subst clipDays.simps) simp
    next
      case True
      then have "d < E" using past [of d] by linarith
      then have "nat (E - (d + 1)) < nat (E - d)" by simp
      from less [OF this] have "\<exists>out'. clipDays loc opts win (goDate loc (d + 1) 0)
          (clipDay loc opts win (goDate loc d 0) out) = Some out'" .
      moreover have "nextLocalCivilDay loc (goDate loc d 0) = goDate loc (d + 1) 0"
        using assms by (simp add: nextLocalCivilDay_def regularZone_def)
      ultimately show ?thesis using True by (subst clipDays.simps) simp
    qed
  qed
qed

lemma clipWindows_terminates:
  assumes "regularZone loc"
  shows "\<exists>out'. clipWindows loc opts free out = Some out'"
proof (induction free arbitrary: out)
  case (Cons win free)
  have "\<exists>d. firstDay loc opts win = goDate loc d 0"
    by (auto simp: firstDay_def startOfLocalDay_def prevLocalCivilDay_def Let_def)
  then obtain out' where "clipDays loc opts win (firstDay loc opts win) out = Some out'"
    using clipDays_terminates [OF assms] by metis
  with Cons.IH [of out'] show ?case by simp
qed simp

text \<open>
  C16. The search for free slots ends in every location in which local midnight lies on its own day
  (in particular across ordinary DST changes, which happen at other hours), for all busy
  intervals and options.
\<close>

theorem free_slots_terminates:
  assumes "regularZone loc"
  shows "\<exists>r. findFreeSlots loc busy opts = Some r"
proof -
  obtain clipped where "clipWindows loc opts
      (invertBusy (fo_rangeStart opts) (fo_rangeEnd opts) (mergeIntervals busy)) [] = Some clipped"
    using clipWindows_terminates [OF assms] by blast
  then show ?thesis by (simp add: findFreeSlots_def clipWorkingHours_def)
qed

lemma goDate_stable:
  assumes "fst (loc (d * daySeconds)) = off" and "fst (loc (d * daySeconds - off)) = off"
  shows "goDate loc d 0 = second * (d * daySeconds - off)"
proof -
  obtain st en where "loc (d * daySeconds) = (off, st, en)" using assms(1) by (metis prod.collapse)
  then show ?thesis using assms(2) by (simp add: goDate_def Let_def)
qed

lemma civilDay_seconds: "civilDay loc (second * x) = (x + fst (loc x)) div daySeconds"
  by (simp add: civilDay_def Let_def)

lemma midnight_on_day:
  assumes "fst (loc (d * daySeconds)) = off" and "fst (loc (d * daySeconds - off)) = off"
  shows "civilDay loc (goDate loc d 0) = d"
  unfolding goDate_stable [OF assms] civilDay_seconds assms(2) by simp

text \<open>A zone with the change of Europe/Paris on 29 March 2026 at 01:00 UTC.\<close>

definition parisZone :: location where
  "parisZone sec = (if sec < 1774746000 then (3600, - (2 ^ 63), 1774746000)
                    else (7200, 1774746000, 2 ^ 63 - 1))"

lemma parisZone_regular: "regularZone parisZone"
proof -
  have "civilDay parisZone (goDate parisZone d 0) = d" for d
  proof (cases "d * daySeconds < 1774746000")
    case True
    then show ?thesis by (intro midnight_on_day [of _ _ 3600]) (simp_all add: parisZone_def)
  next
    case False
    then have "20542 \<le> d" by linarith
    then have "1774746000 \<le> d * daySeconds - 7200" by simp
    then show ?thesis by (intro midnight_on_day [of _ _ 7200]) (simp_all add: parisZone_def)
  qed
  then show ?thesis by (simp add: regularZone_def parisZone_def)
qed

theorem free_slots_terminates_witness: 
  "\<exists>r. findFreeSlots parisZone [] (sampleSlotOptions 0 (86400 * second)) = Some r"
  by (rule free_slots_terminates [OF parisZone_regular])

section \<open>Midnight gaps\<close>

lemma clipDays_stuck:
  assumes "nextLocalCivilDay loc day = day" and "day \<le> iv_end win"
  shows "clipDays loc opts win day out = None"
proof (rule ccontr)
  assume "clipDays loc opts win day out \<noteq> None"
  then obtain y where y: "clipDays loc opts win day out = Some y" by blast
  have "\<not> (nextLocalCivilDay loc day = day \<and> day \<le> iv_end win)"
  proof (rule clipDays.raw_induct [where P = "\<lambda>loc opts win day out y.
      \<not> (nextLocalCivilDay loc day = day \<and> day \<le> iv_end win)", OF _ y], goal_cases)
    case (1 f loc opts win day out y)
    then show ?case by (auto split: if_splits)
  qed
  with assms show False by blast
qed

text \<open>
  America/Santiago on 8 September 2024: at 04:00 UTC the offset changes from -4 to -3 hours, so the
  local hour after midnight does not exist.
\<close>

definition santiagoZone :: location where
  "santiagoZone sec = (if sec < 1725768000 then (-14400, - (2 ^ 63), 1725768000)
                       else (-10800, 1725768000, 2 ^ 63 - 1))"

definition santiagoOptions :: freeSlotOptions where
  "santiagoOptions = \<lparr>fo_rangeStart = 1725710400 * second, fo_rangeEnd = 1725883200 * second,
     fo_duration = 60 * minute, fo_workingHourStart = 0, fo_workingHourEnd = 0, fo_daysOfWeek = [],
     fo_limit = 0\<rparr>"

text \<open>
  The search for free slots does not end when its range contains a midnight that daylight saving
  skips: for two days of September 2024 in America/Santiago, with no busy interval at all, the walk
  over civil days stays at 23:00 of 7 September forever, because \<open>nextLocalCivilDay\<close> of that
  instant is the instant itself.
\<close>

theorem free_slots_diverges_at_midnight_gap:
  "findFreeSlots santiagoZone [] santiagoOptions = None"
proof -
  let ?win = "Iv 1725710400000000000 1725883200000000000"
  have first: "firstDay santiagoZone santiagoOptions ?win = 1725681600000000000" by code_simp
  have n1: "nextLocalCivilDay santiagoZone 1725681600000000000 = 1725764400000000000" by code_simp
  have n2: "nextLocalCivilDay santiagoZone 1725764400000000000 = 1725764400000000000" by code_simp
  have free: "invertBusy (fo_rangeStart santiagoOptions) (fo_rangeEnd santiagoOptions) (mergeIntervals [])
      = [?win]" by code_simp
  have "clipDays santiagoZone santiagoOptions ?win 1725681600000000000 [] = None"
    by (subst clipDays.simps) (simp add: n1 clipDays_stuck [OF n2])
  then have "clipWorkingHours santiagoZone santiagoOptions [?win] = None"
    by (simp add: clipWorkingHours_def first)
  then show ?thesis unfolding findFreeSlots_def free by (simp add: santiagoOptions_def)
qed

end
