(* ===== verification/Config_Load.thy ===== *)
theory Config_Load
  imports Scopes Go_Encoding "HOL-Library.Word" "HOL-Library.List_Lexorder" "HOL-Library.Char_ord"
begin

text \<open>
  \<open>internal/config/config.go\<close>, the loader: the SMTP recipient policy, the \<open>Config\<close> record, \<open>Load\<close>,
  \<open>Validate\<close>, credential files and the strict readers of single variables. What the process sees
  of the outside is the record \<open>host\<close>: the environment, \<open>os.Stat\<close>, \<open>os.OpenFile\<close>,
  \<open>mail.ParseAddress\<close> and \<open>time.LoadLocation\<close>. Nothing is assumed of them: the file that is opened
  need not be the file that was examined, and the address parser may accept anything. \<open>Validate\<close>
  updates the configuration in place; here it returns the updated record. A configuration error
  is its message.
\<close>

unbundle bit_operations_syntax

section \<open>The host\<close>

datatype fileError =
    NotRegular | TooLarge | InsecurePerms
  | OsNotExist | OsPermission | OsOther

record fileInfo =
  fi_mode :: "32 word"
  fi_size :: int

record openFile =
  of_stat :: "fileError + fileInfo"
  of_content :: "fileError + bytes"

record 'loc host =
  h_getenv :: "string \<Rightarrow> string"
  h_stat :: "string \<Rightarrow> fileError + fileInfo"
  h_open :: "string \<Rightarrow> fileError + openFile"
  h_parseAddress :: "string \<Rightarrow> (string \<times> string) option"
  h_loadLocation :: "string \<Rightarrow> 'loc option"
  h_utc :: 'loc

section \<open>Plain addresses\<close>

definition isASCII :: "string \<Rightarrow> bool" where
  "isASCII value \<longleftrightarrow> list_all (\<lambda>c. bval c < 0x80) value"

definition asciiLower :: "string \<Rightarrow> string" where
  "asciiLower value = map lowerByte value"

definition hasCredentialControl :: "string \<Rightarrow> bool" where
  "hasCredentialControl value \<longleftrightarrow> containsAny value [cr, lf, nul]"

definition normalizePlainAddress ::
  "(string \<Rightarrow> (string \<times> string) option) \<Rightarrow> string \<Rightarrow> string option" where
  "normalizePlainAddress parseAddress v =
     (if containsAny v [cr, lf, nul] then None
      else
        (let value = trimSpace v in
         if value = [] \<or> \<not> isASCII value then None
         else case parseAddress value of
                None \<Rightarrow> None
              | Some (name, address) \<Rightarrow>
                  if name \<noteq> [] \<or> address \<noteq> value then None else Some (asciiLower value)))"

section \<open>The recipient policy\<close>

record recipientPolicy =
  rp_allowAll :: bool
  rp_exact :: "string set"

definition noRecipients :: recipientPolicy where
  "noRecipients = \<lparr>rp_allowAll = False, rp_exact = {}\<rparr>"

fun recipientParts ::
  "(string \<Rightarrow> (string \<times> string) option) \<Rightarrow> string list \<Rightarrow> string set \<Rightarrow> config_error + string set" where
  "recipientParts parseAddress [] exact = Inr exact"
| "recipientParts parseAddress (part # parts) exact =
     (if containsStr part ''*''
      then Inl ''invalid ICLOUD_MCP_SMTP_ALLOWED_RECIPIENTS: wildcard is valid only as the complete value''
      else case normalizePlainAddress parseAddress part of
             None \<Rightarrow> Inl ''invalid ICLOUD_MCP_SMTP_ALLOWED_RECIPIENTS: expected exact email addresses or literal *''
           | Some address \<Rightarrow>
               if address \<in> exact
               then Inl ''invalid ICLOUD_MCP_SMTP_ALLOWED_RECIPIENTS: duplicate email address''
               else recipientParts parseAddress parts (insert address exact))"

definition parseRecipientPolicy ::
  "(string \<Rightarrow> (string \<times> string) option) \<Rightarrow> string \<Rightarrow> config_error + recipientPolicy" where
  "parseRecipientPolicy parseAddress v =
     (let value = trimSpace v in
      if value = [] then Inl ''ICLOUD_MCP_SMTP_ALLOWED_RECIPIENTS must not be empty''
      else if value = ''*'' then Inr \<lparr>rp_allowAll = True, rp_exact = {}\<rparr>
      else andThen (recipientParts parseAddress (splitByte value CHR '','') {})
             (\<lambda>exact. Inr \<lparr>rp_allowAll = False, rp_exact = exact\<rparr>))"

definition policyAllows ::
  "(string \<Rightarrow> (string \<times> string) option) \<Rightarrow> recipientPolicy \<Rightarrow> string \<Rightarrow> bool" where
  "policyAllows parseAddress p address =
     (case normalizePlainAddress parseAddress address of
        None \<Rightarrow> False
      | Some normalized \<Rightarrow> if rp_allowAll p then True else normalized \<in> rp_exact p)"

definition policyConfigured :: "recipientPolicy \<Rightarrow> bool" where
  "policyConfigured p \<longleftrightarrow> rp_allowAll p \<or> card (rp_exact p) \<noteq> 0"

definition policyRecipients :: "recipientPolicy \<Rightarrow> string list" where
  "policyRecipients p = (if rp_allowAll p then [''*''] else sorted_list_of_set (rp_exact p))"

definition recipientPolicyFromAddresses ::
  "(string \<Rightarrow> (string \<times> string) option) \<Rightarrow> string list \<Rightarrow> config_error + recipientPolicy" where
  "recipientPolicyFromAddresses parseAddress addresses =
     (if addresses = [] then Inr noRecipients
      else parseRecipientPolicy parseAddress (joinByte CHR '','' addresses))"

section \<open>Credential files\<close>

text \<open>\<open>fs.ModeType\<close> and the two predicates of \<open>fs.FileMode\<close> the loader uses.\<close>

definition modeType :: "32 word" where "modeType = 0x8F280000"

definition modeIsRegular :: "32 word \<Rightarrow> bool" where
  "modeIsRegular m \<longleftrightarrow> m AND modeType = 0"

definition modePerm :: "32 word \<Rightarrow> 32 word" where
  "modePerm m = m AND 0x1FF"

definition maxCredentialFileBytes :: nat where "maxCredentialFileBytes = 4096"

text \<open>The three checks, which the code makes before and again after opening.\<close>

definition credentialFileInfo :: "fileInfo \<Rightarrow> fileError option" where
  "credentialFileInfo info =
     (if \<not> modeIsRegular (fi_mode info) then Some NotRegular
      else if modePerm (fi_mode info) AND 0x3F \<noteq> 0 then Some InsecurePerms
      else if int maxCredentialFileBytes < fi_size info then Some TooLarge
      else None)"

definition readCredentialFile :: "'loc host \<Rightarrow> string \<Rightarrow> fileError + bytes" where
  "readCredentialFile h path =
     andThen (h_stat h path) (\<lambda>info.
       case credentialFileInfo info of
         Some e \<Rightarrow> Inl e
       | None \<Rightarrow>
           andThen (h_open h path) (\<lambda>file.
             andThen (of_stat file) (\<lambda>info'.
               case credentialFileInfo info' of
                 Some e \<Rightarrow> Inl e
               | None \<Rightarrow>
                   andThen (of_content file) (\<lambda>content.
                     let data = take (maxCredentialFileBytes + 1) content in
                     if maxCredentialFileBytes < length data then Inl TooLarge else Inr data))))"

definition hasDotDotSegment :: "string \<Rightarrow> bool" where
  "hasDotDotSegment path \<longleftrightarrow> list_ex (\<lambda>seg. seg = ''..'') (splitByte path CHR ''/'')"

fun fileReadReason :: "fileError \<Rightarrow> string" where
  "fileReadReason NotRegular = ''not_regular''"
| "fileReadReason TooLarge = ''too_large''"
| "fileReadReason InsecurePerms = ''insecure_permissions''"
| "fileReadReason OsNotExist = ''not_found''"
| "fileReadReason OsPermission = ''permission_denied''"
| "fileReadReason OsOther = ''unreadable''"

definition loadCredential :: "'loc host \<Rightarrow> string \<Rightarrow> config_error + string" where
  "loadCredential h envVar =
     (let val = h_getenv h envVar in
      if hasPrefix val ''file://'' then
        (let path = trimPrefix val ''file://'' in
         if path = [] then Inl (''reading '' @ envVar @ '': file:// path is empty'')
         else if hasDotDotSegment path
         then Inl (''reading '' @ envVar @ '': file:// path must not contain '' @ [CHR 0x27] @ ''..'' @ [CHR 0x27])
         else case readCredentialFile h path of
                Inl err \<Rightarrow> Inl (''reading '' @ envVar @ '' from file:// failed ('' @ fileReadReason err @ '')'')
              | Inr data \<Rightarrow> Inr (trimSpace data))
      else Inr val)"

section \<open>Single variables\<close>

definition parseBool :: "string \<Rightarrow> string \<Rightarrow> config_error + bool" where
  "parseBool envVar value =
     (let v = toLower (trimSpace value) in
      if v \<in> set ['''', ''0'', ''false''] then Inr False
      else if v \<in> set [''1'', ''true''] then Inr True
      else Inl (''invalid '' @ envVar @ '': expected 0, false, 1, or true''))"

datatype logLevel = LevelDebug | LevelInfo | LevelWarn | LevelError

definition parseLogLevel :: "string \<Rightarrow> logLevel" where
  "parseLogLevel value =
     (let v = toLower (trimSpace value) in
      if v \<in> set [''debug'', ''-4''] then LevelDebug
      else if v \<in> set [''warn'', ''warning'', ''2''] then LevelWarn
      else if v \<in> set [''error'', ''4''] then LevelError
      else LevelInfo)"

definition loadDefaultLocation :: "'loc host \<Rightarrow> string \<Rightarrow> config_error + 'loc" where
  "loadDefaultLocation h tz =
     (if tz = [] then Inr (h_utc h)
      else case h_loadLocation h tz of
             None \<Rightarrow> Inl ''invalid ICLOUD_MCP_DEFAULT_TZ: must be a valid IANA timezone name''
           | Some loc \<Rightarrow> Inr loc)"

section \<open>The configuration\<close>

record 'loc config =
  cf_email :: string
  cf_password :: string
  cf_readOnly :: bool
  cf_permissions :: permissions
  cf_resourceScopes :: resourceScopes
  cf_enableContacts :: bool
  cf_enableMail :: bool
  cf_enableMailWrite :: bool
  cf_enableMailSend :: bool
  cf_mailAddress :: string
  cf_mailPassword :: string
  cf_smtpAllowedRecipients :: "string list"
  cf_smtpRecipientPolicy :: recipientPolicy
  cf_timeout :: int
  cf_logLevel :: logLevel
  cf_defaultLocation :: 'loc

definition minRedactableIdentityBytes :: nat where "minRedactableIdentityBytes = 4"

definition configRequestsCalendar :: "'loc config \<Rightarrow> bool" where
  "configRequestsCalendar c =
     fst (requestedDomains (cf_enableContacts c) (cf_enableMail c) (cf_permissions c))"

definition configRequestsContacts :: "'loc config \<Rightarrow> bool" where
  "configRequestsContacts c =
     fst (snd (requestedDomains (cf_enableContacts c) (cf_enableMail c) (cf_permissions c)))"

definition configRequestsMail :: "'loc config \<Rightarrow> bool" where
  "configRequestsMail c =
     snd (snd (requestedDomains (cf_enableContacts c) (cf_enableMail c) (cf_permissions c)))"

text \<open>\<open>Validate\<close>, one definition per block of the function.\<close>

definition validateAccount :: "'loc host \<Rightarrow> 'loc config \<Rightarrow> config_error + 'loc config" where
  "validateAccount h c =
     (if configRequestsCalendar c \<or> configRequestsContacts c then
        (if length (cf_email c) < minRedactableIdentityBytes \<or> hasCredentialControl (cf_email c)
         then Inl ''invalid ICLOUD_EMAIL: must be a valid email address''
         else case normalizePlainAddress (h_parseAddress h) (cf_email c) of
                None \<Rightarrow> Inl ''invalid ICLOUD_EMAIL: must be a valid email address''
              | Some normalizedEmail \<Rightarrow>
                  if length normalizedEmail < minRedactableIdentityBytes
                  then Inl ''invalid ICLOUD_EMAIL: must be a valid email address''
                  else if hasCredentialControl (cf_password c)
                  then Inl ''invalid ICLOUD_PASSWORD: must not contain CR, LF, or NUL''
                  else if length (cf_password c) < 8
                  then Inl ''ICLOUD_PASSWORD must be at least 8 characters: use an app-specific password generated on appleid.apple.com''
                  else Inr (c\<lparr>cf_email := normalizedEmail\<rparr>))
      else Inr c)"

definition validateSwitches :: "'loc config \<Rightarrow> config_error + unit" where
  "validateSwitches c =
     (let p = cf_permissions c in
      if cf_enableMailWrite c \<and> \<not> cf_enableMail c
      then Inl ''ICLOUD_MCP_ENABLE_MAIL_WRITE requires ICLOUD_MCP_ENABLE_MAIL=true''
      else if cf_enableMailSend c \<and> \<not> cf_enableMail c
      then Inl ''ICLOUD_MCP_ENABLE_MAIL_SEND requires ICLOUD_MCP_ENABLE_MAIL=true''
      else if p_configured p \<and> (p_contactsRead p \<or> requestedContactsMutation p) \<and> \<not> cf_enableContacts c
      then Inl ''ICLOUD_MCP_PERMISSIONS requires ICLOUD_MCP_ENABLE_CONTACTS=true for Contacts capabilities''
      else if p_configured p \<and> (p_mailRead p \<or> requestedMailMutation p \<or> p_mailSend p \<or> p_mailArchive p)
              \<and> \<not> cf_enableMail c
      then Inl ''ICLOUD_MCP_PERMISSIONS requires ICLOUD_MCP_ENABLE_MAIL=true for Mail capabilities''
      else if p_configured p \<and> p_mailArchive p \<and> \<not> p_mailSend p
      then Inl ''ICLOUD_MCP_PERMISSIONS requires mail.send for mail.archive''
      else Inr ())"

definition validateMail :: "'loc host \<Rightarrow> 'loc config \<Rightarrow> config_error + 'loc config" where
  "validateMail h c =
     (if configRequestsMail c then
        (if hasCredentialControl (cf_mailAddress c)
         then Inl ''invalid ICLOUD_MAIL_ADDRESS: must be a full email address''
         else case normalizePlainAddress (h_parseAddress h) (cf_mailAddress c) of
                None \<Rightarrow> Inl ''invalid ICLOUD_MAIL_ADDRESS: must be a full email address''
              | Some normalized \<Rightarrow>
                  if length normalized < minRedactableIdentityBytes
                  then Inl ''invalid ICLOUD_MAIL_ADDRESS: must be a full email address''
                  else
                    (let mailPassword = (if cf_mailPassword c = [] then cf_password c
                                         else cf_mailPassword c) in
                     if hasCredentialControl mailPassword
                     then Inl ''invalid ICLOUD_MAIL_PASSWORD: must not contain CR, LF, or NUL''
                     else if length mailPassword < 8
                     then Inl ''ICLOUD_MAIL_PASSWORD must be at least 8 characters''
                     else Inr (c\<lparr>cf_mailAddress := normalized, cf_mailPassword := mailPassword\<rparr>)))
      else Inr c)"

definition requestedSend :: "'loc config \<Rightarrow> bool" where
  "requestedSend c =
     (if p_configured (cf_permissions c) then p_mailSend (cf_permissions c)
      else cf_enableMailSend c)"

definition validateRecipients :: "'loc host \<Rightarrow> 'loc config \<Rightarrow> config_error + 'loc config" where
  "validateRecipients h c =
     andThen (recipientPolicyFromAddresses (h_parseAddress h) (cf_smtpAllowedRecipients c)) (\<lambda>policy.
       if requestedSend c \<and> \<not> policyConfigured policy
       then Inl ''ICLOUD_MCP_SMTP_ALLOWED_RECIPIENTS is required when mail send is requested''
       else Inr (c\<lparr>cf_smtpRecipientPolicy := policy,
                   cf_smtpAllowedRecipients := policyRecipients policy\<rparr>))"

definition validateConfig :: "'loc host \<Rightarrow> 'loc config \<Rightarrow> config_error + 'loc config" where
  "validateConfig h c =
     andThen (validateAccount h c) (\<lambda>c1.
     andThen (validateSwitches c1) (\<lambda>_.
     andThen (validateMail h c1) (\<lambda>c2.
     validateRecipients h c2)))"

section \<open>Load\<close>

text \<open>
  The blocks of \<open>Load\<close> that read credentials. The password is read first, and for a server that
  only needs Mail it is read when no Mail password is set.
\<close>

definition loadAccount ::
  "'loc host \<Rightarrow> bool \<Rightarrow> bool \<Rightarrow> bool \<Rightarrow> config_error + string \<times> string" where
  "loadAccount h calendarRequested contactsRequested mailRequested =
     andThen
       (if calendarRequested \<or> contactsRequested
           \<or> mailRequested \<and> trimSpace (h_getenv h ''ICLOUD_MAIL_PASSWORD'') = []
        then loadCredential h ''ICLOUD_PASSWORD'' else Inr '''') (\<lambda>password.
     andThen
       (if calendarRequested \<or> contactsRequested
        then loadCredential h ''ICLOUD_EMAIL'' else Inr '''') (\<lambda>email.
     Inr (email, password)))"

definition loadMail :: "'loc host \<Rightarrow> bool \<Rightarrow> string \<Rightarrow> config_error + string \<times> string" where
  "loadMail h mailRequested password =
     (if mailRequested then
        andThen (loadCredential h ''ICLOUD_MAIL_ADDRESS'') (\<lambda>mailAddress.
        andThen (if h_getenv h ''ICLOUD_MAIL_PASSWORD'' = [] then Inr password
                 else loadCredential h ''ICLOUD_MAIL_PASSWORD'') (\<lambda>mailPassword.
        Inr (mailAddress, mailPassword)))
      else Inr ('''', ''''))"

definition loadRecipients :: "'loc host \<Rightarrow> config_error + recipientPolicy" where
  "loadRecipients h =
     (if trimSpace (h_getenv h ''ICLOUD_MCP_SMTP_ALLOWED_RECIPIENTS'') \<noteq> []
      then parseRecipientPolicy (h_parseAddress h) (h_getenv h ''ICLOUD_MCP_SMTP_ALLOWED_RECIPIENTS'')
      else Inr noRecipients)"

definition envBool :: "'loc host \<Rightarrow> string \<Rightarrow> config_error + bool" where
  "envBool h envVar = parseBool envVar (h_getenv h envVar)"

definition loadConfig :: "'loc host \<Rightarrow> config_error + 'loc config" where
  "loadConfig h =
     andThen (envBool h ''ICLOUD_MCP_READ_ONLY'') (\<lambda>readOnly.
     andThen (envBool h ''ICLOUD_MCP_ENABLE_CONTACTS'') (\<lambda>enableContacts.
     andThen (envBool h ''ICLOUD_MCP_ENABLE_MAIL'') (\<lambda>enableMail.
     andThen (envBool h ''ICLOUD_MCP_ENABLE_MAIL_WRITE'') (\<lambda>enableMailWrite.
     andThen (envBool h ''ICLOUD_MCP_ENABLE_MAIL_SEND'') (\<lambda>enableMailSend.
     andThen (parsePermissions (h_getenv h ''ICLOUD_MCP_PERMISSIONS'')) (\<lambda>permissions.
     andThen (parseResourceScopes (h_getenv h ''ICLOUD_MCP_RESOURCE_SCOPES'')) (\<lambda>scopes.
     case requestedDomains enableContacts enableMail permissions of
       (calendarRequested, contactsRequested, mailRequested) \<Rightarrow>
     andThen (loadAccount h calendarRequested contactsRequested mailRequested) (\<lambda>(email, password).
     andThen (loadDefaultLocation h (h_getenv h ''ICLOUD_MCP_DEFAULT_TZ'')) (\<lambda>loc.
     andThen (loadMail h mailRequested password) (\<lambda>(mailAddress, mailPassword).
     andThen (loadRecipients h) (\<lambda>policy.
     validateConfig h
       \<lparr>cf_email = email, cf_password = password, cf_readOnly = readOnly,
        cf_permissions = permissions, cf_resourceScopes = scopes,
        cf_enableContacts = enableContacts, cf_enableMail = enableMail,
        cf_enableMailWrite = enableMailWrite, cf_enableMailSend = enableMailSend,
        cf_mailAddress = mailAddress, cf_mailPassword = mailPassword,
        cf_smtpAllowedRecipients = policyRecipients policy, cf_smtpRecipientPolicy = policy,
        cf_timeout = 30 * 1000000000,
        cf_logLevel = parseLogLevel (h_getenv h ''ICLOUD_MCP_LOG_LEVEL''),
        cf_defaultLocation = loc\<rparr>)))))))))))"

section \<open>The effective configuration\<close>

definition effectivePermissions :: "'loc config \<Rightarrow> permissions" where
  "effectivePermissions c =
     (if p_configured (cf_permissions c) then effective (cf_permissions c) (cf_readOnly c)
      else legacyPermissions (cf_readOnly c) (cf_enableContacts c) (cf_enableMail c)
             (cf_enableMailWrite c) (cf_enableMailSend c))"

definition configCapabilities :: "'loc config \<Rightarrow> capabilitySet" where
  "configCapabilities c = capabilities (effectivePermissions c) (cf_readOnly c)"

definition effectiveContactsWrite :: "'loc config \<Rightarrow> bool" where
  "effectiveContactsWrite c = c_contactsWrite (configCapabilities c)"

definition effectiveContactsDelete :: "'loc config \<Rightarrow> bool" where
  "effectiveContactsDelete c = c_contactsDelete (configCapabilities c)"

definition effectiveMailWrite :: "'loc config \<Rightarrow> bool" where
  "effectiveMailWrite c \<longleftrightarrow>
     c_mailMutate (configCapabilities c) \<or> c_mailTrash (configCapabilities c)"

definition effectiveMailSend :: "'loc config \<Rightarrow> bool" where
  "effectiveMailSend c \<longleftrightarrow>
     c_mailSend (configCapabilities c) \<and> policyConfigured (cf_smtpRecipientPolicy c)"

section \<open>Trimmed text\<close>

text \<open>ASCII bytes that \<open>strings.TrimSpace\<close> keeps at the ends of a string.\<close>

definition asciiSpaces :: string where
  "asciiSpaces = [CHR 0x09, CHR 0x0A, CHR 0x0B, CHR 0x0C, CHR 0x0D, CHR 0x20]"

definition plainByte :: "char \<Rightarrow> bool" where
  "plainByte c \<longleftrightarrow> bval c < 0x80 \<and> c \<notin> set asciiSpaces"

lemma spaceRunes_heads:
  "list_all (\<lambda>r. r \<noteq> [] \<and> \<not> plainByte (hd r)) (spaceRunes @ map rev spaceRunes)"
  by code_simp

lemma spaceRunes_ascii:
  "list_all (\<lambda>c. [c] \<in> set spaceRunes \<and> [c] \<in> set (map rev spaceRunes)) asciiSpaces"
  by code_simp

lemma leadingSpace_zero: "\<forall>r \<in> set runes. \<not> hasPrefix s r \<Longrightarrow> leadingSpace runes s = 0"
  by (simp add: leadingSpace_def find_None_iff [THEN iffD2])

lemma leadingSpace_plain:
  assumes "s = [] \<or> plainByte (hd s)"
  shows "leadingSpace spaceRunes s = 0" and "leadingSpace (map rev spaceRunes) s = 0"
proof -
  have "\<not> hasPrefix s r" if "r \<in> set (spaceRunes @ map rev spaceRunes)" for r
  proof -
    have "r \<noteq> []" "\<not> plainByte (hd r)" using spaceRunes_heads that unfolding list_all_iff by blast+
    with assms show ?thesis by (cases s; cases r) auto
  qed
  then show "leadingSpace spaceRunes s = 0" "leadingSpace (map rev spaceRunes) s = 0"
    by (auto intro!: leadingSpace_zero)
qed

lemma trimLeftRunes_stop: "leadingSpace runes (trimLeftRunes runes s) = 0"
proof (induction runes s rule: trimLeftRunes.induct)
  case (1 runes s)
  then show ?case by (cases "leadingSpace runes s = 0") (simp_all add: trimLeftRunes.simps [of runes s])
qed

lemma leadingSpace_ascii:
  assumes "leadingSpace runes s = 0" "s \<noteq> []" "\<forall>r \<in> set runes. r \<noteq> []" "[c] \<in> set runes"
  shows "hd s \<noteq> c"
proof
  assume "hd s = c"
  with assms(2) have "hasPrefix s [c]" by (cases s) auto
  with assms(4) have "find (hasPrefix s) runes \<noteq> None" by (auto simp: find_None_iff)
  then obtain r where "find (hasPrefix s) runes = Some r" by blast
  moreover from this have "r \<in> set runes" by (metis find_Some_iff nth_mem)
  ultimately show False using assms(1,3) by (auto simp: leadingSpace_def)
qed

lemma spaceRunes_ne: "\<forall>r \<in> set spaceRunes. r \<noteq> []" "\<forall>r \<in> set (map rev spaceRunes). r \<noteq> []"
  using spaceRunes_heads by (auto simp: list_all_iff)

lemma leadingSpace_stopped:
  assumes "s \<noteq> []" "leadingSpace spaceRunes s = 0 \<or> leadingSpace (map rev spaceRunes) s = 0"
  shows "hd s \<notin> set asciiSpaces"
  using leadingSpace_ascii [OF _ assms(1) spaceRunes_ne(1)]
    leadingSpace_ascii [OF _ assms(1) spaceRunes_ne(2)] assms(2) spaceRunes_ascii
  unfolding list_all_iff by blast

lemma trimSpace_plain:
  assumes "s = [] \<or> plainByte (hd s) \<and> plainByte (last s)"
  shows "trimSpace s = s"
proof -
  have "trimLeftRunes spaceRunes s = s"
    using leadingSpace_plain(1) [of s] assms by (subst trimLeftRunes.simps) auto
  moreover have "trimLeftRunes (map rev spaceRunes) (rev s) = rev s"
    using leadingSpace_plain(2) [of "rev s"] assms
    by (subst trimLeftRunes.simps) (auto simp: hd_rev)
  ultimately show ?thesis by (simp add: trimSpace_def)
qed

lemma trimSpace_ends:
  assumes "trimSpace s \<noteq> []" "isASCII (trimSpace s)"
  shows "plainByte (hd (trimSpace s))" and "plainByte (last (trimSpace s))"
proof -
  let ?t = "trimLeftRunes spaceRunes s" and ?r = "rev (trimSpace s)"
  have r: "?r = trimLeftRunes (map rev spaceRunes) (rev ?t)" by (simp add: trimSpace_def)
  obtain p where "rev ?t = p @ ?r" using trimLeftRunes_suffix r by metis
  then have t: "?t = trimSpace s @ rev p" by (metis rev_append rev_rev_ident)
  have h: "hd ?t = hd (trimSpace s)" using assms(1) by (simp add: t)
  have "hd (trimSpace s) \<notin> set asciiSpaces"
    using leadingSpace_stopped [of ?t] trimLeftRunes_stop [of spaceRunes s] h assms(1) t by simp
  moreover have "leadingSpace (map rev spaceRunes) ?r = 0"
    unfolding r by (rule trimLeftRunes_stop)
  then have "hd ?r \<notin> set asciiSpaces" using leadingSpace_stopped [of ?r] assms(1) by simp
  moreover have "hd (trimSpace s) \<in> set (trimSpace s)" "last (trimSpace s) \<in> set (trimSpace s)"
    using assms(1) by simp_all
  ultimately show "plainByte (hd (trimSpace s))" "plainByte (last (trimSpace s))"
    using assms(1,2) by (auto simp: plainByte_def isASCII_def list_all_iff hd_rev)
qed

section \<open>Normalised addresses\<close>

text \<open>What every normalised address satisfies, whatever the address parser accepts.\<close>

definition plainAddress :: "string \<Rightarrow> bool" where
  "plainAddress a \<longleftrightarrow> a \<noteq> [] \<and> isASCII a \<and> asciiLower a = a \<and> trimSpace a = a
     \<and> \<not> containsAny a [cr, lf, nul]"

lemma lowerByte_ascii: "bval c < 0x80 \<Longrightarrow> bval (lowerByte c) < 0x80"
  by (auto simp: lowerByte_def inRange_def bval_def)

lemma lowerByte_other: "\<not> inRange 0x61 0x7A d \<Longrightarrow> lowerByte c = d \<Longrightarrow> c = d"
  by (auto simp: lowerByte_def inRange_def bval_def split: if_splits)

lemma lowerByte_idem: "lowerByte (lowerByte c) = lowerByte c"
  by (auto simp: lowerByte_def inRange_def bval_def)

lemma lowerByte_plain: "plainByte c \<Longrightarrow> plainByte (lowerByte c)"
proof -
  assume c: "plainByte c"
  have "list_all (\<lambda>d. \<not> inRange 0x61 0x7A d) asciiSpaces" by code_simp
  then have "lowerByte c \<in> set asciiSpaces \<Longrightarrow> c = lowerByte c"
    using lowerByte_other [OF _ refl, of c] by (simp add: list_all_iff)
  with c have "lowerByte c \<notin> set asciiSpaces" unfolding plainByte_def by metis
  with c show ?thesis by (simp add: plainByte_def lowerByte_ascii)
qed

lemma asciiLower_mem: "\<not> inRange 0x61 0x7A d \<Longrightarrow> d \<in> set (asciiLower s) \<Longrightarrow> d \<in> set s"
  by (auto simp: asciiLower_def dest: lowerByte_other)

lemma normalize_plain:
  assumes "normalizePlainAddress pa v = Some a"
  shows "plainAddress a" and "a = asciiLower (trimSpace v)" and "c \<in> set a \<Longrightarrow> c \<in> set v \<or> inRange 0x61 0x7A c"
proof -
  from assms have v: "trimSpace v \<noteq> []" "isASCII (trimSpace v)" "\<not> containsAny v [cr, lf, nul]"
    and a: "a = asciiLower (trimSpace v)"
    by (auto simp: normalizePlainAddress_def Let_def split: if_splits option.splits prod.splits)
  have sub: "c \<in> set v" if "\<not> inRange 0x61 0x7A c" "c \<in> set a" for c
    using asciiLower_mem [OF that(1)] that(2) a set_trimSpace [of v] by blast
  then show "c \<in> set a \<Longrightarrow> c \<in> set v \<or> inRange 0x61 0x7A c" by blast
  have "plainByte (hd a)" "plainByte (last a)"
    using trimSpace_ends [OF v(1,2)] v(1) a
    by (auto simp: asciiLower_def hd_map last_map lowerByte_plain)
  then have "trimSpace a = a" using trimSpace_plain by blast
  moreover have "isASCII a" using v(2) a lowerByte_ascii
    by (auto simp: isASCII_def asciiLower_def list_all_iff)
  moreover have "\<not> containsAny a [cr, lf, nul]"
    using sub v(3) by (auto simp: containsAny_iff inRange_def bval_def)
  ultimately show "plainAddress a" using v(1) a
    by (simp add: plainAddress_def asciiLower_def lowerByte_idem comp_def)
  show "a = asciiLower (trimSpace v)" by (rule a)
qed

section \<open>The policy survives being printed and parsed again\<close>

lemma recipientParts_Inr:
  assumes "recipientParts pa parts ex = Inr E"
  shows "E = ex \<union> {a. \<exists>p \<in> set parts. normalizePlainAddress pa p = Some a}"
    and "\<forall>p \<in> set parts. \<exists>a. normalizePlainAddress pa p = Some a \<and> \<not> containsStr p ''*''"
  using assms
  by (induction pa parts ex rule: recipientParts.induct)
     (auto split: if_splits option.splits)

lemma parseRecipientPolicy_Inr:
  assumes "parseRecipientPolicy pa v = Inr p" "\<not> rp_allowAll p"
  shows "rp_exact p = {a. \<exists>w \<in> set (splitByte (trimSpace v) CHR '',''). normalizePlainAddress pa w = Some a}"
    and "\<forall>w \<in> set (splitByte (trimSpace v) CHR '',''). \<exists>a. normalizePlainAddress pa w = Some a \<and> \<not> containsStr w ''*''"
    and "finite (rp_exact p)" and "rp_exact p \<noteq> {}"
proof -
  from assms obtain E where E: "recipientParts pa (splitByte (trimSpace v) CHR '','') {} = Inr E"
    and p: "rp_exact p = E"
    by (auto simp: parseRecipientPolicy_def Let_def andThen_Inr split: if_splits)
  note parts = recipientParts_Inr [OF E]
  show e: "rp_exact p = {a. \<exists>w \<in> set (splitByte (trimSpace v) CHR '',''). normalizePlainAddress pa w = Some a}"
    using parts(1) p by simp
  show all: "\<forall>w \<in> set (splitByte (trimSpace v) CHR '',''). \<exists>a. normalizePlainAddress pa w = Some a \<and> \<not> containsStr w ''*''"
    by (rule parts(2))
  have "rp_exact p \<subseteq> (\<lambda>w. the (normalizePlainAddress pa w)) ` set (splitByte (trimSpace v) CHR '','')"
    unfolding e by force
  then show "finite (rp_exact p)" using finite_surj by blast
  obtain w where "w \<in> set (splitByte (trimSpace v) CHR '','')"
    using splitByte_ne [of "trimSpace v" "CHR '',''"] by (cases "splitByte (trimSpace v) CHR '',''") auto
  with all e show "rp_exact p \<noteq> {}" by blast
qed

text \<open>A word of the printed policy: a normalised address without the two separators.\<close>

definition policyWord :: "string \<Rightarrow> bool" where
  "policyWord w \<longleftrightarrow> plainAddress w \<and> CHR '','' \<notin> set w \<and> CHR ''*'' \<notin> set w"

lemma containsStr_star: "containsStr w ''*'' \<longleftrightarrow> CHR ''*'' \<in> set w"
  by (simp add: containsStr_iff in_set_conv_decomp)

lemma parsed_words:
  assumes "parseRecipientPolicy pa v = Inr p" "\<not> rp_allowAll p" "a \<in> rp_exact p"
  shows "policyWord a"
proof -
  from parseRecipientPolicy_Inr [OF assms(1,2)] assms(3) obtain w where
    w: "w \<in> set (splitByte (trimSpace v) CHR '','')" "normalizePlainAddress pa w = Some a"
       "\<not> containsStr w ''*''" by blast
  have "\<not> inRange 0x61 0x7A CHR '',''" "\<not> inRange 0x61 0x7A CHR ''*''"
    by (simp_all add: inRange_def bval_def)
  with normalize_plain(3) [OF w(2)] splitByte_no_sep [OF w(1)] w(3)
  have "CHR '','' \<notin> set a" "CHR ''*'' \<notin> set a" unfolding containsStr_star by blast+
  with normalize_plain(1) [OF w(2)] show ?thesis by (simp add: policyWord_def)
qed

lemma plainAddress_ends:
  assumes "plainAddress w"
  shows "w \<noteq> [] \<and> plainByte (hd w) \<and> plainByte (last w)"
  using assms trimSpace_ends [of w] by (simp add: plainAddress_def)

lemma joinByte_ends:
  assumes "ws \<noteq> []" "\<forall>w \<in> set ws. w \<noteq> [] \<and> plainByte (hd w) \<and> plainByte (last w)"
  shows "joinByte b ws \<noteq> [] \<and> plainByte (hd (joinByte b ws)) \<and> plainByte (last (joinByte b ws))"
  using assms by (induction b ws rule: joinByte.induct) auto

lemma joinByte_single: "joinByte b ws = [c] \<Longrightarrow> c \<noteq> b \<Longrightarrow> ws \<noteq> [] \<Longrightarrow> \<exists>w \<in> set ws. c \<in> set w"
proof (induction b ws rule: joinByte.induct)
  case (3 b w v vs)
  then have "w @ b # joinByte b (v # vs) = [c]" by simp
  with 3(3) show ?case by (cases w) auto
qed auto

lemma reparse_words:
  assumes ws: "ws \<noteq> []" "\<forall>w \<in> set ws. policyWord w"
    and p: "parseRecipientPolicy pa (joinByte CHR '','' ws) = Inr p"
  shows "p = \<lparr>rp_allowAll = False, rp_exact = set ws\<rparr>"
proof -
  let ?v = "joinByte CHR '','' ws"
  have trim: "trimSpace ?v = ?v"
    using joinByte_ends [OF ws(1)] ws(2) plainAddress_ends trimSpace_plain
    by (metis policyWord_def)
  have "?v \<noteq> ''*''"
    using joinByte_single [of "CHR '',''" ws "CHR ''*''"] ws by (auto simp: policyWord_def)
  with p trim have na: "\<not> rp_allowAll p"
    by (auto simp: parseRecipientPolicy_def Let_def andThen_Inr split: if_splits)
  have split: "splitByte (trimSpace ?v) CHR '','' = ws"
    unfolding trim using ws by (intro split_join) (auto simp: policyWord_def)
  have "rp_exact p = set ws"
  proof (intro equalityI subsetI)
    fix a assume "a \<in> rp_exact p"
    then obtain w where w: "w \<in> set ws" "normalizePlainAddress pa w = Some a"
      using parseRecipientPolicy_Inr(1) [OF p na] split by auto
    with normalize_plain(2) [OF w(2)] ws(2) show "a \<in> set ws"
      by (simp add: policyWord_def plainAddress_def)
  next
    fix w assume w: "w \<in> set ws"
    then obtain a where a: "normalizePlainAddress pa w = Some a"
      using parseRecipientPolicy_Inr(2) [OF p na] split by auto
    with normalize_plain(2) [OF a] ws(2) w have "a = w"
      by (simp add: policyWord_def plainAddress_def)
    with a w show "w \<in> rp_exact p" using parseRecipientPolicy_Inr(1) [OF p na] split by auto
  qed
  with na show ?thesis by (cases p) simp
qed

lemma star_reparse: "parseRecipientPolicy pa ''*'' = Inr \<lparr>rp_allowAll = True, rp_exact = {}\<rparr>"
proof -
  have "trimSpace ''*'' = ''*''" by code_simp
  then show ?thesis by (simp add: parseRecipientPolicy_def)
qed

lemma parseRecipientPolicy_allowAll:
  "parseRecipientPolicy pa v = Inr p \<Longrightarrow> rp_allowAll p \<longleftrightarrow> trimSpace v = ''*''"
  by (auto simp: parseRecipientPolicy_def Let_def andThen_Inr split: if_splits)

lemma allowAll_exact: "parseRecipientPolicy pa v = Inr p \<Longrightarrow> rp_allowAll p \<Longrightarrow> p = \<lparr>rp_allowAll = True, rp_exact = {}\<rparr>"
  by (auto simp: parseRecipientPolicy_def Let_def andThen_Inr split: if_splits)

lemma reparse_policy:
  assumes p: "parseRecipientPolicy pa v = Inr p"
    and q: "recipientPolicyFromAddresses pa (policyRecipients p) = Inr q"
  shows "q = p"
proof (cases "rp_allowAll p")
  case True
  then have "recipientPolicyFromAddresses pa (policyRecipients p) = parseRecipientPolicy pa ''*''"
    by (simp add: recipientPolicyFromAddresses_def policyRecipients_def)
  with q star_reparse allowAll_exact [OF p True] show ?thesis by simp
next
  case False
  let ?ws = "sorted_list_of_set (rp_exact p)"
  have fin: "finite (rp_exact p)" and ne: "rp_exact p \<noteq> {}"
    using parseRecipientPolicy_Inr(3,4) [OF p False] by simp_all
  then have "?ws \<noteq> []" by simp
  moreover have "\<forall>w \<in> set ?ws. policyWord w" using parsed_words [OF p False] fin by simp
  moreover have "parseRecipientPolicy pa (joinByte CHR '','' ?ws) = Inr q"
    using q False \<open>?ws \<noteq> []\<close> by (simp add: recipientPolicyFromAddresses_def policyRecipients_def)
  ultimately have "q = \<lparr>rp_allowAll = False, rp_exact = set ?ws\<rparr>" by (rule reparse_words)
  with False fin show ?thesis by (cases p) simp
qed

section \<open>What a loaded configuration promises\<close>

lemma loadConfig_Inr:
  assumes "loadConfig h = Inr d"
  obtains c policy where "validateConfig h c = Inr d"
    and "loadRecipients h = Inr policy" and "cf_smtpAllowedRecipients c = policyRecipients policy"
    and "parseResourceScopes (h_getenv h ''ICLOUD_MCP_RESOURCE_SCOPES'') = Inr (cf_resourceScopes c)"
    and "parsePermissions (h_getenv h ''ICLOUD_MCP_PERMISSIONS'') = Inr (cf_permissions c)"
    and "envBool h ''ICLOUD_MCP_READ_ONLY'' = Inr (cf_readOnly c)"
  using assms unfolding loadConfig_def andThen_Inr case_prod_unfold
  by (elim exE conjE) (rule that, assumption, simp_all)

lemma validateAccount_Inr:
  assumes "validateAccount h c = Inr d"
  shows "\<exists>email. d = c\<lparr>cf_email := email\<rparr>
     \<and> (configRequestsCalendar c \<or> configRequestsContacts c \<longrightarrow>
          plainAddress email \<and> 4 \<le> length email
          \<and> \<not> hasCredentialControl (cf_password c) \<and> 8 \<le> length (cf_password c))"
proof (cases "configRequestsCalendar c \<or> configRequestsContacts c")
  case True
  with assms obtain e where "normalizePlainAddress (h_parseAddress h) (cf_email c) = Some e"
      "4 \<le> length e" "\<not> hasCredentialControl (cf_password c)" "8 \<le> length (cf_password c)"
      "d = c\<lparr>cf_email := e\<rparr>"
    unfolding validateAccount_def minRedactableIdentityBytes_def
    by (simp add: if_Inl_eq_Inr not_less split: option.splits)
  with normalize_plain(1) show ?thesis by blast
next
  case False
  with assms have "d = c" by (simp add: validateAccount_def)
  with False show ?thesis by (intro exI [of _ "cf_email c"]) simp
qed

lemma validateMail_Inr:
  assumes "validateMail h c = Inr d"
  shows "\<exists>addr pw. d = c\<lparr>cf_mailAddress := addr, cf_mailPassword := pw\<rparr>
     \<and> (configRequestsMail c \<longrightarrow> plainAddress addr \<and> 4 \<le> length addr
          \<and> \<not> hasCredentialControl pw \<and> 8 \<le> length pw
          \<and> (cf_mailPassword c = [] \<longrightarrow> pw = cf_password c) \<and> (cf_mailPassword c \<noteq> [] \<longrightarrow> pw = cf_mailPassword c))"
proof (cases "configRequestsMail c")
  case True
  define pw where "pw = (if cf_mailPassword c = [] then cf_password c else cf_mailPassword c)"
  from True assms obtain a where a: "normalizePlainAddress (h_parseAddress h) (cf_mailAddress c) = Some a"
      "4 \<le> length a" "\<not> hasCredentialControl pw" "8 \<le> length pw"
      "d = c\<lparr>cf_mailAddress := a, cf_mailPassword := pw\<rparr>"
    unfolding validateMail_def minRedactableIdentityBytes_def Let_def pw_def [symmetric]
    by (simp add: if_Inl_eq_Inr not_less split: option.splits)
  with normalize_plain(1) show ?thesis
    by (intro exI [of _ a] exI [of _ pw]) (auto simp: pw_def)
next
  case False
  with assms have "d = c" by (simp add: validateMail_def)
  with False show ?thesis
    by (intro exI [of _ "cf_mailAddress c"] exI [of _ "cf_mailPassword c"]) simp
qed

lemma validateRecipients_Inr:
  assumes "validateRecipients h c = Inr d"
  obtains policy where
    "recipientPolicyFromAddresses (h_parseAddress h) (cf_smtpAllowedRecipients c) = Inr policy"
    "requestedSend c \<Longrightarrow> policyConfigured policy"
    "d = c\<lparr>cf_smtpRecipientPolicy := policy, cf_smtpAllowedRecipients := policyRecipients policy\<rparr>"
  using assms by (auto simp: validateRecipients_def andThen_Inr if_Inl_eq_Inr)

lemma config_frames:
  "validateSwitches (c\<lparr>cf_email := e\<rparr>) = validateSwitches c"
  "configRequestsMail (c\<lparr>cf_email := e\<rparr>) = configRequestsMail c"
  "requestedSend (c\<lparr>cf_email := e, cf_mailAddress := a, cf_mailPassword := w\<rparr>) = requestedSend c"
  by (simp_all add: validateSwitches_def configRequestsMail_def requestedSend_def cong: if_cong)

lemma validateConfig_Inr:
  assumes "validateConfig h c = Inr d"
  obtains email addr pw policy where
    "d = c\<lparr>cf_email := email, cf_mailAddress := addr, cf_mailPassword := pw,
           cf_smtpRecipientPolicy := policy, cf_smtpAllowedRecipients := policyRecipients policy\<rparr>"
    "configRequestsCalendar c \<or> configRequestsContacts c \<Longrightarrow>
       plainAddress email \<and> 4 \<le> length email
       \<and> \<not> hasCredentialControl (cf_password c) \<and> 8 \<le> length (cf_password c)"
    "configRequestsMail c \<Longrightarrow>
       plainAddress addr \<and> 4 \<le> length addr \<and> \<not> hasCredentialControl pw \<and> 8 \<le> length pw"
    "validateSwitches c = Inr ()"
    "recipientPolicyFromAddresses (h_parseAddress h) (cf_smtpAllowedRecipients c) = Inr policy"
    "requestedSend c \<Longrightarrow> policyConfigured policy"
proof -
  from assms obtain c1 c2 where 1: "validateAccount h c = Inr c1" and sw: "validateSwitches c1 = Inr ()"
    and 2: "validateMail h c1 = Inr c2" and 3: "validateRecipients h c2 = Inr d"
    by (auto simp: validateConfig_def andThen_Inr)
  obtain email where e: "c1 = c\<lparr>cf_email := email\<rparr>"
    "configRequestsCalendar c \<or> configRequestsContacts c \<longrightarrow>
       plainAddress email \<and> 4 \<le> length email
       \<and> \<not> hasCredentialControl (cf_password c) \<and> 8 \<le> length (cf_password c)"
    using validateAccount_Inr [OF 1] by blast
  obtain addr pw where a: "c2 = c1\<lparr>cf_mailAddress := addr, cf_mailPassword := pw\<rparr>"
    "configRequestsMail c1 \<longrightarrow>
       plainAddress addr \<and> 4 \<le> length addr \<and> \<not> hasCredentialControl pw \<and> 8 \<le> length pw"
    using validateMail_Inr [OF 2] by blast
  obtain policy where p: "recipientPolicyFromAddresses (h_parseAddress h) (cf_smtpAllowedRecipients c2) = Inr policy"
    "requestedSend c2 \<Longrightarrow> policyConfigured policy"
    "d = c2\<lparr>cf_smtpRecipientPolicy := policy, cf_smtpAllowedRecipients := policyRecipients policy\<rparr>"
    using validateRecipients_Inr [OF 3] by blast
  show thesis
    by (rule that [where email = email and addr = addr and pw = pw and policy = policy])
       (use e a p sw in \<open>simp_all add: config_frames\<close>)
qed

text \<open>
  The contract of a validated configuration: every domain the server will reach has credentials
  that the redactor can register, every effective capability belongs to an enabled domain, and
  sending is possible exactly when it is granted.
\<close>

definition credentialOk :: "string \<Rightarrow> string \<Rightarrow> bool" where
  "credentialOk address password \<longleftrightarrow>
     plainAddress address \<and> 4 \<le> length address
     \<and> \<not> hasCredentialControl password \<and> 8 \<le> length password"

definition validConfig :: "'loc config \<Rightarrow> bool" where
  "validConfig c \<longleftrightarrow>
     (let s = configCapabilities c in
      (configRequestsCalendar c \<or> configRequestsContacts c \<longrightarrow> credentialOk (cf_email c) (cf_password c))
      \<and> (configRequestsMail c \<longrightarrow> credentialOk (cf_mailAddress c) (cf_mailPassword c))
      \<and> (c_contactsRead s \<or> c_contactsWrite s \<or> c_contactsDelete s \<longrightarrow>
           cf_enableContacts c \<and> configRequestsContacts c)
      \<and> (c_mailRead s \<or> c_mailMutate s \<or> c_mailTrash s \<or> c_mailSend s \<or> c_mailArchive s \<longrightarrow>
           cf_enableMail c \<and> configRequestsMail c)
      \<and> (c_calendarRead s \<or> c_calendarWrite s \<or> c_calendarDelete s \<longrightarrow> configRequestsCalendar c)
      \<and> (c_mailArchive s \<longrightarrow> c_mailSend s)
      \<and> (effectiveMailSend c \<longleftrightarrow> c_mailSend s)
      \<and> scopesOk (s_values (cf_resourceScopes c)))"

lemma validateSwitches_Inr:
  "validateSwitches c = Inr () \<longleftrightarrow>
     (cf_enableMailWrite c \<longrightarrow> cf_enableMail c) \<and> (cf_enableMailSend c \<longrightarrow> cf_enableMail c)
     \<and> (p_configured (cf_permissions c) \<longrightarrow>
          (requestsContacts (cf_permissions c) \<longrightarrow> cf_enableContacts c)
          \<and> (requestsMail (cf_permissions c) \<longrightarrow> cf_enableMail c)
          \<and> (p_mailArchive (cf_permissions c) \<longrightarrow> p_mailSend (cf_permissions c)))"
  unfolding validateSwitches_def Let_def if_Inl_eq_Inr requestsContacts_def requestsMail_def
    requestedContactsMutation_def requestedMailMutation_def
  by blast

lemma capabilities_domains:
  fixes c :: "'loc config"
  defines "s \<equiv> configCapabilities c"
  assumes sw: "validateSwitches c = Inr ()"
  shows "c_contactsRead s \<or> c_contactsWrite s \<or> c_contactsDelete s \<Longrightarrow>
           cf_enableContacts c \<and> configRequestsContacts c"
    and "c_mailRead s \<or> c_mailMutate s \<or> c_mailTrash s \<or> c_mailSend s \<or> c_mailArchive s \<Longrightarrow>
           cf_enableMail c \<and> configRequestsMail c"
    and "c_calendarRead s \<or> c_calendarWrite s \<or> c_calendarDelete s \<Longrightarrow> configRequestsCalendar c"
    and "c_mailArchive s \<Longrightarrow> c_mailSend s"
    and "c_mailSend s \<Longrightarrow> requestedSend c"
  using sw
  unfolding s_def validateSwitches_Inr configCapabilities_def effectivePermissions_def capabilities_def
    effective_def legacyPermissions_def configRequestsContacts_def configRequestsMail_def
    configRequestsCalendar_def requestedDomains_def requestsContacts_def requestsMail_def
    requestsCalendar_def requestedSend_def Let_def
  by (auto split: if_splits)

lemmas validConfig_parts = configCapabilities_def effectivePermissions_def effectiveMailSend_def
  configRequestsCalendar_def configRequestsContacts_def configRequestsMail_def

lemma validateConfig_valid:
  assumes v: "validateConfig h c = Inr d" and s: "scopesOk (s_values (cf_resourceScopes c))"
  shows "validConfig d"
proof -
  obtain email addr pw policy where
    d: "d = c\<lparr>cf_email := email, cf_mailAddress := addr, cf_mailPassword := pw,
           cf_smtpRecipientPolicy := policy, cf_smtpAllowedRecipients := policyRecipients policy\<rparr>" and
    acc: "configRequestsCalendar c \<or> configRequestsContacts c \<Longrightarrow>
       plainAddress email \<and> 4 \<le> length email
       \<and> \<not> hasCredentialControl (cf_password c) \<and> 8 \<le> length (cf_password c)" and
    mail: "configRequestsMail c \<Longrightarrow>
       plainAddress addr \<and> 4 \<le> length addr \<and> \<not> hasCredentialControl pw \<and> 8 \<le> length pw" and
    sw: "validateSwitches c = Inr ()" and
    send: "requestedSend c \<Longrightarrow> policyConfigured policy"
    using v by (rule validateConfig_Inr) blast
  have eq: "configCapabilities d = configCapabilities c"
    "configRequestsCalendar d = configRequestsCalendar c"
    "configRequestsContacts d = configRequestsContacts c"
    "configRequestsMail d = configRequestsMail c"
    "cf_enableContacts d = cf_enableContacts c" "cf_enableMail d = cf_enableMail c"
    "cf_smtpRecipientPolicy d = policy" "cf_email d = email" "cf_password d = cf_password c"
    "cf_mailAddress d = addr" "cf_mailPassword d = pw"
    "cf_resourceScopes d = cf_resourceScopes c"
    by (simp_all add: d validConfig_parts)
  show ?thesis
    unfolding validConfig_def Let_def credentialOk_def effectiveMailSend_def eq
    using acc mail send capabilities_domains [OF sw] s by blast
qed

text \<open>
  C17. A configuration that \<open>Load\<close> accepts is valid: every requested domain has a normalised
  address of at least four bytes and a password of at least eight bytes without CR, LF or NUL,
  which are the values the redactor needs; every effective Contacts or Mail capability belongs to
  a domain whose switch is on and whose credentials were read; archiving is only granted together
  with sending; whenever sending is granted a recipient policy is in force; and the resource
  scopes are well formed. It holds for every environment, file system and address parser.
\<close>

theorem loaded_config_valid:
  assumes "loadConfig h = Inr c"
  shows "validConfig c"
  using assms
proof (rule loadConfig_Inr)
  fix c0 policy
  assume "validateConfig h c0 = Inr c"
    and "parseResourceScopes (h_getenv h ''ICLOUD_MCP_RESOURCE_SCOPES'') = Inr (cf_resourceScopes c0)"
  then show "validConfig c" using validateConfig_valid parseResourceScopes_scopesOk by blast
qed

text \<open>A host for the witnesses: a Calendar and Mail server with an explicit policy.\<close>

definition sampleParse :: "string \<Rightarrow> (string \<times> string) option" where
  "sampleParse a = (if CHR ''@'' \<in> set a then Some ([], a) else None)"

definition sampleEnv :: "string \<Rightarrow> string" where
  "sampleEnv v =
     (case map_of
        [(''ICLOUD_MCP_PERMISSIONS'', ''calendar.read,mail.read,mail.send''),
         (''ICLOUD_MCP_ENABLE_MAIL'', ''TRUE''),
         (''ICLOUD_EMAIL'', ''Ann@Icloud.com''), (''ICLOUD_PASSWORD'', ''file:///run/pw''),
         (''ICLOUD_MAIL_ADDRESS'', ''ann@icloud.com''),
         (''ICLOUD_MCP_SMTP_ALLOWED_RECIPIENTS'', ''Bob@x.org, al@y.org'')] v of
      None \<Rightarrow> [] | Some t \<Rightarrow> t)"

definition sampleHost :: "unit host" where
  "sampleHost =
     \<lparr>h_getenv = sampleEnv, h_stat = (\<lambda>_. Inr \<lparr>fi_mode = 0x180, fi_size = 10\<rparr>),
      h_open = (\<lambda>_. Inr \<lparr>of_stat = Inr \<lparr>fi_mode = 0x180, fi_size = 10\<rparr>, of_content = Inr ''abcd-efgh'' \<rparr>),
      h_parseAddress = sampleParse, h_loadLocation = (\<lambda>_. None), h_utc = ()\<rparr>"

definition sampleConfig :: "unit config" where
  "sampleConfig = projr (loadConfig sampleHost)"

lemma sampleHost_loads: "loadConfig sampleHost = Inr sampleConfig"
proof -
  have "\<not> isl (loadConfig sampleHost)" by code_simp
  then show ?thesis by (simp add: sampleConfig_def)
qed

theorem loaded_config_valid_witness:
  "validConfig sampleConfig \<and> cf_email sampleConfig = ''ann@icloud.com''
   \<and> cf_mailPassword sampleConfig = ''abcd-efgh'' \<and> effectiveMailSend sampleConfig"
proof -
  have "cf_email sampleConfig = ''ann@icloud.com''" "cf_mailPassword sampleConfig = ''abcd-efgh''"
    "effectiveMailSend sampleConfig" by code_simp+
  with loaded_config_valid [OF sampleHost_loads] show ?thesis by blast
qed

section \<open>Recipients\<close>

lemma loaded_policy:
  assumes "loadConfig h = Inr c"
  shows "loadRecipients h = Inr (cf_smtpRecipientPolicy c)"
proof -
  obtain c0 policy where v: "validateConfig h c0 = Inr c" and l: "loadRecipients h = Inr policy"
    and r: "cf_smtpAllowedRecipients c0 = policyRecipients policy"
    using assms by (rule loadConfig_Inr) blast
  obtain q where q: "recipientPolicyFromAddresses (h_parseAddress h) (policyRecipients policy) = Inr q"
    and c: "cf_smtpRecipientPolicy c = q"
    using v r by (elim validateConfig_Inr) simp
  have "q = policy"
  proof (cases "policy = noRecipients")
    case True
    with q show ?thesis
      by (simp add: recipientPolicyFromAddresses_def policyRecipients_def noRecipients_def)
  next
    case False
    with l have "parseRecipientPolicy (h_parseAddress h) (h_getenv h ''ICLOUD_MCP_SMTP_ALLOWED_RECIPIENTS'') = Inr policy"
      by (auto simp: loadRecipients_def split: if_splits)
    with q show ?thesis by (rule reparse_policy [rotated])
  qed
  with l c show ?thesis by simp
qed

lemma normalize_Nil: "normalizePlainAddress pa [] = None"
  by (simp add: normalizePlainAddress_def containsAny_iff trimSpace_plain)

text \<open>
  The recipient policy of a loaded configuration allows exactly what the operator wrote:
  an address is allowed when it is a plain address and the variable is the single wildcard, or
  when one of the comma-separated entries normalises to the same address. In particular printing
  the policy and parsing it again, which \<open>Validate\<close> does, neither drops nor adds a recipient, and
  an empty variable allows nothing.
\<close>

theorem loaded_recipient_policy_exact:
  fixes h :: "'loc host"
  defines "norm \<equiv> normalizePlainAddress (h_parseAddress h)"
    and "value \<equiv> trimSpace (h_getenv h ''ICLOUD_MCP_SMTP_ALLOWED_RECIPIENTS'')"
  assumes "loadConfig h = Inr c"
  shows "policyAllows (h_parseAddress h) (cf_smtpRecipientPolicy c) a \<longleftrightarrow>
    (\<exists>n. norm a = Some n \<and> (value = ''*'' \<or> (\<exists>w \<in> set (splitByte value CHR '',''). norm w = Some n)))"
proof -
  let ?p = "cf_smtpRecipientPolicy c"
  note l = loaded_policy [OF assms(3)]
  show ?thesis
  proof (cases "value = []")
    case True
    then have "?p = noRecipients" using l by (simp add: loadRecipients_def value_def)
    then show ?thesis using True normalize_Nil
      by (auto simp: policyAllows_def noRecipients_def norm_def split: option.splits)
  next
    case False
    then have p: "parseRecipientPolicy (h_parseAddress h) (h_getenv h ''ICLOUD_MCP_SMTP_ALLOWED_RECIPIENTS'') = Inr ?p"
      using l by (simp add: loadRecipients_def value_def)
    then have star: "rp_allowAll ?p \<longleftrightarrow> value = ''*''"
      unfolding value_def by (rule parseRecipientPolicy_allowAll)
    have "\<not> rp_allowAll ?p \<Longrightarrow> rp_exact ?p = {n. \<exists>w \<in> set (splitByte value CHR '',''). norm w = Some n}"
      using parseRecipientPolicy_Inr(1) [OF p] unfolding value_def norm_def .
    with star show ?thesis
      unfolding policyAllows_def norm_def [symmetric] by (auto split: option.splits)
  qed
qed

theorem loaded_recipient_policy_exact_witness:
  "policyAllows sampleParse (cf_smtpRecipientPolicy sampleConfig) ''BOB@X.org''
   \<and> (\<exists>w \<in> set (splitByte (trimSpace (sampleEnv ''ICLOUD_MCP_SMTP_ALLOWED_RECIPIENTS'')) CHR '','').
        normalizePlainAddress sampleParse w = Some ''bob@x.org'')"
proof -
  have p: "h_parseAddress sampleHost = sampleParse" "h_getenv sampleHost = sampleEnv"
    by (simp_all add: sampleHost_def)
  have "trimSpace (sampleEnv ''ICLOUD_MCP_SMTP_ALLOWED_RECIPIENTS'') \<noteq> ''*''"
    "normalizePlainAddress sampleParse ''BOB@X.org'' = Some ''bob@x.org''"
    "policyAllows sampleParse (cf_smtpRecipientPolicy sampleConfig) ''BOB@X.org''"
    by code_simp+
  with loaded_recipient_policy_exact [OF sampleHost_loads, of "''BOB@X.org''", unfolded p] show ?thesis
    by auto
qed

section \<open>Credential files\<close>

text \<open>
  The loader reads a credential only from a small private regular file: whenever
  \<open>readCredentialFile\<close> succeeds, both the file it examined and the file it then opened, which may
  differ, are regular, give no permission to group or others, and report at most 4096 bytes; and
  what is returned is the whole content of the opened file, of at most 4096 bytes.
\<close>

theorem credential_file_private:
  assumes "readCredentialFile h path = Inr data"
  shows "\<exists>info file info'. h_stat h path = Inr info \<and> h_open h path = Inr file \<and> of_stat file = Inr info'
     \<and> (\<forall>i \<in> {info, info'}. modeIsRegular (fi_mode i) \<and> fi_mode i AND 0x3F = 0 \<and> fi_size i \<le> 4096)
     \<and> of_content file = Inr data \<and> length data \<le> 4096"
proof -
  have perm: "modePerm m AND 0x3F = m AND 0x3F" for m
    by (simp add: modePerm_def and.assoc)
  have info: "credentialFileInfo i = None \<longleftrightarrow>
      modeIsRegular (fi_mode i) \<and> fi_mode i AND 0x3F = 0 \<and> fi_size i \<le> 4096" for i
    by (auto simp: credentialFileInfo_def maxCredentialFileBytes_def perm)
  from assms obtain i f j content where *: "h_stat h path = Inr i" "credentialFileInfo i = None"
      "h_open h path = Inr f" "of_stat f = Inr j" "credentialFileInfo j = None"
      "of_content f = Inr content" "\<not> 4096 < length (take 4097 content)" "data = take 4097 content"
    by (auto simp: readCredentialFile_def andThen_Inr maxCredentialFileBytes_def Let_def
        split: option.splits if_splits)
  from *(7) have "length content \<le> 4096" by auto
  with * info show ?thesis by auto
qed

theorem credential_file_private_witness:
  "\<exists>info file info'. h_stat sampleHost ''/run/pw'' = Inr info \<and> h_open sampleHost ''/run/pw'' = Inr file
     \<and> of_stat file = Inr info'
     \<and> (\<forall>i \<in> {info, info'}. modeIsRegular (fi_mode i) \<and> fi_mode i AND 0x3F = 0 \<and> fi_size i \<le> 4096)
     \<and> of_content file = Inr ''abcd-efgh'' \<and> length ''abcd-efgh'' \<le> 4096"
proof (rule credential_file_private)
  show "readCredentialFile sampleHost ''/run/pw'' = Inr ''abcd-efgh''" by code_simp
qed

section \<open>Error messages\<close>

text \<open>
  The messages of the loader. None of them is built from a value of the environment or of a file:
  they mention the names of variables only.
\<close>

definition boolVars :: "string list" where
  "boolVars =
     [''ICLOUD_MCP_READ_ONLY'', ''ICLOUD_MCP_ENABLE_CONTACTS'', ''ICLOUD_MCP_ENABLE_MAIL'',
      ''ICLOUD_MCP_ENABLE_MAIL_WRITE'', ''ICLOUD_MCP_ENABLE_MAIL_SEND'']"

definition credentialVars :: "string list" where
  "credentialVars =
     [''ICLOUD_PASSWORD'', ''ICLOUD_EMAIL'', ''ICLOUD_MAIL_ADDRESS'', ''ICLOUD_MAIL_PASSWORD'']"

definition boolMessage :: "string \<Rightarrow> string" where
  "boolMessage v = ''invalid '' @ v @ '': expected 0, false, 1, or true''"

definition fileMessages :: "string \<Rightarrow> string list" where
  "fileMessages v =
     [''reading '' @ v @ '': file:// path is empty'',
      ''reading '' @ v @ '': file:// path must not contain '' @ [CHR 0x27] @ ''..'' @ [CHR 0x27]]
     @ map (\<lambda>r. ''reading '' @ v @ '' from file:// failed ('' @ r @ '')'')
         [''not_regular'', ''too_large'', ''insecure_permissions'', ''not_found'',
          ''permission_denied'', ''unreadable'']"

definition policyMessages :: "string list" where
  "policyMessages =
     [''invalid ICLOUD_MCP_PERMISSIONS: empty capability'',
      ''invalid ICLOUD_MCP_PERMISSIONS: duplicate capability'',
      ''invalid ICLOUD_MCP_PERMISSIONS: unknown capability'']"

definition scopeMessages :: "string list" where
  "scopeMessages =
     map ((@) ''invalid ICLOUD_MCP_RESOURCE_SCOPES: '')
       [''empty or invalid resource'', ''invalid calendar path'', ''duplicate resource'',
        ''empty entry'', ''expected action=value'', ''unknown action'', ''duplicate action'',
        ''wildcard is valid only as the complete value'', ''too many resources'', ''too many entries'']"

definition recipientMessages :: "string list" where
  "recipientMessages =
     [''ICLOUD_MCP_SMTP_ALLOWED_RECIPIENTS must not be empty'',
      ''invalid ICLOUD_MCP_SMTP_ALLOWED_RECIPIENTS: wildcard is valid only as the complete value'',
      ''invalid ICLOUD_MCP_SMTP_ALLOWED_RECIPIENTS: expected exact email addresses or literal *'',
      ''invalid ICLOUD_MCP_SMTP_ALLOWED_RECIPIENTS: duplicate email address'',
      ''ICLOUD_MCP_SMTP_ALLOWED_RECIPIENTS is required when mail send is requested'']"

definition validateMessages :: "string list" where
  "validateMessages =
     [''invalid ICLOUD_MCP_DEFAULT_TZ: must be a valid IANA timezone name'',
      ''invalid ICLOUD_EMAIL: must be a valid email address'',
      ''invalid ICLOUD_PASSWORD: must not contain CR, LF, or NUL'',
      ''ICLOUD_PASSWORD must be at least 8 characters: use an app-specific password generated on appleid.apple.com'',
      ''ICLOUD_MCP_ENABLE_MAIL_WRITE requires ICLOUD_MCP_ENABLE_MAIL=true'',
      ''ICLOUD_MCP_ENABLE_MAIL_SEND requires ICLOUD_MCP_ENABLE_MAIL=true'',
      ''ICLOUD_MCP_PERMISSIONS requires ICLOUD_MCP_ENABLE_CONTACTS=true for Contacts capabilities'',
      ''ICLOUD_MCP_PERMISSIONS requires ICLOUD_MCP_ENABLE_MAIL=true for Mail capabilities'',
      ''ICLOUD_MCP_PERMISSIONS requires mail.send for mail.archive'',
      ''invalid ICLOUD_MAIL_ADDRESS: must be a full email address'',
      ''invalid ICLOUD_MAIL_PASSWORD: must not contain CR, LF, or NUL'',
      ''ICLOUD_MAIL_PASSWORD must be at least 8 characters'']"

definition configMessages :: "string list" where
  "configMessages = map boolMessage boolVars @ policyMessages @ scopeMessages
     @ concat (map fileMessages credentialVars) @ recipientMessages @ validateMessages"

lemma envBool_Inl: "envBool h v = Inl e \<Longrightarrow> e = boolMessage v"
  by (auto simp: envBool_def parseBool_def Let_def boolMessage_def split: if_splits)

lemma parseTokens_Inl: "parseTokens ts seen p = Inl e \<Longrightarrow> e \<in> set policyMessages"
  by (induction ts seen p rule: parseTokens.induct)
     (simp_all add: policyMessages_def Let_def split: if_splits option.splits)

lemma parsePermissions_Inl: "parsePermissions v = Inl e \<Longrightarrow> e \<in> set policyMessages"
  by (auto simp: parsePermissions_def Let_def split: if_splits dest: parseTokens_Inl)

lemma scopeParts_Inl: "scopeParts key ps vals = Inl e \<Longrightarrow> e \<in> set scopeMessages"
  by (induction key ps vals rule: scopeParts.induct)
     (simp_all add: scopeMessages_def Let_def split: if_splits)

lemma scopeEntry_Inl: "scopeEntry en m = Inl e \<Longrightarrow> e \<in> set scopeMessages"
  unfolding scopeEntry_def Let_def
  by (auto split: if_splits option.splits sum.splits dest: scopeParts_Inl)
     (simp_all add: scopeMessages_def)

lemma scopeEntries_Inl: "scopeEntries es m = Inl e \<Longrightarrow> e \<in> set scopeMessages"
  by (induction es m rule: scopeEntries.induct) (auto split: sum.splits dest: scopeEntry_Inl)

lemma parseResourceScopes_Inl: "parseResourceScopes v = Inl e \<Longrightarrow> e \<in> set scopeMessages"
  unfolding parseResourceScopes_def Let_def
  by (auto split: if_splits sum.splits dest: scopeEntries_Inl) (simp add: scopeMessages_def)

lemma fileReadReason_mem:
  "fileReadReason r \<in> set [''not_regular'', ''too_large'', ''insecure_permissions'', ''not_found'',
          ''permission_denied'', ''unreadable'']"
  by (cases r) simp_all

lemma loadCredential_Inl:
  assumes "loadCredential h v = Inl e"
  shows "e \<in> set (fileMessages v)"
proof -
  from assms consider "e = ''reading '' @ v @ '': file:// path is empty''"
    | "e = ''reading '' @ v @ '': file:// path must not contain '' @ [CHR 0x27] @ ''..'' @ [CHR 0x27]"
    | r where "e = ''reading '' @ v @ '' from file:// failed ('' @ fileReadReason r @ '')''"
    unfolding loadCredential_def Let_def
    by (auto split: if_splits sum.splits)
  then show ?thesis
  proof cases
    case 3
    then have "e \<in> (\<lambda>r. ''reading '' @ v @ '' from file:// failed ('' @ r @ '')'') `
        set [''not_regular'', ''too_large'', ''insecure_permissions'', ''not_found'',
          ''permission_denied'', ''unreadable'']"
      using fileReadReason_mem by (rule image_eqI)
    then show ?thesis unfolding fileMessages_def set_append set_map by (rule UnI2)
  qed (simp_all add: fileMessages_def)
qed

lemma credential_messages:
  "loadCredential h v = Inl e \<Longrightarrow> v \<in> set credentialVars \<Longrightarrow> e \<in> set (concat (map fileMessages credentialVars))"
  using loadCredential_Inl by fastforce

lemma credentialVars_mem:
  "''ICLOUD_PASSWORD'' \<in> set credentialVars" "''ICLOUD_EMAIL'' \<in> set credentialVars"
  "''ICLOUD_MAIL_ADDRESS'' \<in> set credentialVars" "''ICLOUD_MAIL_PASSWORD'' \<in> set credentialVars"
  by (simp_all add: credentialVars_def)

lemma loadAccount_Inl:
  "loadAccount h a b m = Inl e \<Longrightarrow> e \<in> set (concat (map fileMessages credentialVars))"
  unfolding loadAccount_def andThen_Inl
  by (auto split: if_splits simp del: set_concat dest: credential_messages [OF _ credentialVars_mem(1)]
      credential_messages [OF _ credentialVars_mem(2)])

lemma loadMail_Inl:
  "loadMail h m p = Inl e \<Longrightarrow> e \<in> set (concat (map fileMessages credentialVars))"
  unfolding loadMail_def
  by (auto split: if_splits simp: andThen_Inl simp del: set_concat
      dest: credential_messages [OF _ credentialVars_mem(3)] credential_messages [OF _ credentialVars_mem(4)])

lemma recipientParts_Inl: "recipientParts pa ps ex = Inl e \<Longrightarrow> e \<in> set recipientMessages"
  by (induction pa ps ex rule: recipientParts.induct)
     (simp_all add: recipientMessages_def split: if_splits option.splits)

lemma parseRecipientPolicy_Inl: "parseRecipientPolicy pa v = Inl e \<Longrightarrow> e \<in> set recipientMessages"
  unfolding parseRecipientPolicy_def Let_def
  by (auto split: if_splits simp: andThen_Inl dest: recipientParts_Inl) (simp add: recipientMessages_def)

lemma loadRecipients_Inl: "loadRecipients h = Inl e \<Longrightarrow> e \<in> set recipientMessages"
  by (auto simp: loadRecipients_def split: if_splits dest: parseRecipientPolicy_Inl)

lemma validateRecipients_Inl: "validateRecipients h c = Inl e \<Longrightarrow> e \<in> set recipientMessages"
  unfolding validateRecipients_def recipientPolicyFromAddresses_def andThen_Inl
  by (auto split: if_splits dest: parseRecipientPolicy_Inl) (simp_all add: recipientMessages_def)

lemma validateAccount_Inl: "validateAccount h c = Inl e \<Longrightarrow> e \<in> set validateMessages"
  unfolding validateAccount_def validateMessages_def by (simp split: if_splits option.splits)

lemma validateSwitches_Inl: "validateSwitches c = Inl e \<Longrightarrow> e \<in> set validateMessages"
  unfolding validateSwitches_def validateMessages_def Let_def by (simp split: if_splits)

lemma validateMail_Inl: "validateMail h c = Inl e \<Longrightarrow> e \<in> set validateMessages"
  unfolding validateMail_def validateMessages_def Let_def by (simp split: if_splits option.splits)

lemma validateConfig_Inl:
  "validateConfig h c = Inl e \<Longrightarrow> e \<in> set validateMessages \<or> e \<in> set recipientMessages"
  unfolding validateConfig_def andThen_Inl
  using validateAccount_Inl validateSwitches_Inl validateMail_Inl validateRecipients_Inl by blast

lemma loadDefaultLocation_Inl: "loadDefaultLocation h tz = Inl e \<Longrightarrow> e \<in> set validateMessages"
  unfolding loadDefaultLocation_def validateMessages_def by (simp split: if_splits option.splits)

lemma boolVars_mem:
  "''ICLOUD_MCP_READ_ONLY'' \<in> set boolVars" "''ICLOUD_MCP_ENABLE_CONTACTS'' \<in> set boolVars"
  "''ICLOUD_MCP_ENABLE_MAIL'' \<in> set boolVars" "''ICLOUD_MCP_ENABLE_MAIL_WRITE'' \<in> set boolVars"
  "''ICLOUD_MCP_ENABLE_MAIL_SEND'' \<in> set boolVars"
  by (simp_all add: boolVars_def)

lemma envBool_messages: "envBool h v = Inl e \<Longrightarrow> v \<in> set boolVars \<Longrightarrow> e \<in> boolMessage ` set boolVars"
  using envBool_Inl by blast

lemma set_configMessages:
  "set configMessages = boolMessage ` set boolVars \<union> set policyMessages \<union> set scopeMessages
     \<union> set (concat (map fileMessages credentialVars)) \<union> set recipientMessages \<union> set validateMessages"
  unfolding configMessages_def set_append set_map by blast

text \<open>
  Whatever the environment, the credential files and the address parser are, an error of
  \<open>Load\<close> is one of a fixed finite list of messages. A start-up error therefore cannot carry a
  password, an address, a file path or any other configured value; it is logged before the
  redactor is installed.
\<close>

theorem config_errors_fixed:
  assumes "loadConfig h = Inl e"
  shows "e \<in> set configMessages"
  using assms unfolding loadConfig_def andThen_Inl case_prod_unfold set_configMessages
  by (elim disjE exE conjE;
      blast intro: envBool_messages boolVars_mem parsePermissions_Inl parseResourceScopes_Inl
        loadAccount_Inl loadDefaultLocation_Inl loadMail_Inl loadRecipients_Inl
        dest: validateConfig_Inl)

definition brokenHost :: "unit host" where
  "brokenHost = sampleHost\<lparr>h_stat := (\<lambda>_. Inr \<lparr>fi_mode = 0x1A4, fi_size = 10\<rparr>)\<rparr>"

theorem config_errors_fixed_witness:
  "loadConfig brokenHost = Inl ''reading ICLOUD_PASSWORD from file:// failed (insecure_permissions)''
   \<and> ''reading ICLOUD_PASSWORD from file:// failed (insecure_permissions)'' \<in> set configMessages"
proof -
  have "loadConfig brokenHost = Inl ''reading ICLOUD_PASSWORD from file:// failed (insecure_permissions)''"
  proof -
    have "isl (loadConfig brokenHost)"
      "projl (loadConfig brokenHost) = ''reading ICLOUD_PASSWORD from file:// failed (insecure_permissions)''"
      by code_simp+
    then show ?thesis by (metis sum.collapse(1))
  qed
  with config_errors_fixed show ?thesis by blast
qed

end
