(* ===== verification/Contact_Validation.thy ===== *)
theory Contact_Validation
  imports Resource_Scope Cal_Validation
begin

text \<open>
  \<open>internal/contacts/validation.go\<close> with the input types of \<open>internal/contacts/service.go\<close>: the
  validation of everything a caller can put into a contact. A validator returns its error, \<open>None\<close>
  when it accepts. \<open>mail.ParseAddress\<close> and \<open>url.ParseRequestURI\<close> are parameters (of the first only
  the address, of the second only the scheme is used). Two loops run over a Go map, whose order is
  not defined: the order is the parameter \<open>order\<close>. \<open>time.Parse\<close> with the layout 2006-01-02 followed
  by formatting back is written out as a check of digits and of the civil calendar.
\<close>

section \<open>Inputs\<close>

record structuredName =
  sn_familyName :: string
  sn_givenName :: string
  sn_additionalName :: string
  sn_honorificPrefix :: string
  sn_honorificSuffix :: string

definition emptyName :: structuredName where
  "emptyName = \<lparr>sn_familyName = [], sn_givenName = [], sn_additionalName = [],
     sn_honorificPrefix = [], sn_honorificSuffix = []\<rparr>"

record postalAddress =
  pa_type :: string
  pa_postOfficeBox :: string
  pa_extendedAddress :: string
  pa_streetAddress :: string
  pa_locality :: string
  pa_region :: string
  pa_postalCode :: string
  pa_country :: string

record createContactInput =
  cc_addressBook :: string
  cc_displayName :: string
  cc_name :: structuredName
  cc_organization :: string
  cc_title :: string
  cc_nickname :: string
  cc_birthday :: string
  cc_notes :: string
  cc_emails :: "typedValue list"
  cc_phones :: "typedValue list"
  cc_addresses :: "postalAddress list"
  cc_urls :: "typedValue list"
  cc_clientUID :: string

record contactPatch =
  cp_displayName :: "string option"
  cp_name :: "structuredName option"
  cp_organization :: "string option"
  cp_title :: "string option"
  cp_nickname :: "string option"
  cp_birthday :: "string option"
  cp_notes :: "string option"
  cp_emails :: "typedValue list option"
  cp_phones :: "typedValue list option"
  cp_addresses :: "postalAddress list option"
  cp_urls :: "typedValue list option"

record updateContactInput =
  uc_addressBook :: string
  uc_uid :: string
  uc_etag :: string
  uc_patch :: contactPatch

record deleteContactInput =
  dc_addressBook :: string
  dc_uid :: string
  dc_etag :: string
  dc_dryRun :: bool

record contactParsers =
  cp_parseAddress :: "string \<Rightarrow> string option"
  cp_parseURIScheme :: "string \<Rightarrow> string option"

section \<open>Text\<close>

text \<open>Control runes are single bytes, so in valid UTF-8 the loop over runes is one over bytes.\<close>

definition disallowedControl :: "char \<Rightarrow> bool" where
  "disallowedControl r \<longleftrightarrow>
     bval r = 0 \<or> bval r < 0x20 \<and> bval r \<noteq> 0x0A \<and> bval r \<noteq> 0x09 \<or> bval r = 0x7F"

definition validateText :: "string \<Rightarrow> string \<Rightarrow> nat \<Rightarrow> bool \<Rightarrow> goError option" where
  "validateText name value mx required =
     (if \<not> validUTF8 value then Some (contactsValidationError (name @ '' must be valid UTF-8''))
      else if required \<and> trimSpace value = []
      then Some (contactsValidationError (name @ '' cannot be empty''))
      else if mx < length value
      then Some (contactsValidationError (name @ '' exceeds its byte limit''))
      else if list_ex disallowedControl value
      then Some (contactsValidationError (name @ '' contains a disallowed control character''))
      else None)"

definition validateSingleLine :: "string \<Rightarrow> string \<Rightarrow> nat \<Rightarrow> bool \<Rightarrow> goError option" where
  "validateSingleLine name value mx required =
     (case validateText name value mx required of
        Some err \<Rightarrow> Some err
      | None \<Rightarrow>
          if containsAny value [cr, lf]
          then Some (contactsValidationError (name @ '' must be a single line''))
          else None)"

definition validateContactUID :: "string \<Rightarrow> goError option" where
  "validateContactUID uid = validateSingleLine ''uid'' uid 255 True"

definition validTokenRune :: "char \<Rightarrow> bool" where
  "validTokenRune r \<longleftrightarrow> inRange 0x61 0x7A r \<or> inRange 0x41 0x5A r \<or> inRange 0x30 0x39 r
     \<or> r = CHR ''-'' \<or> r = CHR ''_''"

definition validTypeToken :: "string \<Rightarrow> bool" where
  "validTypeToken value \<longleftrightarrow> list_all validTokenRune value"

definition validateAddressBookID :: "string \<Rightarrow> goError option" where
  "validateAddressBookID i =
     (if length i \<noteq> 27 \<or> \<not> hasPrefix i ''book-''
      then Some (contactsValidationError ''address_book must be an identifier returned by list_address_books'')
      else if \<not> list_all validTokenRune (drop 5 i)
      then Some (contactsValidationError ''address_book must be an identifier returned by list_address_books'')
      else None)"

section \<open>Values\<close>

definition normalizePhone :: "string \<Rightarrow> string" where
  "normalizePhone value = filter (inRange 0x30 0x39) value"

definition validatePhone :: "string \<Rightarrow> goError option" where
  "validatePhone value =
     (if normalizePhone value = []
      then Some (contactsValidationError ''phone value must contain at least one digit'') else None)"

definition validateEmail :: "contactParsers \<Rightarrow> string \<Rightarrow> goError option" where
  "validateEmail ps value =
     (if cp_parseAddress ps value = Some value then None
      else Some (contactsValidationError ''email value must be a plain address''))"

definition validateURLValue :: "contactParsers \<Rightarrow> string \<Rightarrow> goError option" where
  "validateURLValue ps value =
     (case cp_parseURIScheme ps value of
        None \<Rightarrow> Some (contactsValidationError ''url value must be an absolute URI'')
      | Some scheme \<Rightarrow>
          if scheme = [] then Some (contactsValidationError ''url value must be an absolute URI'') else None)"

definition digitVal :: "char \<Rightarrow> nat" where "digitVal c = bval c - 48"

definition number :: "string \<Rightarrow> nat" where
  "number s = foldl (\<lambda>n c. 10 * n + digitVal c) 0 s"

definition leapYear :: "nat \<Rightarrow> bool" where
  "leapYear y \<longleftrightarrow> y mod 4 = 0 \<and> (y mod 100 \<noteq> 0 \<or> y mod 400 = 0)"

definition daysIn :: "nat \<Rightarrow> nat \<Rightarrow> nat" where
  "daysIn month year =
     (if month = 2 then (if leapYear year then 29 else 28)
      else if month \<in> {4, 6, 9, 11} then 30 else 31)"

definition civilDate :: "string \<Rightarrow> bool" where
  "civilDate v \<longleftrightarrow>
     v ! 4 = CHR ''-'' \<and> v ! 7 = CHR ''-''
     \<and> list_all (inRange 0x30 0x39) (take 4 v @ take 2 (drop 5 v) @ drop 8 v)
     \<and> (let y = number (take 4 v); m = number (take 2 (drop 5 v)); d = number (drop 8 v) in
        1 \<le> m \<and> m \<le> 12 \<and> 1 \<le> d \<and> d \<le> daysIn m y)"

definition validateBirthday :: "string \<Rightarrow> goError option" where
  "validateBirthday value =
     (if value = [] then None
      else if length value \<noteq> 10 \<or> \<not> civilDate value
      then Some (contactsValidationError ''birthday must use YYYY-MM-DD'')
      else None)"

definition validateTypedValue ::
  "string \<Rightarrow> nat \<Rightarrow> (string \<Rightarrow> goError option) \<Rightarrow> typedValue \<Rightarrow> goError option" where
  "validateTypedValue name maxValue valueValidator v =
     firstError
       [validateSingleLine (name @ '' type'') (tv_type v) 64 False,
        if tv_type v \<noteq> [] \<and> \<not> validTypeToken (tv_type v)
        then Some (contactsValidationError (name @ '' type contains an invalid character'')) else None,
        validateSingleLine (name @ '' value'') (tv_value v) maxValue True,
        valueValidator (tv_value v)]"

definition validateTypedValues ::
  "string \<Rightarrow> typedValue list \<Rightarrow> nat \<Rightarrow> nat \<Rightarrow> (string \<Rightarrow> goError option) \<Rightarrow> goError option" where
  "validateTypedValues name vs maxCount maxValue valueValidator =
     (if maxCount < length vs
      then Some (contactsValidationError (name @ '' exceeds its item limit''))
      else firstError (map (validateTypedValue name maxValue valueValidator) vs))"

definition semicolonError :: "string \<Rightarrow> string \<Rightarrow> goError option" where
  "semicolonError name value =
     (if containsStr value '';''
      then Some (contactsValidationError (name @ '' cannot contain a semicolon'')) else None)"

definition nameParts :: "structuredName \<Rightarrow> (string \<times> string) list" where
  "nameParts n =
     [(''family_name'', sn_familyName n), (''given_name'', sn_givenName n),
      (''additional_name'', sn_additionalName n), (''honorific_prefix'', sn_honorificPrefix n),
      (''honorific_suffix'', sn_honorificSuffix n)]"

definition validateName :: "structuredName \<Rightarrow> goError option" where
  "validateName n =
     firstError (concat (map (\<lambda>(name, value).
       [validateSingleLine name value 500 False, semicolonError name value]) (nameParts n)))"

definition addressParts :: "postalAddress \<Rightarrow> (string \<times> string) list" where
  "addressParts a =
     [(''post office box'', pa_postOfficeBox a), (''extended address'', pa_extendedAddress a),
      (''street address'', pa_streetAddress a), (''locality'', pa_locality a),
      (''region'', pa_region a), (''postal code'', pa_postalCode a), (''country'', pa_country a)]"

definition validateAddress :: "postalAddress \<Rightarrow> goError option" where
  "validateAddress a =
     firstError
       ([validateSingleLine ''address type'' (pa_type a) 64 False,
         if pa_type a \<noteq> [] \<and> \<not> validTypeToken (pa_type a)
         then Some (contactsValidationError ''address type contains an invalid character'') else None]
        @ concat (map (\<lambda>(name, value).
            [validateSingleLine name value 500 False, semicolonError name value]) (addressParts a)))"

definition validateAddresses :: "postalAddress list \<Rightarrow> goError option" where
  "validateAddresses vs =
     (if 5 < length vs then Some (contactsValidationError ''addresses exceeds its item limit'')
      else firstError (map validateAddress vs))"

definition nameEmpty :: "structuredName \<Rightarrow> bool" where
  "nameEmpty n \<longleftrightarrow> trimSpace (sn_familyName n) = [] \<and> trimSpace (sn_givenName n) = []
     \<and> trimSpace (sn_additionalName n) = [] \<and> trimSpace (sn_honorificPrefix n) = []
     \<and> trimSpace (sn_honorificSuffix n) = []"

section \<open>Entity tags\<close>

definition contactStrongETag :: "string \<Rightarrow> goError + string" where
  "contactStrongETag v =
     (if 512 < length v then Inl (PlainError ''invalid strong entity-tag'')
      else
        (let value = trimBytes v [sp, tab] in
         if length value < 2 \<or> hd value \<noteq> dquote \<or> List.last value \<noteq> dquote
         then Inl (PlainError ''invalid strong entity-tag'')
         else if list_ex (\<lambda>b. bval b < 0x21 \<or> b = dquote \<or> bval b = 0x7F) (butlast (tl value))
         then Inl (PlainError ''invalid strong entity-tag'')
         else Inr value))"

definition normalizeCallerETag :: "string \<Rightarrow> goError + string" where
  "normalizeCallerETag etag =
     (if etag = [] then Inr []
      else case contactStrongETag etag of
             Inl _ \<Rightarrow> Inl (contactsValidationError ''etag must be a specific strong ETag'')
           | Inr parsed \<Rightarrow> Inr parsed)"

definition validateServerETag :: "string \<Rightarrow> goError + string" where
  "validateServerETag etag =
     (case contactStrongETag etag of
        Inl _ \<Rightarrow> Inl (contactsError codeProtocolError 0 ''the contact does not have a usable strong ETag'')
      | Inr parsed \<Rightarrow> Inr parsed)"

definition contactETagFromHeader :: "string list \<Rightarrow> goError + string" where
  "contactETagFromHeader vals =
     (if vals = [] then Inr []
      else if length vals \<noteq> 1 then Inl (PlainError ''invalid entity-tag field count'')
      else contactStrongETag (hd vals))"

section \<open>Requests\<close>

text \<open>\<open>validateSearchOptions\<close> fills in the default limit of the options it is given.\<close>

definition validateSearchOptions :: "searchOptions \<Rightarrow> goError + searchOptions" where
  "validateSearchOptions opts =
     (case firstError
        [if so_addressBook opts \<noteq> [] then validateAddressBookID (so_addressBook opts) else None,
         validateText ''query'' (so_query opts) 256 False,
         validateSingleLine ''email'' (so_email opts) 320 False,
         validateSingleLine ''phone'' (so_phone opts) 64 False,
         if so_phone opts \<noteq> [] \<and> normalizePhone (so_phone opts) = []
         then Some (contactsValidationError ''phone must contain at least one digit'') else None] of
        Some err \<Rightarrow> Inl err
      | None \<Rightarrow>
          (let opts' = (if so_limit opts = 0 then opts\<lparr>so_limit := 50\<rparr> else opts) in
           if so_limit opts' < 1 \<or> 100 < so_limit opts'
           then Inl (contactsValidationError ''limit must be between 1 and 100'')
           else Inr opts'))"

type_synonym map_order = "(string \<times> string) list \<Rightarrow> (string \<times> string) list"

definition validateContactFields ::
  "contactParsers \<Rightarrow> map_order \<Rightarrow> createContactInput \<Rightarrow> goError option" where
  "validateContactFields ps order c =
     firstError
       ([validateSingleLine ''display_name'' (cc_displayName c) 500 False,
         validateName (cc_name c)]
        @ map (\<lambda>(field, value). validateSingleLine field value 500 False)
            (order [(''organization'', cc_organization c), (''title'', cc_title c),
                    (''nickname'', cc_nickname c)])
        @ [validateBirthday (cc_birthday c),
           validateText ''notes'' (cc_notes c) 4000 False,
           validateTypedValues ''emails'' (cc_emails c) 10 320 (validateEmail ps),
           validateTypedValues ''phones'' (cc_phones c) 10 64 validatePhone,
           validateAddresses (cc_addresses c),
           validateTypedValues ''urls'' (cc_urls c) 5 2048 (validateURLValue ps)])"

definition validateCreate ::
  "contactParsers \<Rightarrow> map_order \<Rightarrow> createContactInput option \<Rightarrow> goError option" where
  "validateCreate ps order input =
     (case input of
        None \<Rightarrow> Some (contactsValidationError ''contact cannot be nil'')
      | Some c \<Rightarrow>
          firstError
            [validateAddressBookID (cc_addressBook c),
             validateContactFields ps order c,
             if trimSpace (cc_displayName c) = [] \<and> nameEmpty (cc_name c)
             then Some (contactsValidationError ''display_name or one structured name component is required'')
             else None,
             if cc_clientUID c \<noteq> [] \<and> validateContactUID (cc_clientUID c) \<noteq> None
             then Some (contactsValidationError ''client_uid is invalid'') else None])"

text \<open>A check of an optional field of a patch.\<close>

definition whenSet :: "'a option \<Rightarrow> ('a \<Rightarrow> goError option) \<Rightarrow> goError option" where
  "whenSet v check = (case v of None \<Rightarrow> None | Some x \<Rightarrow> check x)"

definition patchEmpty :: "contactPatch \<Rightarrow> bool" where
  "patchEmpty p \<longleftrightarrow> cp_displayName p = None \<and> cp_name p = None \<and> cp_organization p = None
     \<and> cp_title p = None \<and> cp_nickname p = None \<and> cp_birthday p = None \<and> cp_notes p = None
     \<and> cp_emails p = None \<and> cp_phones p = None \<and> cp_addresses p = None \<and> cp_urls p = None"

type_synonym patch_order =
  "(string \<times> string option) list \<Rightarrow> (string \<times> string option) list"

definition validatePatch ::
  "contactParsers \<Rightarrow> patch_order \<Rightarrow> contactPatch \<Rightarrow> goError option" where
  "validatePatch ps order p =
     firstError
       ([if patchEmpty p
         then Some (contactsValidationError ''at least one contact field must be patched'') else None,
         whenSet (cp_displayName p) (\<lambda>v. validateSingleLine ''display_name'' v 500 False),
         whenSet (cp_name p) validateName]
        @ map (\<lambda>(name, value). whenSet value (\<lambda>v. validateSingleLine name v 500 False))
            (order [(''organization'', cp_organization p), (''title'', cp_title p),
                    (''nickname'', cp_nickname p)])
        @ [whenSet (cp_birthday p) validateBirthday,
           whenSet (cp_notes p) (\<lambda>v. validateText ''notes'' v 4000 False),
           whenSet (cp_emails p) (\<lambda>vs. validateTypedValues ''emails'' vs 10 320 (validateEmail ps)),
           whenSet (cp_phones p) (\<lambda>vs. validateTypedValues ''phones'' vs 10 64 validatePhone),
           whenSet (cp_addresses p) validateAddresses,
           whenSet (cp_urls p) (\<lambda>vs. validateTypedValues ''urls'' vs 5 2048 (validateURLValue ps))])"

definition errorOf :: "goError + 'a \<Rightarrow> goError option" where
  "errorOf r = (case r of Inl e \<Rightarrow> Some e | Inr _ \<Rightarrow> None)"

definition validateUpdate ::
  "contactParsers \<Rightarrow> patch_order \<Rightarrow> updateContactInput option \<Rightarrow> goError option" where
  "validateUpdate ps order input =
     (case input of
        None \<Rightarrow> Some (contactsValidationError ''update cannot be nil'')
      | Some u \<Rightarrow>
          firstError
            [validateAddressBookID (uc_addressBook u),
             validateContactUID (uc_uid u),
             errorOf (normalizeCallerETag (uc_etag u)),
             validatePatch ps order (uc_patch u)])"

definition validateDelete :: "deleteContactInput option \<Rightarrow> goError option" where
  "validateDelete input =
     (case input of
        None \<Rightarrow> Some (contactsValidationError ''delete request cannot be nil'')
      | Some d \<Rightarrow>
          firstError
            [validateAddressBookID (dc_addressBook d), validateContactUID (dc_uid d),
             errorOf (normalizeCallerETag (dc_etag d))])"

section \<open>The two ETag parsers agree\<close>

lemma contactStrongETag_eq: "contactStrongETag v = parseStrongETag v"
proof -
  have "bval dquote = 0x22" by (simp add: bval_def)
  then have "(bval b < 0x21 \<or> b = dquote \<or> bval b = 0x7F) \<longleftrightarrow> \<not> etagInner b" for b
    unfolding etagInner_def by (metis bval_inj)
  then have eq: "list_ex (\<lambda>b. bval b < 0x21 \<or> b = dquote \<or> bval b = 0x7F) l \<longleftrightarrow> \<not> list_all etagInner l" for l
    by (simp only: list_ex_iff list_all_iff) blast
  show ?thesis by (simp only: contactStrongETag_def parseStrongETag_def maxETagBytes_def Let_def eq)
qed

section \<open>What validation guarantees\<close>

text \<open>A value that fits on one line of a vCard: bounded UTF-8 without control bytes other than tab.\<close>

definition singleLineOk :: "nat \<Rightarrow> string \<Rightarrow> bool" where
  "singleLineOk n v \<longleftrightarrow> validUTF8 v \<and> length v \<le> n
     \<and> (\<forall>c \<in> set v. c = tab \<or> 0x20 \<le> bval c \<and> bval c \<noteq> 0x7F)"

definition textOk :: "nat \<Rightarrow> string \<Rightarrow> bool" where
  "textOk n v \<longleftrightarrow> validUTF8 v \<and> length v \<le> n
     \<and> (\<forall>c \<in> set v. c = tab \<or> c = lf \<or> 0x20 \<le> bval c \<and> bval c \<noteq> 0x7F)"

definition componentOk :: "string \<Rightarrow> bool" where
  "componentOk v \<longleftrightarrow> singleLineOk 500 v \<and> CHR '';'' \<notin> set v"

definition typedOk :: "nat \<Rightarrow> nat \<Rightarrow> (string \<Rightarrow> bool) \<Rightarrow> typedValue list \<Rightarrow> bool" where
  "typedOk count n ok vs \<longleftrightarrow> length vs \<le> count
     \<and> (\<forall>v \<in> set vs. length (tv_type v) \<le> 64 \<and> list_all validTokenRune (tv_type v)
          \<and> singleLineOk n (tv_value v) \<and> trimSpace (tv_value v) \<noteq> [] \<and> ok (tv_value v))"

definition addressOk :: "postalAddress \<Rightarrow> bool" where
  "addressOk a \<longleftrightarrow> length (pa_type a) \<le> 64 \<and> list_all validTokenRune (pa_type a)
     \<and> (\<forall>v \<in> snd ` set (addressParts a). componentOk v)"

definition cleanContact :: "contactParsers \<Rightarrow> createContactInput \<Rightarrow> bool" where
  "cleanContact ps c \<longleftrightarrow>
     singleLineOk 500 (cc_displayName c)
     \<and> (\<forall>v \<in> snd ` set (nameParts (cc_name c)). componentOk v)
     \<and> (\<forall>v \<in> {cc_organization c, cc_title c, cc_nickname c}. singleLineOk 500 v)
     \<and> (cc_birthday c = [] \<or> length (cc_birthday c) = 10 \<and> civilDate (cc_birthday c))
     \<and> textOk 4000 (cc_notes c)
     \<and> typedOk 10 320 (\<lambda>v. cp_parseAddress ps v = Some v) (cc_emails c)
     \<and> typedOk 10 64 (\<lambda>v. normalizePhone v \<noteq> []) (cc_phones c)
     \<and> length (cc_addresses c) \<le> 5 \<and> (\<forall>a \<in> set (cc_addresses c). addressOk a)
     \<and> typedOk 5 2048 (\<lambda>v. \<exists>s. cp_parseURIScheme ps v = Some s \<and> s \<noteq> []) (cc_urls c)"

lemma validateText_None:
  assumes "validateText name v n req = None"
  shows "textOk n v" and "req \<Longrightarrow> trimSpace v \<noteq> []"
proof -
  from assms have *: "validUTF8 v" "req \<Longrightarrow> trimSpace v \<noteq> []" "length v \<le> n"
    "\<not> list_ex disallowedControl v"
    by (auto simp: validateText_def split: if_splits)
  have "c = tab \<or> c = lf \<or> 0x20 \<le> bval c \<and> bval c \<noteq> 0x7F" if "\<not> disallowedControl c" for c
  proof -
    have "bval c = 9 \<Longrightarrow> c = tab" "bval c = 10 \<Longrightarrow> c = lf"
      unfolding bval_inj [symmetric] by (simp_all add: bval_def)
    with that show ?thesis unfolding disallowedControl_def by linarith
  qed
  with * show "textOk n v" unfolding textOk_def list_ex_iff by blast
  show "req \<Longrightarrow> trimSpace v \<noteq> []" by (rule *(2))
qed

lemma validateSingleLine_None:
  assumes "validateSingleLine name v n req = None"
  shows "singleLineOk n v" and "req \<Longrightarrow> trimSpace v \<noteq> []"
proof -
  from assms have t: "validateText name v n req = None" and l: "\<not> containsAny v [cr, lf]"
    by (auto simp: validateSingleLine_def split: option.splits if_splits)
  show "singleLineOk n v"
    using validateText_None(1) [OF t] l unfolding textOk_def singleLineOk_def containsAny_iff by auto
  show "req \<Longrightarrow> trimSpace v \<noteq> []" using validateText_None(2) [OF t] .
qed

lemma componentOkI:
  assumes "validateSingleLine name v 500 False = None" "semicolonError name v = None"
  shows "componentOk v"
  using validateSingleLine_None(1) [OF assms(1)] assms(2)
  by (auto simp: componentOk_def semicolonError_def containsStr_iff in_set_conv_decomp split: if_splits)

lemma components_ok:
  assumes "firstError (concat (map (\<lambda>(name, value).
       [validateSingleLine name value 500 False, semicolonError name value]) parts)) = None"
  shows "\<forall>v \<in> snd ` set parts. componentOk v"
proof -
  have "componentOk v" if "(name, v) \<in> set parts" for name v
  proof (rule componentOkI)
    have "{validateSingleLine name v 500 False, semicolonError name v} \<subseteq>
        set (concat (map (\<lambda>(name, value).
          [validateSingleLine name value 500 False, semicolonError name value]) parts))"
      using that by (auto intro!: bexI [of _ "(name, v)"])
    with assms show "validateSingleLine name v 500 False = None" "semicolonError name v = None"
      unfolding firstError_None by blast+
  qed
  then show ?thesis by auto
qed

lemma typeToken_ok:
  assumes "validateSingleLine name t 64 False = None"
    and "(if t \<noteq> [] \<and> \<not> validTypeToken t then Some e else None) = None"
  shows "length t \<le> 64 \<and> list_all validTokenRune t"
proof -
  have "length t \<le> 64" using validateSingleLine_None(1) [OF assms(1)] by (simp add: singleLineOk_def)
  moreover from assms(2) have "list_all validTokenRune t"
    by (cases "t = []") (simp_all add: validTypeToken_def split: if_splits)
  ultimately show ?thesis ..
qed

lemma validateTypedValues_None:
  assumes "validateTypedValues name vs count n check = None" and "\<And>v. check v = None \<Longrightarrow> ok v"
  shows "typedOk count n ok vs"
proof -
  from assms(1) have len: "length vs \<le> count"
    and all: "\<forall>v \<in> set vs. validateTypedValue name n check v = None"
    by (auto simp: validateTypedValues_def firstError_None split: if_splits)
  have "length (tv_type v) \<le> 64 \<and> list_all validTokenRune (tv_type v)
          \<and> singleLineOk n (tv_value v) \<and> trimSpace (tv_value v) \<noteq> [] \<and> ok (tv_value v)"
    if "v \<in> set vs" for v
  proof -
    from all that have v: "validateTypedValue name n check v = None" by blast
    then have 1: "validateSingleLine (name @ '' type'') (tv_type v) 64 False = None"
      and 2: "(if tv_type v \<noteq> [] \<and> \<not> validTypeToken (tv_type v)
         then Some (contactsValidationError (name @ '' type contains an invalid character'')) else None) = None"
      and 3: "validateSingleLine (name @ '' value'') (tv_value v) n True = None"
      and 4: "check (tv_value v) = None"
      unfolding validateTypedValue_def firstError_iff by blast+
    show ?thesis
      using typeToken_ok [OF 1 2] validateSingleLine_None [OF 3] assms(2) [OF 4] by blast
  qed
  with len show ?thesis by (simp add: typedOk_def)
qed

lemma validateAddress_None:
  assumes "validateAddress a = None"
  shows "addressOk a"
proof -
  from assms have parts: "firstError (concat (map (\<lambda>(name, value).
            [validateSingleLine name value 500 False, semicolonError name value]) (addressParts a))) = None"
    and 1: "validateSingleLine ''address type'' (pa_type a) 64 False = None"
    and 2: "(if pa_type a \<noteq> [] \<and> \<not> validTypeToken (pa_type a)
         then Some (contactsValidationError ''address type contains an invalid character'') else None) = None"
    unfolding validateAddress_def firstError_iff by blast+
  show ?thesis
    using components_ok [OF parts] typeToken_ok [OF 1 2] by (simp add: addressOk_def)
qed

lemma validateAddresses_None:
  "validateAddresses as = None \<Longrightarrow> length as \<le> 5 \<and> (\<forall>a \<in> set as. addressOk a)"
  by (auto simp: validateAddresses_def firstError_None validateAddress_None split: if_splits)


definition sampleContactInput :: createContactInput where
  "sampleContactInput =
     \<lparr>cc_addressBook = ''book-abcdefghijklmnopqrstuv'', cc_displayName = ''Ann'', cc_name = emptyName,
      cc_organization = ''ACME'', cc_title = [], cc_nickname = [], cc_birthday = ''2000-02-29'',
      cc_notes = [], cc_emails = [\<lparr>tv_type = ''home'', tv_value = ''ann@x.org''\<rparr>],
      cc_phones = [\<lparr>tv_type = [], tv_value = ''+33 1''\<rparr>], cc_addresses = [], cc_urls = [],
      cc_clientUID = []\<rparr>"


end
