(* ===== verification/Contact_Url.thy ===== *)
theory Contact_Url
  imports Contact_Validation Net_Policy
begin

text \<open>
  The URL policy of the Contacts client (\<open>internal/contacts/client.go\<close>): validation of a URL,
  canonical opaque paths, containment in a collection, identifiers of address books, and the URL of a
  new resource (\<open>childResourceURL\<close> in \<open>operations.go\<close>). Escaped segments stay opaque; a segment is
  refused when it is a dot segment or holds a separator at any depth of percent-decoding.
\<close>

section \<open>Bytes and escapes\<close>

definition isHexByte :: "char \<Rightarrow> bool" where
  "isHexByte c \<longleftrightarrow> inRange 0x30 0x39 c \<or> inRange 0x61 0x66 c \<or> inRange 0x41 0x46 c"

definition upperHexByte :: "char \<Rightarrow> char" where
  "upperHexByte c = (if inRange 0x61 0x66 c then char_of (bval c - 32) else c)"

text \<open>Only called on hexadecimal digits; the subtractions do not wrap there.\<close>

definition hexByteValue :: "char \<Rightarrow> nat" where
  "hexByteValue c = (if inRange 0x30 0x39 c then bval c - 0x30 else bval (upperHexByte c) - 0x41 + 10)"

fun decodePercentEscapes :: "string \<Rightarrow> string \<times> bool" where
  "decodePercentEscapes (p # a # b # rest) =
     (if p = CHR ''%'' \<and> isHexByte a \<and> isHexByte b
      then (char_of (16 * hexByteValue a + hexByteValue b) # fst (decodePercentEscapes rest), True)
      else case decodePercentEscapes (a # b # rest) of (d, changed) \<Rightarrow> (p # d, changed))"
| "decodePercentEscapes s = (s, False)"

definition unsafeDecoded :: "string \<Rightarrow> bool" where
  "unsafeDecoded d \<longleftrightarrow> d = ''.'' \<or> d = ''..'' \<or> containsAny d [CHR ''/'', backslash, CHR 0x00, cr, lf]"

text \<open>The loop runs \<open>len(segment) + 1\<close> times; when it runs out, the segment is unsafe.\<close>

fun unsafeSegmentLoop :: "nat \<Rightarrow> string \<Rightarrow> bool" where
  "unsafeSegmentLoop 0 decoded = True"
| "unsafeSegmentLoop (Suc n) decoded =
     (if unsafeDecoded decoded then True
      else case decodePercentEscapes decoded of
             (next, changed) \<Rightarrow> if \<not> changed then False else unsafeSegmentLoop n next)"

definition unsafeOpaquePathSegment :: "string \<Rightarrow> bool" where
  "unsafeOpaquePathSegment segment = unsafeSegmentLoop (length segment + 1) segment"

section \<open>Canonical paths\<close>

fun canonicalEscapes :: "string \<Rightarrow> string option" where
  "canonicalEscapes [] = Some []"
| "canonicalEscapes (c # s) =
     (if c = CHR ''%'' then
        (case s of
           a # b # rest \<Rightarrow>
             if isHexByte a \<and> isHexByte b
             then map_option (\<lambda>r. c # upperHexByte a # upperHexByte b # r) (canonicalEscapes rest)
             else None
         | _ \<Rightarrow> None)
      else if c \<in> {backslash, CHR 0x00, cr, lf} then None
      else map_option ((#) c) (canonicalEscapes s))"

definition canonicalOpaquePath :: "url \<Rightarrow> string option" where
  "canonicalOpaquePath target =
     (let escaped = u_escapedPath target in
      if escaped = [] \<or> 4096 < length escaped \<or> \<not> hasPrefix escaped ''/'' \<or> hasPrefix escaped ''//''
      then None
      else case canonicalEscapes escaped of
             None \<Rightarrow> None
           | Some canonical \<Rightarrow>
               if \<exists>segment \<in> set (splitByte canonical (CHR ''/'')). unsafeOpaquePathSegment segment
               then None else Some canonical)"

text \<open>\<open>strings.ToLower\<close> is a parameter here: any Unicode case mapping will do.\<close>

definition validateContactsURL ::
  "(string \<Rightarrow> string) \<Rightarrow> (string \<Rightarrow> bool) option \<Rightarrow> url \<Rightarrow> goError option" where
  "validateContactsURL lower allowHost target =
     (if u_scheme target \<noteq> ''https'' \<or> u_host target = [] \<or> u_opaque target \<noteq> []
         \<or> u_user target \<noteq> None \<or> u_fragment target \<noteq> [] \<or> u_rawQuery target \<noteq> []
         \<or> u_forceQuery target
      then Some (contactsError codeProtocolError 0 ''Contacts URL failed scheme or authority validation'')
      else if hostname target = [] \<or> hostname target \<noteq> lower (hostname target)
      then Some (contactsError codeProtocolError 0 ''Contacts URL host must be lowercase'')
      else if urlPort target \<noteq> [] \<and> urlPort target \<noteq> ''443''
      then Some (contactsError codeProtocolError 0 ''Contacts URL uses a disallowed port'')
      else if (case allowHost of None \<Rightarrow> True | Some f \<Rightarrow> \<not> f (hostname target))
      then Some (contactsError codeProtocolError 0 ''Contacts URL host is outside the domain allowlist'')
      else if canonicalOpaquePath target = None
      then Some (contactsError codeProtocolError 0 ''Contacts URL path is invalid'')
      else None)"

definition canonicalURL :: "url \<Rightarrow> string" where
  "canonicalURL target =
     ''https://'' @ hostname target
     @ (if urlPort target \<noteq> [] \<and> urlPort target \<noteq> ''443'' then '':'' @ urlPort target else [])
     @ (case canonicalOpaquePath target of None \<Rightarrow> [] | Some p \<Rightarrow> p)"

definition portOr443 :: "url \<Rightarrow> string" where
  "portOr443 u = (if urlPort u = [] then ''443'' else urlPort u)"

definition urlWithin :: "url \<Rightarrow> url \<Rightarrow> bool \<Rightarrow> bool" where
  "urlWithin child collection allowEqual =
     (if u_scheme child \<noteq> u_scheme collection \<or> hostname child \<noteq> hostname collection
         \<or> portOr443 child \<noteq> portOr443 collection
      then False
      else case (canonicalOpaquePath collection, canonicalOpaquePath child) of
             (Some base, Some path) \<Rightarrow>
               (let basePath = trimSuffix base ''/''; childPath = trimSuffix path ''/'' in
                if allowEqual \<and> childPath = basePath then True
                else basePath \<noteq> [] \<and> hasPrefix childPath (basePath @ ''/''))
           | _ \<Rightarrow> False)"

text \<open>The identifier of an address book; SHA-256 is a parameter.\<close>

definition opaqueBookID :: "(string \<Rightarrow> string) \<Rightarrow> url \<Rightarrow> string" where
  "opaqueBookID sha256 target = ''book-'' @ base64 b64Url False (take 16 (sha256 (canonicalURL target)))"

section \<open>The URL of a new resource\<close>

text \<open>
  \<open>(*URL).EscapedPath\<close> for a path and its raw form (\<open>validEncoded\<close> holds of every raw path the code
  builds, which is the escaped path of another URL), and the escaping of \<open>net/url\<close> for paths.
\<close>

definition escapePath :: "string \<Rightarrow> string" where
  "escapePath s =
     concat (map (\<lambda>c. if isAlnum c \<or> c \<in> set ''-_.~$&+,/:;=@'' then [c] else percentByte c) s)"

definition escapedPathOf :: "string \<Rightarrow> string \<Rightarrow> string" where
  "escapedPathOf path rawPath =
     (if rawPath \<noteq> [] \<and> pathUnescape rawPath = Some path then rawPath
      else if path = ''*'' then ''*'' else escapePath path)"

definition relativeURL :: "string \<Rightarrow> url" where
  "relativeURL name =
     \<lparr>u_scheme = [], u_opaque = [], u_user = None, u_host = [], u_escapedPath = escapedPathOf name [],
      u_forceQuery = False, u_rawQuery = [], u_fragment = []\<rparr>"

definition childResourceBase :: "url \<Rightarrow> url" where
  "childResourceBase collection =
     (let escaped = u_escapedPath collection;
          path = (case pathUnescape escaped of None \<Rightarrow> [] | Some p \<Rightarrow> p);
          basePath = trimSuffix path ''/'' @ ''/'';
          escapedBase = trimSuffix escaped ''/'' @ ''/'';
          rawPath = (if escapedBase \<noteq> basePath then escapedBase else [])
      in collection\<lparr>u_escapedPath := escapedPathOf basePath rawPath, u_rawQuery := [], u_fragment := []\<rparr>)"

definition childResourceURL :: "(url \<Rightarrow> url \<Rightarrow> url) \<Rightarrow> url \<Rightarrow> string \<Rightarrow> url" where
  "childResourceURL resolve collection name = resolve (childResourceBase collection) (relativeURL name)"

section \<open>Decoding to any depth\<close>

fun decodeTimes :: "nat \<Rightarrow> string \<Rightarrow> string" where
  "decodeTimes 0 s = s"
| "decodeTimes (Suc n) s = decodeTimes n (fst (decodePercentEscapes s))"

lemma decode_unchanged: "decodePercentEscapes s = (d, False) \<Longrightarrow> d = s"
  by (induction s arbitrary: d rule: decodePercentEscapes.induct) (auto split: if_splits prod.splits)

lemma decode_length_le: "length (fst (decodePercentEscapes s)) \<le> length s"
  by (induction s rule: decodePercentEscapes.induct) (auto split: if_splits prod.splits)

lemma decode_shrinks: "decodePercentEscapes s = (d, True) \<Longrightarrow> length d < length s"
proof (induction s arbitrary: d rule: decodePercentEscapes.induct)
  case (1 p a b rest)
  then show ?case
    using decode_length_le [of rest] by (auto split: if_splits prod.splits)
qed auto

lemma decodeTimes_fixed: "decodePercentEscapes s = (d, False) \<Longrightarrow> decodeTimes n s = s"
  using decode_unchanged by (induction n) fastforce+

lemma unsafeSegmentLoop_iff:
  "length s < n \<Longrightarrow> unsafeSegmentLoop n s \<longleftrightarrow> (\<exists>k. unsafeDecoded (decodeTimes k s))"
proof (induction n s rule: unsafeSegmentLoop.induct)
  case (2 n s)
  obtain d changed where dec: "decodePercentEscapes s = (d, changed)" by (rule prod.exhaust)
  have split: "(\<exists>k. unsafeDecoded (decodeTimes k s)) \<longleftrightarrow>
      unsafeDecoded s \<or> (\<exists>k. unsafeDecoded (decodeTimes k d))"
    using dec by (metis decodeTimes.simps fst_conv not0_implies_Suc)
  show ?case
  proof (cases "unsafeDecoded s \<or> \<not> changed")
    case True
    then show ?thesis using dec decodeTimes_fixed [of s d] split by auto
  next
    case False
    with dec decode_shrinks [of s d] "2.prems" have "length d < n" by simp
    with "2.IH" [OF _ dec [symmetric]] False dec split show ?thesis by simp
  qed
qed simp

lemma unsafeOpaquePathSegment_iff:
  "unsafeOpaquePathSegment s \<longleftrightarrow> (\<exists>k. unsafeDecoded (decodeTimes k s))"
  unfolding unsafeOpaquePathSegment_def by (rule unsafeSegmentLoop_iff) simp

section \<open>Containment\<close>

lemma splitByte_delim: "splitByte (s @ b # t) b = splitByte s b @ splitByte t b"
proof (induction s)
  case (Cons c s)
  then show ?case by (cases "splitByte s b") auto
qed simp

text \<open>No segment of the path is, or decodes to, a dot segment or something with a separator.\<close>

definition opaqueSafe :: "string \<Rightarrow> bool" where
  "opaqueSafe path \<longleftrightarrow>
     (\<forall>segment \<in> set (splitByte path (CHR ''/'')). \<forall>k. \<not> unsafeDecoded (decodeTimes k segment))"

lemma canonicalOpaquePath_safe: "canonicalOpaquePath u = Some p \<Longrightarrow> opaqueSafe p"
  by (auto simp: canonicalOpaquePath_def Let_def opaqueSafe_def unsafeOpaquePathSegment_iff
      split: if_splits option.splits)

lemma validateContactsURL_None:
  assumes "validateContactsURL lower allowHost u = None"
  shows "u_scheme u = ''https''" "u_user u = None" "u_rawQuery u = []" "u_fragment u = []"
    and "urlPort u = [] \<or> urlPort u = ''443''" "\<exists>f. allowHost = Some f \<and> f (hostname u)"
    and "\<exists>p. canonicalOpaquePath u = Some p"
  using assms unfolding validateContactsURL_def by (simp_all split: if_splits option.splits)

definition segments :: "string \<Rightarrow> string list" where
  "segments p = splitByte (trimSuffix p ''/'') (CHR ''/'')"

text \<open>
  Containment in an address book is containment segment by segment. When \<open>urlWithin\<close> accepts a
  resource below a collection, both have the same origin, the segments of the resource are those of
  the collection followed by at least one more, and no segment of either becomes \<open>.\<close> or \<open>..\<close> or
  gains a separator or a line break, however often a server percent-decodes it.
\<close>

theorem contact_resource_contained:
  assumes "urlWithin child collection False"
  shows "u_scheme child = u_scheme collection \<and> hostname child = hostname collection
    \<and> portOr443 child = portOr443 collection
    \<and> (\<exists>base path extra. canonicalOpaquePath collection = Some base \<and> canonicalOpaquePath child = Some path
         \<and> segments path = segments base @ extra \<and> extra \<noteq> [] \<and> opaqueSafe base \<and> opaqueSafe path)"
proof -
  from assms obtain base path where
    origin: "u_scheme child = u_scheme collection" "hostname child = hostname collection"
      "portOr443 child = portOr443 collection"
    and paths: "canonicalOpaquePath collection = Some base" "canonicalOpaquePath child = Some path"
    and pre: "hasPrefix (trimSuffix path ''/'') (trimSuffix base ''/'' @ ''/'')"
    by (auto simp: urlWithin_def Let_def split: if_splits option.splits)
  from pre obtain t where "trimSuffix path ''/'' = trimSuffix base ''/'' @ CHR ''/'' # t"
    by (auto simp: hasPrefix_iff)
  then have "segments path = segments base @ splitByte t (CHR ''/'')"
    by (simp add: segments_def splitByte_delim)
  moreover have "splitByte t (CHR ''/'') \<noteq> []" by simp
  ultimately show ?thesis using origin paths canonicalOpaquePath_safe by metis
qed

definition sampleContactURL :: "string \<Rightarrow> url" where
  "sampleContactURL path =
     \<lparr>u_scheme = ''https'', u_opaque = [], u_user = None, u_host = ''p1-contacts.icloud.com'',
      u_escapedPath = path, u_forceQuery = False, u_rawQuery = [], u_fragment = []\<rparr>"

theorem contact_resource_contained_witness:
  "urlWithin (sampleContactURL ''/c/b%2d/x.vcf'') (sampleContactURL ''/c/b%2D/'') False
   \<and> segments ''/c/b%2D/x.vcf'' = segments ''/c/b%2D/'' @ [''x.vcf'']
   \<and> opaqueSafe ''/c/b%2D/x.vcf''
   \<and> \<not> urlWithin (sampleContactURL ''/c/b%2D/%252e%252e/x.vcf'') (sampleContactURL ''/c/b%2D/'') False"
proof -
  have w: "urlWithin (sampleContactURL ''/c/b%2d/x.vcf'') (sampleContactURL ''/c/b%2D/'') False" by code_simp
  have p: "canonicalOpaquePath (sampleContactURL ''/c/b%2d/x.vcf'') = Some ''/c/b%2D/x.vcf''" by code_simp
  have "opaqueSafe ''/c/b%2D/x.vcf''"
    using contact_resource_contained [OF w] p by auto
  moreover have "segments ''/c/b%2D/x.vcf'' = segments ''/c/b%2D/'' @ [''x.vcf'']" by code_simp
  moreover have "\<not> urlWithin (sampleContactURL ''/c/b%2D/%252e%252e/x.vcf'') (sampleContactURL ''/c/b%2D/'') False"
    by code_simp
  ultimately show ?thesis using w by blast
qed

text \<open>
  \<open>childResourceURL\<close> drops the raw form of a path that has no percent escape. A path with one of the
  bytes that \<open>net/url\<close> accepts raw and escapes itself, such as an exclamation mark, is re-encoded, and
  what is below it is no longer within the collection: no contact can be created there.
\<close>

lemma create_target_leaves_collection:
  "u_escapedPath (childResourceBase (sampleContactURL ''/a!b/'')) = ''/a%21b/''"
  "urlWithin (sampleContactURL ''/a!b/x.vcf'') (sampleContactURL ''/a!b/'') False"
  "\<not> urlWithin (sampleContactURL ''/a%21b/x.vcf'') (sampleContactURL ''/a!b/'') False"
  by code_simp+

end
