(* ===== verification/Contact_Card.thy ===== *)
theory Contact_Card
  imports Contact_Validation
begin

text \<open>
  \<open>internal/contacts/vcard.go\<close>: the lossless representation of a vCard as raw properties, its
  validation, the patch that replaces whole properties and copies every other byte, and the
  mapping between cards and the contact model. A \<open>vcard.Card\<close> is a Go map from property names to
  fields, here an association list without duplicate keys. The decoder, the encoder and the
  accessors of the go-vcard package are the record \<open>vcardLib\<close>; nothing is assumed of them.
\<close>

section \<open>Cards and the vCard package\<close>

record vfield =
  vf_value :: string
  vf_params :: "(string \<times> string list) list"

type_synonym card = "(string \<times> vfield list) list"

definition cardFields :: "card \<Rightarrow> string \<Rightarrow> vfield list" where
  "cardFields c name = (case map_of c name of None \<Rightarrow> [] | Some fs \<Rightarrow> fs)"

text \<open>
  \<open>vl_decode\<close> is \<open>Decode\<close> on fresh input with the question whether a second \<open>Decode\<close> reports the end
  of the input; \<open>vl_hasPref\<close>, \<open>vl_types\<close> and \<open>vl_paramGet\<close> are the accessors of \<open>Params\<close>.
\<close>

record vcardLib =
  vl_decode :: "bytes \<Rightarrow> (card \<times> bool) option"
  vl_encode :: "card \<Rightarrow> bytes option"
  vl_value :: "card \<Rightarrow> string \<Rightarrow> string"
  vl_setValue :: "string \<Rightarrow> string \<Rightarrow> card \<Rightarrow> card"
  vl_setName :: "structuredName \<Rightarrow> card \<Rightarrow> card"
  vl_name :: "card \<Rightarrow> structuredName option"
  vl_hasField :: "card \<Rightarrow> string \<Rightarrow> bool"
  vl_add :: "string \<Rightarrow> vfield \<Rightarrow> card \<Rightarrow> card"
  vl_addAddress :: "vfield \<Rightarrow> postalAddress \<Rightarrow> card \<Rightarrow> card"

section \<open>Raw properties\<close>

record rawProperty =
  rp_group :: string
  rp_name :: string
  rp_value :: string
  rp_hasParams :: bool
  rp_raw :: bytes

type_synonym rawCard = "rawProperty list"

definition maxCardBytes :: int where "maxCardBytes = 1048576"
definition maxCardProperties :: nat where "maxCardProperties = 10000"

definition invalidCardError :: goError where
  "invalidCardError = contactsError codeProtocolError 0 ''iCloud Contacts returned an invalid vCard''"

definition validPhysicalLine :: "bytes \<Rightarrow> bool" where
  "validPhysicalLine line \<longleftrightarrow>
     list_all (\<lambda>v. \<not> (bval v = 0 \<or> bval v = 0x7F \<or> bval v < 0x20 \<and> v \<noteq> tab)) line"

text \<open>The scans that respect quoted text: \<open>index++\<close> inside the loop skips an escaped byte.\<close>

fun delimiterLoop :: "char \<Rightarrow> bool \<Rightarrow> nat \<Rightarrow> bytes \<Rightarrow> goError + nat option" where
  "delimiterLoop d inQuotes i [] = (if inQuotes then Inl invalidCardError else Inr None)"
| "delimiterLoop d inQuotes i [c] =
     (if c = backslash then delimiterLoop d inQuotes (i + 1) []
      else if c = dquote then delimiterLoop d (\<not> inQuotes) (i + 1) []
      else if c = d \<and> \<not> inQuotes then Inr (Some i)
      else delimiterLoop d inQuotes (i + 1) [])"
| "delimiterLoop d inQuotes i (c # e # cs) =
     (if c = backslash
      then (if inQuotes then delimiterLoop d inQuotes (i + 2) cs else delimiterLoop d inQuotes (i + 1) (e # cs))
      else if c = dquote then delimiterLoop d (\<not> inQuotes) (i + 1) (e # cs)
      else if c = d \<and> \<not> inQuotes then Inr (Some i)
      else delimiterLoop d inQuotes (i + 1) (e # cs))"

definition delimiterOutsideQuotes :: "bytes \<Rightarrow> char \<Rightarrow> goError + nat option" where
  "delimiterOutsideQuotes value delimiter = delimiterLoop delimiter False 0 value"

fun splitLoop :: "char \<Rightarrow> bool \<Rightarrow> string \<Rightarrow> string \<Rightarrow> goError + string list" where
  "splitLoop d inQuotes cur [] = (if inQuotes then Inl invalidCardError else Inr [cur])"
| "splitLoop d inQuotes cur [c] =
     (if c = backslash then splitLoop d inQuotes (cur @ [c]) []
      else if c = dquote then splitLoop d (\<not> inQuotes) (cur @ [c]) []
      else if c = d \<and> \<not> inQuotes then Inr [cur, []]
      else splitLoop d inQuotes (cur @ [c]) [])"
| "splitLoop d inQuotes cur (c # e # cs) =
     (if c = backslash
      then (if inQuotes then splitLoop d inQuotes (cur @ [c, e]) cs else splitLoop d inQuotes (cur @ [c]) (e # cs))
      else if c = dquote then splitLoop d (\<not> inQuotes) (cur @ [c]) (e # cs)
      else if c = d \<and> \<not> inQuotes
      then (case splitLoop d inQuotes [] (e # cs) of Inl err \<Rightarrow> Inl err | Inr parts \<Rightarrow> Inr (cur # parts))
      else splitLoop d inQuotes (cur @ [c]) (e # cs))"

definition splitOutsideQuotes :: "string \<Rightarrow> char \<Rightarrow> goError + string list" where
  "splitOutsideQuotes value delimiter = splitLoop delimiter False [] value"

definition validPropertyToken :: "string \<Rightarrow> bool" where
  "validPropertyToken value \<longleftrightarrow> value \<noteq> []
     \<and> list_all (\<lambda>c. inRange 0x41 0x5A c \<or> inRange 0x61 0x7A c \<or> inRange 0x30 0x39 c \<or> c = CHR ''-'') value"

definition validParameterItem :: "string \<Rightarrow> bool" where
  "validParameterItem item \<longleftrightarrow> item \<noteq> []
     \<and> (if hd item = dquote then 2 \<le> length item \<and> List.last item = dquote else dquote \<notin> set item)"

definition validParameterValue :: "string \<Rightarrow> bool" where
  "validParameterValue value \<longleftrightarrow> value \<noteq> []
     \<and> (case splitOutsideQuotes value CHR '','' of
          Inl _ \<Rightarrow> False
        | Inr vs \<Rightarrow> list_all validParameterItem vs)"

definition validParameter :: "string \<Rightarrow> bool" where
  "validParameter parameter =
     (case delimiterOutsideQuotes parameter CHR ''='' of
        Inl _ \<Rightarrow> False
      | Inr None \<Rightarrow> False
      | Inr (Some equals) \<Rightarrow>
          0 < equals \<and> validPropertyToken (take equals parameter)
          \<and> validParameterValue (drop (equals + 1) parameter))"

text \<open>\<open>strings.ToUpper\<close> on a property token, which is ASCII.\<close>

definition upperByte :: "char \<Rightarrow> char" where
  "upperByte c = (if inRange 0x61 0x7A c then char_of (bval c - 32) else c)"

definition propertyIdentity :: "string \<Rightarrow> (string \<times> string) option" where
  "propertyIdentity identity =
     (case indexByte identity CHR ''.'' of
        None \<Rightarrow> Some ([], identity)
      | Some dot \<Rightarrow>
          if CHR ''.'' \<in> set (drop (dot + 1) identity) then None
          else Some (take dot identity, drop (dot + 1) identity))"

definition parseRawProperty :: "bytes \<Rightarrow> bytes \<Rightarrow> goError + rawProperty" where
  "parseRawProperty logical chunks =
     (case delimiterOutsideQuotes logical CHR '':'' of
        Inr (Some colon) \<Rightarrow>
          if colon = 0 then Inl invalidCardError
          else case splitOutsideQuotes (take colon logical) CHR '';'' of
            Inr (identity # params) \<Rightarrow>
              if identity = [] then Inl invalidCardError
              else case propertyIdentity identity of
                None \<Rightarrow> Inl invalidCardError
              | Some (grp, name) \<Rightarrow>
                  if \<not> validPropertyToken name \<or> grp \<noteq> [] \<and> \<not> validPropertyToken grp
                  then Inl invalidCardError
                  else if \<not> list_all validParameter params then Inl invalidCardError
                  else Inr \<lparr>rp_group = grp, rp_name = map upperByte name,
                            rp_value = drop (colon + 1) logical, rp_hasParams = (params \<noteq> []),
                            rp_raw = chunks\<rparr>
          | _ \<Rightarrow> Inl invalidCardError
      | _ \<Rightarrow> Inl invalidCardError)"

text \<open>The closure \<open>flush\<close>.\<close>

definition flushCard :: "rawCard \<Rightarrow> bytes \<Rightarrow> bytes \<Rightarrow> goError + rawCard" where
  "flushCard props chunks logical =
     (if chunks = [] then Inr props
      else case parseRawProperty logical chunks of
             Inl err \<Rightarrow> Inl err
           | Inr property \<Rightarrow>
               if maxCardProperties + 2 < length (props @ [property])
               then Inl (contactsError codePayloadTooLarge 0 ''one vCard exceeded its property limit'')
               else Inr (props @ [property]))"

definition stripCR :: "bytes \<Rightarrow> bytes" where
  "stripCR line = (if line \<noteq> [] \<and> List.last line = cr then butlast line else line)"

definition badLine :: "bytes \<Rightarrow> bool" where
  "badLine line \<longleftrightarrow> line = [] \<or> cr \<in> set line \<or> \<not> validPhysicalLine line"

function cardLines :: "bytes \<Rightarrow> rawCard \<Rightarrow> bytes \<Rightarrow> bytes \<Rightarrow> goError + rawCard" where
  "cardLines data props chunks logical =
     (if data = [] then flushCard props chunks logical
      else case indexByte data lf of
        None \<Rightarrow> Inl invalidCardError
      | Some lineEnd \<Rightarrow>
          (let line = stripCR (take lineEnd data);
               chunk = take (lineEnd + 1) data;
               rest = drop (lineEnd + 1) data in
           if badLine line then Inl invalidCardError
           else if hd line = sp \<or> hd line = tab then
             (if chunks = [] then Inl invalidCardError
              else cardLines rest props (chunks @ chunk) (logical @ tl line))
           else
             (case flushCard props chunks logical of
                Inl err \<Rightarrow> Inl err
              | Inr props' \<Rightarrow> cardLines rest props' chunk line)))"
  by pat_completeness auto
termination
  by (relation "measure (\<lambda>(data, props, chunks, logical). length data)")
     (auto simp: indexByte_Some)

declare cardLines.simps [simp del]

section \<open>Structure\<close>

fun countLoop :: "char \<Rightarrow> bool \<Rightarrow> string \<Rightarrow> nat" where
  "countLoop wanted escaped [] = 0"
| "countLoop wanted escaped (c # cs) =
     (if escaped then countLoop wanted False cs
      else if c = backslash then countLoop wanted True cs
      else if c = wanted then Suc (countLoop wanted False cs)
      else countLoop wanted False cs)"

definition countUnescaped :: "string \<Rightarrow> char \<Rightarrow> nat" where
  "countUnescaped value wanted = countLoop wanted False value"

definition named :: "string \<Rightarrow> rawCard \<Rightarrow> rawCard" where
  "named name raw = filter (\<lambda>p. rp_name p = name) raw"

definition validateRawCard :: "rawCard \<Rightarrow> goError option" where
  "validateRawCard raw =
     (if length raw < 5 then Some invalidCardError
      else
        (let first = hd raw; final = List.last raw; inner = butlast (tl raw);
             versions = named ''VERSION'' raw; uids = named ''UID'' raw;
             formattedNames = named ''FN'' raw; names = named ''N'' raw in
         if rp_group first \<noteq> [] \<or> rp_hasParams first \<or> rp_name first \<noteq> ''BEGIN''
            \<or> \<not> equalFold (rp_value first) ''VCARD''
            \<or> rp_group final \<noteq> [] \<or> rp_hasParams final \<or> rp_name final \<noteq> ''END''
            \<or> \<not> equalFold (rp_value final) ''VCARD''
         then Some invalidCardError
         else if list_ex (\<lambda>p. rp_name p = ''BEGIN'' \<or> rp_name p = ''END'') inner
         then Some invalidCardError
         else if rp_name (raw ! 1) \<noteq> ''VERSION'' \<or> length versions \<noteq> 1 \<or> length uids \<noteq> 1
         then Some invalidCardError
         else
           (let version = hd versions; uid = hd uids; v4 = (rp_value version = ''4.0'') in
            if rp_hasParams version \<or> rp_value version \<noteq> ''3.0'' \<and> rp_value version \<noteq> ''4.0''
            then Some invalidCardError
            else if formattedNames = [] \<or> \<not> v4 \<and> (length formattedNames \<noteq> 1 \<or> length names \<noteq> 1)
                 \<or> v4 \<and> 1 < length names
            then Some invalidCardError
            else if rp_group version \<noteq> [] \<or> rp_group uid \<noteq> [] then Some invalidCardError
            else if list_ex (\<lambda>p. rp_group p \<noteq> []) (formattedNames @ names) then Some invalidCardError
            else if trimSpace (rp_value uid) = [] then Some invalidCardError
            else if \<not> list_ex (\<lambda>p. trimSpace (rp_value p) \<noteq> []) formattedNames then Some invalidCardError
            else if list_ex (\<lambda>p. countUnescaped (rp_value p) CHR '';'' \<noteq> 4) names
            then Some invalidCardError
            else None)))"

definition parseRawCard :: "bytes \<Rightarrow> goError + rawCard" where
  "parseRawCard data =
     (if data = [] then Inl invalidCardError
      else case cardLines data [] [] [] of
             Inl err \<Rightarrow> Inl err
           | Inr raw \<Rightarrow> (case validateRawCard raw of Some err \<Rightarrow> Inl err | None \<Rightarrow> Inr raw))"

definition decodedProperties :: "card \<Rightarrow> nat" where
  "decodedProperties c = sum_list (map (length \<circ> snd) c)"

definition decodeRawCard :: "vcardLib \<Rightarrow> bytes \<Rightarrow> goError + (card \<times> string \<times> rawCard)" where
  "decodeRawCard lib data =
     (if maxCardBytes < int (length data)
      then Inl (contactsError codePayloadTooLarge 0 ''one vCard exceeded its byte limit'')
      else case parseRawCard data of
        Inl err \<Rightarrow> Inl err
      | Inr raw \<Rightarrow>
          (case vl_decode lib data of
             None \<Rightarrow> Inl invalidCardError
           | Some (c, atEOF) \<Rightarrow>
               if int (decodedProperties c) \<noteq> int (length raw) - 2 then Inl invalidCardError
               else if \<not> atEOF then Inl invalidCardError
               else
                 (let version = trimSpace (vl_value lib c ''VERSION'') in
                  if version \<noteq> rp_value (raw ! 1) \<or> version \<noteq> ''3.0'' \<and> version \<noteq> ''4.0''
                  then Inl (contactsError codeProtocolError 0 ''iCloud Contacts returned an unsupported vCard version'')
                  else if trimSpace (vl_value lib c ''UID'') = []
                  then Inl (contactsError codeProtocolError 0 ''iCloud Contacts returned a vCard without a UID'')
                  else if validateContactUID (vl_value lib c ''UID'') \<noteq> None
                  then Inl (contactsError codeProtocolError 0 ''iCloud Contacts returned an invalid vCard UID'')
                  else Inr (c, version, raw))))"

definition decodeCard :: "vcardLib \<Rightarrow> bytes \<Rightarrow> goError + (card \<times> string)" where
  "decodeCard lib data =
     (case decodeRawCard lib data of Inl err \<Rightarrow> Inl err | Inr (c, version, _) \<Rightarrow> Inr (c, version))"

section \<open>Editing a card\<close>

definition setSingle :: "vcardLib \<Rightarrow> string \<Rightarrow> string \<Rightarrow> card \<Rightarrow> card" where
  "setSingle lib key value c = (if value = [] then AList.delete key c else vl_setValue lib key value c)"

definition typedField :: "string \<Rightarrow> string \<Rightarrow> vfield" where
  "typedField t value = \<lparr>vf_value = value, vf_params = (if t \<noteq> [] then [(''TYPE'', [t])] else [])\<rparr>"

definition setTypedValues :: "vcardLib \<Rightarrow> string \<Rightarrow> typedValue list \<Rightarrow> card \<Rightarrow> card" where
  "setTypedValues lib key vs c =
     fold (\<lambda>v. vl_add lib key (typedField (tv_type v) (tv_value v))) vs (AList.delete key c)"

definition setAddresses :: "vcardLib \<Rightarrow> postalAddress list \<Rightarrow> card \<Rightarrow> card" where
  "setAddresses lib vs c =
     fold (\<lambda>v. vl_addAddress lib (typedField (pa_type v) []) v) vs (AList.delete ''ADR'' c)"

definition structuredNameFromCard :: "vcardLib \<Rightarrow> card \<Rightarrow> structuredName" where
  "structuredNameFromCard lib c = (case vl_name lib c of None \<Rightarrow> emptyName | Some n \<Rightarrow> n)"

definition displayFromName :: "structuredName \<Rightarrow> string" where
  "displayFromName n =
     joinByte sp (filter (\<lambda>s. s \<noteq> []) (map trimSpace
       [sn_honorificPrefix n, sn_givenName n, sn_additionalName n, sn_familyName n,
        sn_honorificSuffix n]))"

definition whenPatched :: "'a option \<Rightarrow> ('a \<Rightarrow> card \<Rightarrow> card) \<Rightarrow> card \<Rightarrow> card" where
  "whenPatched v f c = (case v of None \<Rightarrow> c | Some x \<Rightarrow> f x c)"

definition applyPatch :: "vcardLib \<Rightarrow> contactPatch \<Rightarrow> card \<Rightarrow> goError + card" where
  "applyPatch lib p c0 =
     (let c1 = whenPatched (cp_displayName p) (setSingle lib ''FN'') c0;
          c2 = whenPatched (cp_name p) (vl_setName lib) c1;
          c3 = whenPatched (cp_organization p) (setSingle lib ''ORG'') c2;
          c4 = whenPatched (cp_title p) (setSingle lib ''TITLE'') c3;
          c5 = whenPatched (cp_nickname p) (setSingle lib ''NICKNAME'') c4;
          c6 = whenPatched (cp_birthday p) (setSingle lib ''BDAY'') c5;
          c7 = whenPatched (cp_notes p) (setSingle lib ''NOTE'') c6;
          c8 = whenPatched (cp_emails p) (setTypedValues lib ''EMAIL'') c7;
          c9 = whenPatched (cp_phones p) (setTypedValues lib ''TEL'') c8;
          c10 = whenPatched (cp_addresses p) (setAddresses lib) c9;
          c11 = whenPatched (cp_urls p) (setTypedValues lib ''URL'') c10;
          finish = (\<lambda>c. Inr (if vl_hasField lib c ''N'' then c else vl_setName lib emptyName c)) in
      if trimSpace (vl_value lib c11 ''FN'') = [] then
        (let name = structuredNameFromCard lib c11 in
         if nameEmpty name
         then Inl (contactsValidationError ''the updated contact must retain a display name or structured name'')
         else finish (vl_setValue lib ''FN'' (displayFromName name) c11))
      else finish c11)"

definition patchedPropertyNames :: "contactPatch \<Rightarrow> string list" where
  "patchedPropertyNames p =
     map snd (filter fst
       [(cp_displayName p \<noteq> None, ''FN''), (cp_name p \<noteq> None, ''N''),
        (cp_organization p \<noteq> None, ''ORG''), (cp_title p \<noteq> None, ''TITLE''),
        (cp_nickname p \<noteq> None, ''NICKNAME''), (cp_birthday p \<noteq> None, ''BDAY''),
        (cp_notes p \<noteq> None, ''NOTE''), (cp_emails p \<noteq> None, ''EMAIL''),
        (cp_phones p \<noteq> None, ''TEL''), (cp_addresses p \<noteq> None, ''ADR''),
        (cp_urls p \<noteq> None, ''URL'')])"

definition resourceLimit :: "int \<Rightarrow> int" where
  "resourceLimit serverMax =
     (if 0 < serverMax \<and> serverMax < maxCardBytes then serverMax else maxCardBytes)"

definition encodeCard :: "vcardLib \<Rightarrow> card \<Rightarrow> int \<Rightarrow> goError + bytes" where
  "encodeCard lib c serverMax =
     (case vl_encode lib c of
        None \<Rightarrow> Inl (contactsError codeInternal 0 ''failed to encode the contact'')
      | Some buffer \<Rightarrow>
          if resourceLimit serverMax < int (length buffer)
          then Inl (contactsError codePayloadTooLarge 0 ''the encoded contact exceeds its resource limit'')
          else Inr buffer)"

definition canonicalCard :: "vcardLib \<Rightarrow> card \<Rightarrow> string list \<Rightarrow> card" where
  "canonicalCard lib c names =
     fold (\<lambda>name canonical.
         if cardFields c name \<noteq> [] then AList.update name (cardFields c name) canonical
         else AList.delete name canonical) names
       (vl_setValue lib ''N'' ''canonical-placeholder;;;;''
         (vl_setValue lib ''FN'' ''canonical-placeholder''
           (vl_setValue lib ''UID'' ''canonical-placeholder''
             (vl_setValue lib ''VERSION'' ''3.0'' []))))"

text \<open>The replacement lines of each patched name, in the order of the encoding.\<close>

definition canonicalProperties ::
  "vcardLib \<Rightarrow> card \<Rightarrow> string list \<Rightarrow> goError + (string \<Rightarrow> bytes list)" where
  "canonicalProperties lib c names =
     (case encodeCard lib (canonicalCard lib c names) 0 of
        Inl err \<Rightarrow> Inl err
      | Inr encoded \<Rightarrow>
          (case decodeRawCard lib encoded of
             Inl _ \<Rightarrow> Inl (contactsError codeInternal 0 ''failed to encode the contact patch'')
           | Inr (_, _, parsed) \<Rightarrow>
               Inr (\<lambda>name. if name \<in> set names then map rp_raw (named name parsed) else [])))"

text \<open>
  The emitting loop over the raw properties: \<open>emitted\<close> is the set of names already written. Before
  the last property the names that did not occur are written in the order of the patch.
\<close>

fun emitMissing :: "(string \<Rightarrow> bytes list) \<Rightarrow> string list \<Rightarrow> string set \<Rightarrow> bytes \<times> string set" where
  "emitMissing repl [] emitted = ([], emitted)"
| "emitMissing repl (name # names) emitted =
     (if name \<in> emitted then emitMissing repl names emitted
      else case emitMissing repl names (insert name emitted) of
             (out, emitted') \<Rightarrow> (concat (repl name) @ out, emitted'))"

definition emitProperty ::
  "(string \<Rightarrow> bytes list) \<Rightarrow> string list \<Rightarrow> rawProperty \<Rightarrow> string set \<Rightarrow> bytes \<times> string set" where
  "emitProperty repl names p emitted =
     (if rp_name p \<notin> set names then (rp_raw p, emitted)
      else if rp_name p \<notin> emitted then (concat (repl (rp_name p)), insert (rp_name p) emitted)
      else ([], emitted))"

fun emitCard :: "(string \<Rightarrow> bytes list) \<Rightarrow> string list \<Rightarrow> rawCard \<Rightarrow> string set \<Rightarrow> bytes" where
  "emitCard repl names [] emitted = []"
| "emitCard repl names [p] emitted =
     (case emitMissing repl names emitted of
        (out, emitted') \<Rightarrow> out @ fst (emitProperty repl names p emitted'))"
| "emitCard repl names (p # q # ps) emitted =
     (case emitProperty repl names p emitted of
        (out, emitted') \<Rightarrow> out @ emitCard repl names (q # ps) emitted')"

definition encodePatchedCard ::
  "vcardLib \<Rightarrow> rawCard \<Rightarrow> card \<Rightarrow> contactPatch \<Rightarrow> int \<Rightarrow> goError + bytes" where
  "encodePatchedCard lib raw c patch serverMax =
     (case applyPatch lib patch c of
        Inl err \<Rightarrow> Inl err
      | Inr patched \<Rightarrow>
          (let names = patchedPropertyNames patch in
           case canonicalProperties lib patched names of
             Inl err \<Rightarrow> Inl err
           | Inr replacements \<Rightarrow>
               (let encoded = emitCard replacements names raw {} in
                if resourceLimit serverMax < int (length encoded)
                then Inl (contactsError codePayloadTooLarge 0 ''the encoded contact exceeds its resource limit'')
                else case decodeRawCard lib encoded of
                  Inl err \<Rightarrow> Inl err
                | Inr (_, version, _) \<Rightarrow>
                    if version \<noteq> ''3.0''
                    then Inl (contactsValidationError ''only vCard 3.0 contacts can be updated'')
                    else Inr encoded)))"

definition newV3Card :: "vcardLib \<Rightarrow> createContactInput \<Rightarrow> string \<Rightarrow> card" where
  "newV3Card lib input uid =
     (let display = (if trimSpace (cc_displayName input) = [] then displayFromName (cc_name input)
                     else cc_displayName input) in
      setTypedValues lib ''URL'' (cc_urls input)
        (setAddresses lib (cc_addresses input)
          (setTypedValues lib ''TEL'' (cc_phones input)
            (setTypedValues lib ''EMAIL'' (cc_emails input)
              (setSingle lib ''NOTE'' (cc_notes input)
                (setSingle lib ''BDAY'' (cc_birthday input)
                  (setSingle lib ''NICKNAME'' (cc_nickname input)
                    (setSingle lib ''TITLE'' (cc_title input)
                      (setSingle lib ''ORG'' (cc_organization input)
                        (vl_setName lib (cc_name input)
                          (vl_setValue lib ''FN'' display
                            (vl_setValue lib ''UID'' uid
                              (vl_setValue lib ''PRODID'' ''-//icloud-mcp//Contacts//EN''
                                (vl_setValue lib ''VERSION'' ''3.0'' []))))))))))))))"

section \<open>Raw cards are lossless\<close>

lemma parseRawProperty_raw: "parseRawProperty logical chunks = Inr p \<Longrightarrow> rp_raw p = chunks"
  by (auto simp: parseRawProperty_def split: sum.splits option.splits list.splits if_splits)

lemma flushCard_Inr:
  assumes "flushCard props chunks logical = Inr props'"
  shows "concat (map rp_raw props') = concat (map rp_raw props) @ chunks"
  using assms
  by (auto simp: flushCard_def split: if_splits sum.splits dest: parseRawProperty_raw)

text \<open>One step of the loop, with the line, its bytes and the rest named.\<close>

lemma cardLines_step:
  assumes "data = u @ lf # rest" and "lf \<notin> set u"
  shows "cardLines data props chunks logical =
     (let line = stripCR u in
      if badLine line then Inl invalidCardError
      else if hd line = sp \<or> hd line = tab then
        (if chunks = [] then Inl invalidCardError
         else cardLines rest props (chunks @ u @ [lf]) (logical @ tl line))
      else
        (case flushCard props chunks logical of
           Inl err \<Rightarrow> Inl err
         | Inr props' \<Rightarrow> cardLines rest props' (u @ [lf]) line))"
proof -
  have "indexByte data lf = Some (length u)"
    using assms by (simp add: indexByte_append)
  then show ?thesis
    by (subst cardLines.simps) (simp add: assms(1) Let_def)
qed

lemma lines_cases:
  fixes data :: bytes
  obtains (empty) "data = []"
    | (open_line) "data \<noteq> []" "lf \<notin> set data"
    | (line) u rest where "data = u @ lf # rest" "lf \<notin> set u" "length rest < length data"
proof (cases "lf \<in> set data")
  case True
  then obtain u rest where "data = u @ lf # rest" "lf \<notin> set u" by (metis split_list_first)
  then show ?thesis using line by simp
next
  case False
  then show ?thesis using empty open_line by (cases "data = []") auto
qed

lemma cardLines_lossless:
  "cardLines data props chunks logical = Inr raw \<Longrightarrow>
     concat (map rp_raw raw) = concat (map rp_raw props) @ chunks @ data"
proof (induction data arbitrary: props chunks logical rule: length_induct)
  case (1 data)
  show ?case
  proof (cases data rule: lines_cases)
    case empty
    with 1(2) show ?thesis by (simp add: cardLines.simps flushCard_Inr)
  next
    case open_line
    then have "indexByte data lf = None" by (simp add: indexByte_None)
    with 1(2) open_line show ?thesis by (simp add: cardLines.simps)
  next
    case (line u rest)
    note IH = 1(1) [rule_format, OF line(3)]
    from 1(2) [unfolded cardLines_step [OF line(1,2)] Let_def] show ?thesis
      unfolding line(1) by (auto split: if_splits sum.splits dest!: IH flushCard_Inr)
  qed
qed

lemma parseRawCard_lossless: "parseRawCard data = Inr raw \<Longrightarrow> concat (map rp_raw raw) = data"
  by (auto simp: parseRawCard_def split: if_splits sum.splits option.splits dest!: cardLines_lossless)

section \<open>Raw properties can be rearranged\<close>

text \<open>
  The bytes of one property, with the logical line they unfold to: a first line and any number of
  continuation lines.
\<close>

inductive cardUnit :: "bytes \<Rightarrow> bytes \<Rightarrow> bool" where
  first: "lf \<notin> set u \<Longrightarrow> \<not> badLine (stripCR u) \<Longrightarrow> hd (stripCR u) \<noteq> sp \<Longrightarrow> hd (stripCR u) \<noteq> tab
    \<Longrightarrow> cardUnit (u @ [lf]) (stripCR u)"
| cont: "cardUnit raw logical \<Longrightarrow> lf \<notin> set u \<Longrightarrow> \<not> badLine (stripCR u)
    \<Longrightarrow> hd (stripCR u) = sp \<or> hd (stripCR u) = tab
    \<Longrightarrow> cardUnit (raw @ u @ [lf]) (logical @ tl (stripCR u))"

lemma cardUnit_ne: "cardUnit raw logical \<Longrightarrow> raw \<noteq> []"
  by (induction rule: cardUnit.induct) auto

lemma cardLines_unit:
  assumes "cardUnit raw logical"
  shows "cardLines (raw @ rest) props chunks lg =
     (case flushCard props chunks lg of
        Inl err \<Rightarrow> Inl err
      | Inr props' \<Rightarrow> cardLines rest props' raw logical)"
  using assms
proof (induction arbitrary: rest rule: cardUnit.induct)
  case (first u)
  then show ?case by (simp add: cardLines_step [of _ u rest] Let_def)
next
  case (cont raw logical u)
  have "cardLines (u @ lf # rest) props' raw logical =
      cardLines rest props' (raw @ u @ [lf]) (logical @ tl (stripCR u))" for props'
    using cont(2-4) cardUnit_ne [OF cont(1)] by (simp add: cardLines_step [of _ u rest] Let_def)
  with cont(5) [of "u @ lf # rest"] show ?case by (simp cong: sum.case_cong)
qed

definition parsedProperty :: "rawProperty \<Rightarrow> bool" where
  "parsedProperty p \<longleftrightarrow> (\<exists>logical. cardUnit (rp_raw p) logical \<and> parseRawProperty logical (rp_raw p) = Inr p)"

lemma parsedPropertyI:
  "cardUnit chunks logical \<Longrightarrow> parseRawProperty logical chunks = Inr p \<Longrightarrow> parsedProperty p"
  unfolding parsedProperty_def using parseRawProperty_raw by metis

lemma flushCard_parsed:
  assumes "flushCard props chunks logical = Inr props'" "\<forall>p \<in> set props. parsedProperty p"
    and "chunks = [] \<or> cardUnit chunks logical"
  shows "\<forall>p \<in> set props'. parsedProperty p"
  using assms
  by (auto simp: flushCard_def split: if_splits sum.splits intro: parsedPropertyI)

lemma cardLines_parsed:
  "cardLines data props chunks logical = Inr raw \<Longrightarrow> \<forall>p \<in> set props. parsedProperty p \<Longrightarrow>
     chunks = [] \<or> cardUnit chunks logical \<Longrightarrow> \<forall>p \<in> set raw. parsedProperty p"
proof (induction data arbitrary: props chunks logical rule: length_induct)
  case (1 data)
  show ?case
  proof (cases data rule: lines_cases)
    case empty
    with 1(2-4) flushCard_parsed show ?thesis by (simp add: cardLines.simps)
  next
    case open_line
    then have "indexByte data lf = None" by (simp add: indexByte_None)
    with 1(2) open_line show ?thesis by (simp add: cardLines.simps)
  next
    case (line u rest)
    have IH: "\<And>props chunks logical. cardLines rest props chunks logical = Inr raw \<Longrightarrow>
        \<forall>p \<in> set props. parsedProperty p \<Longrightarrow> chunks = [] \<or> cardUnit chunks logical \<Longrightarrow>
        \<forall>p \<in> set raw. parsedProperty p"
      using 1(1) line(3) by blast
    note run = 1(2) [unfolded cardLines_step [OF line(1,2)] Let_def]
    show ?thesis
    proof (cases "hd (stripCR u) = sp \<or> hd (stripCR u) = tab")
      case True
      with run have good: "\<not> badLine (stripCR u)" and "chunks \<noteq> []"
        and r: "cardLines rest props (chunks @ u @ [lf]) (logical @ tl (stripCR u)) = Inr raw"
        by (auto split: if_splits)
      with 1(4) line(2) True have "cardUnit (chunks @ u @ [lf]) (logical @ tl (stripCR u))"
        by (blast intro: cardUnit.cont)
      with IH [OF r 1(3)] show ?thesis by blast
    next
      case False
      with run obtain props' where good: "\<not> badLine (stripCR u)"
        and f: "flushCard props chunks logical = Inr props'"
        and r: "cardLines rest props' (u @ [lf]) (stripCR u) = Inr raw"
        by (auto split: if_splits sum.splits)
      with line(2) False have "cardUnit (u @ [lf]) (stripCR u)" by (blast intro: cardUnit.first)
      with IH [OF r flushCard_parsed [OF f 1(3,4)]] show ?thesis by blast
    qed
  qed
qed

lemma cardLines_rearranged:
  assumes "\<forall>p \<in> set ps. parsedProperty p" "flushCard props chunks lg = Inr props'"
    and "cardLines (concat (map rp_raw ps)) props chunks lg = Inr raw"
  shows "raw = props' @ ps"
  using assms
proof (induction ps arbitrary: props chunks lg props')
  case Nil
  then show ?case by (simp add: cardLines.simps)
next
  case (Cons p ps)
  from Cons.prems(1) obtain logical where u: "cardUnit (rp_raw p) logical"
    and parse: "parseRawProperty logical (rp_raw p) = Inr p" by (auto simp: parsedProperty_def)
  from Cons.prems(2,3) have run: "cardLines (concat (map rp_raw ps)) props' (rp_raw p) logical = Inr raw"
    by (simp add: cardLines_unit [OF u])
  show ?case
  proof (cases "flushCard props' (rp_raw p) logical")
    case (Inl err)
    have "cardLines (concat (map rp_raw ps)) props' (rp_raw p) logical = Inl err"
    proof (cases ps)
      case Nil
      then show ?thesis using Inl by (simp add: cardLines.simps)
    next
      case (Cons q qs)
      with Cons.prems(1) obtain l where "cardUnit (rp_raw q) l" by (auto simp: parsedProperty_def)
      with Cons Inl show ?thesis by (simp add: cardLines_unit)
    qed
    with run show ?thesis by simp
  next
    case (Inr props'')
    then have "props'' = props' @ [p]"
      using parse cardUnit_ne [OF u] by (auto simp: flushCard_def split: if_splits)
    with Cons.IH [OF _ Inr run] Cons.prems(1) show ?thesis by simp
  qed
qed

lemma parseRawCard_parsed: "parseRawCard data = Inr raw \<Longrightarrow> \<forall>p \<in> set raw. parsedProperty p"
  by (auto simp: parseRawCard_def split: if_splits sum.splits option.splits dest: cardLines_parsed)

lemma parseRawCard_rearranged:
  "\<forall>p \<in> set ps. parsedProperty p \<Longrightarrow> parseRawCard (concat (map rp_raw ps)) = Inr raw \<Longrightarrow> raw = ps"
  using cardLines_rearranged [of ps "[]" "[]" "[]" "[]" raw]
  by (auto simp: parseRawCard_def flushCard_def split: if_splits sum.splits option.splits)

section \<open>A patch replaces whole properties and nothing else\<close>

text \<open>The emitting loops on properties instead of bytes.\<close>

fun missingProps :: "(string \<Rightarrow> rawCard) \<Rightarrow> string list \<Rightarrow> string set \<Rightarrow> rawCard" where
  "missingProps R [] emitted = []"
| "missingProps R (name # names) emitted =
     (if name \<in> emitted then missingProps R names emitted
      else R name @ missingProps R names (insert name emitted))"

fun patchedProps :: "(string \<Rightarrow> rawCard) \<Rightarrow> string list \<Rightarrow> rawCard \<Rightarrow> string set \<Rightarrow> rawCard" where
  "patchedProps R names [] emitted = []"
| "patchedProps R names [p] emitted =
     missingProps R names emitted @ (if rp_name p \<in> set names then [] else [p])"
| "patchedProps R names (p # q # ps) emitted =
     (if rp_name p \<notin> set names then p # patchedProps R names (q # ps) emitted
      else if rp_name p \<in> emitted then patchedProps R names (q # ps) emitted
      else R (rp_name p) @ patchedProps R names (q # ps) (insert (rp_name p) emitted))"

lemma emitMissing_eq:
  "emitMissing (\<lambda>n. map rp_raw (R n)) names E =
     (concat (map rp_raw (missingProps R names E)), E \<union> set names)"
  by (induction R names E rule: missingProps.induct) auto

lemma emitCard_eq:
  "emitCard (\<lambda>n. map rp_raw (R n)) names raw E = concat (map rp_raw (patchedProps R names raw E))"
  by (induction R names raw E rule: patchedProps.induct)
     (auto simp: emitMissing_eq emitProperty_def)

lemma missingProps_named:
  assumes "\<And>n. \<forall>p \<in> set (R n). rp_name p = n"
  shows "named n (missingProps R names E) = (if n \<in> set names \<and> n \<notin> E then R n else [])"
proof -
  have hit: "named n (R m) = (if m = n then R n else [])" for m
    using assms [of m] assms [of n] by (auto simp: named_def intro!: filter_True filter_False)
  show ?thesis
    by (induction names arbitrary: E) (use hit in \<open>auto simp: named_def\<close>)
qed

lemma missingProps_kept:
  assumes "\<And>n. \<forall>p \<in> set (R n). rp_name p = n" "set names \<subseteq> S"
  shows "filter (\<lambda>p. rp_name p \<notin> S) (missingProps R names E) = []"
  using assms(2)
proof (induction names arbitrary: E)
  case (Cons m names)
  have "filter (\<lambda>p. rp_name p \<notin> S) (R m) = []"
    using assms(1) [of m] Cons.prems by (auto intro!: filter_False)
  with Cons show ?case by auto
qed simp

lemma patchedProps_kept:
  assumes "\<And>n. \<forall>p \<in> set (R n). rp_name p = n"
  shows "filter (\<lambda>p. rp_name p \<notin> set names) (patchedProps R names raw E)
       = filter (\<lambda>p. rp_name p \<notin> set names) raw"
proof -
  have "filter (\<lambda>p. rp_name p \<notin> set names) (R m) = []" if "m \<in> set names" for m
    using assms [of m] that by (auto intro!: filter_False)
  then show ?thesis
    by (induction raw arbitrary: E rule: induct_list012)
       (auto simp: missingProps_kept [OF assms subset_refl])
qed

lemma patchedProps_named:
  assumes "\<And>n. \<forall>p \<in> set (R n). rp_name p = n" "n \<in> set names" "raw \<noteq> []"
  shows "named n (patchedProps R names raw E) = (if n \<in> E then [] else R n)"
proof -
  have hit: "named n (R m) = (if m = n then R n else [])" for m
    using assms(1) [of m] assms(1) [of n] by (auto simp: named_def intro!: filter_True filter_False)
  from assms(3) show ?thesis
    by (induction raw arbitrary: E rule: induct_list012)
       (use assms(2) hit missingProps_named [OF assms(1)] in \<open>auto simp: named_def\<close>)
qed

lemma decodeRawCard_Inr:
  assumes "decodeRawCard lib data = Inr (c, version, raw)"
  shows "parseRawCard data = Inr raw" and "int (length data) \<le> maxCardBytes"
  using assms
  by (auto simp: decodeRawCard_def Let_def split: if_splits sum.splits option.splits prod.splits)

lemma encodePatchedCard_Inr:
  assumes "encodePatchedCard lib raw c patch serverMax = Inr out"
  obtains patched repl c' raw' where "applyPatch lib patch c = Inr patched"
    and "canonicalProperties lib patched (patchedPropertyNames patch) = Inr repl"
    and "out = emitCard repl (patchedPropertyNames patch) raw {}"
    and "int (length out) \<le> resourceLimit serverMax"
    and "decodeRawCard lib out = Inr (c', ''3.0'', raw')"
  using assms
  by (auto simp: encodePatchedCard_def Let_def split: if_splits sum.splits prod.splits)

lemma canonicalProperties_Inr:
  assumes "canonicalProperties lib c names = Inr repl"
  obtains encoded canon where "encodeCard lib (canonicalCard lib c names) 0 = Inr encoded"
    and "parseRawCard encoded = Inr canon"
    and "repl = (\<lambda>n. map rp_raw (if n \<in> set names then named n canon else []))"
proof -
  from assms obtain encoded c' v canon where
    e: "encodeCard lib (canonicalCard lib c names) 0 = Inr encoded"
    and d: "decodeRawCard lib encoded = Inr (c', v, canon)"
    and r: "repl = (\<lambda>n. if n \<in> set names then map rp_raw (named n canon) else [])"
    by (auto simp: canonicalProperties_def split: sum.splits prod.splits)
  have "repl = (\<lambda>n. map rp_raw (if n \<in> set names then named n canon else []))"
    by (rule ext) (simp add: r)
  with e decodeRawCard_Inr(1) [OF d] show thesis by (rule that)
qed

text \<open>
  C27. Raw cards are lossless. When \<open>parseRawCard\<close> accepts a resource, the bytes of its properties
  in order are exactly the bytes of the resource, there are at most 10002 of them, the first and
  the last delimit the card, there is exactly one version, in second place, and exactly one UID.
\<close>

theorem raw_card_lossless:
  assumes "parseRawCard data = Inr raw"
  shows "concat (map rp_raw raw) = data \<and> length raw \<le> 10002
     \<and> rp_name (hd raw) = ''BEGIN'' \<and> rp_name (List.last raw) = ''END''
     \<and> length (named ''VERSION'' raw) = 1 \<and> rp_name (raw ! 1) = ''VERSION''
     \<and> length (named ''UID'' raw) = 1"
proof -
  from assms have lines: "cardLines data [] [] [] = Inr raw" and valid: "validateRawCard raw = None"
    by (auto simp: parseRawCard_def split: if_splits sum.splits option.splits)
  have flush: "length props' \<le> 10002"
    if "flushCard props chunks logical = Inr props'" "length props \<le> 10002" for props chunks logical props'
    using that by (auto simp: flushCard_def maxCardProperties_def split: if_splits sum.splits)
  have "length raw \<le> 10002"
    if "cardLines data props chunks logical = Inr raw" "length props \<le> 10002" for props chunks logical
    using that
  proof (induction data props chunks logical rule: cardLines.induct)
    case (1 data props chunks logical)
    from 1(3) show ?case
      by (subst (asm) cardLines.simps)
         (auto simp: Let_def split: if_splits option.splits sum.splits dest: flush [OF _ 1(4)]
           intro: 1(1,2) [OF _ _ refl refl refl] 1(4))
  qed
  with lines have "length raw \<le> 10002" by simp
  moreover have "rp_name (hd raw) = ''BEGIN'' \<and> rp_name (List.last raw) = ''END''
     \<and> length (named ''VERSION'' raw) = 1 \<and> rp_name (raw ! 1) = ''VERSION''
     \<and> length (named ''UID'' raw) = 1"
    using valid unfolding validateRawCard_def Let_def if_Some_eq_None by blast
  ultimately show ?thesis using parseRawCard_lossless [OF assms] by blast
qed

text \<open>
  C28. Updating a contact is surgical. When the patch of a parsed card is encoded, parsing the
  result gives the original properties, byte for byte and in order, except for those whose names
  the patch mentions; for each of these names the properties are exactly the ones of the encoded
  patched card; and the result respects the resource limit of the server. It holds whatever the
  vCard package decodes and encodes.
\<close>

theorem patch_keeps_other_properties:
  fixes patch :: contactPatch
  defines "names \<equiv> patchedPropertyNames patch"
  assumes "parseRawCard data = Inr raw" and "encodePatchedCard lib raw c patch serverMax = Inr out"
  shows "\<exists>props patched encoded canon. parseRawCard out = Inr props
     \<and> filter (\<lambda>p. rp_name p \<notin> set names) props = filter (\<lambda>p. rp_name p \<notin> set names) raw
     \<and> applyPatch lib patch c = Inr patched
     \<and> encodeCard lib (canonicalCard lib patched names) 0 = Inr encoded \<and> parseRawCard encoded = Inr canon
     \<and> (\<forall>n \<in> set names. named n props = named n canon)
     \<and> int (length out) \<le> resourceLimit serverMax"
proof -
  obtain patched repl c' raw' where a: "applyPatch lib patch c = Inr patched"
    and r: "canonicalProperties lib patched names = Inr repl"
    and o: "out = emitCard repl names raw {}" and len: "int (length out) \<le> resourceLimit serverMax"
    and d: "decodeRawCard lib out = Inr (c', ''3.0'', raw')"
    using assms(3) unfolding names_def by (rule encodePatchedCard_Inr)
  obtain encoded canon where e: "encodeCard lib (canonicalCard lib patched names) 0 = Inr encoded"
    and p: "parseRawCard encoded = Inr canon"
    and R: "repl = (\<lambda>n. map rp_raw (if n \<in> set names then named n canon else []))"
    using r by (rule canonicalProperties_Inr)
  define S where "S n = (if n \<in> set names then named n canon else [])" for n
  define props where "props = patchedProps S names raw {}"
  have S: "\<forall>p \<in> set (S n). rp_name p = n" for n by (simp add: S_def named_def)
  have parsed: "\<forall>p \<in> set (S n). parsedProperty p" for n
    using parseRawCard_parsed [OF p] by (simp add: S_def named_def)
  have "set (missingProps S ns E) \<subseteq> (\<Union>n. set (S n))" for ns E
    by (induction ns arbitrary: E) auto
  then have "set (patchedProps S names ps E) \<subseteq> set ps \<union> (\<Union>n. set (S n))" for ps E
    by (induction ps arbitrary: E rule: induct_list012) auto
  then have all: "\<forall>p \<in> set props. parsedProperty p"
    using parsed parseRawCard_parsed [OF assms(2)] unfolding props_def by blast
  have "out = concat (map rp_raw props)"
    unfolding o R S_def [symmetric] props_def by (rule emitCard_eq)
  with parseRawCard_rearranged [OF all] decodeRawCard_Inr(1) [OF d] have out: "parseRawCard out = Inr props"
    by metis
  have "data \<noteq> []" using assms(2) by (auto simp: parseRawCard_def)
  with parseRawCard_lossless [OF assms(2)] have "raw \<noteq> []" by auto
  then have "named n props = S n" if "n \<in> set names" for n
    using patchedProps_named [OF S that] by (simp add: props_def)
  then have "\<forall>n \<in> set names. named n props = named n canon" by (simp add: S_def)
  with out a e p len patchedProps_kept [OF S, where names = names and raw = raw and E = "{}"] show ?thesis
    unfolding props_def by blast
qed

text \<open>A concrete card, and a vCard package that answers for it, for the witnesses.\<close>

definition sampleCard :: "string \<Rightarrow> bytes" where
  "sampleCard fn = ''BEGIN:VCARD'' @ [cr, lf] @ ''VERSION:3.0'' @ [lf] @ ''UID:u'' @ [lf] @ ''FN:'' @ fn @ [lf]
     @ ''N:;;;;'' @ [lf] @ ''a.X:l'' @ [lf] @ '' t'' @ [lf] @ ''END:VCARD'' @ [lf]"

definition sampleVCard :: bytes where
  "sampleVCard = sampleCard ''A''"

definition sampleLib :: vcardLib where
  "sampleLib =
     \<lparr>vl_decode = (\<lambda>data. Some ([(''VERSION'', [\<lparr>vf_value = ''3.0'', vf_params = []\<rparr>]),
          (''ALL'', replicate (length (filter (\<lambda>c. c = CHR '':'') data) - 3) \<lparr>vf_value = [], vf_params = []\<rparr>)], True)),
      vl_encode = (\<lambda>_. Some (sampleCard ''Z'')),
      vl_value = (\<lambda>c k. if k = ''VERSION'' then ''3.0'' else ''u1''),
      vl_setValue = (\<lambda>k v. AList.update k [\<lparr>vf_value = v, vf_params = []\<rparr>]),
      vl_setName = (\<lambda>n. AList.update ''N'' [\<lparr>vf_value = sn_familyName n, vf_params = []\<rparr>]),
      vl_name = (\<lambda>_. None), vl_hasField = (\<lambda>_ _. True),
      vl_add = (\<lambda>k f c. AList.update k (cardFields c k @ [f]) c),
      vl_addAddress = (\<lambda>f a c. c)\<rparr>"

definition samplePatch :: contactPatch where
  "samplePatch = \<lparr>cp_displayName = Some ''Z'', cp_name = None, cp_organization = None, cp_title = None,
     cp_nickname = None, cp_birthday = None, cp_notes = None, cp_emails = None, cp_phones = None,
     cp_addresses = None, cp_urls = None\<rparr>"

definition sampleProps :: "string \<Rightarrow> rawCard" where
  "sampleProps fn =
     [\<lparr>rp_group = [], rp_name = ''BEGIN'', rp_value = ''VCARD'', rp_hasParams = False,
       rp_raw = ''BEGIN:VCARD'' @ [cr, lf]\<rparr>,
      \<lparr>rp_group = [], rp_name = ''VERSION'', rp_value = ''3.0'', rp_hasParams = False,
       rp_raw = ''VERSION:3.0'' @ [lf]\<rparr>,
      \<lparr>rp_group = [], rp_name = ''UID'', rp_value = ''u'', rp_hasParams = False, rp_raw = ''UID:u'' @ [lf]\<rparr>,
      \<lparr>rp_group = [], rp_name = ''FN'', rp_value = fn, rp_hasParams = False, rp_raw = ''FN:'' @ fn @ [lf]\<rparr>,
      \<lparr>rp_group = [], rp_name = ''N'', rp_value = '';;;;'', rp_hasParams = False, rp_raw = ''N:;;;;'' @ [lf]\<rparr>,
      \<lparr>rp_group = ''a'', rp_name = ''X'', rp_value = ''lt'', rp_hasParams = False,
       rp_raw = ''a.X:l'' @ [lf] @ '' t'' @ [lf]\<rparr>,
      \<lparr>rp_group = [], rp_name = ''END'', rp_value = ''VCARD'', rp_hasParams = False,
       rp_raw = ''END:VCARD'' @ [lf]\<rparr>]"

definition sampleRaw :: rawCard where
  "sampleRaw = sampleProps ''A''"

definition samplePatched :: bytes where
  "samplePatched = sampleCard ''Z''"

lemma sampleVCard_parses: "parseRawCard sampleVCard = Inr sampleRaw"
  by code_simp

theorem raw_card_lossless_witness:
  "concat (map rp_raw sampleRaw) = sampleVCard \<and> length sampleRaw = 7"
proof -
  have "length sampleRaw = 7" by code_simp
  with raw_card_lossless [OF sampleVCard_parses] show ?thesis by blast
qed

definition sampleCanon :: rawCard where
  "sampleCanon = sampleProps ''Z''"

lemma samplePatched_parses: "parseRawCard samplePatched = Inr sampleCanon"
  by code_simp

lemma samplePatched_decodes:
  "\<exists>c. decodeRawCard sampleLib samplePatched = Inr (c, ''3.0'', sampleCanon)"
proof -
  obtain c where c: "vl_decode sampleLib samplePatched = Some (c, True)" by (simp add: sampleLib_def)
  have "decodedProperties (fst (the (vl_decode sampleLib samplePatched))) = 5" by code_simp
  with c have "decodedProperties c = 5" by simp
  moreover have "length sampleCanon = 7" "rp_value (sampleCanon ! 1) = ''3.0''"
    "\<not> maxCardBytes < int (length samplePatched)" "validateContactUID ''u1'' = None"
    "trimSpace ''3.0'' = ''3.0''" "trimSpace ''u1'' = ''u1''" by code_simp+
  moreover have "vl_value sampleLib c ''VERSION'' = ''3.0''" "vl_value sampleLib c ''UID'' = ''u1''"
    by (simp_all add: sampleLib_def)
  ultimately show ?thesis
    using c samplePatched_parses by (simp add: decodeRawCard_def)
qed

lemma samplePatch_applies: "encodePatchedCard sampleLib sampleRaw c0 samplePatch 0 = Inr samplePatched"
proof -
  let ?n = "[''FN'']"
  have names: "patchedPropertyNames samplePatch = ?n" by code_simp
  have "trimSpace ''u1'' = ''u1''" by code_simp
  then obtain patched where a: "applyPatch sampleLib samplePatch c0 = Inr patched"
    by (simp add: applyPatch_def Let_def sampleLib_def)
  have enc: "vl_encode sampleLib c = Some samplePatched" for c
    by (simp add: sampleLib_def samplePatched_def)
  have small: "\<not> maxCardBytes < int (length samplePatched)" by code_simp
  obtain c where d: "decodeRawCard sampleLib samplePatched = Inr (c, ''3.0'', sampleCanon)"
    using samplePatched_decodes by blast
  have "canonicalProperties sampleLib patched ?n =
      Inr (\<lambda>n. if n \<in> set ?n then map rp_raw (named n sampleCanon) else [])"
    using small d by (simp add: canonicalProperties_def encodeCard_def enc resourceLimit_def)
  moreover have "emitCard (\<lambda>n. if n \<in> set ?n then map rp_raw (named n sampleCanon) else []) ?n sampleRaw {}
      = samplePatched" by code_simp
  ultimately show ?thesis
    using a names small d by (simp only: encodePatchedCard_def sum.case prod.case Let_def resourceLimit_def)
      simp
qed

theorem patch_keeps_other_properties_witness:
  "\<exists>props. parseRawCard samplePatched = Inr props
     \<and> filter (\<lambda>p. rp_name p \<notin> {''FN''}) props = filter (\<lambda>p. rp_name p \<notin> {''FN''}) sampleRaw"
proof -
  have "set (patchedPropertyNames samplePatch) = {''FN''}" by code_simp
  with patch_keeps_other_properties [OF sampleVCard_parses samplePatch_applies] show ?thesis
    by auto
qed

end
