(* ===== verification/Contact_Xml.thy ===== *)
theory Contact_Xml
  imports Contact_Card
begin

text \<open>
  Multistatus documents (\<open>internal/contacts/xml.go\<close>), the ETag of a response
  (\<open>strongETagFromResponse\<close>) and the DAV preconditions of an error body (\<open>davPreconditions\<close> in
  \<open>dav.go\<close>). The tokens of \<open>encoding/xml\<close> are the input: what \<open>Token\<close> returns in turn, and whether
  the stream ends in an error. The decoder is strict, so start and end elements match;
  \<open>DecodeElement\<close> is the walk over the element it consumes, driven by the struct tags of the source.
\<close>

section \<open>Tokens and elements\<close>

type_synonym xname = "string \<times> string"

datatype xmlToken =
    StartElement xname "(string \<times> string) list"
  | EndElement xname
  | CharData bytes
  | OtherToken

text \<open>The tokens before the end of the stream, and whether the end is an error other than \<open>io.EOF\<close>.\<close>

type_synonym xmlStream = "xmlToken list \<times> bool"

datatype xmlNode =
    XElem xname "(string \<times> string) list" "xmlNode list"
  | XText bytes

fun buildElement ::
  "xmlToken list \<Rightarrow> (xname \<times> (string \<times> string) list \<times> xmlNode list) list \<Rightarrow> xmlNode list
     \<Rightarrow> (xmlNode list \<times> xmlToken list) option" where
  "buildElement [] st cur = None"
| "buildElement (CharData b # ts) st cur = buildElement ts st (XText b # cur)"
| "buildElement (OtherToken # ts) st cur = buildElement ts st cur"
| "buildElement (StartElement n a # ts) st cur = buildElement ts ((n, a, cur) # st) []"
| "buildElement (EndElement n # ts) [] cur = Some (rev cur, ts)"
| "buildElement (EndElement n # ts) ((m, a, outer) # st) cur =
     buildElement ts st (XElem m a (rev cur) # outer)"

section \<open>The structs\<close>

record addressDataType =
  at_contentType :: string
  at_version :: string

record davProp =
  dp_currentUserPrincipal :: "string list option"
  dp_addressBookHomeSet :: "string list option"
  dp_displayName :: string
  dp_addressBookDescription :: string
  dp_resourceType :: "bool option"
  dp_supportedAddressData :: "addressDataType list option"
  dp_maxResourceSize :: string
  dp_getETags :: "string list"
  dp_addressData :: "bytes option"

record davPropstat =
  ps_status :: string
  ps_prop :: davProp

record multiStatusResponse =
  ms_href :: string
  ms_propstats :: "davPropstat list"

text \<open>
  \<open>dp_resourceType\<close> is the pointer to \<open>resourceType\<close> with whether its \<open>AddressBook\<close> is set;
  \<open>dp_addressData\<close> is \<open>limitedAddressData\<close>, \<open>Some\<close> exactly when \<open>Present\<close>.
\<close>

definition emptyProp :: davProp where
  "emptyProp = \<lparr>dp_currentUserPrincipal = None, dp_addressBookHomeSet = None, dp_displayName = [],
     dp_addressBookDescription = [], dp_resourceType = None, dp_supportedAddressData = None,
     dp_maxResourceSize = [], dp_getETags = [], dp_addressData = None\<rparr>"

definition davNamespace :: string where "davNamespace = ''DAV:''"
definition carddavNamespace :: string where "carddavNamespace = ''urn:ietf:params:xml:ns:carddav''"

section \<open>DecodeElement\<close>

text \<open>A string field: the character data directly inside the element.\<close>

definition elementText :: "xmlNode list \<Rightarrow> string" where
  "elementText nodes = concat (map (\<lambda>n. case n of XText b \<Rightarrow> b | XElem _ _ _ \<Rightarrow> []) nodes)"

datatype decodeError = AddressDataTooLarge | MalformedXML

text \<open>
  \<open>limitedAddressData.UnmarshalXML\<close> reads the character data of the element and of everything in it,
  up to the first end element of its own name; an inner element of that name ends it early, which the
  decoder reports as an error. \<open>None\<close> in the list of chunks stands for such an end.
\<close>

fun addressChunks :: "xname \<Rightarrow> xmlNode \<Rightarrow> bytes option list" where
  "addressChunks name (XText b) = [Some b]"
| "addressChunks name (XElem n a cs) = concat (map (addressChunks name) cs) @ (if n = name then [None] else [])"

fun addressLoop :: "bytes \<Rightarrow> bytes option list \<Rightarrow> decodeError + bytes" where
  "addressLoop data [] = Inr data"
| "addressLoop data (None # _) = Inl MalformedXML"
| "addressLoop data (Some b # chunks) =
     (if maxCardBytes < int (length data + length b) then Inl AddressDataTooLarge
      else addressLoop (data @ b) chunks)"

definition unmarshalAddressData :: "xname \<Rightarrow> xmlNode list \<Rightarrow> decodeError + bytes" where
  "unmarshalAddressData name nodes = addressLoop [] (concat (map (addressChunks name) nodes))"

text \<open>A tag without a namespace matches every namespace.\<close>

definition hrefsOf :: "xmlNode list \<Rightarrow> string list" where
  "hrefsOf nodes =
     concat (map (\<lambda>n. case n of XElem (_, local) _ cs \<Rightarrow> if local = ''href'' then [elementText cs] else []
                              | XText _ \<Rightarrow> []) nodes)"

definition attrValue :: "(string \<times> string) list \<Rightarrow> string \<Rightarrow> string" where
  "attrValue attrs name = (case map_of (rev attrs) name of None \<Rightarrow> [] | Some v \<Rightarrow> v)"

definition dataTypesOf :: "xmlNode list \<Rightarrow> addressDataType list" where
  "dataTypesOf nodes =
     concat (map (\<lambda>n. case n of
         XElem name attrs _ \<Rightarrow>
           if name = (carddavNamespace, ''address-data-type'')
           then [\<lparr>at_contentType = attrValue attrs ''content-type'', at_version = attrValue attrs ''version''\<rparr>]
           else []
       | XText _ \<Rightarrow> []) nodes)"

definition hasAddressBook :: "xmlNode list \<Rightarrow> bool" where
  "hasAddressBook nodes \<longleftrightarrow>
     (\<exists>n \<in> set nodes. case n of XElem name _ _ \<Rightarrow> name = (carddavNamespace, ''addressbook'') | XText _ \<Rightarrow> False)"

text \<open>One child of a \<open>prop\<close> element; a pointer that is already set is kept and filled further.\<close>

definition unmarshalProperty :: "davProp \<Rightarrow> xname \<Rightarrow> xmlNode list \<Rightarrow> decodeError + davProp" where
  "unmarshalProperty p name cs =
     (let local = snd name; card = (fst name = carddavNamespace);
          more = (\<lambda>old new. Some ((case old of None \<Rightarrow> [] | Some xs \<Rightarrow> xs) @ new)) in
      if local = ''current-user-principal''
      then Inr (p\<lparr>dp_currentUserPrincipal := more (dp_currentUserPrincipal p) (hrefsOf cs)\<rparr>)
      else if card \<and> local = ''addressbook-home-set''
      then Inr (p\<lparr>dp_addressBookHomeSet := more (dp_addressBookHomeSet p) (hrefsOf cs)\<rparr>)
      else if local = ''displayname'' then Inr (p\<lparr>dp_displayName := elementText cs\<rparr>)
      else if card \<and> local = ''addressbook-description''
      then Inr (p\<lparr>dp_addressBookDescription := elementText cs\<rparr>)
      else if local = ''resourcetype''
      then Inr (p\<lparr>dp_resourceType := Some (dp_resourceType p = Some True \<or> hasAddressBook cs)\<rparr>)
      else if card \<and> local = ''supported-address-data''
      then Inr (p\<lparr>dp_supportedAddressData :=
             Some ((case dp_supportedAddressData p of None \<Rightarrow> [] | Some xs \<Rightarrow> xs) @ dataTypesOf cs)\<rparr>)
      else if card \<and> local = ''max-resource-size'' then Inr (p\<lparr>dp_maxResourceSize := elementText cs\<rparr>)
      else if local = ''getetag'' then Inr (p\<lparr>dp_getETags := dp_getETags p @ [elementText cs]\<rparr>)
      else if card \<and> local = ''address-data''
      then (case unmarshalAddressData name cs of
              Inl err \<Rightarrow> Inl err
            | Inr d \<Rightarrow> Inr (p\<lparr>dp_addressData := Some d\<rparr>))
      else Inr p)"

fun unmarshalProp :: "davProp \<Rightarrow> xmlNode list \<Rightarrow> decodeError + davProp" where
  "unmarshalProp p [] = Inr p"
| "unmarshalProp p (XText _ # nodes) = unmarshalProp p nodes"
| "unmarshalProp p (XElem name _ cs # nodes) =
     andThen (unmarshalProperty p name cs) (\<lambda>p'. unmarshalProp p' nodes)"

fun unmarshalPropstat :: "davPropstat \<Rightarrow> xmlNode list \<Rightarrow> decodeError + davPropstat" where
  "unmarshalPropstat s [] = Inr s"
| "unmarshalPropstat s (XText _ # nodes) = unmarshalPropstat s nodes"
| "unmarshalPropstat s (XElem name _ cs # nodes) =
     (if snd name = ''status'' then unmarshalPropstat (s\<lparr>ps_status := elementText cs\<rparr>) nodes
      else if snd name = ''prop''
      then andThen (unmarshalProp (ps_prop s) cs) (\<lambda>p. unmarshalPropstat (s\<lparr>ps_prop := p\<rparr>) nodes)
      else unmarshalPropstat s nodes)"

fun unmarshalResponse :: "multiStatusResponse \<Rightarrow> xmlNode list \<Rightarrow> decodeError + multiStatusResponse" where
  "unmarshalResponse r [] = Inr r"
| "unmarshalResponse r (XText _ # nodes) = unmarshalResponse r nodes"
| "unmarshalResponse r (XElem name _ cs # nodes) =
     (if snd name = ''href'' then unmarshalResponse (r\<lparr>ms_href := elementText cs\<rparr>) nodes
      else if snd name = ''propstat''
      then andThen (unmarshalPropstat \<lparr>ps_status = [], ps_prop = emptyProp\<rparr> cs)
             (\<lambda>s. unmarshalResponse (r\<lparr>ms_propstats := ms_propstats r @ [s]\<rparr>) nodes)
      else unmarshalResponse r nodes)"

section \<open>validateMultiStatusXML\<close>

definition maxMultiStatusXMLDepth :: int where "maxMultiStatusXMLDepth = 32"
definition maxMultiStatusXMLTokens :: int where "maxMultiStatusXMLTokens = 100000"
definition maxMultiStatusPropstats :: int where "maxMultiStatusPropstats = 8192"
definition maxMultiStatusPropertyCount :: int where "maxMultiStatusPropertyCount = 16384"

record xmlScan =
  xs_depth :: int
  xs_tokens :: int
  xs_responses :: int
  xs_propstats :: int
  xs_properties :: int
  xs_propDepth :: int
  xs_rootSeen :: bool
  xs_rootClosed :: bool

definition scanStart :: xmlScan where
  "scanStart = \<lparr>xs_depth = 0, xs_tokens = 0, xs_responses = 0, xs_propstats = 0, xs_properties = 0,
     xs_propDepth = 0, xs_rootSeen = False, xs_rootClosed = False\<rparr>"

definition malformedDAV :: goError where
  "malformedDAV = contactsError codeProtocolError 0 ''Contacts returned malformed DAV XML''"

definition notMultiStatus :: goError where
  "notMultiStatus = contactsError codeProtocolError 0 ''Contacts response was not a DAV multistatus document''"

definition davTooLarge :: "string \<Rightarrow> goError" where
  "davTooLarge what = contactsError codePayloadTooLarge 0 (''Contacts DAV XML exceeded its '' @ what @ '' limit'')"

text \<open>What a token leads to: \<open>return nil\<close> or an error, or the next state.\<close>

datatype scanStep = ScanReturn "goError option" | ScanNext xmlScan

definition isDav :: "xname \<Rightarrow> string \<Rightarrow> bool" where
  "isDav name local \<longleftrightarrow> name = (davNamespace, local)"

definition scanStartElement :: "int \<Rightarrow> xname \<Rightarrow> xmlScan \<Rightarrow> scanStep" where
  "scanStartElement responseLimit name s0 =
     (let s = s0\<lparr>xs_depth := xs_depth s0 + 1\<rparr>;
          s1 = (if isDav name ''response'' then s\<lparr>xs_responses := xs_responses s + 1\<rparr> else s);
          s2 = (if isDav name ''propstat'' then s1\<lparr>xs_propstats := xs_propstats s1 + 1\<rparr> else s1);
          s3 = (if xs_propDepth s2 \<noteq> 0 \<and> xs_depth s2 = xs_propDepth s2 + 1
                then s2\<lparr>xs_properties := xs_properties s2 + 1\<rparr> else s2);
          s4 = (if isDav name ''prop'' \<and> xs_propDepth s3 = 0 then s3\<lparr>xs_propDepth := xs_depth s3\<rparr> else s3)
      in if maxMultiStatusXMLDepth < xs_depth s then ScanReturn (Some (davTooLarge ''depth''))
         else if xs_rootClosed s then ScanReturn (Some malformedDAV)
         else if \<not> xs_rootSeen s
         then (if \<not> isDav name ''multistatus'' then ScanReturn (Some notMultiStatus)
               else ScanNext (s\<lparr>xs_rootSeen := True\<rparr>))
         else if isDav name ''response'' \<and> responseLimit < xs_responses s1 then ScanReturn None
         else if isDav name ''propstat'' \<and> maxMultiStatusPropstats < xs_propstats s2
         then ScanReturn (Some (davTooLarge ''propstat''))
         else if xs_propDepth s2 \<noteq> 0 \<and> xs_depth s2 = xs_propDepth s2 + 1
                 \<and> maxMultiStatusPropertyCount < xs_properties s3
         then ScanReturn (Some (davTooLarge ''property''))
         else ScanNext s4)"

definition scanEndElement :: "xname \<Rightarrow> xmlScan \<Rightarrow> xmlScan" where
  "scanEndElement name s =
     (let s1 = (if xs_propDepth s = xs_depth s \<and> isDav name ''prop'' then s\<lparr>xs_propDepth := 0\<rparr> else s);
          s2 = (if xs_depth s1 = 1 \<and> isDav name ''multistatus'' then s1\<lparr>xs_rootClosed := True\<rparr> else s1)
      in s2\<lparr>xs_depth := xs_depth s2 - 1\<rparr>)"

definition scanToken :: "int \<Rightarrow> xmlToken \<Rightarrow> xmlScan \<Rightarrow> scanStep" where
  "scanToken responseLimit t s0 =
     (let s = s0\<lparr>xs_tokens := xs_tokens s0 + 1\<rparr> in
      if maxMultiStatusXMLTokens < xs_tokens s then ScanReturn (Some (davTooLarge ''token''))
      else case t of
             StartElement name _ \<Rightarrow> scanStartElement responseLimit name s
           | EndElement name \<Rightarrow> ScanNext (scanEndElement name s)
           | CharData b \<Rightarrow>
               if (\<not> xs_rootSeen s \<or> xs_rootClosed s) \<and> trimSpace b \<noteq> []
               then ScanReturn (Some malformedDAV) else ScanNext s
           | OtherToken \<Rightarrow> ScanNext s)"

fun scanTokens :: "int \<Rightarrow> xmlScan \<Rightarrow> xmlToken list \<Rightarrow> bool \<Rightarrow> goError option" where
  "scanTokens responseLimit s [] failed =
     (if failed then Some malformedDAV
      else if \<not> xs_rootSeen s \<or> \<not> xs_rootClosed s \<or> xs_depth s \<noteq> 0 then Some notMultiStatus
      else None)"
| "scanTokens responseLimit s (t # ts) failed =
     (case scanToken responseLimit t s of
        ScanReturn out \<Rightarrow> out
      | ScanNext s' \<Rightarrow> scanTokens responseLimit s' ts failed)"

definition validateMultiStatusXML :: "xmlStream \<Rightarrow> int \<Rightarrow> goError option" where
  "validateMultiStatusXML stream responseLimit = scanTokens responseLimit scanStart (fst stream) (snd stream)"

section \<open>decodeMultiStatus\<close>

lemma buildElement_rest: "buildElement ts st cur = Some (nodes, rest) \<Longrightarrow> length rest < length ts"
  by (induction ts st cur rule: buildElement.induct) auto

definition decodeFailure :: "decodeError \<Rightarrow> goError" where
  "decodeFailure err =
     (case err of
        AddressDataTooLarge \<Rightarrow> contactsError codePayloadTooLarge 0 ''one vCard exceeded its byte limit''
      | MalformedXML \<Rightarrow> malformedDAV)"

definition decodeRow :: "xmlToken list \<Rightarrow> goError + multiStatusResponse \<times> xmlToken list" where
  "decodeRow ts =
     (case buildElement ts [] [] of
        None \<Rightarrow> Inl malformedDAV
      | Some (nodes, rest) \<Rightarrow>
          (case unmarshalResponse \<lparr>ms_href = [], ms_propstats = []\<rparr> nodes of
             Inl err \<Rightarrow> Inl (decodeFailure err)
           | Inr row \<Rightarrow> Inr (row, rest)))"

lemma decodeRow_rest: "decodeRow ts = Inr (row, rest) \<Longrightarrow> length rest < length ts"
  by (auto simp: decodeRow_def dest: buildElement_rest split: option.splits sum.splits)

function decodeTokens ::
  "int \<Rightarrow> bool \<Rightarrow> multiStatusResponse list \<Rightarrow> xmlToken list \<Rightarrow> bool
     \<Rightarrow> goError + multiStatusResponse list \<times> bool" where
  "decodeTokens limit inRoot rows [] failed =
     (if failed then Inl malformedDAV
      else if \<not> inRoot then Inl notMultiStatus else Inr (rows, False))"
| "decodeTokens limit inRoot rows (EndElement n # ts) failed = decodeTokens limit inRoot rows ts failed"
| "decodeTokens limit inRoot rows (CharData b # ts) failed = decodeTokens limit inRoot rows ts failed"
| "decodeTokens limit inRoot rows (OtherToken # ts) failed = decodeTokens limit inRoot rows ts failed"
| "decodeTokens limit inRoot rows (StartElement n a # ts) failed =
     (if \<not> inRoot
      then (if \<not> isDav n ''multistatus'' then Inl notMultiStatus
            else decodeTokens limit True rows ts failed)
      else if isDav n ''response''
      then (if limit \<le> int (length rows) then Inr (rows, True)
            else case decodeRow ts of
                   Inl err \<Rightarrow> Inl err
                 | Inr (row, rest) \<Rightarrow> decodeTokens limit inRoot (rows @ [row]) rest failed)
      else decodeTokens limit inRoot rows ts failed)"
  by pat_completeness auto
termination
  by (relation "measure (\<lambda>(limit, inRoot, rows, ts, failed). length ts)")
    (auto dest: decodeRow_rest [OF sym] decodeRow_rest)

definition decodeMultiStatus :: "xmlStream \<Rightarrow> int \<Rightarrow> goError + multiStatusResponse list \<times> bool" where
  "decodeMultiStatus stream responseLimit =
     (case validateMultiStatusXML stream responseLimit of
        Some err \<Rightarrow> Inl err
      | None \<Rightarrow> decodeTokens responseLimit False [] (fst stream) (snd stream))"

section \<open>Responses\<close>

text \<open>\<open>strings.Fields\<close>: the pieces between runs of white space.\<close>

function fieldsLoop :: "string \<Rightarrow> string \<Rightarrow> string list" where
  "fieldsLoop cur s =
     (if s = [] then (if cur = [] then [] else [rev cur])
      else if leadingSpace spaceRunes s = 0 then fieldsLoop (hd s # cur) (tl s)
      else (if cur = [] then [] else [rev cur]) @ fieldsLoop [] (drop (leadingSpace spaceRunes s) s))"
  by pat_completeness auto
termination
  by (relation "measure (\<lambda>(cur, s). length s)") auto

declare fieldsLoop.simps [simp del]

definition stringFields :: "string \<Rightarrow> string list" where
  "stringFields s = fieldsLoop [] s"

text \<open>\<open>http.ParseHTTPVersion\<close>: \<open>HTTP/\<close>, a digit, a dot and a digit.\<close>

definition parseHTTPMajor :: "string \<Rightarrow> nat option" where
  "parseHTTPMajor v =
     (case v of
        [h, t1, t2, p, slash, major, dot, minor] \<Rightarrow>
          if [h, t1, t2, p, slash] = ''HTTP/'' \<and> dot = CHR ''.'' \<and> inRange 0x30 0x39 major
             \<and> inRange 0x30 0x39 minor
          then Some (bval major - 0x30) else None
      | _ \<Rightarrow> None)"

definition statusIsOK :: "string \<Rightarrow> bool" where
  "statusIsOK status =
     (if containsAny status [cr, lf] then False
      else let fields = stringFields status in
           if length fields < 2 \<or> fields ! 1 \<noteq> ''200'' then False
           else parseHTTPMajor (fields ! 0) = Some 1)"

definition mergeHrefs :: "string list option \<Rightarrow> string list option \<Rightarrow> string list option" where
  "mergeHrefs merged new =
     (case new of
        None \<Rightarrow> merged
      | Some hrefs \<Rightarrow> Some ((case merged of None \<Rightarrow> [] | Some old \<Rightarrow> old) @ hrefs))"

definition mergeProp :: "davProp \<Rightarrow> davProp \<Rightarrow> davProp" where
  "mergeProp merged p =
     \<lparr>dp_currentUserPrincipal = mergeHrefs (dp_currentUserPrincipal merged) (dp_currentUserPrincipal p),
      dp_addressBookHomeSet = mergeHrefs (dp_addressBookHomeSet merged) (dp_addressBookHomeSet p),
      dp_displayName = (if dp_displayName p \<noteq> [] then dp_displayName p else dp_displayName merged),
      dp_addressBookDescription =
        (if dp_addressBookDescription p \<noteq> [] then dp_addressBookDescription p
         else dp_addressBookDescription merged),
      dp_resourceType = (if dp_resourceType p \<noteq> None then dp_resourceType p else dp_resourceType merged),
      dp_supportedAddressData =
        (if dp_supportedAddressData p \<noteq> None then dp_supportedAddressData p
         else dp_supportedAddressData merged),
      dp_maxResourceSize =
        (if dp_maxResourceSize p \<noteq> [] then dp_maxResourceSize p else dp_maxResourceSize merged),
      dp_getETags = dp_getETags merged @ dp_getETags p,
      dp_addressData = (if dp_addressData p \<noteq> None then dp_addressData p else dp_addressData merged)\<rparr>"

definition okProps :: "multiStatusResponse \<Rightarrow> davProp list" where
  "okProps r = map ps_prop (filter (\<lambda>s. statusIsOK (ps_status s)) (ms_propstats r))"

definition successfulProp :: "multiStatusResponse \<Rightarrow> davProp option" where
  "successfulProp r = (if okProps r = [] then None else Some (foldl mergeProp emptyProp (okProps r)))"

definition strongETagFromResponse :: "multiStatusResponse \<Rightarrow> goError + string" where
  "strongETagFromResponse r =
     (let vals = concat (map dp_getETags (okProps r)) in
      if vals = [] then Inr []
      else if length vals \<noteq> 1 then Inl (PlainError ''invalid entity-tag property count'')
      else contactStrongETag (hd vals))"

definition propertyHrefs :: "multiStatusResponse list \<Rightarrow> (davProp \<Rightarrow> string list option) \<Rightarrow> string list" where
  "propertyHrefs rows selectProperty =
     concat (map (\<lambda>row. case successfulProp row of
         None \<Rightarrow> []
       | Some prop \<Rightarrow> (case selectProperty prop of None \<Rightarrow> [] | Some hrefs \<Rightarrow> hrefs)) rows)"

section \<open>Preconditions of an error body\<close>

fun preconditionTokens :: "bool \<Rightarrow> string list \<Rightarrow> xmlToken list \<Rightarrow> bool \<Rightarrow> string list \<times> bool" where
  "preconditionTokens inError conditions [] failed = (if failed then ([], True) else (conditions, False))"
| "preconditionTokens inError conditions (StartElement name _ # ts) failed =
     (if snd name = ''error'' then preconditionTokens True conditions ts failed
      else if inError then preconditionTokens inError (conditions @ [snd name]) ts failed
      else preconditionTokens inError conditions ts failed)"
| "preconditionTokens inError conditions (EndElement name # ts) failed =
     (if snd name = ''error'' then preconditionTokens False conditions ts failed
      else preconditionTokens inError conditions ts failed)"
| "preconditionTokens inError conditions (_ # ts) failed = preconditionTokens inError conditions ts failed"

definition davPreconditions :: "(bytes \<Rightarrow> xmlStream) \<Rightarrow> bytes \<Rightarrow> string list \<times> bool" where
  "davPreconditions xml body =
     (if trimSpace body = [] then ([], False)
      else case xml body of (ts, failed) \<Rightarrow> preconditionTokens False [] ts failed)"

section \<open>Bounds\<close>

lemma addressLoop_bounded:
  "addressLoop data chunks = Inr out \<Longrightarrow> int (length data) \<le> maxCardBytes \<Longrightarrow> int (length out) \<le> maxCardBytes"
  by (induction data chunks rule: addressLoop.induct) (auto split: if_splits)

definition propBounded :: "davProp \<Rightarrow> bool" where
  "propBounded p \<longleftrightarrow> (\<forall>d. dp_addressData p = Some d \<longrightarrow> int (length d) \<le> maxCardBytes)"

definition rowBounded :: "multiStatusResponse \<Rightarrow> bool" where
  "rowBounded r \<longleftrightarrow> (\<forall>s \<in> set (ms_propstats r). propBounded (ps_prop s))"

lemma emptyProp_bounded: "propBounded emptyProp"
  by (simp add: propBounded_def emptyProp_def)

lemma unmarshalProperty_bounded:
  assumes "unmarshalProperty p name cs = Inr q" and "propBounded p"
  shows "propBounded q"
proof (cases "dp_addressData q = dp_addressData p")
  case True
  then show ?thesis using assms(2) by (simp add: propBounded_def)
next
  case False
  then have "\<exists>d. unmarshalAddressData name cs = Inr d \<and> dp_addressData q = Some d"
    using assms(1) by (auto simp: unmarshalProperty_def Let_def split: if_splits sum.splits)
  then show ?thesis
    using addressLoop_bounded [of "[]"] by (auto simp: propBounded_def unmarshalAddressData_def maxCardBytes_def)
qed

lemma unmarshalProp_bounded:
  "unmarshalProp p nodes = Inr q \<Longrightarrow> propBounded p \<Longrightarrow> propBounded q"
  by (induction p nodes rule: unmarshalProp.induct)
    (auto simp: andThen_Inr dest: unmarshalProperty_bounded)

lemma unmarshalPropstat_bounded:
  "unmarshalPropstat s nodes = Inr t \<Longrightarrow> propBounded (ps_prop s) \<Longrightarrow> propBounded (ps_prop t)"
  by (induction s nodes rule: unmarshalPropstat.induct)
    (auto simp: andThen_Inr dest: unmarshalProp_bounded split: if_splits)

lemma unmarshalResponse_bounded:
  "unmarshalResponse r nodes = Inr t \<Longrightarrow> rowBounded r \<Longrightarrow> rowBounded t"
proof (induction r nodes rule: unmarshalResponse.induct)
  case (3 r name a cs nodes)
  show ?case
  proof (cases "snd name = ''propstat''")
    case True
    with "3.prems"(1) obtain s where s:
      "unmarshalPropstat \<lparr>ps_status = [], ps_prop = emptyProp\<rparr> cs = Inr s"
      "unmarshalResponse (r\<lparr>ms_propstats := ms_propstats r @ [s]\<rparr>) nodes = Inr t"
      by (auto simp: andThen_Inr)
    have "propBounded (ps_prop s)"
      using unmarshalPropstat_bounded [OF s(1)] by (simp add: emptyProp_bounded)
    then have "rowBounded (r\<lparr>ms_propstats := ms_propstats r @ [s]\<rparr>)"
      using "3.prems"(2) by (auto simp: rowBounded_def)
    with "3.IH"(2) [OF _ True s(2)] True show ?thesis by simp
  next
    case other: False
    show ?thesis
    proof (cases "snd name = ''href''")
      case True
      with "3.IH"(1) [OF True] "3.prems" show ?thesis by (simp add: rowBounded_def)
    next
      case False
      with "3.IH"(3) [OF False other] "3.prems" other show ?thesis by simp
    qed
  qed
qed auto

lemma decodeRow_bounded: "decodeRow ts = Inr (row, rest) \<Longrightarrow> rowBounded row"
  using unmarshalResponse_bounded
  by (fastforce simp: decodeRow_def rowBounded_def split: option.splits sum.splits)

lemma decodeTokens_bounded:
  assumes "decodeTokens limit inRoot rows ts failed = Inr (out, overflow)"
    and "int (length rows) \<le> limit" and "\<forall>r \<in> set rows. rowBounded r"
  shows "int (length out) \<le> limit \<and> (overflow \<longrightarrow> int (length out) = limit) \<and> (\<forall>r \<in> set out. rowBounded r)"
  using assms
proof (induction limit inRoot rows ts failed rule: decodeTokens.induct)
  case (5 limit inRoot rows n a ts failed)
  show ?case
  proof (cases "inRoot \<and> isDav n ''response'' \<and> int (length rows) < limit")
    case True
    then obtain row rest where row: "decodeRow ts = Inr (row, rest)"
      and "decodeTokens limit inRoot (rows @ [row]) rest failed = Inr (out, overflow)"
      using "5.prems"(1) by (auto split: sum.splits)
    then show ?thesis
      using True "5.IH"(2) [OF _ _ _ row refl] "5.prems" decodeRow_bounded [OF row] by auto
  next
    case False
    with 5 show ?thesis by (auto split: if_splits)
  qed
qed (auto split: if_splits)

lemma mergeProp_bounded: "propBounded p \<Longrightarrow> propBounded q \<Longrightarrow> propBounded (mergeProp p q)"
  by (simp add: mergeProp_def propBounded_def)

lemma foldl_merge_bounded:
  "propBounded p \<Longrightarrow> \<forall>q \<in> set qs. propBounded q \<Longrightarrow> propBounded (foldl mergeProp p qs)"
  by (induction qs arbitrary: p) (simp_all add: mergeProp_bounded)

lemma successfulProp_bounded: "rowBounded r \<Longrightarrow> successfulProp r = Some p \<Longrightarrow> propBounded p"
  using foldl_merge_bounded [OF emptyProp_bounded, of "okProps r"]
  by (auto simp: successfulProp_def okProps_def rowBounded_def split: if_splits)

text \<open>
  C25. A multistatus document yields at most \<open>responseLimit\<close> rows, exactly that many when it reports an
  overflow, and the address data of a row, merged over its successful property groups, is at most one
  mebibyte, whatever tokens the server sends.
\<close>

theorem multistatus_rows_bounded:
  assumes "decodeMultiStatus stream limit = Inr (rows, overflow)" and "0 \<le> limit"
  shows "int (length rows) \<le> limit \<and> (overflow \<longrightarrow> int (length rows) = limit)
    \<and> (\<forall>row \<in> set rows. \<forall>p d. successfulProp row = Some p \<longrightarrow> dp_addressData p = Some d \<longrightarrow>
          length d \<le> 1048576)"
proof -
  from assms(1) have "decodeTokens limit False [] (fst stream) (snd stream) = Inr (rows, overflow)"
    by (simp add: decodeMultiStatus_def split: option.splits)
  from decodeTokens_bounded [OF this] assms(2)
  have "int (length rows) \<le> limit" "overflow \<longrightarrow> int (length rows) = limit"
    and bounded: "\<forall>row \<in> set rows. rowBounded row" by simp_all
  moreover have "length d \<le> 1048576"
    if "row \<in> set rows" "successfulProp row = Some p" "dp_addressData p = Some d" for row p d
    using successfulProp_bounded [of row p] bounded that by (simp add: propBounded_def maxCardBytes_def)
  ultimately show ?thesis by blast
qed

abbreviation davStart :: "string \<Rightarrow> xmlToken" where
  "davStart local \<equiv> StartElement (davNamespace, local) []"

abbreviation davEnd :: "string \<Rightarrow> xmlToken" where
  "davEnd local \<equiv> EndElement (davNamespace, local)"

definition sampleMultiStatus :: "xmlToken list" where
  "sampleMultiStatus =
     [davStart ''multistatus'', davStart ''response'', davStart ''href'', CharData ''/c/b/x.vcf'', davEnd ''href'',
      davStart ''propstat'', davStart ''status'', CharData ''HTTP/1.1 200 OK'', davEnd ''status'',
      davStart ''prop'', StartElement (carddavNamespace, ''address-data'') [], CharData ''BEGIN:VCARD'',
      EndElement (carddavNamespace, ''address-data''), davEnd ''prop'', davEnd ''propstat'', davEnd ''response'',
      davStart ''response'', davEnd ''response'', davEnd ''multistatus'']"

definition sampleRow :: multiStatusResponse where
  "sampleRow = \<lparr>ms_href = ''/c/b/x.vcf'', ms_propstats =
     [\<lparr>ps_status = ''HTTP/1.1 200 OK'', ps_prop = emptyProp\<lparr>dp_addressData := Some ''BEGIN:VCARD''\<rparr>\<rparr>]\<rparr>"

theorem multistatus_rows_bounded_witness:
  "decodeMultiStatus (sampleMultiStatus, False) 1 = Inr ([sampleRow], True)
   \<and> int (length [sampleRow]) = 1
   \<and> (\<exists>p. successfulProp sampleRow = Some p \<and> dp_addressData p = Some ''BEGIN:VCARD''
          \<and> length ''BEGIN:VCARD'' \<le> 1048576)"
proof -
  have d: "decodeMultiStatus (sampleMultiStatus, False) 1 = Inr ([sampleRow], True)"
    by (simp add: decodeMultiStatus_def validateMultiStatusXML_def sampleMultiStatus_def scanStart_def
        scanToken_def scanStartElement_def scanEndElement_def isDav_def maxMultiStatusXMLTokens_def
        maxMultiStatusXMLDepth_def maxMultiStatusPropstats_def maxMultiStatusPropertyCount_def
        davNamespace_def carddavNamespace_def decodeRow_def elementText_def unmarshalProperty_def
        unmarshalAddressData_def maxCardBytes_def sampleRow_def)
  obtain p where p: "successfulProp sampleRow = Some p" "dp_addressData p = Some ''BEGIN:VCARD''"
    by (rule that [of "mergeProp emptyProp (ps_prop (hd (ms_propstats sampleRow)))"]) code_simp+
  from multistatus_rows_bounded [OF d] p have "length ''BEGIN:VCARD'' \<le> 1048576" by fastforce
  with d p show ?thesis by auto
qed

section \<open>Nested responses\<close>

text \<open>
  Validation counts every \<open>response\<close> element, decoding only those it meets outside another one. A
  document whose first response holds another one ends the validation at \<open>responseLimit + 1\<close>
  elements while the decoder is still inside the first row.
\<close>

definition nestedDocument :: "nat \<Rightarrow> xmlToken list" where
  "nestedDocument n =
     [davStart ''multistatus'', davStart ''response'', davStart ''response'', davEnd ''response'']
     @ concat (replicate n [davStart ''propstat'', davEnd ''propstat''])
     @ [davEnd ''response'', davEnd ''multistatus'']"

lemma buildElement_replicate:
  "buildElement (concat (replicate n [StartElement p [], EndElement p]) @ ts) [] cur =
     buildElement ts [] (replicate n (XElem p [] []) @ cur)"
proof (induction n arbitrary: cur)
  case (Suc n)
  then show ?case by (simp add: replicate_app_Cons_same)
qed simp

lemma unmarshalResponse_replicate:
  "unmarshalResponse r (replicate n (XElem (ns, ''propstat'') [] [])) =
     Inr (r\<lparr>ms_propstats := ms_propstats r @ replicate n \<lparr>ps_status = [], ps_prop = emptyProp\<rparr>\<rparr>)"
  by (induction n arbitrary: r) auto

text \<open>
  The limits on the structure of a multistatus document can be avoided. For every \<open>n\<close>, also above
  the limit of 8192 property groups (and, with enough of them, of 100000 tokens), a document with a
  nested response passes validation and decodes to one row with \<open>n\<close> property groups.
\<close>

theorem nested_responses_escape_limits:
  "decodeMultiStatus (nestedDocument n, False) 1 =
     Inr ([\<lparr>ms_href = [], ms_propstats = replicate n \<lparr>ps_status = [], ps_prop = emptyProp\<rparr>\<rparr>], False)"
proof -
  let ?rest = "concat (replicate n [davStart ''propstat'', davEnd ''propstat'']) @ [davEnd ''response'', davEnd ''multistatus'']"
  have valid: "validateMultiStatusXML (nestedDocument n, False) 1 = None"
    by (simp add: validateMultiStatusXML_def nestedDocument_def scanStart_def scanToken_def
        scanStartElement_def isDav_def maxMultiStatusXMLTokens_def maxMultiStatusXMLDepth_def
        maxMultiStatusPropstats_def maxMultiStatusPropertyCount_def)
  have "decodeRow (davStart ''response'' # davEnd ''response'' # ?rest) =
      Inr (\<lparr>ms_href = [], ms_propstats = replicate n \<lparr>ps_status = [], ps_prop = emptyProp\<rparr>\<rparr>, [davEnd ''multistatus''])"
    by (simp add: decodeRow_def buildElement_replicate unmarshalResponse_replicate)
  then show ?thesis
    by (simp add: decodeMultiStatus_def valid) (simp add: nestedDocument_def isDav_def)
qed

end
