(* ===== verification/Contact_Dav.thy ===== *)
theory Contact_Dav
  imports Contact_Url Contact_Xml Cal_Retry
begin

text \<open>
  The Contacts DAV transport (\<open>internal/contacts/dav.go\<close>): one loop that validates every URL, waits
  for the rate limiter and the semaphore, sends the request, follows redirects of reads, retries reads
  and classifies what a server answers; and the classification of DAV errors. The HTTP client, the
  clock, the limiter, the context and the functions of \<open>net/url\<close> are fields of one record over an
  arbitrary world.
\<close>

section \<open>Data\<close>

type_synonym header = "(string \<times> string list) list"

definition headerValues :: "header \<Rightarrow> string \<Rightarrow> string list" where
  "headerValues h name = (case map_of h name of None \<Rightarrow> [] | Some vs \<Rightarrow> vs)"

definition headerGet :: "header \<Rightarrow> string \<Rightarrow> string" where
  "headerGet h name = (case headerValues h name of [] \<Rightarrow> [] | v # _ \<Rightarrow> v)"

text \<open>
  \<open>hr_request\<close> is \<open>resp.Request\<close>: its URL (which may be nil) and method. A body is what it delivers
  and whether reading then fails.
\<close>

record contactHTTPResponse =
  hr_status :: int
  hr_header :: header
  hr_request :: "(url option \<times> string) option"
  hr_body :: "(bytes \<times> bool) option"

record contactRequest =
  cq_method :: string
  cq_url :: url
  cq_header :: "(string \<times> string) list"
  cq_body :: bytes

record contactsDavResponse =
  cd_status :: int
  cd_header :: header
  cd_body :: bytes
  cd_url :: url

text \<open>
  \<open>cv_reserve write\<close> is \<open>Reserve\<close> with \<open>OK\<close> and \<open>DelayFrom\<close> on the limiter of writes or of reads;
  \<open>cv_timer\<close> and \<open>cv_acquire\<close> are the \<open>select\<close>s against \<open>ctx.Done()\<close>, true when the timer fired or the
  semaphore was taken; \<open>cv_do\<close> is the injected doer: a response, and whether it returned an error;
  \<open>cv_until t\<close> is \<open>time.Until\<close>; \<open>cv_xml\<close> gives the tokens of a document;
  \<open>cv_withTimeout\<close> and \<open>cv_cancelTimeout\<close> enter and leave a context with a deadline; \<open>cv_random\<close> reads
  sixteen random bytes.
\<close>

record 'w contactsEnv =
  cv_lower :: "string \<Rightarrow> string"
  cv_xml :: "bytes \<Rightarrow> xmlStream"
  cv_parse :: "string \<Rightarrow> url option"
  cv_resolve :: "url \<Rightarrow> url \<Rightarrow> url"
  cv_string :: "url \<Rightarrow> string"
  cv_newRequest :: "string \<Rightarrow> string \<Rightarrow> bool"
  cv_do :: "(contactRequest \<Rightarrow> 'w \<Rightarrow> (contactHTTPResponse option \<times> bool) \<times> 'w) option"
  cv_ctxErr :: "'w \<Rightarrow> bool"
  cv_reserve :: "bool \<Rightarrow> 'w \<Rightarrow> duration option \<times> 'w"
  cv_cancel :: "bool \<Rightarrow> 'w \<Rightarrow> 'w"
  cv_timer :: "duration \<Rightarrow> 'w \<Rightarrow> bool \<times> 'w"
  cv_acquire :: "'w \<Rightarrow> bool \<times> 'w"
  cv_release :: "'w \<Rightarrow> 'w"
  cv_parseTime :: "string \<Rightarrow> int option"
  cv_until :: "int \<Rightarrow> 'w \<Rightarrow> duration"
  cv_allowHost :: "(string \<Rightarrow> bool) option"
  cv_withTimeout :: "'w \<Rightarrow> 'w"
  cv_cancelTimeout :: "'w \<Rightarrow> 'w"
  cv_random :: "'w \<Rightarrow> bytes option \<times> 'w"

definition maxRedirects :: nat where "maxRedirects = 3"
definition maxReadAttempts :: nat where "maxReadAttempts = 3"
definition contactMaxRateWait :: duration where "contactMaxRateWait = 2 * second"
definition maxErrorBodyBytes :: int where "maxErrorBodyBytes = 65536"

abbreviation validURL :: "'w contactsEnv \<Rightarrow> url \<Rightarrow> goError option" where
  "validURL e u \<equiv> validateContactsURL (cv_lower e) (cv_allowHost e) u"

section \<open>Status codes\<close>

definition contactIsRedirect :: "int \<Rightarrow> bool" where
  "contactIsRedirect status \<longleftrightarrow> status \<in> {301, 302, 307, 308}"

definition contactIsRetryStatus :: "int \<Rightarrow> bool" where
  "contactIsRetryStatus status \<longleftrightarrow> status \<in> {429, 502, 503, 504}"

definition isAmbiguousMutationStatus :: "int \<Rightarrow> bool" where
  "isAmbiguousMutationStatus status =
     (if status = 408 \<or> status = 504 then True else if 500 \<le> status then True else False)"

definition mutationOutcomeUnknown :: "int \<Rightarrow> goError" where
  "mutationOutcomeUnknown status =
     ContactsErr codeOutcomeUnknown status
       ''the contact mutation outcome is unknown; reconcile the contact state before retrying'' False 0
       (''For create, search for client_uid if one was supplied. For update or delete, re-read the ''
        @ ''contact by UID before deciding whether to retry.'')"

section \<open>Waiting\<close>

definition waitAttempt :: "'w contactsEnv \<Rightarrow> bool \<Rightarrow> 'w \<Rightarrow> goError option \<times> 'w" where
  "waitAttempt e write w =
     (let msg = ''Contacts '' @ (if write then ''write'' else ''read'') @ '' rate limit exceeded'' in
      case cv_reserve e write w of
        (None, w1) \<Rightarrow> (Some (contactsError codeRateLimited 429 msg), w1)
      | (Some delay, w1) \<Rightarrow>
          if contactMaxRateWait < delay
          then (Some (ContactsErr codeRateLimited 429 msg True
                   (if 60 * second < delay then 60 * second else delay) []), cv_cancel e write w1)
          else if delay \<le> 0 then (None, w1)
          else case cv_timer e delay w1 of
                 (True, w2) \<Rightarrow> (None, w2)
               | (False, w2) \<Rightarrow>
                   (Some (contactsError codeTimeout 0
                      ''the Contacts request timed out while waiting for its rate limit''),
                    cv_cancel e write w2))"

definition acquireSlot :: "'w contactsEnv \<Rightarrow> 'w \<Rightarrow> goError option \<times> 'w" where
  "acquireSlot e w =
     (case cv_acquire e w of
        (True, w1) \<Rightarrow> (None, w1)
      | (False, w1) \<Rightarrow> (Some (contactsError codeTimeout 0
             ''the Contacts request timed out while waiting for network capacity''), w1))"

definition maxRetryDelay :: duration where "maxRetryDelay = 2 * second"

definition clampDelay :: "duration \<Rightarrow> duration" where
  "clampDelay delay =
     (let nonneg = (if delay < 0 then 0 else delay) in
      if maxRetryDelay < nonneg then maxRetryDelay else nonneg)"

text \<open>\<open>time.Duration(seconds) * time.Second\<close> wraps at 64 bits.\<close>

definition retryAfterDelay :: "'w contactsEnv \<Rightarrow> header \<Rightarrow> nat \<Rightarrow> 'w \<Rightarrow> duration" where
  "retryAfterDelay e header attempt w =
     (let v = trimSpace (headerGet header ''Retry-After'');
          backoff = wrap64 (250 * millisecond * 2 ^ (attempt - 1));
          fallback = (if maxRetryDelay < backoff then maxRetryDelay else backoff)
      in if v = [] then fallback
         else case parseInt64 v of
                Some secs \<Rightarrow> clampDelay (wrap64 (secs * second))
              | None \<Rightarrow> (case cv_parseTime e v of
                            Some at \<Rightarrow> clampDelay (cv_until e at w)
                          | None \<Rightarrow> fallback))"

definition waitRetry :: "'w contactsEnv \<Rightarrow> duration \<Rightarrow> 'w \<Rightarrow> goError option \<times> 'w" where
  "waitRetry e delay w =
     (case cv_timer e delay w of
        (True, w1) \<Rightarrow> (None, w1)
      | (False, w1) \<Rightarrow>
          (Some (contactsError codeTimeout 0 ''the Contacts request timed out during retry backoff''), w1))"

section \<open>References\<close>

definition resolveAndValidate :: "'w contactsEnv \<Rightarrow> url \<Rightarrow> string \<Rightarrow> goError + url" where
  "resolveAndValidate e base rawHref =
     (let href = trimSpace rawHref in
      if href = [] then Inl (contactsError codeProtocolError 0 ''iCloud Contacts returned an empty DAV href'')
      else case cv_parse e href of
             None \<Rightarrow> Inl (contactsError codeProtocolError 0 ''iCloud Contacts returned an invalid DAV href'')
           | Some reference \<Rightarrow>
               (let resolved = cv_resolve e base reference in
                case validURL e resolved of Some err \<Rightarrow> Inl err | None \<Rightarrow> Inr resolved))"

section \<open>One exchange\<close>

datatype contactStep =
    CFail goError
  | CFollow url
  | CAnswer contactsDavResponse

text \<open>\<open>io.ReadAll(io.LimitReader(body, cap + 1))\<close>.\<close>

definition readCapped :: "int \<Rightarrow> (bytes \<times> bool) option \<Rightarrow> bytes \<times> bool" where
  "readCapped cap body =
     (case body of
        None \<Rightarrow> ([], False)
      | Some (data, fails) \<Rightarrow>
          if cap < int (length data) then (take (nat (cap + 1)) data, False) else (data, fails))"

definition isWriteMethod :: "string \<Rightarrow> bool" where
  "isWriteMethod meth \<longleftrightarrow> meth = ''PUT'' \<or> meth = ''DELETE''"

definition silentRedirect :: "'w contactsEnv \<Rightarrow> string \<Rightarrow> url \<Rightarrow> contactHTTPResponse \<Rightarrow> bool" where
  "silentRedirect e meth current resp =
     (case hr_request resp of
        None \<Rightarrow> False
      | Some (None, _) \<Rightarrow> True
      | Some (Some u, m) \<Rightarrow> cv_string e u \<noteq> cv_string e current \<or> m \<noteq> meth)"

definition contactResponseURL :: "url \<Rightarrow> contactHTTPResponse \<Rightarrow> url" where
  "contactResponseURL current resp =
     (case hr_request resp of Some (Some u, _) \<Rightarrow> u | _ \<Rightarrow> current)"

definition outsideBook :: "url option \<Rightarrow> string \<Rightarrow> url \<Rightarrow> bool" where
  "outsideBook selectedBook meth u \<longleftrightarrow>
     (case selectedBook of None \<Rightarrow> False | Some book \<Rightarrow> \<not> urlWithin u book (meth = ''REPORT''))"

definition redirectStep ::
  "'w contactsEnv \<Rightarrow> string \<Rightarrow> url option \<Rightarrow> nat \<Rightarrow> url \<Rightarrow> contactHTTPResponse \<Rightarrow> contactStep" where
  "redirectStep e meth selectedBook redirects respURL resp =
     (let location = headerGet (hr_header resp) ''Location'' in
      if maxRedirects \<le> redirects \<or> location = []
      then CFail (contactsError codeProtocolError (hr_status resp)
             ''Contacts redirect limit exceeded or Location was missing'')
      else case resolveAndValidate e respURL location of
             Inl err \<Rightarrow> CFail err
           | Inr nextURL \<Rightarrow>
               if outsideBook selectedBook meth nextURL
               then CFail (contactsError codeProtocolError (hr_status resp)
                      ''Contacts redirect is outside its selected address book'')
               else CFollow nextURL)"

definition bodyStep :: "string \<Rightarrow> int \<Rightarrow> url \<Rightarrow> contactHTTPResponse \<Rightarrow> contactStep" where
  "bodyStep meth bodyCap respURL resp =
     (let write = isWriteMethod meth;
          status = hr_status resp;
          readCap = (if bodyCap \<le> 0 then maxErrorBodyBytes else bodyCap);
          answer = (\<lambda>data. CAnswer \<lparr>cd_status = status, cd_header = hr_header resp, cd_body = data,
                                    cd_url = respURL\<rparr>);
          (data, readErr) = readCapped readCap (hr_body resp)
      in if readErr
         then (if write then answer []
               else CFail (contactsError codeUnavailable 0 ''failed to read the Contacts response''))
         else if readCap < int (length data)
         then (if write \<and> status div 100 = 2 then answer []
               else CFail (contactsError codePayloadTooLarge status
                      ''the Contacts response exceeded its byte limit''))
         else answer data)"

definition contactAnswer ::
  "'w contactsEnv \<Rightarrow> string \<Rightarrow> int \<Rightarrow> url option \<Rightarrow> nat \<Rightarrow> url \<Rightarrow> contactHTTPResponse \<Rightarrow> contactStep" where
  "contactAnswer e meth bodyCap selectedBook redirects current resp =
     (let write = isWriteMethod meth; status = hr_status resp; respURL = contactResponseURL current resp in
      if silentRedirect e meth current resp
      then CFail (if write then mutationOutcomeUnknown 0
                  else contactsError codeProtocolError 0 ''the HTTP doer followed an automatic redirect'')
      else case validURL e respURL of
             Some err \<Rightarrow> CFail err
           | None \<Rightarrow>
               if write \<and> 300 \<le> status \<and> status < 400 then CFail (mutationOutcomeUnknown status)
               else if contactIsRedirect status then redirectStep e meth selectedBook redirects respURL resp
               else if 300 \<le> status \<and> status < 400
               then CFail (contactsError codeProtocolError status
                      ''Contacts received an unsupported redirect status'')
               else if write \<and> isAmbiguousMutationStatus status then CFail (mutationOutcomeUnknown status)
               else bodyStep meth bodyCap respURL resp)"

definition contactDoError :: "'w contactsEnv \<Rightarrow> string \<Rightarrow> 'w \<Rightarrow> goError" where
  "contactDoError e meth w =
     (if isWriteMethod meth then mutationOutcomeUnknown 0
      else if cv_ctxErr e w then contactsError codeTimeout 0 ''the Contacts request timed out''
      else ContactsErr codeUnavailable 0 ''iCloud Contacts is temporarily unavailable'' True 0 [])"

text \<open>The function literal of lines 72 to 184: what happens while a slot of the semaphore is held.\<close>

definition contactExchange ::
  "'w contactsEnv \<Rightarrow> (contactRequest \<Rightarrow> 'w \<Rightarrow> (contactHTTPResponse option \<times> bool) \<times> 'w) \<Rightarrow> string
     \<Rightarrow> (string \<times> string) list \<Rightarrow> bytes \<Rightarrow> int \<Rightarrow> url option \<Rightarrow> nat \<Rightarrow> url \<Rightarrow> 'w \<Rightarrow> contactStep \<times> 'w" where
  "contactExchange e httpDo meth headers body bodyCap selectedBook redirects current w =
     (if \<not> cv_newRequest e meth (cv_string e current)
      then (CFail (contactsError codeInternal 0 ''failed to build a Contacts request''), cv_release e w)
      else case httpDo \<lparr>cq_method = meth, cq_url = current, cq_header = headers, cq_body = body\<rparr> w of
             ((_, True), w1) \<Rightarrow> (CFail (contactDoError e meth w1), cv_release e w1)
           | ((None, False), w1) \<Rightarrow>
               (CFail (if isWriteMethod meth then mutationOutcomeUnknown 0
                       else contactsError codeProtocolError 0 ''Contacts HTTP doer returned no response''),
                cv_release e w1)
           | ((Some resp, False), w1) \<Rightarrow>
               (contactAnswer e meth bodyCap selectedBook redirects current resp, cv_release e w1))"

lemma redirectStep_Follow: "redirectStep e meth book redirects respURL resp = CFollow u \<Longrightarrow> redirects < maxRedirects"
  by (simp add: redirectStep_def Let_def split: if_splits)

lemma bodyStep_Follow: "bodyStep meth cap respURL resp \<noteq> CFollow u"
  by (simp add: bodyStep_def Let_def split: prod.splits)

lemma contactAnswer_Follow:
  assumes "contactAnswer e meth cap book redirects current resp = CFollow u"
  shows "redirects < maxRedirects" "\<not> isWriteMethod meth"
proof -
  from assms have r: "contactIsRedirect (hr_status resp)"
    and f: "redirectStep e meth book redirects (contactResponseURL current resp) resp = CFollow u"
    and w: "\<not> (isWriteMethod meth \<and> 300 \<le> hr_status resp \<and> hr_status resp < 400)"
    by (auto simp: contactAnswer_def Let_def bodyStep_Follow split: if_splits option.splits)
  from redirectStep_Follow [OF f] show "redirects < maxRedirects" .
  from r w show "\<not> isWriteMethod meth" by (auto simp: contactIsRedirect_def)
qed

lemma contactExchange_Follow:
  assumes "contactExchange e httpDo meth h b cap book redirects current w = (CFollow u, w')"
  shows "redirects < maxRedirects" "\<not> isWriteMethod meth"
  using assms contactAnswer_Follow [of e meth cap book redirects current]
  by (auto simp: contactExchange_def split: if_splits prod.splits option.splits bool.splits)

section \<open>doDAV\<close>

function contactLoop ::
  "'w contactsEnv \<Rightarrow> (contactRequest \<Rightarrow> 'w \<Rightarrow> (contactHTTPResponse option \<times> bool) \<times> 'w) \<Rightarrow> string
     \<Rightarrow> (string \<times> string) list \<Rightarrow> bytes \<Rightarrow> int \<Rightarrow> url option \<Rightarrow> nat \<Rightarrow> nat \<Rightarrow> url \<Rightarrow> 'w
     \<Rightarrow> (goError + contactsDavResponse) \<times> 'w" where
  "contactLoop e httpDo meth headers body bodyCap selectedBook redirects retries current w =
     (case validURL e current of
        Some err \<Rightarrow> (Inl err, w)
      | None \<Rightarrow>
          if outsideBook selectedBook meth current
          then (Inl (contactsError codeProtocolError 0
                  ''Contacts request is outside its selected address book''), w)
          else
            (case waitAttempt e (isWriteMethod meth) w of
               (Some err, w1) \<Rightarrow> (Inl err, w1)
             | (None, w1) \<Rightarrow>
                 (case acquireSlot e w1 of
                    (Some err, w2) \<Rightarrow> (Inl err, w2)
                  | (None, w2) \<Rightarrow>
                      (case contactExchange e httpDo meth headers body bodyCap selectedBook redirects current w2 of
                         (CFail err, w3) \<Rightarrow> (Inl err, w3)
                       | (CFollow next, w3) \<Rightarrow>
                           contactLoop e httpDo meth headers body bodyCap selectedBook (Suc redirects)
                             retries next w3
                       | (CAnswer result, w3) \<Rightarrow>
                           if \<not> isWriteMethod meth \<and> contactIsRetryStatus (cd_status result)
                              \<and> retries + 1 < maxReadAttempts
                           then
                             (case waitRetry e (retryAfterDelay e (cd_header result) (Suc retries) w3) w3 of
                                (Some err, w4) \<Rightarrow> (Inl err, w4)
                              | (None, w4) \<Rightarrow>
                                  contactLoop e httpDo meth headers body bodyCap selectedBook redirects
                                    (Suc retries) current w4)
                           else (Inr result, w3)))))"
  by pat_completeness auto
termination
  by (relation "measure (\<lambda>(e, d, m, h, b, c, s, redirects, retries, u, w).
        (maxRedirects - redirects) + (maxReadAttempts - retries))")
    (auto dest: contactExchange_Follow [OF sym])

declare contactLoop.simps [simp del]

definition doDAV ::
  "'w contactsEnv \<Rightarrow> string \<Rightarrow> url \<Rightarrow> (string \<times> string) list \<Rightarrow> bytes \<Rightarrow> int \<Rightarrow> url option \<Rightarrow> 'w
     \<Rightarrow> (goError + contactsDavResponse) \<times> 'w" where
  "doDAV e meth target headers body bodyCap selectedBook w =
     (case cv_do e of
        None \<Rightarrow> (Inl (contactsError codeInternal 0 ''Contacts HTTP doer is not configured''), w)
      | Some httpDo \<Rightarrow>
          (case (case selectedBook of None \<Rightarrow> None | Some book \<Rightarrow> validURL e book) of
             Some err \<Rightarrow> (Inl err, w)
           | None \<Rightarrow> contactLoop e httpDo meth headers body bodyCap selectedBook 0 0 target w))"

section \<open>classifyDAVError\<close>

text \<open>\<open>None\<close> for a success, where the function returns nil.\<close>

fun conditionError :: "int \<Rightarrow> string list \<Rightarrow> goError option" where
  "conditionError status [] = None"
| "conditionError status (c # cs) =
     (if c = ''no-uid-conflict''
      then Some (contactsError codeConflict status ''the contact UID conflicts with an existing contact'')
      else if c = ''valid-address-data''
      then Some (contactsError codeValidation status ''the server rejected the vCard data'')
      else if c = ''max-resource-size''
      then Some (contactsError codePayloadTooLarge status ''the contact exceeds the server resource limit'')
      else conditionError status cs)"

definition classifyDAVError :: "(bytes \<Rightarrow> xmlStream) \<Rightarrow> contactsDavResponse \<Rightarrow> bool \<Rightarrow> goError option" where
  "classifyDAVError xml resp create =
     (let status = cd_status resp in
      if status div 100 = 2 then None
      else if status = 412
      then Some (if create
                 then contactsError codeConflict status ''a contact resource already exists at the create target''
                 else contactsError codeConcurrentModification status ''the contact changed since it was read'')
      else case davPreconditions xml (cd_body resp) of
             (preconditions, malformed) \<Rightarrow>
               (case conditionError status preconditions of
                  Some err \<Rightarrow> Some err
                | None \<Rightarrow>
                    if malformed \<or> preconditions \<noteq> []
                    then Some (contactsError codeProtocolError status
                           ''iCloud Contacts returned an unknown DAV precondition'')
                    else Some (contactsClassifyStatus status)))"

section \<open>What reaches the wire\<close>

definition contactDispatchOk ::
  "'w contactsEnv \<Rightarrow> string \<Rightarrow> (string \<times> string) list \<Rightarrow> bytes \<Rightarrow> url option \<Rightarrow> contactRequest \<Rightarrow> bool" where
  "contactDispatchOk e meth headers body book rq \<longleftrightarrow>
     cq_method rq = meth \<and> cq_header rq = headers \<and> cq_body rq = body
     \<and> validURL e (cq_url rq) = None \<and> \<not> outsideBook book meth (cq_url rq)"

text \<open>
  The interface between the client and the outside: \<open>wire w\<close> lists the requests handed to the doer, and
  nothing else the client calls extends it.
\<close>

locale contact_wire =
  fixes e :: "'w contactsEnv"
    and httpDo :: "contactRequest \<Rightarrow> 'w \<Rightarrow> (contactHTTPResponse option \<times> bool) \<times> 'w"
    and wire :: "'w \<Rightarrow> contactRequest list"
  assumes do_logs: "httpDo rq w = (out, w') \<Longrightarrow> wire w' = wire w @ [rq]"
    and reserve_quiet: "wire (snd (cv_reserve e b w)) = wire w"
    and cancel_quiet: "wire (cv_cancel e b w) = wire w"
    and timer_quiet: "wire (snd (cv_timer e d w)) = wire w"
    and acquire_quiet: "wire (snd (cv_acquire e w)) = wire w"
    and release_quiet: "wire (cv_release e w) = wire w"
    and timeout_quiet: "wire (cv_withTimeout e w) = wire w" "wire (cv_cancelTimeout e w) = wire w"
    and random_quiet: "wire (snd (cv_random e w)) = wire w"
begin

lemma waitAttempt_quiet:
  assumes "waitAttempt e b w = (out, w')"
  shows "wire w' = wire w"
proof -
  obtain r w1 where r: "cv_reserve e b w = (r, w1)" by (rule prod.exhaust)
  obtain fired w2 where t: "cv_timer e (the r) w1 = (fired, w2)" by (rule prod.exhaust)
  have "wire w1 = wire w" "wire w2 = wire w"
    using reserve_quiet [of b w] timer_quiet [of "the r" w1] r t by simp_all
  then show ?thesis
    using assms r t
    by (cases r; cases fired) (auto simp: waitAttempt_def Let_def cancel_quiet split: if_splits)
qed

lemma acquireSlot_quiet: "acquireSlot e w = (out, w') \<Longrightarrow> wire w' = wire w"
  using acquire_quiet [of w] by (auto simp: acquireSlot_def split: prod.splits bool.splits)

lemma waitRetry_quiet: "waitRetry e d w = (out, w') \<Longrightarrow> wire w' = wire w"
  using timer_quiet [of d w] by (auto simp: waitRetry_def split: prod.splits bool.splits)

lemma contactExchange_wire:
  assumes "contactExchange e httpDo meth headers body cap book redirects current w = (step, w')"
  shows "wire w' = wire w
    \<or> wire w' = wire w @ [\<lparr>cq_method = meth, cq_url = current, cq_header = headers, cq_body = body\<rparr>]"
proof (cases "cv_newRequest e meth (cv_string e current)")
  case True
  let ?rq = "\<lparr>cq_method = meth, cq_url = current, cq_header = headers, cq_body = body\<rparr>"
  obtain resp err w1 where d: "httpDo ?rq w = ((resp, err), w1)" by (metis surj_pair)
  have "w' = cv_release e w1"
    using assms True d by (auto simp: contactExchange_def split: option.splits bool.splits)
  then show ?thesis using do_logs [OF d] by (simp add: release_quiet)
next
  case False
  then show ?thesis using assms by (auto simp: contactExchange_def release_quiet)
qed

text \<open>One pass of the loop.\<close>

lemma contactLoop_step:
  assumes "contactLoop e httpDo meth headers body cap book redirects retries current w = (out, w')"
  obtains "wire w' = wire w"
  | rqs where "\<forall>rq \<in> set rqs. contactDispatchOk e meth headers body book rq" "length rqs \<le> 1"
      "wire w' = wire w @ rqs"
  | rqs w1 nxt where "\<forall>rq \<in> set rqs. contactDispatchOk e meth headers body book rq" "length rqs \<le> 1"
      "wire w1 = wire w @ rqs" "\<not> isWriteMethod meth" "redirects < maxRedirects"
      "contactLoop e httpDo meth headers body cap book (Suc redirects) retries nxt w1 = (out, w')"
  | rqs w1 where "\<forall>rq \<in> set rqs. contactDispatchOk e meth headers body book rq" "length rqs \<le> 1"
      "wire w1 = wire w @ rqs" "\<not> isWriteMethod meth" "retries + 1 < maxReadAttempts"
      "contactLoop e httpDo meth headers body cap book redirects (Suc retries) current w1 = (out, w')"
proof (cases "validURL e current = None \<and> \<not> outsideBook book meth current")
  case False
  then have "w' = w" using assms by (auto simp: contactLoop.simps [of e httpDo meth] split: option.splits)
  then show thesis using that(1) by simp
next
  case ok: True
  obtain err1 w1 where a: "waitAttempt e (isWriteMethod meth) w = (err1, w1)" by (rule prod.exhaust)
  obtain err2 w2 where b: "acquireSlot e w1 = (err2, w2)" by (rule prod.exhaust)
  obtain step w3 where x: "contactExchange e httpDo meth headers body cap book redirects current w2 = (step, w3)"
    by (rule prod.exhaust)
  let ?rq = "\<lparr>cq_method = meth, cq_url = current, cq_header = headers, cq_body = body\<rparr>"
  have q: "wire w1 = wire w" "wire w2 = wire w"
    using waitAttempt_quiet [OF a] acquireSlot_quiet [OF b] by simp_all
  have "contactDispatchOk e meth headers body book ?rq" using ok by (simp add: contactDispatchOk_def)
  with contactExchange_wire [OF x] q obtain rqs where rqs:
    "\<forall>rq \<in> set rqs. contactDispatchOk e meth headers body book rq" "length rqs \<le> 1" "wire w3 = wire w @ rqs"
    by (elim disjE) (fastforce intro: that [of "[]"], fastforce intro: that [of "[?rq]"])
  note unfold = contactLoop.simps [of e httpDo meth headers body cap book redirects retries current w]
  show thesis
  proof (cases "err1 = None \<and> err2 = None")
    case False
    then have "w' = w1 \<or> w' = w2" using assms ok a b by (auto simp: unfold split: option.splits)
    then show thesis using q that(1) by auto
  next
    case True
    note run = assms [unfolded unfold] ok a b x True
    show thesis
    proof (cases step)
      case (CFail err)
      then have "w' = w3" using run by simp
      then show thesis using rqs that(2) by blast
    next
      case (CFollow nxt)
      then show thesis
        using run contactExchange_Follow [OF x [unfolded CFollow]] by (intro that(3) [OF rqs]) simp_all
    next
      case (CAnswer result)
      show thesis
      proof (cases "\<not> isWriteMethod meth \<and> contactIsRetryStatus (cd_status result) \<and> retries + 1 < maxReadAttempts")
        case False
        then have "w' = w3" using run CAnswer by auto
        then show thesis using rqs that(2) by blast
      next
        case retry: True
        obtain err3 w4 where t:
          "waitRetry e (retryAfterDelay e (cd_header result) (Suc retries) w3) w3 = (err3, w4)" by (rule prod.exhaust)
        have w4: "wire w4 = wire w @ rqs" using waitRetry_quiet [OF t] rqs(3) by simp
        show thesis
        proof (cases err3)
          case None
          then show thesis using run CAnswer retry t by (intro that(4) [OF rqs(1,2) w4]) auto
        next
          case (Some err)
          then have "w' = w4" using run CAnswer retry t by auto
          then show thesis using rqs w4 that(2) by blast
        qed
      qed
    qed
  qed
qed

lemma contactLoop_wire:
  assumes "contactLoop e httpDo meth headers body cap book redirects retries current w = (out, w')"
    and "redirects \<le> maxRedirects" and "retries < maxReadAttempts"
  shows "\<exists>rqs. wire w' = wire w @ rqs \<and> (\<forall>rq \<in> set rqs. contactDispatchOk e meth headers body book rq)
    \<and> length rqs \<le> (if isWriteMethod meth then 1
                     else (maxRedirects - redirects) + (maxReadAttempts - retries))"
  using assms
proof (induction "(maxRedirects - redirects) + (maxReadAttempts - retries)"
    arbitrary: redirects retries current w rule: less_induct)
  case less
  let ?ok = "contactDispatchOk e meth headers body book"
  from less.prems(1) show ?case
  proof (cases rule: contactLoop_step)
    case 1
    then show ?thesis by simp
  next
    case (2 rqs)
    then show ?thesis using less.prems(3) by (intro exI [of _ rqs]) auto
  next
    case (3 rqs w1 nxt)
    have m: "(maxRedirects - Suc redirects) + (maxReadAttempts - retries)
        < (maxRedirects - redirects) + (maxReadAttempts - retries)" "Suc redirects \<le> maxRedirects"
      using 3(5) by linarith+
    from less.hyps [OF m(1) 3(6) m(2) less.prems(3)] 3(4) obtain more where
      "wire w' = wire w1 @ more" "\<forall>rq \<in> set more. ?ok rq"
      "length more \<le> (maxRedirects - Suc redirects) + (maxReadAttempts - retries)" by auto
    with 3 m show ?thesis by (intro exI [of _ "rqs @ more"]) auto
  next
    case (4 rqs w1)
    have m: "(maxRedirects - redirects) + (maxReadAttempts - Suc retries)
        < (maxRedirects - redirects) + (maxReadAttempts - retries)" "Suc retries < maxReadAttempts"
      using 4(5) by linarith+
    from less.hyps [OF m(1) 4(6) less.prems(2) m(2)] 4(4) obtain more where
      "wire w' = wire w1 @ more" "\<forall>rq \<in> set more. ?ok rq"
      "length more \<le> (maxRedirects - redirects) + (maxReadAttempts - Suc retries)" by auto
    with 4 m show ?thesis by (intro exI [of _ "rqs @ more"]) auto
  qed
qed

text \<open>The requests of one call of \<open>doDAV\<close>.\<close>

lemma doDAV_wire:
  assumes "cv_do e = Some httpDo" and "doDAV e meth target headers body cap book w = (out, w')"
  shows "\<exists>rqs. wire w' = wire w @ rqs \<and> (\<forall>rq \<in> set rqs. contactDispatchOk e meth headers body book rq)
    \<and> length rqs \<le> (if isWriteMethod meth then 1 else 6)"
proof (cases "case book of None \<Rightarrow> None | Some b \<Rightarrow> validURL e b")
  case None
  with assms have "contactLoop e httpDo meth headers body cap book 0 0 target w = (out, w')"
    by (simp add: doDAV_def)
  from contactLoop_wire [OF this] show ?thesis by (auto simp: maxRedirects_def maxReadAttempts_def)
next
  case (Some err)
  with assms have "w' = w" by (simp add: doDAV_def)
  then show ?thesis by simp
qed

text \<open>A write that is answered was sent, once.\<close>

lemma contactExchange_answered:
  assumes "contactExchange e httpDo meth headers body cap book redirects current w = (CAnswer resp, w')"
  shows "wire w' = wire w @ [\<lparr>cq_method = meth, cq_url = current, cq_header = headers, cq_body = body\<rparr>]"
  using assms by (auto simp: contactExchange_def release_quiet dest: do_logs split: if_splits prod.splits option.splits bool.splits)

lemma doDAV_write_answered:
  assumes "cv_do e = Some httpDo" and "isWriteMethod meth"
    and "doDAV e meth target headers body cap book w = (Inr resp, w')"
  shows "wire w' \<noteq> wire w"
proof -
  from assms(1,3) have "contactLoop e httpDo meth headers body cap book 0 0 target w = (Inr resp, w')"
    by (auto simp: doDAV_def split: option.splits)
  note run = this [unfolded contactLoop.simps [of e httpDo meth headers body cap book 0 0 target w]]
  obtain err1 w1 where a: "waitAttempt e (isWriteMethod meth) w = (err1, w1)" by (rule prod.exhaust)
  obtain err2 w2 where b: "acquireSlot e w1 = (err2, w2)" by (rule prod.exhaust)
  obtain step w3 where x: "contactExchange e httpDo meth headers body cap book 0 target w2 = (step, w3)"
    by (rule prod.exhaust)
  have ok: "validURL e target = None" "\<not> outsideBook book meth target" "err1 = None" "err2 = None"
    using run a b by (simp_all split: option.splits if_splits)
  have "\<exists>result. step = CAnswer result \<and> w' = w3"
    using run ok a b x assms(2) by (cases step) (auto dest: contactExchange_Follow(2))
  then show ?thesis
    using waitAttempt_quiet [OF a] acquireSlot_quiet [OF b] contactExchange_answered x by auto
qed

end

section \<open>Any client can be watched\<close>

text \<open>The same environment over a world that also carries the list of the requests.\<close>

definition liftOut :: "('w \<Rightarrow> 'a \<times> 'w) \<Rightarrow> 'w \<times> 'l \<Rightarrow> 'a \<times> 'w \<times> 'l" where
  "liftOut f s = (case f (fst s) of (out, w') \<Rightarrow> (out, (w', snd s)))"

definition recordDo ::
  "(contactRequest \<Rightarrow> 'w \<Rightarrow> 'a \<times> 'w) \<Rightarrow> contactRequest \<Rightarrow> 'w \<times> contactRequest list
     \<Rightarrow> 'a \<times> 'w \<times> contactRequest list" where
  "recordDo f rq s = (case f rq (fst s) of (out, w') \<Rightarrow> (out, (w', snd s @ [rq])))"

definition recordContacts :: "'w contactsEnv \<Rightarrow> ('w \<times> contactRequest list) contactsEnv" where
  "recordContacts e =
     \<lparr>cv_lower = cv_lower e, cv_xml = cv_xml e, cv_parse = cv_parse e, cv_resolve = cv_resolve e,
      cv_string = cv_string e, cv_newRequest = cv_newRequest e,
      cv_do = map_option recordDo (cv_do e), cv_ctxErr = cv_ctxErr e \<circ> fst,
      cv_reserve = (\<lambda>b. liftOut (cv_reserve e b)), cv_cancel = (\<lambda>b s. (cv_cancel e b (fst s), snd s)),
      cv_timer = (\<lambda>d. liftOut (cv_timer e d)), cv_acquire = liftOut (cv_acquire e),
      cv_release = (\<lambda>s. (cv_release e (fst s), snd s)), cv_parseTime = cv_parseTime e,
      cv_until = (\<lambda>t s. cv_until e t (fst s)), cv_allowHost = cv_allowHost e,
      cv_withTimeout = (\<lambda>s. (cv_withTimeout e (fst s), snd s)),
      cv_cancelTimeout = (\<lambda>s. (cv_cancelTimeout e (fst s), snd s)), cv_random = liftOut (cv_random e)\<rparr>"

lemma recordContacts_sel [simp]:
  "cv_do (recordContacts e) = map_option recordDo (cv_do e)" "cv_lower (recordContacts e) = cv_lower e"
  "cv_allowHost (recordContacts e) = cv_allowHost e" "cv_parse (recordContacts e) = cv_parse e"
  "cv_resolve (recordContacts e) = cv_resolve e" "cv_xml (recordContacts e) = cv_xml e"
  by (simp_all add: recordContacts_def)

interpretation contacts: contact_wire "recordContacts e" "recordDo f" snd
  for e :: "'w contactsEnv" and f :: "contactRequest \<Rightarrow> 'w \<Rightarrow> (contactHTTPResponse option \<times> bool) \<times> 'w"
  by unfold_locales (auto simp: recordContacts_def recordDo_def liftOut_def split: prod.splits)

text \<open>
  C18. Contacts requests stay where they belong. Whatever the server answers and however URLs are
  parsed and resolved, every request of a call of \<open>doDAV\<close> carries its method, headers and body, goes
  over https and port 443 to an allowlisted host, has a path that is safe at every depth of decoding
  and lies within the selected address book; a read is sent at most six times (three redirects, two
  retries), a write at most once.
\<close>

theorem contact_requests_confined:
  assumes "cv_do e = Some f"
    and "doDAV (recordContacts e) meth target headers body cap book (w, []) = (out, (w', sent))"
  shows "length sent \<le> (if isWriteMethod meth then 1 else 6)
    \<and> (\<forall>rq \<in> set sent. cq_method rq = meth \<and> cq_header rq = headers \<and> cq_body rq = body
         \<and> u_scheme (cq_url rq) = ''https'' \<and> (urlPort (cq_url rq) = [] \<or> urlPort (cq_url rq) = ''443'')
         \<and> (\<exists>allowed. cv_allowHost e = Some allowed \<and> allowed (hostname (cq_url rq)))
         \<and> (\<exists>p. canonicalOpaquePath (cq_url rq) = Some p \<and> opaqueSafe p)
         \<and> (\<forall>b. book = Some b \<longrightarrow> urlWithin (cq_url rq) b (meth = ''REPORT'')))"
proof -
  from assms(1) have d: "cv_do (recordContacts e) = Some (recordDo f)" by simp
  from contacts.doDAV_wire [OF d assms(2)]
  have len: "length sent \<le> (if isWriteMethod meth then 1 else 6)"
    and ok: "\<forall>rq \<in> set sent. contactDispatchOk (recordContacts e) meth headers body book rq" by auto
  have "cq_method rq = meth \<and> cq_header rq = headers \<and> cq_body rq = body
         \<and> u_scheme (cq_url rq) = ''https'' \<and> (urlPort (cq_url rq) = [] \<or> urlPort (cq_url rq) = ''443'')
         \<and> (\<exists>allowed. cv_allowHost e = Some allowed \<and> allowed (hostname (cq_url rq)))
         \<and> (\<exists>p. canonicalOpaquePath (cq_url rq) = Some p \<and> opaqueSafe p)
         \<and> (\<forall>b. book = Some b \<longrightarrow> urlWithin (cq_url rq) b (meth = ''REPORT''))"
    if "rq \<in> set sent" for rq
  proof -
    from ok that have v: "validateContactsURL (cv_lower e) (cv_allowHost e) (cq_url rq) = None"
      and rest: "cq_method rq = meth" "cq_header rq = headers" "cq_body rq = body" "\<not> outsideBook book meth (cq_url rq)"
      by (auto simp: contactDispatchOk_def)
    note u = validateContactsURL_None [OF v]
    from u(7) obtain p where p: "canonicalOpaquePath (cq_url rq) = Some p" by blast
    from rest(4) have "\<forall>b. book = Some b \<longrightarrow> urlWithin (cq_url rq) b (meth = ''REPORT'')"
      by (auto simp: outsideBook_def split: option.splits)
    with u rest p canonicalOpaquePath_safe [OF p] show ?thesis by blast
  qed
  with len show ?thesis by blast
qed

text \<open>A server that answers 503 to everything: three attempts and the last answer.\<close>

definition busyDo :: "contactRequest \<Rightarrow> unit \<Rightarrow> (contactHTTPResponse option \<times> bool) \<times> unit" where
  "busyDo rq w = ((Some \<lparr>hr_status = 503, hr_header = [], hr_request = None, hr_body = None\<rparr>, False), w)"

definition contactsEnvOf ::
  "(contactRequest \<Rightarrow> 'w \<Rightarrow> (contactHTTPResponse option \<times> bool) \<times> 'w) \<Rightarrow> 'w contactsEnv" where
  "contactsEnvOf f =
     \<lparr>cv_lower = toLower, cv_xml = (\<lambda>_. ([], False)), cv_parse = (\<lambda>s. Some (sampleContactURL s)),
      cv_resolve = (\<lambda>_ ref. ref), cv_string = u_escapedPath, cv_newRequest = (\<lambda>_ _. True), cv_do = Some f,
      cv_ctxErr = (\<lambda>_. False), cv_reserve = (\<lambda>_ w. (Some 0, w)), cv_cancel = (\<lambda>_ w. w),
      cv_timer = (\<lambda>_ w. (True, w)), cv_acquire = (\<lambda>w. (True, w)), cv_release = (\<lambda>w. w),
      cv_parseTime = (\<lambda>_. None), cv_until = (\<lambda>_ _. 0), cv_allowHost = Some isContactsHost,
      cv_withTimeout = (\<lambda>w. w), cv_cancelTimeout = (\<lambda>w. w), cv_random = (\<lambda>w. (Some (replicate 16 CHR ''x''), w))\<rparr>"

theorem contact_requests_confined_witness:
  "(let rq = \<lparr>cq_method = ''GET'', cq_url = sampleContactURL ''/c/b/x.vcf'', cq_header = [], cq_body = []\<rparr> in
    doDAV (recordContacts (contactsEnvOf busyDo)) ''GET'' (sampleContactURL ''/c/b/x.vcf'') [] [] 0
      (Some (sampleContactURL ''/c/b/'')) ((), [])
    = (Inr \<lparr>cd_status = 503, cd_header = [], cd_body = [], cd_url = sampleContactURL ''/c/b/x.vcf''\<rparr>, ((), [rq, rq, rq]))
    \<and> urlWithin (cq_url rq) (sampleContactURL ''/c/b/'') False)"
proof -
  let ?rq = "\<lparr>cq_method = ''GET'', cq_url = sampleContactURL ''/c/b/x.vcf'', cq_header = [], cq_body = []\<rparr>"
  have d: "cv_do (contactsEnvOf busyDo) = Some busyDo" by (simp add: contactsEnvOf_def)
  have run: "doDAV (recordContacts (contactsEnvOf busyDo)) ''GET'' (sampleContactURL ''/c/b/x.vcf'') [] [] 0
      (Some (sampleContactURL ''/c/b/'')) ((), [])
    = (Inr \<lparr>cd_status = 503, cd_header = [], cd_body = [], cd_url = sampleContactURL ''/c/b/x.vcf''\<rparr>,
       ((), [?rq, ?rq, ?rq]))" by code_simp
  from contact_requests_confined [OF d run] run show ?thesis by (simp add: Let_def)
qed

end
