(* ===== verification/Mail_Validation.thy ===== *)
theory Mail_Validation
  imports Go_Errors "HOL-Library.Word"
begin

text \<open>
  \<open>internal/mail/validation.go\<close>, the reply headers of \<open>internal/mail/reply.go\<close> and the key check of
  \<open>internal/mail/send_idempotency.go\<close>: recipient policies, plain addresses, mailbox names, search
  values, message identities, flag changes and Message-IDs. \<open>net/mail.ParseAddress\<close> is the parameter
  \<open>parseAddress\<close>; it returns the display name and the address, and nothing is assumed of it. A Go
  set (\<open>map[string]struct{}\<close>) is a HOL set. UIDs and UIDVALIDITY values are 32-bit words.
\<close>

type_synonym addressParser = "string \<Rightarrow> (string \<times> string) option"

definition maxMetadataString :: nat where "maxMetadataString = 4096"
definition maxSearchValue :: nat where "maxSearchValue = 512"
definition maxSubjectBytes :: nat where "maxSubjectBytes = 998"
definition maxReplyReferences :: nat where "maxReplyReferences = 20"
definition maxSendIdempotencyKey :: nat where "maxSendIdempotencyKey = 255"

section \<open>Plain addresses and the recipient policy\<close>

definition mailAsciiLower :: "string \<Rightarrow> string" where
  "mailAsciiLower value = map lowerByte value"

definition validateAddrSpec :: "addressParser \<Rightarrow> string \<Rightarrow> string option" where
  "validateAddrSpec parseAddress value =
     (if value = [] \<or> trimSpace value \<noteq> value \<or> containsAny value [nul, cr, lf] \<or> \<not> validUTF8 value
      then None
      else case parseAddress value of
             None \<Rightarrow> None
           | Some (name, address) \<Rightarrow>
               if name \<noteq> [] \<or> address \<noteq> value then None
               else if \<not> containsStr value ''@'' \<or> 320 < length value then None
               else Some address)"

record mailPolicy =
  mp_allowAll :: bool
  mp_allowed :: "string set"

definition zeroPolicy :: mailPolicy where
  "zeroPolicy = \<lparr>mp_allowAll = False, mp_allowed = {}\<rparr>"

fun exactItems :: "addressParser \<Rightarrow> string list \<Rightarrow> string set \<Rightarrow> goError + string set" where
  "exactItems parseAddress [] allowed = Inr allowed"
| "exactItems parseAddress (raw # items) allowed =
     (let item = trimSpace raw in
      if item = [] \<or> item = ''*'' then Inl (PlainError ''recipient policy contains an invalid item'')
      else case validateAddrSpec parseAddress item of
             None \<Rightarrow> Inl (PlainError ''recipient policy contains an invalid address'')
           | Some addr \<Rightarrow>
               if mailAsciiLower addr \<in> allowed
               then Inl (PlainError ''recipient policy contains a duplicate address'')
               else exactItems parseAddress items (insert (mailAsciiLower addr) allowed))"

definition recipientPolicyFromExact :: "addressParser \<Rightarrow> string list \<Rightarrow> goError + mailPolicy" where
  "recipientPolicyFromExact parseAddress recipients =
     (if recipients = [] then Inl (PlainError ''recipient policy cannot be empty'')
      else if recipients = [''*''] then Inr \<lparr>mp_allowAll = True, mp_allowed = {}\<rparr>
      else andThen (exactItems parseAddress recipients {})
             (\<lambda>allowed. Inr \<lparr>mp_allowAll = False, mp_allowed = allowed\<rparr>))"

definition parseMailRecipientPolicy :: "addressParser \<Rightarrow> string \<Rightarrow> goError + mailPolicy" where
  "parseMailRecipientPolicy parseAddress text =
     (let raw = trimSpace text in
      if raw = ''*'' then Inr \<lparr>mp_allowAll = True, mp_allowed = {}\<rparr>
      else if raw = [] then Inl (PlainError ''recipient policy cannot be empty'')
      else recipientPolicyFromExact parseAddress (map trimSpace (splitByte raw CHR '','')))"

definition policyValid :: "mailPolicy \<Rightarrow> bool" where
  "policyValid p \<longleftrightarrow> mp_allowAll p \<or> mp_allowed p \<noteq> {}"

definition policyClone :: "mailPolicy \<Rightarrow> mailPolicy" where
  "policyClone p =
     \<lparr>mp_allowAll = mp_allowAll p,
      mp_allowed = (if mp_allowed p \<noteq> {} then {address. address \<in> mp_allowed p} else {})\<rparr>"

definition mailAllows :: "mailPolicy \<Rightarrow> string \<Rightarrow> bool" where
  "mailAllows p address = (if mp_allowAll p then True else mailAsciiLower address \<in> mp_allowed p)"

section \<open>Mailboxes, search values, identities and flags\<close>

text \<open>
  The loop ranges over runes; a byte of a multi-byte rune or of invalid text is never below
  \<open>0x80\<close>, so the loop over bytes finds the same control characters.
\<close>

definition hasDisallowedControl :: "string \<Rightarrow> bool \<Rightarrow> bool" where
  "hasDisallowedControl value allowTab \<longleftrightarrow>
     list_ex (\<lambda>r. bval r = 0x7F \<or> bval r < 0x20 \<and> (r \<noteq> tab \<or> \<not> allowTab)) value"

definition validateMailbox :: "string \<Rightarrow> goError option" where
  "validateMailbox value =
     (if value = [] then Some (mailValidationError ''mailbox cannot be empty'')
      else if maxMetadataString < length value \<or> \<not> validUTF8 value \<or> hasDisallowedControl value True
      then Some (mailValidationError ''mailbox contains invalid or excessive data'')
      else None)"

definition validateSearchValue :: "string \<Rightarrow> string \<Rightarrow> goError option" where
  "validateSearchValue name value =
     (if maxSearchValue < length value \<or> \<not> validUTF8 value \<or> hasDisallowedControl value False
      then Some (mailValidationError (name @ '' contains invalid or excessive data''))
      else None)"

definition validateIdentity :: "string \<Rightarrow> 32 word \<Rightarrow> 32 word \<Rightarrow> goError option" where
  "validateIdentity mailbox uidValidity uid =
     (case validateMailbox mailbox of
        Some e \<Rightarrow> Some e
      | None \<Rightarrow>
          if uidValidity = 0 then Some (mailValidationError ''uid_validity must be non-zero'')
          else if uid = 0 then Some (mailValidationError ''uid must be non-zero'')
          else None)"

definition flagSeen :: string where "flagSeen = ''seen''"
definition flagFlagged :: string where "flagFlagged = ''flagged''"
definition flagAnswered :: string where "flagAnswered = ''answered''"
definition flagOperationAdd :: string where "flagOperationAdd = ''add''"
definition flagOperationRemove :: string where "flagOperationRemove = ''remove''"

record setFlagsInput =
  sf_mailbox :: string
  sf_uidValidity :: "32 word"
  sf_uid :: "32 word"
  sf_operation :: string
  sf_flags :: "string list"
  sf_expectedModSeq :: "64 word"

fun flagsLoop :: "string list \<Rightarrow> string set \<Rightarrow> goError option" where
  "flagsLoop [] seen = None"
| "flagsLoop (flag # flags) seen =
     (if flag \<noteq> flagSeen \<and> flag \<noteq> flagFlagged \<and> flag \<noteq> flagAnswered
      then Some (mailValidationError ''flags contain an unsupported value'')
      else if flag \<in> seen then Some (mailValidationError ''flags contain a duplicate value'')
      else flagsLoop flags (insert flag seen))"

definition validateFlags :: "setFlagsInput \<Rightarrow> goError option" where
  "validateFlags input =
     (case validateIdentity (sf_mailbox input) (sf_uidValidity input) (sf_uid input) of
        Some e \<Rightarrow> Some e
      | None \<Rightarrow>
          if sf_operation input \<noteq> flagOperationAdd \<and> sf_operation input \<noteq> flagOperationRemove
          then Some (mailValidationError ''operation must be add or remove'')
          else if sf_flags input = [] \<or> 3 < length (sf_flags input)
          then Some (mailValidationError ''flags must contain one or more supported flags'')
          else flagsLoop (sf_flags input) {})"

section \<open>Truncation\<close>

fun dropToValid :: "nat \<Rightarrow> string \<Rightarrow> string" where
  "dropToValid 0 value = []"
| "dropToValid (Suc n) value =
     (if validUTF8 (take (Suc n) value) then take (Suc n) value else dropToValid n value)"

text \<open>
  The loop shortens the text by one byte until it is valid UTF-8; \<open>dropToValid n value\<close> is its state
  with \<open>n\<close> bytes left. The empty text is valid, so it never runs past the start.
\<close>

definition truncateUTF8 :: "string \<Rightarrow> nat \<Rightarrow> string" where
  "truncateUTF8 value mx = (if length value \<le> mx then value else dropToValid mx value)"

section \<open>Message-IDs and reply headers\<close>

definition validMessageID :: "string \<Rightarrow> bool" where
  "validMessageID value \<longleftrightarrow>
     \<not> (length value < 5 \<or> maxSubjectBytes < length value
          \<or> \<not> hasPrefix value ''<'' \<or> \<not> hasSuffix value ''>'')
     \<and> (let inner = butlast (tl value) in
        \<not> (\<not> containsStr inner ''@''
             \<or> containsAny inner [CHR ''<'', CHR ''>'', sp, tab, cr, lf, nul])
        \<and> validUTF8 value)"

fun referencesLoop :: "string list \<Rightarrow> string set \<Rightarrow> goError option" where
  "referencesLoop [] seen = None"
| "referencesLoop (reference # references) seen =
     (if \<not> validMessageID reference
      then Some (mailValidationError ''reply references contain an invalid Message-ID'')
      else if reference \<in> seen
      then Some (mailValidationError ''reply references contain a duplicate Message-ID'')
      else referencesLoop references (insert reference seen))"

definition validateReplyHeaders :: "string \<Rightarrow> string list \<Rightarrow> goError option" where
  "validateReplyHeaders inReplyTo references =
     (case referencesLoop references {} of
        Some e \<Rightarrow> Some e
      | None \<Rightarrow>
          if maxReplyReferences < length references
          then Some (mailValidationError ''reply references exceed the 20-entry limit'')
          else if inReplyTo \<noteq> [] \<and> \<not> validMessageID inReplyTo
          then Some (mailValidationError ''in-reply-to contains an invalid Message-ID'')
          else None)"

fun replyRefsLoop :: "string list \<Rightarrow> string list \<Rightarrow> goError + string list" where
  "replyRefsLoop [] references = Inr references"
| "replyRefsLoop (raw # rest) references =
     (let reference = trimSpace raw in
      if reference = [] \<or> reference \<in> set references then replyRefsLoop rest references
      else if \<not> validMessageID reference
      then Inl (mailValidationError ''source message has an invalid References header'')
      else if maxReplyReferences < length references + 1
      then Inl (mailValidationError ''source message References exceeds the 20-entry limit'')
      else replyRefsLoop rest (references @ [reference]))"

text \<open>The map \<open>seen\<close> of the source holds the references collected so far.\<close>

definition replyReferences :: "string list \<Rightarrow> string \<Rightarrow> goError + string list" where
  "replyReferences existing messageID = replyRefsLoop (existing @ [messageID]) []"

section \<open>Idempotency keys\<close>

definition validateSendIdempotencyKey :: "string \<Rightarrow> goError option" where
  "validateSendIdempotencyKey key =
     (if key = [] then None
      else if maxSendIdempotencyKey < length key
      then Some (mailValidationError ''idempotency_key exceeds its byte limit'')
      else if containsAny key [cr, lf, nul]
      then Some (mailValidationError ''idempotency_key must not contain CR, LF, or NUL'')
      else None)"

section \<open>What the validators establish\<close>

lemma validateAddrSpec_Some:
  assumes "validateAddrSpec parse value = Some a"
  shows "a = value" "value \<noteq> []" "trimSpace value = value" "\<not> containsAny value [nul, cr, lf]"
    "validUTF8 value" "containsStr value ''@''" "length value \<le> 320"
  using assms by (auto simp: validateAddrSpec_def split: if_splits option.splits)

lemma exactItems_Inr:
  "exactItems parse items allowed = Inr allowed' \<Longrightarrow>
     allowed' = allowed \<union> (\<lambda>r. mailAsciiLower (trimSpace r)) ` set items"
proof (induction items arbitrary: allowed)
  case (Cons raw items)
  then show ?case
    by (auto simp: Let_def dest: validateAddrSpec_Some split: if_splits option.splits)
qed simp

lemma policyFromExact_cases:
  assumes "recipientPolicyFromExact parse recipients = Inr p"
  shows "recipients = [''*''] \<and> p = \<lparr>mp_allowAll = True, mp_allowed = {}\<rparr>
       \<or> recipients \<noteq> [] \<and> p = \<lparr>mp_allowAll = False,
            mp_allowed = (\<lambda>r. mailAsciiLower (trimSpace r)) ` set recipients\<rparr>"
  using assms
  by (auto simp: recipientPolicyFromExact_def andThen_Inr dest!: exactItems_Inr split: if_splits)

lemma policyFromExact_valid: "recipientPolicyFromExact parse recipients = Inr p \<Longrightarrow> policyValid p"
  by (auto dest!: policyFromExact_cases simp: policyValid_def)

lemma policyClone_id [simp]: "policyClone p = p"
  by (simp add: policyClone_def)

lemma flagsLoop_None:
  "flagsLoop flags seen = None \<longleftrightarrow>
     distinct flags \<and> set flags \<inter> seen = {} \<and> set flags \<subseteq> {flagSeen, flagFlagged, flagAnswered}"
  by (induction flags arbitrary: seen) auto

lemma referencesLoop_None:
  "referencesLoop references seen = None \<longleftrightarrow>
     distinct references \<and> set references \<inter> seen = {} \<and> list_all validMessageID references"
  by (induction references arbitrary: seen) auto

lemma validateReplyHeaders_None:
  "validateReplyHeaders inReplyTo references = None \<longleftrightarrow>
     distinct references \<and> list_all validMessageID references
     \<and> length references \<le> maxReplyReferences \<and> (inReplyTo = [] \<or> validMessageID inReplyTo)"
  using referencesLoop_None [of references "{}"]
  by (auto simp: validateReplyHeaders_def split: option.splits)

lemma replyRefsLoop_Inr:
  "replyRefsLoop items references = Inr out \<Longrightarrow>
     distinct references \<Longrightarrow> list_all validMessageID references \<Longrightarrow>
     length references \<le> maxReplyReferences \<Longrightarrow>
     distinct out \<and> list_all validMessageID out \<and> length out \<le> maxReplyReferences
     \<and> set out = set references \<union> (trimSpace ` set items - {[]})"
proof (induction items arbitrary: references)
  case (Cons raw rest)
  let ?r = "trimSpace raw"
  show ?case
  proof (cases "?r = [] \<or> ?r \<in> set references")
    case True
    with Cons.prems have "replyRefsLoop rest references = Inr out" by (auto simp: Let_def)
    with Cons.IH Cons.prems(2-4) True show ?thesis by auto
  next
    case False
    with Cons.prems have "replyRefsLoop rest (references @ [?r]) = Inr out" "validMessageID ?r"
      "length (references @ [?r]) \<le> maxReplyReferences"
      by (auto simp: Let_def split: if_splits)
    moreover from False Cons.prems have "distinct (references @ [?r])" by simp
    ultimately show ?thesis using Cons.IH [of "references @ [?r]"] Cons.prems(3) False by auto
  qed
qed auto

lemma replyReferences_valid:
  assumes "replyReferences existing messageID = Inr out" and "validMessageID messageID"
  shows "validateReplyHeaders messageID out = None"
    "set out = trimSpace ` insert messageID (set existing) - {[]}"
  using assms replyRefsLoop_Inr [of "existing @ [messageID]" "[]" out]
  by (auto simp: replyReferences_def validateReplyHeaders_None)

lemma validMessageID_shape:
  assumes "validMessageID value"
  shows "\<exists>inner. value = CHR ''<'' # inner @ [CHR ''>''] \<and> containsStr inner ''@''
           \<and> \<not> containsAny inner [CHR ''<'', CHR ''>'', sp, tab, cr, lf, nul]"
proof -
  from assms have l: "5 \<le> length value" "hasPrefix value ''<''" "hasSuffix value ''>''"
    and i: "containsStr (butlast (tl value)) ''@''"
      "\<not> containsAny (butlast (tl value)) [CHR ''<'', CHR ''>'', sp, tab, cr, lf, nul]"
    by (auto simp: validMessageID_def Let_def)
  from l(2) obtain t where t: "value = CHR ''<'' # t" by (auto simp: hasPrefix_iff)
  with l(1) have "t \<noteq> []" by auto
  moreover from l(3) have "last value = CHR ''>''" by (auto simp: hasSuffix_iff)
  ultimately have "t = butlast t @ [CHR ''>'']" using t by (metis append_butlast_last_id last_ConsR)
  with t i show ?thesis by (metis list.sel(3))
qed

lemma validMessageID_clean: "validMessageID value \<Longrightarrow> \<not> containsAny value [sp, tab, cr, lf, nul]"
  by (auto dest!: validMessageID_shape simp: containsAny_iff)

section \<open>Truncation keeps the longest valid prefix\<close>

lemma validUTF8_Nil [simp]: "validUTF8 []"
  by (subst validUTF8.simps) simp

lemma dropToValid_props:
  "n \<le> length value \<Longrightarrow>
     \<exists>k \<le> n. dropToValid n value = take k value \<and> validUTF8 (take k value)
       \<and> (\<forall>j \<le> n. validUTF8 (take j value) \<longrightarrow> j \<le> k)"
proof (induction n)
  case (Suc n)
  show ?case
  proof (cases "validUTF8 (take (Suc n) value)")
    case True
    then show ?thesis by (intro exI [of _ "Suc n"]) auto
  next
    case False
    moreover from Suc obtain k where "k \<le> n" "dropToValid n value = take k value"
      "validUTF8 (take k value)" "\<forall>j \<le> n. validUTF8 (take j value) \<longrightarrow> j \<le> k"
      by auto
    ultimately show ?thesis by (intro exI [of _ k]) (auto simp: le_Suc_eq)
  qed
qed simp

lemma truncateUTF8_props:
  "\<exists>k \<le> length value. truncateUTF8 value mx = take k value \<and> length (truncateUTF8 value mx) \<le> mx
     \<and> (validUTF8 value \<or> mx < length value \<longrightarrow> validUTF8 (truncateUTF8 value mx))
     \<and> (\<forall>j \<le> min mx (length value). validUTF8 (take j value) \<longrightarrow> j \<le> k)"
proof (cases "length value \<le> mx")
  case True
  then show ?thesis by (intro exI [of _ "length value"]) (auto simp: truncateUTF8_def)
next
  case False
  then obtain k where "k \<le> mx" "dropToValid mx value = take k value" "validUTF8 (take k value)"
      "\<forall>j \<le> mx. validUTF8 (take j value) \<longrightarrow> j \<le> k"
    using dropToValid_props [of mx "value"] by auto
  with False show ?thesis by (intro exI [of _ k]) (auto simp: truncateUTF8_def)
qed

lemma truncateUTF8_length: "length (truncateUTF8 value mx) \<le> mx"
  using truncateUTF8_props [of "value" mx] by blast

lemma truncateUTF8_set: "set (truncateUTF8 value mx) \<subseteq> set value"
  using truncateUTF8_props [of "value" mx] set_take_subset by metis

end
