(* ===== verification/Contact_Model.thy ===== *)
theory Contact_Model
  imports Contact_Card Mail_Validation
begin

text \<open>
  The projection of a vCard to the contact model (\<open>internal/contacts/vcard.go\<close>, from
  \<open>preferredFormattedName\<close> to \<open>firstComponent\<close>), the local filter of a search (\<open>contactMatches\<close> in
  \<open>operations.go\<close>) and new identifiers (\<open>uuidV4\<close>). The accessors of the go-vcard package and
  \<open>strings.ToLower\<close> are a record of functions.
\<close>

section \<open>Accessors\<close>

text \<open>
  \<open>ca_values\<close> is \<open>card.Values\<close>, \<open>ca_kind\<close> is \<open>card.Kind\<close>, \<open>ca_param\<close> and \<open>ca_hasType\<close> are \<open>Params.Get\<close>
  and \<open>Params.HasType\<close>, \<open>ca_types\<close> is \<open>Params.Types\<close>, and \<open>ca_address\<close> is \<open>Address\<close> on a card that has
  only the field.
\<close>

record cardAccess =
  ca_lower :: "string \<Rightarrow> string"
  ca_values :: "card \<Rightarrow> string \<Rightarrow> string list"
  ca_kind :: "card \<Rightarrow> string"
  ca_param :: "vfield \<Rightarrow> string \<Rightarrow> string"
  ca_hasType :: "vfield \<Rightarrow> string \<Rightarrow> bool"
  ca_types :: "vfield \<Rightarrow> string list"
  ca_address :: "vfield \<Rightarrow> postalAddress option"

record contact = contactSummary +
  ct_version :: string
  ct_name :: "structuredName option"
  ct_title :: string
  ct_nickname :: string
  ct_birthday :: string
  ct_addresses :: "postalAddress list"
  ct_urls :: "typedValue list"
  ct_notes :: string
  ct_hasPhoto :: bool
  ct_unsupportedFields :: "string list"

section \<open>Helpers\<close>

definition contactTruncate :: "string \<Rightarrow> nat \<Rightarrow> string" where
  "contactTruncate value mx = (if length value \<le> mx then value else dropToValid mx value)"

definition firstComponent :: "string \<Rightarrow> string" where
  "firstComponent value = (case indexByte value CHR '';'' of Some i \<Rightarrow> take i value | None \<Rightarrow> value)"

definition readableETag :: "string \<Rightarrow> string" where
  "readableETag etag = (case validateServerETag etag of Inr _ \<Rightarrow> trimSpace etag | Inl _ \<Rightarrow> [])"

definition appleGroupField :: string where "appleGroupField = ''X-ADDRESSBOOKSERVER-KIND''"

definition cardIsGroup :: "vcardLib \<Rightarrow> cardAccess \<Rightarrow> card \<Rightarrow> bool" where
  "cardIsGroup lib acc c \<longleftrightarrow>
     ca_kind acc c = ''group'' \<or> equalFold (trimSpace (vl_value lib c appleGroupField)) ''group''"

definition normalizeForSort :: "cardAccess \<Rightarrow> string \<Rightarrow> string" where
  "normalizeForSort acc value = ca_lower acc (trimSpace value)"

text \<open>The loop over the FN alternatives carries the selection and its preference.\<close>

definition fieldPreference :: "cardAccess \<Rightarrow> vfield \<Rightarrow> int" where
  "fieldPreference acc f =
     (let v = ca_param acc f ''PREF'' in
      if v \<noteq> [] then (case parseInt64 v of Some parsed \<Rightarrow> parsed | None \<Rightarrow> 100)
      else if ca_hasType acc f ''pref'' then 1 else 100)"

fun preferredLoop :: "cardAccess \<Rightarrow> vfield list \<Rightarrow> string \<Rightarrow> int \<Rightarrow> string" where
  "preferredLoop acc [] selected selectedPref = selected"
| "preferredLoop acc (f # fs) selected selectedPref =
     (if trimSpace (vf_value f) = [] then preferredLoop acc fs selected selectedPref
      else let pref = fieldPreference acc f in
           if selected = [] \<or> pref < selectedPref then preferredLoop acc fs (vf_value f) pref
           else preferredLoop acc fs selected selectedPref)"

definition preferredFormattedName :: "cardAccess \<Rightarrow> card \<Rightarrow> string" where
  "preferredFormattedName acc c = preferredLoop acc (cardFields c ''FN'') [] 101"

definition valueType :: "cardAccess \<Rightarrow> vfield \<Rightarrow> string" where
  "valueType acc f = (case ca_types acc f of [] \<Rightarrow> [] | t # _ \<Rightarrow> contactTruncate t 64)"

definition modeledTypedValues :: "cardAccess \<Rightarrow> vfield list \<Rightarrow> nat \<Rightarrow> nat \<Rightarrow> typedValue list" where
  "modeledTypedValues acc fs maxCount maxBytes =
     map (\<lambda>f. \<lparr>tv_type = valueType acc f, tv_value = contactTruncate (vf_value f) maxBytes\<rparr>)
       (take maxCount fs)"

definition truncateAddress :: "string \<Rightarrow> postalAddress \<Rightarrow> postalAddress" where
  "truncateAddress ty a =
     \<lparr>pa_type = ty, pa_postOfficeBox = contactTruncate (pa_postOfficeBox a) 500,
      pa_extendedAddress = contactTruncate (pa_extendedAddress a) 500,
      pa_streetAddress = contactTruncate (pa_streetAddress a) 500,
      pa_locality = contactTruncate (pa_locality a) 500, pa_region = contactTruncate (pa_region a) 500,
      pa_postalCode = contactTruncate (pa_postalCode a) 500,
      pa_country = contactTruncate (pa_country a) 500\<rparr>"

definition modeledAddresses :: "cardAccess \<Rightarrow> vfield list \<Rightarrow> postalAddress list" where
  "modeledAddresses acc fs =
     concat (map (\<lambda>f. case ca_address acc f of None \<Rightarrow> [] | Some a \<Rightarrow> [truncateAddress (valueType acc f) a])
       (take 5 fs))"

section \<open>Summary and detail\<close>

definition cardSummary :: "vcardLib \<Rightarrow> cardAccess \<Rightarrow> card \<Rightarrow> string \<Rightarrow> string \<Rightarrow> contactSummary" where
  "cardSummary lib acc c book etag =
     \<lparr>cs_addressBook = book,
      cs_uid = contactTruncate (vl_value lib c ''UID'') 255,
      cs_etag = readableETag etag,
      cs_displayName = contactTruncate (preferredFormattedName acc c) 500,
      cs_organization = contactTruncate (firstComponent (vl_value lib c ''ORG'')) 500,
      cs_emails = modeledTypedValues acc (cardFields c ''EMAIL'') 10 320,
      cs_phones = modeledTypedValues acc (cardFields c ''TEL'') 10 64,
      cs_isGroup = cardIsGroup lib acc c\<rparr>"

definition truncateName :: "structuredName \<Rightarrow> structuredName" where
  "truncateName n =
     \<lparr>sn_familyName = contactTruncate (sn_familyName n) 500, sn_givenName = contactTruncate (sn_givenName n) 500,
      sn_additionalName = contactTruncate (sn_additionalName n) 500,
      sn_honorificPrefix = contactTruncate (sn_honorificPrefix n) 500,
      sn_honorificSuffix = contactTruncate (sn_honorificSuffix n) 500\<rparr>"

definition cardDetail :: "vcardLib \<Rightarrow> cardAccess \<Rightarrow> card \<Rightarrow> string \<Rightarrow> string \<Rightarrow> string \<Rightarrow> contact" where
  "cardDetail lib acc c version book etag =
     (let birthday = vl_value lib c ''BDAY''; good = (validateBirthday birthday = None) in
      contactSummary.extend (cardSummary lib acc c book etag)
        \<lparr>ct_version = version,
         ct_name = map_option truncateName (vl_name lib c),
         ct_title = contactTruncate (vl_value lib c ''TITLE'') 500,
         ct_nickname = contactTruncate (vl_value lib c ''NICKNAME'') 500,
         ct_birthday = (if birthday \<noteq> [] \<and> good then birthday else []),
         ct_addresses = modeledAddresses acc (cardFields c ''ADR''),
         ct_urls = modeledTypedValues acc (cardFields c ''URL'') 5 2048,
         ct_notes = contactTruncate (vl_value lib c ''NOTE'') 4000,
         ct_hasPhoto = (cardFields c ''PHOTO'' \<noteq> []),
         ct_unsupportedFields = (if birthday \<noteq> [] \<and> \<not> good then [''birthday''] else [])\<rparr>)"

section \<open>The local filter\<close>

definition anyContains :: "(string \<Rightarrow> string) \<Rightarrow> string list \<Rightarrow> string \<Rightarrow> bool" where
  "anyContains norm vals needle \<longleftrightarrow> (\<exists>v \<in> set vals. containsStr (norm v) needle)"

definition contactMatches :: "vcardLib \<Rightarrow> cardAccess \<Rightarrow> card \<Rightarrow> searchOptions \<Rightarrow> bool" where
  "contactMatches lib acc c opts =
     (let lower = ca_lower acc; values = ca_values acc c in
      if \<not> so_includeGroups opts \<and> cardIsGroup lib acc c then False
      else if so_query opts \<noteq> []
              \<and> \<not> anyContains lower (values ''FN'' @ values ''N'' @ [vl_value lib c ''ORG''] @ values ''EMAIL''
                    @ values ''TEL'') (lower (so_query opts))
      then False
      else if so_email opts \<noteq> [] \<and> \<not> anyContains lower (values ''EMAIL'') (lower (so_email opts)) then False
      else if so_phone opts \<noteq> []
              \<and> \<not> anyContains normalizePhone (values ''TEL'') (normalizePhone (so_phone opts))
      then False else True)"

section \<open>Identifiers\<close>

text \<open>\<open>None\<close> is a failure of the random source; otherwise it delivers sixteen bytes.\<close>

definition hexBytes :: "bytes \<Rightarrow> string" where
  "hexBytes bs = concat (map (\<lambda>b. [hexDigit lowerHex (bval b div 16), hexDigit lowerHex (bval b)]) bs)"

definition uuidV4 :: "bytes option \<Rightarrow> goError + string" where
  "uuidV4 random =
     (case random of
        None \<Rightarrow> Inl (contactsError codeInternal 0 ''failed to generate a contact identifier'')
      | Some raw \<Rightarrow>
          (let v = raw[6 := char_of (bval (raw ! 6) mod 16 + 64), 8 := char_of (bval (raw ! 8) mod 64 + 128)] in
           Inr (hexBytes (take 4 v) @ ''-'' @ hexBytes (take 2 (drop 4 v)) @ ''-'' @ hexBytes (take 2 (drop 6 v))
                @ ''-'' @ hexBytes (take 2 (drop 8 v)) @ ''-'' @ hexBytes (take 6 (drop 10 v)))))"

section \<open>Properties\<close>

lemma contactTruncate_length: "length (contactTruncate v mx) \<le> mx"
  using truncateUTF8_length [of v mx] by (simp add: contactTruncate_def truncateUTF8_def)

lemma valueType_length: "length (valueType acc f) \<le> 64"
  by (simp add: valueType_def contactTruncate_length split: list.split)

lemma modeledTypedValues_bounded:
  "length (modeledTypedValues acc fs n b) \<le> n"
  "tv \<in> set (modeledTypedValues acc fs n b) \<Longrightarrow> length (tv_type tv) \<le> 64 \<and> length (tv_value tv) \<le> b"
  by (auto simp: modeledTypedValues_def contactTruncate_length valueType_length)

text \<open>Every text of a summary has a fixed bound, whatever the server stored.\<close>

lemma cardSummary_bounded:
  "length (cs_uid (cardSummary lib acc c book etag)) \<le> 255"
  "length (cs_displayName (cardSummary lib acc c book etag)) \<le> 500"
  "length (cs_organization (cardSummary lib acc c book etag)) \<le> 500"
  "length (cs_emails (cardSummary lib acc c book etag)) \<le> 10"
  "length (cs_phones (cardSummary lib acc c book etag)) \<le> 10"
  by (simp_all add: cardSummary_def contactTruncate_length modeledTypedValues_bounded)

lemma preferredLoop_source:
  "preferredLoop acc fs selected p = selected
   \<or> (\<exists>f \<in> set fs. trimSpace (vf_value f) \<noteq> [] \<and> preferredLoop acc fs selected p = vf_value f)"
  by (induction acc fs selected p rule: preferredLoop.induct) (auto simp: Let_def)

text \<open>The identifier is a version 4 UUID of the variant 10: 36 bytes of lower-case hexadecimal and dashes.\<close>

lemma length_hexBytes: "length (hexBytes bs) = 2 * length bs"
  by (induction bs) (simp_all add: hexBytes_def)

lemma uuidV4_shape:
  assumes "uuidV4 (Some raw) = Inr u" and "length raw = 16"
  shows "length u = 36" "u ! 14 = CHR ''4''" "set u \<subseteq> set lowerHex \<union> {CHR ''-''}"
proof -
  let ?v = "raw[6 := char_of (bval (raw ! 6) mod 16 + 64), 8 := char_of (bval (raw ! 8) mod 64 + 128)]"
  have u: "u = hexBytes (take 4 ?v) @ ''-'' @ hexBytes (take 2 (drop 4 ?v)) @ ''-'' @ hexBytes (take 2 (drop 6 ?v))
      @ ''-'' @ hexBytes (take 2 (drop 8 ?v)) @ ''-'' @ hexBytes (take 6 (drop 10 ?v))"
    using assms(1) by (simp add: uuidV4_def Let_def)
  then show "length u = 36" using assms(2) by (simp add: length_hexBytes)
  have hex: "set (hexBytes bs) \<subseteq> set lowerHex" for bs
    using hexDigit_in [OF length_hexes(2)] by (auto simp: hexBytes_def)
  show "set u \<subseteq> set lowerHex \<union> {CHR ''-''}" unfolding u using hex by fastforce
  have six: "drop 6 ?v = ?v ! 6 # drop 7 ?v"
    using assms(2) Cons_nth_drop_Suc [of 6 ?v] by simp
  have b: "bval (?v ! 6) = bval (raw ! 6) mod 16 + 64"
    using assms(2) by (simp add: bval_def)
  have "(bval (raw ! 6) mod 16 + 64) div 16 = 4" by simp
  then have "hexBytes (take 2 (drop 6 ?v)) ! 0 = CHR ''4''"
    unfolding six using b by (simp add: hexBytes_def hexDigit_def lowerHex_def)
  moreover have "u ! 14 = hexBytes (take 2 (drop 6 ?v)) ! 0"
    unfolding u using assms(2) by (simp add: nth_append length_hexBytes)
  ultimately show "u ! 14 = CHR ''4''" by simp
qed

end
