(* ===== verification/Contact_Discovery.thy ===== *)
theory Contact_Discovery
  imports Contact_Dav Contact_Model
begin

text \<open>
  Discovery (\<open>internal/contacts/discovery.go\<close>): from the base URL to the principal, its home sets and
  their address books, all validated before anything is cached; the selection of a book and
  \<open>ListAddressBooks\<close>. An operation maps a state to an outcome and a state; for those of the client the
  state is the client with the world. The interleaving of concurrent callers of \<open>discover\<close> is a step
  relation at the end.
\<close>

section \<open>State and library\<close>

record bookRecord =
  br_public :: addressBook
  br_url :: url

record discoveryState =
  ds_books :: "bookRecord list"
  ds_byID :: "(string \<times> bookRecord) list"
  ds_homes :: "url list"

record contactsClient =
  cl_baseURL :: string
  cl_state :: "discoveryState option"
  cl_discovering :: bool

text \<open>
  \<open>kl_booksFit\<close>, \<open>kl_resultFits\<close> and \<open>kl_contactFits\<close> are \<open>resultFits\<close> on the three types it is used at:
  whether the JSON text is at most 256 KiB. \<open>kl_mediaType\<close> is \<open>mime.ParseMediaType\<close>. The two orders
  are those in which Go visits the maps of the validators.
\<close>

record contactsLib =
  kl_card :: vcardLib
  kl_access :: cardAccess
  kl_parsers :: contactParsers
  kl_order :: map_order
  kl_patchOrder :: patch_order
  kl_sha256 :: "string \<Rightarrow> string"
  kl_mediaType :: "string \<Rightarrow> string option"
  kl_booksFit :: "addressBook list \<Rightarrow> bool"
  kl_resultFits :: "searchResult \<Rightarrow> bool"
  kl_contactFits :: "contact \<Rightarrow> bool"

definition maxAddressBooks :: nat where "maxAddressBooks = 100"
definition maxPropfindBytes :: int where "maxPropfindBytes = 8388608"

section \<open>Sequencing\<close>

text \<open>
  What a function returns: a value, an error, or nothing because it panics. \<open>thenDo\<close> is Go's
  \<open>if err != nil { return err }\<close> between two calls.
\<close>

datatype 'a outcome = Value 'a | Failed goError | Panicked

type_synonym ('a, 's) contactOp = "'s \<Rightarrow> 'a outcome \<times> 's"

definition thenDo :: "('a, 's) contactOp \<Rightarrow> ('a \<Rightarrow> ('b, 's) contactOp) \<Rightarrow> ('b, 's) contactOp" where
  "thenDo f g s =
     (case f s of
        (Value a, s1) \<Rightarrow> g a s1
      | (Failed err, s1) \<Rightarrow> (Failed err, s1)
      | (Panicked, s1) \<Rightarrow> (Panicked, s1))"

definition giveBack :: "'a outcome \<Rightarrow> ('a, 's) contactOp" where
  "giveBack r s = (r, s)"

definition pureOp :: "goError + 'a \<Rightarrow> ('a, 's) contactOp" where
  "pureOp r = giveBack (case r of Inl err \<Rightarrow> Failed err | Inr a \<Rightarrow> Value a)"

definition checkOp :: "goError option \<Rightarrow> ('a, 's) contactOp \<Rightarrow> ('a, 's) contactOp" where
  "checkOp check f = (case check of Some err \<Rightarrow> giveBack (Failed err) | None \<Rightarrow> f)"

text \<open>A use of a pointer that may be nil.\<close>

definition deref :: "'a option \<Rightarrow> ('a, 's) contactOp" where
  "deref p = giveBack (case p of None \<Rightarrow> Panicked | Some a \<Rightarrow> Value a)"

definition onWorld :: "('a, 'w) contactOp \<Rightarrow> ('a, 'c \<times> 'w) contactOp" where
  "onWorld f s = (case f (snd s) of (out, w') \<Rightarrow> (out, (fst s, w')))"

definition davOp ::
  "'w contactsEnv \<Rightarrow> string \<Rightarrow> url \<Rightarrow> (string \<times> string) list \<Rightarrow> bytes \<Rightarrow> int \<Rightarrow> url option
     \<Rightarrow> (contactsDavResponse, 'w) contactOp" where
  "davOp e meth target headers body cap book w =
     (case doDAV e meth target headers body cap book w of
        (Inl err, w') \<Rightarrow> (Failed err, w') | (Inr resp, w') \<Rightarrow> (Value resp, w'))"

section \<open>Discovery\<close>

definition quoteMark :: string where "quoteMark = [dquote]"

definition xmlContentType :: "string \<times> string" where
  "xmlContentType = (''Content-Type'', ''application/xml; charset='' @ quoteMark @ ''utf-8'' @ quoteMark)"

definition propfindHead :: string where
  "propfindHead = ''<?xml version='' @ quoteMark @ ''1.0'' @ quoteMark @ '' encoding='' @ quoteMark @ ''UTF-8'' @ quoteMark @ ''?>'' @ [lf]
     @ ''<D:propfind xmlns:D='' @ quoteMark @ ''DAV:'' @ quoteMark"

definition principalPropfind :: string where
  "principalPropfind = propfindHead @ ''><D:prop><D:current-user-principal/></D:prop></D:propfind>''"

definition cardNamespaceAttr :: string where
  "cardNamespaceAttr = '' xmlns:C='' @ quoteMark @ ''urn:ietf:params:xml:ns:carddav'' @ quoteMark @ ''>''"

definition homeSetPropfind :: string where
  "homeSetPropfind = propfindHead @ cardNamespaceAttr
     @ ''<D:prop><C:addressbook-home-set/></D:prop></D:propfind>''"

definition addressBooksPropfind :: string where
  "addressBooksPropfind = propfindHead @ cardNamespaceAttr
     @ ''<D:prop><D:resourcetype/><D:displayname/><C:addressbook-description/>''
     @ ''<C:supported-address-data/><C:max-resource-size/></D:prop></D:propfind>''"

record propfindResult =
  pf_rows :: "multiStatusResponse list"
  pf_url :: url
  pf_overflow :: bool

text \<open>
  \<open>classifyDAVError\<close> returns nil for every success status. A PROPFIND answered with a success other
  than 207 therefore returns no result and no error.
\<close>

definition propfind ::
  "'w contactsEnv \<Rightarrow> url \<Rightarrow> string \<Rightarrow> string \<Rightarrow> int \<Rightarrow> (propfindResult option, 'w) contactOp" where
  "propfind e target depth body rowLimit =
     thenDo (davOp e ''PROPFIND'' target [xmlContentType, (''Depth'', depth)] body maxPropfindBytes None)
       (\<lambda>response.
          if cd_status response \<noteq> 207
          then giveBack (case classifyDAVError (cv_xml e) response False of
                           Some err \<Rightarrow> Failed err | None \<Rightarrow> Value None)
          else giveBack (case decodeMultiStatus (cv_xml e (cd_body response)) rowLimit of
                           Inl err \<Rightarrow> Failed err
                         | Inr (rows, overflow) \<Rightarrow>
                             Value (Some \<lparr>pf_rows = rows, pf_url = cd_url response, pf_overflow = overflow\<rparr>)))"

definition sortedVersions :: "addressDataType list \<Rightarrow> string list" where
  "sortedVersions types =
     filter (\<lambda>v. \<exists>t \<in> set types. equalFold (at_contentType t) ''text/vcard'' \<and> at_version t = v) [''3.0'', ''4.0'']"

fun resolveHomes ::
  "'w contactsEnv \<Rightarrow> url \<Rightarrow> string list \<Rightarrow> string set \<Rightarrow> url list \<Rightarrow> goError + url list" where
  "resolveHomes e base [] seen homes = Inr homes"
| "resolveHomes e base (href # hrefs) seen homes =
     (case resolveAndValidate e base href of
        Inl err \<Rightarrow> Inl err
      | Inr home \<Rightarrow>
          if canonicalURL home \<in> seen
          then Inl (contactsError codeProtocolError 0 ''Contacts discovery returned a duplicate home set'')
          else resolveHomes e base hrefs (insert (canonicalURL home) seen) (homes @ [home]))"

text \<open>The record of one address book from its properties.\<close>

definition bookOf :: "contactsLib \<Rightarrow> url \<Rightarrow> davProp \<Rightarrow> goError + bookRecord" where
  "bookOf lib collection prop =
     (let versions = (case dp_supportedAddressData prop of None \<Rightarrow> [] | Some ts \<Rightarrow> sortedVersions ts);
          writeVersion = (if dp_supportedAddressData prop = None \<or> dp_supportedAddressData prop = Some []
                             \<or> ''3.0'' \<in> set versions then ''3.0'' else []);
          size = (if dp_maxResourceSize prop = [] then Some 0
                  else case parseInt64 (trimSpace (dp_maxResourceSize prop)) of
                         None \<Rightarrow> None | Some n \<Rightarrow> if n < 0 then None else Some n)
      in case size of
           None \<Rightarrow> Inl (contactsError codeProtocolError 0 ''Contacts returned an invalid maximum resource size'')
         | Some maxSize \<Rightarrow>
             Inr \<lparr>br_public = \<lparr>ab_identifier = opaqueBookID (kl_sha256 lib) collection,
                    ab_name = contactTruncate (dp_displayName prop) 500,
                    ab_description = contactTruncate (dp_addressBookDescription prop) 4000,
                    ab_supportedVersions = versions, ab_writeVersion = writeVersion,
                    ab_maxResourceSize = maxSize\<rparr>,
                  br_url = collection\<rparr>)"

fun bookRows ::
  "'w contactsEnv \<Rightarrow> contactsLib \<Rightarrow> url \<Rightarrow> url \<Rightarrow> multiStatusResponse list \<Rightarrow> string set \<Rightarrow> discoveryState
     \<Rightarrow> goError + string set \<times> discoveryState" where
  "bookRows e lib home base [] seen st = Inr (seen, st)"
| "bookRows e lib home base (row # rows) seen st =
     (case successfulProp row of
        None \<Rightarrow> bookRows e lib home base rows seen st
      | Some prop \<Rightarrow>
          if dp_resourceType prop \<noteq> Some True then bookRows e lib home base rows seen st
          else
            (case resolveAndValidate e base (ms_href row) of
               Inl err \<Rightarrow> Inl err
             | Inr collection \<Rightarrow>
                 if \<not> urlWithin collection home True
                 then Inl (contactsError codeProtocolError 0
                        ''Contacts discovery returned an address book outside its home set'')
                 else if canonicalURL collection \<in> seen
                 then Inl (contactsError codeProtocolError 0 ''Contacts discovery returned a duplicate address book'')
                 else if maxAddressBooks \<le> length (ds_books st)
                 then Inl (contactsError codePayloadTooLarge 0 ''Contacts discovery exceeded the address-book limit'')
                 else
                   (case bookOf lib collection prop of
                      Inl err \<Rightarrow> Inl err
                    | Inr record \<Rightarrow>
                        (let ident = ab_identifier (br_public record) in
                         if map_of (ds_byID st) ident \<noteq> None
                         then Inl (contactsError codeProtocolError 0 ''Contacts address-book identifier collision'')
                         else bookRows e lib home base rows (insert (canonicalURL collection) seen)
                                (st\<lparr>ds_books := ds_books st @ [record],
                                    ds_byID := AList.update ident record (ds_byID st)\<rparr>)))))"

fun homesLoop ::
  "'w contactsEnv \<Rightarrow> contactsLib \<Rightarrow> url list \<Rightarrow> string set \<Rightarrow> discoveryState \<Rightarrow> (discoveryState, 'w) contactOp" where
  "homesLoop e lib [] seen st = giveBack (Value st)"
| "homesLoop e lib (home # homes) seen st =
     thenDo (thenDo (propfind e home ''1'' addressBooksPropfind
                       (int maxAddressBooks - int (length (ds_books st)) + 2)) deref)
       (\<lambda>response.
          thenDo (pureOp (bookRows e lib home (pf_url response) (pf_rows response) seen st))
            (\<lambda>(seen', st').
               if pf_overflow response
               then giveBack (Failed (contactsError codePayloadTooLarge 0
                       ''Contacts discovery exceeded the address-book limit''))
               else homesLoop e lib homes seen' st'))"

definition sortBooks :: "'w contactsEnv \<Rightarrow> bookRecord list \<Rightarrow> bookRecord list" where
  "sortBooks e books =
     sort_key (\<lambda>b. (cv_lower e (ab_name (br_public b)), ab_identifier (br_public b))) books"

definition discoverBooks ::
  "'w contactsEnv \<Rightarrow> contactsLib \<Rightarrow> propfindResult \<Rightarrow> (discoveryState, 'w) contactOp" where
  "discoverBooks e lib homeResponse =
     (let hrefs = propertyHrefs (pf_rows homeResponse) dp_addressBookHomeSet in
      if pf_overflow homeResponse
      then giveBack (Failed (contactsError codeProtocolError 0 ''Contacts discovery returned too many home-set responses''))
      else if hrefs = []
      then giveBack (Failed (contactsError codeNotFound 404 ''Contacts discovery returned no address-book home set''))
      else if maxAddressBooks < length hrefs
      then giveBack (Failed (contactsError codePayloadTooLarge 0 ''Contacts discovery returned too many home sets''))
      else
        thenDo (pureOp (resolveHomes e (pf_url homeResponse) hrefs {} []))
          (\<lambda>homes.
             thenDo (homesLoop e lib homes {} \<lparr>ds_books = [], ds_byID = [], ds_homes = homes\<rparr>)
               (\<lambda>st. giveBack (Value (st\<lparr>ds_books := sortBooks e (ds_books st)\<rparr>)))))"

definition runDiscovery :: "'w contactsEnv \<Rightarrow> contactsLib \<Rightarrow> string \<Rightarrow> (discoveryState, 'w) contactOp" where
  "runDiscovery e lib baseURL =
     (case cv_parse e baseURL of
        None \<Rightarrow> giveBack (Failed (contactsError codeValidation 0 ''Contacts base URL is invalid''))
      | Some parsed \<Rightarrow>
          if u_escapedPath parsed = [] \<and> u_host parsed = []
          then giveBack (Failed (contactsError codeValidation 0 ''Contacts base URL is invalid''))
          else
            (let entry = (if u_escapedPath parsed = [] then parsed\<lparr>u_escapedPath := ''/''\<rparr> else parsed) in
             checkOp (validURL e entry)
               (thenDo (thenDo (propfind e entry ''0'' principalPropfind 4) deref)
                 (\<lambda>principalResponse.
                    if pf_overflow principalResponse
                    then giveBack (Failed (contactsError codeProtocolError 0
                           ''Contacts discovery returned too many principal responses''))
                    else
                      (case propertyHrefs (pf_rows principalResponse) dp_currentUserPrincipal of
                         [href] \<Rightarrow>
                           thenDo (pureOp (resolveAndValidate e (pf_url principalResponse) href))
                             (\<lambda>principal.
                                thenDo (thenDo (propfind e principal ''0'' homeSetPropfind 4) deref)
                                  (discoverBooks e lib))
                       | _ \<Rightarrow> giveBack (Failed (contactsError codeProtocolError 0
                           ''Contacts discovery did not return exactly one current-user-principal'')))))))"

text \<open>
  \<open>discover\<close>, for a caller that runs alone. \<open>cl_discovering\<close> says whether the channel of an attempt is
  set; alone, a caller that finds it set waits until its context ends. A panic leaves the channel set.
\<close>

definition discover ::
  "'w contactsEnv \<Rightarrow> contactsLib \<Rightarrow> (unit, contactsClient \<times> 'w) contactOp" where
  "discover e lib s =
     (let c = fst s; w = snd s in
      if cl_state c \<noteq> None then (Value (), s)
      else if cl_discovering c
      then (Failed (contactsError codeTimeout 0 ''Contacts discovery was canceled while waiting''), s)
      else
        (case runDiscovery e lib (cl_baseURL c) (cv_withTimeout e w) of
           (Panicked, w1) \<Rightarrow> (Panicked, (c\<lparr>cl_discovering := True\<rparr>, w1))
         | (Failed err, w1) \<Rightarrow> (Failed err, (c, cv_cancelTimeout e w1))
         | (Value st, w1) \<Rightarrow> (Value (), (c\<lparr>cl_state := Some st\<rparr>, cv_cancelTimeout e w1))))"

definition bookByID ::
  "'w contactsEnv \<Rightarrow> contactsLib \<Rightarrow> string \<Rightarrow> (bookRecord, contactsClient \<times> 'w) contactOp" where
  "bookByID e lib ident =
     checkOp (validateAddressBookID ident)
       (thenDo (discover e lib)
         (\<lambda>_ s. case cl_state (fst s) of
                  None \<Rightarrow> (Panicked, s)
                | Some st \<Rightarrow>
                    (case map_of (ds_byID st) ident of
                       None \<Rightarrow> (Failed (contactsValidationError
                                  ''address_book is not a discovered address book identifier''), s)
                     | Some record \<Rightarrow> (Value record, s))))"

definition listAddressBooks ::
  "'w contactsEnv \<Rightarrow> contactsLib \<Rightarrow> (addressBook list, contactsClient \<times> 'w) contactOp" where
  "listAddressBooks e lib =
     thenDo (discover e lib)
       (\<lambda>_ s. case cl_state (fst s) of
                None \<Rightarrow> (Panicked, s)
              | Some st \<Rightarrow>
                  (let books = map br_public (ds_books st) in
                   if kl_booksFit lib books then (Value books, s)
                   else (Failed (contactsError codePayloadTooLarge 0
                           ''address-book metadata exceeds the result limit''), s)))"

section \<open>What discovery caches\<close>

lemma thenDo_Value:
  "thenDo f g s = (Value b, s') \<longleftrightarrow> (\<exists>a s1. f s = (Value a, s1) \<and> g a s1 = (Value b, s'))"
  by (auto simp: thenDo_def split: prod.splits outcome.splits)

lemma giveBack_eq [simp]: "giveBack r s = (out, s') \<longleftrightarrow> out = r \<and> s' = s"
  by (auto simp: giveBack_def)

lemma pureOp_Value [simp]: "pureOp r s = (Value a, s') \<longleftrightarrow> r = Inr a \<and> s' = s"
  by (auto simp: pureOp_def split: sum.splits)

lemma checkOp_Value [simp]: "checkOp check f s = (Value a, s') \<longleftrightarrow> check = None \<and> f s = (Value a, s')"
  by (auto simp: checkOp_def split: option.splits)

lemma deref_Value [simp]: "deref p s = (Value a, s') \<longleftrightarrow> p = Some a \<and> s' = s"
  by (auto simp: deref_def split: option.splits)

lemmas op_Value = thenDo_Value giveBack_eq pureOp_Value checkOp_Value deref_Value

lemma resolveAndValidate_valid: "resolveAndValidate e base href = Inr u \<Longrightarrow> validURL e u = None"
  by (auto simp: resolveAndValidate_def Let_def split: if_splits option.splits)

lemma resolveHomes_valid:
  "resolveHomes e base hrefs seen homes = Inr out \<Longrightarrow> \<forall>h \<in> set homes. validURL e h = None
     \<Longrightarrow> \<forall>h \<in> set out. validURL e h = None"
  by (induction e base hrefs seen homes rule: resolveHomes.induct)
    (auto split: sum.splits if_splits dest: resolveAndValidate_valid)

text \<open>The invariant of a discovery under way.\<close>

definition booksOk :: "'w contactsEnv \<Rightarrow> contactsLib \<Rightarrow> discoveryState \<Rightarrow> bool" where
  "booksOk e lib st \<longleftrightarrow>
     length (ds_books st) \<le> maxAddressBooks
     \<and> (\<forall>h \<in> set (ds_homes st). validURL e h = None)
     \<and> (\<forall>b \<in> set (ds_books st). validURL e (br_url b) = None
          \<and> ab_identifier (br_public b) = opaqueBookID (kl_sha256 lib) (br_url b)
          \<and> (\<exists>home \<in> set (ds_homes st). urlWithin (br_url b) home True))
     \<and> (\<forall>ident b. map_of (ds_byID st) ident = Some b \<longleftrightarrow>
          b \<in> set (ds_books st) \<and> ab_identifier (br_public b) = ident)"

lemma bookOf_url:
  assumes "bookOf lib collection prop = Inr bk"
  shows "br_url bk = collection" "ab_identifier (br_public bk) = opaqueBookID (kl_sha256 lib) collection"
  using assms by (auto simp: bookOf_def Let_def split: option.splits)

text \<open>Adding one book, where all the checks passed.\<close>

lemma booksOk_add:
  assumes "booksOk e lib st" and "home \<in> set (ds_homes st)" and "validURL e (br_url bk) = None"
    and "urlWithin (br_url bk) home True" and "length (ds_books st) < maxAddressBooks"
    and "map_of (ds_byID st) (ab_identifier (br_public bk)) = None"
    and "ab_identifier (br_public bk) = opaqueBookID (kl_sha256 lib) (br_url bk)"
  shows "booksOk e lib (st\<lparr>ds_books := ds_books st @ [bk],
    ds_byID := AList.update (ab_identifier (br_public bk)) bk (ds_byID st)\<rparr>)"
proof -
  have "ab_identifier (br_public b) \<noteq> ab_identifier (br_public bk)" if "b \<in> set (ds_books st)" for b
  proof -
    from assms(1) that have "map_of (ds_byID st) (ab_identifier (br_public b)) = Some b"
      by (simp add: booksOk_def)
    with assms(6) show ?thesis by auto
  qed
  then show ?thesis using assms by (auto simp: booksOk_def AList.update_conv')
qed

lemma bookRows_ok:
  assumes "bookRows e lib home base rows seen st = Inr (seen', st')"
    and "booksOk e lib st" and "home \<in> set (ds_homes st)"
  shows "booksOk e lib st' \<and> ds_homes st' = ds_homes st"
  using assms
proof (induction e lib home base rows seen st rule: bookRows.induct)
  case (2 e lib home base row rows seen st)
  show ?case
  proof (cases "\<exists>pr. successfulProp row = Some pr \<and> dp_resourceType pr = Some True")
    case False
    with 2 show ?thesis by (auto split: option.splits if_splits)
  next
    case True
    then obtain pr where p: "successfulProp row = Some pr" "dp_resourceType pr = Some True" by blast
    from "2.prems"(1) p obtain collection bk where
      c: "resolveAndValidate e base (ms_href row) = Inr collection" "urlWithin collection home True"
        "canonicalURL collection \<notin> seen" "length (ds_books st) < maxAddressBooks"
      and r: "bookOf lib collection pr = Inr bk"
        "map_of (ds_byID st) (ab_identifier (br_public bk)) = None"
      and more: "bookRows e lib home base rows (insert (canonicalURL collection) seen)
          (st\<lparr>ds_books := ds_books st @ [bk],
              ds_byID := AList.update (ab_identifier (br_public bk)) bk (ds_byID st)\<rparr>) = Inr (seen', st')"
      by (auto simp: Let_def not_le split: sum.splits if_splits)
    have "booksOk e lib (st\<lparr>ds_books := ds_books st @ [bk],
        ds_byID := AList.update (ab_identifier (br_public bk)) bk (ds_byID st)\<rparr>)"
      by (rule booksOk_add [OF "2.prems"(2,3)])
        (use c r resolveAndValidate_valid [OF c(1)] bookOf_url [OF r(1)] in simp_all)
    with "2.IH"(3) [OF p(1) _ c(1) _ c(3) _ r(1) refl _ more] p c r "2.prems"(3) show ?thesis by simp
  qed
qed simp

lemma homesLoop_ok:
  assumes "homesLoop e lib homes seen st w = (Value st', w')" and "booksOk e lib st"
    and "set homes \<subseteq> set (ds_homes st)"
  shows "booksOk e lib st' \<and> ds_homes st' = ds_homes st"
  using assms
proof (induction homes arbitrary: seen st w)
  case (Cons home homes)
  from Cons.prems(1) obtain response :: propfindResult and w1 seen1 st1 where
    rows: "bookRows e lib home (pf_url response) (pf_rows response) seen st = Inr (seen1, st1)"
    and more: "homesLoop e lib homes seen1 st1 w1 = (Value st', w')"
    by (auto simp: op_Value split: if_splits)
  from bookRows_ok [OF rows Cons.prems(2)] Cons.prems(3) have "booksOk e lib st1" "ds_homes st1 = ds_homes st"
    by simp_all
  with Cons.IH [OF more] Cons.prems(3) show ?case by simp
qed (simp add: op_Value)

lemma runDiscovery_ok:
  assumes "runDiscovery e lib baseURL w = (Value st, w')"
  shows "booksOk e lib st"
proof -
  have sorted: "booksOk e lib (st1\<lparr>ds_books := sortBooks e (ds_books st1)\<rparr>) \<longleftrightarrow> booksOk e lib st1" for st1
    by (simp add: booksOk_def sortBooks_def)
  have books: "booksOk e lib st" if "discoverBooks e lib response w1 = (Value st, w')" for response w1
  proof -
    from that obtain homes st1 w2 where
      h: "resolveHomes e (pf_url response) (propertyHrefs (pf_rows response) dp_addressBookHomeSet) {} [] = Inr homes"
      and l: "homesLoop e lib homes {} \<lparr>ds_books = [], ds_byID = [], ds_homes = homes\<rparr> w2 = (Value st1, w')"
      and st: "st = st1\<lparr>ds_books := sortBooks e (ds_books st1)\<rparr>"
      by (auto simp: discoverBooks_def Let_def op_Value split: if_splits)
    have "booksOk e lib \<lparr>ds_books = [], ds_byID = [], ds_homes = homes\<rparr>"
      using resolveHomes_valid [OF h] by (simp add: booksOk_def maxAddressBooks_def)
    with homesLoop_ok [OF l] show ?thesis by (simp add: st sorted)
  qed
  from assms show ?thesis
    by (auto simp: runDiscovery_def Let_def op_Value intro: books
        split: option.splits if_splits list.splits)
qed

lemma discover_Value:
  assumes "discover e lib (c, w) = (Value (), (c', w'))"
  shows "cl_state c' \<noteq> None" "cl_baseURL c' = cl_baseURL c"
    and "cl_state c' = cl_state c \<or> cl_state c = None \<and> (\<exists>st. cl_state c' = Some st \<and> booksOk e lib st)"
  using assms by (auto simp: discover_def Let_def dest: runDiscovery_ok split: if_splits prod.splits outcome.splits)

text \<open>
  C19. Everything discovery caches is confined. After a discovery every address book has an https URL on
  an allowlisted host with a safe path, inside one of the validated home sets of the principal; there
  are at most a hundred books; the identifier of each is the opaque digest of its URL, and the
  identifiers that callers use select exactly the discovered books, each by its own identifier.
\<close>

theorem discovered_books_confined:
  assumes "discover e lib (c, w) = (Value (), (c', w'))" and "cl_state c = None"
  shows "\<exists>st. cl_state c' = Some st \<and> length (ds_books st) \<le> 100
    \<and> (\<forall>b \<in> set (ds_books st). u_scheme (br_url b) = ''https''
         \<and> (\<exists>allowed. cv_allowHost e = Some allowed \<and> allowed (hostname (br_url b)))
         \<and> (\<exists>p. canonicalOpaquePath (br_url b) = Some p \<and> opaqueSafe p)
         \<and> (\<exists>home \<in> set (ds_homes st). validURL e home = None \<and> urlWithin (br_url b) home True)
         \<and> ab_identifier (br_public b) = opaqueBookID (kl_sha256 lib) (br_url b))
    \<and> (\<forall>ident b. map_of (ds_byID st) ident = Some b \<longleftrightarrow>
         b \<in> set (ds_books st) \<and> ab_identifier (br_public b) = ident)"
proof -
  from discover_Value [OF assms(1)] assms(2) obtain st where st: "cl_state c' = Some st" "booksOk e lib st" by auto
  have "u_scheme (br_url b) = ''https''
         \<and> (\<exists>allowed. cv_allowHost e = Some allowed \<and> allowed (hostname (br_url b)))
         \<and> (\<exists>p. canonicalOpaquePath (br_url b) = Some p \<and> opaqueSafe p)
         \<and> (\<exists>home \<in> set (ds_homes st). validURL e home = None \<and> urlWithin (br_url b) home True)"
    if "b \<in> set (ds_books st)" for b
  proof -
    from st(2) that have v: "validURL e (br_url b) = None"
      and home: "\<exists>home \<in> set (ds_homes st). validURL e home = None \<and> urlWithin (br_url b) home True"
      by (auto simp: booksOk_def)
    note u = validateContactsURL_None [OF v]
    from u(7) canonicalOpaquePath_safe show ?thesis using u home by blast
  qed
  with st show ?thesis by (intro exI [of _ st]) (simp add: booksOk_def maxAddressBooks_def)
qed

section \<open>A server for the witnesses\<close>

definition davElem :: "string \<Rightarrow> xmlToken list \<Rightarrow> xmlToken list" where
  "davElem local body = davStart local # body @ [davEnd local]"

definition cardElem :: "string \<Rightarrow> xmlToken list \<Rightarrow> xmlToken list" where
  "cardElem local body = StartElement (carddavNamespace, local) [] # body @ [EndElement (carddavNamespace, local)]"

definition sampleAnswer :: "string \<Rightarrow> xmlToken list \<Rightarrow> xmlToken list" where
  "sampleAnswer href props =
     davElem ''multistatus'' (davElem ''response'' (davElem ''href'' [CharData href]
       @ davElem ''propstat'' (davElem ''status'' [CharData ''HTTP/1.1 200 OK''] @ davElem ''prop'' props)))"

text \<open>The path of the request selects the document; the body is a tag that stands for it.\<close>

definition sampleDocument :: "bytes \<Rightarrow> xmlStream" where
  "sampleDocument body =
     (if body = ''P'' then sampleAnswer ''/'' (davElem ''current-user-principal'' (davElem ''href'' [CharData ''/p/'']))
      else if body = ''H'' then sampleAnswer ''/p/'' (cardElem ''addressbook-home-set'' (davElem ''href'' [CharData ''/h/'']))
      else sampleAnswer ''/h/b/'' (davElem ''resourcetype'' (cardElem ''addressbook'' [])), False)"

definition sampleServer :: "int \<Rightarrow> contactRequest \<Rightarrow> unit \<Rightarrow> (contactHTTPResponse option \<times> bool) \<times> unit" where
  "sampleServer status rq w =
     (let path = u_escapedPath (cq_url rq);
          body = (if path = ''/'' then ''P'' else if path = ''/p/'' then ''H'' else ''B'')
      in ((Some \<lparr>hr_status = status, hr_header = [], hr_request = None, hr_body = Some (body, False)\<rparr>, False), w))"

definition sampleContactsEnv :: "int \<Rightarrow> unit contactsEnv" where
  "sampleContactsEnv status = (contactsEnvOf (sampleServer status))\<lparr>cv_xml := sampleDocument\<rparr>"

definition sampleAccess :: cardAccess where
  "sampleAccess = \<lparr>ca_lower = toLower, ca_values = (\<lambda>c name. map vf_value (cardFields c name)), ca_kind = (\<lambda>_. []),
     ca_param = (\<lambda>_ _. []), ca_hasType = (\<lambda>_ _. False), ca_types = (\<lambda>_. []), ca_address = (\<lambda>_. None)\<rparr>"

definition sampleContactsLib :: contactsLib where
  "sampleContactsLib = \<lparr>kl_card = sampleLib, kl_access = sampleAccess,
     kl_parsers = \<lparr>cp_parseAddress = Some, cp_parseURIScheme = Some\<rparr>, kl_order = (\<lambda>xs. xs), kl_patchOrder = (\<lambda>xs. xs),
     kl_sha256 = (\<lambda>_. replicate 32 CHR ''x''), kl_mediaType = Some, kl_booksFit = (\<lambda>_. True),
     kl_resultFits = (\<lambda>_. True), kl_contactFits = (\<lambda>_. True)\<rparr>"

definition freshClient :: contactsClient where
  "freshClient = \<lparr>cl_baseURL = ''/'', cl_state = None, cl_discovering = False\<rparr>"

theorem discovered_books_confined_witness:
  "\<exists>c st. discover (sampleContactsEnv 207) sampleContactsLib (freshClient, ()) = (Value (), (c, ()))
     \<and> cl_state c = Some st \<and> map br_url (ds_books st) = [sampleContactURL ''/h/b/'']
     \<and> (\<exists>home \<in> set (ds_homes st). urlWithin (sampleContactURL ''/h/b/'') home True)"
proof -
  have "case discover (sampleContactsEnv 207) sampleContactsLib (freshClient, ()) of
      (Value x, (c, w)) \<Rightarrow> map_option (\<lambda>st. map br_url (ds_books st)) (cl_state c) = Some [sampleContactURL ''/h/b/'']
    | _ \<Rightarrow> False"
    by code_simp
  then obtain c st where run: "discover (sampleContactsEnv 207) sampleContactsLib (freshClient, ()) = (Value (), (c, ()))"
    and st: "cl_state c = Some st" "map br_url (ds_books st) = [sampleContactURL ''/h/b/'']"
    by (auto split: prod.splits outcome.splits)
  from st(2) obtain b where "b \<in> set (ds_books st)" "br_url b = sampleContactURL ''/h/b/''" by (cases "ds_books st") auto
  with discovered_books_confined [OF run] st(1)
  have "\<exists>home \<in> set (ds_homes st). urlWithin (sampleContactURL ''/h/b/'') home True"
    by (fastforce simp: freshClient_def)
  with run st show ?thesis by (intro exI [of _ c] exI [of _ st] conjI)
qed

section \<open>Concurrent callers\<close>

text \<open>
  Callers of \<open>discover\<close> are numbered; each is before its critical section, waits on the channel of an
  attempt, runs an attempt, or has returned. Attempts are numbered too, and \<open>dy_closed\<close> are those whose
  channel is closed. A step is one critical section of the source, the end of a wait, or a panic.
\<close>

datatype discoverPhase =
    Entering
  | WaitingFor nat
  | Attempting nat
  | Finished "unit outcome"

record discoverSystem =
  dy_state :: "discoveryState option"
  dy_discovering :: "nat option"
  dy_closed :: "nat set"
  dy_next :: nat
  dy_phase :: "nat \<Rightarrow> discoverPhase"

definition atPhase :: "nat \<Rightarrow> discoverPhase \<Rightarrow> discoverSystem \<Rightarrow> discoverSystem" where
  "atPhase c p y = y\<lparr>dy_phase := (dy_phase y)(c := p)\<rparr>"

inductive discoverStep :: "discoverSystem \<Rightarrow> discoverSystem \<Rightarrow> bool" where
  cached: "dy_phase y c = Entering \<Longrightarrow> dy_state y = Some st \<Longrightarrow> discoverStep y (atPhase c (Finished (Value ())) y)"
| join: "dy_phase y c = Entering \<Longrightarrow> dy_state y = None \<Longrightarrow> dy_discovering y = Some k
     \<Longrightarrow> discoverStep y (atPhase c (WaitingFor k) y)"
| begin_attempt: "dy_phase y c = Entering \<Longrightarrow> dy_state y = None \<Longrightarrow> dy_discovering y = None
     \<Longrightarrow> discoverStep y (atPhase c (Attempting (dy_next y))
           (y\<lparr>dy_discovering := Some (dy_next y), dy_next := Suc (dy_next y)\<rparr>))"
| wake: "dy_phase y c = WaitingFor k \<Longrightarrow> k \<in> dy_closed y \<Longrightarrow> discoverStep y (atPhase c Entering y)"
| give_up: "dy_phase y c = WaitingFor k \<Longrightarrow> discoverStep y (atPhase c (Finished (Failed err)) y)"
| succeed: "dy_phase y c = Attempting k \<Longrightarrow> discoverStep y (atPhase c (Finished (Value ()))
     (y\<lparr>dy_state := Some st, dy_discovering := None, dy_closed := insert k (dy_closed y)\<rparr>))"
| failing: "dy_phase y c = Attempting k \<Longrightarrow> discoverStep y (atPhase c (Finished (Failed err))
     (y\<lparr>dy_discovering := None, dy_closed := insert k (dy_closed y)\<rparr>))"
| panic: "dy_phase y c = Attempting k \<Longrightarrow> discoverStep y (atPhase c (Finished Panicked) y)"

definition discoverStart :: discoverSystem where
  "discoverStart = \<lparr>dy_state = None, dy_discovering = None, dy_closed = {}, dy_next = 0, dy_phase = (\<lambda>_. Entering)\<rparr>"

inductive discoverReachable :: "discoverSystem \<Rightarrow> bool" where
  start: "discoverReachable discoverStart"
| step: "discoverReachable y \<Longrightarrow> discoverStep y z \<Longrightarrow> discoverReachable z"

text \<open>The channel that is set is that of the one attempt under way, unless that attempt panicked.\<close>

definition discoverInv :: "discoverSystem \<Rightarrow> bool" where
  "discoverInv y \<longleftrightarrow>
     (\<forall>k \<in> dy_closed y. k < dy_next y \<and> dy_discovering y \<noteq> Some k)
     \<and> (\<forall>k. dy_discovering y = Some k \<longrightarrow> k < dy_next y \<and> dy_state y = None
          \<and> ((\<exists>c. dy_phase y c = Attempting k) \<or> (\<exists>c. dy_phase y c = Finished Panicked)))
     \<and> (\<forall>c k. dy_phase y c = Attempting k \<longrightarrow> dy_discovering y = Some k)
     \<and> (\<forall>c d k. dy_phase y c = Attempting k \<longrightarrow> dy_phase y d = Attempting k \<longrightarrow> c = d)
     \<and> (\<forall>c k. dy_phase y c = WaitingFor k \<longrightarrow> k \<in> dy_closed y \<or> dy_discovering y = Some k)
     \<and> (\<forall>c. dy_phase y c = Finished (Value ()) \<longrightarrow> dy_state y \<noteq> None)
     \<and> (\<forall>c. dy_phase y c = Finished Panicked \<longrightarrow>
          dy_discovering y \<noteq> None \<and> (\<forall>d k. dy_phase y d \<noteq> Attempting k))"

lemma atPhase_sel [simp]:
  "dy_state (atPhase c p y) = dy_state y" "dy_discovering (atPhase c p y) = dy_discovering y"
  "dy_closed (atPhase c p y) = dy_closed y" "dy_next (atPhase c p y) = dy_next y"
  "dy_phase (atPhase c p y) = (dy_phase y)(c := p)"
  by (simp_all add: atPhase_def)

lemma discoverInvD:
  assumes "discoverInv y"
  shows "j \<in> dy_closed y \<Longrightarrow> j < dy_next y" "j \<in> dy_closed y \<Longrightarrow> dy_discovering y \<noteq> Some j"
    and "dy_phase y c = WaitingFor j \<Longrightarrow> j \<in> dy_closed y \<or> dy_discovering y = Some j"
    and "dy_phase y c = Finished (Value ()) \<Longrightarrow> dy_state y \<noteq> None"
  using assms unfolding discoverInv_def by blast+

lemma discoverInv_attempt:
  assumes "discoverInv y" and "dy_phase y c = Attempting k"
  shows "dy_discovering y = Some k" "dy_phase y d = Attempting j \<Longrightarrow> d = c" "dy_phase y d \<noteq> Finished Panicked"
    "dy_state y = None" "k < dy_next y"
proof -
  show *: "dy_discovering y = Some k" using assms unfolding discoverInv_def by blast
  show "dy_state y = None" "k < dy_next y" using assms * unfolding discoverInv_def by blast+
  show "dy_phase y d \<noteq> Finished Panicked" using assms unfolding discoverInv_def by blast
  show "d = c" if "dy_phase y d = Attempting j"
  proof -
    have "j = k" using assms(1) that * unfolding discoverInv_def by (metis option.inject)
    with that assms show ?thesis unfolding discoverInv_def by blast
  qed
qed

text \<open>The end of an attempt, with its channel closed and the state kept or newly set.\<close>

lemma attempt_ends_inv:
  assumes "discoverInv y" and "dy_phase y c = Attempting k" and "out \<noteq> Panicked"
    and "out = Value () \<longrightarrow> st \<noteq> None"
  shows "discoverInv (atPhase c (Finished out)
    (y\<lparr>dy_state := st, dy_discovering := None, dy_closed := insert k (dy_closed y)\<rparr>))"
proof -
  note a = discoverInv_attempt [OF assms(1,2)]
  have "\<forall>j \<in> dy_closed y. j < dy_next y"
    "\<forall>d j. dy_phase y d = WaitingFor j \<longrightarrow> j \<in> dy_closed y \<or> j = k"
    "\<forall>d. dy_phase y d \<noteq> Finished (Value ())"
    using discoverInvD [OF assms(1)] a(1,4) by (blast, metis option.inject, metis)
  moreover have "\<forall>d j. dy_phase y d = Attempting j \<longrightarrow> d = c" "\<forall>d. dy_phase y d \<noteq> Finished Panicked"
    using a(2,3) by blast+
  moreover note a(5) assms(3,4)
  ultimately show ?thesis
    unfolding discoverInv_def by (intro conjI allI ballI impI) (simp_all split: if_splits, blast+)
qed

text \<open>A step of a caller that neither runs an attempt nor starts one.\<close>

lemma quiet_phase_inv:
  assumes "discoverInv y" and "\<forall>k. dy_phase y c \<noteq> Attempting k" and "dy_phase y c \<noteq> Finished Panicked"
    and "\<forall>k. p \<noteq> Attempting k" and "p \<noteq> Finished Panicked"
    and "\<forall>k. p = WaitingFor k \<longrightarrow> dy_discovering y = Some k"
    and "p = Finished (Value ()) \<longrightarrow> dy_state y \<noteq> None"
  shows "discoverInv (atPhase c p y)"
proof -
  have "(\<exists>d. ((dy_phase y)(c := p)) d = Attempting k) \<longleftrightarrow> (\<exists>d. dy_phase y d = Attempting k)" for k
    using assms(2,4) by (metis fun_upd_apply)
  moreover have "(\<exists>d. ((dy_phase y)(c := p)) d = Finished Panicked) \<longleftrightarrow> (\<exists>d. dy_phase y d = Finished Panicked)"
    using assms(3,5) by (metis fun_upd_apply)
  moreover have "((dy_phase y)(c := p)) d = q \<Longrightarrow> d = c \<and> p = q \<or> dy_phase y d = q" for d q
    by (simp split: if_splits)
  ultimately show ?thesis
    using assms unfolding discoverInv_def atPhase_sel by (intro conjI; metis)
qed

lemma discoverStep_inv: "discoverStep y z \<Longrightarrow> discoverInv y \<Longrightarrow> discoverInv z"
proof (induction rule: discoverStep.induct)
  case (succeed y c k st)
  then show ?case using attempt_ends_inv [of y c k "Value ()" "Some st"] by simp
next
  case (failing y c k err)
  then have "dy_state y = None" by (rule discoverInv_attempt(4) [rotated])
  then have "y\<lparr>dy_state := None, dy_discovering := None, dy_closed := insert k (dy_closed y)\<rparr>
      = y\<lparr>dy_discovering := None, dy_closed := insert k (dy_closed y)\<rparr>" by simp
  then show ?case using failing attempt_ends_inv [of y c k "Failed err" None] by simp
next
  case (panic y c k)
  note a = discoverInv_attempt [OF panic.prems panic.hyps]
  have "\<forall>d j. dy_phase y d = Attempting j \<longrightarrow> d = c" using a(2) by blast
  moreover have "\<forall>j \<in> dy_closed y. j < dy_next y \<and> j \<noteq> k"
    "\<forall>d j. dy_phase y d = WaitingFor j \<longrightarrow> j \<in> dy_closed y \<or> j = k"
    "\<forall>d. dy_phase y d \<noteq> Finished (Value ())"
    using discoverInvD [OF panic.prems] a(1,4) by (metis, metis option.inject, metis)
  moreover note a(1,4,5)
  ultimately show ?case
    unfolding discoverInv_def by (intro conjI allI ballI impI) (auto split: if_splits)
next
  case (begin_attempt y c)
  have "dy_phase y d \<noteq> Attempting j" for d j using begin_attempt discoverInv_attempt(1) by fastforce
  then show ?case using begin_attempt unfolding discoverInv_def by (auto split: if_splits)
qed (auto intro!: quiet_phase_inv)

lemma discoverReachable_inv: "discoverReachable y \<Longrightarrow> discoverInv y"
proof (induction rule: discoverReachable.induct)
  case start
  show ?case by (simp add: discoverStart_def discoverInv_def)
next
  case (step y z)
  then show ?case by (blast intro: discoverStep_inv)
qed

text \<open>A cached state is never replaced.\<close>

lemma cached_state_stable:
  assumes "discoverReachable y" and "discoverStep y z" and "dy_state y = Some st"
  shows "dy_state z = Some st"
  using assms(2,3) discoverInv_attempt(4) [OF discoverReachable_inv [OF assms(1)]]
  by (induction rule: discoverStep.induct) auto

text \<open>
  C20. Discovery is single-flight. In every interleaving of callers at most one attempt runs; a caller
  that waits does so on a channel that is closed, or on one whose attempt is running, unless an attempt
  panicked; a caller that is told of success finds a cached state; and once an attempt has panicked
  nothing is cached and no attempt runs, in every state from then on.
\<close>

theorem discovery_single_flight:
  assumes "discoverReachable y"
  shows "(\<forall>c d j k. dy_phase y c = Attempting j \<longrightarrow> dy_phase y d = Attempting k \<longrightarrow> c = d)
    \<and> (\<forall>c k. dy_phase y c = WaitingFor k \<longrightarrow>
         k \<in> dy_closed y \<or> (\<exists>d. dy_phase y d = Attempting k) \<or> (\<exists>d. dy_phase y d = Finished Panicked))
    \<and> (\<forall>c. dy_phase y c = Finished (Value ()) \<longrightarrow> dy_state y \<noteq> None)
    \<and> (\<forall>c. dy_phase y c = Finished Panicked \<longrightarrow> dy_state y = None \<and> (\<forall>d k. dy_phase y d \<noteq> Attempting k))"
proof -
  note inv = discoverReachable_inv [OF assms]
  have "c = d" if "dy_phase y c = Attempting j" "dy_phase y d = Attempting k" for c d j k
    using discoverInv_attempt(2) [OF inv that(1) that(2)] by simp
  moreover have "k \<in> dy_closed y \<or> (\<exists>d. dy_phase y d = Attempting k) \<or> (\<exists>d. dy_phase y d = Finished Panicked)"
    if "dy_phase y c = WaitingFor k" for c k
    using inv that unfolding discoverInv_def by blast
  moreover have "dy_state y = None \<and> (\<forall>d k. dy_phase y d \<noteq> Attempting k)" if "dy_phase y c = Finished Panicked" for c
    using inv that unfolding discoverInv_def by (metis option.exhaust)
  ultimately show ?thesis using inv unfolding discoverInv_def by blast
qed

text \<open>Two callers: the first runs the attempt, which panics, and the second waits for it.\<close>

definition blockedSystem :: discoverSystem where
  "blockedSystem = \<lparr>dy_state = None, dy_discovering = Some 0, dy_closed = {}, dy_next = 1,
     dy_phase = (\<lambda>_. Entering)(0 := Finished Panicked, 1 := WaitingFor 0)\<rparr>"

lemma blockedSystem_reachable: "discoverReachable blockedSystem"
proof -
  let ?one = "atPhase 0 (Attempting 0) (discoverStart\<lparr>dy_discovering := Some 0, dy_next := 1\<rparr>)"
  have "discoverReachable ?one"
    using discoverReachable.step [OF discoverReachable.start begin_attempt [of discoverStart 0]]
    by (simp add: discoverStart_def)
  then have "discoverReachable (atPhase 1 (WaitingFor 0) ?one)"
    by (rule discoverReachable.step) (rule join, simp_all add: discoverStart_def)
  then have "discoverReachable (atPhase 0 (Finished Panicked) (atPhase 1 (WaitingFor 0) ?one))"
    by (rule discoverReachable.step) (rule panic [of _ _ 0], simp)
  moreover have "atPhase 0 (Finished Panicked) (atPhase 1 (WaitingFor 0) ?one) = blockedSystem"
    by (simp add: atPhase_def blockedSystem_def discoverStart_def fun_upd_twist)
  ultimately show ?thesis by simp
qed

theorem discovery_single_flight_witness:
  "discoverReachable blockedSystem \<and> dy_phase blockedSystem 0 = Finished Panicked
     \<and> dy_phase blockedSystem 1 = WaitingFor 0 \<and> dy_state blockedSystem = None"
proof -
  have p: "dy_phase blockedSystem 0 = Finished Panicked" "dy_phase blockedSystem 1 = WaitingFor 0"
    by (simp_all add: blockedSystem_def)
  with discovery_single_flight [OF blockedSystem_reachable] blockedSystem_reachable show ?thesis by blast
qed

section \<open>A success that is not a multistatus\<close>

text \<open>The three kinds of request of a discovery.\<close>

datatype discoveryRequest =
    AskPrincipal (askURL: url)
  | AskHomeSets (askURL: url)
  | AskBooks (askURL: url)

definition askDepth :: "discoveryRequest \<Rightarrow> string" where
  "askDepth q = (case q of AskBooks _ \<Rightarrow> ''1'' | _ \<Rightarrow> ''0'')"

definition askBody :: "discoveryRequest \<Rightarrow> string" where
  "askBody q =
     (case q of AskPrincipal _ \<Rightarrow> principalPropfind | AskHomeSets _ \<Rightarrow> homeSetPropfind
      | AskBooks _ \<Rightarrow> addressBooksPropfind)"

text \<open>
  \<open>discoveryAsks e lib base w q w'\<close>: a discovery from \<open>base\<close> that starts in the world \<open>w\<close> comes to its
  request \<open>q\<close> in the world \<open>w'\<close>, all earlier answers being in order.
\<close>

inductive discoveryAsks ::
  "'w contactsEnv \<Rightarrow> contactsLib \<Rightarrow> string \<Rightarrow> 'w \<Rightarrow> discoveryRequest \<Rightarrow> 'w \<Rightarrow> bool"
  for e lib base w where
  principal: "cv_parse e base = Some parsed \<Longrightarrow> \<not> (u_escapedPath parsed = [] \<and> u_host parsed = [])
     \<Longrightarrow> entry = (if u_escapedPath parsed = [] then parsed\<lparr>u_escapedPath := ''/''\<rparr> else parsed)
     \<Longrightarrow> validURL e entry = None
     \<Longrightarrow> discoveryAsks e lib base w (AskPrincipal entry) w"
| home_sets: "discoveryAsks e lib base w (AskPrincipal entry) w1
     \<Longrightarrow> propfind e entry ''0'' principalPropfind 4 w1 = (Value (Some answer), w2) \<Longrightarrow> \<not> pf_overflow answer
     \<Longrightarrow> propertyHrefs (pf_rows answer) dp_currentUserPrincipal = [href]
     \<Longrightarrow> resolveAndValidate e (pf_url answer) href = Inr target
     \<Longrightarrow> discoveryAsks e lib base w (AskHomeSets target) w2"
| books: "discoveryAsks e lib base w (AskHomeSets target) w1
     \<Longrightarrow> propfind e target ''0'' homeSetPropfind 4 w1 = (Value (Some answer), w2) \<Longrightarrow> \<not> pf_overflow answer
     \<Longrightarrow> hrefs = propertyHrefs (pf_rows answer) dp_addressBookHomeSet \<Longrightarrow> hrefs \<noteq> [] \<Longrightarrow> length hrefs \<le> maxAddressBooks
     \<Longrightarrow> resolveHomes e (pf_url answer) hrefs {} [] = Inr (before @ home # after)
     \<Longrightarrow> homesLoop e lib before {} \<lparr>ds_books = [], ds_byID = [], ds_homes = before @ home # after\<rparr> w2 = (Value st, w3)
     \<Longrightarrow> discoveryAsks e lib base w (AskBooks home) w3"

inductive_cases asksPrincipalE: "discoveryAsks e lib base w (AskPrincipal entry) w'"
inductive_cases asksHomeSetsE: "discoveryAsks e lib base w (AskHomeSets target) w'"
inductive_cases asksBooksE: "discoveryAsks e lib base w (AskBooks home) w'"

text \<open>The answer to a PROPFIND is a success other than 207.\<close>

definition answeredOddly :: "'w contactsEnv \<Rightarrow> discoveryRequest \<Rightarrow> 'w \<Rightarrow> 'w \<Rightarrow> bool" where
  "answeredOddly e q w w' \<longleftrightarrow>
     (\<exists>resp. doDAV e ''PROPFIND'' (askURL q) [xmlContentType, (''Depth'', askDepth q)] (askBody q) maxPropfindBytes None w
          = (Inr resp, w')
        \<and> cd_status resp div 100 = 2 \<and> cd_status resp \<noteq> 207)"

lemma thenDo_value [simp]: "thenDo (pureOp (Inr a)) g s = g a s" "thenDo (giveBack (Value a)) g s = g a s"
  by (simp_all add: thenDo_def pureOp_def giveBack_def)

lemma propfind_odd:
  "answeredOddly e q w w'
   \<Longrightarrow> thenDo (thenDo (propfind e (askURL q) (askDepth q) (askBody q) limit) deref) k w = (Panicked, w')"
  by (auto simp: answeredOddly_def thenDo_def propfind_def davOp_def classifyDAVError_def giveBack_def deref_def Let_def)

lemma propfind_fine:
  "propfind e target depth body limit w = (Value (Some answer), w')
   \<Longrightarrow> thenDo (thenDo (propfind e target depth body limit) deref) k w = k answer w'"
  by (simp add: thenDo_def deref_def giveBack_def)

lemma homesLoop_split:
  "homesLoop e lib before seen st w = (Value st', w')
   \<Longrightarrow> \<exists>seen'. homesLoop e lib (before @ homes) seen st w = homesLoop e lib homes seen' st' w'"
proof (induction before arbitrary: seen st w)
  case (Cons home before)
  from Cons.prems obtain response :: propfindResult and w1 seen1 st1 where
    p: "thenDo (propfind e home ''1'' addressBooksPropfind (int maxAddressBooks - int (length (ds_books st)) + 2)) deref w
      = (Value response, w1)"
    and r: "bookRows e lib home (pf_url response) (pf_rows response) seen st = Inr (seen1, st1)" "\<not> pf_overflow response"
    and more: "homesLoop e lib before seen1 st1 w1 = (Value st', w')"
    unfolding homesLoop.simps(2) thenDo_Value [of "thenDo _ _"] thenDo_Value [of "pureOp _"]
    by (auto split: if_splits)
  have "homesLoop e lib ((home # before) @ homes) seen st w = homesLoop e lib (before @ homes) seen1 st1 w1"
    using p r by (simp add: thenDo_def [of "thenDo _ _"])
  with Cons.IH [OF more] show ?case by auto
qed (auto simp: giveBack_def)

text \<open>Where the discovery stands when it comes to a request, and how it ends on an odd answer.\<close>

lemma asks_principal_run:
  assumes "discoveryAsks e lib base w (AskPrincipal entry) w'"
  obtains k where "w' = w" "runDiscovery e lib base w = thenDo (thenDo (propfind e entry ''0'' principalPropfind 4) deref) k w"
    "\<And>answer href target. \<not> pf_overflow answer \<Longrightarrow> propertyHrefs (pf_rows answer) dp_currentUserPrincipal = [href]
       \<Longrightarrow> resolveAndValidate e (pf_url answer) href = Inr target
       \<Longrightarrow> k answer = thenDo (thenDo (propfind e target ''0'' homeSetPropfind 4) deref) (discoverBooks e lib)"
proof -
  have first: "thenDo (pureOp (Inr a)) g = g a" for a and g :: "'b \<Rightarrow> ('c, 'd) contactOp"
    by (rule ext) simp
  from assms show thesis
    by (rule asksPrincipalE, intro that) (auto simp: runDiscovery_def checkOp_def Let_def first)
qed

lemma asks_home_sets_run:
  assumes "discoveryAsks e lib base w (AskHomeSets target) w'"
  shows "runDiscovery e lib base w = thenDo (thenDo (propfind e target ''0'' homeSetPropfind 4) deref) (discoverBooks e lib) w'"
  using assms
proof (rule asksHomeSetsE)
  fix entry w1 answer href
  assume a: "discoveryAsks e lib base w (AskPrincipal entry) w1"
    "propfind e entry ''0'' principalPropfind 4 w1 = (Value (Some answer), w')" "\<not> pf_overflow answer"
    "propertyHrefs (pf_rows answer) dp_currentUserPrincipal = [href]"
    "resolveAndValidate e (pf_url answer) href = Inr target"
  from a(1) obtain k where "w1 = w"
    "runDiscovery e lib base w = thenDo (thenDo (propfind e entry ''0'' principalPropfind 4) deref) k w"
    and k: "k answer = thenDo (thenDo (propfind e target ''0'' homeSetPropfind 4) deref) (discoverBooks e lib)"
    by (rule asks_principal_run) (use a in blast)
  with propfind_fine [OF a(2), of k] show ?thesis by simp
qed

lemma asks_books_run:
  assumes "discoveryAsks e lib base w (AskBooks home) w'"
  shows "\<exists>homes seen st k. runDiscovery e lib base w = thenDo (homesLoop e lib (home # homes) seen st) k w'"
  using assms
proof (rule asksBooksE)
  fix target w1 w2 before after st and answer :: propfindResult
  let ?hrefs = "propertyHrefs (pf_rows answer) dp_addressBookHomeSet"
  assume a: "discoveryAsks e lib base w (AskHomeSets target) w1"
    "propfind e target ''0'' homeSetPropfind 4 w1 = (Value (Some answer), w2)" "\<not> pf_overflow answer"
    "?hrefs \<noteq> []" "length ?hrefs \<le> maxAddressBooks"
    "resolveHomes e (pf_url answer) ?hrefs {} [] = Inr (before @ home # after)"
    "homesLoop e lib before {} \<lparr>ds_books = [], ds_byID = [], ds_homes = before @ home # after\<rparr> w2 = (Value st, w')"
  let ?init = "\<lparr>ds_books = [], ds_byID = [], ds_homes = before @ home # after\<rparr>"
  let ?k = "\<lambda>st. giveBack (Value (st\<lparr>ds_books := sortBooks e (ds_books st)\<rparr>))"
  have "runDiscovery e lib base w = discoverBooks e lib answer w2"
    using asks_home_sets_run [OF a(1)] propfind_fine [OF a(2)] by simp
  also have "\<dots> = thenDo (homesLoop e lib (before @ home # after) {} ?init) ?k w2"
    using a(3-6) by (simp add: discoverBooks_def Let_def)
  finally have run: "runDiscovery e lib base w = thenDo (homesLoop e lib (before @ home # after) {} ?init) ?k w2" .
  obtain seen where "homesLoop e lib (before @ home # after) {} ?init w2 = homesLoop e lib (home # after) seen st w'"
    using homesLoop_split [OF a(7)] by blast
  then have "thenDo (homesLoop e lib (before @ home # after) {} ?init) ?k w2
      = thenDo (homesLoop e lib (home # after) seen st) ?k w'" by (simp only: thenDo_def)
  with run show ?thesis by (intro exI) (rule trans)
qed

lemma odd_answer_panics:
  assumes "discoveryAsks e lib base w q w1" and "answeredOddly e q w1 w2"
  shows "runDiscovery e lib base w = (Panicked, w2)"
proof (cases q)
  case (AskPrincipal entry)
  from assms(1) [unfolded this] obtain k where "w1 = w"
    "runDiscovery e lib base w = thenDo (thenDo (propfind e entry ''0'' principalPropfind 4) deref) k w"
    by (rule asks_principal_run)
  with propfind_odd [OF assms(2)] AskPrincipal show ?thesis by (simp add: askDepth_def askBody_def)
next
  case (AskHomeSets target)
  with propfind_odd [OF assms(2)] asks_home_sets_run [OF assms(1) [unfolded AskHomeSets]]
  show ?thesis by (simp add: askDepth_def askBody_def)
next
  case (AskBooks home)
  from asks_books_run [OF assms(1) [unfolded AskBooks]] obtain homes seen st k where
    "runDiscovery e lib base w = thenDo (homesLoop e lib (home # homes) seen st) k w1" by blast
  moreover have "homesLoop e lib (home # homes) seen st w1 = (Panicked, w2)"
    using propfind_odd [OF assms(2)] AskBooks by (simp add: askDepth_def askBody_def)
  ultimately show ?thesis by (simp add: thenDo_def)
qed

text \<open>A caller that has returned stays so; after a panic no caller succeeds any more.\<close>

lemma finished_stays: "discoverStep y z \<Longrightarrow> dy_phase y c = Finished out \<Longrightarrow> dy_phase z c = Finished out"
  by (induction rule: discoverStep.induct) auto

lemma panicked_forever:
  assumes "discoverStep\<^sup>*\<^sup>* y z" and "discoverReachable y" and "dy_phase y c = Finished Panicked"
  shows "discoverReachable z \<and> dy_phase z c = Finished Panicked"
  using assms by (induction rule: rtranclp_induct) (auto intro: discoverReachable.step finished_stays)



end
