(* ===== verification/Contact_Ops.thy ===== *)
theory Contact_Ops
  imports Contact_Discovery
begin

text \<open>
  The operations of the Contacts service (\<open>internal/contacts/operations.go\<close>) over the discovery of
  \<open>Contact_Discovery\<close> and the transport of \<open>Contact_Dav\<close>: the CardDAV queries, \<open>SearchContacts\<close>,
  \<open>GetContact\<close>, \<open>CreateContact\<close>, \<open>UpdateContact\<close> and \<open>DeleteContact\<close>; and what they write to the
  server: at most one request, conditional, inside the selected address book.
\<close>

section \<open>Results\<close>

record addressObject =
  ao_url :: url
  ao_card :: card
  ao_raw :: "rawCard option"
  ao_version :: string
  ao_etag :: string

record createResult =
  xr_addressBook :: string
  xr_uid :: string
  xr_etag :: string
  xr_resultIncomplete :: bool
  xr_warning :: string

record deleteResult =
  dl_addressBook :: string
  dl_uid :: string
  dl_dryRun :: bool
  dl_wouldDelete :: bool

definition maxCardsScanned :: nat where "maxCardsScanned = 2000"
definition maxReportBytes :: int where "maxReportBytes = 33554432"

section \<open>Queries\<close>

text \<open>\<open>xml.EscapeText\<close>: runes outside the XML range and invalid UTF-8 become U+FFFD.\<close>

definition escapeRune :: "string \<Rightarrow> nat \<times> string" where
  "escapeRune s =
     (let c = hd s; replacement = [CHR 0xEF, CHR 0xBF, CHR 0xBD] in
      if c = dquote then (1, ''&#34;'')
      else if bval c = 0x27 then (1, ''&#39;'')
      else if c = CHR ''&'' then (1, ''&amp;'')
      else if c = CHR ''<'' then (1, ''&lt;'')
      else if c = CHR ''>'' then (1, ''&gt;'')
      else if c = tab then (1, ''&#x9;'')
      else if c = lf then (1, ''&#xA;'')
      else if c = cr then (1, ''&#xD;'')
      else if bval c < 0x20 then (1, replacement)
      else if bval c < 0x80 then (1, [c])
      else if utf8Size s = 0 then (1, replacement)
      else if take 3 s = [CHR 0xEF, CHR 0xBF, CHR 0xBE] \<or> take 3 s = [CHR 0xEF, CHR 0xBF, CHR 0xBF]
      then (3, replacement)
      else (utf8Size s, take (utf8Size s) s))"

lemma escapeRune_pos: "0 < fst (escapeRune s)"
  by (simp add: escapeRune_def Let_def)

function xmlEscape :: "string \<Rightarrow> string" where
  "xmlEscape s = (if s = [] then [] else snd (escapeRune s) @ xmlEscape (drop (fst (escapeRune s)) s))"
  by pat_completeness auto
termination
  by (relation "measure length") (auto simp: escapeRune_pos)

declare xmlEscape.simps [simp del]

definition queryStart :: string where
  "queryStart = ''<?xml version='' @ quoteMark @ ''1.0'' @ quoteMark @ '' encoding='' @ quoteMark @ ''UTF-8'' @ quoteMark @ ''?>''
     @ ''<C:addressbook-query xmlns:D='' @ quoteMark @ ''DAV:'' @ quoteMark @ '' xmlns:C='' @ quoteMark
     @ ''urn:ietf:params:xml:ns:carddav'' @ quoteMark @ ''>''
     @ ''<D:prop><D:getetag/><C:address-data/></D:prop>''"

definition queryEnd :: "int \<Rightarrow> string" where
  "queryEnd limit = ''<C:limit><C:nresults>'' @ decimal limit @ ''</C:nresults></C:limit></C:addressbook-query>''"

definition textMatch :: "string \<Rightarrow> string \<Rightarrow> string \<Rightarrow> string" where
  "textMatch property matchType value =
     ''<C:prop-filter name='' @ quoteMark @ property @ quoteMark @ ''><C:text-match collation='' @ quoteMark @ ''i;unicode-casemap'' @ quoteMark
     @ '' match-type='' @ quoteMark @ matchType @ quoteMark @ ''>'' @ xmlEscape value @ ''</C:text-match></C:prop-filter>''"

definition searchQuery :: "searchOptions \<Rightarrow> int \<Rightarrow> string" where
  "searchQuery opts limit =
     (let filter =
        (if so_query opts \<noteq> []
         then ''<C:filter test='' @ quoteMark @ ''anyof'' @ quoteMark @ ''>''
              @ concat (map (\<lambda>p. textMatch p ''contains'' (so_query opts)) [''FN'', ''N'', ''EMAIL'', ''TEL'', ''ORG''])
              @ ''</C:filter>''
         else if so_email opts \<noteq> []
         then ''<C:filter>'' @ textMatch ''EMAIL'' ''contains'' (so_email opts) @ ''</C:filter>''
         else ''<C:filter><C:prop-filter name='' @ quoteMark @ ''VERSION'' @ quoteMark @ ''/></C:filter>'')
      in queryStart @ filter @ queryEnd limit)"

definition uidQuery :: "string \<Rightarrow> string" where
  "uidQuery uid = queryStart @ ''<C:filter>'' @ textMatch ''UID'' ''equals'' uid @ ''</C:filter>'' @ queryEnd 2"

section \<open>Reports\<close>

fun reportRows ::
  "'w contactsEnv \<Rightarrow> contactsLib \<Rightarrow> bookRecord \<Rightarrow> contactsDavResponse \<Rightarrow> multiStatusResponse list
     \<Rightarrow> goError + addressObject list" where
  "reportRows e lib book response [] = Inr []"
| "reportRows e lib book response (row # rows) =
     (case successfulProp row of
        None \<Rightarrow> reportRows e lib book response rows
      | Some prop \<Rightarrow>
          (case dp_addressData prop of
             None \<Rightarrow> reportRows e lib book response rows
           | Some data \<Rightarrow>
               if trimSpace data = [] then reportRows e lib book response rows
               else
                 andThen (resolveAndValidate e (cd_url response) (ms_href row)) (\<lambda>resourceURL.
                   if \<not> urlWithin resourceURL (br_url book) False
                   then Inl (contactsError codeProtocolError 0
                          ''Contacts REPORT returned a resource outside its address book'')
                   else andThen (decodeCard (kl_card lib) data) (\<lambda>(c, version).
                     case strongETagFromResponse row of
                       Inl _ \<Rightarrow> Inl (contactsError codeProtocolError (cd_status response)
                                  ''Contacts REPORT response has an invalid ETag'')
                     | Inr etag \<Rightarrow>
                         andThen (reportRows e lib book response rows) (\<lambda>objects.
                           Inr (\<lparr>ao_url = resourceURL, ao_card = c, ao_raw = None, ao_version = version,
                                 ao_etag = etag\<rparr> # objects))))))"

text \<open>
  The objects, whether rows were left out, and the bytes of the answer. A success other than 207 gives
  no objects and no error, because \<open>classifyDAVError\<close> returns nil.
\<close>

definition report ::
  "'w contactsEnv \<Rightarrow> contactsLib \<Rightarrow> bookRecord \<Rightarrow> string \<Rightarrow> int \<Rightarrow> int
     \<Rightarrow> (addressObject list \<times> bool \<times> int, 'w) contactOp" where
  "report e lib book body rowLimit byteCap =
     thenDo (davOp e ''REPORT'' (br_url book) [xmlContentType, (''Depth'', ''1'')] body byteCap (Some (br_url book)))
       (\<lambda>response.
          let used = int (length (cd_body response)) in
          if cd_status response \<noteq> 207
          then giveBack (case classifyDAVError (cv_xml e) response False of
                           Some err \<Rightarrow> Failed err | None \<Rightarrow> Value ([], False, used))
          else
            thenDo (pureOp (decodeMultiStatus (cv_xml e (cd_body response)) rowLimit))
              (\<lambda>(rows, overflow).
                 thenDo (pureOp (reportRows e lib book response rows))
                   (\<lambda>objects. giveBack (Value (objects, overflow, used)))))"

section \<open>SearchContacts\<close>

text \<open>The matches of the scanned cards, whether a scan bound was reached.\<close>

fun searchLoop ::
  "'w contactsEnv \<Rightarrow> contactsLib \<Rightarrow> searchOptions \<Rightarrow> bookRecord list \<Rightarrow> nat \<Rightarrow> int \<Rightarrow> contactSummary list
     \<Rightarrow> (contactSummary list \<times> bool, 'w) contactOp" where
  "searchLoop e lib opts [] remainingCards remainingBytes matches = giveBack (Value (matches, False))"
| "searchLoop e lib opts (book # books) remainingCards remainingBytes matches =
     (if remainingCards = 0 \<or> remainingBytes = 0 then giveBack (Value (matches, True))
      else
        (let requestLimit = int remainingCards + 1 in
         thenDo (report e lib book (searchQuery opts requestLimit) requestLimit remainingBytes)
           (\<lambda>(objects, overflow, used).
              let complete = min (length objects) remainingCards;
                  matches' = matches @ map (\<lambda>ob. cardSummary (kl_card lib) (kl_access lib) (ao_card ob)
                                              (ab_identifier (br_public book)) (ao_etag ob))
                    (filter (\<lambda>ob. contactMatches (kl_card lib) (kl_access lib) (ao_card ob) opts)
                       (take complete objects));
                  left = remainingCards - complete
              in if overflow \<or> complete < length objects \<or> left = 0 \<and> books \<noteq> []
                 then giveBack (Value (matches', True))
                 else searchLoop e lib opts books left (remainingBytes - used) matches')))"

fun fitResult :: "(searchResult \<Rightarrow> bool) \<Rightarrow> searchResult \<Rightarrow> contactSummary list \<Rightarrow> searchResult" where
  "fitResult fits result [] = result"
| "fitResult fits result (s # ss) =
     (let result' = result\<lparr>sr_contacts := sr_contacts result @ [s]\<rparr> in
      if fits result' then fitResult fits result' ss else result\<lparr>sr_truncated := True\<rparr>)"

definition searchSorted :: "contactsLib \<Rightarrow> contactSummary list \<Rightarrow> contactSummary list" where
  "searchSorted lib matches =
     sort_key (\<lambda>s. (normalizeForSort (kl_access lib) (cs_displayName s), cs_uid s, cs_addressBook s)) matches"

definition searchContacts ::
  "'w contactsEnv \<Rightarrow> contactsLib \<Rightarrow> searchOptions \<Rightarrow> (searchResult, contactsClient \<times> 'w) contactOp" where
  "searchContacts e lib options =
     thenDo (pureOp (validateSearchOptions options)) (\<lambda>opts.
       thenDo (if so_addressBook opts \<noteq> []
               then thenDo (bookByID e lib (so_addressBook opts)) (\<lambda>book. giveBack (Value [book]))
               else thenDo (discover e lib)
                      (\<lambda>_ s. (case cl_state (fst s) of None \<Rightarrow> Panicked | Some st \<Rightarrow> Value (ds_books st), s)))
         (\<lambda>books.
            thenDo (onWorld (searchLoop e lib opts books maxCardsScanned maxReportBytes []))
              (\<lambda>(matches, scanLimit).
                 giveBack (Value (fitResult (kl_resultFits lib)
                   \<lparr>sr_contacts = [], sr_truncated = so_limit opts < int (length matches),
                    sr_scanLimitReached = scanLimit\<rparr>
                   (take (nat (so_limit opts)) (searchSorted lib matches)))))))"

section \<open>Reading one contact\<close>

definition acceptableVCardContentType :: "'w contactsEnv \<Rightarrow> string \<Rightarrow> bool" where
  "acceptableVCardContentType e mediaType \<longleftrightarrow>
     cv_lower e (trimSpace mediaType) \<in> {''text/vcard'', ''text/x-vcard'', ''text/directory'', ''text/plain''}"

text \<open>What \<open>getObject\<close> makes of a response to its GET.\<close>

definition objectOf ::
  "'w contactsEnv \<Rightarrow> contactsLib \<Rightarrow> bookRecord \<Rightarrow> string \<Rightarrow> contactsDavResponse \<Rightarrow> addressObject outcome" where
  "objectOf e lib book expectedUID response =
     (if cd_status response div 100 \<noteq> 2
      then (case classifyDAVError (cv_xml e) response False of Some err \<Rightarrow> Failed err | None \<Rightarrow> Panicked)
      else if \<not> urlWithin (cd_url response) (br_url book) False
      then Failed (contactsError codeProtocolError 0 ''contact GET resolved outside its address book'')
      else if (case kl_mediaType lib (headerGet (cd_header response) ''Content-Type'') of
                 None \<Rightarrow> True | Some mediaType \<Rightarrow> \<not> acceptableVCardContentType e mediaType)
      then Failed (contactsError codeProtocolError 0 ''contact GET returned an invalid Content-Type'')
      else case decodeRawCard (kl_card lib) (cd_body response) of
             Inl err \<Rightarrow> Failed err
           | Inr (c, version, raw) \<Rightarrow>
               if vl_value (kl_card lib) c ''UID'' \<noteq> expectedUID
               then Failed (contactsError codeProtocolError 0 ''contact GET returned a different UID'')
               else case contactETagFromHeader (headerValues (cd_header response) ''ETag'') of
                      Inl _ \<Rightarrow> Failed (contactsError codeProtocolError (cd_status response)
                                 ''contact GET returned an invalid ETag'')
                    | Inr etag \<Rightarrow> Value \<lparr>ao_url = cd_url response, ao_card = c, ao_raw = Some raw,
                                           ao_version = version, ao_etag = etag\<rparr>)"

definition getObject ::
  "'w contactsEnv \<Rightarrow> contactsLib \<Rightarrow> bookRecord \<Rightarrow> url \<Rightarrow> string \<Rightarrow> (addressObject, 'w) contactOp" where
  "getObject e lib book target expectedUID =
     (if \<not> urlWithin target (br_url book) False
      then giveBack (Failed (contactsError codeProtocolError 0 ''contact resource is outside its address book''))
      else thenDo (davOp e ''GET'' target [(''Accept'', ''text/vcard'')] [] maxCardBytes (Some (br_url book)))
             (\<lambda>response. giveBack (objectOf e lib book expectedUID response)))"

definition findByUID ::
  "'w contactsEnv \<Rightarrow> contactsLib \<Rightarrow> bookRecord \<Rightarrow> string \<Rightarrow> (addressObject, 'w) contactOp" where
  "findByUID e lib book uid =
     thenDo (report e lib book (uidQuery uid) 3 maxReportBytes) (\<lambda>(objects, overflow, used).
       if overflow \<or> 1 < length objects
       then giveBack (Failed (contactsError codeProtocolError 0 ''UID lookup returned more than one contact''))
       else case objects of
              [] \<Rightarrow> giveBack (Failed (contactsError codeNotFound 404
                      ''contact UID was not found in the address book''))
            | ob # _ \<Rightarrow>
                if vl_value (kl_card lib) (ao_card ob) ''UID'' \<noteq> uid
                then giveBack (Failed (contactsError codeProtocolError 0 ''UID lookup returned a different contact''))
                else getObject e lib book (ao_url ob) uid)"

definition getContact ::
  "'w contactsEnv \<Rightarrow> contactsLib \<Rightarrow> string \<Rightarrow> string \<Rightarrow> (contact, contactsClient \<times> 'w) contactOp" where
  "getContact e lib addressBook uid =
     checkOp (validateContactUID uid)
       (thenDo (bookByID e lib addressBook) (\<lambda>book.
          thenDo (onWorld (findByUID e lib book uid)) (\<lambda>ob.
            let detail = cardDetail (kl_card lib) (kl_access lib) (ao_card ob) (ao_version ob) addressBook (ao_etag ob)
            in if kl_contactFits lib detail then giveBack (Value detail)
               else giveBack (Failed (contactsError codePayloadTooLarge 0
                      ''contact detail exceeds the result limit'')))))"

section \<open>Writing\<close>

text \<open>
  A call whose error does not end the operation: the outcome itself is the value, except for a panic.
\<close>

definition attempted :: "('a, 's) contactOp \<Rightarrow> ('a option, 's) contactOp" where
  "attempted f s =
     (case f s of
        (Value a, s') \<Rightarrow> (Value (Some a), s')
      | (Failed _, s') \<Rightarrow> (Value None, s')
      | (Panicked, s') \<Rightarrow> (Panicked, s'))"

definition newUUID :: "'w contactsEnv \<Rightarrow> (string, 'w) contactOp" where
  "newUUID e w = (case cv_random e w of (bytes, w') \<Rightarrow> pureOp (uuidV4 bytes) w')"

definition vcardContentType :: "string \<times> string" where
  "vcardContentType = (''Content-Type'', ''text/vcard; charset=utf-8'')"

definition normalizedResult :: "string \<Rightarrow> string \<Rightarrow> string \<Rightarrow> addressObject option \<Rightarrow> createResult" where
  "normalizedResult book uid warning got =
     (case got of
        None \<Rightarrow> \<lparr>xr_addressBook = book, xr_uid = uid, xr_etag = [], xr_resultIncomplete = True, xr_warning = warning\<rparr>
      | Some ob \<Rightarrow> \<lparr>xr_addressBook = book, xr_uid = uid, xr_etag = readableETag (ao_etag ob),
                     xr_resultIncomplete = False, xr_warning = []\<rparr>)"

text \<open>The PUT of a new card and the reading of what the server made of it.\<close>

definition putNew ::
  "'w contactsEnv \<Rightarrow> contactsLib \<Rightarrow> bookRecord \<Rightarrow> string \<Rightarrow> string \<Rightarrow> url \<Rightarrow> bytes \<Rightarrow> (createResult, 'w) contactOp" where
  "putNew e lib book bookId uid target encoded =
     thenDo (davOp e ''PUT'' target [vcardContentType, (''If-None-Match'', ''*'')] encoded maxErrorBodyBytes
               (Some (br_url book)))
       (\<lambda>response.
          case classifyDAVError (cv_xml e) response True of
            Some err \<Rightarrow> giveBack (Failed err)
          | None \<Rightarrow>
              (let location = headerGet (cd_header response) ''Location'';
                   created = (if location = [] then Inr target
                              else resolveAndValidate e (cd_url response) location)
               in if location \<noteq> []
                     \<and> (case created of Inl _ \<Rightarrow> True | Inr u \<Rightarrow> \<not> urlWithin u (br_url book) False)
                  then giveBack (Value (normalizedResult bookId uid
                         ''contact was created, but its normalized resource location was invalid'' None))
                  else
                    thenDo (attempted (getObject e lib book (case created of Inr u \<Rightarrow> u | Inl _ \<Rightarrow> target) uid))
                      (\<lambda>got. giveBack (Value (normalizedResult bookId uid
                         ''contact was created, but normalized metadata could not be read'' got)))))"

definition createInBook ::
  "'w contactsEnv \<Rightarrow> contactsLib \<Rightarrow> createContactInput \<Rightarrow> bookRecord \<Rightarrow> (createResult, 'w) contactOp" where
  "createInBook e lib input book =
     (if ab_writeVersion (br_public book) \<noteq> ''3.0''
      then giveBack (Failed (contactsValidationError ''the address book does not advertise vCard 3.0 writes''))
      else
        thenDo (if cc_clientUID input = [] then newUUID e else giveBack (Value (cc_clientUID input))) (\<lambda>uid.
          thenDo (newUUID e) (\<lambda>resourceID.
            let target = childResourceURL (cv_resolve e) (br_url book) (resourceID @ ''.vcf'') in
            checkOp (validURL e target)
              (thenDo (pureOp (encodeCard (kl_card lib) (newV3Card (kl_card lib) input uid)
                                 (ab_maxResourceSize (br_public book))))
                (putNew e lib book (cc_addressBook input) uid target)))))"

definition createContact ::
  "'w contactsEnv \<Rightarrow> contactsLib \<Rightarrow> createContactInput option \<Rightarrow> (createResult, contactsClient \<times> 'w) contactOp" where
  "createContact e lib input =
     (case validateCreate (kl_parsers lib) (kl_order lib) input of
        Some err \<Rightarrow> giveBack (Failed err)
      | None \<Rightarrow>
          (case input of
             None \<Rightarrow> giveBack Panicked
           | Some c \<Rightarrow>
               thenDo (bookByID e lib (cc_addressBook c)) (\<lambda>book. onWorld (createInBook e lib c book))))"

text \<open>\<open>callerETag, _ := normalizeCallerETag(...)\<close>: the empty string when there is an error.\<close>

definition callerETag :: "string \<Rightarrow> string" where
  "callerETag etag = (case normalizeCallerETag etag of Inl _ \<Rightarrow> [] | Inr t \<Rightarrow> t)"

definition conditionETag :: "string \<Rightarrow> string \<Rightarrow> string" where
  "conditionETag caller server = (if caller = [] then server else caller)"

definition updateObject ::
  "'w contactsEnv \<Rightarrow> contactsLib \<Rightarrow> updateContactInput \<Rightarrow> bookRecord \<Rightarrow> addressObject \<Rightarrow> (createResult, 'w) contactOp" where
  "updateObject e lib input book ob =
     thenDo (pureOp (validateServerETag (ao_etag ob))) (\<lambda>serverETag.
       if ao_version ob \<noteq> ''3.0'' then giveBack (Failed (contactsValidationError ''vCard 4.0 contacts are read-only''))
       else if cardIsGroup (kl_card lib) (kl_access lib) (ao_card ob)
       then giveBack (Failed (contactsValidationError ''contact groups are read-only''))
       else
         thenDo (deref (ao_raw ob)) (\<lambda>raw.
           thenDo (pureOp (encodePatchedCard (kl_card lib) raw (ao_card ob) (uc_patch input)
                             (ab_maxResourceSize (br_public book)))) (\<lambda>encoded.
             thenDo (davOp e ''PUT'' (ao_url ob)
                       [vcardContentType, (''If-Match'', conditionETag (callerETag (uc_etag input)) serverETag)]
                       encoded maxErrorBodyBytes (Some (br_url book))) (\<lambda>response.
               case classifyDAVError (cv_xml e) response False of
                 Some err \<Rightarrow> giveBack (Failed err)
               | None \<Rightarrow>
                   thenDo (attempted (getObject e lib book (ao_url ob) (uc_uid input)))
                     (\<lambda>got. giveBack (Value (normalizedResult (uc_addressBook input) (uc_uid input)
                        ''contact was updated, but normalized metadata could not be read'' got)))))))"

definition updateContact ::
  "'w contactsEnv \<Rightarrow> contactsLib \<Rightarrow> updateContactInput option \<Rightarrow> (createResult, contactsClient \<times> 'w) contactOp" where
  "updateContact e lib input =
     (case validateUpdate (kl_parsers lib) (kl_patchOrder lib) input of
        Some err \<Rightarrow> giveBack (Failed err)
      | None \<Rightarrow>
          (case input of
             None \<Rightarrow> giveBack Panicked
           | Some u \<Rightarrow>
               thenDo (bookByID e lib (uc_addressBook u)) (\<lambda>book.
                 onWorld (thenDo (findByUID e lib book (uc_uid u)) (updateObject e lib u book)))))"

definition deleteObject ::
  "'w contactsEnv \<Rightarrow> contactsLib \<Rightarrow> deleteContactInput \<Rightarrow> bookRecord \<Rightarrow> addressObject \<Rightarrow> (deleteResult, 'w) contactOp" where
  "deleteObject e lib input book ob =
     (let result = \<lparr>dl_addressBook = dc_addressBook input, dl_uid = dc_uid input, dl_dryRun = False,
                     dl_wouldDelete = True\<rparr>;
          caller = callerETag (dc_etag input)
      in if ao_version ob = ''4.0'' \<or> cardIsGroup (kl_card lib) (kl_access lib) (ao_card ob)
         then giveBack (Failed (contactsValidationError ''this contact object is read-only''))
         else
           thenDo (pureOp (validateServerETag (ao_etag ob))) (\<lambda>serverETag.
             if dc_dryRun input
             then
               (if caller \<noteq> [] \<and> caller \<noteq> serverETag
                then giveBack (Failed (contactsError codeConcurrentModification 412
                       ''the contact changed since it was read''))
                else giveBack (Value (result\<lparr>dl_dryRun := True\<rparr>)))
             else
               thenDo (davOp e ''DELETE'' (ao_url ob) [(''If-Match'', conditionETag caller serverETag)] []
                         maxErrorBodyBytes (Some (br_url book))) (\<lambda>response.
                 case classifyDAVError (cv_xml e) response False of
                   Some err \<Rightarrow> giveBack (Failed err)
                 | None \<Rightarrow> giveBack (Value result))))"

definition deleteContact ::
  "'w contactsEnv \<Rightarrow> contactsLib \<Rightarrow> deleteContactInput option \<Rightarrow> (deleteResult, contactsClient \<times> 'w) contactOp" where
  "deleteContact e lib input =
     (case validateDelete input of
        Some err \<Rightarrow> giveBack (Failed err)
      | None \<Rightarrow>
          (case input of
             None \<Rightarrow> giveBack Panicked
           | Some d \<Rightarrow>
               thenDo (bookByID e lib (dc_addressBook d)) (\<lambda>book.
                 onWorld (thenDo (findByUID e lib book (dc_uid d)) (deleteObject e lib d book)))))"

section \<open>Queries and results are bounded\<close>

text \<open>No text of the caller adds markup to a query.\<close>

lemma inRange_high: "inRange l h b \<Longrightarrow> 0x80 \<le> l \<Longrightarrow> \<not> bval b < 0x80"
  by (simp add: inRange_def)

lemma utf8_multibyte:
  assumes "\<not> bval a < 0x80" "x \<in> set (take (utf8Size (a # t)) (a # t))"
  shows "\<not> bval x < 0x80"
proof (cases t)
  case Nil
  with assms show ?thesis by (simp split: if_splits)
next
  case t: (Cons b u)
  show ?thesis
  proof (cases u)
    case Nil
    with assms t show ?thesis by (auto split: if_splits dest: inRange_high)
  next
    case u: (Cons c v)
    with assms t show ?thesis by (cases v) (auto split: if_splits dest: inRange_high)
  qed
qed

lemma ascii_markup: "x \<in> {CHR ''<'', CHR ''>'', dquote} \<Longrightarrow> bval x < 0x80"
  by (auto simp: bval_def)

lemma escapeRune_no_markup:
  assumes "c \<in> set (snd (escapeRune (a # t)))"
  shows "c \<notin> {CHR ''<'', CHR ''>'', dquote}"
proof (cases "bval a < 0x80")
  case True
  with assms show ?thesis by (simp add: escapeRune_def Let_def split: if_splits) auto
next
  case False
  show ?thesis
  proof (cases "c \<in> set (take (utf8Size (a # t)) (a # t))")
    case True
    then show ?thesis using utf8_multibyte [OF False] ascii_markup by blast
  next
    case False
    with assms \<open>\<not> bval a < 0x80\<close> show ?thesis
      by (simp add: escapeRune_def Let_def bval_def del: utf8Size.simps split: if_splits) auto
  qed
qed

lemma xmlEscape_no_markup: "set (xmlEscape s) \<inter> {CHR ''<'', CHR ''>'', dquote} = {}"
proof (induction s rule: xmlEscape.induct)
  case (1 s)
  show ?case
  proof (cases s)
    case (Cons a t)
    with 1 have "set (xmlEscape (drop (fst (escapeRune s)) s)) \<inter> {CHR ''<'', CHR ''>'', dquote} = {}" by blast
    with Cons show ?thesis using escapeRune_no_markup [of _ a t] by (subst xmlEscape.simps) auto
  qed (simp add: xmlEscape.simps)
qed

lemma fitResult_prefix:
  "\<exists>n. sr_contacts (fitResult fits r ss) = sr_contacts r @ take n ss"
proof (induction fits r ss rule: fitResult.induct)
  case (2 fits r s ss)
  show ?case
  proof (cases "fits (r\<lparr>sr_contacts := sr_contacts r @ [s]\<rparr>)")
    case True
    with 2 obtain n where "sr_contacts (fitResult fits r (s # ss)) = (sr_contacts r @ [s]) @ take n ss"
      by (auto simp: Let_def)
    then show ?thesis by (intro exI [of _ "Suc n"]) simp
  next
    case False
    then show ?thesis by (intro exI [of _ 0]) simp
  qed
qed simp

lemma fitResult_fits: "fits r \<Longrightarrow> fits (r\<lparr>sr_truncated := True\<rparr>) \<Longrightarrow>
    (\<And>r'. fits r' \<Longrightarrow> fits (r'\<lparr>sr_truncated := True\<rparr>)) \<Longrightarrow> fits (fitResult fits r ss)"
  by (induction fits r ss rule: fitResult.induct) (auto simp: Let_def)

text \<open>A search returns at most the limit it was given, which is at most a hundred.\<close>

lemma search_limit:
  assumes "searchContacts e lib options s = (Value r, s')"
  shows "\<exists>opts. validateSearchOptions options = Inr opts \<and> int (length (sr_contacts r)) \<le> so_limit opts \<and> so_limit opts \<le> 100"
proof -
  from assms obtain opts matches scan where v: "validateSearchOptions options = Inr opts"
    and r: "r = fitResult (kl_resultFits lib) \<lparr>sr_contacts = [], sr_truncated = so_limit opts < int (length matches),
        sr_scanLimitReached = scan\<rparr> (take (nat (so_limit opts)) (searchSorted lib matches))"
    by (auto simp: searchContacts_def thenDo_Value split: prod.splits)
  from v have "1 \<le> so_limit opts" "so_limit opts \<le> 100"
    by (auto simp: validateSearchOptions_def Let_def split: option.splits if_splits)
  moreover obtain n where "sr_contacts r = take n (take (nat (so_limit opts)) (searchSorted lib matches))"
    unfolding r using fitResult_prefix by (metis append_Nil searchResult.select_convs(1))
  ultimately show ?thesis using v by auto
qed

section \<open>What an operation sends\<close>

definition isWrite :: "contactRequest \<Rightarrow> bool" where
  "isWrite rq \<longleftrightarrow> isWriteMethod (cq_method rq)"

definition readsOnly :: "('s \<Rightarrow> contactRequest list) \<Rightarrow> ('a, 's) contactOp \<Rightarrow> bool" where
  "readsOnly log f \<longleftrightarrow>
     (\<forall>s out s'. f s = (out, s') \<longrightarrow> (\<exists>rqs. log s' = log s @ rqs \<and> (\<forall>rq \<in> set rqs. \<not> isWrite rq)))"

text \<open>At most one write, each with the property, and exactly one when the operation succeeds.\<close>

definition writeTrace :: "(contactRequest \<Rightarrow> bool) \<Rightarrow> 'a outcome \<Rightarrow> contactRequest list \<Rightarrow> bool" where
  "writeTrace W out rqs \<longleftrightarrow>
     (\<forall>rq \<in> set rqs. isWrite rq \<longrightarrow> W rq) \<and> length (filter isWrite rqs) \<le> 1
     \<and> (\<forall>v. out = Value v \<longrightarrow> filter isWrite rqs \<noteq> [])"

definition writesOnce :: "('s \<Rightarrow> contactRequest list) \<Rightarrow> (contactRequest \<Rightarrow> bool) \<Rightarrow> ('a, 's) contactOp \<Rightarrow> bool" where
  "writesOnce log W f \<longleftrightarrow> (\<forall>s out s'. f s = (out, s') \<longrightarrow> (\<exists>rqs. log s' = log s @ rqs \<and> writeTrace W out rqs))"

lemma readsOnlyE:
  assumes "readsOnly log f" and "f s = (out, s')"
  obtains rqs where "log s' = log s @ rqs" "filter isWrite rqs = []" "\<forall>rq \<in> set rqs. \<not> isWrite rq"
  using assms by (fastforce simp: readsOnly_def filter_empty_conv)

lemma writesOnceE:
  assumes "writesOnce log W f" and "f s = (out, s')"
  obtains rqs where "log s' = log s @ rqs" "writeTrace W out rqs"
  using assms unfolding writesOnce_def by metis

lemma thenDo_cases:
  assumes "thenDo f g s = (out, s')"
  obtains a s1 where "f s = (Value a, s1)" "g a s1 = (out, s')"
  | err where "f s = (Failed err, s')" "out = Failed err"
  | "f s = (Panicked, s')" "out = Panicked"
  using assms by (auto simp: thenDo_def split: prod.splits outcome.splits)

lemma readsOnly_pure [simp, intro]:
  "readsOnly log (giveBack r)" "readsOnly log (pureOp x)" "readsOnly log (deref p)"
  by (auto simp: readsOnly_def pureOp_def deref_def)

lemma readsOnly_thenDo [intro]:
  assumes "readsOnly log f" and "\<And>a. readsOnly log (g a)"
  shows "readsOnly log (thenDo f g)"
  unfolding readsOnly_def
proof (intro allI impI)
  fix s out s'
  assume "thenDo f g s = (out, s')"
  then show "\<exists>rqs. log s' = log s @ rqs \<and> (\<forall>rq \<in> set rqs. \<not> isWrite rq)"
  proof (cases rule: thenDo_cases)
    case (1 a s1)
    from assms(1) 1(1) obtain r1 where "log s1 = log s @ r1" "\<forall>rq \<in> set r1. \<not> isWrite rq" by (elim readsOnlyE)
    moreover from assms(2) [of a] 1(2) obtain r2 where "log s' = log s1 @ r2" "\<forall>rq \<in> set r2. \<not> isWrite rq"
      by (elim readsOnlyE)
    ultimately show ?thesis by (intro exI [of _ "r1 @ r2"]) auto
  next
    case 2
    with assms(1) show ?thesis by (auto elim: readsOnlyE)
  next
    case 3
    with assms(1) show ?thesis by (auto elim: readsOnlyE)
  qed
qed

lemma readsOnly_checkOp [intro]: "readsOnly log f \<Longrightarrow> readsOnly log (checkOp check f)"
  by (simp add: checkOp_def split: option.split)

lemma readsOnly_attempted [intro]:
  assumes "readsOnly log f"
  shows "readsOnly log (attempted f)"
  unfolding readsOnly_def
proof (intro allI impI)
  fix s out s'
  assume "attempted f s = (out, s')"
  then obtain out' where "f s = (out', s')" by (auto simp: attempted_def split: prod.splits outcome.splits)
  with assms show "\<exists>rqs. log s' = log s @ rqs \<and> (\<forall>rq \<in> set rqs. \<not> isWrite rq)" by (auto elim: readsOnlyE)
qed

lemma readsOnly_onWorld [intro]: "readsOnly log f \<Longrightarrow> readsOnly (log \<circ> snd) (onWorld f)"
  by (auto simp: readsOnly_def onWorld_def split: prod.splits)

lemma readsOnly_if [intro]: "readsOnly log f \<Longrightarrow> readsOnly log g \<Longrightarrow> readsOnly log (if b then f else g)"
  by simp

lemma writesOnce_refused [simp, intro]:
  "writesOnce log W (giveBack (Failed err))" "writesOnce log W (giveBack Panicked)"
  by (auto simp: writesOnce_def writeTrace_def)

lemma writesOnce_checkOp [intro]: "writesOnce log W f \<Longrightarrow> writesOnce log W (checkOp check f)"
  by (simp add: checkOp_def split: option.split)

lemma writes_after_reads:
  assumes "readsOnly log f" and "\<And>a s s1. f s = (Value a, s1) \<Longrightarrow> writesOnce log W (g a)"
  shows "writesOnce log W (thenDo f g)"
  unfolding writesOnce_def
proof (intro allI impI)
  fix s out s'
  assume "thenDo f g s = (out, s')"
  then show "\<exists>rqs. log s' = log s @ rqs \<and> writeTrace W out rqs"
  proof (cases rule: thenDo_cases)
    case (1 a s1)
    from assms(1) 1(1) obtain r1 where r1: "log s1 = log s @ r1" "filter isWrite r1 = []" "\<forall>rq \<in> set r1. \<not> isWrite rq"
      by (elim readsOnlyE)
    from assms(2) [OF 1(1)] 1(2) obtain r2 where "log s' = log s1 @ r2" "writeTrace W out r2" by (elim writesOnceE)
    with r1 show ?thesis by (intro exI [of _ "r1 @ r2"]) (auto simp: writeTrace_def)
  next
    case (2 err)
    with assms(1) show ?thesis by (auto elim!: readsOnlyE simp: writeTrace_def)
  next
    case 3
    with assms(1) show ?thesis by (auto elim!: readsOnlyE simp: writeTrace_def)
  qed
qed

text \<open>The same for one run, where the property may speak of what the reads returned.\<close>

lemma trace_after_reads:
  assumes "readsOnly log f" and "thenDo f g s = (out, s')"
    and "\<And>a s1. f s = (Value a, s1) \<Longrightarrow> g a s1 = (out, s') \<Longrightarrow> \<exists>rqs. log s' = log s1 @ rqs \<and> writeTrace W out rqs"
  shows "\<exists>rqs. log s' = log s @ rqs \<and> writeTrace W out rqs"
  using assms(2)
proof (cases rule: thenDo_cases)
  case (1 a s1)
  from assms(1) 1(1) obtain r1 where r1: "log s1 = log s @ r1" "filter isWrite r1 = []" "\<forall>rq \<in> set r1. \<not> isWrite rq"
    by (elim readsOnlyE)
  from assms(3) [OF 1] obtain r2 where "log s' = log s1 @ r2" "writeTrace W out r2" by blast
  with r1 show ?thesis by (intro exI [of _ "r1 @ r2"]) (auto simp: writeTrace_def)
next
  case (2 err)
  with assms(1) show ?thesis by (auto elim!: readsOnlyE simp: writeTrace_def)
next
  case 3
  with assms(1) show ?thesis by (auto elim!: readsOnlyE simp: writeTrace_def)
qed

lemma reads_after_write:
  assumes "writesOnce log W f" and "\<And>a. readsOnly log (g a)"
  shows "writesOnce log W (thenDo f g)"
  unfolding writesOnce_def
proof (intro allI impI)
  fix s out s'
  assume "thenDo f g s = (out, s')"
  then show "\<exists>rqs. log s' = log s @ rqs \<and> writeTrace W out rqs"
  proof (cases rule: thenDo_cases)
    case (1 a s1)
    from assms(1) 1(1) obtain r1 where r1: "log s1 = log s @ r1" "writeTrace W (Value a) r1" by (elim writesOnceE)
    from assms(2) [of a] 1(2) obtain r2 where "log s' = log s1 @ r2" "filter isWrite r2 = []" "\<forall>rq \<in> set r2. \<not> isWrite rq"
      by (elim readsOnlyE)
    with r1 show ?thesis by (intro exI [of _ "r1 @ r2"]) (auto simp: writeTrace_def)
  next
    case (2 err)
    with assms(1) show ?thesis by (auto elim!: writesOnceE simp: writeTrace_def)
  next
    case 3
    with assms(1) show ?thesis by (auto elim!: writesOnceE simp: writeTrace_def)
  qed
qed

lemma writes_after_pure:
  "(\<And>a. r = Inr a \<Longrightarrow> writesOnce log W (g a)) \<Longrightarrow> writesOnce log W (thenDo (pureOp r) g)"
  "(\<And>a. p = Some a \<Longrightarrow> writesOnce log W (g a)) \<Longrightarrow> writesOnce log W (thenDo (deref p) g)"
  by (rule writes_after_reads; simp)+

lemma writeTrace_weaken: "writeTrace W out rqs \<Longrightarrow> (\<And>rq. W rq \<Longrightarrow> W' rq) \<Longrightarrow> writeTrace W' out rqs"
  by (auto simp: writeTrace_def)

lemma writesOnce_weaken:
  assumes "writesOnce log W f" and "\<And>rq. W rq \<Longrightarrow> W' rq"
  shows "writesOnce log W' f"
  unfolding writesOnce_def
proof (intro allI impI)
  fix s out s'
  assume "f s = (out, s')"
  with assms(1) obtain rqs where "log s' = log s @ rqs" "writeTrace W out rqs" by (rule writesOnceE)
  with writeTrace_weaken [of W out rqs W'] assms(2) show "\<exists>rqs. log s' = log s @ rqs \<and> writeTrace W' out rqs" by blast
qed

section \<open>The operations over a watched client\<close>

text \<open>A book that is selected is one of those the client has cached.\<close>

lemma bookByID_Value:
  assumes "bookByID e lib ident s = (Value book, s')"
  shows "\<exists>st. cl_state (fst s') = Some st \<and> map_of (ds_byID st) ident = Some book"
proof -
  let ?look = "\<lambda>s. case cl_state (fst s) of
      None \<Rightarrow> (Panicked, s)
    | Some st \<Rightarrow> (case map_of (ds_byID st) ident of
        None \<Rightarrow> (Failed (contactsValidationError ''address_book is not a discovered address book identifier''), s)
      | Some book \<Rightarrow> (Value book, s))"
  from assms obtain s1 where "?look s1 = (Value book, s')" by (auto simp: bookByID_def thenDo_Value)
  then show ?thesis by (cases "cl_state (fst s1)") (auto split: option.splits)
qed

text \<open>A client whose doer is configured: what each function sends, once and for all.\<close>

locale contact_service = contact_wire e httpDo wire
  for e :: "'w contactsEnv"
    and httpDo :: "contactRequest \<Rightarrow> 'w \<Rightarrow> (contactHTTPResponse option \<times> bool) \<times> 'w"
    and wire :: "'w \<Rightarrow> contactRequest list" +
  assumes configured: "cv_do e = Some httpDo"
begin

lemma davOp_reads:
  assumes "\<not> isWriteMethod meth"
  shows "readsOnly wire (davOp e meth target headers body cap book)"
  unfolding readsOnly_def
proof (intro allI impI)
  fix w out w'
  assume "davOp e meth target headers body cap book w = (out, w')"
  then obtain r where "doDAV e meth target headers body cap book w = (r, w')"
    by (auto simp: davOp_def split: prod.splits sum.splits)
  from doDAV_wire [OF configured this] assms
  show "\<exists>rqs. wire w' = wire w @ rqs \<and> (\<forall>rq \<in> set rqs. \<not> isWrite rq)"
    by (auto simp: contactDispatchOk_def isWrite_def)
qed

lemma davOp_writes:
  assumes "isWriteMethod meth"
  shows "writesOnce wire (contactDispatchOk e meth headers body book) (davOp e meth target headers body cap book)"
  unfolding writesOnce_def
proof (intro allI impI)
  fix w out w'
  assume "davOp e meth target headers body cap book w = (out, w')"
  then obtain r where run: "doDAV e meth target headers body cap book w = (r, w')"
    and r: "\<And>v. out = Value v \<Longrightarrow> r = Inr v"
    by (auto simp: davOp_def split: prod.splits sum.splits)
  from doDAV_wire [OF configured run] assms obtain rqs where
    rqs: "wire w' = wire w @ rqs" "\<forall>rq \<in> set rqs. contactDispatchOk e meth headers body book rq" "length rqs \<le> 1" by auto
  have all: "filter isWrite rqs = rqs"
    using rqs(2) assms by (auto simp: filter_id_conv isWrite_def contactDispatchOk_def)
  have "rqs \<noteq> []" if "out = Value v" for v
    using doDAV_write_answered [OF configured assms] run r [OF that] rqs(1) by auto
  with rqs all show "\<exists>rqs. wire w' = wire w @ rqs
      \<and> writeTrace (contactDispatchOk e meth headers body book) out rqs"
    by (intro exI [of _ rqs]) (auto simp: writeTrace_def)
qed

lemmas reads_dav = davOp_reads [of "''PROPFIND''", unfolded isWriteMethod_def, simplified]
  davOp_reads [of "''REPORT''", unfolded isWriteMethod_def, simplified]
  davOp_reads [of "''GET''", unfolded isWriteMethod_def, simplified]

lemma propfind_reads: "readsOnly wire (propfind e target depth body limit)"
  unfolding propfind_def by (intro readsOnly_thenDo reads_dav readsOnly_if readsOnly_pure)

lemma homesLoop_reads: "readsOnly wire (homesLoop e lib homes seen st)"
proof (induction homes arbitrary: seen st)
  case (Cons home homes)
  then show ?case
    by (auto intro!: readsOnly_thenDo propfind_reads split: prod.split)
qed simp

lemma discoverBooks_reads: "readsOnly wire (discoverBooks e lib response)"
  unfolding discoverBooks_def Let_def by (intro readsOnly_if readsOnly_thenDo readsOnly_pure homesLoop_reads)

lemma runDiscovery_reads: "readsOnly wire (runDiscovery e lib baseURL)"
  unfolding runDiscovery_def Let_def
  by (auto intro!: readsOnly_thenDo readsOnly_checkOp propfind_reads discoverBooks_reads
      split: option.split list.split)

lemma discover_reads: "readsOnly (wire \<circ> snd) (discover e lib)"
  unfolding readsOnly_def
proof (intro allI impI)
  fix s out s'
  assume d: "discover e lib s = (out, s')"
  obtain r w1 where run: "runDiscovery e lib (cl_baseURL (fst s)) (cv_withTimeout e (snd s)) = (r, w1)"
    by (rule prod.exhaust)
  with runDiscovery_reads obtain rqs where "wire w1 = wire (snd s) @ rqs" "\<forall>rq \<in> set rqs. \<not> isWrite rq"
    by (rule readsOnlyE) (simp add: timeout_quiet)
  moreover have "snd s' = snd s \<or> snd s' = w1 \<or> snd s' = cv_cancelTimeout e w1"
    using d run by (auto simp: discover_def Let_def split: if_splits outcome.splits)
  ultimately show "\<exists>rqs. (wire \<circ> snd) s' = (wire \<circ> snd) s @ rqs \<and> (\<forall>rq \<in> set rqs. \<not> isWrite rq)"
    by (auto simp: timeout_quiet)
qed

text \<open>An operation that keeps its state sends nothing.\<close>

lemma readsOnly_still: "(\<And>s. snd (f s) = s) \<Longrightarrow> readsOnly log f"
  by (metis append_Nil2 empty_iff empty_set readsOnly_def snd_conv)

lemma bookByID_reads: "readsOnly (wire \<circ> snd) (bookByID e lib ident)"
  unfolding bookByID_def
  by (intro readsOnly_checkOp readsOnly_thenDo discover_reads readsOnly_still) (simp split: option.split)

lemma report_reads: "readsOnly wire (report e lib book body rowLimit byteCap)"
  unfolding report_def Let_def
  by (auto intro!: readsOnly_thenDo reads_dav split: prod.split)

lemma getObject_reads: "readsOnly wire (getObject e lib book target uid)"
  unfolding getObject_def by (intro readsOnly_if readsOnly_pure readsOnly_thenDo reads_dav)

lemma findByUID_reads: "readsOnly wire (findByUID e lib book uid)"
  unfolding findByUID_def
  by (auto intro!: readsOnly_thenDo report_reads getObject_reads split: prod.split list.split)

lemma searchLoop_reads: "readsOnly wire (searchLoop e lib opts books cards bytes matches)"
proof (induction books arbitrary: cards bytes matches)
  case (Cons book books)
  then show ?case by (auto simp: Let_def intro!: readsOnly_thenDo report_reads split: prod.split)
qed simp

lemma newUUID_reads: "readsOnly wire (newUUID e)"
proof -
  have "wire (snd (newUUID e w)) = wire w" for w
    using random_quiet [of w] by (simp add: newUUID_def pureOp_def giveBack_def case_prod_unfold)
  then show ?thesis by (auto simp: readsOnly_def) (metis append_Nil2 empty_iff empty_set snd_conv)
qed

text \<open>The write of each operation, as it is handed to the doer.\<close>

lemma writes_then:
  "isWriteMethod meth \<Longrightarrow> (\<And>r. readsOnly wire (g r))
   \<Longrightarrow> writesOnce wire (contactDispatchOk e meth headers body book)
         (thenDo (davOp e meth target headers body cap book) g)"
  by (intro reads_after_write davOp_writes)

lemma updateObject_writes:
  "writesOnce wire (\<lambda>rq. \<exists>encoded serverETag. validateServerETag (ao_etag ob) = Inr serverETag
      \<and> contactDispatchOk e ''PUT'' [vcardContentType, (''If-Match'', conditionETag (callerETag (uc_etag input)) serverETag)]
          encoded (Some (br_url book)) rq)
    (updateObject e lib input book ob)"
  unfolding updateObject_def
  by (auto intro!: writes_after_pure writesOnce_weaken [OF writes_then] readsOnly_thenDo readsOnly_attempted
      getObject_reads simp: isWriteMethod_def split: option.split) blast

lemma deleteObject_writes:
  assumes "\<not> dc_dryRun input"
  shows "writesOnce wire (\<lambda>rq. \<exists>serverETag. validateServerETag (ao_etag ob) = Inr serverETag
      \<and> contactDispatchOk e ''DELETE'' [(''If-Match'', conditionETag (callerETag (dc_etag input)) serverETag)] []
          (Some (br_url book)) rq)
    (deleteObject e lib input book ob)"
  unfolding deleteObject_def Let_def using assms
  by (auto intro!: writes_after_pure writesOnce_weaken [OF writes_then] simp: isWriteMethod_def split: option.split)

lemma deleteObject_dry_reads: "dc_dryRun input \<Longrightarrow> readsOnly wire (deleteObject e lib input book ob)"
  unfolding deleteObject_def Let_def by (auto intro!: readsOnly_thenDo)

lemma putNew_writes:
  "writesOnce wire (contactDispatchOk e ''PUT'' [vcardContentType, (''If-None-Match'', ''*'')] encoded (Some (br_url book)))
    (putNew e lib book bookId uid target encoded)"
  unfolding putNew_def Let_def
  by (rule writes_then)
    (auto intro!: readsOnly_thenDo readsOnly_attempted getObject_reads simp: isWriteMethod_def split: option.split sum.split)

lemma createInBook_writes:
  "writesOnce wire (\<lambda>rq. \<exists>encoded. contactDispatchOk e ''PUT'' [vcardContentType, (''If-None-Match'', ''*'')] encoded
      (Some (br_url book)) rq)
    (createInBook e lib input book)"
  unfolding createInBook_def Let_def
  by (auto intro!: writes_after_reads writesOnce_checkOp writesOnce_weaken [OF putNew_writes] newUUID_reads)

text \<open>A book is looked up, and the rest of the operation runs in it.\<close>

lemma inBook_trace:
  assumes "\<And>book. writesOnce wire (W book) (g book)"
    and "thenDo (bookByID e lib ident) (\<lambda>book. onWorld (g book)) (c, w) = (out, (c', w'))"
  shows "\<exists>rqs. wire w' = wire w @ rqs
    \<and> writeTrace (\<lambda>rq. \<exists>st book. cl_state c' = Some st \<and> map_of (ds_byID st) ident = Some book \<and> W book rq) out rqs"
  using assms(2)
proof (cases rule: thenDo_cases)
  case (1 book s1)
  from bookByID_Value [OF 1(1)] obtain st where st: "cl_state (fst s1) = Some st" "map_of (ds_byID st) ident = Some book"
    by blast
  from readsOnlyE [OF bookByID_reads 1(1)] obtain r1 where r1: "wire (snd s1) = wire w @ r1" "filter isWrite r1 = []"
    "\<forall>rq \<in> set r1. \<not> isWrite rq" by auto
  from 1(2) have g: "g book (snd s1) = (out, w')" "c' = fst s1" by (auto simp: onWorld_def split: prod.splits)
  from assms(1) g(1) obtain r2 where "wire w' = wire (snd s1) @ r2" "writeTrace (W book) out r2" by (rule writesOnceE)
  with r1 st g(2) show ?thesis by (intro exI [of _ "r1 @ r2"]) (auto simp: writeTrace_def)
next
  case (2 err)
  from readsOnlyE [OF bookByID_reads 2(1)] obtain r1 where "wire w' = wire w @ r1" "filter isWrite r1 = []"
    "\<forall>rq \<in> set r1. \<not> isWrite rq" by auto
  with 2(2) show ?thesis by (intro exI [of _ r1]) (auto simp: writeTrace_def)
next
  case 3
  from readsOnlyE [OF bookByID_reads 3(1)] obtain r1 where "wire w' = wire w @ r1" "filter isWrite r1 = []"
    "\<forall>rq \<in> set r1. \<not> isWrite rq" by auto
  with 3(2) show ?thesis by (intro exI [of _ r1]) (auto simp: writeTrace_def)
qed

text \<open>The write of an operation that looks a contact up, with the book and the object it found.\<close>

lemma lookup_trace:
  assumes "\<And>book ob. writesOnce wire (W book ob) (g book ob)"
    and "thenDo (bookByID e lib ident) (\<lambda>book. onWorld (thenDo (findByUID e lib book uid) (g book))) (c, w) = (out, (c', w'))"
  shows "\<exists>rqs. wire w' = wire w @ rqs
    \<and> writeTrace (\<lambda>rq. \<exists>book ob w1 w2. bookByID e lib ident (c, w) = (Value book, (c', w1))
         \<and> findByUID e lib book uid w1 = (Value ob, w2) \<and> W book ob rq) out rqs"
    (is "\<exists>rqs. _ \<and> writeTrace ?P out rqs")
proof -
  have "\<exists>rqs. (wire \<circ> snd) (c', w') = (wire \<circ> snd) (c, w) @ rqs \<and> writeTrace ?P out rqs"
  proof (rule trace_after_reads [OF bookByID_reads assms(2)])
    fix book s1
    assume b: "bookByID e lib ident (c, w) = (Value book, s1)"
      and "onWorld (thenDo (findByUID e lib book uid) (g book)) s1 = (out, (c', w'))"
    then have s1: "fst s1 = c'" "thenDo (findByUID e lib book uid) (g book) (snd s1) = (out, w')"
      by (auto simp: onWorld_def split: prod.splits)
    have "\<exists>rqs. wire w' = wire (snd s1) @ rqs \<and> writeTrace ?P out rqs"
    proof (rule trace_after_reads [OF findByUID_reads s1(2)])
      fix ob w2
      assume f: "findByUID e lib book uid (snd s1) = (Value ob, w2)" and r: "g book ob w2 = (out, w')"
      from assms(1) r obtain rqs where "wire w' = wire w2 @ rqs" "writeTrace (W book ob) out rqs" by (rule writesOnceE)
      moreover have "bookByID e lib ident (c, w) = (Value book, (c', snd s1))" using b s1(1) by (cases s1) simp
      ultimately show "\<exists>rqs. wire w' = wire w2 @ rqs \<and> writeTrace ?P out rqs"
        using f writeTrace_weaken [of "W book ob" out rqs ?P] by blast
    qed
    then show "\<exists>rqs. (wire \<circ> snd) (c', w') = (wire \<circ> snd) s1 @ rqs \<and> writeTrace ?P out rqs" by simp
  qed
  then show ?thesis by simp
qed

lemma readers_read:
  "readsOnly (wire \<circ> snd) (listAddressBooks e lib)" "readsOnly (wire \<circ> snd) (searchContacts e lib options)"
  "readsOnly (wire \<circ> snd) (getContact e lib ident uid)"
proof -
  show "readsOnly (wire \<circ> snd) (listAddressBooks e lib)"
    unfolding listAddressBooks_def Let_def
    by (intro readsOnly_thenDo discover_reads readsOnly_still) (simp split: option.split)
  show "readsOnly (wire \<circ> snd) (searchContacts e lib options)"
    unfolding searchContacts_def
    by (intro readsOnly_thenDo readsOnly_if readsOnly_pure bookByID_reads discover_reads readsOnly_onWorld
        searchLoop_reads readsOnly_still) (auto simp: giveBack_def split: prod.split)
  show "readsOnly (wire \<circ> snd) (getContact e lib ident uid)"
    unfolding getContact_def Let_def
    by (intro readsOnly_checkOp readsOnly_thenDo readsOnly_if readsOnly_pure bookByID_reads readsOnly_onWorld
        findByUID_reads)
qed

end

interpretation watched: contact_service "recordContacts (e\<lparr>cv_do := Some f\<rparr>)" "recordDo f" snd
  for e :: "'w contactsEnv" and f :: "contactRequest \<Rightarrow> 'w \<Rightarrow> (contactHTTPResponse option \<times> bool) \<times> 'w"
  by (intro contact_service.intro contact_service_axioms.intro contacts.contact_wire_axioms) simp

lemma env_configured: "cv_do e = Some f \<Longrightarrow> e\<lparr>cv_do := Some f\<rparr> = e"
  by simp

section \<open>Properties\<close>

lemma strongETag_nonempty: "contactStrongETag raw = Inr etag \<Longrightarrow> etag \<noteq> []"
  by (auto simp: contactStrongETag_def Let_def split: if_splits)

text \<open>The condition of a write is the caller's entity tag, or else that of the object it changes.\<close>

lemma condition_strong:
  assumes "validateServerETag raw = Inr server" and "errorOf (normalizeCallerETag et) = None"
  shows "contactStrongETag (if et = [] then raw else et) = Inr (conditionETag (callerETag et) server)"
proof (cases "et = []")
  case True
  then show ?thesis
    using assms(1) by (auto simp: conditionETag_def callerETag_def normalizeCallerETag_def validateServerETag_def
        split: sum.splits)
next
  case False
  with assms(2) obtain t where "contactStrongETag et = Inr t"
    by (auto simp: normalizeCallerETag_def errorOf_def split: sum.splits)
  with False strongETag_nonempty [OF this] show ?thesis
    by (simp add: conditionETag_def callerETag_def normalizeCallerETag_def)
qed

definition inSelectedBook :: "contactsClient \<Rightarrow> string \<Rightarrow> contactRequest \<Rightarrow> bool" where
  "inSelectedBook c ident rq \<longleftrightarrow>
     (\<exists>st book. cl_state c = Some st \<and> map_of (ds_byID st) ident = Some book \<and> urlWithin (cq_url rq) (br_url book) False)"

text \<open>
  \<open>servedObject e lib ident uid s ob\<close>: an operation that starts in \<open>s\<close> selects the book \<open>ident\<close> and looks the
  contact \<open>uid\<close> up in it, and \<open>ob\<close> is what the server then answers to the GET of that contact: the entity
  tag of \<open>ob\<close> is the one of the answer's \<open>ETag\<close> header.
\<close>

definition servedObject ::
  "'w contactsEnv \<Rightarrow> contactsLib \<Rightarrow> string \<Rightarrow> string \<Rightarrow> contactsClient \<times> 'w \<Rightarrow> addressObject \<Rightarrow> bool" where
  "servedObject e lib ident uid s ob \<longleftrightarrow>
     (\<exists>book c1 w1 target w2 response w3. bookByID e lib ident s = (Value book, (c1, w1))
        \<and> findByUID e lib book uid w1 = (Value ob, w3)
        \<and> doDAV e ''GET'' target [(''Accept'', ''text/vcard'')] [] maxCardBytes (Some (br_url book)) w2 = (Inr response, w3)
        \<and> contactETagFromHeader (headerValues (cd_header response) ''ETag'') = Inr (ao_etag ob))"

text \<open>
  The condition of a write: \<open>If-Match\<close> with a strong entity tag, which is the caller's (\<open>et\<close>) when the
  caller gave one and otherwise the one the server sent with the contact in this operation.
\<close>

definition conditional ::
  "'w contactsEnv \<Rightarrow> contactsLib \<Rightarrow> string \<Rightarrow> string \<Rightarrow> contactsClient \<times> 'w \<Rightarrow> string \<Rightarrow> contactRequest \<Rightarrow> bool" where
  "conditional e lib ident uid s et rq \<longleftrightarrow>
     (\<exists>ob etag. servedObject e lib ident uid s ob \<and> (''If-Match'', etag) \<in> set (cq_header rq)
        \<and> contactStrongETag (if et = [] then ao_etag ob else et) = Inr etag)"

lemma found_served:
  assumes "bookByID e lib ident s = (Value book, (c1, w1))" and "findByUID e lib book uid w1 = (Value ob, w3)"
  shows "servedObject e lib ident uid s ob"
proof -
  from assms(2) obtain target w2 where "getObject e lib book target uid w2 = (Value ob, w3)"
    by (auto simp: findByUID_def thenDo_Value split: if_splits list.splits)
  then obtain response where "davOp e ''GET'' target [(''Accept'', ''text/vcard'')] [] maxCardBytes (Some (br_url book)) w2
      = (Value response, w3)" and ob: "objectOf e lib book uid response = Value ob"
    by (auto simp: getObject_def thenDo_Value split: if_splits)
  then have "doDAV e ''GET'' target [(''Accept'', ''text/vcard'')] [] maxCardBytes (Some (br_url book)) w2 = (Inr response, w3)"
    by (auto simp: davOp_def split: prod.splits sum.splits)
  moreover from ob have "contactETagFromHeader (headerValues (cd_header response) ''ETag'') = Inr (ao_etag ob)"
    by (auto simp: objectOf_def split: if_splits option.splits sum.splits)
  ultimately show ?thesis using assms unfolding servedObject_def by blast
qed

text \<open>The writes of an update and of a deletion, as the transport hands them over.\<close>

definition updateRequest :: "'w contactsEnv \<Rightarrow> string \<Rightarrow> bookRecord \<Rightarrow> addressObject \<Rightarrow> contactRequest \<Rightarrow> bool" where
  "updateRequest e et book ob rq \<longleftrightarrow>
     (\<exists>encoded server. validateServerETag (ao_etag ob) = Inr server
        \<and> contactDispatchOk e ''PUT'' [vcardContentType, (''If-Match'', conditionETag (callerETag et) server)]
            encoded (Some (br_url book)) rq)"

definition deleteRequest :: "'w contactsEnv \<Rightarrow> string \<Rightarrow> bookRecord \<Rightarrow> addressObject \<Rightarrow> contactRequest \<Rightarrow> bool" where
  "deleteRequest e et book ob rq \<longleftrightarrow>
     (\<exists>server. validateServerETag (ao_etag ob) = Inr server
        \<and> contactDispatchOk e ''DELETE'' [(''If-Match'', conditionETag (callerETag et) server)] []
            (Some (br_url book)) rq)"

lemma dispatch_in_book:
  assumes "contactDispatchOk e meth headers body (Some (br_url book)) rq" and "meth \<noteq> ''REPORT''"
  shows "cq_method rq = meth" "cq_header rq = headers" "urlWithin (cq_url rq) (br_url book) False"
  using assms by (auto simp: contactDispatchOk_def outsideBook_def)

text \<open>What such a write is, for the operation that looked the contact up.\<close>

lemma lookup_write:
  assumes "bookByID e lib ident s = (Value book, (c', w1))" and "findByUID e lib book uid w1 = (Value ob, w2)"
    and "validateServerETag (ao_etag ob) = Inr server" and "errorOf (normalizeCallerETag et) = None"
    and "contactDispatchOk e meth headers body (Some (br_url book)) rq" and "meth \<noteq> ''REPORT''"
    and "(''If-Match'', conditionETag (callerETag et) server) \<in> set headers"
  shows "cq_method rq = meth \<and> inSelectedBook c' ident rq \<and> conditional e lib ident uid s et rq"
proof -
  from bookByID_Value [OF assms(1)] obtain st where "cl_state c' = Some st" "map_of (ds_byID st) ident = Some book" by auto
  moreover note dispatch_in_book [OF assms(5,6)]
  moreover have "conditional e lib ident uid s et rq"
    using found_served [OF assms(1,2)] condition_strong [OF assms(3,4)] assms(7) dispatch_in_book(2) [OF assms(5,6)]
    unfolding conditional_def by (metis (no_types, lifting))
  ultimately show ?thesis unfolding inSelectedBook_def by blast
qed

text \<open>
  C22. An update writes at most once, under a condition, in the selected book. Whatever the server
  answers, \<open>UpdateContact\<close> sends at most one PUT and exactly one when it reports success; its URL is below
  the address book the caller selected among the discovered ones, and its \<open>If-Match\<close> is a strong entity
  tag: the caller's when the caller gave one, and otherwise the one of the \<open>ETag\<close> header with which the
  server answered the GET of this contact in this operation.
\<close>

theorem contact_update_conditional:
  assumes "cv_do e = Some f"
    and "updateContact (recordContacts e) lib (Some input) (c, (w, [])) = (out, (c', (w', sent)))"
  shows "length (filter isWrite sent) \<le> 1 \<and> (\<forall>r. out = Value r \<longrightarrow> filter isWrite sent \<noteq> [])
    \<and> (\<forall>rq \<in> set sent. isWrite rq \<longrightarrow> cq_method rq = ''PUT'' \<and> inSelectedBook c' (uc_addressBook input) rq
         \<and> conditional (recordContacts e) lib (uc_addressBook input) (uc_uid input) (c, (w, [])) (uc_etag input) rq)"
proof (cases "validateUpdate (kl_parsers lib) (kl_patchOrder lib) (Some input)")
  case (Some err)
  with assms(2) show ?thesis by (simp add: updateContact_def)
next
  case None
  then have et: "errorOf (normalizeCallerETag (uc_etag input)) = None"
    by (simp add: validateUpdate_def firstError_iff)
  let ?e = "recordContacts (e\<lparr>cv_do := Some f\<rparr>)"
  have e: "?e = recordContacts e" using assms(1) by (simp add: env_configured)
  let ?W = "updateRequest ?e (uc_etag input)"
  have run: "thenDo (bookByID ?e lib (uc_addressBook input)) (\<lambda>book.
      onWorld (thenDo (findByUID ?e lib book (uc_uid input)) (updateObject ?e lib input book))) (c, (w, []))
      = (out, (c', (w', sent)))"
    using assms None by (simp add: updateContact_def env_configured)
  have "writesOnce snd (?W book ob) (updateObject ?e lib input book ob)" for book ob
    unfolding updateRequest_def by (rule watched.updateObject_writes)
  from watched.lookup_trace [OF this run] have t: "writeTrace (\<lambda>rq. \<exists>book ob w1 w2.
      bookByID ?e lib (uc_addressBook input) (c, (w, [])) = (Value book, (c', w1))
      \<and> findByUID ?e lib book (uc_uid input) w1 = (Value ob, w2) \<and> ?W book ob rq) out sent" by simp
  have "cq_method rq = ''PUT'' \<and> inSelectedBook c' (uc_addressBook input) rq
      \<and> conditional ?e lib (uc_addressBook input) (uc_uid input) (c, (w, [])) (uc_etag input) rq"
    if "bookByID ?e lib (uc_addressBook input) (c, (w, [])) = (Value book, (c', w1))"
      "findByUID ?e lib book (uc_uid input) w1 = (Value ob, w2)" "?W book ob rq" for book ob w1 w2 rq
    using that(3) lookup_write [OF that(1,2) _ et] unfolding updateRequest_def by auto
  with t show ?thesis unfolding writeTrace_def e by blast
qed

text \<open>
  C23. A deletion is conditional, and a dry run deletes nothing. \<open>DeleteContact\<close> sends at most one DELETE
  and exactly one when it reports a deletion, below the selected address book and with a strong
  \<open>If-Match\<close> that is the caller's when the caller gave one and otherwise the tag the server sent with the
  contact in this operation; with \<open>dry_run\<close> no write is sent at all.
\<close>

theorem contact_delete_conditional:
  assumes "cv_do e = Some f"
    and "deleteContact (recordContacts e) lib (Some input) (c, (w, [])) = (out, (c', (w', sent)))"
  shows "(dc_dryRun input \<longrightarrow> filter isWrite sent = [])
    \<and> length (filter isWrite sent) \<le> 1 \<and> (\<forall>r. out = Value r \<longrightarrow> \<not> dc_dryRun input \<longrightarrow> filter isWrite sent \<noteq> [])
    \<and> (\<forall>rq \<in> set sent. isWrite rq \<longrightarrow> cq_method rq = ''DELETE'' \<and> inSelectedBook c' (dc_addressBook input) rq
         \<and> conditional (recordContacts e) lib (dc_addressBook input) (dc_uid input) (c, (w, [])) (dc_etag input) rq)"
proof (cases "validateDelete (Some input)")
  case (Some err)
  with assms(2) show ?thesis by (simp add: deleteContact_def)
next
  case None
  then have et: "errorOf (normalizeCallerETag (dc_etag input)) = None"
    by (simp add: validateDelete_def firstError_iff)
  let ?e = "recordContacts (e\<lparr>cv_do := Some f\<rparr>)"
  have e: "?e = recordContacts e" using assms(1) by (simp add: env_configured)
  have run: "thenDo (bookByID ?e lib (dc_addressBook input)) (\<lambda>book.
      onWorld (thenDo (findByUID ?e lib book (dc_uid input)) (deleteObject ?e lib input book))) (c, (w, []))
      = (out, (c', (w', sent)))"
    using assms None by (simp add: deleteContact_def env_configured)
  show ?thesis
  proof (cases "dc_dryRun input")
    case True
    have "readsOnly (snd \<circ> snd) (thenDo (bookByID ?e lib (dc_addressBook input)) (\<lambda>book.
        onWorld (thenDo (findByUID ?e lib book (dc_uid input)) (deleteObject ?e lib input book))))"
      by (intro readsOnly_thenDo watched.bookByID_reads readsOnly_onWorld watched.findByUID_reads
          watched.deleteObject_dry_reads True)
    from readsOnlyE [OF this run] obtain rqs where "sent = rqs" "filter isWrite rqs = []" "\<forall>rq \<in> set rqs. \<not> isWrite rq"
      by auto
    with True show ?thesis by simp
  next
    case False
    let ?W = "deleteRequest ?e (dc_etag input)"
    have "writesOnce snd (?W book ob) (deleteObject ?e lib input book ob)" for book ob
      unfolding deleteRequest_def by (rule watched.deleteObject_writes [OF False])
    from watched.lookup_trace [OF this run] have t: "writeTrace (\<lambda>rq. \<exists>book ob w1 w2.
        bookByID ?e lib (dc_addressBook input) (c, (w, [])) = (Value book, (c', w1))
        \<and> findByUID ?e lib book (dc_uid input) w1 = (Value ob, w2) \<and> ?W book ob rq) out sent" by simp
    have "cq_method rq = ''DELETE'' \<and> inSelectedBook c' (dc_addressBook input) rq
        \<and> conditional ?e lib (dc_addressBook input) (dc_uid input) (c, (w, [])) (dc_etag input) rq"
      if "bookByID ?e lib (dc_addressBook input) (c, (w, [])) = (Value book, (c', w1))"
        "findByUID ?e lib book (dc_uid input) w1 = (Value ob, w2)" "?W book ob rq" for book ob w1 w2 rq
      using that(3) lookup_write [OF that(1,2) _ et] unfolding deleteRequest_def by auto
    with t show ?thesis using False unfolding writeTrace_def e by blast
  qed
qed

text \<open>The same of a creation, whose condition is that nothing is there yet.\<close>

theorem contact_create_conditional:
  assumes "cv_do e = Some f"
    and "createContact (recordContacts e) lib (Some input) (c, (w, [])) = (out, (c', (w', sent)))"
  shows "length (filter isWrite sent) \<le> 1 \<and> (\<forall>r. out = Value r \<longrightarrow> filter isWrite sent \<noteq> [])
    \<and> (\<forall>rq \<in> set sent. isWrite rq \<longrightarrow> cq_method rq = ''PUT'' \<and> inSelectedBook c' (cc_addressBook input) rq
         \<and> (''If-None-Match'', ''*'') \<in> set (cq_header rq))"
proof (cases "validateCreate (kl_parsers lib) (kl_order lib) (Some input)")
  case (Some err)
  with assms(2) show ?thesis by (simp add: createContact_def)
next
  case None
  let ?e = "recordContacts (e\<lparr>cv_do := Some f\<rparr>)"
  have run: "thenDo (bookByID ?e lib (cc_addressBook input)) (\<lambda>book. onWorld (createInBook ?e lib input book)) (c, (w, []))
      = (out, (c', (w', sent)))"
    using assms None by (simp add: createContact_def env_configured)
  from watched.inBook_trace [OF watched.createInBook_writes run] obtain rqs where "sent = rqs"
    and t: "writeTrace (\<lambda>rq. \<exists>st book. cl_state c' = Some st \<and> map_of (ds_byID st) (cc_addressBook input) = Some book
      \<and> (\<exists>encoded. contactDispatchOk ?e ''PUT'' [vcardContentType, (''If-None-Match'', ''*'')] encoded
          (Some (br_url book)) rq)) out rqs" by auto
  moreover have "cq_method rq = ''PUT'' \<and> inSelectedBook c' (cc_addressBook input) rq
      \<and> (''If-None-Match'', ''*'') \<in> set (cq_header rq)"
    if "cl_state c' = Some st" "map_of (ds_byID st) (cc_addressBook input) = Some book"
      "contactDispatchOk ?e ''PUT'' [vcardContentType, (''If-None-Match'', ''*'')] encoded (Some (br_url book)) rq"
    for st book rq encoded
    using dispatch_in_book [OF that(3), simplified] that(1,2) unfolding inSelectedBook_def by auto
  ultimately show ?thesis unfolding writeTrace_def by blast
qed

text \<open>C24. Searching, reading and listing contacts sends no write, whatever happens.\<close>

theorem contact_reads_never_write:
  assumes "cv_do e = Some f"
  shows "filter isWrite (snd (snd (snd (searchContacts (recordContacts e) lib options (c, (w, [])))))) = []
    \<and> filter isWrite (snd (snd (snd (getContact (recordContacts e) lib ident uid (c, (w, [])))))) = []
    \<and> filter isWrite (snd (snd (snd (listAddressBooks (recordContacts e) lib (c, (w, [])))))) = []"
proof -
  have "filter isWrite (snd (snd s')) = []" if "readsOnly (snd \<circ> snd) g" "g (c, (w, [])) = (out, s')"
    for g :: "('b, contactsClient \<times> 'a \<times> contactRequest list) contactOp" and out s'
    by (rule readsOnlyE [OF that]) simp
  note quiet = this [OF _ prod.collapse [symmetric]]
  note readers = watched.readers_read [of f e lib, unfolded env_configured [OF assms]]
  from quiet [OF readers(1)] quiet [OF readers(2)] quiet [OF readers(3)] show ?thesis by blast
qed

section \<open>A server with one contact\<close>

definition contactDocument :: "bytes \<Rightarrow> xmlStream" where
  "contactDocument body =
     (if body = ''R'' then (sampleAnswer ''/h/b/x.vcf'' (cardElem ''address-data'' [CharData sampleVCard]), False)
      else sampleDocument body)"

definition contactServer :: "contactRequest \<Rightarrow> unit \<Rightarrow> (contactHTTPResponse option \<times> bool) \<times> unit" where
  "contactServer rq w =
     (let answer = (\<lambda>status header body.
            ((Some \<lparr>hr_status = status, hr_header = header, hr_request = None, hr_body = Some (body, False)\<rparr>, False), w))
      in if cq_method rq = ''PROPFIND'' then sampleServer 207 rq w
         else if cq_method rq = ''REPORT'' then answer 207 [] ''R''
         else if cq_method rq = ''GET''
         then answer 200 [(''Content-Type'', [''text/vcard'']), (''ETag'', [[dquote, CHR ''1'', dquote]])] sampleVCard
         else answer 204 [] [])"

definition contactServerEnv :: "unit contactsEnv" where
  "contactServerEnv = (contactsEnvOf contactServer)\<lparr>cv_xml := contactDocument\<rparr>"

definition sampleBookID :: string where
  "sampleBookID = opaqueBookID (\<lambda>_. replicate 32 CHR ''x'') (sampleContactURL ''/h/b/'')"

definition sampleDelete :: "bool \<Rightarrow> deleteContactInput" where
  "sampleDelete dry = \<lparr>dc_addressBook = sampleBookID, dc_uid = ''u1'', dc_etag = [], dc_dryRun = dry\<rparr>"

definition sampleUpdate :: updateContactInput where
  "sampleUpdate = \<lparr>uc_addressBook = sampleBookID, uc_uid = ''u1'', uc_etag = [dquote, CHR ''0'', dquote],
     uc_patch = samplePatch\<rparr>"

lemma contactsEnvOf_do [simp]: "cv_do (contactsEnvOf f) = Some f"
  by (simp add: contactsEnvOf_def)

text \<open>One answered request: a healthy environment, a valid target inside the book, a final status.\<close>

lemma served:
  assumes "validateContactsURL toLower (Some isContactsHost) target = None"
    and "validateContactsURL toLower (Some isContactsHost) book = None" and "\<not> outsideBook (Some book) meth target"
    and "f \<lparr>cq_method = meth, cq_url = target, cq_header = headers, cq_body = body\<rparr> w =
      ((Some \<lparr>hr_status = status, hr_header = h, hr_request = None, hr_body = Some (data, False)\<rparr>, False), w)"
    and "200 \<le> status" "status < 300" and "int (length data) \<le> cap" "0 < cap"
  shows "davOp (recordContacts ((contactsEnvOf f)\<lparr>cv_xml := x\<rparr>)) meth target headers body cap (Some book) (w, log) =
    (Value \<lparr>cd_status = status, cd_header = h, cd_body = data, cd_url = target\<rparr>,
     (w, log @ [\<lparr>cq_method = meth, cq_url = target, cq_header = headers, cq_body = body\<rparr>]))"
proof -
  let ?e = "recordContacts ((contactsEnvOf f)\<lparr>cv_xml := x\<rparr>)"
  let ?resp = "\<lparr>hr_status = status, hr_header = h, hr_request = None, hr_body = Some (data, False)\<rparr>"
  have url: "validURL ?e target = None" "validURL ?e book = None" using assms(1,2) by (simp_all add: contactsEnvOf_def)
  have answer: "contactAnswer ?e meth cap (Some book) 0 target ?resp =
      CAnswer \<lparr>cd_status = status, cd_header = h, cd_body = data, cd_url = target\<rparr>"
    using assms url by (simp add: contactAnswer_def Let_def silentRedirect_def contactResponseURL_def contactIsRedirect_def
        isAmbiguousMutationStatus_def bodyStep_def readCapped_def)
  have "contactExchange ?e (recordDo f) meth headers body cap (Some book) 0 target (w, log) =
      (CAnswer \<lparr>cd_status = status, cd_header = h, cd_body = data, cd_url = target\<rparr>,
       (w, log @ [\<lparr>cq_method = meth, cq_url = target, cq_header = headers, cq_body = body\<rparr>]))"
    using assms(4) answer by (simp add: contactExchange_def recordDo_def recordContacts_def contactsEnvOf_def)
  moreover have "waitAttempt ?e b (w, log) = (None, (w, log))" "acquireSlot ?e (w, log) = (None, (w, log))" for b
    by (simp_all add: waitAttempt_def acquireSlot_def recordContacts_def contactsEnvOf_def liftOut_def contactMaxRateWait_def)
  moreover have "\<not> contactIsRetryStatus status" using assms(5,6) by (auto simp: contactIsRetryStatus_def)
  ultimately have "contactLoop ?e (recordDo f) meth headers body cap (Some book) 0 0 target (w, log) =
      (Inr \<lparr>cd_status = status, cd_header = h, cd_body = data, cd_url = target\<rparr>,
       (w, log @ [\<lparr>cq_method = meth, cq_url = target, cq_header = headers, cq_body = body\<rparr>]))"
    using url assms(3) by (subst contactLoop.simps) simp
  then show ?thesis using url by (simp add: davOp_def doDAV_def)
qed

definition sampleBookRecord :: bookRecord where
  "sampleBookRecord = \<lparr>br_public = \<lparr>ab_identifier = sampleBookID, ab_name = [], ab_description = [],
     ab_supportedVersions = [], ab_writeVersion = ''3.0'', ab_maxResourceSize = 0\<rparr>, br_url = sampleContactURL ''/h/b/''\<rparr>"

definition cachedClient :: contactsClient where
  "cachedClient = \<lparr>cl_baseURL = ''/'', cl_state = Some \<lparr>ds_books = [sampleBookRecord],
     ds_byID = [(sampleBookID, sampleBookRecord)], ds_homes = [sampleContactURL ''/h/'']\<rparr>, cl_discovering = False\<rparr>"

abbreviation sampleWatch :: "(unit \<times> contactRequest list) contactsEnv" where
  "sampleWatch \<equiv> recordContacts contactServerEnv"

lemma sample_urls:
  "validateContactsURL toLower (Some isContactsHost) (sampleContactURL ''/h/b/'') = None"
  "validateContactsURL toLower (Some isContactsHost) (sampleContactURL ''/h/b/x.vcf'') = None"
  "urlWithin (sampleContactURL ''/h/b/x.vcf'') (sampleContactURL ''/h/b/'') False"
  "urlWithin (sampleContactURL ''/h/b/'') (sampleContactURL ''/h/b/'') True"
  by code_simp+

lemma sample_book_url: "br_url sampleBookRecord = sampleContactURL ''/h/b/''"
  by (simp add: sampleBookRecord_def)

lemma sample_book: "bookByID sampleWatch sampleContactsLib sampleBookID (cachedClient, s) = (Value sampleBookRecord, (cachedClient, s))"
proof -
  have "validateAddressBookID sampleBookID = None" by code_simp
  then show ?thesis
    by (simp add: bookByID_def checkOp_def thenDo_def discover_def cachedClient_def)
qed

definition sampleETag :: string where "sampleETag = [dquote, CHR ''1'', dquote]"

lemma sample_object:
  "\<exists>c. decodeCard sampleLib sampleVCard = Inr (c, ''3.0'') \<and> decodeRawCard sampleLib sampleVCard = Inr (c, ''3.0'', sampleRaw)"
proof -
  have "case decodeRawCard sampleLib sampleVCard of Inr (c, v, r) \<Rightarrow> v = ''3.0'' | _ \<Rightarrow> False" by code_simp
  then obtain c r where d: "decodeRawCard sampleLib sampleVCard = Inr (c, ''3.0'', r)"
    by (auto split: sum.splits)
  then have "r = sampleRaw" using sampleVCard_parses by (auto simp: decodeRawCard_def Let_def split: if_splits option.splits)
  with d show ?thesis by (simp add: decodeCard_def)
qed

lemma sample_lib [simp]: "kl_card sampleContactsLib = sampleLib" "kl_access sampleContactsLib = sampleAccess"
  "kl_mediaType sampleContactsLib = Some" "vl_value sampleLib c ''UID'' = ''u1''"
  by (simp_all add: sampleContactsLib_def sampleLib_def)

lemma sample_report:
  "\<exists>ob rqs. report sampleWatch sampleContactsLib sampleBookRecord query 3 maxReportBytes ((), log) =
     (Value ([ob], False, 1), ((), log @ rqs)) \<and> ao_url ob = sampleContactURL ''/h/b/x.vcf'' \<and> filter isWrite rqs = []"
proof -
  let ?rq = "\<lparr>cq_method = ''REPORT'', cq_url = sampleContactURL ''/h/b/'', cq_header = [xmlContentType, (''Depth'', ''1'')],
     cq_body = query\<rparr>"
  let ?resp = "\<lparr>cd_status = 207, cd_header = [], cd_body = ''R'', cd_url = sampleContactURL ''/h/b/''\<rparr>"
  have dav: "davOp sampleWatch ''REPORT'' (sampleContactURL ''/h/b/'') [xmlContentType, (''Depth'', ''1'')] query maxReportBytes
      (Some (sampleContactURL ''/h/b/'')) ((), log) = (Value ?resp, ((), log @ [?rq]))"
    unfolding contactServerEnv_def
    by (rule served) (simp_all add: sample_urls outsideBook_def contactServer_def maxReportBytes_def)
  obtain row where rows: "decodeMultiStatus (contactDocument ''R'') 3 = Inr ([row], False)"
    and row: "ms_href row = ''/h/b/x.vcf''" "map_option dp_addressData (successfulProp row) = Some (Some sampleVCard)"
      "strongETagFromResponse row = Inr []"
  proof -
    have "case decodeMultiStatus (contactDocument ''R'') 3 of
        Inr ([row], False) \<Rightarrow> ms_href row = ''/h/b/x.vcf''
          \<and> map_option dp_addressData (successfulProp row) = Some (Some sampleVCard) \<and> strongETagFromResponse row = Inr []
      | _ \<Rightarrow> False"
      by code_simp
    with that show thesis by (auto split: sum.splits prod.splits list.splits bool.splits)
  qed
  have trims: "trimSpace sampleVCard \<noteq> []" "trimSpace ''/h/b/x.vcf'' = ''/h/b/x.vcf''" by code_simp+
  have url: "resolveAndValidate sampleWatch (sampleContactURL ''/h/b/'') ''/h/b/x.vcf'' = Inr (sampleContactURL ''/h/b/x.vcf'')"
    using trims(2) sample_urls(2) by (simp add: resolveAndValidate_def contactServerEnv_def contactsEnvOf_def)
  obtain c where "decodeCard sampleLib sampleVCard = Inr (c, ''3.0'')" using sample_object by blast
  with row trims url have objects: "reportRows sampleWatch sampleContactsLib sampleBookRecord ?resp [row] =
      Inr [\<lparr>ao_url = sampleContactURL ''/h/b/x.vcf'', ao_card = c, ao_raw = None, ao_version = ''3.0'', ao_etag = []\<rparr>]"
    by (auto simp: sampleBookRecord_def sample_urls)
  show ?thesis
    using rows dav objects
    by (simp add: report_def thenDo_def sampleBookRecord_def pureOp_def giveBack_def contactServerEnv_def isWrite_def
        isWriteMethod_def)
qed

definition foundObject :: "card \<Rightarrow> addressObject" where
  "foundObject c = \<lparr>ao_url = sampleContactURL ''/h/b/x.vcf'', ao_card = c, ao_raw = Some sampleRaw, ao_version = ''3.0'',
     ao_etag = sampleETag\<rparr>"

lemma sample_get:
  "\<exists>c rq. getObject sampleWatch sampleContactsLib sampleBookRecord (sampleContactURL ''/h/b/x.vcf'') ''u1'' ((), log) =
     (Value (foundObject c), ((), log @ [rq])) \<and> \<not> isWrite rq"
proof -
  let ?h = "[(''Content-Type'', [''text/vcard'']), (''ETag'', [sampleETag])]"
  have "davOp sampleWatch ''GET'' (sampleContactURL ''/h/b/x.vcf'') [(''Accept'', ''text/vcard'')] [] maxCardBytes
      (Some (sampleContactURL ''/h/b/'')) ((), log)
    = (Value \<lparr>cd_status = 200, cd_header = ?h, cd_body = sampleVCard, cd_url = sampleContactURL ''/h/b/x.vcf''\<rparr>,
       ((), log @ [\<lparr>cq_method = ''GET'', cq_url = sampleContactURL ''/h/b/x.vcf'',
          cq_header = [(''Accept'', ''text/vcard'')], cq_body = []\<rparr>]))"
    unfolding contactServerEnv_def
    by (rule served) (simp_all add: sample_urls outsideBook_def contactServer_def maxCardBytes_def sampleETag_def
        sampleVCard_def sampleCard_def)
  moreover obtain c where "decodeRawCard sampleLib sampleVCard = Inr (c, ''3.0'', sampleRaw)" using sample_object by blast
  moreover have "acceptableVCardContentType sampleWatch ''text/vcard''" "contactStrongETag sampleETag = Inr sampleETag"
    by code_simp+
  ultimately show ?thesis
    by (intro exI [of _ c]) (simp add: getObject_def thenDo_def giveBack_def objectOf_def sampleBookRecord_def sample_urls headerGet_def
        headerValues_def contactETagFromHeader_def foundObject_def isWrite_def isWriteMethod_def)
qed

lemma sample_find:
  "\<exists>c rqs. findByUID sampleWatch sampleContactsLib sampleBookRecord ''u1'' ((), log) =
     (Value (foundObject c), ((), log @ rqs)) \<and> filter isWrite rqs = []"
proof -
  obtain ob rqs where r: "report sampleWatch sampleContactsLib sampleBookRecord (uidQuery ''u1'') 3 maxReportBytes ((), log) =
     (Value ([ob], False, 1), ((), log @ rqs))" "ao_url ob = sampleContactURL ''/h/b/x.vcf''" "filter isWrite rqs = []"
    using sample_report by blast
  obtain c rq where "getObject sampleWatch sampleContactsLib sampleBookRecord (sampleContactURL ''/h/b/x.vcf'') ''u1''
     ((), log @ rqs) = (Value (foundObject c), ((), (log @ rqs) @ [rq]))" "\<not> isWrite rq"
    using sample_get by blast
  with r show ?thesis
    by (intro exI [of _ c] exI [of _ "rqs @ [rq]"]) (simp add: findByUID_def thenDo_def)
qed

text \<open>A deletion that goes through, a dry run, and an update with the entity tag of the caller.\<close>

lemma sample_group: "cardIsGroup sampleLib sampleAccess c = False"
proof -
  have "\<not> equalFold (trimSpace ''u1'') ''group''" by code_simp
  then show ?thesis by (simp add: cardIsGroup_def sampleAccess_def sampleLib_def appleGroupField_def)
qed

lemma sample_server_etag: "validateServerETag sampleETag = Inr sampleETag"
  by code_simp

lemma sample_delete_runs:
  "\<exists>r sent. deleteContact sampleWatch sampleContactsLib (Some (sampleDelete False)) (cachedClient, ((), [])) =
     (Value r, (cachedClient, ((), sent)))"
proof -
  obtain c rqs where f: "findByUID sampleWatch sampleContactsLib sampleBookRecord ''u1'' ((), []) =
     (Value (foundObject c), ((), rqs))" using sample_find [of "[]"] by auto
  have d: "davOp sampleWatch ''DELETE'' (sampleContactURL ''/h/b/x.vcf'') headers [] maxErrorBodyBytes
      (Some (sampleContactURL ''/h/b/'')) ((), rqs)
    = (Value \<lparr>cd_status = 204, cd_header = [], cd_body = [], cd_url = sampleContactURL ''/h/b/x.vcf''\<rparr>,
       ((), rqs @ [\<lparr>cq_method = ''DELETE'', cq_url = sampleContactURL ''/h/b/x.vcf'', cq_header = headers, cq_body = []\<rparr>]))"
    for headers
    unfolding contactServerEnv_def
    by (rule served) (simp_all add: sample_urls outsideBook_def contactServer_def maxErrorBodyBytes_def)
  have "validateDelete (Some (sampleDelete False)) = None" by code_simp
  with f d show ?thesis
    by (simp add: deleteContact_def sampleDelete_def thenDo_def sample_book onWorld_def deleteObject_def foundObject_def
        sample_group sample_server_etag pureOp_def giveBack_def sample_book_url classifyDAVError_def)
qed

lemma sample_update_runs:
  "\<exists>r sent. updateContact sampleWatch sampleContactsLib (Some sampleUpdate) (cachedClient, ((), [])) =
     (Value r, (cachedClient, ((), sent)))"
proof -
  obtain c rqs where f: "findByUID sampleWatch sampleContactsLib sampleBookRecord ''u1'' ((), []) =
     (Value (foundObject c), ((), rqs))" using sample_find [of "[]"] by auto
  have p: "\<exists>log'. davOp sampleWatch ''PUT'' (sampleContactURL ''/h/b/x.vcf'') headers samplePatched maxErrorBodyBytes
      (Some (sampleContactURL ''/h/b/'')) ((), rqs)
    = (Value \<lparr>cd_status = 204, cd_header = [], cd_body = [], cd_url = sampleContactURL ''/h/b/x.vcf''\<rparr>, ((), log'))"
    for headers
    unfolding contactServerEnv_def
    by (rule exI, rule served) (simp_all add: sample_urls outsideBook_def contactServer_def maxErrorBodyBytes_def)
  have v: "validateUpdate (kl_parsers sampleContactsLib) (kl_patchOrder sampleContactsLib) (Some sampleUpdate) = None"
    by code_simp
  have size: "ab_maxResourceSize (br_public sampleBookRecord) = 0" by (simp add: sampleBookRecord_def)
  have input: "uc_patch sampleUpdate = samplePatch" "uc_uid sampleUpdate = ''u1''" by (simp_all add: sampleUpdate_def)
  have ok: "classifyDAVError x \<lparr>cd_status = 204, cd_header = h, cd_body = b, cd_url = u\<rparr> create = None" for x h b u create
    by (simp add: classifyDAVError_def)
  obtain headers where h: "headers = [vcardContentType, (''If-Match'', conditionETag (callerETag (uc_etag sampleUpdate)) sampleETag)]"
    by blast
  from p obtain log' where put: "davOp sampleWatch ''PUT'' (sampleContactURL ''/h/b/x.vcf'') headers samplePatched maxErrorBodyBytes
      (Some (sampleContactURL ''/h/b/'')) ((), rqs)
    = (Value \<lparr>cd_status = 204, cd_header = [], cd_body = [], cd_url = sampleContactURL ''/h/b/x.vcf''\<rparr>, ((), log'))" by blast
  obtain d rq where g: "getObject sampleWatch sampleContactsLib sampleBookRecord (sampleContactURL ''/h/b/x.vcf'') ''u1'' ((), log') =
     (Value (foundObject d), ((), log' @ [rq]))" using sample_get by blast
  have "\<exists>r. updateObject sampleWatch sampleContactsLib sampleUpdate sampleBookRecord (foundObject c) ((), rqs) =
      (Value r, ((), log' @ [rq]))"
    using put g [unfolded foundObject_def] input
    by (simp add: updateObject_def thenDo_def foundObject_def sample_group sample_server_etag pureOp_def giveBack_def deref_def
        samplePatch_applies size h sample_book_url ok attempted_def)
  moreover have "uc_addressBook sampleUpdate = sampleBookID" by (simp add: sampleUpdate_def)
  ultimately show ?thesis
    using f v input by (auto simp: updateContact_def thenDo_def sample_book onWorld_def)
qed

theorem contact_delete_conditional_witness:
  "\<exists>r sent. deleteContact sampleWatch sampleContactsLib (Some (sampleDelete False)) (cachedClient, ((), [])) =
     (Value r, (cachedClient, ((), sent))) \<and> length (filter isWrite sent) = 1
     \<and> (\<forall>rq \<in> set (filter isWrite sent). conditional sampleWatch sampleContactsLib sampleBookID ''u1'' (cachedClient, ((), [])) [] rq)"
proof -
  obtain r sent where run: "deleteContact sampleWatch sampleContactsLib (Some (sampleDelete False)) (cachedClient, ((), [])) =
     (Value r, (cachedClient, ((), sent)))" using sample_delete_runs by blast
  have "cv_do contactServerEnv = Some contactServer" by (simp add: contactServerEnv_def)
  from contact_delete_conditional [OF this run] have "length (filter isWrite sent) = 1"
    "\<forall>rq \<in> set (filter isWrite sent). conditional sampleWatch sampleContactsLib sampleBookID ''u1'' (cachedClient, ((), [])) [] rq"
    by (auto simp: sampleDelete_def le_Suc_eq)
  with run show ?thesis by (intro exI [of _ r] exI [of _ sent] conjI)
qed

theorem contact_update_conditional_witness:
  "\<exists>r sent. updateContact sampleWatch sampleContactsLib (Some sampleUpdate) (cachedClient, ((), [])) =
     (Value r, (cachedClient, ((), sent))) \<and> length (filter isWrite sent) = 1
     \<and> (\<forall>rq \<in> set (filter isWrite sent). conditional sampleWatch sampleContactsLib sampleBookID ''u1'' (cachedClient, ((), []))
          [dquote, CHR ''0'', dquote] rq)"
proof -
  obtain r sent where run: "updateContact sampleWatch sampleContactsLib (Some sampleUpdate) (cachedClient, ((), [])) =
     (Value r, (cachedClient, ((), sent)))" using sample_update_runs by blast
  have "cv_do contactServerEnv = Some contactServer" by (simp add: contactServerEnv_def)
  from contact_update_conditional [OF this run] have "length (filter isWrite sent) = 1"
    "\<forall>rq \<in> set (filter isWrite sent). conditional sampleWatch sampleContactsLib sampleBookID ''u1'' (cachedClient, ((), []))
          [dquote, CHR ''0'', dquote] rq"
    by (auto simp: sampleUpdate_def le_Suc_eq)
  with run show ?thesis by (intro exI [of _ r] exI [of _ sent] conjI)
qed

theorem contact_reads_never_write_witness:
  "filter isWrite (snd (snd (snd (getContact sampleWatch sampleContactsLib sampleBookID ''u1'' (cachedClient, ((), [])))))) = []"
proof -
  have "cv_do contactServerEnv = Some contactServer" by (simp add: contactServerEnv_def)
  from contact_reads_never_write [OF this] show ?thesis by blast
qed

end
