(* ===== verification/Bounded_Stdio.thy ===== *)
theory Bounded_Stdio
  imports Redact_Writer
begin

text \<open>
  \<open>cmd/icloud-mcp/bounded_stdio.go\<close>: the reader that withholds a JSON-RPC frame until its newline
  has been seen and refuses frames over one MiB, and the writer that bounds and redacts every
  output frame. The input of the process is its bytes and the error that ends them;
  \<open>bufio.Reader.ReadSlice\<close> over a buffer of 32 KiB is written out on it. Of \<open>encoding/json\<close> the code
  uses the decoding of the envelope and of \<open>isError\<close> and the marshalling of a raw message, which
  are the record \<open>jsonLib\<close>. The cancellation wrapper only forwards reads.
\<close>

section \<open>Reader\<close>

datatype stdioError = EndOfInput | FrameTooLarge | InputError

definition maxStdioFrameBytes :: int where "maxStdioFrameBytes = 1048576"
definition stdioBuffer :: nat where "stdioBuffer = 32768"

record frameReader =
  fr_input :: bytes
  fr_inputErr :: stdioError
  fr_pending :: bytes
  fr_nextErr :: "stdioError option"

definition newBoundedFrameReader :: "bytes \<Rightarrow> stdioError \<Rightarrow> frameReader" where
  "newBoundedFrameReader input err =
     \<lparr>fr_input = input, fr_inputErr = err, fr_pending = [], fr_nextErr = None\<rparr>"

datatype sliceResult = SliceOk | SliceBufferFull | SliceError

definition readSlice :: "bytes \<Rightarrow> bytes \<times> sliceResult \<times> bytes" where
  "readSlice s =
     (case indexByte (take stdioBuffer s) lf of
        Some n \<Rightarrow> (take (n + 1) s, SliceOk, drop (n + 1) s)
      | None \<Rightarrow>
          if stdioBuffer \<le> length s then (take stdioBuffer s, SliceBufferFull, drop stdioBuffer s)
          else (s, SliceError, []))"

definition fragmentContent :: "bytes \<Rightarrow> nat" where
  "fragmentContent fragment =
     (if fragment \<noteq> [] \<and> List.last fragment = lf then length fragment - 1 else length fragment)"

text \<open>The result is the frame with the error to report next, and the input that is left.\<close>

function readFrameLoop ::
  "stdioError \<Rightarrow> bytes \<Rightarrow> nat \<Rightarrow> bytes \<Rightarrow> (stdioError + bytes \<times> stdioError option) \<times> bytes" where
  "readFrameLoop err frame contentBytes s =
     (case readSlice s of
        (fragment, res, rest) \<Rightarrow>
          if maxStdioFrameBytes - int (fragmentContent fragment) < int contentBytes
          then (Inl FrameTooLarge, rest)
          else case res of
            SliceOk \<Rightarrow> (Inr (frame @ fragment, None), rest)
          | SliceBufferFull \<Rightarrow>
              readFrameLoop err (frame @ fragment) (contentBytes + fragmentContent fragment) rest
          | SliceError \<Rightarrow>
              if err = EndOfInput \<and> frame @ fragment \<noteq> []
              then (Inr (frame @ fragment, Some EndOfInput), rest)
              else (Inl err, rest))"
  by pat_completeness auto
termination
  by (relation "measure (\<lambda>(err, frame, n, s). length s)")
     (auto simp: readSlice_def stdioBuffer_def split: option.splits if_splits)

declare readFrameLoop.simps [simp del]

definition readFrame :: "frameReader \<Rightarrow> (stdioError + bytes) \<times> frameReader" where
  "readFrame r =
     (case readFrameLoop (fr_inputErr r) [] 0 (fr_input r) of
        (Inl e, rest) \<Rightarrow> (Inl e, r\<lparr>fr_input := rest\<rparr>)
      | (Inr (frame, ne), rest) \<Rightarrow>
          (Inr frame, r\<lparr>fr_input := rest, fr_nextErr := (case ne of None \<Rightarrow> fr_nextErr r | Some e \<Rightarrow> Some e)\<rparr>))"

definition deliver :: "nat \<Rightarrow> frameReader \<Rightarrow> (bytes \<times> stdioError option) \<times> frameReader" where
  "deliver n r = ((take n (fr_pending r), None), r\<lparr>fr_pending := drop n (fr_pending r)\<rparr>)"

definition frameRead :: "nat \<Rightarrow> frameReader \<Rightarrow> (bytes \<times> stdioError option) \<times> frameReader" where
  "frameRead n r =
     (if n = 0 then (([], None), r)
      else if fr_pending r = [] then
        (case fr_nextErr r of
           Some e \<Rightarrow> (([], Some e), r\<lparr>fr_nextErr := None\<rparr>)
         | None \<Rightarrow>
             (case readFrame r of
                (Inl e, r') \<Rightarrow> (([], Some e), r')
              | (Inr frame, r') \<Rightarrow> deliver n (r'\<lparr>fr_pending := frame\<rparr>)))
      else deliver n r)"

text \<open>The reads of the server, each with a buffer of some size, up to the first error.\<close>

fun readAll :: "nat list \<Rightarrow> frameReader \<Rightarrow> bytes \<times> stdioError option" where
  "readAll [] r = ([], None)"
| "readAll (n # ns) r =
     (case frameRead n r of
        ((d, Some e), r') \<Rightarrow> (d, Some e)
      | ((d, None), r') \<Rightarrow> (case readAll ns r' of (t, e) \<Rightarrow> (d @ t, e)))"

section \<open>What the reader lets through\<close>

text \<open>
  The specification: whole lines as long as none exceeds the limit, then the error. A last line
  without a newline counts only at a regular end of the input.
\<close>

function admit :: "stdioError \<Rightarrow> bytes \<Rightarrow> bytes \<times> stdioError" where
  "admit err s =
     (case indexByte s lf of
        Some n \<Rightarrow>
          if maxStdioFrameBytes < int n then ([], FrameTooLarge)
          else (case admit err (drop (n + 1) s) of (t, e) \<Rightarrow> (take (n + 1) s @ t, e))
      | None \<Rightarrow>
          if maxStdioFrameBytes < int (length s) then ([], FrameTooLarge)
          else if err = EndOfInput then (s, EndOfInput) else ([], err))"
  by pat_completeness auto
termination
  by (relation "measure (\<lambda>(err, s). length s)") (auto simp: indexByte_Some)

declare admit.simps [simp del]

lemma readSlice_cases:
  obtains (ok) n where "indexByte s lf = Some n" "n < stdioBuffer"
      "readSlice s = (take (n + 1) s, SliceOk, drop (n + 1) s)" "fragmentContent (take (n + 1) s) = n"
    | (full) "lf \<notin> set (take stdioBuffer s)" "stdioBuffer \<le> length s"
      "readSlice s = (take stdioBuffer s, SliceBufferFull, drop stdioBuffer s)"
      "fragmentContent (take stdioBuffer s) = stdioBuffer"
    | (short) "lf \<notin> set s" "length s < stdioBuffer" "readSlice s = (s, SliceError, [])"
      "fragmentContent s = length s"
proof (cases "indexByte (take stdioBuffer s) lf")
  case (Some n)
  then have n: "n < length (take stdioBuffer s)" "take stdioBuffer s ! n = lf" "lf \<notin> set (take n s)"
    by (auto simp: indexByte_Some min_def split: if_splits)
  then have "take (n + 1) s = take n s @ [lf]" by (simp add: take_Suc_conv_app_nth)
  then have "fragmentContent (take (n + 1) s) = n" using n(1) by (simp add: fragmentContent_def)
  moreover have "indexByte s lf = Some n" using n by (simp add: indexByte_Some)
  ultimately show ?thesis using Some n(1) by (intro ok [of n]) (simp_all add: readSlice_def)
next
  case None
  then have no: "lf \<notin> set (take stdioBuffer s)" by (simp add: indexByte_None)
  have fc: "fragmentContent t = length t" if "lf \<notin> set t" for t
    using that last_in_set by (fastforce simp: fragmentContent_def)
  show ?thesis
  proof (cases "stdioBuffer \<le> length s")
    case True
    then show ?thesis using None no fc [OF no] by (intro full) (simp_all add: readSlice_def)
  next
    case False
    then have "take stdioBuffer s = s" by simp
    with None no fc show ?thesis using False by (intro short) (simp_all add: readSlice_def)
  qed
qed

lemma indexByte_drop:
  assumes "lf \<notin> set (take k s)" "k \<le> length s"
  shows "indexByte s lf = map_option ((+) k) (indexByte (drop k s) lf)"
proof -
  have "indexByte (u @ v) lf = map_option ((+) (length u)) (indexByte v lf)" if "lf \<notin> set u" for u v
    using that by (induction u) (cases "indexByte v lf"; auto)+
  from this [OF assms(1), of "drop k s"] assms(2) show ?thesis by simp
qed

lemma readFrameLoop_spec:
  assumes "int (length frame) \<le> maxStdioFrameBytes"
  shows "case indexByte s lf of
      Some n \<Rightarrow>
        (if maxStdioFrameBytes < int (length frame + n)
         then \<exists>rest. readFrameLoop err frame (length frame) s = (Inl FrameTooLarge, rest)
         else readFrameLoop err frame (length frame) s = (Inr (frame @ take (n + 1) s, None), drop (n + 1) s))
    | None \<Rightarrow>
        (if maxStdioFrameBytes < int (length frame + length s)
         then \<exists>rest. readFrameLoop err frame (length frame) s = (Inl FrameTooLarge, rest)
         else readFrameLoop err frame (length frame) s =
           (if err = EndOfInput \<and> frame @ s \<noteq> [] then Inr (frame @ s, Some EndOfInput) else Inl err, []))"
  using assms
proof (induction s arbitrary: frame rule: length_induct)
  case (1 s)
  show ?case
  proof (cases s rule: readSlice_cases)
    case (ok n)
    then show ?thesis by (simp add: readFrameLoop.simps [of _ _ _ s])
  next
    case short
    then have "indexByte s lf = None" by (simp add: indexByte_None)
    with short show ?thesis by (auto simp: readFrameLoop.simps [of _ _ _ s])
  next
    case full
    let ?k = stdioBuffer and ?t = "drop stdioBuffer s"
    note ix = indexByte_drop [OF full(1,2)]
    show ?thesis
    proof (cases "maxStdioFrameBytes < int (length frame + ?k)")
      case True
      then have "readFrameLoop err frame (length frame) s = (Inl FrameTooLarge, ?t)"
        using full(3,4) by (simp add: readFrameLoop.simps [of _ _ _ s])
      with True full(2) show ?thesis by (auto simp: ix split: option.splits)
    next
      case False
      have step: "readFrameLoop err frame (length frame) s
          = readFrameLoop err (frame @ take ?k s) (length (frame @ take ?k s)) ?t"
        using full(2-4) False by (simp add: readFrameLoop.simps [of _ _ _ s])
      have "length ?t < length s" using full(2) by (simp add: stdioBuffer_def)
      moreover have "int (length (frame @ take ?k s)) \<le> maxStdioFrameBytes" using False full(2) by simp
      ultimately have ih: "case indexByte ?t lf of
        Some n \<Rightarrow>
          (if maxStdioFrameBytes < int (length (frame @ take ?k s) + n)
           then \<exists>rest. readFrameLoop err (frame @ take ?k s) (length (frame @ take ?k s)) ?t = (Inl FrameTooLarge, rest)
           else readFrameLoop err (frame @ take ?k s) (length (frame @ take ?k s)) ?t
             = (Inr ((frame @ take ?k s) @ take (n + 1) ?t, None), drop (n + 1) ?t))
      | None \<Rightarrow>
          (if maxStdioFrameBytes < int (length (frame @ take ?k s) + length ?t)
           then \<exists>rest. readFrameLoop err (frame @ take ?k s) (length (frame @ take ?k s)) ?t = (Inl FrameTooLarge, rest)
           else readFrameLoop err (frame @ take ?k s) (length (frame @ take ?k s)) ?t =
             (if err = EndOfInput \<and> (frame @ take ?k s) @ ?t \<noteq> [] then Inr ((frame @ take ?k s) @ ?t, Some EndOfInput) else Inl err, []))"
        using 1(1) by blast
      have len: "length (frame @ take ?k s) = length frame + ?k" using full(2) by simp
      have tk: "take ?k s @ take n ?t = take (?k + n) s" for n
        by (simp add: take_add)
      show ?thesis
      proof (cases "indexByte ?t lf")
        case None
        have l: "length (frame @ take ?k s) + length ?t = length frame + length s" using full(2) by simp
        have ap: "(frame @ take ?k s) @ ?t = frame @ s" by simp
        show ?thesis
          unfolding ix None option.map option.case step by (rule ih [unfolded None option.case l ap])
      next
        case (Some n)
        have l: "length (frame @ take ?k s) + n = length frame + (?k + n)" using full(2) by simp
        have ap: "(frame @ take ?k s) @ take (n + 1) ?t = frame @ take (?k + n + 1) s"
          using tk [of "n + 1"] by (simp add: ac_simps)
        have dp: "drop (n + 1) ?t = drop (?k + n + 1) s" by (simp add: ac_simps)
        show ?thesis
          unfolding ix Some option.map option.case step by (rule ih [unfolded Some option.case l ap dp])
      qed
    qed
  qed
qed

text \<open>What a reader still owes: the bytes it will deliver, and the error after them.\<close>

definition owed :: "frameReader \<Rightarrow> bytes \<times> stdioError" where
  "owed r =
     (case fr_nextErr r of
        Some e \<Rightarrow> (fr_pending r, e)
      | None \<Rightarrow> (case admit (fr_inputErr r) (fr_input r) of (t, e) \<Rightarrow> (fr_pending r @ t, e)))"

lemma admit_Nil: "admit err [] = ([], err)"
  by (simp add: admit.simps maxStdioFrameBytes_def)

lemma readFrame_owed:
  assumes "fr_pending r = []" "fr_nextErr r = None" "readFrame r = (res, r')"
  shows "case res of
      Inl e \<Rightarrow> owed r = ([], e)
    | Inr frame \<Rightarrow> frame \<noteq> [] \<and> owed r = owed (r'\<lparr>fr_pending := frame\<rparr>)"
proof -
  let ?s = "fr_input r" and ?err = "fr_inputErr r"
  have pos: "0 \<le> maxStdioFrameBytes" by (simp add: maxStdioFrameBytes_def)
  note spec = readFrameLoop_spec [of "[]" ?s ?err]
  show ?thesis
  proof (cases "indexByte ?s lf")
    case None
    then have ad: "admit ?err ?s = (if maxStdioFrameBytes < int (length ?s) then ([], FrameTooLarge)
        else if ?err = EndOfInput then (?s, EndOfInput) else ([], ?err))"
      by (simp add: admit.simps [of _ ?s])
    show ?thesis
      using spec None assms pos
      by (auto simp: readFrame_def owed_def ad admit.simps [of EndOfInput ?s] admit_Nil split: if_splits)
  next
    case (Some n)
    then have ad: "admit ?err ?s = (if maxStdioFrameBytes < int n then ([], FrameTooLarge)
        else (case admit ?err (drop (n + 1) ?s) of (t, e) \<Rightarrow> (take (n + 1) ?s @ t, e)))"
      by (simp add: admit.simps [of _ ?s])
    have "n < length ?s" using Some by (simp add: indexByte_Some)
    then show ?thesis
      using spec Some assms pos
      by (auto simp: readFrame_def owed_def ad split: if_splits prod.splits)
  qed
qed

lemma frameRead_owed:
  assumes "frameRead n r = ((d, e), r')"
  shows "case e of
      Some err \<Rightarrow> d = [] \<and> owed r = ([], err) \<and> 0 < n
    | None \<Rightarrow> owed r = (d @ fst (owed r'), snd (owed r')) \<and> (0 < n \<longrightarrow> d \<noteq> [])"
proof (cases "n = 0")
  case True
  with assms show ?thesis by (auto simp: frameRead_def)
next
  case False
  have del: "owed q = (d @ fst (owed r'), snd (owed r')) \<and> d \<noteq> [] \<and> e = None"
    if "deliver n q = ((d, e), r')" "fr_pending q \<noteq> []" for q
    using that False by (auto simp: deliver_def owed_def split: option.splits prod.splits)
  show ?thesis
  proof (cases "fr_pending r = [] \<and> fr_nextErr r = None")
    case True
    obtain res q where q: "readFrame r = (res, q)" by (cases "readFrame r")
    show ?thesis
    proof (cases res)
      case (Inl err)
      with True False q assms readFrame_owed [of r res q] show ?thesis by (auto simp: frameRead_def)
    next
      case (Inr frame)
      with True q readFrame_owed [of r res q] have f: "frame \<noteq> []" "owed r = owed (q\<lparr>fr_pending := frame\<rparr>)"
        by auto
      have "deliver n (q\<lparr>fr_pending := frame\<rparr>) = ((d, e), r')"
        using assms True False q Inr by (simp add: frameRead_def)
      from del [OF this] f show ?thesis by auto
    qed
  next
    case other: False
    show ?thesis
    proof (cases "fr_pending r = []")
      case True
      with other obtain y where "fr_nextErr r = Some y" by auto
      moreover from this True False assms have "d = []" "e = Some y" by (auto simp: frameRead_def)
      ultimately show ?thesis using True False by (simp add: owed_def)
    next
      case p: False
      then have "deliver n r = ((d, e), r')" using assms False by (simp add: frameRead_def)
      from del [OF this p] show ?thesis by auto
    qed
  qed
qed

lemma readAll_owed:
  assumes "readAll ns r = (out, e)"
  shows "(\<exists>rest. fst (owed r) = out @ rest) \<and> (e \<noteq> None \<longrightarrow> owed r = (out, the e))
     \<and> (0 \<notin> set ns \<and> length (fst (owed r)) < length ns \<longrightarrow> e \<noteq> None)"
  using assms
proof (induction ns arbitrary: r out e)
  case Nil
  then show ?case by auto
next
  case (Cons n ns)
  obtain d e1 r1 where step: "frameRead n r = ((d, e1), r1)" by (metis prod.collapse)
  show ?case
  proof (cases e1)
    case (Some err)
    with step Cons.prems frameRead_owed [OF step] show ?thesis by auto
  next
    case None
    obtain t e2 where rest: "readAll ns r1 = (t, e2)" by (metis prod.collapse)
    with None step Cons.prems have out: "out = d @ t" "e = e2" by auto
    have own: "owed r = (d @ fst (owed r1), snd (owed r1))" "0 < n \<longrightarrow> d \<noteq> []"
      using frameRead_owed [OF step] None by auto
    from Cons.IH [OF rest] own out show ?thesis
      by (cases "owed r1") (auto simp: neq_Nil_conv)
  qed
qed

lemma admit_lines:
  "\<forall>w \<in> set (splitByte (fst (admit err s)) lf). int (length w) \<le> maxStdioFrameBytes"
proof (induction err s rule: admit.induct)
  case (1 err s)
  have pos: "0 \<le> maxStdioFrameBytes" by (simp add: maxStdioFrameBytes_def)
  have plain: "splitByte t lf = [t]" if "lf \<notin> set t" for t using that by (induction t) auto
  have cut: "splitByte (u @ lf # t) lf = u # splitByte t lf" if "lf \<notin> set u" for u t
    using that by (induction u) auto
  show ?case
  proof (cases "indexByte s lf")
    case None
    then have "lf \<notin> set s" by (simp add: indexByte_None)
    with None pos show ?thesis by (simp add: admit.simps [of _ s] plain)
  next
    case (Some n)
    then have n: "n < length s" "s ! n = lf" "lf \<notin> set (take n s)" by (auto simp: indexByte_Some)
    then have tk: "take (n + 1) s = take n s @ [lf]" by (simp add: take_Suc_conv_app_nth)
    show ?thesis
    proof (cases "maxStdioFrameBytes < int n")
      case True
      with Some pos show ?thesis by (simp add: admit.simps [of _ s])
    next
      case False
      obtain t e where r: "admit err (drop (n + 1) s) = (t, e)" by (metis prod.collapse)
      then have "\<forall>w \<in> set (splitByte t lf). int (length w) \<le> maxStdioFrameBytes"
        using 1 [OF Some False] by simp
      moreover have "fst (admit err s) = take n s @ lf # t"
        using Some False r tk by (simp add: admit.simps [of _ s])
      ultimately show ?thesis using cut [OF n(3), of t] n(1) False by (simp add: min_def)
    qed
  qed
qed

text \<open>
  C29. The server never sees a part of an oversized frame, and sees everything else. Whatever the
  sizes of its reads, what the bounded reader has delivered is a prefix of the admitted input: the
  whole lines of at most one MiB before the first longer one, and the last line without a newline
  if the input ends regularly. When an error is reported all of that has been delivered, and the
  error is the right one; and enough non-empty reads always reach it.
\<close>

theorem reader_withholds_oversized_frames:
  assumes "readAll sizes (newBoundedFrameReader input err) = (out, e)"
  shows "(\<exists>rest. fst (admit err input) = out @ rest)
     \<and> (e \<noteq> None \<longrightarrow> admit err input = (out, the e))
     \<and> (0 \<notin> set sizes \<and> length (fst (admit err input)) < length sizes \<longrightarrow> e \<noteq> None)
     \<and> (\<forall>w \<in> set (splitByte (fst (admit err input)) lf). length w \<le> 1048576)"
proof -
  have "owed (newBoundedFrameReader input err) = admit err input"
    by (simp add: owed_def newBoundedFrameReader_def split: prod.splits)
  note run = readAll_owed [OF assms, unfolded this]
  have "\<forall>w \<in> set (splitByte (fst (admit err input)) lf). length w \<le> 1048576"
    using admit_lines [of err input] by (simp add: maxStdioFrameBytes_def)
  with run show ?thesis by blast
qed

theorem reader_withholds_oversized_frames_witness:
  "readAll [2, 1, 5, 5] (newBoundedFrameReader (''ab'' @ [lf] @ ''c'') EndOfInput) = (''ab'' @ [lf] @ ''c'', Some EndOfInput)
   \<and> admit EndOfInput (''ab'' @ [lf] @ ''c'') = (''ab'' @ [lf] @ ''c'', EndOfInput)"
proof -
  have slice: "readSlice s = (case indexByte s lf of Some n \<Rightarrow> (take (n + 1) s, SliceOk, drop (n + 1) s)
      | None \<Rightarrow> (s, SliceError, []))" if "length s < 32768" for s
    using that by (simp add: readSlice_def stdioBuffer_def)
  have run: "readAll [2, 1, 5, 5] (newBoundedFrameReader (''ab'' @ [lf] @ ''c'') EndOfInput)
      = (''ab'' @ [lf] @ ''c'', Some EndOfInput)"
    by (simp add: frameRead_def newBoundedFrameReader_def readFrame_def readFrameLoop.simps slice
        fragmentContent_def maxStdioFrameBytes_def deliver_def)
  with reader_withholds_oversized_frames [OF run] show ?thesis by simp
qed

section \<open>Writer\<close>

record jsonEnvelope =
  je_id :: bytes
  je_error :: bytes
  je_result :: bytes

text \<open>
  \<open>jl_envelope\<close> decodes a frame into its raw members, \<open>jl_isError\<close> is a successful decoding of a
  result with \<open>isError\<close> set, and \<open>jl_compact\<close> is what \<open>json.Marshal\<close> writes for a raw message, \<open>None\<close>
  where it fails.
\<close>

record jsonLib =
  jl_envelope :: "bytes \<Rightarrow> jsonEnvelope option"
  jl_isError :: "bytes \<Rightarrow> bool"
  jl_compact :: "bytes \<Rightarrow> bytes option"

definition maxMCPErrorFrameBytes :: int where "maxMCPErrorFrameBytes = 262144"
definition maxReflectedProtocolErrorBytes :: int where "maxReflectedProtocolErrorBytes = 65536"
definition maxJSONRPCIDBytes :: int where "maxJSONRPCIDBytes = 512"

definition boundJSONRPCID :: "bytes \<Rightarrow> bytes" where
  "boundJSONRPCID i =
     (if i = [] then ''null''
      else if maxJSONRPCIDBytes < int (length i) then ''null''
      else
        (let trimmed = trimSpace i in
         if trimmed = [] then ''null''
         else if hd trimmed \<in> set (dquote # ''-0123456789'') then trimmed
         else ''null''))"

definition jq :: "string \<Rightarrow> string" where
  "jq s = dquote # s @ [dquote]"

definition errorBody :: "bytes \<Rightarrow> string \<Rightarrow> bytes" where
  "errorBody i message =
     ''{'' @ jq ''jsonrpc'' @ '':'' @ jq ''2.0'' @ '','' @ jq ''id'' @ '':'' @ i @ '','' @ jq ''error'' @ '':{''
     @ jq ''code'' @ '':-32603,'' @ jq ''message'' @ '':'' @ jq message @ ''}}''"

text \<open>A failing \<open>json.Marshal\<close> leaves the replacement empty: its error is ignored.\<close>

definition oversizedProtocolErrorFrame :: "jsonLib \<Rightarrow> bytes \<Rightarrow> string \<Rightarrow> bytes" where
  "oversizedProtocolErrorFrame lib i message =
     (let replacement = (case jl_compact lib (boundJSONRPCID i) of
                           None \<Rightarrow> [] | Some c \<Rightarrow> errorBody c message);
          replacement' = (if maxMCPErrorFrameBytes < int (length replacement)
                          then errorBody ''null'' message else replacement)
      in replacement' @ [lf])"

definition backslashQuote :: string where "backslashQuote = [backslash, dquote]"

definition toolErrorText :: string where
  "toolErrorText =
     ''{'' @ backslashQuote @ ''code'' @ backslashQuote @ '':'' @ backslashQuote @ ''payload_too_large''
     @ backslashQuote @ '','' @ backslashQuote @ ''message'' @ backslashQuote @ '':'' @ backslashQuote
     @ ''MCP error result exceeded its safe byte limit'' @ backslashQuote @ ''}''"

definition oversizedToolErrorFrame :: "jsonLib \<Rightarrow> bytes \<Rightarrow> bytes" where
  "oversizedToolErrorFrame lib i =
     (case jl_compact lib (boundJSONRPCID i) of
        None \<Rightarrow> []
      | Some c \<Rightarrow>
          ''{'' @ jq ''jsonrpc'' @ '':'' @ jq ''2.0'' @ '','' @ jq ''id'' @ '':'' @ c @ '','' @ jq ''result''
          @ '':{'' @ jq ''content'' @ '':[{'' @ jq ''text'' @ '':'' @ jq toolErrorText @ '',''
          @ jq ''type'' @ '':'' @ jq ''text'' @ ''}],'' @ jq ''isError'' @ '':true}}'')
     @ [lf]"

definition responseTooLarge :: string where
  "responseTooLarge = ''MCP response exceeded its safe byte limit''"
definition errorTooLarge :: string where
  "errorTooLarge = ''MCP error response exceeded its safe byte limit''"

definition sanitizeOutputFrame :: "jsonLib \<Rightarrow> bytes \<Rightarrow> bytes" where
  "sanitizeOutputFrame lib frame =
     (if int (length frame) \<le> maxReflectedProtocolErrorBytes then frame
      else case jl_envelope lib (trimSpace frame) of
        None \<Rightarrow>
          if maxMCPErrorFrameBytes < int (length frame)
          then oversizedProtocolErrorFrame lib ''null'' responseTooLarge else frame
      | Some message \<Rightarrow>
          (let i = boundJSONRPCID (je_id message) in
           if je_error message \<noteq> [] \<and> je_error message \<noteq> ''null''
           then oversizedProtocolErrorFrame lib i errorTooLarge
           else if je_result message \<noteq> [] \<and> jl_isError lib (je_result message)
           then oversizedToolErrorFrame lib i
           else if maxMCPErrorFrameBytes < int (length frame)
           then oversizedProtocolErrorFrame lib i responseTooLarge
           else frame))"

record 'w errorWriter =
  ew_writer :: 'w
  ew_redactor :: redactor
  ew_pending :: bytes

definition newBoundedErrorWriter :: "'w \<Rightarrow> redactor \<Rightarrow> 'w errorWriter" where
  "newBoundedErrorWriter w r = \<lparr>ew_writer = w, ew_redactor = r, ew_pending = []\<rparr>"

text \<open>The loop that repeats short writes.\<close>

function writeFull :: "'w sink \<Rightarrow> 'w \<Rightarrow> bytes \<Rightarrow> io_error option \<times> 'w" where
  "writeFull sink w frame =
     (if frame = [] then (None, w)
      else case sink w frame of
        (written, err, w') \<Rightarrow>
          if err \<noteq> None then (err, w')
          else if written = 0 then (Some ErrShortWrite, w')
          else writeFull sink w' (drop written frame))"
  by pat_completeness auto
termination
  by (relation "measure (\<lambda>(sink, w, frame). length frame)") auto

declare writeFull.simps [simp del]

definition outputFrame :: "jsonLib \<Rightarrow> redactor \<Rightarrow> bytes \<Rightarrow> bytes" where
  "outputFrame lib r frame =
     redact r (sanitizeOutputFrame lib (redact r (sanitizeOutputFrame lib frame)))"

function writeFrames :: "jsonLib \<Rightarrow> 'w sink \<Rightarrow> 'w errorWriter \<Rightarrow> io_error option \<times> 'w errorWriter" where
  "writeFrames lib sink ew =
     (case indexByte (ew_pending ew) lf of
        None \<Rightarrow> (None, ew)
      | Some newline \<Rightarrow>
          (case writeFull sink (ew_writer ew)
                  (outputFrame lib (ew_redactor ew) (take (newline + 1) (ew_pending ew))) of
             (Some err, w') \<Rightarrow>
               (Some err, ew\<lparr>ew_writer := w', ew_pending := drop (newline + 1) (ew_pending ew)\<rparr>)
           | (None, w') \<Rightarrow>
               writeFrames lib sink
                 (ew\<lparr>ew_writer := w', ew_pending := drop (newline + 1) (ew_pending ew)\<rparr>)))"
  by pat_completeness auto
termination
  by (relation "measure (\<lambda>(lib, sink, ew). length (ew_pending ew))") (auto simp: indexByte_Some)

declare writeFrames.simps [simp del]

definition ewWrite :: "jsonLib \<Rightarrow> 'w sink \<Rightarrow> 'w errorWriter \<Rightarrow> bytes \<Rightarrow> io_error option \<times> 'w errorWriter" where
  "ewWrite lib sink ew p =
     (if maxStdioFrameBytes + 1 < int (length (ew_pending ew) + length p) then
        (case sink (ew_writer ew)
                (redact (ew_redactor ew) (oversizedProtocolErrorFrame lib ''null'' responseTooLarge)) of
           (_, err, w') \<Rightarrow> (err, ew\<lparr>ew_writer := w', ew_pending := []\<rparr>))
      else writeFrames lib sink (ew\<lparr>ew_pending := ew_pending ew @ p\<rparr>))"

section \<open>How much redaction can grow a text\<close>

text \<open>
  A text is its delimiter bytes and the runs between them. A run counts its length if it lies within
  the replacement word, and otherwise three times its length: then no replacement of a secret without
  delimiters raises the measure of a text.
\<close>

definition redactWord :: string where "redactWord = ''REDACTED''"

definition runWeight :: "string \<Rightarrow> nat" where
  "runWeight r = (if containsStr redactWord r then length r else 3 * length r)"

fun measureFrom :: "string \<Rightarrow> string \<Rightarrow> nat" where
  "measureFrom r [] = runWeight r"
| "measureFrom r (x # t) =
     (if x \<in> set redactDelims then runWeight r + 1 + measureFrom [] t else measureFrom (r @ [x]) t)"

lemma runWeight_bounds: "length r \<le> runWeight r" "runWeight r \<le> 3 * length r"
  by (simp_all add: runWeight_def)

lemma measureFrom_bounds:
  "length r + length t \<le> measureFrom r t" "measureFrom r t \<le> 3 * (length r + length t)"
proof (induction r t rule: measureFrom.induct)
  case (2 r x t)
  { case 1 with 2 runWeight_bounds(1) [of r] show ?case by (auto split: if_splits) }
  { case 2 with "2.IH" runWeight_bounds(2) [of r] show ?case by (auto split: if_splits) }
qed (auto simp: runWeight_bounds)

lemma measureFrom_run: "\<not> containsAny u redactDelims \<Longrightarrow> measureFrom r (u @ t) = measureFrom (r @ u) t"
  by (induction u arbitrary: r) (auto simp: containsAny_iff)

lemma measureFrom_split:
  "\<exists>u. (\<forall>r. measureFrom r t + runWeight u = runWeight (r @ u) + measureFrom [] t)"
proof (induction t)
  case Nil
  show ?case by (intro exI [of _ "[]"]) simp
next
  case (Cons x t)
  show ?case
  proof (cases "x \<in> set redactDelims")
    case True
    then show ?thesis by (intro exI [of _ "[]"]) simp
  next
    case False
    from Cons.IH obtain u where u: "\<forall>r. measureFrom r t + runWeight u = runWeight (r @ u) + measureFrom [] t" by blast
    have "measureFrom r (x # t) + runWeight (x # u) = runWeight (r @ x # u) + measureFrom [] (x # t)" for r
      using False u [rule_format, of "r @ [x]"] u [rule_format, of "[x]"] by simp
    then show ?thesis by blast
  qed
qed

lemma within_word: "containsStr w (u @ v) \<Longrightarrow> containsStr w u \<and> containsStr w v"
  by (metis append_assoc containsStr_iff)

lemma token_measure:
  "measureFrom r (redactToken @ t) = runWeight r + 10 + measureFrom [] t"
  "measureFrom r (redactFallbackToken @ t) = runWeight r + 3 + measureFrom [] t"
proof -
  have "containsStr redactWord redactWord" "containsStr redactWord []" by code_simp+
  then have w: "runWeight redactWord = 8" "runWeight [] = 0" by (simp_all add: runWeight_def) (simp add: redactWord_def)
  have tok: "redactToken @ t = CHR ''['' # redactWord @ CHR '']'' # t" by (simp add: redactToken_def redactWord_def)
  have "\<not> containsAny redactWord redactDelims" by code_simp
  then have "measureFrom [] (redactWord @ CHR '']'' # t) = 9 + measureFrom [] t"
    using w by (simp add: measureFrom_run redactDelims_def)
  then show "measureFrom r (redactToken @ t) = runWeight r + 10 + measureFrom [] t"
    unfolding tok by (simp add: redactDelims_def)
  show "measureFrom r (redactFallbackToken @ t) = runWeight r + 3 + measureFrom [] t"
    using w by (simp add: redactFallbackToken_def redactDelims_def)
qed

lemma replacement_measure:
  assumes "\<not> containsAny s redactDelims" and "4 \<le> length s"
  shows "measureFrom r (replacementFor s @ t) \<le> measureFrom r (s @ t)"
proof -
  obtain u where u: "\<And>r. measureFrom r t + runWeight u = runWeight (r @ u) + measureFrom [] t"
    using measureFrom_split [of t] by blast
  have run: "measureFrom r (s @ t) + runWeight u = runWeight (r @ s @ u) + measureFrom [] t"
    using u [of "r @ s"] measureFrom_run [OF assms(1)] by simp
  show ?thesis
  proof (cases "containsStr redactWord (r @ s @ u)")
    case True
    then have within: "containsStr redactWord r" "containsStr redactWord u" and "containsStr redactWord s"
      by (blast dest: within_word)+
    moreover have "redactToken = ''['' @ redactWord @ '']''" by (simp add: redactToken_def redactWord_def)
    ultimately have "containsStr redactToken s" unfolding containsStr_iff by (metis append.assoc)
    then have "replacementFor s = redactFallbackToken" by (simp add: replacementFor_def)
    with True within run assms(2) show ?thesis
      by (simp add: token_measure runWeight_def)
  next
    case False
    then have "runWeight (r @ s @ u) = 3 * (length r + length s + length u)" by (simp add: runWeight_def)
    with run assms(2) runWeight_bounds(2) [of r] runWeight_bounds(2) [of u] show ?thesis
      by (simp add: replacementFor_def token_measure split: if_split)
  qed
qed

lemma measureFrom_cong:
  "(\<And>r. measureFrom r t \<le> measureFrom r t') \<Longrightarrow> measureFrom r (u @ t) \<le> measureFrom r (u @ t')"
  by (induction u arbitrary: r) auto

lemma replaceAll_measure:
  assumes "\<not> containsAny s redactDelims" and "4 \<le> length s"
  shows "measureFrom r (replaceAll t s (replacementFor s)) \<le> measureFrom r t"
proof -
  from assms(2) have "s \<noteq> []" by auto
  then show ?thesis
  proof (induction t arbitrary: r rule: replaceAll_cases)
    case Nil
    show ?case by simp
  next
    case (hit t)
    then have t: "t = s @ drop (length s) t" by (metis append_eq_conv_conj hasPrefix_iff)
    have "measureFrom r (replaceAll t s (replacementFor s))
        \<le> measureFrom r (replacementFor s @ drop (length s) t)"
      using hit \<open>s \<noteq> []\<close> by (simp add: replaceAll_hit measureFrom_cong)
    also have "\<dots> \<le> measureFrom r (s @ drop (length s) t)" using assms by (rule replacement_measure)
    finally show ?case using t by simp
  next
    case (miss c cs)
    then show ?case using \<open>s \<noteq> []\<close> by (simp add: replaceAll_miss)
  qed
qed

lemma redact_growth:
  assumes "\<forall>s \<in> set (secrets r). 4 \<le> length s \<and> \<not> containsAny s redactDelims"
  shows "length (redact r t) \<le> 3 * length t"
proof -
  have pass: "measureFrom [] (redactPass ss t) \<le> measureFrom [] t" if "set ss \<subseteq> set (secrets r)" for ss t
    using that
  proof (induction ss t rule: redactPass.induct)
    case (2 secret rest out)
    then have "measureFrom [] (replaceAll out secret (replacementFor secret)) \<le> measureFrom [] out"
      using assms by (intro replaceAll_measure) auto
    with 2 show ?case by (auto intro: order_trans)
  qed simp
  have "measureFrom [] (redactLoop n (secrets r) t) \<le> measureFrom [] t" for n
    by (induction n "secrets r" t rule: redactLoop.induct) (auto simp: Let_def intro: order_trans pass)
  then show ?thesis
    using measureFrom_bounds(1) [of "[]" "redact r t"] measureFrom_bounds(2) [of "[]" t]
    unfolding redact_def by (metis add_0 le_trans list.size(3))
qed

section \<open>What the writer emits\<close>

text \<open>The sink that keeps every write apart.\<close>

definition frameSink :: "bytes list sink" where
  "frameSink w data = (length data, None, w @ [data])"

definition ewWrites :: "jsonLib \<Rightarrow> redactor \<Rightarrow> bytes list \<Rightarrow> bytes list errorWriter" where
  "ewWrites lib r ps = fold (\<lambda>p ew. snd (ewWrite lib frameSink ew p)) ps (newBoundedErrorWriter [] r)"

text \<open>The replacement frames: they reflect at most a bounded request id.\<close>

definition replacementFrame :: "jsonLib \<Rightarrow> bytes \<Rightarrow> bool" where
  "replacementFrame lib g \<longleftrightarrow>
     (\<exists>i. int (length (boundJSONRPCID i)) \<le> 512 \<and>
        (g = oversizedToolErrorFrame lib i
         \<or> (\<exists>m \<in> {responseTooLarge, errorTooLarge}. g = oversizedProtocolErrorFrame lib i m)))"

lemma boundJSONRPCID_bounded: "int (length (boundJSONRPCID i)) \<le> 512"
  using length_trimSpace [of i] by (auto simp: boundJSONRPCID_def maxJSONRPCIDBytes_def Let_def)

lemma replacementFrames [simp]:
  "replacementFrame lib (oversizedToolErrorFrame lib i)"
  "replacementFrame lib (oversizedProtocolErrorFrame lib i responseTooLarge)"
  "replacementFrame lib (oversizedProtocolErrorFrame lib i errorTooLarge)"
  unfolding replacementFrame_def using boundJSONRPCID_bounded by blast+

lemma sanitize_cases:
  "sanitizeOutputFrame lib frame = frame \<and> int (length frame) \<le> 262144
   \<or> replacementFrame lib (sanitizeOutputFrame lib frame)"
  unfolding sanitizeOutputFrame_def Let_def maxMCPErrorFrameBytes_def maxReflectedProtocolErrorBytes_def
  by (cases "jl_envelope lib (trimSpace frame)") auto

text \<open>
  What may appear on standard output: the redaction of a replacement frame, or a frame of at most
  256 KiB that redaction leaves as it is.
\<close>

definition safeFrame :: "jsonLib \<Rightarrow> redactor \<Rightarrow> bytes \<Rightarrow> bool" where
  "safeFrame lib r f \<longleftrightarrow>
     (\<exists>g. f = redact r g \<and> (replacementFrame lib g \<or> f = g \<and> int (length f) \<le> 262144))"

lemma outputFrame_safe:
  assumes "\<And>t. redact r (redact r t) = redact r t"
  shows "safeFrame lib r (outputFrame lib r frame)"
proof -
  let ?g = "redact r (sanitizeOutputFrame lib frame)"
  from sanitize_cases [of lib ?g] show ?thesis
  proof
    assume "sanitizeOutputFrame lib ?g = ?g \<and> int (length ?g) \<le> 262144"
    then show ?thesis unfolding safeFrame_def outputFrame_def
      using assms by (intro exI [of _ ?g]) simp
  next
    assume "replacementFrame lib (sanitizeOutputFrame lib ?g)"
    then show ?thesis unfolding safeFrame_def outputFrame_def by blast
  qed
qed

lemma writeFull_frameSink: "writeFull frameSink w f = (None, if f = [] then w else w @ [f])"
  by (subst writeFull.simps, simp add: frameSink_def) (subst writeFull.simps, simp)

lemma writeFrames_safe:
  assumes "\<And>t. redact r (redact r t) = redact r t"
  shows "ew_redactor ew = r \<Longrightarrow> \<forall>f \<in> set (ew_writer ew). safeFrame lib r f \<Longrightarrow>
     ew_redactor (snd (writeFrames lib frameSink ew)) = r
     \<and> (\<forall>f \<in> set (ew_writer (snd (writeFrames lib frameSink ew))). safeFrame lib r f)"
proof (induction lib "frameSink" ew rule: writeFrames.induct)
  case (1 lib ew)
  show ?case
  proof (cases "indexByte (ew_pending ew) lf")
    case None
    with 1(2,3) show ?thesis by (simp add: writeFrames.simps [of _ _ ew])
  next
    case (Some n)
    let ?o = "outputFrame lib (ew_redactor ew) (take (n + 1) (ew_pending ew))"
    let ?w = "if ?o = [] then ew_writer ew else ew_writer ew @ [?o]"
    let ?ew = "ew\<lparr>ew_writer := ?w, ew_pending := drop (n + 1) (ew_pending ew)\<rparr>"
    have step: "writeFrames lib frameSink ew = writeFrames lib frameSink ?ew"
      using Some by (simp add: writeFrames.simps [of _ _ ew] writeFull_frameSink)
    have "safeFrame lib r ?o" unfolding 1(2) by (rule outputFrame_safe [OF assms])
    with 1(3) have "\<forall>f \<in> set (ew_writer ?ew). safeFrame lib r f" by simp
    moreover have "ew_redactor ?ew = r" using 1(2) by simp
    ultimately show ?thesis
      unfolding step by (intro 1(1) [OF Some writeFull_frameSink [symmetric] refl])
  qed
qed

lemma ewWrites_safe:
  assumes "\<And>t. redact r (redact r t) = redact r t"
  shows "f \<in> set (ew_writer (ewWrites lib r ps)) \<Longrightarrow> safeFrame lib r f"
proof -
  have "ew_redactor (fold (\<lambda>p ew. snd (ewWrite lib frameSink ew p)) ps ew) = r
      \<and> (\<forall>f \<in> set (ew_writer (fold (\<lambda>p ew. snd (ewWrite lib frameSink ew p)) ps ew)). safeFrame lib r f)"
    if "ew_redactor ew = r" "\<forall>f \<in> set (ew_writer ew). safeFrame lib r f" for ew
    using that
  proof (induction ps arbitrary: ew)
    case Nil
    then show ?case by simp
  next
    case (Cons p ps)
    have big: "safeFrame lib r (redact r (oversizedProtocolErrorFrame lib ''null'' responseTooLarge))"
      unfolding safeFrame_def using replacementFrames(2) by blast
    have "ew_redactor (snd (ewWrite lib frameSink ew p)) = r
        \<and> (\<forall>f \<in> set (ew_writer (snd (ewWrite lib frameSink ew p))). safeFrame lib r f)"
    proof (cases "maxStdioFrameBytes + 1 < int (length (ew_pending ew) + length p)")
      case True
      with Cons.prems big show ?thesis by (simp add: ewWrite_def frameSink_def)
    next
      case False
      with Cons.prems writeFrames_safe [OF assms, of "ew\<lparr>ew_pending := ew_pending ew @ p\<rparr>" lib]
      show ?thesis by (simp add: ewWrite_def)
    qed
    from Cons.IH [OF conjunct1 [OF this] conjunct2 [OF this]] show ?case by simp
  qed
  from this [of "newBoundedErrorWriter [] r"]
  show "f \<in> set (ew_writer (ewWrites lib r ps)) \<Longrightarrow> safeFrame lib r f"
    by (simp add: ewWrites_def newBoundedErrorWriter_def)
qed

text \<open>
  A marshalled raw message is at most six times as long as the message: \<open>json.Marshal\<close> drops white space
  and writes the characters it escapes as six bytes.
\<close>

lemma replacement_small:
  assumes "\<forall>i c. jl_compact lib i = Some c \<longrightarrow> length c \<le> 6 * length i" and "replacementFrame lib g"
  shows "length g \<le> 4096"
proof -
  have c: "length c \<le> 3072" if "jl_compact lib (boundJSONRPCID i) = Some c" for c i
    using assms(1) that boundJSONRPCID_bounded [of i] by fastforce
  have body: "length (errorBody i m) \<le> 1000 + length i" if "m \<in> {responseTooLarge, errorTooLarge}" for i m
  proof -
    have "length m \<le> 60" using that by (auto simp: responseTooLarge_def errorTooLarge_def)
    then show ?thesis by (simp add: errorBody_def jq_def)
  qed
  have "length (oversizedProtocolErrorFrame lib i m) \<le> 4096" if "m \<in> {responseTooLarge, errorTooLarge}" for i m
  proof (cases "jl_compact lib (boundJSONRPCID i)")
    case None
    then show ?thesis by (simp add: oversizedProtocolErrorFrame_def maxMCPErrorFrameBytes_def)
  next
    case (Some x)
    from c [OF Some] body [OF that, of x] have "length (errorBody x m) \<le> 4072" by simp
    with Some show ?thesis by (simp add: oversizedProtocolErrorFrame_def maxMCPErrorFrameBytes_def)
  qed
  moreover have "length (oversizedToolErrorFrame lib i) \<le> 4096" for i
    using c [of i] by (cases "jl_compact lib (boundJSONRPCID i)")
      (fastforce simp: oversizedToolErrorFrame_def jq_def toolErrorText_def backslashQuote_def)+
  ultimately show ?thesis using assms(2) unfolding replacementFrame_def by blast
qed


definition sampleJson :: jsonLib where
  "sampleJson = \<lparr>jl_envelope = (\<lambda>_. None), jl_isError = (\<lambda>_. False), jl_compact = Some\<rparr>"


end
