(* ===== verification/Imap_Guard.thy ===== *)
theory Imap_Guard
  imports Go_Errors
begin

text \<open>
  \<open>internal/mail/imapadapter/guard.go\<close>: the connection wrapper that bounds what an IMAP server can
  make the client parse. \<open>guardedConn\<close> is the record \<open>guard\<close>, \<open>Read\<close> is \<open>guardRead\<close> with the bytes
  the underlying connection delivered. Its contract is stated against a reader that sees the whole
  session at once: how the network cuts the session does not matter, and what is delivered is the
  longest prefix whose text is within the size, line, literal, quoted-string, nesting and list limits.
\<close>

definition maxSessionBytes :: int where "maxSessionBytes = 4194304"
definition maxProtocolLine :: int where "maxProtocolLine = 1048576"
definition maxProtocolDepth :: int where "maxProtocolDepth = 24"
definition maxProtocolLists :: int where "maxProtocolLists = 512"
definition maxQuotedWire :: int where "maxQuotedWire = 8194"

record guard =
  gd_total :: int
  gd_line :: string
  gd_literalRemaining :: int
  gd_depth :: int
  gd_lists :: int
  gd_quoted :: bool
  gd_quotedLength :: int
  gd_escaped :: bool

definition newGuardedConn :: guard where
  "newGuardedConn = \<lparr>gd_total = 0, gd_line = [], gd_literalRemaining = 0, gd_depth = 0, gd_lists = 0,
     gd_quoted = False, gd_quotedLength = 0, gd_escaped = False\<rparr>"

text \<open>\<open>strings.LastIndexByte\<close>.\<close>

definition lastIndexByte :: "string \<Rightarrow> char \<Rightarrow> nat option" where
  "lastIndexByte s c = map_option (\<lambda>i. length s - 1 - i) (indexByte (rev s) c)"

text \<open>The announced size of a literal, \<open>None\<close> for the inbound limit error.\<close>

definition literalSize :: "string \<Rightarrow> int option" where
  "literalSize s =
     (case lastIndexByte s (CHR ''}'') of
        None \<Rightarrow> Some 0
      | Some e \<Rightarrow>
          if e = 0 \<or> e \<noteq> length s - 1 then Some 0
          else case lastIndexByte (take e s) (CHR ''{'') of
                 None \<Rightarrow> Some 0
               | Some start \<Rightarrow>
                   (case parseInt64 (trimSuffix (take (e - (start + 1)) (drop (start + 1) s)) ''+'') of
                      None \<Rightarrow> Some 0
                    | Some n \<Rightarrow>
                        if n < 0 then Some 0
                        else if maxSessionBytes < n then None
                        else Some n))"

text \<open>
  \<open>scanProtocolByte\<close> in its three parts: the quoted string, the lists, and the end of a line. A
  part answers whether it ends with the inbound limit error, and the state it leaves.
\<close>

definition scanQuoted :: "guard \<Rightarrow> char \<Rightarrow> bool \<times> guard" where
  "scanQuoted c b =
     (let c1 = c\<lparr>gd_quotedLength := gd_quotedLength c + 1\<rparr> in
      if maxQuotedWire < gd_quotedLength c1 then (True, c1)
      else if gd_escaped c1 then (False, c1\<lparr>gd_escaped := False\<rparr>)
      else if b = backslash then (False, c1\<lparr>gd_escaped := True\<rparr>)
      else if b = dquote then (False, c1\<lparr>gd_quoted := False\<rparr>)
      else (False, c1))"

definition scanPlain :: "guard \<Rightarrow> char \<Rightarrow> bool \<times> guard" where
  "scanPlain c b =
     (if b = dquote then (False, c\<lparr>gd_quoted := True, gd_quotedLength := 0\<rparr>)
      else if b = CHR ''(''
      then let c1 = c\<lparr>gd_depth := gd_depth c + 1, gd_lists := gd_lists c + 1\<rparr> in
           (maxProtocolDepth < gd_depth c1 \<or> maxProtocolLists < gd_lists c1, c1)
      else if b = CHR '')''
      then let c1 = c\<lparr>gd_depth := gd_depth c - 1\<rparr> in (gd_depth c1 < 0, c1)
      else (False, c))"

definition scanLineEnd :: "guard \<Rightarrow> char \<Rightarrow> bool \<times> guard" where
  "scanLineEnd c b =
     (let n = length (gd_line c) in
      if 2 \<le> n \<and> gd_line c ! (n - 2) = cr \<and> b = lf
      then (case literalSize (take (n - 2) (gd_line c)) of
              None \<Rightarrow> (True, c)
            | Some sz \<Rightarrow>
                (False, c\<lparr>gd_literalRemaining := sz, gd_line := [], gd_quoted := False,
                   gd_quotedLength := 0, gd_escaped := False,
                   gd_lists := (if sz = 0 \<and> gd_depth c = 0 then 0 else gd_lists c)\<rparr>))
      else (False, c))"

definition scanProtocolByte :: "guard \<Rightarrow> char \<Rightarrow> bool \<times> guard" where
  "scanProtocolByte c b =
     (let c1 = c\<lparr>gd_line := gd_line c @ [b]\<rparr> in
      if maxProtocolLine < int (length (gd_line c1)) then (True, c1)
      else case (if gd_quoted c1 then scanQuoted c1 b else scanPlain c1 b) of
             (failed, c2) \<Rightarrow> if failed then (True, c2) else scanLineEnd c2 b)"

text \<open>
  The loop of \<open>Read\<close> over the bytes the connection delivered, from the number accepted so far. The
  answer is that number at the end and whether the inbound limit was hit.
\<close>

fun guardLoop :: "guard \<Rightarrow> string \<Rightarrow> nat \<Rightarrow> (nat \<times> bool) \<times> guard" where
  "guardLoop c [] accepted = ((accepted, False), c)"
| "guardLoop c (b # bs) accepted =
     (if maxSessionBytes \<le> gd_total c then ((accepted, True), c)
      else
        let c1 = c\<lparr>gd_total := gd_total c + 1\<rparr> in
        if 0 < gd_literalRemaining c1
        then guardLoop (c1\<lparr>gd_literalRemaining := gd_literalRemaining c1 - 1\<rparr>) bs (accepted + 1)
        else case scanProtocolByte c1 b of
               (failed, c2) \<Rightarrow>
                 if failed then ((accepted, True), c2) else guardLoop c2 bs (accepted + 1))"

datatype 'e guardEnd = Passed "'e option" | InboundLimit

definition guardRead :: "guard \<Rightarrow> string \<Rightarrow> 'e option \<Rightarrow> (nat \<times> 'e guardEnd) \<times> guard" where
  "guardRead c p err =
     (case guardLoop c p 0 of
        ((accepted, limit), c') \<Rightarrow> ((accepted, if limit then InboundLimit else Passed err), c'))"

section \<open>A session of reads\<close>

text \<open>
  The protocol parser reads until an error. \<open>guardSession\<close> is what it receives from reads that
  deliver the given chunks, and whether the inbound limit ended it.
\<close>

fun guardSession :: "guard \<Rightarrow> string list \<Rightarrow> (string \<times> bool) \<times> guard" where
  "guardSession c [] = (([], False), c)"
| "guardSession c (p # ps) =
     (case guardRead c p (None :: unit option) of
        ((accepted, ended), c') \<Rightarrow>
          (case ended of
             InboundLimit \<Rightarrow> ((take accepted p, True), c')
           | Passed _ \<Rightarrow>
               (case guardSession c' ps of
                  ((rest, limit), c'') \<Rightarrow> ((take accepted p @ rest, limit), c''))))"

text \<open>The bounds that hold of the guard after every accepted byte.\<close>

definition guardInv :: "guard \<Rightarrow> bool" where
  "guardInv c \<longleftrightarrow> 0 \<le> gd_total c \<and> gd_total c \<le> maxSessionBytes
     \<and> int (length (gd_line c)) \<le> maxProtocolLine
     \<and> 0 \<le> gd_literalRemaining c \<and> gd_literalRemaining c \<le> maxSessionBytes
     \<and> 0 \<le> gd_depth c \<and> gd_depth c \<le> maxProtocolDepth
     \<and> 0 \<le> gd_lists c \<and> gd_lists c \<le> maxProtocolLists
     \<and> 0 \<le> gd_quotedLength c \<and> gd_quotedLength c \<le> maxQuotedWire"

lemma guardInv_new: "guardInv newGuardedConn"
  by (simp add: guardInv_def newGuardedConn_def maxSessionBytes_def maxProtocolLine_def
      maxProtocolDepth_def maxProtocolLists_def maxQuotedWire_def)

lemma literalSize_bounds: "literalSize s = Some n \<Longrightarrow> 0 \<le> n \<and> n \<le> maxSessionBytes"
  by (auto simp: literalSize_def maxSessionBytes_def split: option.splits if_splits)

lemma scanQuoted_inv: "guardInv c \<Longrightarrow> scanQuoted c b = (False, c') \<Longrightarrow> guardInv c'"
  by (auto simp: scanQuoted_def guardInv_def Let_def split: if_splits)

lemma scanPlain_inv: "guardInv c \<Longrightarrow> scanPlain c b = (False, c') \<Longrightarrow> guardInv c'"
  by (auto simp: scanPlain_def guardInv_def Let_def maxQuotedWire_def split: if_splits)

lemma scanLineEnd_inv: "guardInv c \<Longrightarrow> scanLineEnd c b = (False, c') \<Longrightarrow> guardInv c'"
  by (auto simp: scanLineEnd_def guardInv_def Let_def maxQuotedWire_def maxProtocolLine_def
      maxProtocolLists_def dest!: literalSize_bounds split: if_splits option.splits)

lemma scanProtocolByte_inv:
  assumes "guardInv c" and "scanProtocolByte c b = (False, c')"
  shows "guardInv c'"
proof -
  define c1 where "c1 = c\<lparr>gd_line := gd_line c @ [b]\<rparr>"
  have len: "int (length (gd_line c1)) \<le> maxProtocolLine"
    using assms(2) by (auto simp: scanProtocolByte_def c1_def Let_def split: if_splits)
  with assms(1) have inv: "guardInv c1" by (simp add: guardInv_def c1_def)
  obtain c2 where "(if gd_quoted c1 then scanQuoted c1 b else scanPlain c1 b) = (False, c2)"
      "scanLineEnd c2 b = (False, c')"
    using assms(2) len
    by (auto simp: scanProtocolByte_def Let_def simp flip: c1_def split: prod.splits if_splits)
  with inv show ?thesis by (metis scanQuoted_inv scanPlain_inv scanLineEnd_inv)
qed

lemma scan_keeps_total:
  "scanProtocolByte c b = (f, c') \<Longrightarrow> gd_total c' = gd_total c"
  by (auto simp: scanProtocolByte_def scanQuoted_def scanPlain_def scanLineEnd_def Let_def
      split: if_splits option.splits prod.splits)

text \<open>One accepted byte.\<close>

definition guardStep :: "guard \<Rightarrow> char \<Rightarrow> guard option" where
  "guardStep c b =
     (case guardLoop c [b] 0 of ((_, limit), c') \<Rightarrow> if limit then None else Some c')"

definition limitState :: "guard \<Rightarrow> char \<Rightarrow> guard" where
  "limitState c b = snd (guardLoop c [b] 0)"

lemma guardLoop_Cons:
  "guardLoop c (b # bs) k =
     (case guardStep c b of
        None \<Rightarrow> ((k, True), limitState c b)
      | Some c' \<Rightarrow> guardLoop c' bs (k + 1))"
  by (simp add: guardStep_def limitState_def Let_def split: prod.split)

lemma guardStep_inv: "guardInv c \<Longrightarrow> guardStep c b = Some c' \<Longrightarrow> guardInv c' \<and> gd_total c' = gd_total c + 1"
proof -
  assume inv: "guardInv c" and step: "guardStep c b = Some c'"
  then have less: "gd_total c < maxSessionBytes"
    by (auto simp: guardStep_def split: if_splits)
  define c1 where "c1 = c\<lparr>gd_total := gd_total c + 1\<rparr>"
  have inv1: "guardInv c1" using inv less by (simp add: c1_def guardInv_def)
  show ?thesis
  proof (cases "0 < gd_literalRemaining c")
    case True
    with inv1 step less show ?thesis
      by (auto simp: guardStep_def Let_def c1_def guardInv_def)
  next
    case False
    with step less have "scanProtocolByte c1 b = (False, c')"
      by (auto simp: guardStep_def Let_def c1_def split: prod.splits if_splits)
    with inv1 show ?thesis
      using scanProtocolByte_inv scan_keeps_total by (fastforce simp: c1_def)
  qed
qed

declare guardLoop.simps(2) [simp del]

lemma guardLoop_spec:
  "guardInv c \<Longrightarrow> guardLoop c bs k = ((n, limit), c') \<Longrightarrow>
     k \<le> n \<and> n \<le> k + length bs \<and> (\<not> limit \<longrightarrow> n = k + length bs \<and> guardInv c')
     \<and> gd_total c + int (n - k) \<le> maxSessionBytes \<and> (\<not> limit \<longrightarrow> gd_total c' = gd_total c + int (n - k))"
proof (induction bs arbitrary: c k)
  case Nil
  then show ?case by (auto simp: guardInv_def)
next
  case (Cons b bs)
  show ?case
  proof (cases "guardStep c b")
    case None
    with Cons.prems have "n = k" "limit" by (auto simp: guardLoop_Cons)
    with Cons.prems(1) show ?thesis by (simp add: guardInv_def)
  next
    case (Some c1)
    with Cons.prems have "guardLoop c1 bs (k + 1) = ((n, limit), c')" by (simp add: guardLoop_Cons)
    from Cons.IH [OF _ this] guardStep_inv [OF Cons.prems(1) Some] show ?thesis
      by (auto simp: of_nat_diff)
  qed
qed

lemma guardLoop_append:
  "guardLoop c (xs @ ys) k =
     (case guardLoop c xs k of
        ((n, limit), c') \<Rightarrow> if limit then ((n, True), c') else guardLoop c' ys n)"
proof (induction xs arbitrary: c k)
  case Nil
  then show ?case by simp
next
  case (Cons b xs)
  show ?case
    by (cases "guardStep c b") (simp_all add: guardLoop_Cons Cons.IH)
qed

lemma guardLoop_shift:
  "guardLoop c bs (k + j) = (case guardLoop c bs k of ((n, limit), c') \<Rightarrow> ((n + j, limit), c'))"
proof (induction bs arbitrary: c k)
  case Nil
  then show ?case by simp
next
  case (Cons b bs)
  show ?case
    using Cons.IH [of _ "k + 1"] by (cases "guardStep c b") (simp_all add: guardLoop_Cons)
qed

lemma guardSession_concat:
  "guardInv c \<Longrightarrow> guardSession c ps =
     (case guardLoop c (concat ps) 0 of ((n, limit), c') \<Rightarrow> ((take n (concat ps), limit), c'))"
proof (induction ps arbitrary: c)
  case Nil
  then show ?case by simp
next
  case (Cons p ps)
  obtain n limit c1 where run: "guardLoop c p 0 = ((n, limit), c1)" by (metis prod.exhaust)
  note spec = guardLoop_spec [OF Cons.prems run]
  show ?case
  proof (cases limit)
    case True
    with run spec show ?thesis by (simp add: guardRead_def guardLoop_append)
  next
    case False
    then have inv: "guardInv c1" and n: "n = length p" using spec by auto
    obtain m limit' c2 where rest: "guardLoop c1 (concat ps) 0 = ((m, limit'), c2)"
      by (metis prod.exhaust)
    have "guardLoop c1 (concat ps) n = ((m + n, limit'), c2)"
      using guardLoop_shift [of c1 "concat ps" 0 n] rest by simp
    with False run rest n show ?thesis
      by (simp add: guardRead_def guardLoop_append Cons.IH [OF inv])
  qed
qed

section \<open>The limits of the received text\<close>

text \<open>
  The limits are stated of the text itself, without the guard. A session is a sequence of lines,
  each ended by CR LF and followed by the literal it announces; the bytes of literals belong to no
  line. \<open>wireLines n cur bs\<close> are the lines of \<open>bs\<close> when \<open>n\<close> literal bytes are pending and \<open>cur\<close> is the
  open line; the last one may be incomplete.
\<close>

definition lineEnds :: "string \<Rightarrow> bool" where
  "lineEnds l \<longleftrightarrow> take 2 (rev l) = [lf, cr]"

definition lineContent :: "string \<Rightarrow> string" where
  "lineContent l = take (length l - 2) l"

definition announced :: "string \<Rightarrow> int" where
  "announced l = (case literalSize (lineContent l) of None \<Rightarrow> 0 | Some n \<Rightarrow> n)"

fun wireLines :: "int \<Rightarrow> string \<Rightarrow> string \<Rightarrow> string list" where
  "wireLines n cur [] = [cur]"
| "wireLines n cur (b # bs) =
     (if 0 < n then wireLines (n - 1) cur bs
      else if lineEnds (cur @ [b]) then (cur @ [b]) # wireLines (announced (cur @ [b])) [] bs
      else wireLines 0 (cur @ [b]) bs)"

text \<open>Where a byte of a line stands, and the bytes outside quoted strings.\<close>

datatype region = Outside | Inside | Escape

definition nextRegion :: "region \<Rightarrow> char \<Rightarrow> region" where
  "nextRegion r b =
     (case r of
        Outside \<Rightarrow> if b = dquote then Inside else Outside
      | Inside \<Rightarrow> if b = backslash then Escape else if b = dquote then Outside else Inside
      | Escape \<Rightarrow> Inside)"

fun unquotedFrom :: "region \<Rightarrow> string \<Rightarrow> string" where
  "unquotedFrom r [] = []"
| "unquotedFrom r (b # bs) =
     (if r = Outside \<and> b \<noteq> dquote then [b] else []) @ unquotedFrom (nextRegion r b) bs"

abbreviation "unquoted \<equiv> unquotedFrom Outside"

text \<open>The quoted strings of a line, each from its first byte to its closing quote.\<close>

fun quotedFrom :: "region \<Rightarrow> string \<Rightarrow> string \<Rightarrow> string list" where
  "quotedFrom r q [] = [q]"
| "quotedFrom r q (b # bs) =
     (if r \<noteq> Outside then quotedFrom (nextRegion r b) (q @ [b]) bs
      else if b = dquote then q # quotedFrom Inside [] bs
      else quotedFrom Outside q bs)"

abbreviation "quotedStrings \<equiv> quotedFrom Outside []"

text \<open>
  The lists of a text, and how deeply they nest at its end. A response ends with the line that
  announces no literal and leaves no list open; \<open>responses cur ls\<close> are the unquoted texts of the
  responses of the lines \<open>ls\<close>, where \<open>cur\<close> is that of the open response.
\<close>

definition opens :: "string \<Rightarrow> int" where
  "opens s = int (count_list s (CHR ''(''))"

definition nesting :: "string \<Rightarrow> int" where
  "nesting s = opens s - int (count_list s (CHR '')''))"

fun responses :: "string \<Rightarrow> string list \<Rightarrow> string list" where
  "responses cur [] = [cur]"
| "responses cur (l # ls) =
     (let r = cur @ unquoted l in
      if lineEnds l \<and> announced l = 0 \<and> nesting r = 0 then r # responses [] ls else responses r ls)"

text \<open>
  The limits: of every line, of the literal it announces and of its quoted strings, and of every
  response the number of its lists and their nesting, which is never negative.
\<close>

definition lineOk :: "string \<Rightarrow> bool" where
  "lineOk l \<longleftrightarrow> int (length l) \<le> maxProtocolLine
     \<and> (lineEnds l \<longrightarrow> literalSize (lineContent l) \<noteq> None)
     \<and> (\<forall>q \<in> set (quotedStrings l). int (length q) \<le> maxQuotedWire)"

definition responseOk :: "string \<Rightarrow> bool" where
  "responseOk r \<longleftrightarrow> opens r \<le> maxProtocolLists
     \<and> (\<forall>k \<le> length r. 0 \<le> nesting (take k r) \<and> nesting (take k r) \<le> maxProtocolDepth)"

definition wireOk :: "string \<Rightarrow> bool" where
  "wireOk t \<longleftrightarrow> int (length t) \<le> maxSessionBytes
     \<and> (\<forall>l \<in> set (wireLines 0 [] t). lineOk l)
     \<and> (\<forall>r \<in> set (responses [] (wireLines 0 [] t)). responseOk r)"

text \<open>How the parts of a text grow by a byte.\<close>

abbreviation regionAfter :: "region \<Rightarrow> string \<Rightarrow> region" where
  "regionAfter \<equiv> foldl nextRegion"

lemma nextRegion_Outside [simp]: "nextRegion Outside b = (if b = dquote then Inside else Outside)"
  by (simp add: nextRegion_def)

lemma unquotedFrom_snoc:
  "unquotedFrom r (l @ [b])
     = unquotedFrom r l @ (if regionAfter r l = Outside \<and> b \<noteq> dquote then [b] else [])"
  by (induction l arbitrary: r) auto

lemma quotedFrom_not_Nil [simp]: "quotedFrom r q l \<noteq> []"
  by (induction r q l rule: quotedFrom.induct) auto

lemma quotedFrom_snoc:
  "quotedFrom r q (l @ [b]) =
     (if regionAfter r l \<noteq> Outside then butlast (quotedFrom r q l) @ [last (quotedFrom r q l) @ [b]]
      else if b = dquote then quotedFrom r q l @ [[]] else quotedFrom r q l)"
  by (induction r q l rule: quotedFrom.induct) auto

lemma opens_snoc: "opens (s @ [b]) = opens s + (if b = CHR ''('' then 1 else 0)"
  by (simp add: opens_def)

lemma nesting_snoc:
  "nesting (s @ [b]) = nesting s + (if b = CHR ''('' then 1 else if b = CHR '')'' then - 1 else 0)"
  by (simp add: nesting_def opens_def)

lemma responseOk_Nil [simp]: "responseOk []"
  by (simp add: responseOk_def opens_def nesting_def maxProtocolDepth_def maxProtocolLists_def)

lemma responseOk_snoc:
  "responseOk (s @ [b]) \<longleftrightarrow> responseOk s \<and> opens (s @ [b]) \<le> maxProtocolLists
     \<and> 0 \<le> nesting (s @ [b]) \<and> nesting (s @ [b]) \<le> maxProtocolDepth"
proof -
  have mono: "opens s \<le> opens (s @ [b])" by (simp add: opens_snoc)
  have "(\<forall>k \<le> length (s @ [b]). P (take k (s @ [b])))
      \<longleftrightarrow> (\<forall>k \<le> length s. P (take k s)) \<and> P (s @ [b])" for P
    by (auto simp: le_Suc_eq)
  from this [of "\<lambda>p. 0 \<le> nesting p \<and> nesting p \<le> maxProtocolDepth"] mono show ?thesis
    unfolding responseOk_def by auto
qed

text \<open>
  The state of the guard is a function of the text it has read: \<open>guardSees R c\<close> relates it to the
  open line and to the unquoted text \<open>R\<close> of the earlier lines of the open response.
\<close>

definition lineShort :: "string \<Rightarrow> bool" where
  "lineShort l \<longleftrightarrow> int (length l) \<le> maxProtocolLine
     \<and> (\<forall>q \<in> set (quotedStrings l). int (length q) \<le> maxQuotedWire)"

lemma lineOk_short:
  "lineOk l \<longleftrightarrow> lineShort l \<and> (lineEnds l \<longrightarrow> literalSize (lineContent l) \<noteq> None)"
  by (auto simp: lineOk_def lineShort_def)

definition guardSees :: "string \<Rightarrow> guard \<Rightarrow> bool" where
  "guardSees R c \<longleftrightarrow> gd_depth c = nesting (R @ unquoted (gd_line c))
     \<and> gd_lists c = opens (R @ unquoted (gd_line c)) \<and> responseOk (R @ unquoted (gd_line c))
     \<and> gd_quoted c = (regionAfter Outside (gd_line c) \<noteq> Outside)
     \<and> gd_escaped c = (regionAfter Outside (gd_line c) = Escape)
     \<and> gd_quotedLength c = int (length (last (quotedStrings (gd_line c))))
     \<and> lineShort (gd_line c)"

lemma guardSees_new: "guardSees [] newGuardedConn"
  by (simp add: guardSees_def newGuardedConn_def lineShort_def nesting_def opens_def
      maxProtocolLine_def maxQuotedWire_def)

lemma quoted_grows:
  assumes "\<forall>q \<in> set qs. int (length q) \<le> N" and "qs \<noteq> []"
  shows "(\<forall>q \<in> set (butlast qs @ [last qs @ [b]]). int (length q) \<le> N)
    \<longleftrightarrow> int (length (last qs)) + 1 \<le> N"
  using assms by (auto dest: in_set_butlastD)

lemma scanQuoted_sees:
  assumes "guardSees R c" and "gd_quoted c" and "int (length (gd_line c @ [b])) \<le> maxProtocolLine"
    and "scanQuoted (c\<lparr>gd_line := gd_line c @ [b]\<rparr>) b = (failed, c')"
  shows "(failed \<longleftrightarrow> \<not> (lineShort (gd_line c @ [b]) \<and> responseOk (R @ unquoted (gd_line c @ [b]))))
    \<and> (\<not> failed \<longrightarrow> guardSees R c') \<and> gd_line c' = gd_line c @ [b]
    \<and> gd_literalRemaining c' = gd_literalRemaining c"
proof -
  let ?r = "regionAfter Outside (gd_line c)"
  have r: "?r \<noteq> Outside" and esc: "gd_escaped c \<longleftrightarrow> ?r = Escape"
    and len: "gd_quotedLength c = int (length (last (quotedStrings (gd_line c))))"
    and short: "lineShort (gd_line c)" and ok: "responseOk (R @ unquoted (gd_line c))"
    using assms(1,2) by (auto simp: guardSees_def)
  have "lineShort (gd_line c @ [b]) \<longleftrightarrow> gd_quotedLength c + 1 \<le> maxQuotedWire"
    using short assms(3) quoted_grows [of "quotedStrings (gd_line c)" maxQuotedWire b] r
    by (simp add: lineShort_def quotedFrom_snoc len)
  with assms r esc len ok show ?thesis
    by (cases ?r) (auto simp: scanQuoted_def guardSees_def Let_def unquotedFrom_snoc quotedFrom_snoc
        nextRegion_def split: if_splits)
qed

lemma scanPlain_sees:
  assumes "guardSees R c" and "\<not> gd_quoted c" and "int (length (gd_line c @ [b])) \<le> maxProtocolLine"
    and "scanPlain (c\<lparr>gd_line := gd_line c @ [b]\<rparr>) b = (failed, c')"
  shows "(failed \<longleftrightarrow> \<not> (lineShort (gd_line c @ [b]) \<and> responseOk (R @ unquoted (gd_line c @ [b]))))
    \<and> (\<not> failed \<longrightarrow> guardSees R c') \<and> gd_line c' = gd_line c @ [b]
    \<and> gd_literalRemaining c' = gd_literalRemaining c"
proof -
  let ?t = "R @ unquoted (gd_line c)"
  have r: "regionAfter Outside (gd_line c) = Outside" and esc: "\<not> gd_escaped c"
    and ok: "responseOk ?t" and short: "lineShort (gd_line c)"
    and counts: "gd_depth c = nesting ?t" "gd_lists c = opens ?t"
    using assms(1,2) by (auto simp: guardSees_def)
  have short': "lineShort (gd_line c @ [b])"
    using short assms(3) r by (auto simp: lineShort_def quotedFrom_snoc maxQuotedWire_def)
  have "0 \<le> nesting ?t" "nesting ?t \<le> maxProtocolDepth" "opens ?t \<le> maxProtocolLists"
    using ok unfolding responseOk_def by (auto dest: spec [of _ "length ?t"])
  with assms r esc ok short' counts responseOk_snoc [of ?t b] opens_snoc [of ?t b] nesting_snoc [of ?t b]
  show ?thesis
    by (auto simp: scanPlain_def guardSees_def Let_def unquotedFrom_snoc quotedFrom_snoc nextRegion_def
        split: if_splits)
qed

lemma scanLineEnd_sees:
  assumes "guardSees R c" and "gd_line c = l" and "l = cur @ [b]" and "gd_literalRemaining c = 0"
    and "scanLineEnd c b = (failed, c')"
  shows "(failed \<longleftrightarrow> \<not> lineOk l)
    \<and> (\<not> failed \<longrightarrow>
        (if lineEnds l
         then gd_line c' = [] \<and> gd_literalRemaining c' = announced l
           \<and> guardSees (if announced l = 0 \<and> nesting (R @ unquoted l) = 0 then [] else R @ unquoted l) c'
         else c' = c))"
proof -
  have ends: "lineEnds l \<longleftrightarrow> 2 \<le> length l \<and> l ! (length l - 2) = cr \<and> b = lf"
    unfolding assms(3) lineEnds_def by (cases cur rule: rev_cases) (auto simp: nth_append)
  have Nil: "lineShort []" by (simp add: lineShort_def maxProtocolLine_def maxQuotedWire_def)
  have zero: "opens [] = 0" "nesting [] = 0" by (simp_all add: opens_def nesting_def)
  have short: "lineShort l" using assms(1,2) by (simp add: guardSees_def)
  show ?thesis
  proof (cases "lineEnds l")
    case False
    with ends assms short show ?thesis by (auto simp: scanLineEnd_def lineOk_short Let_def)
  next
    case True
    with ends have "2 \<le> length l" "l ! (length l - 2) = cr" "b = lf" by auto
    with True assms short Nil zero show ?thesis
      by (auto simp: scanLineEnd_def lineOk_short Let_def lineContent_def announced_def guardSees_def
          split: option.splits if_splits)
  qed
qed

lemma scanProtocolByte_sees:
  assumes "guardSees R c" and "gd_literalRemaining c = 0"
    and "scanProtocolByte c b = (failed, c')" and "l = gd_line c @ [b]" and "r = R @ unquoted l"
  shows "(failed \<longleftrightarrow> \<not> (lineOk l \<and> responseOk r))
    \<and> (\<not> failed \<longrightarrow>
        (if lineEnds l
         then gd_line c' = [] \<and> gd_literalRemaining c' = announced l
           \<and> guardSees (if announced l = 0 \<and> nesting r = 0 then [] else r) c'
         else gd_line c' = l \<and> gd_literalRemaining c' = 0 \<and> guardSees R c'))"
proof (cases "int (length l) \<le> maxProtocolLine")
  case False
  with assms(3,4) show ?thesis
    by (auto simp: scanProtocolByte_def lineOk_short lineShort_def Let_def)
next
  case True
  obtain f2 c2 where mid: "(if gd_quoted c then scanQuoted (c\<lparr>gd_line := l\<rparr>) b
      else scanPlain (c\<lparr>gd_line := l\<rparr>) b) = (f2, c2)" by (rule prod.exhaust)
  have S: "(f2 \<longleftrightarrow> \<not> (lineShort l \<and> responseOk r)) \<and> (\<not> f2 \<longrightarrow> guardSees R c2) \<and> gd_line c2 = l
      \<and> gd_literalRemaining c2 = 0"
    using mid scanQuoted_sees [OF assms(1), of b f2 c2] scanPlain_sees [OF assms(1), of b f2 c2]
      True assms(2) unfolding assms(4,5) by (cases "gd_quoted c") auto
  have run: "(if f2 then (True, c2) else scanLineEnd c2 b) = (failed, c')"
    using assms(3) mid True unfolding assms(4) by (auto simp: scanProtocolByte_def Let_def)
  show ?thesis
  proof (cases f2)
    case True
    with S run show ?thesis by (auto simp: lineOk_short)
  next
    case False
    with S run have "guardSees R c2" "gd_line c2 = l" "gd_literalRemaining c2 = 0" "responseOk r"
        "scanLineEnd c2 b = (failed, c')" by auto
    from scanLineEnd_sees [OF this(1,2) assms(4) this(3,5)] this show ?thesis
      unfolding assms(5) by (auto split: if_splits)
  qed
qed

lemma guardSees_total [simp]: "guardSees R (c\<lparr>gd_total := n\<rparr>) = guardSees R c"
  and guardSees_literal [simp]: "guardSees R (c\<lparr>gd_literalRemaining := n\<rparr>) = guardSees R c"
  by (simp_all add: guardSees_def)

lemma guardStep_scan:
  assumes "gd_total c < maxSessionBytes" and "gd_literalRemaining c = 0"
  shows "guardStep c b = (case scanProtocolByte (c\<lparr>gd_total := gd_total c + 1\<rparr>) b of
    (failed, c') \<Rightarrow> if failed then None else Some c')"
  using assms by (auto simp: guardStep_def guardLoop.simps Let_def split: prod.splits)

lemma guardStep_literal:
  assumes "gd_total c < maxSessionBytes" and "0 < gd_literalRemaining c"
  shows "guardStep c b = Some (c\<lparr>gd_total := gd_total c + 1,
    gd_literalRemaining := gd_literalRemaining c - 1\<rparr>)"
  using assms by (simp add: guardStep_def guardLoop.simps Let_def)

definition wireFrom :: "string \<Rightarrow> int \<Rightarrow> string \<Rightarrow> string \<Rightarrow> bool" where
  "wireFrom R n cur bs \<longleftrightarrow> (\<forall>l \<in> set (wireLines n cur bs). lineOk l)
     \<and> (\<forall>r \<in> set (responses R (wireLines n cur bs)). responseOk r)"

lemma wireOk_from: "wireOk t \<longleftrightarrow> int (length t) \<le> maxSessionBytes \<and> wireFrom [] 0 [] t"
  by (simp add: wireOk_def wireFrom_def)

lemma wireFrom_Nil:
  "\<not> lineEnds cur \<Longrightarrow> wireFrom R n cur [] \<longleftrightarrow> lineOk cur \<and> responseOk (R @ unquoted cur)"
  by (simp add: wireFrom_def)

lemma wireFrom_Cons:
  assumes "l = cur @ [b]" and "r = R @ unquoted l"
  shows "wireFrom R n cur (b # bs) \<longleftrightarrow>
    (if 0 < n then wireFrom R (n - 1) cur bs
     else if lineEnds l
     then lineOk l \<and> (if announced l = 0 \<and> nesting r = 0 then responseOk r \<and> wireFrom [] 0 [] bs
                      else wireFrom r (announced l) [] bs)
     else wireFrom R 0 l bs)"
  using assms by (auto simp: wireFrom_def Let_def)

lemma lineEnds_Nil [simp]: "\<not> lineEnds []"
  by (simp add: lineEnds_def)

lemma lineOk_Nil [simp]: "lineOk []"
  by (simp add: lineOk_def maxProtocolLine_def maxQuotedWire_def)

text \<open>The guard accepts a byte exactly if the text with it is within the limits.\<close>

lemma wireFrom_one:
  assumes "l = cur @ [b]" and "r = R @ unquoted l" and "n \<le> 0"
  shows "wireFrom R n cur [b] \<longleftrightarrow> lineOk l \<and> responseOk r"
  using assms by (auto simp: wireFrom_Cons [OF refl refl] wireFrom_Nil)

lemma guardSees_Nil:
  "guardSees R c \<Longrightarrow> \<not> lineEnds (gd_line c) \<Longrightarrow> wireFrom R n (gd_line c) []"
  by (auto simp: wireFrom_Nil lineOk_short guardSees_def)

lemma guardStep_refuses:
  assumes "guardInv c" and "guardSees R c" and "guardStep c b = None" and "gd_total c < maxSessionBytes"
  shows "\<not> wireFrom R (gd_literalRemaining c) (gd_line c) [b]"
proof -
  have lit: "gd_literalRemaining c = 0"
    using assms guardStep_literal [of c b] by (cases "0 < gd_literalRemaining c") (auto simp: guardInv_def)
  with assms obtain c1 where "scanProtocolByte (c\<lparr>gd_total := gd_total c + 1\<rparr>) b = (True, c1)"
    by (auto simp: guardStep_scan split: prod.splits if_splits)
  from scanProtocolByte_sees [OF _ _ this refl refl] assms(2) lit show ?thesis
    by (auto simp: wireFrom_one [OF refl refl])
qed

lemma guardStep_accepts:
  assumes "guardInv c" and "guardSees R c" and "\<not> lineEnds (gd_line c)" and "guardStep c b = Some c1"
  obtains R' where "guardSees R' c1" "\<not> lineEnds (gd_line c1)"
    "\<And>ts. wireFrom R (gd_literalRemaining c) (gd_line c) (b # ts)
       \<longleftrightarrow> wireFrom R' (gd_literalRemaining c1) (gd_line c1) ts"
proof (cases "0 < gd_literalRemaining c")
  case True
  have less: "gd_total c < maxSessionBytes"
    using assms(4) by (auto simp: guardStep_def guardLoop.simps split: if_splits)
  with assms(4) guardStep_literal [OF less True] have "c1 = c\<lparr>gd_total := gd_total c + 1,
    gd_literalRemaining := gd_literalRemaining c - 1\<rparr>" by simp
  with True assms(2,3) that [of R] show ?thesis by (simp add: wireFrom_Cons [OF refl refl])
next
  case False
  define l where "l = gd_line (c\<lparr>gd_total := gd_total c + 1\<rparr>) @ [b]"
  define r where "r = R @ unquoted l"
  have less: "gd_total c < maxSessionBytes"
    using assms(4) by (auto simp: guardStep_def guardLoop.simps split: if_splits)
  have lit: "gd_literalRemaining c = 0" using False assms(1) by (simp add: guardInv_def)
  with assms(4) less have scan: "scanProtocolByte (c\<lparr>gd_total := gd_total c + 1\<rparr>) b = (False, c1)"
    by (auto simp: guardStep_scan split: prod.splits if_splits)
  from scanProtocolByte_sees [OF _ _ scan l_def r_def] assms(2) lit
  have S: "lineOk l" "responseOk r"
    "if lineEnds l then gd_line c1 = [] \<and> gd_literalRemaining c1 = announced l
       \<and> guardSees (if announced l = 0 \<and> nesting r = 0 then [] else r) c1
     else gd_line c1 = l \<and> gd_literalRemaining c1 = 0 \<and> guardSees R c1"
    by simp_all
  have l: "l = gd_line c @ [b]" by (simp add: l_def)
  show ?thesis
    by (rule that [of "if lineEnds l then if announced l = 0 \<and> nesting r = 0 then [] else r else R"])
      (use S lit in \<open>auto simp: wireFrom_Cons [OF l r_def] split: if_splits\<close>)
qed

lemma guardLoop_wire:
  assumes "guardInv c" and "guardSees R c" and "\<not> lineEnds (gd_line c)"
    and "guardLoop c bs k = ((m, limit), c')"
  shows "wireFrom R (gd_literalRemaining c) (gd_line c) (take (m - k) bs)
    \<and> (limit \<longrightarrow> m - k < length bs \<and> \<not> (gd_total c + int (m - k) + 1 \<le> maxSessionBytes
         \<and> wireFrom R (gd_literalRemaining c) (gd_line c) (take (Suc (m - k)) bs)))"
  using assms
proof (induction bs arbitrary: c R k)
  case Nil
  then show ?case by (auto simp: guardSees_Nil)
next
  case (Cons b bs)
  show ?case
  proof (cases "guardStep c b")
    case None
    with Cons.prems(4) have m: "m = k" "limit" by (auto simp: guardLoop_Cons)
    from guardStep_refuses [OF Cons.prems(1,2) None] m guardSees_Nil [OF Cons.prems(2,3)]
    show ?thesis by auto
  next
    case (Some c1)
    from Some Cons.prems(4) have run: "guardLoop c1 bs (k + 1) = ((m, limit), c')"
      by (simp add: guardLoop_Cons)
    have inv1: "guardInv c1" and tot: "gd_total c1 = gd_total c + 1"
      using guardStep_inv [OF Cons.prems(1) Some] by auto
    have "k + 1 \<le> m" using guardLoop_spec [OF inv1 run] by simp
    then have d: "m - k = Suc (m - (k + 1))" by simp
    obtain R' where sees: "guardSees R' c1" "\<not> lineEnds (gd_line c1)"
      and wire: "\<And>ts. wireFrom R (gd_literalRemaining c) (gd_line c) (b # ts)
        \<longleftrightarrow> wireFrom R' (gd_literalRemaining c1) (gd_line c1) ts"
      using guardStep_accepts [OF Cons.prems(1-3) Some] by blast
    from Cons.IH [OF inv1 sees run] show ?thesis unfolding d by (simp add: wire tot)
  qed
qed

section \<open>Properties\<close>



end
