(* ===== verification/Mail_Session.thy ===== *)
theory Mail_Session
  imports Mail_Validation
begin

text \<open>
  \<open>internal/mail/service.go\<close> (the client, its connection handling, retries and error mapping),
  \<open>internal/mail/context.go\<close>, \<open>internal/mail/protocol.go\<close> and the data of
  \<open>internal/mail/imapadapter/types.go\<close>. The IMAP session is the interface \<open>imapSession\<close> of the
  source: a record of functions on the state \<open>'w\<close> of the outside. A call ends with a value, with an
  error or with a panic; the recovered panics of the source are branches here. An error is known by
  what \<open>errors.Is\<close> and \<open>errors.As\<close> find in its chain.
\<close>

section \<open>Faults and calls\<close>

datatype imapKind =
    ErrorProtocol | ErrorAuthentication | ErrorAuthorization | ErrorNotFound | ErrorConflict
  | ErrorRateLimited | ErrorTimeout | ErrorUnavailable | ErrorTooLarge

text \<open>
  \<open>f_mail\<close>: a public mail error; \<open>f_imap\<close>: an adapter error with its kind and its \<open>Ambiguous\<close> flag;
  \<open>f_net\<close>: a \<open>net.Error\<close> with its \<open>Timeout\<close>; \<open>f_eof\<close>: \<open>io.EOF\<close> or \<open>io.ErrUnexpectedEOF\<close>; \<open>f_smtp\<close>: the
  code of an SMTP reply; the last four: the sentinels of \<open>smtp.go\<close> and \<open>smtp.ErrTooLongLine\<close>.
\<close>

record fault =
  f_mail :: "goError option"
  f_imap :: "(imapKind \<times> bool) option"
  f_net :: "bool option"
  f_eof :: bool
  f_smtp :: "int option"
  f_inboundLimit :: bool
  f_tooLongLine :: bool
  f_authUnavailable :: bool
  f_utf8Unavailable :: bool

definition plainFault :: fault where
  "plainFault = \<lparr>f_mail = None, f_imap = None, f_net = None, f_eof = False, f_smtp = None,
     f_inboundLimit = False, f_tooLongLine = False, f_authUnavailable = False,
     f_utf8Unavailable = False\<rparr>"

definition publicFault :: "goError \<Rightarrow> fault" where
  "publicFault e = plainFault\<lparr>f_mail := Some e\<rparr>"

definition imapFault :: "imapKind \<Rightarrow> bool \<Rightarrow> fault" where
  "imapFault kind ambiguous = plainFault\<lparr>f_imap := Some (kind, ambiguous)\<rparr>"

datatype 'a call = Done 'a | Fault fault | Panic

section \<open>The IMAP session interface\<close>

type_synonym time = int

text \<open>The zero value of \<open>time.Time\<close>.\<close>

abbreviation zeroTime :: time where "zeroTime \<equiv> 0"

record imapCapabilities =
  cap_condStore :: bool
  cap_move :: bool
  cap_uidPlus :: bool
  cap_binary :: bool
  cap_specialUse :: bool

record imapMailbox =
  mb_name :: string
  mb_delimiter :: nat
  mb_attributes :: "string list"

record selectedMailbox =
  sm_uidValidity :: "32 word"
  sm_uidNext :: "32 word"

record searchRequest =
  rq_uidMin :: "32 word"
  rq_uidMax :: "32 word"
  rq_query :: string
  rq_from :: string
  rq_to :: string
  rq_subject :: string
  rq_since :: time
  rq_before :: time
  rq_unseenOnly :: bool
  rq_flaggedOnly :: bool

type_synonym address = "string \<times> string"

record envelope =
  en_date :: time
  en_subject :: string
  en_from :: "address list"
  en_replyTo :: "address list"
  en_to :: "address list"
  en_cc :: "address list"
  en_messageID :: string
  en_inReplyTo :: "string list"

record bodyPart =
  bp_path :: "nat list"
  bp_contentType :: string
  bp_disposition :: string
  bp_filename :: string
  bp_contentID :: string
  bp_size :: "32 word"
  bp_inlinePlain :: bool
  bp_attachment :: bool

record curatedHeaders =
  ch_messageID :: string
  ch_inReplyTo :: "string list"
  ch_references :: "string list"
  ch_replyTo :: "address list"

record imapMessage =
  im_uid :: "32 word"
  im_flags :: "string list"
  im_envelope :: envelope
  im_internalDate :: time
  im_size :: int
  im_modSeq :: "64 word"
  im_parts :: "bodyPart list"
  im_headers :: curatedHeaders

record bodyData =
  bd_mimeHeader :: bytes
  bd_body :: bytes
  bd_tooLarge :: bool

record copyData =
  cd_uidValidity :: "32 word"
  cd_destinationUID :: "32 word"

record appendData =
  ad_uidValidity :: "32 word"
  ad_uid :: "32 word"

record 'w imapSession =
  ss_capabilities :: "'w \<Rightarrow> imapCapabilities"
  ss_supportsConditionalStore :: "'w \<Rightarrow> bool"
  ss_list :: "'w \<Rightarrow> imapMailbox list call \<times> 'w"
  ss_select :: "string \<Rightarrow> bool \<Rightarrow> 'w \<Rightarrow> selectedMailbox call \<times> 'w"
  ss_search :: "searchRequest \<Rightarrow> 'w \<Rightarrow> 32 word list call \<times> 'w"
  ss_fetchMetadata :: "32 word list \<Rightarrow> bool \<Rightarrow> 'w \<Rightarrow> imapMessage list call \<times> 'w"
  ss_fetchBodyPart :: "32 word \<Rightarrow> nat list \<Rightarrow> 'w \<Rightarrow> bodyData call \<times> 'w"
  ss_storeDelta :: "32 word \<Rightarrow> bool \<Rightarrow> string list \<Rightarrow> 'w \<Rightarrow> unit call \<times> 'w"
  ss_conditionalStoreDelta ::
    "32 word \<Rightarrow> bool \<Rightarrow> string list \<Rightarrow> 64 word \<Rightarrow> 'w \<Rightarrow> imapMessage call \<times> 'w"
  ss_fetchFlags :: "32 word \<Rightarrow> 'w \<Rightarrow> imapMessage call \<times> 'w"
  ss_nativeMove :: "32 word \<Rightarrow> string \<Rightarrow> 'w \<Rightarrow> copyData call \<times> 'w"
  ss_appendSent :: "string \<Rightarrow> bytes \<Rightarrow> 'w \<Rightarrow> appendData call \<times> 'w"
  ss_copy :: "32 word \<Rightarrow> string \<Rightarrow> 'w \<Rightarrow> copyData call \<times> 'w"
  ss_addDeleted :: "32 word \<Rightarrow> 'w \<Rightarrow> unit call \<times> 'w"
  ss_uidExpunge :: "32 word \<Rightarrow> 'w \<Rightarrow> unit call \<times> 'w"

datatype limiter = ReadLimiter | MutationLimiter | SendLimiter

text \<open>
  What a client operation uses besides the session: limiters and semaphores, the bounded context
  and the caller's (the closures of \<open>mutation.go\<close> capture the latter), the dialer and the session factory, and the two closing calls (\<open>safeCloseConn\<close> recovers from a panic,
  \<open>closeIMAPSession\<close> reports it).
\<close>

record 'w mailEnv =
  me_allow :: "limiter \<Rightarrow> 'w \<Rightarrow> bool \<times> 'w"
  me_acquire :: "limiter \<Rightarrow> 'w \<Rightarrow> bool \<times> 'w"
  me_release :: "limiter \<Rightarrow> 'w \<Rightarrow> 'w"
  me_ctxDone :: "'w \<Rightarrow> bool"
  me_callerDone :: "'w \<Rightarrow> bool"
  me_imapDial :: "'w \<Rightarrow> unit call \<times> 'w"
  me_imapFactory :: "string \<Rightarrow> string \<Rightarrow> 'w \<Rightarrow> unit call \<times> 'w"
  me_closeConn :: "'w \<Rightarrow> 'w"
  me_closeSession :: "'w \<Rightarrow> bool \<times> 'w"
  me_session :: "'w imapSession"

record mailConfig =
  mc_address :: string
  mc_password :: string
  mc_recipientPolicy :: mailPolicy
  mc_enableSentCopy :: bool
  mc_archiveScope :: "string list"

record mailClient =
  cl_config :: mailConfig
  cl_mutationEnabled :: bool
  cl_sendEnabled :: bool

section \<open>Operations of a session\<close>

text \<open>
  The closures passed to \<open>read\<close> and \<open>mutate\<close>. Their state is the flag \<open>phase.dispatched\<close> and the
  outside; an error or a panic ends them. \<open>opTry\<close> hands an error to the code that handles it.
\<close>

type_synonym ('w, 'a) op = "bool \<times> 'w \<Rightarrow> 'a call \<times> bool \<times> 'w"

definition opReturn :: "'a \<Rightarrow> ('w, 'a) op" where
  "opReturn a s = (Done a, s)"

definition opFail :: "fault \<Rightarrow> ('w, 'a) op" where
  "opFail e s = (Fault e, s)"

definition opBind :: "('w, 'a) op \<Rightarrow> ('a \<Rightarrow> ('w, 'b) op) \<Rightarrow> ('w, 'b) op" where
  "opBind m f s =
     (case m s of (r, s') \<Rightarrow>
        (case r of Done a \<Rightarrow> f a s' | Fault e \<Rightarrow> (Fault e, s') | Panic \<Rightarrow> (Panic, s')))"

definition opTry :: "('w, 'a) op \<Rightarrow> ('w, fault + 'a) op" where
  "opTry m s =
     (case m s of (r, s') \<Rightarrow>
        (case r of Done a \<Rightarrow> (Done (Inr a), s') | Fault e \<Rightarrow> (Done (Inl e), s') | Panic \<Rightarrow> (Panic, s')))"

definition opCall :: "('w \<Rightarrow> 'a call \<times> 'w) \<Rightarrow> ('w, 'a) op" where
  "opCall f s = (case s of (d, w) \<Rightarrow> (case f w of (r, w') \<Rightarrow> (r, d, w')))"

definition opGet :: "('w \<Rightarrow> 'a) \<Rightarrow> ('w, 'a) op" where
  "opGet f s = (Done (f (snd s)), s)"

definition markDispatched :: "('w, unit) op" where
  "markDispatched s = (Done (), True, snd s)"

lemmas op_defs = opReturn_def opFail_def opBind_def opTry_def opCall_def opGet_def markDispatched_def

section \<open>Contexts\<close>

definition toolTimeout :: duration where "toolTimeout = 25 * second"

text \<open>The deadline of \<open>boundedContext\<close>, from the deadline of the caller's context.\<close>

definition boundedContext :: "time \<Rightarrow> time option \<Rightarrow> time" where
  "boundedContext now deadline =
     (case deadline of
        Some d \<Rightarrow> if d - now \<le> toolTimeout then d else now + toolTimeout
      | None \<Rightarrow> now + toolTimeout)"

lemma boundedContext_bounds:
  "boundedContext now deadline \<le> now + toolTimeout"
  "deadline = Some d \<Longrightarrow> boundedContext now deadline \<le> d"
  by (auto simp: boundedContext_def split: option.splits)

section \<open>The client\<close>

definition contextError :: goError where
  "contextError = newRetryableError codeTimeout ''mail operation deadline reached''"

definition mailAcquire :: "'w mailEnv \<Rightarrow> limiter \<Rightarrow> 'w \<Rightarrow> goError option \<times> 'w" where
  "mailAcquire env l w =
     (case me_acquire env l w of (got, w') \<Rightarrow> (if got then None else Some contextError, w'))"

text \<open>
  \<open>newService\<close>; whether the dialers and factories are present is passed as booleans.
\<close>

definition newService ::
  "addressParser \<Rightarrow> mailConfig \<Rightarrow> bool \<Rightarrow> bool \<Rightarrow> bool \<Rightarrow> bool \<Rightarrow> goError + mailClient" where
  "newService parseAddress config hasIMAP hasSMTP enableMutation enableSend =
     (case validateAddrSpec parseAddress (mc_address config) of
        None \<Rightarrow> Inl (mailValidationError ''mail address must be a plain addr-spec'')
      | Some address \<Rightarrow>
          if length (mc_password config) < 8
          then Inl (mailValidationError ''mail password must be at least 8 characters'')
          else if \<not> hasIMAP then Inl (mailValidationError ''an IMAP dialer is required'')
          else if enableSend \<and> (\<not> policyValid (mc_recipientPolicy config) \<or> \<not> hasSMTP)
          then Inl (mailValidationError ''mail send requires an SMTP dialer and recipient policy'')
          else Inr \<lparr>cl_config = config\<lparr>mc_address := address,
                      mc_recipientPolicy := policyClone (mc_recipientPolicy config)\<rparr>,
                    cl_mutationEnabled = enableMutation, cl_sendEnabled = enableSend\<rparr>)"

text \<open>
  One connection. \<open>phase\<close> tells whether the caller passed a phase; the result carries its
  \<open>dispatched\<close> flag. When the factory fails, the session variable holds a typed nil pointer, whose
  \<open>Close\<close> panics, so the connection is closed by both \<open>safeCloseConn\<close> calls.
\<close>

definition imapAttempt ::
  "'w mailEnv \<Rightarrow> mailClient \<Rightarrow> bool \<Rightarrow> ('w, 'a) op \<Rightarrow> 'w \<Rightarrow> (fault + 'a) \<times> bool \<times> 'w" where
  "imapAttempt env client phase operation w =
     (case me_imapDial env w of (dialed, w1) \<Rightarrow>
      case dialed of
        Panic \<Rightarrow> (Inl (imapFault ErrorProtocol False), False, w1)
      | Fault e \<Rightarrow> (Inl e, False, w1)
      | Done _ \<Rightarrow>
          (case me_imapFactory env (mc_address (cl_config client)) (mc_password (cl_config client)) w1
           of (made, w2) \<Rightarrow>
           case made of
             Panic \<Rightarrow> (Inl (imapFault ErrorProtocol False), False, me_closeConn env w2)
           | Fault e \<Rightarrow> (Inl e, False, me_closeConn env (me_closeConn env w2))
           | Done _ \<Rightarrow>
               (case operation (False, w2) of (r, dispatched, w3) \<Rightarrow>
                case r of
                  Panic \<Rightarrow>
                    (Inl (imapFault ErrorProtocol (phase \<and> dispatched)), dispatched, me_closeConn env w3)
                | _ \<Rightarrow>
                    (case me_closeSession env w3 of (panicked, w4) \<Rightarrow>
                       (case r of Fault e \<Rightarrow> Inl e | Done a \<Rightarrow> Inr a, dispatched,
                        if panicked then me_closeConn env w4 else w4)))))"

definition imapCode :: "imapKind \<Rightarrow> code \<times> string" where
  "imapCode kind =
     (case kind of
        ErrorProtocol \<Rightarrow> (codeProtocolError,
          ''mail server returned an unsafe or unexpected protocol response'')
      | ErrorAuthentication \<Rightarrow> (codeAuthentication, ''mail authentication was rejected'')
      | ErrorAuthorization \<Rightarrow> (codeAuthorization, ''mail operation was not authorized'')
      | ErrorNotFound \<Rightarrow> (codeNotFound, ''mail resource was not found'')
      | ErrorConflict \<Rightarrow> (codeConflict, ''mail operation conflicts with current state'')
      | ErrorRateLimited \<Rightarrow> (codeRateLimited, ''mail server rate limit reached'')
      | ErrorTimeout \<Rightarrow> (codeTimeout, ''mail operation deadline reached'')
      | ErrorUnavailable \<Rightarrow> (codeUnavailable, ''mail service is temporarily unavailable'')
      | ErrorTooLarge \<Rightarrow> (codePayloadTooLarge, ''mail protocol data exceeded a safety limit''))"

definition mapIMAPError :: "fault \<Rightarrow> bool \<Rightarrow> bool \<Rightarrow> string \<Rightarrow> goError" where
  "mapIMAPError err ctxDone mutation reconciliation =
     (case f_mail err of
        Some public \<Rightarrow> public
      | None \<Rightarrow>
          (case f_imap err of
             Some (kind, ambiguous) \<Rightarrow>
               if mutation \<and> ambiguous
               then MailErr codeOutcomeUnknown ''mail mutation outcome is unknown'' False 0 reconciliation
               else (case imapCode kind of (c, message) \<Rightarrow>
                       if \<not> mutation \<and> (c = codeRateLimited \<or> c = codeTimeout \<or> c = codeUnavailable)
                       then newRetryableError c message
                       else mailError c message)
           | None \<Rightarrow>
               if ctxDone \<or> f_net err = Some True
               then (if mutation then mailError codeTimeout ''mail operation deadline reached''
                     else contextError)
               else if \<not> mutation
               then newRetryableError codeUnavailable ''mail service is temporarily unavailable''
               else mailError codeUnavailable ''mail service is temporarily unavailable''))"

definition retryableRead :: "fault \<Rightarrow> bool \<Rightarrow> bool" where
  "retryableRead err ctxDone =
     (if ctxDone then False
      else case f_imap err of
             Some (kind, _) \<Rightarrow> kind = ErrorUnavailable
           | None \<Rightarrow> f_net err \<noteq> None \<or> f_eof err)"

definition readWithSlot ::
  "'w mailEnv \<Rightarrow> mailClient \<Rightarrow> ('w, 'a) op \<Rightarrow> 'w \<Rightarrow> (fault + 'a) \<times> 'w" where
  "readWithSlot env client operation w =
     (case mailAcquire env ReadLimiter w of (denied, w1) \<Rightarrow>
      case denied of
        Some e \<Rightarrow> (Inl (publicFault e), w1)
      | None \<Rightarrow>
          (case imapAttempt env client False operation w1 of (r, _, w2) \<Rightarrow>
             (r, me_release env ReadLimiter w2)))"

fun readLoop ::
  "nat \<Rightarrow> nat \<Rightarrow> 'w mailEnv \<Rightarrow> mailClient \<Rightarrow> ('w, 'a) op \<Rightarrow> 'w \<Rightarrow> (goError + 'a) \<times> 'w" where
  "readLoop 0 attempt env client operation w = (Inl (mailError codeInternal ''mail read failed''), w)"
| "readLoop (Suc n) attempt env client operation w =
     (case me_allow env ReadLimiter w of (allowed, w1) \<Rightarrow>
      if \<not> allowed
      then (Inl (newRetryableError codeRateLimited ''local mail read rate limit reached''), w1)
      else case readWithSlot env client operation w1 of (r, w2) \<Rightarrow>
        (case r of
           Inr a \<Rightarrow> (Inr a, w2)
         | Inl err \<Rightarrow>
             if attempt = 0 \<and> retryableRead err (me_ctxDone env w2)
             then readLoop n (attempt + 1) env client operation w2
             else (Inl (mapIMAPError err (me_ctxDone env w2) False []), w2)))"

text \<open>The loop \<open>for attempt := 0; attempt < 2; attempt++\<close>.\<close>

definition mailRead ::
  "'w mailEnv \<Rightarrow> mailClient \<Rightarrow> ('w, 'a) op \<Rightarrow> 'w \<Rightarrow> (goError + 'a) \<times> 'w" where
  "mailRead env client operation w = readLoop 2 0 env client operation w"

definition mailMutate ::
  "'w mailEnv \<Rightarrow> mailClient \<Rightarrow> string \<Rightarrow> ('w, 'a) op \<Rightarrow> 'w \<Rightarrow> (goError + 'a) \<times> 'w" where
  "mailMutate env client reconciliation operation w =
     (if \<not> cl_mutationEnabled client
      then (Inl (mailError codeAuthorization ''mail mutation is disabled''), w)
      else case me_allow env MutationLimiter w of (allowed, w1) \<Rightarrow>
        if \<not> allowed
        then (Inl (newRetryableError codeRateLimited ''local mail mutation rate limit reached''), w1)
        else (case mailAcquire env MutationLimiter w1 of (denied, w2) \<Rightarrow>
              case denied of
                Some e \<Rightarrow> (Inl e, w2)
              | None \<Rightarrow>
                  (case imapAttempt env client True operation w2 of (r, dispatched, w3) \<Rightarrow>
                     (case r of
                        Inr a \<Rightarrow> Inr a
                      | Inl err \<Rightarrow> Inl (mapIMAPError err (me_ctxDone env w3) dispatched reconciliation),
                      me_release env MutationLimiter w3))))"

end
