(* ===== verification/Mail_Search.thy ===== *)
theory Mail_Search
  imports Mail_Session "HOL-Library.List_Lexorder" "HOL-Library.Char_ord" "HOL-Library.Multiset"
begin

text \<open>
  \<open>internal/mail/service.go\<close>: \<open>ListMailboxes\<close>, \<open>SearchMessages\<close> with its backward scan over UID
  windows and its cursor, \<open>Probe\<close>, and the projection of adapter messages. The length of the JSON
  encoding of a result (\<open>serializedSize\<close>) is an argument of the operations that use it; nothing is
  assumed of it. UIDs are 32-bit words, so the decrements of the source wrap as they do in Go.
\<close>

definition maxMailboxes :: nat where "maxMailboxes = 200"
definition maxSearchResults :: int where "maxSearchResults = 50"
definition maxUIDsScanned :: nat where "maxUIDsScanned = 50000"
definition maxResultBytes :: int where "maxResultBytes = 262144"

section \<open>Results\<close>

record mailbox =
  mx_name :: string
  mx_delimiter :: string
  mx_attributes :: "string list"

record listMailboxesResult =
  lm_mailboxes :: "mailbox list"
  lm_truncated :: bool

record messageSummary =
  ms_mailbox :: string
  ms_uidValidity :: "32 word"
  ms_uid :: "32 word"
  ms_flags :: "string list"
  ms_from :: "address list"
  ms_to :: "address list"
  ms_cc :: "address list"
  ms_subject :: string
  ms_internalDate :: time
  ms_headerDate :: "time option"
  ms_size :: int
  ms_messageID :: string
  ms_modSeq :: "64 word"

record searchInput =
  si_mailbox :: string
  si_query :: string
  si_from :: string
  si_to :: string
  si_subject :: string
  si_since :: time
  si_before :: time
  si_unseenOnly :: bool
  si_flaggedOnly :: bool
  si_beforeUID :: "32 word"
  si_uidValidity :: "32 word"
  si_limit :: int

record searchResult =
  sr_messages :: "messageSummary list"
  sr_uidValidity :: "32 word"
  sr_nextBeforeUID :: "32 word"
  sr_scanLimitReached :: bool
  sr_truncated :: bool

section \<open>Projection of adapter messages\<close>

text \<open>
  \<open>strings.ToUpper\<close> against ASCII text: besides the ASCII letters, U+017F and U+0131 have ASCII
  capitals.
\<close>

fun toUpper :: "string \<Rightarrow> string" where
  "toUpper [] = []"
| "toUpper (a # s) =
     (if take 2 (a # s) = [CHR 0xC5, CHR 0xBF] then CHR ''S'' # toUpper (drop 1 s)
      else if take 2 (a # s) = [CHR 0xC4, CHR 0xB1] then CHR ''I'' # toUpper (drop 1 s)
      else (if inRange 0x61 0x7A a then char_of (bval a - 32) else a) # toUpper s)"

fun flagsOf :: "string list \<Rightarrow> string list" where
  "flagsOf [] = []"
| "flagsOf (flag # flags) =
     (let u = toUpper flag in
      if u = backslash # ''SEEN'' then flagSeen # flagsOf flags
      else if u = backslash # ''FLAGGED'' then flagFlagged # flagsOf flags
      else if u = backslash # ''ANSWERED'' then flagAnswered # flagsOf flags
      else flagsOf flags)"

definition publicFlags :: "string list \<Rightarrow> string list" where
  "publicFlags flags = sort (flagsOf flags)"

definition publicAddresses :: "address list \<Rightarrow> address list" where
  "publicAddresses addresses = map (\<lambda>(name, address). (name, address)) addresses"

definition summaryFromProtocol :: "string \<Rightarrow> 32 word \<Rightarrow> imapMessage \<Rightarrow> messageSummary" where
  "summaryFromProtocol mailbox uidValidity item =
     \<lparr>ms_mailbox = mailbox, ms_uidValidity = uidValidity, ms_uid = im_uid item,
      ms_flags = publicFlags (im_flags item),
      ms_from = publicAddresses (en_from (im_envelope item)),
      ms_to = publicAddresses (en_to (im_envelope item)),
      ms_cc = publicAddresses (en_cc (im_envelope item)),
      ms_subject = en_subject (im_envelope item), ms_internalDate = im_internalDate item,
      ms_headerDate = (if en_date (im_envelope item) = zeroTime then None
                       else Some (en_date (im_envelope item))),
      ms_size = im_size item, ms_messageID = en_messageID (im_envelope item),
      ms_modSeq = im_modSeq item\<rparr>"

section \<open>Fitting a list into the result limit\<close>

text \<open>
  The loop that drops the last item while the encoded result is too long; \<open>sz xs t\<close> is the length
  of the encoding with the items \<open>xs\<close> and the \<open>Truncated\<close> flag \<open>t\<close>.
\<close>

function fitLoop :: "('a list \<Rightarrow> bool \<Rightarrow> int) \<Rightarrow> 'a list \<Rightarrow> bool \<Rightarrow> 'a list \<times> bool" where
  "fitLoop sz xs t =
     (if maxResultBytes < sz xs t \<and> 0 < length xs then fitLoop sz (butlast xs) True else (xs, t))"
  by pat_completeness auto
termination
  by (relation "measure (\<lambda>(sz, xs, t). length xs)") auto

declare fitLoop.simps [simp del]

section \<open>ListMailboxes and Probe\<close>

text \<open>\<open>string(rune)\<close> of a delimiter; the encoding of a rune is the argument \<open>runeString\<close>.\<close>

definition listMailboxes ::
  "(listMailboxesResult \<Rightarrow> int) \<Rightarrow> (nat \<Rightarrow> string) \<Rightarrow> 'w mailEnv \<Rightarrow> mailClient \<Rightarrow> 'w
     \<Rightarrow> (goError + listMailboxesResult) \<times> 'w" where
  "listMailboxes serializedSize runeString env client w =
     mailRead env client
       (opBind (opCall (ss_list (me_session env)))
          (\<lambda>items.
             let project = (\<lambda>item.
                   \<lparr>mx_name = mb_name item,
                    mx_delimiter = (if mb_delimiter item \<noteq> 0 then runeString (mb_delimiter item) else []),
                    mx_attributes = mb_attributes item\<rparr>) in
             case fitLoop (\<lambda>xs t. serializedSize \<lparr>lm_mailboxes = xs, lm_truncated = t\<rparr>)
                    (map project (take maxMailboxes items)) (maxMailboxes < length items) of
               (xs, t) \<Rightarrow> opReturn \<lparr>lm_mailboxes = xs, lm_truncated = t\<rparr>)) w"

definition isSelectable :: "imapMailbox \<Rightarrow> bool" where
  "isSelectable mailbox \<longleftrightarrow>
     list_all (\<lambda>attribute. \<not> (equalFold attribute (backslash # ''Noselect'')
       \<or> equalFold attribute (backslash # ''NonExistent''))) (mb_attributes mailbox)"

record probeResult =
  pr_mailboxes :: nat
  pr_condStore :: bool
  pr_move :: bool
  pr_uidPlus :: bool
  pr_specialUse :: bool

fun probeLoop :: "'w imapSession \<Rightarrow> probeResult \<Rightarrow> imapMailbox list \<Rightarrow> ('w, probeResult) op" where
  "probeLoop session result [] = opReturn result"
| "probeLoop session result (item # items) =
     (if \<not> isSelectable item then probeLoop session result items
      else opBind (opTry (opCall (ss_select session (mb_name item) True)))
             (\<lambda>r. case r of
                Inl _ \<Rightarrow> probeLoop session result items
              | Inr _ \<Rightarrow>
                  opBind (opGet (ss_capabilities session))
                    (\<lambda>caps. opReturn (result\<lparr>pr_condStore := cap_condStore caps,
                       pr_move := cap_move caps, pr_uidPlus := cap_uidPlus caps,
                       pr_specialUse := cap_specialUse caps\<rparr>))))"

definition mailProbe :: "'w mailEnv \<Rightarrow> mailClient \<Rightarrow> 'w \<Rightarrow> (goError + probeResult) \<times> 'w" where
  "mailProbe env client w =
     mailRead env client
       (opBind (opCall (ss_list (me_session env)))
          (\<lambda>items. probeLoop (me_session env)
             \<lparr>pr_mailboxes = length items, pr_condStore = False, pr_move = False,
              pr_uidPlus = False, pr_specialUse = False\<rparr> items)) w"

section \<open>SearchMessages\<close>

definition validateSearchInput :: "searchInput \<Rightarrow> goError option" where
  "validateSearchInput input =
     (case validateMailbox (si_mailbox input) of
        Some e \<Rightarrow> Some e
      | None \<Rightarrow>
          (case firstError [validateSearchValue ''query'' (si_query input),
                  validateSearchValue ''from'' (si_from input),
                  validateSearchValue ''to'' (si_to input),
                  validateSearchValue ''subject'' (si_subject input)] of
             Some e \<Rightarrow> Some e
           | None \<Rightarrow>
               if si_since input \<noteq> zeroTime \<and> si_before input \<noteq> zeroTime
                  \<and> \<not> si_since input < si_before input
               then Some (mailValidationError ''before must be after since'')
               else if si_beforeUID input \<noteq> 0 \<and> si_uidValidity input = 0
               then Some (mailValidationError ''uid_validity is required with before_uid'')
               else if si_limit input < 0 \<or> maxSearchResults < si_limit input
               then Some (mailValidationError ''limit must be between 1 and 50'')
               else None))"

definition windowRequest :: "searchInput \<Rightarrow> 32 word \<Rightarrow> 32 word \<Rightarrow> searchRequest" where
  "windowRequest input low high =
     \<lparr>rq_uidMin = low, rq_uidMax = high, rq_query = si_query input, rq_from = si_from input,
      rq_to = si_to input, rq_subject = si_subject input, rq_since = si_since input,
      rq_before = si_before input, rq_unseenOnly = si_unseenOnly input,
      rq_flaggedOnly = si_flaggedOnly input\<rparr>"

text \<open>The inner loop over the UIDs of a window; \<open>None\<close> is the protocol error.\<close>

fun collectUIDs :: "32 word \<Rightarrow> 32 word \<Rightarrow> 32 word list \<Rightarrow> 32 word list \<Rightarrow> 32 word list option" where
  "collectUIDs low high [] found = Some found"
| "collectUIDs low high (uid # uids) found =
     (if uid < low \<or> high < uid \<or> uid = 0 then None
      else if uid \<in> set found then collectUIDs low high uids found
      else collectUIDs low high uids (found @ [uid]))"

definition windowWidth :: "nat \<Rightarrow> nat" where
  "windowWidth scanned =
     (let remaining = maxUIDsScanned - scanned; width = 5000 in
      if remaining < width then remaining else width)"

definition windowLow :: "32 word \<Rightarrow> nat \<Rightarrow> 32 word" where
  "windowLow high width = (if of_nat width \<le> high then high - of_nat width + 1 else 1)"

lemma windowWidth_bounds: "scanned < maxUIDsScanned \<Longrightarrow> 0 < windowWidth scanned"
  "windowWidth scanned \<le> 5000" "windowWidth scanned \<le> maxUIDsScanned - scanned"
  by (auto simp: windowWidth_def Let_def)

lemma windowLow_unat:
  assumes "0 < width" and "width \<le> 5000"
  shows "unat (windowLow high width) = (if width \<le> unat high then unat high - width + 1 else 1)"
proof -
  have w: "unat (of_nat width :: 32 word) = width"
    using assms by (simp add: unat_of_nat)
  have le: "of_nat width \<le> high \<longleftrightarrow> width \<le> unat high" by (simp add: word_le_nat_alt w)
  show ?thesis
  proof (cases "width \<le> unat high")
    case True
    then have "unat (high - of_nat width) = unat high - width"
      using le w by (simp add: unat_sub)
    moreover have "unat high < 2 ^ LENGTH(32)" by (rule unsigned_less)
    then have "unat high - width + 1 < 2 ^ 32" using assms True by auto
    ultimately have "unat (high - of_nat width + 1) = unat high - width + 1"
      by (simp add: unat_word_ariths)
    with True le show ?thesis by (simp add: windowLow_def)
  next
    case False
    with le show ?thesis by (simp add: windowLow_def)
  qed
qed

lemma window_decreases:
  assumes "0 < high" and "scanned < maxUIDsScanned"
    and "windowLow high (windowWidth scanned) \<noteq> 1"
  shows "windowLow high (windowWidth scanned) - 1 < high"
proof -
  let ?low = "windowLow high (windowWidth scanned)"
  have l: "unat ?low = (if windowWidth scanned \<le> unat high
      then unat high - windowWidth scanned + 1 else 1)"
    using windowLow_unat windowWidth_bounds assms(2) by blast
  have "0 < unat high" using assms(1) by (simp add: word_gt_0 unat_gt_0)
  with l windowWidth_bounds(1) [OF assms(2)] have "0 < unat ?low" "unat ?low \<le> unat high" by auto
  then have "unat ?low - 1 < unat high" "?low \<noteq> 0" by (linarith, auto)
  then show ?thesis by (simp add: word_less_nat_alt unat_minus_one)
qed

text \<open>
  The scan. It returns the UIDs found, the number of UIDs scanned and the remaining upper bound.
\<close>

function scanLoop ::
  "'w imapSession \<Rightarrow> searchInput \<Rightarrow> nat \<Rightarrow> 32 word \<Rightarrow> nat \<Rightarrow> 32 word list
     \<Rightarrow> ('w, 32 word list \<times> nat \<times> 32 word) op" where
  "scanLoop session input limit high scanned found s =
     (if 0 < high \<and> scanned < maxUIDsScanned \<and> length found \<le> limit
      then let low = windowLow high (windowWidth scanned) in
        (case opCall (ss_search session (windowRequest input low high)) s of (r, s') \<Rightarrow>
         case r of
           Fault e \<Rightarrow> (Fault e, s')
         | Panic \<Rightarrow> (Panic, s')
         | Done uids \<Rightarrow>
             (case collectUIDs low high uids found of
                None \<Rightarrow> (Fault (imapFault ErrorProtocol False), s')
              | Some found' \<Rightarrow>
                  scanLoop session input limit (if low = 1 then 0 else low - 1)
                    (scanned + (unat (high - low) + 1)) found' s'))
      else (Done (found, scanned, high), s))"
  by pat_completeness auto
termination
proof (relation "measure (\<lambda>(session, input, limit, high, scanned, found, s). unat high)", goal_cases)
  case 1
  then show ?case by simp
next
  case (2 session input limit high scanned found s x y x1 z)
  then show ?case
    using window_decreases [of high scanned]
    by (auto simp: word_less_nat_alt word_gt_0 unat_gt_0)
qed

declare scanLoop.simps [simp del]

definition startHigh :: "searchInput \<Rightarrow> selectedMailbox \<Rightarrow> 32 word" where
  "startHigh input selected =
     (let high = sm_uidNext selected - 1 in
      if si_beforeUID input \<noteq> 0 \<and> si_beforeUID input - 1 < high then si_beforeUID input - 1 else high)"

text \<open>The end of the closure: the byte limit and the cursor of the next page.\<close>

definition boundPage ::
  "(searchResult \<Rightarrow> int) \<Rightarrow> 32 word \<Rightarrow> bool \<Rightarrow> bool \<Rightarrow> 32 word \<Rightarrow> messageSummary list \<Rightarrow> searchResult" where
  "boundPage serializedSize uidValidity countTruncated scanLimitReached high messages =
     (let result = (\<lambda>ms t next. \<lparr>sr_messages = ms, sr_uidValidity = uidValidity,
            sr_nextBeforeUID = next, sr_scanLimitReached = scanLimitReached, sr_truncated = t\<rparr>) in
      case fitLoop (\<lambda>ms t. serializedSize (result ms t 0)) messages countTruncated of
        (ms, t) \<Rightarrow>
          let byteTruncated = length ms < length messages in
          result ms t
            (if countTruncated \<or> byteTruncated
             then (if ms \<noteq> [] then ms_uid (last ms) else if 0 < high then high + 1 else 0)
             else if scanLimitReached then high + 1
             else 0))"

text \<open>The part after the scan: order, page limit, metadata, and the bounds of the page.\<close>

definition finishSearch ::
  "(searchResult \<Rightarrow> int) \<Rightarrow> 'w imapSession \<Rightarrow> searchInput \<Rightarrow> selectedMailbox \<Rightarrow> nat
     \<Rightarrow> 32 word list \<times> nat \<times> 32 word \<Rightarrow> ('w, searchResult) op" where
  "finishSearch serializedSize session input selected limit scan =
     (case scan of (found, scanned, high) \<Rightarrow>
      let ordered = rev (sort found);
          countTruncated = limit < length ordered;
          page = (if countTruncated then take limit ordered else ordered) in
      opBind (if page \<noteq> [] then opCall (ss_fetchMetadata session page False) else opReturn [])
        (\<lambda>metadata.
           opReturn (boundPage serializedSize (sm_uidValidity selected) countTruncated
             (scanned = maxUIDsScanned \<and> 0 < high) high
             (sort_key (\<lambda>m. - uint (ms_uid m))
               (map (summaryFromProtocol (si_mailbox input) (sm_uidValidity selected)) metadata)))))"

definition searchOperation ::
  "(searchResult \<Rightarrow> int) \<Rightarrow> 'w imapSession \<Rightarrow> searchInput \<Rightarrow> nat \<Rightarrow> ('w, searchResult) op" where
  "searchOperation serializedSize session input limit =
     opBind (opCall (ss_select session (si_mailbox input) True))
       (\<lambda>selected.
          if si_beforeUID input \<noteq> 0 \<and> sm_uidValidity selected \<noteq> si_uidValidity input
          then opFail (publicFault (mailError codeConcurrentModification
                 ''mailbox UIDVALIDITY changed; restart pagination''))
          else opBind (scanLoop session input limit (startHigh input selected) 0 [])
                 (finishSearch serializedSize session input selected limit))"

definition searchMessages ::
  "(searchResult \<Rightarrow> int) \<Rightarrow> 'w mailEnv \<Rightarrow> mailClient \<Rightarrow> searchInput \<Rightarrow> 'w
     \<Rightarrow> (goError + searchResult) \<times> 'w" where
  "searchMessages serializedSize env client input w =
     (case validateSearchInput input of
        Some e \<Rightarrow> (Inl e, w)
      | None \<Rightarrow>
          let limit = (if si_limit input = 0 then 20 else nat (si_limit input)) in
          mailRead env client (searchOperation serializedSize (me_session env) input limit) w)"

section \<open>Reads that succeed\<close>

definition healthyEnv :: "'w mailEnv \<Rightarrow> bool" where
  "healthyEnv env \<longleftrightarrow>
     (\<forall>w l. fst (me_allow env l w)) \<and> (\<forall>w l. fst (me_acquire env l w))
     \<and> (\<forall>w. fst (me_imapDial env w) = Done ())
     \<and> (\<forall>a p w. fst (me_imapFactory env a p w) = Done ())"

lemma imapAttempt_healthy:
  assumes "healthyEnv env" and "\<And>w. \<exists>a s'. operation (False, w) = (Done a, s') \<and> P a"
  shows "\<exists>a. fst (imapAttempt env client phase operation w) = Inr a \<and> P a"
proof -
  obtain w1 where w1: "me_imapDial env w = (Done (), w1)"
    using assms(1) by (metis healthyEnv_def surjective_pairing)
  obtain w2 where w2: "me_imapFactory env (mc_address (cl_config client))
      (mc_password (cl_config client)) w1 = (Done (), w2)"
    using assms(1) by (metis healthyEnv_def surjective_pairing)
  obtain a d w3 where "operation (False, w2) = (Done a, d, w3)" "P a"
    using assms(2) by (metis surjective_pairing)
  with w1 w2 show ?thesis by (simp add: imapAttempt_def split: prod.splits)
qed

lemma mailRead_healthy:
  assumes "healthyEnv env" and "\<And>w. \<exists>a s'. operation (False, w) = (Done a, s') \<and> P a"
  shows "\<exists>a. fst (mailRead env client operation w) = Inr a \<and> P a"
proof -
  obtain w1 where w1: "me_allow env ReadLimiter w = (True, w1)"
    using assms(1) by (metis (full_types) healthyEnv_def surjective_pairing)
  obtain w2 where w2: "me_acquire env ReadLimiter w1 = (True, w2)"
    using assms(1) by (metis (full_types) healthyEnv_def surjective_pairing)
  obtain a where a: "fst (imapAttempt env client False operation w2) = Inr a" "P a"
    using imapAttempt_healthy [of env operation P client False w2] assms by blast
  obtain d w3 where "imapAttempt env client False operation w2 = (Inr a, d, w3)"
    using a(1) by (metis surjective_pairing)
  with w1 w2 a(2) show ?thesis
    by (simp add: mailRead_def numeral_2_eq_2 readWithSlot_def mailAcquire_def)
qed

section \<open>The scan\<close>

lemma collectUIDs_Some:
  "\<forall>u \<in> set uids. low \<le> u \<and> u \<le> high \<and> u \<noteq> 0 \<Longrightarrow> distinct found \<Longrightarrow>
     \<exists>found'. collectUIDs low high uids found = Some found' \<and> distinct found'
       \<and> set found' = set found \<union> set uids"
proof (induction uids arbitrary: found)
  case (Cons uid uids)
  then show ?case
  proof (cases "uid \<in> set found")
    case True
    with Cons show ?thesis by (auto simp: insert_absorb not_less)
  next
    case False
    with Cons.prems Cons.IH [of "found @ [uid]"] show ?thesis by (auto simp: not_less)
  qed
qed simp

text \<open>
  A mailbox that stays the same during the search: \<open>UID SEARCH\<close> answers with the matching UIDs of
  the window and \<open>UID FETCH\<close> with the requested messages.
\<close>

definition servesSearch :: "'w imapSession \<Rightarrow> searchInput \<Rightarrow> 32 word set \<Rightarrow> bool" where
  "servesSearch session input M \<longleftrightarrow>
     (\<forall>low high w. \<exists>uids w'. ss_search session (windowRequest input low high) w = (Done uids, w')
        \<and> set uids = {u \<in> M. low \<le> u \<and> u \<le> high})"

definition servesMetadata :: "'w imapSession \<Rightarrow> bool" where
  "servesMetadata session \<longleftrightarrow>
     (\<forall>uids w. \<exists>items w'. ss_fetchMetadata session uids False w = (Done items, w')
        \<and> distinct (map im_uid items) \<and> im_uid ` set items = set uids)"

definition servesSelect :: "'w imapSession \<Rightarrow> searchInput \<Rightarrow> selectedMailbox \<Rightarrow> bool" where
  "servesSelect session input selected \<longleftrightarrow>
     (\<forall>w. \<exists>w'. ss_select session (si_mailbox input) True w = (Done selected, w'))"

lemma window_facts:
  assumes "0 < high" and "scanned < maxUIDsScanned"
  defines "low \<equiv> windowLow high (windowWidth scanned)"
  shows "0 < low" "low \<le> high" "unat (high - low) + 1 \<le> maxUIDsScanned - scanned"
    "unat (high - low) + 1 = unat high - unat (if low = 1 then 0 else low - 1)"
    "(if low = 1 then 0 else low - 1) < high"
    "{u. (if low = 1 then 0 else low - 1) < u \<and> u \<le> high} = {u. low \<le> u \<and> u \<le> high}"
proof -
  have l: "unat low = (if windowWidth scanned \<le> unat high
      then unat high - windowWidth scanned + 1 else 1)"
    unfolding low_def using windowLow_unat windowWidth_bounds assms(2) by blast
  have h: "0 < unat high" using assms(1) by (simp add: word_gt_0 unat_gt_0)
  note w = windowWidth_bounds(1) [OF assms(2)] windowWidth_bounds(3) [of scanned]
  from l h w have b: "0 < unat low" "unat low \<le> unat high"
    "unat high - unat low + 1 \<le> maxUIDsScanned - scanned" by auto
  from b(1) show lo: "0 < low" by (simp add: word_gt_0 unat_gt_0)
  from b(2) show lh: "low \<le> high" by (simp add: word_le_nat_alt)
  have d: "unat (high - low) = unat high - unat low" using lh by (simp add: unat_sub)
  from b(3) d show "unat (high - low) + 1 \<le> maxUIDsScanned - scanned" by simp
  have nx: "unat (if low = 1 then 0 else low - 1) = unat low - 1"
    using lo by (auto simp: unat_minus_one word_gt_0)
  from d nx b show "unat (high - low) + 1 = unat high - unat (if low = 1 then 0 else low - 1)"
    by linarith
  from nx b show "(if low = 1 then 0 else low - 1) < high"
    unfolding word_less_nat_alt by linarith
  have "(if low = 1 then 0 else low - 1) < u \<longleftrightarrow> low \<le> u" for u :: "32 word"
    unfolding word_less_nat_alt word_le_nat_alt nx using b(1) by linarith
  then show "{u. (if low = 1 then 0 else low - 1) < u \<and> u \<le> high} = {u. low \<le> u \<and> u \<le> high}"
    by simp
qed

lemma scanLoop_scans:
  assumes "servesSearch session input M" and "0 \<notin> M"
    and "distinct found" and "set found = {u \<in> M. high < u \<and> u \<le> H}" and "high \<le> H"
    and "scanned + unat high = unat H" and "scanned \<le> maxUIDsScanned"
  shows "\<exists>found' scanned' high' s'.
      scanLoop session input limit high scanned found s = (Done (found', scanned', high'), s')
      \<and> distinct found' \<and> set found' = {u \<in> M. high' < u \<and> u \<le> H} \<and> high' \<le> H
      \<and> scanned' + unat high' = unat H \<and> scanned' \<le> maxUIDsScanned
      \<and> (high' = 0 \<or> scanned' = maxUIDsScanned \<or> limit < length found')"
  using assms(1,3-7)
proof (induction session input limit high scanned found s rule: scanLoop.induct)
  case (1 session input limit high scanned found s)
  show ?case
  proof (cases "0 < high \<and> scanned < maxUIDsScanned \<and> length found \<le> limit")
    case False
    then have "scanLoop session input limit high scanned found s = (Done (found, scanned, high), s)"
      by (simp only: scanLoop.simps [of session input limit high scanned found s] if_False)
    moreover from False 1(7) have "high = 0 \<or> scanned = maxUIDsScanned \<or> limit < length found"
      by (auto simp: word_gt_0)
    ultimately show ?thesis using 1(3-7) by blast
  next
    case True
    define low where "low = windowLow high (windowWidth scanned)"
    define high' where "high' = (if low = 1 then 0 else low - 1)"
    from True have "0 < high" "scanned < maxUIDsScanned" by auto
    note f = window_facts [OF this, folded low_def, folded high'_def]
    from 1(2) obtain uids w' where u:
      "ss_search session (windowRequest input low high) (snd s) = (Done uids, w')"
      "set uids = {u \<in> M. low \<le> u \<and> u \<le> high}"
      unfolding servesSearch_def by blast
    then have call: "opCall (ss_search session (windowRequest input low high)) s = (Done uids, fst s, w')"
      by (cases s) (simp add: opCall_def)
    from u(2) assms(2) have "\<forall>u \<in> set uids. low \<le> u \<and> u \<le> high \<and> u \<noteq> 0" by auto
    from collectUIDs_Some [OF this 1(3)] obtain found' where c:
      "collectUIDs low high uids found = Some found'" "distinct found'"
      "set found' = set found \<union> set uids" by blast
    have step: "scanLoop session input limit high scanned found s =
        scanLoop session input limit high' (scanned + (unat (high - low) + 1)) found' (fst s, w')"
      using True call c(1) by (subst scanLoop.simps) (simp add: low_def high'_def Let_def)
    have "{u \<in> M. high' < u \<and> u \<le> H} = {u \<in> M. high < u \<and> u \<le> H} \<union> {u \<in> M. high' < u \<and> u \<le> high}"
      using f(5) 1(5) by auto
    also have "{u \<in> M. high' < u \<and> u \<le> high} = {u \<in> M. low \<le> u \<and> u \<le> high}"
      using f(6) by blast
    finally have "set found' = {u \<in> M. high' < u \<and> u \<le> H}" using c(3) u(2) 1(4) by simp
    moreover have "high' \<le> H" using f(5) 1(5) by simp
    moreover have "scanned + (unat (high - low) + 1) + unat high' = unat H"
      using f(4,5) 1(6) by (simp add: word_less_nat_alt)
    moreover have "scanned + (unat (high - low) + 1) \<le> maxUIDsScanned" using f(3) 1(7) by linarith
    ultimately show ?thesis
      unfolding step
      using 1(1) [OF True low_def call [symmetric] refl c(1), folded high'_def] 1(2) c(2) by blast
  qed
qed

section \<open>Pages\<close>

lemma fitLoop_take:
  "\<exists>k \<le> length xs. fst (fitLoop sz xs t) = take k xs
     \<and> (snd (fitLoop sz xs t) \<longleftrightarrow> t \<or> k < length xs)
     \<and> (maxResultBytes < sz (take k xs) (snd (fitLoop sz xs t)) \<longrightarrow> k = 0)"
proof (induction sz xs t rule: fitLoop.induct)
  case (1 sz xs t)
  show ?case
  proof (cases "maxResultBytes < sz xs t \<and> 0 < length xs")
    case True
    with 1 obtain k where k: "k \<le> length (butlast xs)"
      "fst (fitLoop sz (butlast xs) True) = take k (butlast xs)"
      "snd (fitLoop sz (butlast xs) True)"
      "maxResultBytes < sz (take k (butlast xs)) (snd (fitLoop sz (butlast xs) True)) \<longrightarrow> k = 0"
      by auto
    moreover from k(1) True have "take k (butlast xs) = take k xs" "k < length xs"
      by (cases xs rule: rev_cases; simp)+
    moreover from True have "fitLoop sz xs t = fitLoop sz (butlast xs) True"
      by (subst fitLoop.simps) simp
    ultimately show ?thesis by (intro exI [of _ k]) auto
  next
    case False
    then have "fitLoop sz xs t = (xs, t)" by (subst fitLoop.simps) auto
    with False show ?thesis by (intro exI [of _ "length xs"]) auto
  qed
qed

text \<open>A prefix of a descending list holds the elements above its last one.\<close>

lemma sorted_take_upper:
  fixes xs :: "'a :: linorder list"
  assumes "sorted_wrt (>) xs" and "take k xs \<noteq> []"
  shows "set (take k xs) = {x \<in> set xs. last (take k xs) \<le> x}"
proof -
  have s: "sorted_wrt (>) (take k xs @ drop k xs)" using assms(1) by simp
  then have "\<forall>x \<in> set (take k xs). \<forall>y \<in> set (drop k xs). y < x"
    by (simp only: sorted_wrt_append) blast
  then have above: "\<forall>y \<in> set (drop k xs). y < last (take k xs)" using assms(2) by simp
  have below: "\<forall>x \<in> set (take k xs). last (take k xs) \<le> x"
  proof (cases "take k xs" rule: rev_cases)
    case (snoc ys y)
    moreover have "sorted_wrt (>) (take k xs)" using s by (simp only: sorted_wrt_append)
    ultimately show ?thesis by (auto simp: sorted_wrt_append)
  qed auto
  have xs: "set xs = set (take k xs) \<union> set (drop k xs)" by (metis append_take_drop_id set_append)
  show ?thesis
  proof (intro set_eqI iffI)
    fix x assume "x \<in> set (take k xs)"
    with below xs show "x \<in> {x \<in> set xs. last (take k xs) \<le> x}" by blast
  next
    fix x assume "x \<in> {x \<in> set xs. last (take k xs) \<le> x}"
    then have "x \<in> set (take k xs) \<union> set (drop k xs)" "\<not> x < last (take k xs)"
      using xs by auto
    with above show "x \<in> set (take k xs)" by blast
  qed
qed

lemma rev_sort_desc: "distinct xs \<Longrightarrow> sorted_wrt (>) (rev (sort (xs :: 'a :: linorder list)))"
  by (simp add: sorted_wrt_rev strict_sorted_iff)

text \<open>Ordering the summaries by descending UID gives the requested UIDs in descending order.\<close>

lemma sorted_summaries:
  fixes items :: "imapMessage list"
  assumes "distinct (map im_uid items)" and "im_uid ` set items = set page"
    and "sorted_wrt (>) page"
  shows "map ms_uid (sort_key (\<lambda>m. - uint (ms_uid m)) (map (summaryFromProtocol mb v) items)) = page"
proof -
  let ?ms = "map (summaryFromProtocol mb v) items"
  let ?s = "sort_key (\<lambda>m. - uint (ms_uid m)) ?ms"
  have u: "map ms_uid ?ms = map im_uid items" by (simp add: summaryFromProtocol_def o_def)
  have m: "mset (map ms_uid ?s) = mset (map im_uid items)" by (metis mset_map mset_sort u)
  then have d: "distinct (map ms_uid ?s)" using assms(1) by (metis mset_eq_imp_distinct_iff)
  have "sorted (map (\<lambda>m. - uint (ms_uid m)) ?s)" by simp
  then have "sorted_wrt (\<ge>) (map ms_uid ?s)"
    by (simp add: sorted_wrt_map word_le_def)
  with d have "sorted_wrt (>) (map ms_uid ?s)"
    by (metis sorted_wrt_rev strict_sorted_iff rev_rev_ident distinct_rev)
  moreover have "set (map ms_uid ?s) = set page" using m assms(2) by (metis set_map set_mset_mset)
  ultimately show ?thesis using assms(3)
    by (metis rev_rev_ident set_rev sorted_wrt_rev strict_sorted_equal)
qed

text \<open>The UIDs a page may show: the matches below the cursor of the request.\<close>

definition eligible :: "searchInput \<Rightarrow> 32 word set \<Rightarrow> 32 word set" where
  "eligible input M = {u \<in> M. si_beforeUID input = 0 \<or> u < si_beforeUID input}"

definition pageOf :: "searchInput \<Rightarrow> 32 word set \<Rightarrow> nat \<Rightarrow> searchResult \<Rightarrow> bool" where
  "pageOf input M limit R \<longleftrightarrow>
     (let U = map ms_uid (sr_messages R) in
      sorted_wrt (>) U \<and> length U \<le> limit \<and> set U \<subseteq> eligible input M
      \<and> (sr_messages R \<noteq> [] \<or> \<not> sr_truncated R
           \<longrightarrow> set U = {u \<in> eligible input M. sr_nextBeforeUID R \<le> u})
      \<and> (si_beforeUID input \<noteq> 0 \<longrightarrow> sr_nextBeforeUID R < si_beforeUID input))"

lemma word_le_minus_one: "b \<noteq> 0 \<Longrightarrow> u \<le> b - 1 \<longleftrightarrow> u < (b :: 32 word)"
  using unat_gt_0 [of b] by (auto simp: word_le_nat_alt word_less_nat_alt unat_minus_one)

lemma startHigh_eligible:
  assumes "sm_uidNext selected \<noteq> 0" and "\<forall>u \<in> M. u < sm_uidNext selected"
  shows "{u \<in> M. u \<le> startHigh input selected} = eligible input M"
    "si_beforeUID input \<noteq> 0 \<Longrightarrow> startHigh input selected < si_beforeUID input"
proof -
  have n: "u \<le> sm_uidNext selected - 1" if "u \<in> M" for u
    using assms that by (simp add: word_le_minus_one)
  then show "{u \<in> M. u \<le> startHigh input selected} = eligible input M"
    using word_le_minus_one [of "si_beforeUID input"]
    by (fastforce simp: startHigh_def Let_def eligible_def not_less intro: order_trans)
  assume "si_beforeUID input \<noteq> 0"
  moreover from this have "startHigh input selected \<le> si_beforeUID input - 1"
    by (auto simp: startHigh_def Let_def not_less)
  ultimately show "startHigh input selected < si_beforeUID input" by (simp add: word_le_minus_one)
qed

lemma word_less_Suc: "h < H \<Longrightarrow> (h + 1 \<le> u \<longleftrightarrow> h < u) \<and> h + 1 \<le> H \<and> h + 1 \<noteq> (0 :: 32 word)"
proof -
  assume "h < H"
  moreover have "unat H < 2 ^ LENGTH(32)" by (rule unsigned_less)
  ultimately have "unat (h + 1) = unat h + 1"
    by (simp add: word_less_nat_alt unat_word_ariths)
  with \<open>h < H\<close> show ?thesis
    unfolding word_le_nat_alt word_less_nat_alt by (metis Suc_eq_plus1 Suc_le_eq nat.distinct(1) unat_0)
qed

lemma boundPage_fit:
  fixes sz v count reached high messages
  defines "R \<equiv> boundPage sz v count reached high messages"
  shows "\<exists>k. sr_messages R = take k messages \<and> (sr_truncated R \<longleftrightarrow> count \<or> k < length messages)
      \<and> (k = 0 \<or> sz (R\<lparr>sr_nextBeforeUID := 0\<rparr>) \<le> maxResultBytes)"
    "sr_nextBeforeUID R =
       (if sr_truncated R
        then (if sr_messages R \<noteq> [] then ms_uid (last (sr_messages R)) else if 0 < high then high + 1 else 0)
        else if reached then high + 1 else 0)"
proof -
  define size' where "size' = (\<lambda>ms t. sz \<lparr>sr_messages = ms, sr_uidValidity = v, sr_nextBeforeUID = 0,
    sr_scanLimitReached = reached, sr_truncated = t\<rparr>)"
  define fit where "fit = fitLoop size' messages count"
  obtain k where k: "k \<le> length messages" "fst fit = take k messages"
    "snd fit \<longleftrightarrow> count \<or> k < length messages"
    "k = 0 \<or> size' (take k messages) (snd fit) \<le> maxResultBytes"
    using fitLoop_take [of messages size' count] unfolding fit_def not_less [symmetric] by blast
  have R: "R = \<lparr>sr_messages = fst fit, sr_uidValidity = v, sr_nextBeforeUID =
      (if count \<or> length (fst fit) < length messages
       then (if fst fit \<noteq> [] then ms_uid (last (fst fit)) else if 0 < high then high + 1 else 0)
       else if reached then high + 1 else 0), sr_scanLimitReached = reached, sr_truncated = snd fit\<rparr>"
    unfolding R_def boundPage_def Let_def fit_def size'_def by (simp add: case_prod_unfold)
  have "size' (take k messages) (snd fit) = sz (R\<lparr>sr_nextBeforeUID := 0\<rparr>)"
    by (simp add: R size'_def k(2))
  with k R show "\<exists>k. sr_messages R = take k messages \<and> (sr_truncated R \<longleftrightarrow> count \<or> k < length messages)
      \<and> (k = 0 \<or> sz (R\<lparr>sr_nextBeforeUID := 0\<rparr>) \<le> maxResultBytes)"
    by (intro exI [of _ k]) simp
  have "(count \<or> length (fst fit) < length messages) = snd fit" using k by simp
  then show "sr_nextBeforeUID R =
       (if sr_truncated R
        then (if sr_messages R \<noteq> [] then ms_uid (last (sr_messages R)) else if 0 < high then high + 1 else 0)
        else if reached then high + 1 else 0)"
    unfolding R by simp
qed

text \<open>
  On a scan that found the eligible UIDs above \<open>high\<close>, the messages of the page are a prefix of
  those UIDs in descending order, and the cursor is where they stop.
\<close>

lemma boundPage_page:
  assumes E: "{u \<in> M. u \<le> H} = eligible input M" and M0: "0 \<notin> M"
    and before: "si_beforeUID input \<noteq> 0 \<Longrightarrow> H < si_beforeUID input"
    and found: "set ordered = {u \<in> M. high < u \<and> u \<le> H}" "sorted_wrt (>) ordered" "high \<le> H"
    and stop: "high = 0 \<or> reached \<or> limit < length ordered" and reached: "reached \<Longrightarrow> high < H"
    and uids: "map ms_uid messages = take limit ordered"
  shows "pageOf input M limit (boundPage sz v (limit < length ordered) reached high messages)"
proof -
  define R where "R = boundPage sz v (limit < length ordered) reached high messages"
  obtain k where k: "sr_messages R = take k messages"
    "sr_truncated R \<longleftrightarrow> limit < length ordered \<or> k < length messages"
    using boundPage_fit(1) unfolding R_def by blast
  note cursor = boundPage_fit(2) [of sz v "limit < length ordered" reached high messages, folded R_def]
  define U where "U = map ms_uid (sr_messages R)"
  have U: "U = take (min k limit) ordered" by (simp add: U_def k(1) take_map [symmetric] uids)
  have sub: "set U \<subseteq> set ordered" unfolding U by (rule set_take_subset)
  have ordE: "set ordered \<subseteq> eligible input M" using found(1) E by auto
  have len: "length messages = length (take limit ordered)" by (metis uids length_map)
  have scanned: "high < u \<and> u \<le> H" if "u \<in> set ordered" for u using that unfolding found(1) by simp
  have high: "high < H" if "ordered \<noteq> []"
    using scanned [OF list.set_sel(1) [OF that]] by (blast intro: less_le_trans)
  have complete: "set U = {u \<in> eligible input M. sr_nextBeforeUID R \<le> u}"
    if "sr_messages R \<noteq> [] \<or> \<not> sr_truncated R"
  proof (cases "sr_truncated R")
    case True
    with that have ne: "sr_messages R \<noteq> []" by simp
    with True have c: "sr_nextBeforeUID R = last U" by (simp add: cursor U_def last_map)
    from ne have "U \<noteq> []" by (simp add: U_def)
    with sub have "last U \<in> set ordered" by auto
    then have "high < last U" using scanned by blast
    moreover have "set U = {x \<in> set ordered. last U \<le> x}"
      using sorted_take_upper [OF found(2)] \<open>U \<noteq> []\<close> unfolding U by blast
    moreover from \<open>high < last U\<close> have "high < x" if "last U \<le> x" for x
      using that by (rule less_le_trans)
    ultimately show ?thesis unfolding c found(1) E [symmetric] by blast
  next
    case False
    with k len have "U = ordered" unfolding U by auto
    then have S: "set U = {u \<in> M. high < u \<and> u \<le> H}" using found(1) by simp
    show ?thesis
    proof (cases reached)
      case True
      with False have "sr_nextBeforeUID R = high + 1" by (simp add: cursor)
      with S E word_less_Suc [OF reached [OF True]] show ?thesis by auto
    next
      case nr: False
      with stop False k(2) have "high = 0" by auto
      moreover from nr False have "sr_nextBeforeUID R = 0" by (simp add: cursor)
      moreover have "0 < u" if "u \<in> M" for u using M0 that by (auto simp: word_gt_0)
      ultimately show ?thesis using S E by auto
    qed
  qed
  have progress: "sr_nextBeforeUID R < si_beforeUID input" if b: "si_beforeUID input \<noteq> 0"
  proof (cases "sr_messages R \<noteq> [] \<and> sr_truncated R")
    case True
    then have "sr_nextBeforeUID R = last U" by (simp add: cursor U_def last_map)
    moreover from True have "U \<noteq> []" by (simp add: U_def)
    then have "last U \<in> set U" by (rule last_in_set)
    ultimately have "sr_nextBeforeUID R \<in> eligible input M" using sub ordE by auto
    with b show ?thesis by (auto simp: eligible_def)
  next
    case False
    have "sr_nextBeforeUID R = 0 \<or> sr_nextBeforeUID R = high + 1 \<and> high < H"
    proof (cases "sr_truncated R")
      case True
      with k(2) len have "ordered \<noteq> []" by auto
      with True False high show ?thesis by (auto simp: cursor)
    next
      case nt: False
      with reached show ?thesis by (auto simp: cursor)
    qed
    then show ?thesis
    proof
      assume "sr_nextBeforeUID R = 0"
      with b show ?thesis by (simp add: word_gt_0)
    next
      assume "sr_nextBeforeUID R = high + 1 \<and> high < H"
      with word_less_Suc [of high H] have "sr_nextBeforeUID R \<le> H" by metis
      with before [OF b] show ?thesis by (rule le_less_trans [rotated])
    qed
  qed
  from U found(2) have "sorted_wrt (>) U" "length U \<le> limit" by (auto simp: sorted_wrt_take)
  with complete progress sub ordE show ?thesis
    unfolding R_def [symmetric] pageOf_def Let_def U_def [symmetric] by blast
qed

lemma finishSearch_bound:
  assumes meta: "servesMetadata session" and "distinct found"
  shows "\<exists>messages s'. finishSearch sz session input selected limit (found, scanned, high) s =
       (Done (boundPage sz (sm_uidValidity selected) (limit < length (rev (sort found)))
          (scanned = maxUIDsScanned \<and> 0 < high) high messages), s')
     \<and> map ms_uid messages = take limit (rev (sort found))"
proof -
  let ?ordered = "rev (sort found)"
  let ?page = "if limit < length ?ordered then take limit ?ordered else ?ordered"
  have page: "?page = take limit ?ordered" by simp
  have desc: "sorted_wrt (>) (take limit ?ordered)"
    using rev_sort_desc [OF assms(2)] by (rule sorted_wrt_take)
  obtain items s' where call:
    "(if ?page \<noteq> [] then opCall (ss_fetchMetadata session ?page False) else opReturn []) s = (Done items, s')"
    "distinct (map im_uid items)" "im_uid ` set items = set (take limit ?ordered)"
  proof (cases "take limit ?ordered = []")
    case True
    with that [of "[]" s] show ?thesis unfolding page by (simp add: opReturn_def)
  next
    case False
    obtain its w' where "ss_fetchMetadata session (take limit ?ordered) False (snd s) = (Done its, w')"
      "distinct (map im_uid its)" "im_uid ` set its = set (take limit ?ordered)"
      using meta unfolding servesMetadata_def by blast
    with False that [of its "(fst s, w')"] show ?thesis
      unfolding page by (cases s) (simp add: opCall_def)
  qed
  let ?messages = "sort_key (\<lambda>m. - uint (ms_uid m))
    (map (summaryFromProtocol (si_mailbox input) (sm_uidValidity selected)) items)"
  have "finishSearch sz session input selected limit (found, scanned, high) s =
      (Done (boundPage sz (sm_uidValidity selected) (limit < length ?ordered)
         (scanned = maxUIDsScanned \<and> 0 < high) high ?messages), s')"
    unfolding finishSearch_def Let_def prod.case opBind_def call(1) call.case opReturn_def ..
  then show ?thesis using sorted_summaries [OF call(2,3) desc] by blast
qed

lemma finishSearch_page:
  assumes meta: "servesMetadata session" and M0: "0 \<notin> M"
    and E: "{u \<in> M. u \<le> H} = eligible input M"
    and before: "si_beforeUID input \<noteq> 0 \<Longrightarrow> H < si_beforeUID input"
    and scan: "distinct found" "set found = {u \<in> M. high < u \<and> u \<le> H}" "high \<le> H"
      "scanned + unat high = unat H"
      "high = 0 \<or> scanned = maxUIDsScanned \<or> limit < length found"
  shows "\<exists>R s'. finishSearch sz session input selected limit (found, scanned, high) s = (Done R, s')
           \<and> pageOf input M limit R"
proof -
  obtain messages s' where fin: "finishSearch sz session input selected limit (found, scanned, high) s =
       (Done (boundPage sz (sm_uidValidity selected) (limit < length (rev (sort found)))
          (scanned = maxUIDsScanned \<and> 0 < high) high messages), s')"
    and uids: "map ms_uid messages = take limit (rev (sort found))"
    using finishSearch_bound [OF meta scan(1)] by blast
  have reached: "high < H" if "scanned = maxUIDsScanned \<and> 0 < high"
    using that scan(4) by (simp add: word_less_nat_alt maxUIDsScanned_def)
  have "pageOf input M limit (boundPage sz (sm_uidValidity selected) (limit < length (rev (sort found)))
      (scanned = maxUIDsScanned \<and> 0 < high) high messages)"
    by (rule boundPage_page [OF E M0 before _ rev_sort_desc [OF scan(1)] scan(3) _ reached uids])
      (use scan in \<open>auto simp: word_gt_0\<close>)
  with fin show ?thesis by blast
qed

lemma searchOperation_page:
  assumes "servesSelect session input selected" "servesSearch session input M"
    and "servesMetadata session" and M0: "0 \<notin> M" and "sm_uidNext selected \<noteq> 0"
    and "\<forall>u \<in> M. u < sm_uidNext selected"
    and valid: "si_beforeUID input = 0 \<or> sm_uidValidity selected = si_uidValidity input"
  shows "\<exists>R s'. searchOperation sz session input limit s = (Done R, s') \<and> pageOf input M limit R"
proof -
  let ?H = "startHigh input selected"
  obtain w' where "ss_select session (si_mailbox input) True (snd s) = (Done selected, w')"
    using assms(1) unfolding servesSelect_def by blast
  then have sel: "opCall (ss_select session (si_mailbox input) True) s = (Done selected, fst s, w')"
    by (cases s) (simp add: opCall_def)
  have "set [] = {u \<in> M. ?H < u \<and> u \<le> ?H}" by auto
  from scanLoop_scans [OF assms(2) M0 _ this, of 0 limit "(fst s, w')"]
  obtain found scanned high s1 where scan:
    "scanLoop session input limit ?H 0 [] (fst s, w') = (Done (found, scanned, high), s1)"
    "distinct found" "set found = {u \<in> M. high < u \<and> u \<le> ?H}" "high \<le> ?H"
    "scanned + unat high = unat ?H" "scanned \<le> maxUIDsScanned"
    "high = 0 \<or> scanned = maxUIDsScanned \<or> limit < length found"
    by auto
  note E = startHigh_eligible [OF assms(5,6)]
  obtain R s2 where
    "finishSearch sz session input selected limit (found, scanned, high) s1 = (Done R, s2)"
    "pageOf input M limit R"
    using finishSearch_page [OF assms(3) M0 E(1) _ scan(2-5,7)] E(2) by blast
  with sel scan(1) valid show ?thesis
    by (auto simp: searchOperation_def opBind_def)
qed

section \<open>Oversized summaries\<close>

text \<open>A scan that starts below the window size ends after one window.\<close>

lemma scanLoop_single:
  assumes "servesSearch session input M" and "0 \<notin> M" and "0 < H" and "H \<le> 5000"
  shows "\<exists>found s'. scanLoop session input limit H 0 [] s = (Done (found, unat H, 0), s')
           \<and> distinct found \<and> set found = {u \<in> M. u \<le> H}"
proof -
  have w: "windowLow H (windowWidth 0) = 1"
  proof (cases "H = 5000")
    case False
    with assms(4) have "\<not> 5000 \<le> H" by simp
    then show ?thesis by (simp add: windowLow_def windowWidth_def maxUIDsScanned_def)
  qed (simp add: windowLow_def windowWidth_def maxUIDsScanned_def)
  obtain uids w' where u: "ss_search session (windowRequest input 1 H) (snd s) = (Done uids, w')"
      "set uids = {u \<in> M. 1 \<le> u \<and> u \<le> H}"
    using assms(1) unfolding servesSearch_def by blast
  have one: "1 \<le> u \<longleftrightarrow> u \<noteq> 0" for u :: "32 word" by (simp add: word_le_nat_alt Suc_le_eq unat_gt_0)
  with u(2) assms(2) have S: "set uids = {u \<in> M. u \<le> H}" by auto
  with one assms(2) have "\<forall>u \<in> set uids. 1 \<le> u \<and> u \<le> H \<and> u \<noteq> 0" by auto
  from collectUIDs_Some [OF this, of "[]"] obtain found where
    c: "collectUIDs 1 H uids [] = Some found" "distinct found" "set found = set uids" by auto
  have "unat (H - 1) + 1 = unat H" using assms(3) by (simp add: unat_minus_one word_gt_0 unat_gt_0)
  moreover have "opCall (ss_search session (windowRequest input 1 H)) s = (Done uids, fst s, w')"
    using u(1) by (cases s) (simp add: opCall_def)
  ultimately have "scanLoop session input limit H 0 [] s =
      scanLoop session input limit 0 (unat H) found (fst s, w')"
    using assms(3) w c(1) by (subst scanLoop.simps) (simp add: maxUIDsScanned_def Let_def)
  also have "\<dots> = (Done (found, unat H, 0), fst s, w')" by (subst scanLoop.simps) simp
  finally show ?thesis using c(2,3) S by blast
qed

lemma boundPage_oversized:
  fixes v counted reached
  assumes "messages \<noteq> []"
    and "\<And>R. ms_uid (hd messages) \<in> ms_uid ` set (sr_messages R) \<Longrightarrow> maxResultBytes < sz R"
  defines "R \<equiv> boundPage sz v counted reached 0 messages"
  shows "sr_messages R = [] \<and> sr_truncated R \<and> sr_nextBeforeUID R = 0"
proof -
  obtain k where k: "sr_messages R = take k messages"
    "sr_truncated R \<longleftrightarrow> counted \<or> k < length messages"
    "k = 0 \<or> sz (R\<lparr>sr_nextBeforeUID := 0\<rparr>) \<le> maxResultBytes"
    using boundPage_fit(1) unfolding R_def by blast
  have "k = 0"
  proof (rule ccontr)
    assume "k \<noteq> 0"
    then have "hd messages \<in> set (take k messages)"
      using assms(1) by (cases messages; cases k) auto
    then have "ms_uid (hd messages) \<in> ms_uid ` set (sr_messages (R\<lparr>sr_nextBeforeUID := 0\<rparr>))"
      by (simp add: k(1))
    from assms(2) [OF this] k(3) \<open>k \<noteq> 0\<close> show False by simp
  qed
  with k assms(1) boundPage_fit(2) [of sz v counted reached 0 messages, folded R_def]
  show ?thesis by simp
qed

lemma hd_rev_sort_Max: "xs \<noteq> [] \<Longrightarrow> hd (rev (sort xs)) = Max (set (xs :: 'a :: linorder list))"
proof -
  assume ne: "xs \<noteq> []"
  then obtain ys y where ys: "sort xs = ys @ [y]" by (metis rev_exhaust set_empty set_sort)
  then have "sorted (ys @ [y])" by (metis sorted_sort)
  then have "Max (set (ys @ [y])) = y" by (intro Max_eqI) (auto simp: sorted_append)
  then have "Max (set xs) = y" by (metis ys set_sort)
  then show ?thesis by (simp add: ys)
qed

lemma validSearch_limit:
  "validateSearchInput input = None \<Longrightarrow> 0 < (if si_limit input = 0 then 20 else nat (si_limit input))"
  by (auto simp: validateSearchInput_def split: option.splits if_splits)

lemma searchOperation_oversized:
  assumes "servesSelect session input selected" "servesSearch session input M"
    and meta: "servesMetadata session" and M0: "0 \<notin> M" and "sm_uidNext selected \<noteq> 0"
    and "\<forall>u \<in> M. u < sm_uidNext selected"
    and valid: "si_beforeUID input = 0 \<or> sm_uidValidity selected = si_uidValidity input"
    and ne: "eligible input M \<noteq> {}" and "startHigh input selected \<le> 5000" and "0 < limit"
    and big: "\<And>R. Max (eligible input M) \<in> ms_uid ` set (sr_messages R) \<Longrightarrow> maxResultBytes < sz R"
  shows "\<exists>R s'. searchOperation sz session input limit s = (Done R, s')
           \<and> sr_messages R = [] \<and> sr_truncated R \<and> sr_nextBeforeUID R = 0"
proof -
  let ?H = "startHigh input selected"
  note E = startHigh_eligible(1) [OF assms(5,6), of input]
  have "0 < ?H"
  proof (rule ccontr)
    assume "\<not> 0 < ?H"
    then have "?H = 0" by (simp add: word_gt_0)
    moreover from ne obtain u where "u \<in> M" "u \<le> ?H" unfolding E [symmetric] by blast
    ultimately show False using M0 unat_gt_0 [of u] by (auto simp: word_le_nat_alt)
  qed
  obtain w' where "ss_select session (si_mailbox input) True (snd s) = (Done selected, w')"
    using assms(1) unfolding servesSelect_def by blast
  then have sel: "opCall (ss_select session (si_mailbox input) True) s = (Done selected, fst s, w')"
    by (cases s) (simp add: opCall_def)
  obtain found s1 where scan:
    "scanLoop session input limit ?H 0 [] (fst s, w') = (Done (found, unat ?H, 0), s1)"
    "distinct found" "set found = eligible input M"
    using scanLoop_single [OF assms(2) M0 \<open>0 < ?H\<close> assms(9)] E by blast
  obtain messages s2 where fin:
    "finishSearch sz session input selected limit (found, unat ?H, 0) s1 =
       (Done (boundPage sz (sm_uidValidity selected) (limit < length (rev (sort found)))
          (unat ?H = maxUIDsScanned \<and> (0 :: 32 word) < 0) 0 messages), s2)"
    "map ms_uid messages = take limit (rev (sort found))"
    using finishSearch_bound [OF meta scan(2)] by blast
  from scan(3) ne have "found \<noteq> []" by auto
  then have "sort found \<noteq> []" by (metis set_empty set_sort)
  then have ne': "take limit (rev (sort found)) \<noteq> []" using \<open>0 < limit\<close> by simp
  then have "ms_uid (hd messages) = hd (rev (sort found))"
    using fin(2) by (metis hd_map hd_take \<open>0 < limit\<close> list.map_disc_iff)
  then have "ms_uid (hd messages) = Max (eligible input M)"
    using hd_rev_sort_Max [OF \<open>found \<noteq> []\<close>] scan(3) by simp
  moreover from ne' fin(2) have "messages \<noteq> []" by auto
  ultimately show ?thesis
    using boundPage_oversized [where messages = messages and sz = sz] big sel scan(1) fin(1) valid
    by (auto simp: searchOperation_def opBind_def)
qed

section \<open>Properties\<close>

text \<open>
  C34. A page of a mail search over a mailbox that does not change during the call. Whatever the
  number of UID windows, the page limit and the byte limit, \<open>SearchMessages\<close> returns at most
  \<open>limit\<close> messages in strictly descending UID order, all of them matches below the requested
  cursor. Unless the byte limit emptied the page, the messages are exactly the matches from the
  returned cursor upwards (all of them when no cursor is returned), so that following the cursor
  skips and repeats nothing; and the cursor moves strictly down.
\<close>

theorem search_page_complete:
  assumes "validateSearchInput input = None" and "healthyEnv env"
    and "servesSelect (me_session env) input selected" "servesSearch (me_session env) input M"
    and "servesMetadata (me_session env)" and "0 \<notin> M"
    and "sm_uidNext selected \<noteq> 0" "\<forall>u \<in> M. u < sm_uidNext selected"
    and "si_beforeUID input = 0 \<or> sm_uidValidity selected = si_uidValidity input"
  shows "\<exists>R. fst (searchMessages serializedSize env client input w) = Inr R
           \<and> pageOf input M (if si_limit input = 0 then 20 else nat (si_limit input)) R"
  using mailRead_healthy [OF assms(2), where
      operation = "searchOperation serializedSize (me_session env) input
        (if si_limit input = 0 then 20 else nat (si_limit input))" and
      P = "pageOf input M (if si_limit input = 0 then 20 else nat (si_limit input))"]
    searchOperation_page [OF assms(3-9)]
  by (simp only: searchMessages_def assms(1) option.case Let_def)

text \<open>A mailbox with the UIDs 3, 5 and 9, of which 5 and 9 match, behind a working connection.\<close>

definition sampleEnvelope :: envelope where
  "sampleEnvelope = \<lparr>en_date = 0, en_subject = ''s'', en_from = [], en_replyTo = [], en_to = [],
     en_cc = [], en_messageID = [], en_inReplyTo = []\<rparr>"

definition sampleItem :: "32 word \<Rightarrow> imapMessage" where
  "sampleItem uid = \<lparr>im_uid = uid, im_flags = [backslash # ''Seen''], im_envelope = sampleEnvelope,
     im_internalDate = 1, im_size = 10, im_modSeq = 0, im_parts = [],
     im_headers = \<lparr>ch_messageID = [], ch_inReplyTo = [], ch_references = [], ch_replyTo = []\<rparr>\<rparr>"

definition sampleSelected :: selectedMailbox where
  "sampleSelected = \<lparr>sm_uidValidity = 7, sm_uidNext = 10\<rparr>"

definition sampleSession :: "unit imapSession" where
  "sampleSession =
     \<lparr>ss_capabilities = (\<lambda>w. \<lparr>cap_condStore = False, cap_move = False, cap_uidPlus = True,
        cap_binary = False, cap_specialUse = True\<rparr>),
      ss_supportsConditionalStore = (\<lambda>w. False),
      ss_list = (\<lambda>w. (Done [], w)),
      ss_select = (\<lambda>m r w. (Done sampleSelected, w)),
      ss_search = (\<lambda>rq w. (Done (filter (\<lambda>u. rq_uidMin rq \<le> u \<and> u \<le> rq_uidMax rq) [5, 9]), w)),
      ss_fetchMetadata = (\<lambda>uids h w. (Done (map sampleItem (remdups uids)), w)),
      ss_fetchBodyPart = (\<lambda>u p w. (Fault plainFault, w)),
      ss_storeDelta = (\<lambda>u a f w. (Fault plainFault, w)),
      ss_conditionalStoreDelta = (\<lambda>u a f m w. (Fault plainFault, w)),
      ss_fetchFlags = (\<lambda>u w. (Done (sampleItem u), w)),
      ss_nativeMove = (\<lambda>u d w. (Fault plainFault, w)),
      ss_appendSent = (\<lambda>m b w. (Fault plainFault, w)),
      ss_copy = (\<lambda>u d w. (Fault plainFault, w)),
      ss_addDeleted = (\<lambda>u w. (Fault plainFault, w)),
      ss_uidExpunge = (\<lambda>u w. (Fault plainFault, w))\<rparr>"

definition sampleEnvOf :: "'w imapSession \<Rightarrow> 'w mailEnv" where
  "sampleEnvOf session =
     \<lparr>me_allow = (\<lambda>l w. (True, w)), me_acquire = (\<lambda>l w. (True, w)), me_release = (\<lambda>l w. w),
      me_ctxDone = (\<lambda>w. False), me_callerDone = (\<lambda>w. False), me_imapDial = (\<lambda>w. (Done (), w)),
      me_imapFactory = (\<lambda>a p w. (Done (), w)), me_closeConn = (\<lambda>w. w),
      me_closeSession = (\<lambda>w. (False, w)), me_session = session\<rparr>"

definition sampleClient :: mailClient where
  "sampleClient = \<lparr>cl_config = \<lparr>mc_address = ''me@icloud.com'', mc_password = ''password'',
       mc_recipientPolicy = \<lparr>mp_allowAll = True, mp_allowed = {}\<rparr>, mc_enableSentCopy = False,
       mc_archiveScope = []\<rparr>, cl_mutationEnabled = True, cl_sendEnabled = True\<rparr>"

definition sampleSearch :: "32 word \<Rightarrow> int \<Rightarrow> searchInput" where
  "sampleSearch before limit = \<lparr>si_mailbox = ''INBOX'', si_query = [], si_from = [], si_to = [],
     si_subject = [], si_since = 0, si_before = 0, si_unseenOnly = False, si_flaggedOnly = False,
     si_beforeUID = before, si_uidValidity = 7, si_limit = limit\<rparr>"

lemma sample_healthy: "healthyEnv (sampleEnvOf session)"
  by (simp add: healthyEnv_def sampleEnvOf_def)

lemma sample_serves:
  "servesSelect sampleSession input sampleSelected"
  "servesSearch sampleSession input {5, 9}"
  "servesMetadata sampleSession"
  by (auto simp: servesSelect_def servesSearch_def servesMetadata_def sampleSession_def
      windowRequest_def sampleItem_def o_def image_image)

lemma sample_valid: "validateSearchInput (sampleSearch 9 1) = None"
  by code_simp

theorem search_page_complete_witness:
  "\<exists>R. fst (searchMessages (\<lambda>r. 100) (sampleEnvOf sampleSession) sampleClient (sampleSearch 9 1) ()) = Inr R
     \<and> pageOf (sampleSearch 9 1) {5, 9} 1 R"
  using search_page_complete [OF sample_valid sample_healthy [of sampleSession],
      where selected = sampleSelected and M = "{5, 9}" and serializedSize = "\<lambda>r. 100"
        and client = sampleClient and w = "()"] sample_serves
  by (simp add: sampleEnvOf_def sampleSelected_def sampleSearch_def)

text \<open>
  The byte limit can hide mail. When the summary of the newest match alone exceeds the result
  limit and the matches below the cursor fit in the first scanned window, the page is empty and
  flagged as truncated, and it has no cursor: every older match is unreachable by pagination.
\<close>

theorem oversized_summary_hides_mail:
  assumes "validateSearchInput input = None" and "healthyEnv env"
    and "servesSelect (me_session env) input selected" "servesSearch (me_session env) input M"
    and "servesMetadata (me_session env)" and "0 \<notin> M"
    and "sm_uidNext selected \<noteq> 0" "\<forall>u \<in> M. u < sm_uidNext selected"
    and "si_beforeUID input = 0 \<or> sm_uidValidity selected = si_uidValidity input"
    and "eligible input M \<noteq> {}" and "startHigh input selected \<le> 5000"
    and "\<And>R. Max (eligible input M) \<in> ms_uid ` set (sr_messages R) \<Longrightarrow> maxResultBytes < serializedSize R"
  shows "\<exists>R. fst (searchMessages serializedSize env client input w) = Inr R
           \<and> sr_messages R = [] \<and> sr_truncated R \<and> sr_nextBeforeUID R = 0"
  using mailRead_healthy [OF assms(2), where
      operation = "searchOperation serializedSize (me_session env) input
        (if si_limit input = 0 then 20 else nat (si_limit input))" and
      P = "\<lambda>R. sr_messages R = [] \<and> sr_truncated R \<and> sr_nextBeforeUID R = 0"]
    searchOperation_oversized [OF assms(3-11) _ assms(12)] validSearch_limit [OF assms(1)]
  by (simp only: searchMessages_def assms(1) option.case Let_def)

lemma sample_valid_all: "validateSearchInput (sampleSearch 0 0) = None"
  by code_simp

definition sampleSize :: "searchResult \<Rightarrow> int" where
  "sampleSize R = (if 9 \<in> ms_uid ` set (sr_messages R) then 300000 else 100)"

theorem oversized_summary_hides_mail_witness:
  "\<exists>R. fst (searchMessages sampleSize (sampleEnvOf sampleSession) sampleClient (sampleSearch 0 0) ()) = Inr R
     \<and> sr_messages R = [] \<and> sr_truncated R \<and> sr_nextBeforeUID R = 0"
proof -
  have "eligible (sampleSearch 0 0) {5, 9} = {5, 9}" by (auto simp: eligible_def sampleSearch_def)
  moreover have "startHigh (sampleSearch 0 0) sampleSelected \<le> 5000"
    by (simp add: startHigh_def sampleSearch_def sampleSelected_def)
  ultimately show ?thesis
    using oversized_summary_hides_mail [OF sample_valid_all sample_healthy [of sampleSession],
      where selected = sampleSelected and M = "{5, 9}" and serializedSize = sampleSize
        and client = sampleClient and w = "()"] sample_serves
    by (simp add: sampleEnvOf_def sampleSelected_def sampleSearch_def sampleSize_def
        maxResultBytes_def)
qed

end
