(* ===== verification/Mail_Mutation.thy ===== *)
theory Mail_Mutation
  imports Mail_Search
begin

text \<open>
  \<open>internal/mail/mutation.go\<close> and \<open>internal/mail/archive.go\<close>: flag changes, moves, moves to Trash and
  the optional copy of a sent message. Each closure passed to \<open>mutate\<close> is an operation of
  \<open>Mail_Session\<close>; \<open>phase.dispatched = true\<close> is \<open>markDispatched\<close>, at the places where the source sets
  it. The interface \<open>imap_log\<close> describes a session whose mutating commands are recorded; it is
  interpreted on the recording of any session.
\<close>

section \<open>Flags\<close>

record setFlagsResult =
  fr_mailbox :: string
  fr_uidValidity :: "32 word"
  fr_uid :: "32 word"
  fr_flags :: "string list"
  fr_modSeq :: "64 word"
  fr_conditionalUpdate :: bool
  fr_resultIncomplete :: bool

definition protocolFlag :: "string \<Rightarrow> string" where
  "protocolFlag flag =
     (if flag = flagSeen then backslash # ''Seen''
      else if flag = flagFlagged then backslash # ''Flagged''
      else if flag = flagAnswered then backslash # ''Answered''
      else [])"

definition protocolFlags :: "string list \<Rightarrow> string list" where
  "protocolFlags flags = map protocolFlag flags"

definition flagsReconciliation :: string where
  "flagsReconciliation = ''Re-read the message flags before deciding whether to retry.''"

definition isConflict :: "fault \<Rightarrow> bool" where
  "isConflict e = (case f_imap e of Some (kind, _) \<Rightarrow> kind = ErrorConflict | None \<Rightarrow> False)"

text \<open>The two branches after the capability check; \<open>result\<close> is the result without the new state.\<close>

definition conditionalStoreStep ::
  "'w imapSession \<Rightarrow> ('w \<Rightarrow> bool) \<Rightarrow> setFlagsInput \<Rightarrow> setFlagsResult \<Rightarrow> ('w, setFlagsResult) op" where
  "conditionalStoreStep session ctxDone input result =
     opBind markDispatched
      (\<lambda>_. opBind (opTry (opCall (ss_conditionalStoreDelta session (sf_uid input)
              (sf_operation input = flagOperationAdd) (protocolFlags (sf_flags input))
              (sf_expectedModSeq input))))
       (\<lambda>r. case r of
          Inl err \<Rightarrow>
            if isConflict err
            then opFail (publicFault (mailError codeConcurrentModification
                   ''mail message changed since the expected MODSEQ; re-read before mutating''))
            else opBind (opGet ctxDone)
                   (\<lambda>c. opFail (publicFault (mapIMAPError err c True flagsReconciliation)))
        | Inr updated \<Rightarrow>
            opReturn (result\<lparr>fr_flags := publicFlags (im_flags updated),
              fr_modSeq := im_modSeq updated, fr_conditionalUpdate := True\<rparr>)))"

definition plainStoreStep ::
  "'w imapSession \<Rightarrow> ('w \<Rightarrow> bool) \<Rightarrow> setFlagsInput \<Rightarrow> setFlagsResult \<Rightarrow> ('w, setFlagsResult) op" where
  "plainStoreStep session ctxDone input result =
     opBind markDispatched
      (\<lambda>_. opBind (opTry (opCall (ss_storeDelta session (sf_uid input)
              (sf_operation input = flagOperationAdd) (protocolFlags (sf_flags input)))))
       (\<lambda>r. case r of
          Inl err \<Rightarrow>
            opBind (opGet ctxDone)
              (\<lambda>c. opFail (publicFault (mapIMAPError err c True flagsReconciliation)))
        | Inr _ \<Rightarrow>
            opBind (opTry (opCall (ss_fetchFlags session (sf_uid input))))
             (\<lambda>r. case r of
                Inl _ \<Rightarrow> opReturn (result\<lparr>fr_resultIncomplete := True\<rparr>)
              | Inr updated \<Rightarrow>
                  opReturn (result\<lparr>fr_flags := publicFlags (im_flags updated),
                    fr_modSeq := im_modSeq updated\<rparr>))))"

definition setFlagsOperation ::
  "'w imapSession \<Rightarrow> ('w \<Rightarrow> bool) \<Rightarrow> setFlagsInput \<Rightarrow> ('w, setFlagsResult) op" where
  "setFlagsOperation session ctxDone input =
     opBind (opCall (ss_select session (sf_mailbox input) False))
      (\<lambda>selected.
        if sm_uidValidity selected \<noteq> sf_uidValidity input
        then opFail (publicFault (mailError codeConcurrentModification
               ''mailbox UIDVALIDITY changed; re-read before mutating''))
        else opBind (opCall (ss_fetchFlags session (sf_uid input)))
         (\<lambda>_. opBind (opGet (ss_capabilities session))
          (\<lambda>caps.
            let result = \<lparr>fr_mailbox = sf_mailbox input, fr_uidValidity = sf_uidValidity input,
                  fr_uid = sf_uid input, fr_flags = [], fr_modSeq = 0, fr_conditionalUpdate = False,
                  fr_resultIncomplete = False\<rparr> in
            if cap_condStore caps
            then if sf_expectedModSeq input = 0
                 then opFail (publicFault (mailValidationError
                        ''expected_modseq is required when CONDSTORE is available''))
                 else opBind (opGet (ss_supportsConditionalStore session))
                  (\<lambda>supported.
                    if \<not> supported
                    then opFail (publicFault (mailError codeProtocolError
                           ''conditional flag mutation is unavailable because the adapter cannot validate MODIFIED or the returned FETCH state''))
                    else conditionalStoreStep session ctxDone input result)
            else plainStoreStep session ctxDone input result)))"

definition setMessageFlags ::
  "'w mailEnv \<Rightarrow> mailClient \<Rightarrow> setFlagsInput \<Rightarrow> 'w \<Rightarrow> (goError + setFlagsResult) \<times> 'w" where
  "setMessageFlags env client input w =
     (case validateFlags input of
        Some e \<Rightarrow> (Inl e, w)
      | None \<Rightarrow>
          mailMutate env client flagsReconciliation
            (setFlagsOperation (me_session env) (me_callerDone env) input) w)"

section \<open>Moves\<close>

record moveInput =
  mi_mailbox :: string
  mi_uidValidity :: "32 word"
  mi_uid :: "32 word"
  mi_destination :: string

record trashInput =
  ti_mailbox :: string
  ti_uidValidity :: "32 word"
  ti_uid :: "32 word"

record moveResult =
  mr_mailbox :: string
  mr_uidValidity :: "32 word"
  mr_uid :: "32 word"
  mr_destination :: string
  mr_destinationUIDValidity :: "32 word"
  mr_destinationUID :: "32 word"
  mr_method :: string

definition moveReconciliation :: string where
  "moveReconciliation = ''Check both source and destination before deciding whether to move again.''"

definition boundedMailboxList :: "'w imapSession \<Rightarrow> ('w, imapMailbox list) op" where
  "boundedMailboxList session =
     opBind (opCall (ss_list session))
       (\<lambda>mailboxes. if maxMailboxes < length mailboxes then opFail (imapFault ErrorTooLarge False)
                     else opReturn mailboxes)"

definition selectableMailbox :: "imapMailbox list \<Rightarrow> string \<Rightarrow> bool" where
  "selectableMailbox mailboxes name \<longleftrightarrow>
     length (filter (\<lambda>mb. mb_name mb = name \<and> isSelectable mb) mailboxes) = 1"

definition specialUseDeletionMailbox :: "imapMailbox list \<Rightarrow> string \<Rightarrow> bool" where
  "specialUseDeletionMailbox mailboxes name \<longleftrightarrow>
     list_ex (\<lambda>mb. mb_name mb = name
       \<and> list_ex (\<lambda>a. equalFold a (backslash # ''Trash'') \<or> equalFold a (backslash # ''Junk''))
           (mb_attributes mb)) mailboxes"

definition moveStepError :: "fault \<Rightarrow> string \<Rightarrow> string \<Rightarrow> goError" where
  "moveStepError err category reconciliation =
     (if (case f_imap err of Some (_, ambiguous) \<Rightarrow> ambiguous | None \<Rightarrow> False)
      then MailErr codeOutcomeUnknown (''mail move outcome is unknown after '' @ category) False 0
             reconciliation
      else MailErr codePartialFailure (''mail move stopped after '' @ category) False 0 reconciliation)"

definition mapFailure ::
  "('w \<Rightarrow> bool) \<Rightarrow> fault \<Rightarrow> string \<Rightarrow> ('w, 'a) op" where
  "mapFailure ctxDone err reconciliation =
     opBind (opGet ctxDone)
       (\<lambda>c. opFail (publicFault (mapIMAPError err c True reconciliation)))"

definition nativeMoveStep ::
  "'w imapSession \<Rightarrow> ('w \<Rightarrow> bool) \<Rightarrow> moveResult \<Rightarrow> ('w, moveResult) op" where
  "nativeMoveStep session ctxDone result =
     opBind markDispatched
      (\<lambda>_. opBind (opTry (opCall (ss_nativeMove session (mr_uid result) (mr_destination result))))
       (\<lambda>r. case r of
          Inl err \<Rightarrow> mapFailure ctxDone err moveReconciliation
        | Inr data \<Rightarrow>
            if (cd_uidValidity data = 0) \<noteq> (cd_destinationUID data = 0)
            then opFail (publicFault (MailErr codeOutcomeUnknown
                   ''mail move succeeded with unusable COPYUID metadata'' False 0 moveReconciliation))
            else opReturn (result\<lparr>mr_method := ''move'',
                   mr_destinationUIDValidity := cd_uidValidity data,
                   mr_destinationUID := cd_destinationUID data\<rparr>)))"

definition copyMoveStep ::
  "'w imapSession \<Rightarrow> ('w \<Rightarrow> bool) \<Rightarrow> moveResult \<Rightarrow> ('w, moveResult) op" where
  "copyMoveStep session ctxDone result =
     opBind markDispatched
      (\<lambda>_. opBind (opTry (opCall (ss_copy session (mr_uid result) (mr_destination result))))
       (\<lambda>r. case r of
          Inl err \<Rightarrow>
            mapFailure ctxDone err ''Check the destination before deciding whether to move again.''
        | Inr data \<Rightarrow>
            if cd_uidValidity data = 0 \<or> cd_destinationUID data = 0
            then opFail (publicFault (MailErr codeOutcomeUnknown
                   ''mail copy succeeded with unusable COPYUID metadata'' False 0
                   ''A destination copy may exist. Check the destination before deciding whether to move again.''))
            else opBind (opTry (opCall (ss_addDeleted session (mr_uid result))))
             (\<lambda>r. case r of
                Inl err \<Rightarrow> opFail (publicFault (moveStepError err ''copied_not_marked_deleted''
                  ''A destination copy may exist while the source remains. Check both mailboxes.''))
              | Inr _ \<Rightarrow>
                  opBind (opTry (opCall (ss_uidExpunge session (mr_uid result))))
                   (\<lambda>r. case r of
                      Inl err \<Rightarrow> opFail (publicFault (moveStepError err
                        ''copied_marked_deleted_not_expunged''
                        ''A destination copy exists and the source may remain marked Deleted. Check both mailboxes.''))
                    | Inr _ \<Rightarrow> opReturn (result\<lparr>mr_method := ''uidplus_fallback'',
                        mr_destinationUIDValidity := cd_uidValidity data,
                        mr_destinationUID := cd_destinationUID data\<rparr>)))))"

definition moveWithSession ::
  "'w imapSession \<Rightarrow> ('w \<Rightarrow> bool) \<Rightarrow> string \<Rightarrow> 32 word \<Rightarrow> 32 word \<Rightarrow> string \<Rightarrow> ('w, moveResult) op" where
  "moveWithSession session ctxDone source uidValidity uid destination =
     opBind (opCall (ss_select session source False))
      (\<lambda>selected.
        if sm_uidValidity selected \<noteq> uidValidity
        then opFail (publicFault (mailError codeConcurrentModification
               ''mailbox UIDVALIDITY changed; re-read before moving''))
        else opBind (opCall (ss_fetchFlags session uid))
         (\<lambda>_. opBind (opGet (ss_capabilities session))
          (\<lambda>caps.
            let result = \<lparr>mr_mailbox = source, mr_uidValidity = uidValidity, mr_uid = uid,
                  mr_destination = destination, mr_destinationUIDValidity = 0, mr_destinationUID = 0,
                  mr_method = []\<rparr> in
            if cap_move caps then nativeMoveStep session ctxDone result
            else if \<not> cap_uidPlus caps
            then opFail (publicFault (mailError codeProtocolError
                   ''server supports neither native MOVE nor the safe UIDPLUS fallback''))
            else copyMoveStep session ctxDone result)))"

definition moveOperation ::
  "'w imapSession \<Rightarrow> ('w \<Rightarrow> bool) \<Rightarrow> moveInput \<Rightarrow> ('w, moveResult) op" where
  "moveOperation session ctxDone input =
     opBind (boundedMailboxList session)
      (\<lambda>mailboxes.
        if specialUseDeletionMailbox mailboxes (mi_destination input)
        then opFail (publicFault (mailValidationError
               ''destination cannot be a SPECIAL-USE Trash or Junk mailbox; use trash_message for intentional deletion''))
        else if \<not> selectableMailbox mailboxes (mi_destination input)
        then opFail (publicFault (mailError codeNotFound
               ''destination mailbox was not returned as selectable by LIST''))
        else moveWithSession session ctxDone (mi_mailbox input) (mi_uidValidity input) (mi_uid input)
               (mi_destination input))"

definition moveMessage ::
  "'w mailEnv \<Rightarrow> mailClient \<Rightarrow> moveInput \<Rightarrow> 'w \<Rightarrow> (goError + moveResult) \<times> 'w" where
  "moveMessage env client input w =
     (case validateIdentity (mi_mailbox input) (mi_uidValidity input) (mi_uid input) of
        Some e \<Rightarrow> (Inl e, w)
      | None \<Rightarrow>
          (case validateMailbox (mi_destination input) of
             Some e \<Rightarrow> (Inl e, w)
           | None \<Rightarrow>
               if mi_destination input = mi_mailbox input
               then (Inl (mailValidationError ''destination must differ from the source mailbox''), w)
               else mailMutate env client moveReconciliation
                      (moveOperation (me_session env) (me_callerDone env) input) w))"

definition specialUseNames :: "string \<Rightarrow> imapMailbox list \<Rightarrow> string list" where
  "specialUseNames attr mailboxes =
     map mb_name (filter (\<lambda>mb. isSelectable mb \<and> list_ex (\<lambda>a. equalFold a attr) (mb_attributes mb))
       mailboxes)"

definition trashOperation ::
  "'w imapSession \<Rightarrow> ('w \<Rightarrow> bool) \<Rightarrow> trashInput \<Rightarrow> ('w, moveResult) op" where
  "trashOperation session ctxDone input =
     opBind (boundedMailboxList session)
      (\<lambda>mailboxes.
        let trash = specialUseNames (backslash # ''Trash'') mailboxes in
        if length trash \<noteq> 1
        then opFail (publicFault (mailError codeProtocolError
               ''exactly one selectable SPECIAL-USE Trash mailbox is required''))
        else if hd trash = ti_mailbox input
        then opFail (publicFault (mailError codeConflict ''message is already in the Trash mailbox''))
        else moveWithSession session ctxDone (ti_mailbox input) (ti_uidValidity input) (ti_uid input)
               (hd trash))"

definition trashMessage ::
  "'w mailEnv \<Rightarrow> mailClient \<Rightarrow> trashInput \<Rightarrow> 'w \<Rightarrow> (goError + moveResult) \<times> 'w" where
  "trashMessage env client input w =
     (case validateIdentity (ti_mailbox input) (ti_uidValidity input) (ti_uid input) of
        Some e \<Rightarrow> (Inl e, w)
      | None \<Rightarrow>
          mailMutate env client moveReconciliation
            (trashOperation (me_session env) (me_callerDone env) input) w)"

section \<open>The copy of a sent message\<close>

definition archivalDisabled :: string where "archivalDisabled = ''disabled''"
definition archivalNotAttempted :: string where "archivalNotAttempted = ''not_attempted''"
definition archivalStored :: string where "archivalStored = ''stored''"
definition archivalFailed :: string where "archivalFailed = ''failed''"
definition archivalUnknown :: string where "archivalUnknown = ''unknown''"

definition scopeAllows :: "string list \<Rightarrow> string \<Rightarrow> bool" where
  "scopeAllows values candidate \<longleftrightarrow> list_ex (\<lambda>v. v = candidate) values"

definition appendOutcome ::
  "'w imapSession \<Rightarrow> mailConfig \<Rightarrow> bytes \<Rightarrow> ('w, string \<times> string \<times> fault option) op" where
  "appendOutcome session config message =
     opBind (opTry (opCall (ss_list session)))
      (\<lambda>listed. case listed of
         Inl err \<Rightarrow> opReturn (archivalFailed, [], Some err)
       | Inr mailboxes \<Rightarrow>
           let sent = specialUseNames (backslash # ''Sent'') mailboxes in
           if length sent \<noteq> 1 then opReturn (archivalFailed, [], Some plainFault)
           else if mc_archiveScope config \<noteq> [] \<and> \<not> scopeAllows (mc_archiveScope config) (hd sent)
           then opReturn (archivalFailed, hd sent, Some plainFault)
           else opBind (opTry (opCall (ss_appendSent session (hd sent) message)))
            (\<lambda>r. case r of
               Inl err \<Rightarrow>
                 opReturn (if (case f_imap err of Some (_, ambiguous) \<Rightarrow> ambiguous | None \<Rightarrow> False)
                           then archivalUnknown else archivalFailed, hd sent, Some err)
             | Inr _ \<Rightarrow> opReturn (archivalStored, hd sent, None)))"

text \<open>
  \<open>archiveSent\<close>: the status, the destination and the error. A panic goes to the caller; once the
  session exists, the deferred call closes session and connection first.
\<close>

definition archiveSent ::
  "'w mailEnv \<Rightarrow> mailClient \<Rightarrow> bytes \<Rightarrow> 'w \<Rightarrow> (string \<times> string \<times> fault option) call \<times> 'w" where
  "archiveSent env client message w =
     (if \<not> mc_enableSentCopy (cl_config client) then (Done (archivalDisabled, [], None), w)
      else case me_imapDial env w of (dialed, w1) \<Rightarrow>
        (case dialed of
           Panic \<Rightarrow> (Panic, w1)
         | Fault e \<Rightarrow> (Done (archivalFailed, [], Some e), w1)
         | Done _ \<Rightarrow>
             (case me_imapFactory env (mc_address (cl_config client))
                     (mc_password (cl_config client)) w1 of (made, w2) \<Rightarrow>
              case made of
                Panic \<Rightarrow> (Panic, w2)
              | Fault e \<Rightarrow> (Done (archivalFailed, [], Some e), me_closeConn env w2)
              | Done _ \<Rightarrow>
                  (case appendOutcome (me_session env) (cl_config client) message (False, w2) of
                     (r, _, w3) \<Rightarrow> (r, me_closeConn env (snd (me_closeSession env w3)))))))"

section \<open>Recorded sessions\<close>

datatype imapEvent =
    EvStore "32 word" bool "string list"
  | EvCondStore "32 word" bool "string list" "64 word"
  | EvMove "32 word" string "copyData call"
  | EvCopy "32 word" string "copyData call"
  | EvDeleted "32 word" "unit call"
  | EvExpunge "32 word" "unit call"
  | EvAppend string bytes

text \<open>
  A session whose mutating commands append to a log, and whose reads leave it alone. The faults of
  the adapter are never public mail errors, as \<open>imapadapter\<close> only returns its own error type.
\<close>

locale imap_log =
  fixes session :: "'w imapSession" and logOf :: "'w \<Rightarrow> imapEvent list"
  assumes list_log: "logOf (snd (ss_list session w)) = logOf w"
    and select_log: "logOf (snd (ss_select session m b w)) = logOf w"
    and fetchFlags_log: "logOf (snd (ss_fetchFlags session u w)) = logOf w"
    and store_log: "logOf (snd (ss_storeDelta session u a f w)) = logOf w @ [EvStore u a f]"
    and condStore_log:
      "logOf (snd (ss_conditionalStoreDelta session u a f q w)) = logOf w @ [EvCondStore u a f q]"
    and move_log: "logOf (snd (ss_nativeMove session u d w)) =
      logOf w @ [EvMove u d (fst (ss_nativeMove session u d w))]"
    and copy_log: "logOf (snd (ss_copy session u d w)) =
      logOf w @ [EvCopy u d (fst (ss_copy session u d w))]"
    and deleted_log: "logOf (snd (ss_addDeleted session u w)) =
      logOf w @ [EvDeleted u (fst (ss_addDeleted session u w))]"
    and expunge_log: "logOf (snd (ss_uidExpunge session u w)) =
      logOf w @ [EvExpunge u (fst (ss_uidExpunge session u w))]"
    and append_log: "logOf (snd (ss_appendSent session m x w)) = logOf w @ [EvAppend m x]"
begin

lemma quiet_step:
  "ss_list session w = (r1, w') \<Longrightarrow> logOf w' = logOf w"
  "ss_select session m b w = (r2, w') \<Longrightarrow> logOf w' = logOf w"
  "ss_fetchFlags session u w = (r3, w') \<Longrightarrow> logOf w' = logOf w"
  using list_log [of w] select_log [of m b w] fetchFlags_log [of u w] by auto

lemma logged_step:
  "ss_storeDelta session u a f w = (r1, w') \<Longrightarrow> logOf w' = logOf w @ [EvStore u a f]"
  "ss_conditionalStoreDelta session u a f q w = (r2, w') \<Longrightarrow> logOf w' = logOf w @ [EvCondStore u a f q]"
  "ss_nativeMove session u d w = (r3, w') \<Longrightarrow> logOf w' = logOf w @ [EvMove u d r3]"
  "ss_copy session u d w = (r4, w') \<Longrightarrow> logOf w' = logOf w @ [EvCopy u d r4]"
  "ss_addDeleted session u w = (r5, w') \<Longrightarrow> logOf w' = logOf w @ [EvDeleted u r5]"
  "ss_uidExpunge session u w = (r6, w') \<Longrightarrow> logOf w' = logOf w @ [EvExpunge u r6]"
  "ss_appendSent session m x w = (r7, w') \<Longrightarrow> logOf w' = logOf w @ [EvAppend m x]"
  using store_log [of u a f w] condStore_log [of u a f q w] move_log [of u d w] copy_log [of u d w]
    deleted_log [of u w] expunge_log [of u w] append_log [of m x w] by auto

end

section \<open>Moves never lose a message\<close>

text \<open>
  The commands of one move: nothing, one \<open>MOVE\<close>, or a \<open>COPY\<close> that a \<open>STORE +FLAGS \Deleted\<close> and then
  a \<open>UID EXPUNGE\<close> follow, each only after the previous one succeeded and the copy only after the
  server confirmed the new UID.
\<close>

definition confirmed :: "copyData call \<Rightarrow> bool" where
  "confirmed r = (case r of Done data \<Rightarrow> cd_uidValidity data \<noteq> 0 \<and> cd_destinationUID data \<noteq> 0 | _ \<Rightarrow> False)"

fun moveLog :: "32 word \<Rightarrow> string \<Rightarrow> imapEvent list \<Rightarrow> bool" where
  "moveLog uid dest [] = True"
| "moveLog uid dest [EvMove u d r] = (u = uid \<and> d = dest)"
| "moveLog uid dest [EvCopy u d r] = (u = uid \<and> d = dest)"
| "moveLog uid dest [EvCopy u d r, EvDeleted u' r'] =
     (u = uid \<and> d = dest \<and> u' = uid \<and> confirmed r)"
| "moveLog uid dest [EvCopy u d r, EvDeleted u' r', EvExpunge u'' r''] =
     (u = uid \<and> d = dest \<and> u' = uid \<and> u'' = uid \<and> confirmed r \<and> r' = Done ())"
| "moveLog uid dest _ = False"

text \<open>The commands of a move that is reported as done.\<close>

fun completeLog :: "imapEvent list \<Rightarrow> bool" where
  "completeLog [EvMove u d (Done _)] = True"
| "completeLog [EvCopy u d r, EvDeleted u' (Done _), EvExpunge u'' (Done _)] = confirmed r"
| "completeLog _ = False"

text \<open>A public mail error that is not marked retryable.\<close>

definition finalError :: "goError \<Rightarrow> bool" where
  "finalError e = (case e of MailErr c m r a k \<Rightarrow> \<not> r | _ \<Rightarrow> False)"

lemma finalError_simps [simp]:
  "finalError (MailErr c m False a k)" "finalError (mailError c m)"
  "finalError (mailValidationError m)" "finalError (moveStepError err c m)"
  by (simp_all add: finalError_def mailError_def mailValidationError_def moveStepError_def
      split: option.splits)

text \<open>
  What a closure of a mutation establishes: its commands satisfy \<open>P\<close>, they are all sent after
  \<open>phase.dispatched\<close> was set, success means that \<open>Q\<close> holds of the commands and the result, and an
  error after a command is a public one that is not marked retryable.
\<close>

definition mutates ::
  "('w \<Rightarrow> imapEvent list) \<Rightarrow> (imapEvent list \<Rightarrow> bool) \<Rightarrow> (imapEvent list \<Rightarrow> 'a \<Rightarrow> bool) \<Rightarrow> ('w, 'a) op \<Rightarrow> bool" where
  "mutates logOf P Q m \<longleftrightarrow>
     (\<forall>d w. case m (d, w) of (r, d', w') \<Rightarrow>
        \<exists>evs. logOf w' = logOf w @ evs \<and> P evs \<and> (evs \<noteq> [] \<longrightarrow> d')
          \<and> (\<forall>a. r = Done a \<longrightarrow> Q evs a)
          \<and> (\<forall>e. r = Fault e \<and> evs \<noteq> [] \<longrightarrow> (\<exists>x. f_mail e = Some x \<and> finalError x)))"

lemma mutatesI:
  assumes "\<And>d w r d' w'. m (d, w) = (r, d', w') \<Longrightarrow>
     \<exists>evs. logOf w' = logOf w @ evs \<and> P evs \<and> (evs \<noteq> [] \<longrightarrow> d') \<and> (\<forall>a. r = Done a \<longrightarrow> Q evs a)
       \<and> (\<forall>e. r = Fault e \<and> evs \<noteq> [] \<longrightarrow> (\<exists>x. f_mail e = Some x \<and> finalError x))"
  shows "mutates logOf P Q m"
  using assms unfolding mutates_def by (auto split: prod.split)

lemma mutatesD:
  assumes "mutates logOf P Q m" and "m (d, w) = (r, d', w')"
  shows "\<exists>evs. logOf w' = logOf w @ evs \<and> P evs \<and> (evs \<noteq> [] \<longrightarrow> d') \<and> (\<forall>a. r = Done a \<longrightarrow> Q evs a)
       \<and> (\<forall>e. r = Fault e \<and> evs \<noteq> [] \<longrightarrow> (\<exists>x. f_mail e = Some x \<and> finalError x))"
proof -
  have "case m (d, w) of (r, d', w') \<Rightarrow>
      \<exists>evs. logOf w' = logOf w @ evs \<and> P evs \<and> (evs \<noteq> [] \<longrightarrow> d') \<and> (\<forall>a. r = Done a \<longrightarrow> Q evs a)
       \<and> (\<forall>e. r = Fault e \<and> evs \<noteq> [] \<longrightarrow> (\<exists>x. f_mail e = Some x \<and> finalError x))"
    by (rule assms(1) [unfolded mutates_def, THEN spec, THEN spec])
  with assms(2) show ?thesis by simp
qed

text \<open>A step without commands in front of a mutation.\<close>

lemma mutates_bind_quiet:
  assumes quiet: "\<And>d w r d' w'. m (d, w) = (r, d', w') \<Longrightarrow> logOf w' = logOf w"
    and "P []" and f: "\<And>a. mutates logOf P Q (f a)"
  shows "mutates logOf P Q (opBind m f)"
proof (rule mutatesI)
  fix d w r d' w'
  assume run: "opBind m f (d, w) = (r, d', w')"
  obtain r1 d1 w1 where m: "m (d, w) = (r1, d1, w1)" by (cases "m (d, w)") auto
  note l = quiet [OF m]
  show "\<exists>evs. logOf w' = logOf w @ evs \<and> P evs \<and> (evs \<noteq> [] \<longrightarrow> d') \<and> (\<forall>a. r = Done a \<longrightarrow> Q evs a)
       \<and> (\<forall>e. r = Fault e \<and> evs \<noteq> [] \<longrightarrow> (\<exists>x. f_mail e = Some x \<and> finalError x))"
  proof (cases r1)
    case (Done a)
    with run m have "f a (d1, w1) = (r, d', w')" by (simp add: opBind_def)
    from mutatesD [OF f this] l show ?thesis by simp
  qed (use run m l assms(2) in \<open>auto simp: opBind_def\<close>)
qed

lemma mutates_fail: "P [] \<Longrightarrow> mutates logOf P Q (opFail e)"
  by (simp add: mutates_def opFail_def)

lemma mutates_if: "(b \<Longrightarrow> mutates logOf P Q m) \<Longrightarrow> (\<not> b \<Longrightarrow> mutates logOf P Q m') \<Longrightarrow>
    mutates logOf P Q (if b then m else m')"
  by simp

text \<open>The faults of the adapter are not public mail errors.\<close>

definition adapterFaults :: "('w \<Rightarrow> 'a call \<times> 'w) \<Rightarrow> bool" where
  "adapterFaults f \<longleftrightarrow> (\<forall>w e. fst (f w) = Fault e \<longrightarrow> f_mail e = None)"

lemma adapterFaultsD: "adapterFaults f \<Longrightarrow> f w = (Fault e, w') \<Longrightarrow> f_mail e = None"
  by (metis adapterFaults_def fst_conv)

definition adapterSession :: "'w imapSession \<Rightarrow> bool" where
  "adapterSession session \<longleftrightarrow>
     (\<forall>u d. adapterFaults (ss_nativeMove session u d)) \<and> (\<forall>u d. adapterFaults (ss_copy session u d))
     \<and> (\<forall>u a f. adapterFaults (ss_storeDelta session u a f))
     \<and> (\<forall>u a f q. adapterFaults (ss_conditionalStoreDelta session u a f q))"

lemma adapterSessionD:
  assumes "adapterSession session"
  shows "ss_nativeMove session u d w = (Fault e, w') \<Longrightarrow> f_mail e = None"
    "ss_copy session u d w = (Fault e, w') \<Longrightarrow> f_mail e = None"
    "ss_storeDelta session u a f w = (Fault e, w') \<Longrightarrow> f_mail e = None"
    "ss_conditionalStoreDelta session u a f q w = (Fault e, w') \<Longrightarrow> f_mail e = None"
  using assms unfolding adapterSession_def by (metis adapterFaultsD)+

lemma mapIMAPError_final: "f_mail err = None \<Longrightarrow> finalError (mapIMAPError err ctx True recon)"
  by (cases "f_imap err") (auto simp: mapIMAPError_def split: prod.splits)

context imap_log
begin

lemma nativeMove_mutates:
  assumes "adapterSession session"
  shows "mutates logOf (moveLog (mr_uid res) (mr_destination res)) (\<lambda>evs _. completeLog evs)
    (nativeMoveStep session ctx res)"
  unfolding mutates_def
proof (intro allI)
  fix d w
  obtain c w' where c: "ss_nativeMove session (mr_uid res) (mr_destination res) w = (c, w')"
    by fastforce
  show "case nativeMoveStep session ctx res (d, w) of (r, d', w') \<Rightarrow>
      \<exists>evs. logOf w' = logOf w @ evs \<and> moveLog (mr_uid res) (mr_destination res) evs \<and> (evs \<noteq> [] \<longrightarrow> d')
        \<and> (\<forall>a. r = Done a \<longrightarrow> completeLog evs)
        \<and> (\<forall>e. r = Fault e \<and> evs \<noteq> [] \<longrightarrow> (\<exists>x. f_mail e = Some x \<and> finalError x))"
    using c logged_step(3) [OF c] adapterSessionD(1) [OF assms] mapIMAPError_final
    by (cases c) (auto simp: nativeMoveStep_def mapFailure_def op_defs publicFault_def)
qed

lemma copyMove_mutates:
  assumes "adapterSession session"
  shows "mutates logOf (moveLog (mr_uid res) (mr_destination res)) (\<lambda>evs _. completeLog evs)
    (copyMoveStep session ctx res)"
  unfolding mutates_def
proof (intro allI)
  fix d w
  let ?goal = "\<lambda>x. case x of (r, d', w') \<Rightarrow>
      \<exists>evs. logOf w' = logOf w @ evs \<and> moveLog (mr_uid res) (mr_destination res) evs \<and> (evs \<noteq> [] \<longrightarrow> d')
        \<and> (\<forall>a. r = Done a \<longrightarrow> completeLog evs)
        \<and> (\<forall>e. r = Fault e \<and> evs \<noteq> [] \<longrightarrow> (\<exists>x. f_mail e = Some x \<and> finalError x))"
  obtain c w1 where c: "ss_copy session (mr_uid res) (mr_destination res) w = (c, w1)" by fastforce
  note l1 = logged_step(4) [OF c]
  show "?goal (copyMoveStep session ctx res (d, w))"
  proof (cases "confirmed c")
    case False
    with c l1 adapterSessionD(2) [OF assms] mapIMAPError_final show ?thesis
      by (cases c) (auto simp: copyMoveStep_def mapFailure_def op_defs publicFault_def confirmed_def)
  next
    case True
    then obtain data where data: "c = Done data" "cd_uidValidity data \<noteq> 0" "cd_destinationUID data \<noteq> 0"
      by (auto simp: confirmed_def split: call.splits)
    obtain c2 w2 where c2: "ss_addDeleted session (mr_uid res) w1 = (c2, w2)" by fastforce
    obtain c3 w3 where c3: "ss_uidExpunge session (mr_uid res) w2 = (c3, w3)" by fastforce
    from True data c c2 c3 l1 logged_step(5) [OF c2] logged_step(6) [OF c3] show ?thesis
      by (cases c2; cases c3)
        (auto simp: copyMoveStep_def mapFailure_def op_defs publicFault_def)
  qed
qed

lemma opCall_quiet:
  assumes "\<And>w r w'. f w = (r, w') \<Longrightarrow> logOf w' = logOf w"
  shows "opCall f (d, w) = (r, d', w') \<Longrightarrow> logOf w' = logOf w"
  using assms by (auto simp: opCall_def split: prod.splits)

lemma opGet_quiet: "opGet f (d, w) = (r, d', w') \<Longrightarrow> logOf w' = logOf w"
  by (simp add: opGet_def)

lemma move_mutates:
  assumes "adapterSession session"
  shows "mutates logOf (moveLog uid dest) (\<lambda>evs _. completeLog evs)
    (moveWithSession session ctx source uidValidity uid dest)"
  unfolding moveWithSession_def Let_def
  using nativeMove_mutates [OF assms, of "\<lparr>mr_mailbox = source, mr_uidValidity = uidValidity,
      mr_uid = uid, mr_destination = dest, mr_destinationUIDValidity = 0, mr_destinationUID = 0,
      mr_method = []\<rparr>" ctx]
    copyMove_mutates [OF assms, of "\<lparr>mr_mailbox = source, mr_uidValidity = uidValidity,
      mr_uid = uid, mr_destination = dest, mr_destinationUIDValidity = 0, mr_destinationUID = 0,
      mr_method = []\<rparr>" ctx]
  by (intro mutates_bind_quiet mutates_if mutates_fail)
    (auto elim: opCall_quiet [rotated] opGet_quiet dest: quiet_step)

lemma boundedList_quiet: "boundedMailboxList session (d, w) = (r, d', w') \<Longrightarrow> logOf w' = logOf w"
  by (auto simp: boundedMailboxList_def op_defs dest: quiet_step split: prod.splits call.splits if_splits)

end

section \<open>Recorded environments\<close>

text \<open>An environment of which only the session's mutating commands touch the log.\<close>

locale mail_log = imap_log "me_session env" logOf
  for env :: "'w mailEnv" and logOf :: "'w \<Rightarrow> imapEvent list" +
  assumes allow_log: "logOf (snd (me_allow env l w)) = logOf w"
    and acquire_log: "logOf (snd (me_acquire env l w)) = logOf w"
    and release_log: "logOf (me_release env l w) = logOf w"
    and dial_log: "logOf (snd (me_imapDial env w)) = logOf w"
    and factory_log: "logOf (snd (me_imapFactory env a p w)) = logOf w"
    and closeConn_log: "logOf (me_closeConn env w) = logOf w"
    and closeSession_log: "logOf (snd (me_closeSession env w)) = logOf w"
begin

lemma attempt_log:
  assumes op: "mutates logOf P Q operation" and "P []"
    and run: "imapAttempt env client True operation w = (r, d, w')"
  shows "\<exists>evs. logOf w' = logOf w @ evs \<and> P evs \<and> (\<forall>a. r = Inr a \<longrightarrow> Q evs a)
    \<and> (\<forall>e. r = Inl e \<and> evs \<noteq> [] \<longrightarrow> d \<and>
         (f_imap e = Some (ErrorProtocol, True) \<and> f_mail e = None \<or> (\<exists>x. f_mail e = Some x \<and> finalError x)))"
proof -
  obtain r1 w1 where 1: "me_imapDial env w = (r1, w1)" by fastforce
  obtain r2 w2 where 2: "me_imapFactory env (mc_address (cl_config client))
      (mc_password (cl_config client)) w1 = (r2, w2)" by fastforce
  obtain r3 d3 w3 where 3: "operation (False, w2) = (r3, d3, w3)" by (cases "operation (False, w2)") auto
  obtain r4 w4 where 4: "me_closeSession env w3 = (r4, w4)" by fastforce
  have l: "logOf w1 = logOf w" "logOf w2 = logOf w1" "logOf w4 = logOf w3"
    using 1 2 4 dial_log [of w] factory_log [of _ _ w1] closeSession_log [of w3] by (metis snd_conv)+
  from mutatesD [OF op 3] obtain evs where e: "logOf w3 = logOf w2 @ evs" "P evs" "evs \<noteq> [] \<longrightarrow> d3"
    "\<forall>a. r3 = Done a \<longrightarrow> Q evs a"
    "\<forall>e. r3 = Fault e \<and> evs \<noteq> [] \<longrightarrow> (\<exists>x. f_mail e = Some x \<and> finalError x)" by blast
  show ?thesis
  proof (cases "r1 = Done () \<and> r2 = Done ()")
    case True
    with run 1 2 3 4 l e show ?thesis
      by (intro exI [of _ evs])
        (cases r3; auto simp: imapAttempt_def closeConn_log imapFault_def plainFault_def)
  next
    case False
    with run 1 2 l assms(2) show ?thesis
      by (cases r1; cases r2) (auto simp: imapAttempt_def closeConn_log)
  qed
qed

lemma mutate_log:
  assumes op: "mutates logOf P Q operation" and "P []"
    and run: "mailMutate env client recon operation w = (r, w')"
  shows "\<exists>evs. logOf w' = logOf w @ evs \<and> P evs \<and> (\<forall>a. r = Inr a \<longrightarrow> Q evs a)
    \<and> (\<forall>e. r = Inl e \<and> evs \<noteq> [] \<longrightarrow> finalError e)"
proof -
  obtain b1 w1 where 1: "me_allow env MutationLimiter w = (b1, w1)" by fastforce
  obtain b2 w2 where 2: "me_acquire env MutationLimiter w1 = (b2, w2)" by fastforce
  obtain r3 d3 w3 where 3: "imapAttempt env client True operation w2 = (r3, d3, w3)"
    by (cases "imapAttempt env client True operation w2") auto
  have l: "logOf w1 = logOf w" "logOf w2 = logOf w1"
    using 1 2 allow_log [of MutationLimiter w] acquire_log [of MutationLimiter w1] by (metis snd_conv)+
  show ?thesis
  proof (cases "cl_mutationEnabled client \<and> b1 \<and> b2")
    case True
    from attempt_log [OF op assms(2) 3] obtain evs where e: "logOf w3 = logOf w2 @ evs" "P evs"
      "\<forall>a. r3 = Inr a \<longrightarrow> Q evs a"
      "\<forall>e. r3 = Inl e \<and> evs \<noteq> [] \<longrightarrow> d3 \<and> (f_imap e = Some (ErrorProtocol, True) \<and> f_mail e = None
         \<or> (\<exists>x. f_mail e = Some x \<and> finalError x))" by blast
    have "finalError (mapIMAPError err ctx d3 recon)" if "r3 = Inl err" "evs \<noteq> []" for err ctx
      using e(4) that by (auto simp: mapIMAPError_def)
    moreover have "w' = me_release env MutationLimiter w3"
      "r = (case r3 of Inr a \<Rightarrow> Inr a
         | Inl err \<Rightarrow> Inl (mapIMAPError err (me_ctxDone env w3) d3 recon))"
      using run True 1 2 3 by (auto simp: mailMutate_def mailAcquire_def)
    ultimately show ?thesis
      using e l by (intro exI [of _ evs]) (cases r3; simp add: release_log)
  next
    case False
    with run 1 2 l assms(2) show ?thesis
      by (auto simp: mailMutate_def mailAcquire_def split: if_splits)
  qed
qed

end

text \<open>The recording of any session and environment: the state carries the log.\<close>

definition quietCall :: "('w \<Rightarrow> 'a \<times> 'w) \<Rightarrow> 'w \<times> 'e list \<Rightarrow> 'a \<times> 'w \<times> 'e list" where
  "quietCall f s = (case f (fst s) of (r, w') \<Rightarrow> (r, w', snd s))"

definition loggedCall :: "('a \<Rightarrow> 'e) \<Rightarrow> ('w \<Rightarrow> 'a \<times> 'w) \<Rightarrow> 'w \<times> 'e list \<Rightarrow> 'a \<times> 'w \<times> 'e list" where
  "loggedCall ev f s = (case f (fst s) of (r, w') \<Rightarrow> (r, w', snd s @ [ev r]))"

definition recordSession :: "'w imapSession \<Rightarrow> ('w \<times> imapEvent list) imapSession" where
  "recordSession session =
     \<lparr>ss_capabilities = ss_capabilities session \<circ> fst,
      ss_supportsConditionalStore = ss_supportsConditionalStore session \<circ> fst,
      ss_list = quietCall (ss_list session),
      ss_select = (\<lambda>m b. quietCall (ss_select session m b)),
      ss_search = (\<lambda>rq. quietCall (ss_search session rq)),
      ss_fetchMetadata = (\<lambda>u h. quietCall (ss_fetchMetadata session u h)),
      ss_fetchBodyPart = (\<lambda>u p. quietCall (ss_fetchBodyPart session u p)),
      ss_storeDelta = (\<lambda>u a f. loggedCall (\<lambda>_. EvStore u a f) (ss_storeDelta session u a f)),
      ss_conditionalStoreDelta = (\<lambda>u a f q.
        loggedCall (\<lambda>_. EvCondStore u a f q) (ss_conditionalStoreDelta session u a f q)),
      ss_fetchFlags = (\<lambda>u. quietCall (ss_fetchFlags session u)),
      ss_nativeMove = (\<lambda>u d. loggedCall (EvMove u d) (ss_nativeMove session u d)),
      ss_appendSent = (\<lambda>m x. loggedCall (\<lambda>_. EvAppend m x) (ss_appendSent session m x)),
      ss_copy = (\<lambda>u d. loggedCall (EvCopy u d) (ss_copy session u d)),
      ss_addDeleted = (\<lambda>u. loggedCall (EvDeleted u) (ss_addDeleted session u)),
      ss_uidExpunge = (\<lambda>u. loggedCall (EvExpunge u) (ss_uidExpunge session u))\<rparr>"

definition recordEnv :: "'w mailEnv \<Rightarrow> ('w \<times> imapEvent list) mailEnv" where
  "recordEnv env =
     \<lparr>me_allow = (\<lambda>l. quietCall (me_allow env l)), me_acquire = (\<lambda>l. quietCall (me_acquire env l)),
      me_release = (\<lambda>l s. (me_release env l (fst s), snd s)),
      me_ctxDone = me_ctxDone env \<circ> fst, me_callerDone = me_callerDone env \<circ> fst,
      me_imapDial = quietCall (me_imapDial env),
      me_imapFactory = (\<lambda>a p. quietCall (me_imapFactory env a p)),
      me_closeConn = (\<lambda>s. (me_closeConn env (fst s), snd s)),
      me_closeSession = quietCall (me_closeSession env),
      me_session = recordSession (me_session env)\<rparr>"

interpretation recorded: mail_log "recordEnv env" snd
  by unfold_locales
    (simp_all add: recordEnv_def recordSession_def quietCall_def loggedCall_def case_prod_unfold)

lemma record_adapter: "adapterSession session \<Longrightarrow> adapterSession (recordSession session)"
  by (simp add: adapterSession_def adapterFaults_def recordSession_def loggedCall_def case_prod_unfold)

text \<open>The commands of a move to Trash: the destination is not the source.\<close>

definition trashLog :: "string \<Rightarrow> 32 word \<Rightarrow> imapEvent list \<Rightarrow> bool" where
  "trashLog source uid evs \<longleftrightarrow> (\<exists>dest. dest \<noteq> source \<and> moveLog uid dest evs)"

text \<open>
  The commands of a flag change: at most one, conditional exactly when the server offers
  \<open>CONDSTORE\<close>, and then on the caller's non-zero \<open>MODSEQ\<close>.
\<close>

definition flagsLog :: "imapCapabilities \<Rightarrow> setFlagsInput \<Rightarrow> imapEvent list \<Rightarrow> bool" where
  "flagsLog caps input evs \<longleftrightarrow>
     (let add = (sf_operation input = flagOperationAdd); flags = protocolFlags (sf_flags input) in
      evs = []
      \<or> cap_condStore caps \<and> sf_expectedModSeq input \<noteq> 0
          \<and> evs = [EvCondStore (sf_uid input) add flags (sf_expectedModSeq input)]
      \<or> \<not> cap_condStore caps \<and> evs = [EvStore (sf_uid input) add flags])"

lemma mutates_weaken:
  assumes "mutates logOf P Q m" and "\<And>evs. P evs \<Longrightarrow> P' evs"
  shows "mutates logOf P' Q m"
proof (rule mutatesI)
  fix d w r d' w'
  assume "m (d, w) = (r, d', w')"
  from mutatesD [OF assms(1) this] assms(2)
  show "\<exists>evs. logOf w' = logOf w @ evs \<and> P' evs \<and> (evs \<noteq> [] \<longrightarrow> d') \<and> (\<forall>a. r = Done a \<longrightarrow> Q evs a)
       \<and> (\<forall>e. r = Fault e \<and> evs \<noteq> [] \<longrightarrow> (\<exists>x. f_mail e = Some x \<and> finalError x))" by blast
qed

context imap_log
begin

lemma moveOperation_mutates:
  assumes "adapterSession session"
  shows "mutates logOf (moveLog (mi_uid input) (mi_destination input)) (\<lambda>evs _. completeLog evs)
    (moveOperation session ctx input)"
  unfolding moveOperation_def
  by (intro mutates_bind_quiet mutates_if mutates_fail move_mutates assms)
    (auto dest: boundedList_quiet)

lemma trashOperation_mutates:
  assumes "adapterSession session"
  shows "mutates logOf (trashLog (ti_mailbox input) (ti_uid input)) (\<lambda>evs _. completeLog evs)
    (trashOperation session ctx input)"
proof -
  have nil: "trashLog m u []" for m u
    using exI [of "\<lambda>dest. dest \<noteq> m" "CHR ''x'' # m"] by (auto simp: trashLog_def)
  show ?thesis
    unfolding trashOperation_def Let_def
    by (intro mutates_bind_quiet mutates_if mutates_fail nil
        mutates_weaken [OF move_mutates [OF assms]])
      (auto dest: boundedList_quiet simp: trashLog_def)
qed

lemma conditionalStore_mutates:
  assumes "adapterSession session" and "cap_condStore caps" and "sf_expectedModSeq input \<noteq> 0"
  shows "mutates logOf (flagsLog caps input) (\<lambda>evs _. evs \<noteq> []) (conditionalStoreStep session ctx input res)"
proof (rule mutatesI)
  fix d w r d' w'
  assume run: "conditionalStoreStep session ctx input res (d, w) = (r, d', w')"
  let ?add = "sf_operation input = flagOperationAdd" and ?flags = "protocolFlags (sf_flags input)"
  obtain c w1 where c: "ss_conditionalStoreDelta session (sf_uid input) ?add ?flags
      (sf_expectedModSeq input) w = (c, w1)" by fastforce
  show "\<exists>evs. logOf w' = logOf w @ evs \<and> flagsLog caps input evs \<and> (evs \<noteq> [] \<longrightarrow> d')
       \<and> (\<forall>a. r = Done a \<longrightarrow> evs \<noteq> [])
       \<and> (\<forall>e. r = Fault e \<and> evs \<noteq> [] \<longrightarrow> (\<exists>x. f_mail e = Some x \<and> finalError x))"
    using run c logged_step(2) [OF c] adapterSessionD(4) [OF assms(1)] mapIMAPError_final assms(2,3)
    by (intro exI [of _ "[EvCondStore (sf_uid input) ?add ?flags (sf_expectedModSeq input)]"])
      (cases c; auto simp: conditionalStoreStep_def op_defs publicFault_def flagsLog_def
        split: if_splits)
qed

lemma plainStore_mutates:
  assumes "adapterSession session" and "\<not> cap_condStore caps"
  shows "mutates logOf (flagsLog caps input) (\<lambda>evs _. evs \<noteq> []) (plainStoreStep session ctx input res)"
proof (rule mutatesI)
  fix d w r d' w'
  assume run: "plainStoreStep session ctx input res (d, w) = (r, d', w')"
  let ?add = "sf_operation input = flagOperationAdd" and ?flags = "protocolFlags (sf_flags input)"
  obtain c w1 where c: "ss_storeDelta session (sf_uid input) ?add ?flags w = (c, w1)" by fastforce
  obtain c2 w2 where c2: "ss_fetchFlags session (sf_uid input) w1 = (c2, w2)" by fastforce
  show "\<exists>evs. logOf w' = logOf w @ evs \<and> flagsLog caps input evs \<and> (evs \<noteq> [] \<longrightarrow> d')
       \<and> (\<forall>a. r = Done a \<longrightarrow> evs \<noteq> [])
       \<and> (\<forall>e. r = Fault e \<and> evs \<noteq> [] \<longrightarrow> (\<exists>x. f_mail e = Some x \<and> finalError x))"
    using run c c2 logged_step(1) [OF c] quiet_step(3) [OF c2] adapterSessionD(3) [OF assms(1)]
      mapIMAPError_final assms(2)
    by (intro exI [of _ "[EvStore (sf_uid input) ?add ?flags]"])
      (cases c; cases c2; auto simp: plainStoreStep_def op_defs publicFault_def flagsLog_def)
qed

lemma setFlags_mutates:
  assumes "adapterSession session" and caps: "\<And>w. ss_capabilities session w = caps"
  shows "mutates logOf (flagsLog caps input) (\<lambda>evs _. evs \<noteq> []) (setFlagsOperation session ctx input)"
proof -
  have nil: "flagsLog caps input []" by (simp add: flagsLog_def Let_def)
  have step: "opBind (opGet (ss_capabilities session)) f = f caps" for f :: "_ \<Rightarrow> ('w, setFlagsResult) op"
    by (auto simp: opBind_def opGet_def caps)
  show ?thesis
    unfolding setFlagsOperation_def step Let_def
    by (intro mutates_bind_quiet mutates_if mutates_fail conditionalStore_mutates plainStore_mutates
        assms(1) nil)
      (auto elim: opCall_quiet [rotated] opGet_quiet dest: quiet_step)
qed

end

section \<open>Properties\<close>

text \<open>
  C31. Moving a message never loses it. On every server, connection failure and panic, the commands
  of \<open>MoveMessage\<close> are none, one \<open>MOVE\<close>, or a \<open>COPY\<close> that is followed by \<open>+FLAGS \Deleted\<close> only once the
  server confirmed the copy's UID, and by \<open>UID EXPUNGE\<close> only once the flag was stored. They name
  only the requested message and destination. A reported success means that the last command
  succeeded, and an error after a command is never marked as retryable.
\<close>

theorem move_never_loses_mail:
  assumes "adapterSession (me_session env)"
  shows "case moveMessage (recordEnv env) client input (w, []) of (r, _, log) \<Rightarrow>
      moveLog (mi_uid input) (mi_destination input) log
      \<and> (\<forall>m. r = Inr m \<longrightarrow> completeLog log)
      \<and> (\<forall>e. r = Inl e \<and> log \<noteq> [] \<longrightarrow> finalError e)"
proof -
  have s: "me_session (recordEnv env) = recordSession (me_session env)" by (simp add: recordEnv_def)
  have op: "mutates snd (moveLog (mi_uid input) (mi_destination input)) (\<lambda>evs _. completeLog evs)
      (moveOperation (me_session (recordEnv env)) ctx input)" for ctx
    by (rule recorded.moveOperation_mutates) (simp add: s record_adapter assms)
  obtain r s' where run: "mailMutate (recordEnv env) client moveReconciliation
      (moveOperation (me_session (recordEnv env)) (me_callerDone (recordEnv env)) input) (w, []) = (r, s')"
    by (rule prod.exhaust)
  from recorded.mutate_log [OF op _ run] run show ?thesis
    by (auto simp: moveMessage_def split: option.splits)
qed

text \<open>The same of a move to Trash, whose destination differs from the source.\<close>

lemma trash_never_loses_mail:
  assumes "adapterSession (me_session env)"
    and "trashMessage (recordEnv env) client input (w, []) = (r, w', log)"
  shows "trashLog (ti_mailbox input) (ti_uid input) log" "r = Inr m \<Longrightarrow> completeLog log"
    "r = Inl e \<Longrightarrow> log \<noteq> [] \<Longrightarrow> finalError e"
proof -
  have op: "mutates snd (trashLog (ti_mailbox input) (ti_uid input)) (\<lambda>evs _. completeLog evs)
      (trashOperation (me_session (recordEnv env)) ctx input)" for ctx
    by (rule recorded.trashOperation_mutates) (simp add: recordEnv_def record_adapter assms(1))
  have nil: "trashLog a u []" for a u
    using exI [of "\<lambda>dest. dest \<noteq> a" "CHR ''x'' # a"] by (auto simp: trashLog_def)
  obtain r1 s1 where run: "mailMutate (recordEnv env) client moveReconciliation
      (trashOperation (me_session (recordEnv env)) (me_callerDone (recordEnv env)) input) (w, []) = (r1, s1)"
    by (rule prod.exhaust)
  note R = recorded.mutate_log [OF op nil run]
  have "trashLog (ti_mailbox input) (ti_uid input) log \<and> (\<forall>m. r = Inr m \<longrightarrow> completeLog log)
      \<and> (\<forall>e. r = Inl e \<and> log \<noteq> [] \<longrightarrow> finalError e)"
    using R run assms(2) nil by (auto simp: trashMessage_def split: option.splits)
  then show "trashLog (ti_mailbox input) (ti_uid input) log" "r = Inr m \<Longrightarrow> completeLog log"
    "r = Inl e \<Longrightarrow> log \<noteq> [] \<Longrightarrow> finalError e" by blast+
qed

text \<open>A server without \<open>MOVE\<close> but with \<open>UIDPLUS\<close>, on which every command succeeds.\<close>

definition sampleMoveSession :: "unit imapSession" where
  "sampleMoveSession = sampleSession\<lparr>
     ss_list := (\<lambda>w. (Done [\<lparr>mb_name = ''INBOX'', mb_delimiter = 47, mb_attributes = []\<rparr>,
                            \<lparr>mb_name = ''Archive'', mb_delimiter = 47, mb_attributes = []\<rparr>], w)),
     ss_copy := (\<lambda>u d w. (Done \<lparr>cd_uidValidity = 8, cd_destinationUID = 1\<rparr>, w)),
     ss_addDeleted := (\<lambda>u w. (Done (), w)), ss_uidExpunge := (\<lambda>u w. (Done (), w)),
     ss_storeDelta := (\<lambda>u a f w. (Done (), w))\<rparr>"

definition sampleMove :: moveInput where
  "sampleMove = \<lparr>mi_mailbox = ''INBOX'', mi_uidValidity = 7, mi_uid = 5, mi_destination = ''Archive''\<rparr>"

lemma sample_adapter: "adapterSession sampleMoveSession"
  by (simp add: adapterSession_def adapterFaults_def sampleMoveSession_def sampleSession_def
      plainFault_def)

definition sampleMoved :: "(goError + moveResult) \<times> unit \<times> imapEvent list" where
  "sampleMoved = moveMessage (recordEnv (sampleEnvOf sampleMoveSession)) sampleClient sampleMove ((), [])"

lemma sampleMoved_ok: "\<not> isl (fst sampleMoved)"
  by code_simp

theorem move_never_loses_mail_witness:
  "adapterSession sampleMoveSession \<and> \<not> isl (fst sampleMoved)
     \<and> moveLog 5 ''Archive'' (snd (snd sampleMoved)) \<and> completeLog (snd (snd sampleMoved))"
proof -
  have "case sampleMoved of (r, _, log) \<Rightarrow> moveLog 5 ''Archive'' log
      \<and> (\<forall>m. r = Inr m \<longrightarrow> completeLog log) \<and> (\<forall>e. r = Inl e \<and> log \<noteq> [] \<longrightarrow> finalError e)"
    using move_never_loses_mail [where env = "sampleEnvOf sampleMoveSession" and client = sampleClient
      and input = sampleMove and w = "()"]
    by (simp add: sampleMoved_def sampleEnvOf_def sample_adapter sampleMove_def)
  with sampleMoved_ok sample_adapter show ?thesis
    by (cases "fst sampleMoved") (auto simp: case_prod_unfold)
qed

text \<open>
  A flag change sends at most one \<open>STORE\<close>: a conditional one, on the caller's non-zero \<open>MODSEQ\<close>,
  exactly when the server offers \<open>CONDSTORE\<close>, and then with the requested flags of the requested
  message. A success means that the command was sent; an error after it is never marked as
  retryable.
\<close>

theorem flags_stored_once:
  assumes "adapterSession (me_session env)" and "\<And>w. ss_capabilities (me_session env) w = caps"
  shows "case setMessageFlags (recordEnv env) client input (w, []) of (r, _, log) \<Rightarrow>
      flagsLog caps input log \<and> (\<forall>m. r = Inr m \<longrightarrow> log \<noteq> [])
      \<and> (\<forall>e. r = Inl e \<and> log \<noteq> [] \<longrightarrow> finalError e)"
proof -
  have s: "me_session (recordEnv env) = recordSession (me_session env)" by (simp add: recordEnv_def)
  have op: "mutates snd (flagsLog caps input) (\<lambda>evs _. evs \<noteq> [])
      (setFlagsOperation (me_session (recordEnv env)) ctx input)" for ctx
    by (rule recorded.setFlags_mutates)
      (simp_all add: s record_adapter assms(1), simp add: recordSession_def assms(2))
  have nil: "flagsLog caps input []" by (simp add: flagsLog_def Let_def)
  obtain r s' where run: "mailMutate (recordEnv env) client flagsReconciliation
      (setFlagsOperation (me_session (recordEnv env)) (me_callerDone (recordEnv env)) input) (w, []) = (r, s')"
    by (rule prod.exhaust)
  from recorded.mutate_log [OF op nil run] run nil show ?thesis
    by (auto simp: setMessageFlags_def split: option.splits)
qed

definition sampleFlags :: setFlagsInput where
  "sampleFlags = \<lparr>sf_mailbox = ''INBOX'', sf_uidValidity = 7, sf_uid = 5, sf_operation = ''add'',
     sf_flags = [''seen''], sf_expectedModSeq = 0\<rparr>"

definition sampleFlagged :: "(goError + setFlagsResult) \<times> unit \<times> imapEvent list" where
  "sampleFlagged =
     setMessageFlags (recordEnv (sampleEnvOf sampleMoveSession)) sampleClient sampleFlags ((), [])"

definition sampleCaps :: imapCapabilities where
  "sampleCaps = \<lparr>cap_condStore = False, cap_move = False, cap_uidPlus = True, cap_binary = False,
     cap_specialUse = True\<rparr>"

lemma sampleFlagged_ok: "\<not> isl (fst sampleFlagged)"
  by code_simp

theorem flags_stored_once_witness:
  "adapterSession sampleMoveSession \<and> ss_capabilities sampleMoveSession () = sampleCaps
     \<and> \<not> isl (fst sampleFlagged) \<and> snd (snd sampleFlagged) \<noteq> []
     \<and> flagsLog sampleCaps sampleFlags (snd (snd sampleFlagged))"
proof -
  have caps: "ss_capabilities sampleMoveSession w = sampleCaps" for w
    by (simp add: sampleMoveSession_def sampleSession_def sampleCaps_def)
  have "case sampleFlagged of (r, _, log) \<Rightarrow> flagsLog sampleCaps sampleFlags log
      \<and> (\<forall>m. r = Inr m \<longrightarrow> log \<noteq> []) \<and> (\<forall>e. r = Inl e \<and> log \<noteq> [] \<longrightarrow> finalError e)"
    using flags_stored_once [where env = "sampleEnvOf sampleMoveSession" and caps = sampleCaps
      and client = sampleClient and input = sampleFlags and w = "()"]
    by (simp add: sampleFlagged_def sampleEnvOf_def sample_adapter caps)
  with sampleFlagged_ok sample_adapter caps show ?thesis
    by (cases "fst sampleFlagged") (auto simp: case_prod_unfold)
qed

end
