(* ===== verification/Mail_Send.thy ===== *)
theory Mail_Send
  imports Mail_Mutation
begin

text \<open>
  \<open>internal/mail/smtp.go\<close>: message preparation, the SMTP submission and its error mapping, the
  inbound byte budget and the deadline clamp. The SMTP library client, the message encoder, the
  random source and the connection are functions on the state \<open>'w\<close> of the outside. A call may
  panic; \<open>sendOnce\<close> recovers, and its branches say what it then reports. In
  \<open>return result, unknownSMTPOutcome(&result)\<close> the call changes \<open>result\<close> before it is returned, as the
  compiled program does.
\<close>

definition maxRecipients :: nat where "maxRecipients = 50"
definition maxSendBodyBytes :: int where "maxSendBodyBytes = 102400"
definition maxEncodedMessage :: int where "maxEncodedMessage = 262144"
definition maxSMTPInboundBytes :: int where "maxSMTPInboundBytes = 1048576"

section \<open>Deadlines and the inbound budget\<close>

definition remainingSMTPTimeout :: "time \<Rightarrow> time \<Rightarrow> duration option" where
  "remainingSMTPTimeout now deadline =
     (let remaining = deadline - now in
      if remaining \<le> 0 then None
      else if toolTimeout < remaining then Some toolTimeout
      else Some remaining)"

text \<open>\<open>deadlineConn.clamp\<close>: the library can neither clear nor extend the deadline.\<close>

definition clampDeadline :: "time \<Rightarrow> time \<Rightarrow> time" where
  "clampDeadline deadline v =
     (if deadline = zeroTime then v
      else if v = zeroTime \<or> deadline < v then deadline
      else v)"

record readBudget =
  rb_limit :: int
  rb_used :: int
  rb_exhausted :: bool

definition inboundLimitFault :: fault where
  "inboundLimitFault = plainFault\<lparr>f_inboundLimit := True\<rparr>"

text \<open>\<open>smtpReadBudgetConn.Read\<close> for a buffer of \<open>size\<close> bytes over the connection's own \<open>Read\<close>.\<close>

definition budgetRead ::
  "(int \<Rightarrow> 'w \<Rightarrow> (int \<times> fault option) \<times> 'w) \<Rightarrow> readBudget \<Rightarrow> int \<Rightarrow> 'w
     \<Rightarrow> (int \<times> fault option) \<times> readBudget \<times> 'w" where
  "budgetRead connRead c bufLen w =
     (if rb_exhausted c then ((0, Some inboundLimitFault), c, w)
      else if bufLen = 0 then (case connRead 0 w of (r, w') \<Rightarrow> (r, c, w'))
      else
        let remaining = max 0 (rb_limit c - rb_used c);
            readSize = (if remaining + 1 < bufLen then remaining + 1 else bufLen) in
        case connRead readSize w of ((n, err), w') \<Rightarrow>
          if remaining < n
          then ((remaining, Some inboundLimitFault), c\<lparr>rb_used := rb_used c + n, rb_exhausted := True\<rparr>, w')
          else ((n, err), c\<lparr>rb_used := rb_used c + n\<rparr>, w'))"

definition normalizeFault :: "bool \<Rightarrow> fault \<Rightarrow> fault" where
  "normalizeFault exhausted err = (if exhausted then inboundLimitFault else err)"

section \<open>The SMTP session\<close>

text \<open>
  The interface \<open>smtpSession\<close>; \<open>Data\<close> also tells whether it set \<open>phase.started\<close>. The library client
  behind it: \<open>SupportsAuth\<close>, \<open>Auth\<close>, \<open>Extension\<close>, \<open>Mail\<close>, \<open>Rcpt\<close>, \<open>Reset\<close>, \<open>Data\<close> with its writer, and
  whether the budget of the connection is exhausted.
\<close>

record 'w smtpSession =
  sm_auth :: "string \<Rightarrow> string \<Rightarrow> 'w \<Rightarrow> unit call \<times> 'w"
  sm_mail :: "string \<Rightarrow> nat \<Rightarrow> bool \<Rightarrow> 'w \<Rightarrow> unit call \<times> 'w"
  sm_rcpt :: "string \<Rightarrow> 'w \<Rightarrow> unit call \<times> 'w"
  sm_reset :: "'w \<Rightarrow> unit call \<times> 'w"
  sm_data :: "bytes \<Rightarrow> 'w \<Rightarrow> (bool \<times> unit call) \<times> 'w"

record 'w smtpClient =
  sc_supportsPlain :: "'w \<Rightarrow> bool"
  sc_auth :: "string \<Rightarrow> string \<Rightarrow> 'w \<Rightarrow> unit call \<times> 'w"
  sc_smtpUTF8 :: "'w \<Rightarrow> bool"
  sc_mail :: "string \<Rightarrow> nat \<Rightarrow> bool \<Rightarrow> 'w \<Rightarrow> unit call \<times> 'w"
  sc_rcpt :: "string \<Rightarrow> 'w \<Rightarrow> unit call \<times> 'w"
  sc_reset :: "'w \<Rightarrow> unit call \<times> 'w"
  sc_data :: "'w \<Rightarrow> unit call \<times> 'w"
  sc_write :: "bytes \<Rightarrow> 'w \<Rightarrow> nat call \<times> 'w"
  sc_closeData :: "'w \<Rightarrow> unit call \<times> 'w"
  sc_exhausted :: "'w \<Rightarrow> bool"

definition normalizeCall :: "'w smtpClient \<Rightarrow> 'a call \<times> 'w \<Rightarrow> 'a call \<times> 'w" where
  "normalizeCall client r =
     (case r of (c, w) \<Rightarrow>
        (case c of Fault e \<Rightarrow> Fault (normalizeFault (sc_exhausted client w) e) | _ \<Rightarrow> c, w))"

definition clientAuth :: "'w smtpClient \<Rightarrow> bool \<Rightarrow> string \<Rightarrow> string \<Rightarrow> 'w \<Rightarrow> unit call \<times> 'w" where
  "clientAuth client tlsReady address password w =
     (if \<not> tlsReady then (Fault plainFault, w)
      else if \<not> sc_supportsPlain client w then (Fault (plainFault\<lparr>f_authUnavailable := True\<rparr>), w)
      else normalizeCall client (sc_auth client address password w))"

definition clientMail :: "'w smtpClient \<Rightarrow> string \<Rightarrow> nat \<Rightarrow> bool \<Rightarrow> 'w \<Rightarrow> unit call \<times> 'w" where
  "clientMail client from bytes utf8 w =
     (if utf8 \<and> \<not> sc_smtpUTF8 client w then (Fault (plainFault\<lparr>f_utf8Unavailable := True\<rparr>), w)
      else normalizeCall client (sc_mail client from bytes utf8 w))"

definition writeSMTPPayload :: "'w smtpClient \<Rightarrow> bytes \<Rightarrow> 'w \<Rightarrow> unit call \<times> 'w" where
  "writeSMTPPayload client payload w =
     (case sc_write client payload w of (r, w') \<Rightarrow>
        (case r of
           Panic \<Rightarrow> Panic
         | Fault e \<Rightarrow> Fault e
         | Done written \<Rightarrow> if written \<noteq> length payload then Fault plainFault else Done (), w'))"

definition clientData :: "'w smtpClient \<Rightarrow> bytes \<Rightarrow> 'w \<Rightarrow> (bool \<times> unit call) \<times> 'w" where
  "clientData client message w =
     (case sc_data client w of (r, w1) \<Rightarrow>
      case r of
        Panic \<Rightarrow> ((False, Panic), w1)
      | Fault e \<Rightarrow> ((False, Fault (normalizeFault (sc_exhausted client w1) e)), w1)
      | Done _ \<Rightarrow>
          (case writeSMTPPayload client message w1 of (r, w2) \<Rightarrow>
           case r of
             Done _ \<Rightarrow>
               (case normalizeCall client (sc_closeData client w2) of (c, w3) \<Rightarrow> ((True, c), w3))
           | _ \<Rightarrow> ((True, r), w2)))"

definition smtpClientSession :: "'w smtpClient \<Rightarrow> bool \<Rightarrow> 'w smtpSession" where
  "smtpClientSession client tlsReady =
     \<lparr>sm_auth = clientAuth client tlsReady, sm_mail = clientMail client,
      sm_rcpt = (\<lambda>address w. normalizeCall client (sc_rcpt client address w)),
      sm_reset = (\<lambda>w. normalizeCall client (sc_reset client w)), sm_data = clientData client\<rparr>"

section \<open>Errors\<close>

definition definitiveSMTPReply :: "fault \<Rightarrow> bool" where
  "definitiveSMTPReply err = (case f_smtp err of Some c \<Rightarrow> 400 \<le> c \<and> c \<le> 599 | None \<Rightarrow> False)"

definition sendReconciliation :: string where
  "sendReconciliation = ''Check Sent and the recipients before deciding whether to send again.''"

text \<open>Go's integer division truncates towards zero; SMTP reply codes are not negative.\<close>

definition replyClass :: "int \<Rightarrow> int" where
  "replyClass c = (if c < 0 then - ((- c) div 100) else c div 100)"

definition mapSMTPError :: "fault \<Rightarrow> bool \<Rightarrow> bool \<Rightarrow> string \<Rightarrow> goError" where
  "mapSMTPError err ctxDone dataStarted message =
     (if dataStarted \<and> \<not> definitiveSMTPReply err
      then MailErr codeOutcomeUnknown ''message submission outcome is unknown'' False 0 sendReconciliation
      else if f_inboundLimit err \<or> f_tooLongLine err
      then mailError codePayloadTooLarge ''SMTP response exceeded the inbound limit''
      else if f_utf8Unavailable err
      then mailError codeProtocolError
             ''SMTPUTF8 is required for an internationalized address but was not advertised''
      else case f_smtp err of
             Some c \<Rightarrow>
               if replyClass c = 4
               then (if \<not> dataStarted then newRetryableError codeUnavailable message
                     else mailError codeUnavailable message)
               else if c = 535 then mailError codeAuthentication ''SMTP authentication was rejected''
               else if c = 552 then mailError codePayloadTooLarge ''SMTP server rejected the message size''
               else if replyClass c = 5 then mailError codeAuthorization message
               else mailError codeProtocolError message
           | None \<Rightarrow>
               if ctxDone \<or> f_net err = Some True then contextError
               else if \<not> dataStarted then newRetryableError codeUnavailable message
               else mailError codeUnavailable message)"

definition mapSMTPAuthError :: "fault \<Rightarrow> bool \<Rightarrow> goError" where
  "mapSMTPAuthError err ctxDone =
     (if f_inboundLimit err \<or> f_tooLongLine err
      then mailError codePayloadTooLarge ''SMTP response exceeded the inbound limit''
      else if f_authUnavailable err
      then mailError codeProtocolError ''SMTP PLAIN authentication is unavailable after STARTTLS''
      else case f_smtp err of
             Some c \<Rightarrow>
               if replyClass c = 4
               then newRetryableError codeUnavailable ''SMTP authentication is temporarily unavailable''
               else if replyClass c = 5
               then mailError codeAuthentication ''SMTP authentication was rejected''
               else mailError codeProtocolError
                      ''SMTP server returned an unexpected authentication response''
           | None \<Rightarrow>
               if ctxDone then contextError
               else mapSMTPError err ctxDone False ''SMTP authentication failed'')"

section \<open>Preparation\<close>

record sendInput =
  in_to :: "string list"
  in_cc :: "string list"
  in_bcc :: "string list"
  in_subject :: string
  in_body :: string
  in_idempotencyKey :: string
  in_archiveSent :: bool
  in_inReplyTo :: string
  in_references :: "string list"

text \<open>The header fields and the body handed to the message encoder.\<close>

record outgoing =
  og_from :: string
  og_to :: "string list"
  og_cc :: "string list"
  og_messageID :: string
  og_subject :: string
  og_inReplyTo :: "string option"
  og_references :: "string list"
  og_body :: string

record preparedMessage =
  pm_bytes :: bytes
  pm_messageID :: string
  pm_recipients :: "string list"
  pm_smtpUTF8 :: bool

text \<open>
  The libraries of the preparation: the address parser, \<open>crypto/rand\<close> and the encoder
  (\<open>CreateSingleInlineWriter\<close>, \<open>WriteString\<close> and \<open>Close\<close>, whose errors are reported alike).
\<close>

record 'w messageLib =
  ml_parseAddress :: addressParser
  ml_random :: "'w \<Rightarrow> bytes call \<times> 'w"
  ml_encode :: "outgoing \<Rightarrow> 'w \<Rightarrow> bytes call \<times> 'w"

definition containsNonASCII :: "string \<Rightarrow> bool" where
  "containsNonASCII v \<longleftrightarrow> list_ex (\<lambda>c. 0x80 \<le> bval c) v"

fun recipientGroup ::
  "addressParser \<Rightarrow> mailPolicy \<Rightarrow> string \<Rightarrow> string list \<Rightarrow> string list \<Rightarrow> string set
     \<Rightarrow> goError + (string list \<times> string list \<times> string set)" where
  "recipientGroup parseAddress policy name [] recipients seen = Inr ([], recipients, seen)"
| "recipientGroup parseAddress policy name (v # vs) recipients seen =
     (case validateAddrSpec parseAddress v of
        None \<Rightarrow> Inl (mailValidationError (name @ '' contains an invalid plain addr-spec''))
      | Some address \<Rightarrow>
          let key = mailAsciiLower address in
          if key \<in> seen then Inl (mailValidationError ''recipient addresses must be unique'')
          else if \<not> mailAllows policy address
          then Inl (mailError codeAuthorization ''recipient is not permitted by the configured allowlist'')
          else andThen
                 (recipientGroup parseAddress policy name vs (recipients @ [address]) (insert key seen))
                 (\<lambda>(addresses, recipients', seen'). Inr (address # addresses, recipients', seen')))"

text \<open>\<open>strings.LastIndexByte\<close> and the part after it.\<close>

definition domainOf :: "string \<Rightarrow> string" where
  "domainOf address =
     (let after = rev (takeWhile (\<lambda>c. c \<noteq> CHR ''@'') (rev address)) in
      if CHR ''@'' \<in> set address \<and> after \<noteq> [] then after else ''localhost'')"

definition hexBytes :: "bytes \<Rightarrow> string" where
  "hexBytes bs = concat (map (\<lambda>b. [hexDigit lowerHex (bval b div 16), hexDigit lowerHex (bval b)]) bs)"

definition generateMessageID :: "'w messageLib \<Rightarrow> string \<Rightarrow> 'w \<Rightarrow> string call \<times> 'w" where
  "generateMessageID lib address w =
     (case ml_random lib w of (r, w') \<Rightarrow>
        (case r of Panic \<Rightarrow> Panic | Fault e \<Rightarrow> Fault e
         | Done nonce \<Rightarrow> Done (hexBytes nonce @ ''@'' @ domainOf address), w'))"

definition recipientGroups ::
  "addressParser \<Rightarrow> mailPolicy \<Rightarrow> sendInput \<Rightarrow> goError + (string list \<times> string list \<times> string list)" where
  "recipientGroups parse policy input =
     andThen (recipientGroup parse policy ''to'' (in_to input) [] {})
      (\<lambda>(to, recipients, seen).
        andThen (recipientGroup parse policy ''cc'' (in_cc input) recipients seen)
         (\<lambda>(cc, recipients, seen).
           andThen (recipientGroup parse policy ''bcc'' (in_bcc input) recipients seen)
            (\<lambda>(_, recipients, _). Inr (to, cc, recipients))))"

definition validateContent :: "sendInput \<Rightarrow> string list \<Rightarrow> goError option" where
  "validateContent input recipients =
     (if recipients = [] then Some (mailValidationError ''at least one recipient is required'')
      else if maxRecipients < length recipients
      then Some (mailValidationError ''recipient count exceeds 50'')
      else if maxSubjectBytes < length (in_subject input) \<or> \<not> validUTF8 (in_subject input)
           \<or> hasDisallowedControl (in_subject input) False
      then Some (mailValidationError ''subject contains invalid or excessive data'')
      else if maxSendBodyBytes < int (length (in_body input)) \<or> \<not> validUTF8 (in_body input)
           \<or> nul \<in> set (in_body input)
      then Some (mailValidationError ''body contains invalid or excessive data'')
      else validateReplyHeaders (in_inReplyTo input) (in_references input))"

definition outgoingMessage ::
  "mailConfig \<Rightarrow> sendInput \<Rightarrow> string list \<Rightarrow> string list \<Rightarrow> string \<Rightarrow> outgoing" where
  "outgoingMessage config input to cc messageID =
     \<lparr>og_from = mc_address config, og_to = to, og_cc = cc, og_messageID = messageID,
      og_subject = in_subject input,
      og_inReplyTo = (if in_inReplyTo input \<noteq> []
                      then Some (trimBytes (in_inReplyTo input) ''<>'') else None),
      og_references = map (\<lambda>reference. trimBytes reference ''<>'') (in_references input),
      og_body = in_body input\<rparr>"

definition buildMessage ::
  "'w messageLib \<Rightarrow> mailConfig \<Rightarrow> sendInput \<Rightarrow> 'w \<Rightarrow> (goError + preparedMessage) call \<times> 'w" where
  "buildMessage lib config input w =
     (case recipientGroups (ml_parseAddress lib) (mc_recipientPolicy config) input of
        Inl e \<Rightarrow> (Done (Inl e), w)
      | Inr (to, cc, recipients) \<Rightarrow>
          (case validateContent input recipients of
             Some e \<Rightarrow> (Done (Inl e), w)
           | None \<Rightarrow>
               (case generateMessageID lib (mc_address config) w of (idr, w1) \<Rightarrow>
                case idr of
                  Panic \<Rightarrow> (Panic, w1)
                | Fault _ \<Rightarrow>
                    (Done (Inl (mailError codeInternal ''could not generate a message identifier'')), w1)
                | Done messageID \<Rightarrow>
                    (case ml_encode lib (outgoingMessage config input to cc messageID) w1 of (enc, w2) \<Rightarrow>
                     case enc of
                       Panic \<Rightarrow> (Panic, w2)
                     | Fault _ \<Rightarrow>
                         (Done (Inl (mailError codeInternal ''could not encode the message'')), w2)
                     | Done buffer \<Rightarrow>
                         if maxEncodedMessage < int (length buffer)
                         then (Done (Inl (mailError codePayloadTooLarge ''encoded message exceeds 256 KiB'')), w2)
                         else (Done (Inr \<lparr>pm_bytes = buffer, pm_messageID = messageID,
                                 pm_recipients = recipients,
                                 pm_smtpUTF8 = (containsNonASCII (mc_address config)
                                   \<or> list_ex containsNonASCII recipients)\<rparr>), w2)))))"

section \<open>Submission\<close>

definition sendAccepted :: string where "sendAccepted = ''accepted''"
definition sendRejected :: string where "sendRejected = ''rejected''"
definition sendOutcomeUnknown :: string where "sendOutcomeUnknown = ''outcome_unknown''"

record recipientStatus =
  rs_index :: nat
  rs_accepted :: bool
  rs_category :: string

record sendResult =
  so_status :: string
  so_messageID :: string
  so_recipients :: "recipientStatus list"
  so_archivalStatus :: string
  so_sentDestination :: string
  so_archivalError :: string
  so_sentCopyUnavailable :: bool
  so_reconciliation :: string

definition emptySendResult :: sendResult where
  "emptySendResult = \<lparr>so_status = [], so_messageID = [], so_recipients = [], so_archivalStatus = [],
     so_sentDestination = [], so_archivalError = [], so_sentCopyUnavailable = False,
     so_reconciliation = []\<rparr>"

text \<open>
  The submission side of the environment. \<open>sv_closeConn\<close> is the plain \<open>conn.Close()\<close>, which may panic;
  \<open>sv_safeCloseConn\<close> and \<open>sv_safeCloseSession\<close> recover.
\<close>

record 'w smtpEnv =
  sv_mail :: "'w mailEnv"
  sv_lib :: "'w messageLib"
  sv_dial :: "'w \<Rightarrow> unit call \<times> 'w"
  sv_factory :: "'w \<Rightarrow> unit call \<times> 'w"
  sv_session :: "'w smtpSession"
  sv_closeConn :: "'w \<Rightarrow> unit call \<times> 'w"
  sv_safeCloseConn :: "'w \<Rightarrow> 'w"
  sv_safeCloseSession :: "'w \<Rightarrow> 'w"

definition unknownSMTPOutcome :: "sendResult \<Rightarrow> sendResult \<times> goError" where
  "unknownSMTPOutcome result =
     (result\<lparr>so_status := sendOutcomeUnknown, so_reconciliation := sendReconciliation\<rparr>,
      MailErr codeOutcomeUnknown ''message submission outcome is unknown'' False 0 sendReconciliation)"

definition panicError :: goError where
  "panicError = mailError codeProtocolError ''SMTP parser returned an unsafe protocol response''"

text \<open>The recovering function of \<open>sendOnce\<close>, from the result so far and \<open>dataPhase.started\<close>.\<close>

definition recoverSend :: "sendResult \<Rightarrow> bool \<Rightarrow> sendResult \<times> goError option" where
  "recoverSend result started =
     (if so_status result = sendAccepted then (result, None)
      else if started then (case unknownSMTPOutcome result of (r, e) \<Rightarrow> (r, Some e))
      else (result\<lparr>so_status := sendRejected\<rparr>, Some panicError))"

text \<open>How the submission over an open session ends: it returns, or it panics.\<close>

datatype submission =
    Returned sendResult "goError option"
  | Panicked sendResult bool

fun rcptLoop ::
  "'w smtpSession \<Rightarrow> string list \<Rightarrow> nat \<Rightarrow> recipientStatus list \<Rightarrow> fault option \<Rightarrow> 'w
     \<Rightarrow> (recipientStatus list \<times> (fault option + fault) option) \<times> 'w" where
  "rcptLoop session [] index statuses firstRejection w = ((statuses, Some (Inl firstRejection)), w)"
| "rcptLoop session (recipient # rest) index statuses firstRejection w =
     (case sm_rcpt session recipient w of (r, w') \<Rightarrow>
      case r of
        Panic \<Rightarrow> ((statuses, None), w')
      | Done _ \<Rightarrow>
          rcptLoop session rest (index + 1)
            (statuses @ [\<lparr>rs_index = index, rs_accepted = True, rs_category = []\<rparr>]) firstRejection w'
      | Fault err \<Rightarrow>
          let statuses' = statuses @ [\<lparr>rs_index = index, rs_accepted = False, rs_category = ''rejected''\<rparr>];
              first = (case firstRejection of None \<Rightarrow> Some err | Some e \<Rightarrow> Some e) in
          if \<not> definitiveSMTPReply err
          then ((statuses' @ map (\<lambda>i. \<lparr>rs_index = i, rs_accepted = False,
                   rs_category = ''not_attempted''\<rparr>) [index + 1 ..< index + 1 + length rest],
                 Some (Inr err)), w')
          else rcptLoop session rest (index + 1) statuses' first w')"

text \<open>
  The loop over the recipients: \<open>None\<close> is a panic, \<open>Inl\<close> the first rejection if there was one, \<open>Inr\<close>
  the error that is not a definitive reply and stops the loop.
\<close>

definition archivalErrorOf :: "fault option \<Rightarrow> string" where
  "archivalErrorOf err =
     (case err of
        None \<Rightarrow> []
      | Some e \<Rightarrow> (case f_mail e of Some public \<Rightarrow> me_code public | None \<Rightarrow> ''archive_failed''))"

definition afterData ::
  "'w smtpEnv \<Rightarrow> mailClient \<Rightarrow> sendInput \<Rightarrow> preparedMessage \<Rightarrow> sendResult \<Rightarrow> 'w \<Rightarrow> submission \<times> 'w" where
  "afterData env client input prepared result w =
     (let accepted = result\<lparr>so_status := sendAccepted, so_sentCopyUnavailable := True\<rparr> in
      if in_archiveSent input
      then case archiveSent (sv_mail env) client (pm_bytes prepared) w of (r, w') \<Rightarrow>
        (case r of
           Done (status, destination, err) \<Rightarrow>
             let filed = accepted\<lparr>so_archivalStatus := status, so_sentDestination := destination\<rparr> in
             (Returned
               (if status = archivalStored then filed\<lparr>so_sentCopyUnavailable := False\<rparr>
                else filed\<lparr>so_archivalError := archivalErrorOf err\<rparr>) None, w')
         | _ \<Rightarrow> (Panicked accepted True, w'))
      else (Returned (if mc_enableSentCopy (cl_config client)
                      then accepted\<lparr>so_archivalStatus := archivalNotAttempted\<rparr> else accepted) None, w))"

definition resetThen :: "'w smtpEnv \<Rightarrow> sendResult \<Rightarrow> fault \<Rightarrow> string \<Rightarrow> 'w \<Rightarrow> submission \<times> 'w" where
  "resetThen env result err message w =
     (case sm_reset (sv_session env) w of (r, w') \<Rightarrow>
        (case r of
           Panic \<Rightarrow> Panicked result False
         | _ \<Rightarrow> Returned result (Some (mapSMTPError err (me_ctxDone (sv_mail env) w') False message)), w'))"

definition submitData ::
  "'w smtpEnv \<Rightarrow> mailClient \<Rightarrow> sendInput \<Rightarrow> preparedMessage \<Rightarrow> sendResult \<Rightarrow> 'w \<Rightarrow> submission \<times> 'w" where
  "submitData env client input prepared result w =
     (case sm_data (sv_session env) (pm_bytes prepared) w of ((started, r), w') \<Rightarrow>
      case r of
        Panic \<Rightarrow> (Panicked result started, w')
      | Done _ \<Rightarrow> afterData env client input prepared result w'
      | Fault err \<Rightarrow>
          (if started \<and> \<not> definitiveSMTPReply err
           then (case unknownSMTPOutcome result of (r, e) \<Rightarrow> Returned r (Some e))
           else Returned result (Some (mapSMTPError err (me_ctxDone (sv_mail env) w') started
                  (if started then ''message data was rejected'' else ''DATA command failed''))), w'))"

definition submit ::
  "'w smtpEnv \<Rightarrow> mailClient \<Rightarrow> sendInput \<Rightarrow> preparedMessage \<Rightarrow> sendResult \<Rightarrow> 'w \<Rightarrow> submission \<times> 'w" where
  "submit env client input prepared result w =
     (let session = sv_session env; config = cl_config client; done = me_ctxDone (sv_mail env) in
      case sm_auth session (mc_address config) (mc_password config) w of (authed, w1) \<Rightarrow>
      (case authed of
         Panic \<Rightarrow> (Panicked result False, w1)
       | Fault err \<Rightarrow> (Returned result (Some (mapSMTPAuthError err (done w1))), w1)
       | Done _ \<Rightarrow>
           (case sm_mail session (mc_address config) (length (pm_bytes prepared)) (pm_smtpUTF8 prepared) w1
            of (mailed, w2) \<Rightarrow>
            case mailed of
              Panic \<Rightarrow> (Panicked result False, w2)
            | Fault err \<Rightarrow>
                (Returned result (Some (mapSMTPError err (done w2) False ''envelope sender was rejected'')), w2)
            | Done _ \<Rightarrow>
                (case rcptLoop session (pm_recipients prepared) 0 [] None w2 of ((statuses, ended), w3) \<Rightarrow>
                 let result' = result\<lparr>so_recipients := statuses\<rparr> in
                 case ended of
                   None \<Rightarrow> (Panicked result' False, w3)
                 | Some (Inr err) \<Rightarrow> resetThen env result' err ''recipient command failed'' w3
                 | Some (Inl (Some err)) \<Rightarrow>
                     resetThen env result' err ''one or more recipients were rejected'' w3
                 | Some (Inl None) \<Rightarrow> submitData env client input prepared result' w3))))"

text \<open>
  The deferred calls after the session was opened: close the session, release the semaphore, and
  on a panic close the connection in the recovering function.
\<close>

definition endSubmission :: "'w smtpEnv \<Rightarrow> submission \<times> 'w \<Rightarrow> (sendResult \<times> goError option) \<times> 'w" where
  "endSubmission env ended =
     (case ended of (s, w) \<Rightarrow>
        let w' = me_release (sv_mail env) SendLimiter (sv_safeCloseSession env w) in
        (case s of
           Returned r e \<Rightarrow> ((r, e), w')
         | Panicked r started \<Rightarrow> (recoverSend r started, sv_safeCloseConn env w')))"

definition connectAndSubmit ::
  "'w smtpEnv \<Rightarrow> mailClient \<Rightarrow> sendInput \<Rightarrow> preparedMessage \<Rightarrow> 'w \<Rightarrow> (sendResult \<times> goError option) \<times> 'w" where
  "connectAndSubmit env client input prepared w =
     (let result = emptySendResult\<lparr>so_status := sendRejected, so_messageID := pm_messageID prepared\<rparr>;
          release = me_release (sv_mail env) SendLimiter;
          done = me_ctxDone (sv_mail env) in
      case sv_dial env w of (dialed, w1) \<Rightarrow>
      (case dialed of
         Panic \<Rightarrow> (recoverSend result False, release w1)
       | Fault err \<Rightarrow>
           ((result, Some (mapSMTPError err (done w1) False ''submission connection failed'')), release w1)
       | Done _ \<Rightarrow>
           (case sv_factory env w1 of (made, w2) \<Rightarrow>
            case made of
              Panic \<Rightarrow> (recoverSend result False, sv_safeCloseConn env (release w2))
            | Fault err \<Rightarrow>
                (case sv_closeConn env w2 of (closed, w3) \<Rightarrow>
                 case closed of
                   Panic \<Rightarrow> (recoverSend result False, sv_safeCloseConn env (release w3))
                 | _ \<Rightarrow> ((result, Some (mapSMTPError err (done w3) False ''STARTTLS negotiation failed'')),
                         release w3))
            | Done _ \<Rightarrow> endSubmission env (submit env client input prepared result w2))))"

definition sendOnce ::
  "'w smtpEnv \<Rightarrow> mailClient \<Rightarrow> sendInput \<Rightarrow> 'w \<Rightarrow> (sendResult \<times> goError option) \<times> 'w" where
  "sendOnce env client input w =
     (if \<not> cl_sendEnabled client
      then ((emptySendResult, Some (mailError codeAuthorization ''mail send is disabled'')), w)
      else if in_archiveSent input \<and> \<not> mc_enableSentCopy (cl_config client)
      then ((emptySendResult, Some (mailValidationError ''Sent-copy archival is not enabled'')), w)
      else case buildMessage (sv_lib env) (cl_config client) input w of (built, w1) \<Rightarrow>
        (case built of
           Done (Inr prepared) \<Rightarrow>
             (case me_allow (sv_mail env) SendLimiter w1 of (allowed, w2) \<Rightarrow>
              if \<not> allowed
              then ((emptySendResult,
                     Some (newRetryableError codeRateLimited ''local mail send rate limit reached'')), w2)
              else case mailAcquire (sv_mail env) SendLimiter w2 of (denied, w3) \<Rightarrow>
                (case denied of
                   Some e \<Rightarrow> ((emptySendResult, Some e), w3)
                 | None \<Rightarrow> connectAndSubmit env client input prepared w3))
         | Done (Inl e) \<Rightarrow> ((emptySendResult\<lparr>so_status := sendRejected\<rparr>, Some e), w1)
         | _ \<Rightarrow> (recoverSend emptySendResult False, w1)))"

section \<open>Recorded submissions\<close>

datatype smtpEvent =
    EvAuth string
  | EvMailFrom string
  | EvRcpt string "unit call"
  | EvReset
  | EvData bytes bool "unit call"

text \<open>An environment that records the SMTP commands and nothing else.\<close>

locale smtp_log =
  fixes env :: "'w smtpEnv" and logOf :: "'w \<Rightarrow> smtpEvent list"
  assumes auth_log: "logOf (snd (sm_auth (sv_session env) a p w)) = logOf w @ [EvAuth a]"
    and mail_log: "logOf (snd (sm_mail (sv_session env) a n b w)) = logOf w @ [EvMailFrom a]"
    and rcpt_log: "logOf (snd (sm_rcpt (sv_session env) a w)) =
      logOf w @ [EvRcpt a (fst (sm_rcpt (sv_session env) a w))]"
    and reset_log: "logOf (snd (sm_reset (sv_session env) w)) = logOf w @ [EvReset]"
    and data_log: "logOf (snd (sm_data (sv_session env) x w)) =
      logOf w @ [EvData x (fst (fst (sm_data (sv_session env) x w)))
                          (snd (fst (sm_data (sv_session env) x w)))]"
    and dial_log: "logOf (snd (sv_dial env w)) = logOf w"
    and factory_log: "logOf (snd (sv_factory env w)) = logOf w"
    and closeConn_log: "logOf (snd (sv_closeConn env w)) = logOf w"
    and safeCloseConn_log: "logOf (sv_safeCloseConn env w) = logOf w"
    and safeCloseSession_log: "logOf (sv_safeCloseSession env w) = logOf w"
    and release_log: "logOf (me_release (sv_mail env) l w) = logOf w"
    and allow_log: "logOf (snd (me_allow (sv_mail env) l w)) = logOf w"
    and acquire_log: "logOf (snd (me_acquire (sv_mail env) l w)) = logOf w"
    and random_log: "logOf (snd (ml_random (sv_lib env) w)) = logOf w"
    and encode_log: "logOf (snd (ml_encode (sv_lib env) o1 w)) = logOf w"
    and archive_log: "logOf (snd (archiveSent (sv_mail env) client x w)) = logOf w"

text \<open>The recording of any environment.\<close>

definition recordSMTPSession :: "'w smtpSession \<Rightarrow> ('w \<times> smtpEvent list) smtpSession" where
  "recordSMTPSession session =
     \<lparr>sm_auth = (\<lambda>a p. loggedCall (\<lambda>_. EvAuth a) (sm_auth session a p)),
      sm_mail = (\<lambda>a n b. loggedCall (\<lambda>_. EvMailFrom a) (sm_mail session a n b)),
      sm_rcpt = (\<lambda>a. loggedCall (EvRcpt a) (sm_rcpt session a)),
      sm_reset = loggedCall (\<lambda>_. EvReset) (sm_reset session),
      sm_data = (\<lambda>x. loggedCall (\<lambda>r. EvData x (fst r) (snd r)) (sm_data session x))\<rparr>"

definition quietSession :: "'w imapSession \<Rightarrow> ('w \<times> 'e list) imapSession" where
  "quietSession session =
     \<lparr>ss_capabilities = ss_capabilities session \<circ> fst,
      ss_supportsConditionalStore = ss_supportsConditionalStore session \<circ> fst,
      ss_list = quietCall (ss_list session),
      ss_select = (\<lambda>m b. quietCall (ss_select session m b)),
      ss_search = (\<lambda>rq. quietCall (ss_search session rq)),
      ss_fetchMetadata = (\<lambda>u h. quietCall (ss_fetchMetadata session u h)),
      ss_fetchBodyPart = (\<lambda>u p. quietCall (ss_fetchBodyPart session u p)),
      ss_storeDelta = (\<lambda>u a f. quietCall (ss_storeDelta session u a f)),
      ss_conditionalStoreDelta = (\<lambda>u a f q. quietCall (ss_conditionalStoreDelta session u a f q)),
      ss_fetchFlags = (\<lambda>u. quietCall (ss_fetchFlags session u)),
      ss_nativeMove = (\<lambda>u d. quietCall (ss_nativeMove session u d)),
      ss_appendSent = (\<lambda>m x. quietCall (ss_appendSent session m x)),
      ss_copy = (\<lambda>u d. quietCall (ss_copy session u d)),
      ss_addDeleted = (\<lambda>u. quietCall (ss_addDeleted session u)),
      ss_uidExpunge = (\<lambda>u. quietCall (ss_uidExpunge session u))\<rparr>"

definition quietEnv :: "'w mailEnv \<Rightarrow> ('w \<times> 'e list) mailEnv" where
  "quietEnv env =
     \<lparr>me_allow = (\<lambda>l. quietCall (me_allow env l)), me_acquire = (\<lambda>l. quietCall (me_acquire env l)),
      me_release = (\<lambda>l s. (me_release env l (fst s), snd s)),
      me_ctxDone = me_ctxDone env \<circ> fst, me_callerDone = me_callerDone env \<circ> fst,
      me_imapDial = quietCall (me_imapDial env),
      me_imapFactory = (\<lambda>a p. quietCall (me_imapFactory env a p)),
      me_closeConn = (\<lambda>s. (me_closeConn env (fst s), snd s)),
      me_closeSession = quietCall (me_closeSession env),
      me_session = quietSession (me_session env)\<rparr>"

definition recordSMTP :: "'w smtpEnv \<Rightarrow> ('w \<times> smtpEvent list) smtpEnv" where
  "recordSMTP env =
     \<lparr>sv_mail = quietEnv (sv_mail env),
      sv_lib = \<lparr>ml_parseAddress = ml_parseAddress (sv_lib env),
                ml_random = quietCall (ml_random (sv_lib env)),
                ml_encode = (\<lambda>x. quietCall (ml_encode (sv_lib env) x))\<rparr>,
      sv_dial = quietCall (sv_dial env), sv_factory = quietCall (sv_factory env),
      sv_session = recordSMTPSession (sv_session env),
      sv_closeConn = quietCall (sv_closeConn env),
      sv_safeCloseConn = (\<lambda>s. (sv_safeCloseConn env (fst s), snd s)),
      sv_safeCloseSession = (\<lambda>s. (sv_safeCloseSession env (fst s), snd s))\<rparr>"

lemma quietCall_snd [simp]: "snd (snd (quietCall f s)) = snd s"
  by (simp add: quietCall_def case_prod_unfold)

lemma opTry_quiet_snd: "snd (snd (snd (opTry (opCall (quietCall f)) s))) = snd (snd s)"
  by (cases s) (auto simp: opTry_def opCall_def quietCall_def split: prod.splits call.splits)

lemma opBind_quiet_snd:
  assumes "\<And>s. snd (snd (snd (m s))) = snd (snd s)" and "\<And>a s. snd (snd (snd (f a s))) = snd (snd s)"
  shows "snd (snd (snd (opBind m f s))) = snd (snd s)"
  using assms(1) [of s] assms(2) by (auto simp: opBind_def split: prod.splits call.splits)

lemma appendOutcome_quiet:
  "snd (snd (snd (appendOutcome (quietSession session) config message s))) = snd (snd s)"
  unfolding appendOutcome_def
  by (rule opBind_quiet_snd)
    (auto simp: quietSession_def opTry_quiet_snd Let_def opReturn_def intro!: opBind_quiet_snd
      split: sum.splits)

lemma archiveSent_quiet: "snd (snd (archiveSent (quietEnv env) client message s)) = snd s"
proof -
  obtain r1 s1 where 1: "me_imapDial (quietEnv env) s = (r1, s1)" by (rule prod.exhaust)
  obtain r2 s2 where 2: "me_imapFactory (quietEnv env) (mc_address (cl_config client))
      (mc_password (cl_config client)) s1 = (r2, s2)" by (rule prod.exhaust)
  obtain r3 d s3 where 3: "appendOutcome (quietSession (me_session env)) (cl_config client) message
      (False, s2) = (r3, d, s3)" by (cases "appendOutcome (quietSession (me_session env))
        (cl_config client) message (False, s2)") auto
  have "snd s1 = snd s" "snd s2 = snd s1"
    using arg_cong [OF 1, of "snd \<circ> snd"] arg_cong [OF 2, of "snd \<circ> snd"] by (simp_all add: quietEnv_def)
  moreover have "snd s3 = snd s2"
    using appendOutcome_quiet [of "me_session env" "cl_config client" message "(False, s2)"] 3 by simp
  ultimately show ?thesis
    using 1 2 3 by (cases r1; cases r2)
      (auto simp: archiveSent_def quietEnv_def quietCall_def split: prod.splits)
qed

interpretation smtp: smtp_log "recordSMTP env" snd
  by unfold_locales
    (simp_all add: recordSMTP_def recordSMTPSession_def loggedCall_def case_prod_unfold
      archiveSent_quiet, simp_all add: quietEnv_def)

section \<open>What a submission sends and reports\<close>

text \<open>The events are \<open>RCPT\<close> commands for the first recipients, in order.\<close>

fun rcptPrefix :: "string list \<Rightarrow> smtpEvent list \<Rightarrow> bool" where
  "rcptPrefix rs [] = True"
| "rcptPrefix (r # rs) (EvRcpt a c # es) = (a = r \<and> rcptPrefix rs es)"
| "rcptPrefix _ _ = False"

fun acceptedRcpt :: "smtpEvent \<Rightarrow> bool" where
  "acceptedRcpt (EvRcpt a (Done _)) = True"
| "acceptedRcpt _ = False"

text \<open>
  The commands of one submission: nothing, or authentication, or also the sender and a prefix of
  the recipients, after which the transaction is left, reset, or, when every recipient was
  accepted, completed with one \<open>DATA\<close>.
\<close>

definition submissionLog :: "string \<Rightarrow> string list \<Rightarrow> bytes \<Rightarrow> smtpEvent list \<Rightarrow> bool" where
  "submissionLog from recipients x evs \<longleftrightarrow>
     evs = [] \<or> evs = [EvAuth from]
     \<or> (\<exists>rs tail. evs = [EvAuth from, EvMailFrom from] @ rs @ tail \<and> rcptPrefix recipients rs
          \<and> (tail = [] \<or> tail = [EvReset]
             \<or> (\<exists>started r. tail = [EvData x started r] \<and> length rs = length recipients
                  \<and> list_all acceptedRcpt rs)))"

text \<open>What the end of \<open>DATA\<close> says about the message.\<close>

definition dataVerdict :: "bool \<Rightarrow> unit call \<Rightarrow> string" where
  "dataVerdict started r =
     (case r of
        Done _ \<Rightarrow> sendAccepted
      | Fault e \<Rightarrow> if started \<and> \<not> definitiveSMTPReply e then sendOutcomeUnknown else sendRejected
      | Panic \<Rightarrow> if started then sendOutcomeUnknown else sendRejected)"

definition verdict :: "smtpEvent list \<Rightarrow> string" where
  "verdict evs =
     (if evs = [] then sendRejected
      else case last evs of EvData x started r \<Rightarrow> dataVerdict started r | _ \<Rightarrow> sendRejected)"

definition unknownError :: goError where
  "unknownError = MailErr codeOutcomeUnknown ''message submission outcome is unknown'' False 0
     sendReconciliation"

text \<open>The report agrees with the verdict.\<close>

definition truthful :: "sendResult \<Rightarrow> goError option \<Rightarrow> string \<Rightarrow> bool" where
  "truthful result err v \<longleftrightarrow>
     so_status result = v \<and> (err = None \<longleftrightarrow> v = sendAccepted)
     \<and> (err = Some unknownError \<longleftrightarrow> v = sendOutcomeUnknown)"

lemma verdict_names [simp]:
  "sendAccepted \<noteq> sendRejected" "sendRejected \<noteq> sendAccepted" "sendAccepted \<noteq> sendOutcomeUnknown"
  "sendOutcomeUnknown \<noteq> sendAccepted" "sendRejected \<noteq> sendOutcomeUnknown"
  "sendOutcomeUnknown \<noteq> sendRejected"
  by (simp_all add: sendAccepted_def sendRejected_def sendOutcomeUnknown_def)

lemma other_errors [simp]:
  "newRetryableError c m \<noteq> unknownError" "contextError \<noteq> unknownError" "panicError \<noteq> unknownError"
  "mailError c m \<noteq> unknownError" "mailValidationError m \<noteq> unknownError"
  by (simp_all add: unknownError_def newRetryableError_def contextError_def panicError_def
      mailError_def mailValidationError_def sendReconciliation_def)

lemma mapSMTPError_known: "\<not> dataStarted \<or> definitiveSMTPReply err \<Longrightarrow>
    mapSMTPError err c dataStarted m \<noteq> unknownError"
  by (auto simp: mapSMTPError_def split: option.splits)

lemma mapSMTPAuthError_known [simp]: "mapSMTPAuthError err c \<noteq> unknownError"
  using mapSMTPError_known [of False err]
  by (auto simp: mapSMTPAuthError_def split: option.splits)

lemma truthful_rejected:
  "so_status result = sendRejected \<Longrightarrow> e \<noteq> unknownError \<Longrightarrow> truthful result (Some e) sendRejected"
  by (auto simp: truthful_def)

lemma truthful_recover:
  assumes "so_status result = sendRejected"
  shows "case recoverSend result started of (r, e) \<Rightarrow>
    truthful r e (if started then sendOutcomeUnknown else sendRejected)"
  using assms by (auto simp: recoverSend_def unknownSMTPOutcome_def truthful_def unknownError_def [symmetric])

lemma rcptPrefix_last: "rcptPrefix rs (es @ [e]) \<Longrightarrow> \<exists>a c. e = EvRcpt a c"
  by (induction rs es rule: rcptPrefix.induct) (auto elim: rcptPrefix.elims)

text \<open>The end of a submission, with the recovering function applied to a panic.\<close>

definition reported :: "submission \<Rightarrow> sendResult \<times> goError option" where
  "reported ended = (case ended of Returned r e \<Rightarrow> (r, e) | Panicked r started \<Rightarrow> recoverSend r started)"

context smtp_log
begin

lemma rcptLoop_log:
  "rcptLoop (sv_session env) rs i st firstRejection w = ((st', ended), w') \<Longrightarrow>
     \<exists>evs. logOf w' = logOf w @ evs \<and> rcptPrefix rs evs
       \<and> (ended = Some (Inl None) \<longrightarrow>
            firstRejection = None \<and> length evs = length rs \<and> list_all acceptedRcpt evs)"
proof (induction rs arbitrary: i st firstRejection w)
  case (Cons a rs)
  obtain r w1 where r: "sm_rcpt (sv_session env) a w = (r, w1)" by fastforce
  have l: "logOf w1 = logOf w @ [EvRcpt a r]" using rcpt_log [of a w] r by simp
  show ?case
  proof (cases r)
    case (Done x)
    with Cons.prems r obtain st1 where
      "rcptLoop (sv_session env) rs (i + 1) st1 firstRejection w1 = ((st', ended), w')" by auto
    from Cons.IH [OF this] obtain evs where "logOf w' = logOf w1 @ evs" "rcptPrefix rs evs"
      "ended = Some (Inl None) \<longrightarrow> firstRejection = None \<and> length evs = length rs
         \<and> list_all acceptedRcpt evs" by blast
    with l Done show ?thesis by (intro exI [of _ "EvRcpt a r # evs"]) auto
  next
    case (Fault err)
    show ?thesis
    proof (cases "definitiveSMTPReply err")
      case False
      with Fault Cons.prems r l show ?thesis
        by (intro exI [of _ "[EvRcpt a r]"]) (auto simp: Let_def)
    next
      case True
      with Fault Cons.prems r obtain st1 e where
        "rcptLoop (sv_session env) rs (i + 1) st1 (Some e) w1 = ((st', ended), w')"
        by (auto simp: Let_def split: option.splits)
      from Cons.IH [OF this] obtain evs where "logOf w' = logOf w1 @ evs" "rcptPrefix rs evs"
        "ended \<noteq> Some (Inl None)" by blast
      with l show ?thesis by (intro exI [of _ "EvRcpt a r # evs"]) auto
    qed
  next
    case Panic
    with Cons.prems r l show ?thesis by (intro exI [of _ "[EvRcpt a r]"]) auto
  qed
qed auto

lemma submitData_log:
  assumes "submitData env client input prepared result w = (ended, w')"
    and "so_status result = sendRejected"
  shows "\<exists>started r. logOf w' = logOf w @ [EvData (pm_bytes prepared) started r]
    \<and> truthful (fst (reported ended)) (snd (reported ended)) (dataVerdict started r)"
proof -
  obtain started r w1 where r: "sm_data (sv_session env) (pm_bytes prepared) w = ((started, r), w1)"
    by (metis surj_pair)
  have l: "logOf w1 = logOf w @ [EvData (pm_bytes prepared) started r]"
    using data_log [of "pm_bytes prepared" w] r by simp
  show ?thesis
  proof (cases r)
    case (Done u)
    obtain a w2 where a: "archiveSent (sv_mail env) client (pm_bytes prepared) w1 = (a, w2)" by fastforce
    have "logOf w2 = logOf w1" using archive_log [of client "pm_bytes prepared" w1] a by simp
    with l a r Done assms(1) show ?thesis
      by (intro exI [of _ started] exI [of _ r])
        (cases a; auto simp: submitData_def afterData_def Let_def truthful_def dataVerdict_def
          recoverSend_def reported_def split: if_splits)
  next
    case (Fault err)
    with l r assms mapSMTPError_known [of started err] show ?thesis
      by (intro exI [of _ started] exI [of _ r])
        (auto simp: submitData_def unknownSMTPOutcome_def dataVerdict_def truthful_def reported_def
          unknownError_def [symmetric])
  next
    case Panic
    with l r assms truthful_recover [of result started] show ?thesis
      by (intro exI [of _ started] exI [of _ r])
        (auto simp: submitData_def dataVerdict_def reported_def case_prod_unfold)
  qed
qed

lemma resetThen_log:
  assumes "resetThen env result err m w = (ended, w')" and "so_status result = sendRejected"
  shows "logOf w' = logOf w @ [EvReset]"
    "truthful (fst (reported ended)) (snd (reported ended)) sendRejected"
proof -
  obtain r w1 where r: "sm_reset (sv_session env) w = (r, w1)" by fastforce
  have "logOf w1 = logOf w @ [EvReset]" using reset_log [of w] r by simp
  with r assms(1) show "logOf w' = logOf w @ [EvReset]" by (simp add: resetThen_def)
  show "truthful (fst (reported ended)) (snd (reported ended)) sendRejected"
    using r assms truthful_recover [of result False] mapSMTPError_known [of False err]
    by (cases r) (auto simp: resetThen_def reported_def truthful_def case_prod_unfold)
qed

lemma submit_log:
  assumes run: "submit env client input prepared result w = (ended, w')"
    and rejected: "so_status result = sendRejected"
  shows "\<exists>evs. logOf w' = logOf w @ evs
    \<and> submissionLog (mc_address (cl_config client)) (pm_recipients prepared) (pm_bytes prepared) evs
    \<and> truthful (fst (reported ended)) (snd (reported ended)) (verdict evs)"
proof -
  let ?from = "mc_address (cl_config client)" and ?S = "sv_session env"
  obtain r1 w1 where 1: "sm_auth ?S ?from (mc_password (cl_config client)) w = (r1, w1)" by fastforce
  have l1: "logOf w1 = logOf w @ [EvAuth ?from]"
    using auth_log [of ?from "mc_password (cl_config client)" w] 1 by simp
  note rec = truthful_recover [OF rejected, of False, simplified]
  show ?thesis
  proof (cases "r1 = Done ()")
    case False
    with run 1 l1 rec rejected show ?thesis
      by (intro exI [of _ "[EvAuth ?from]"])
        (cases r1; auto simp: submit_def Let_def submissionLog_def verdict_def reported_def
          case_prod_unfold truthful_rejected)
  next
    case ok1: True
    obtain r2 w2 where 2: "sm_mail ?S ?from (length (pm_bytes prepared)) (pm_smtpUTF8 prepared) w1 = (r2, w2)"
      by fastforce
    have l2: "logOf w2 = logOf w @ [EvAuth ?from, EvMailFrom ?from]"
      using mail_log [of ?from "length (pm_bytes prepared)" "pm_smtpUTF8 prepared" w1] 2 l1 by simp
    show ?thesis
    proof (cases "r2 = Done ()")
      case False
      with run 1 2 ok1 l2 rec rejected show ?thesis
        by (intro exI [of _ "[EvAuth ?from, EvMailFrom ?from]"])
          (cases r2; auto simp: submit_def Let_def submissionLog_def verdict_def reported_def
            case_prod_unfold truthful_rejected mapSMTPError_known)
    next
      case ok2: True
      obtain st stop w3 where 3: "rcptLoop ?S (pm_recipients prepared) 0 [] None w2 = ((st, stop), w3)"
        by (metis surj_pair)
      from rcptLoop_log [OF 3] obtain rs where rs: "logOf w3 = logOf w2 @ rs"
        "rcptPrefix (pm_recipients prepared) rs"
        "stop = Some (Inl None) \<longrightarrow> length rs = length (pm_recipients prepared) \<and> list_all acceptedRcpt rs"
        by blast
      define result' where "result' = result\<lparr>so_recipients := st\<rparr>"
      have rejected': "so_status result' = sendRejected" using rejected by (simp add: result'_def)
      have shape: "submissionLog ?from (pm_recipients prepared) (pm_bytes prepared)
          ([EvAuth ?from, EvMailFrom ?from] @ rs @ tail)"
        if "tail = [] \<or> tail = [EvReset] \<or> (\<exists>b r. tail = [EvData (pm_bytes prepared) b r]
              \<and> stop = Some (Inl None))" for tail
        using that rs(2,3) unfolding submissionLog_def by blast
      have step: "submit env client input prepared result w =
        (case stop of
           None \<Rightarrow> (Panicked result' False, w3)
         | Some (Inr err) \<Rightarrow> resetThen env result' err ''recipient command failed'' w3
         | Some (Inl (Some err)) \<Rightarrow> resetThen env result' err ''one or more recipients were rejected'' w3
         | Some (Inl None) \<Rightarrow> submitData env client input prepared result' w3)"
        unfolding result'_def by (simp add: submit_def Let_def 1 2 3 ok1 ok2)
      consider "stop = None" | err m where "resetThen env result' err m w3 = (ended, w')"
        | "stop = Some (Inl None)"
        using run step by (auto split: option.splits sum.splits)
      then show ?thesis
      proof cases
        case 1
        have "verdict ([EvAuth ?from, EvMailFrom ?from] @ rs) = sendRejected"
          using rs(2) by (cases rs rule: rev_cases)
            (auto simp: verdict_def split: smtpEvent.splits dest: rcptPrefix_last)
        with 1 run step rs(1) l2 shape [of "[]"] truthful_recover [OF rejected', of False] show ?thesis
          by (intro exI [of _ "[EvAuth ?from, EvMailFrom ?from] @ rs"])
            (auto simp: reported_def case_prod_unfold)
      next
        case 2
        from resetThen_log [OF 2 rejected'] rs(1) l2 shape [of "[EvReset]"] show ?thesis
          by (intro exI [of _ "[EvAuth ?from, EvMailFrom ?from] @ rs @ [EvReset]"])
            (auto simp: verdict_def)
      next
        case 3
        with run step have "submitData env client input prepared result' w3 = (ended, w')" by simp
        from submitData_log [OF this rejected'] obtain b r where
          "logOf w' = logOf w3 @ [EvData (pm_bytes prepared) b r]"
          "truthful (fst (reported ended)) (snd (reported ended)) (dataVerdict b r)" by blast
        with rs(1) l2 shape [of "[EvData (pm_bytes prepared) b r]"] 3 show ?thesis
          by (intro exI [of _ "[EvAuth ?from, EvMailFrom ?from] @ rs @ [EvData (pm_bytes prepared) b r]"])
            (auto simp: verdict_def)
      qed
    qed
  qed
qed

lemma endSubmission_report:
  "fst (endSubmission env (ended, w)) = reported ended"
  "logOf (snd (endSubmission env (ended, w))) = logOf w"
  by (cases ended; simp add: endSubmission_def reported_def Let_def release_log safeCloseSession_log
      safeCloseConn_log)+

lemma connectAndSubmit_log:
  assumes run: "connectAndSubmit env client input prepared w = ((result, err), w')"
  shows "\<exists>evs. logOf w' = logOf w @ evs
    \<and> submissionLog (mc_address (cl_config client)) (pm_recipients prepared) (pm_bytes prepared) evs
    \<and> truthful result err (verdict evs)"
proof -
  define start where "start = emptySendResult\<lparr>so_status := sendRejected, so_messageID := pm_messageID prepared\<rparr>"
  have rejected: "so_status start = sendRejected" by (simp add: start_def)
  note rec = truthful_recover [OF rejected, of False, simplified case_prod_unfold]
  have quiet: "\<exists>evs. logOf w' = logOf w @ evs
      \<and> submissionLog (mc_address (cl_config client)) (pm_recipients prepared) (pm_bytes prepared) evs
      \<and> truthful result err (verdict evs)"
    if "logOf w' = logOf w" "truthful result err sendRejected"
    using that by (intro exI [of _ "[]"]) (simp add: submissionLog_def verdict_def)
  obtain r1 w1 where 1: "sv_dial env w = (r1, w1)" by fastforce
  obtain r2 w2 where 2: "sv_factory env w1 = (r2, w2)" by fastforce
  obtain r3 w3 where 3: "sv_closeConn env w2 = (r3, w3)" by fastforce
  have l: "logOf w1 = logOf w" "logOf w2 = logOf w1" "logOf w3 = logOf w2"
    using 1 2 3 dial_log [of w] factory_log [of w1] closeConn_log [of w2] by simp_all
  show ?thesis
  proof (cases "r1 = Done () \<and> r2 = Done ()")
    case False
    then show ?thesis
      using run 1 2 3 l rec rejected
      by (intro quiet; cases r1; cases r2; cases r3)
        (auto simp: connectAndSubmit_def Let_def start_def [symmetric] release_log safeCloseConn_log
          truthful_rejected mapSMTPError_known)
  next
    case True
    obtain ended w4 where s: "submit env client input prepared start w2 = (ended, w4)"
      by (rule prod.exhaust)
    from submit_log [OF s rejected] obtain evs where "logOf w4 = logOf w2 @ evs"
      "submissionLog (mc_address (cl_config client)) (pm_recipients prepared) (pm_bytes prepared) evs"
      "truthful (fst (reported ended)) (snd (reported ended)) (verdict evs)" by blast
    moreover have "((result, err), w') = endSubmission env (ended, w4)"
      using run 1 2 True s by (simp add: connectAndSubmit_def Let_def start_def [symmetric])
    then have "reported ended = (result, err)" "logOf w' = logOf w4"
      using endSubmission_report [of ended w4] by (metis fst_conv, metis snd_conv)
    ultimately show ?thesis using l by auto
  qed
qed

lemma buildMessage_log:
  assumes "buildMessage (sv_lib env) config input w = (r, w')"
  shows "logOf w' = logOf w"
proof -
  obtain r1 w1 where 1: "ml_random (sv_lib env) w = (r1, w1)" by fastforce
  have "logOf w1 = logOf w" using 1 random_log [of w] by simp
  moreover have "logOf w2 = logOf w1" if "ml_encode (sv_lib env) x w1 = (r2, w2)" for x r2 w2
    using that encode_log [of x w1] by simp
  ultimately show ?thesis using assms 1
    by (auto simp: buildMessage_def generateMessageID_def split: sum.splits option.splits call.splits
        prod.splits if_splits)
qed

end

text \<open>The recipients a message may have under a policy.\<close>

definition recipientsAllowed :: "mailPolicy \<Rightarrow> string list \<Rightarrow> bool" where
  "recipientsAllowed policy rs \<longleftrightarrow>
     rs \<noteq> [] \<and> length rs \<le> maxRecipients \<and> list_all (mailAllows policy) rs
     \<and> distinct (map mailAsciiLower rs)"

lemma recipientGroup_Inr:
  "recipientGroup parse policy name vs recipients seen = Inr (addresses, recipients', seen') \<Longrightarrow>
     seen = mailAsciiLower ` set recipients \<Longrightarrow> distinct (map mailAsciiLower recipients) \<Longrightarrow>
     list_all (mailAllows policy) recipients \<Longrightarrow>
     addresses = vs \<and> recipients' = recipients @ vs \<and> seen' = mailAsciiLower ` set recipients'
     \<and> distinct (map mailAsciiLower recipients') \<and> list_all (mailAllows policy) recipients'"
proof (induction vs arbitrary: recipients seen addresses)
  case (Cons v vs)
  then obtain a where a: "validateAddrSpec parse v = Some a"
    by (auto split: option.splits)
  then have [simp]: "a = v" by (rule validateAddrSpec_Some)
  from Cons.prems(1) a obtain addresses' where
    rest: "recipientGroup parse policy name vs (recipients @ [v]) (insert (mailAsciiLower v) seen) =
      Inr (addresses', recipients', seen')"
    and "addresses = v # addresses'" "mailAsciiLower v \<notin> seen" "mailAllows policy v"
    by (auto simp: Let_def andThen_Inr split: if_splits)
  have "distinct (map mailAsciiLower (recipients @ [v]))" "list_all (mailAllows policy) (recipients @ [v])"
    "insert (mailAsciiLower v) seen = mailAsciiLower ` set (recipients @ [v])"
    using Cons.prems(2-4) \<open>mailAsciiLower v \<notin> seen\<close> \<open>mailAllows policy v\<close> by auto
  note IH = Cons.IH [OF rest this(3,1,2), unfolded append.assoc append_Cons append_Nil]
  with \<open>addresses = v # addresses'\<close> have "addresses = v # vs" by blast
  with IH show ?case by blast
qed auto

lemma recipientGroups_Inr:
  assumes "recipientGroups parse policy input = Inr (to, cc, recipients)"
  shows "to = in_to input" "cc = in_cc input"
    "recipients = in_to input @ in_cc input @ in_bcc input"
    "distinct (map mailAsciiLower recipients)" "list_all (mailAllows policy) recipients"
proof -
  from assms obtain r1 s1 r2 s2 b s3 where
    1: "recipientGroup parse policy ''to'' (in_to input) [] {} = Inr (to, r1, s1)" and
    2: "recipientGroup parse policy ''cc'' (in_cc input) r1 s1 = Inr (cc, r2, s2)" and
    3: "recipientGroup parse policy ''bcc'' (in_bcc input) r2 s2 = Inr (b, recipients, s3)"
    by (auto simp: recipientGroups_def andThen_Inr)
  have f1: "to = in_to input" "r1 = in_to input" "s1 = mailAsciiLower ` set r1"
    "distinct (map mailAsciiLower r1)" "list_all (mailAllows policy) r1"
    using recipientGroup_Inr [OF 1 _ _ _, unfolded append_Nil list.map list.set image_empty] by auto
  have f2: "cc = in_cc input" "r2 = r1 @ in_cc input" "s2 = mailAsciiLower ` set r2"
    "distinct (map mailAsciiLower r2)" "list_all (mailAllows policy) r2"
    using recipientGroup_Inr [OF 2 f1(3-5)] by blast+
  have f3: "recipients = r2 @ in_bcc input" "distinct (map mailAsciiLower recipients)"
    "list_all (mailAllows policy) recipients"
    using recipientGroup_Inr [OF 3 f2(3-5)] by blast+
  show "to = in_to input" "cc = in_cc input"
    "recipients = in_to input @ in_cc input @ in_bcc input"
    using f1(1,2) f2(1,2) f3(1) by simp_all
  show "distinct (map mailAsciiLower recipients)" "list_all (mailAllows policy) recipients"
    by (fact f3(2), fact f3(3))
qed

lemma buildMessage_prepared:
  assumes "buildMessage lib config input w = (Done (Inr prepared), w')"
  shows "pm_recipients prepared = in_to input @ in_cc input @ in_bcc input"
    "recipientsAllowed (mc_recipientPolicy config) (pm_recipients prepared)"
    "\<exists>w1. fst (ml_encode lib (outgoingMessage config input (in_to input) (in_cc input)
        (pm_messageID prepared)) w1) = Done (pm_bytes prepared)"
proof -
  from assms obtain to cc recipients where
    g: "recipientGroups (ml_parseAddress lib) (mc_recipientPolicy config) input = Inr (to, cc, recipients)"
    "validateContent input recipients = None"
    by (auto simp: buildMessage_def split: sum.splits option.splits prod.splits)
  note f = recipientGroups_Inr [OF g(1)]
  from assms g obtain w1 where p: "pm_recipients prepared = recipients"
    "ml_encode lib (outgoingMessage config input to cc (pm_messageID prepared)) w1 =
       (Done (pm_bytes prepared), w')"
    by (auto simp: buildMessage_def split: call.splits prod.splits if_splits)
  from p f show "pm_recipients prepared = in_to input @ in_cc input @ in_bcc input"
    "\<exists>w1. fst (ml_encode lib (outgoingMessage config input (in_to input) (in_cc input)
        (pm_messageID prepared)) w1) = Done (pm_bytes prepared)"
    by (simp_all, metis fst_conv)
  from g(2) have "recipients \<noteq> []" "length recipients \<le> maxRecipients"
    by (auto simp: validateContent_def split: if_splits)
  with f p(1) show "recipientsAllowed (mc_recipientPolicy config) (pm_recipients prepared)"
    by (simp add: recipientsAllowed_def)
qed

lemma recipientGroup_Inl:
  "recipientGroup parse policy name vs recipients seen = Inl e \<Longrightarrow> e \<noteq> unknownError"
  by (induction vs arbitrary: recipients seen)
    (auto simp: Let_def andThen_Inl split: option.splits if_splits)

lemma validateReplyHeaders_known: "validateReplyHeaders i rs = Some e \<Longrightarrow> e \<noteq> unknownError"
proof -
  have "referencesLoop rs seen = Some e \<Longrightarrow> e \<noteq> unknownError" for seen
    by (induction rs arbitrary: seen) (auto split: if_splits)
  then show "validateReplyHeaders i rs = Some e \<Longrightarrow> e \<noteq> unknownError"
    by (auto simp: validateReplyHeaders_def split: option.splits if_splits)
qed

lemma buildMessage_known: "buildMessage lib config input w = (Done (Inl e), w') \<Longrightarrow> e \<noteq> unknownError"
  by (auto simp: buildMessage_def recipientGroups_def andThen_Inl validateContent_def
      dest: recipientGroup_Inl validateReplyHeaders_known
      split: sum.splits option.splits prod.splits call.splits if_splits)

section \<open>Properties\<close>

context smtp_log
begin

lemma sendOnce_log:
  assumes run: "sendOnce env client input w = ((result, err), w')"
  shows "\<exists>evs. logOf w' = logOf w @ evs
    \<and> (truthful result err (verdict evs)
       \<or> evs = [] \<and> so_status result = [] \<and> err \<noteq> None \<and> err \<noteq> Some unknownError)
    \<and> (evs = [] \<or> cl_sendEnabled client
         \<and> recipientsAllowed (mc_recipientPolicy (cl_config client)) (in_to input @ in_cc input @ in_bcc input)
         \<and> (\<exists>x messageID w1. submissionLog (mc_address (cl_config client))
                (in_to input @ in_cc input @ in_bcc input) x evs
              \<and> fst (ml_encode (sv_lib env) (outgoingMessage (cl_config client) input (in_to input)
                   (in_cc input) messageID) w1) = Done x))"
proof -
  have quiet: ?thesis if "logOf w' = logOf w"
    "truthful result err sendRejected
     \<or> so_status result = [] \<and> err \<noteq> None \<and> err \<noteq> Some unknownError"
    using that by (intro exI [of _ "[]"]) (auto simp: verdict_def)
  obtain built w1 where 1: "buildMessage (sv_lib env) (cl_config client) input w = (built, w1)"
    by (rule prod.exhaust)
  have l1: "logOf w1 = logOf w" using buildMessage_log [OF 1] .
  obtain b2 w2 where 2: "me_allow (sv_mail env) SendLimiter w1 = (b2, w2)" by fastforce
  obtain b3 w3 where 3: "me_acquire (sv_mail env) SendLimiter w2 = (b3, w3)" by fastforce
  have l2: "logOf w2 = logOf w1" "logOf w3 = logOf w2"
    using 2 3 allow_log [of SendLimiter w1] acquire_log [of SendLimiter w2] by simp_all
  have empty: "so_status emptySendResult = []" by (simp add: emptySendResult_def)
  show ?thesis
  proof (cases "cl_sendEnabled client \<and> \<not> (in_archiveSent input \<and> \<not> mc_enableSentCopy (cl_config client))
      \<and> (\<exists>p. built = Done (Inr p)) \<and> b2 \<and> b3")
    case True
    then obtain prepared where p: "built = Done (Inr prepared)" by blast
    with True 1 2 3 run have c: "connectAndSubmit env client input prepared w3 = ((result, err), w')"
      by (auto simp: sendOnce_def mailAcquire_def split: if_splits)
    note prep = buildMessage_prepared [OF 1 [unfolded p]]
    from connectAndSubmit_log [OF c] obtain evs where "logOf w' = logOf w3 @ evs"
      "submissionLog (mc_address (cl_config client)) (pm_recipients prepared) (pm_bytes prepared) evs"
      "truthful result err (verdict evs)" by blast
    with prep True l1 l2 show ?thesis by (intro exI [of _ evs]) auto
  next
    case False
    show ?thesis
    proof (rule quiet)
      show "logOf w' = logOf w"
        using False run 1 2 3 l1 l2
        by (auto simp: sendOnce_def mailAcquire_def split: if_splits call.splits sum.splits)
      show "truthful result err sendRejected
          \<or> so_status result = [] \<and> err \<noteq> None \<and> err \<noteq> Some unknownError"
        using False run 1 2 3 empty buildMessage_known [of "sv_lib env" "cl_config client" input w]
        by (auto simp: sendOnce_def mailAcquire_def recoverSend_def truthful_def sendAccepted_def
            sendRejected_def sendOutcomeUnknown_def split: if_splits call.splits sum.splits)
    qed
  qed
qed

end

text \<open>
  C32. What \<open>sendOnce\<close> reports is what happened on the wire, on every server, failure and panic. It
  returns no error exactly when the server accepted the message after \<open>DATA\<close>, and the error
  \<open>outcome_unknown\<close> exactly when the message was being transferred and no definitive reply came. The
  status is \<open>accepted\<close>, \<open>outcome_unknown\<close> or \<open>rejected\<close> accordingly, and empty only when no command
  was sent.
\<close>

theorem send_report_truthful:
  "case sendOnce (recordSMTP env) client input (w, []) of ((result, err), _, log) \<Rightarrow>
     (err = None \<longleftrightarrow> verdict log = sendAccepted)
     \<and> (err = Some unknownError \<longleftrightarrow> verdict log = sendOutcomeUnknown)
     \<and> (so_status result = verdict log \<or> log = [] \<and> so_status result = [])"
proof -
  obtain result err w' log where run:
    "sendOnce (recordSMTP env) client input (w, []) = ((result, err), w', log)"
    by (metis surj_pair)
  from smtp.sendOnce_log [OF run] run show ?thesis
    by (auto simp: truthful_def verdict_def)
qed

text \<open>
  C33. A submission is confined to what the caller asked and the policy allows. If any SMTP command
  is sent at all, sending is enabled and the To, Cc and Bcc addresses are between one and fifty,
  pairwise different up to ASCII case and all permitted by the recipient policy. The commands are
  then authentication and sender with the account's address, \<open>RCPT\<close> for these addresses in order,
  and at most one \<open>DATA\<close>, only after every recipient was accepted, whose content was encoded from
  headers that name the To and Cc recipients and never the Bcc ones.
\<close>

theorem send_confined:
  "case sendOnce (recordSMTP env) client input (w, []) of (_, _, log) \<Rightarrow>
     log = [] \<or>
     cl_sendEnabled client
     \<and> recipientsAllowed (mc_recipientPolicy (cl_config client)) (in_to input @ in_cc input @ in_bcc input)
     \<and> (\<exists>x messageID s. submissionLog (mc_address (cl_config client))
          (in_to input @ in_cc input @ in_bcc input) x log
        \<and> fst (ml_encode (sv_lib (recordSMTP env)) (outgoingMessage (cl_config client)
             (input\<lparr>in_bcc := []\<rparr>) (in_to input) (in_cc input) messageID) s) = Done x)"
proof -
  obtain result err w' log where run:
    "sendOnce (recordSMTP env) client input (w, []) = ((result, err), w', log)"
    by (metis surj_pair)
  have bcc: "outgoingMessage config (input\<lparr>in_bcc := []\<rparr>) to cc messageID =
      outgoingMessage config input to cc messageID" for config to cc messageID
    by (simp add: outgoingMessage_def)
  from smtp.sendOnce_log [OF run] run show ?thesis
    by (auto simp: bcc)
qed

text \<open>The inbound budget: a session delivers at most its limit, and reads at most one byte more.\<close>

lemma budgetRead_bounded:
  assumes "\<And>n w r e w'. connRead n w = ((r, e), w') \<Longrightarrow> 0 \<le> r \<and> r \<le> n"
    and "0 \<le> bufLen" and "0 \<le> rb_used c"
    and "rb_exhausted c \<or> rb_used c \<le> rb_limit c" and "rb_used c \<le> rb_limit c + 1"
    and run: "budgetRead connRead c bufLen w = ((n, err), c', w')"
  shows "0 \<le> n" "\<not> rb_exhausted c \<longrightarrow> rb_used c + n \<le> max (rb_used c) (rb_limit c)"
    "rb_exhausted c' \<or> rb_used c' \<le> rb_limit c'" "rb_used c' \<le> rb_limit c' + 1"
    "rb_limit c' = rb_limit c"
proof -
  let ?rem = "max 0 (rb_limit c - rb_used c)"
  let ?size = "if ?rem + 1 < bufLen then ?rem + 1 else bufLen"
  obtain n1 e1 w1 where r: "connRead ?size w = ((n1, e1), w1)" by (metis surj_pair)
  have b: "0 \<le> n1" "n1 \<le> ?size" using assms(1) [OF r] by auto
  obtain n0 e0 w0 where z: "connRead 0 w = ((n0, e0), w0)" by (metis surj_pair)
  have b0: "n0 = 0" using assms(1) [OF z] by simp
  show "0 \<le> n" "\<not> rb_exhausted c \<longrightarrow> rb_used c + n \<le> max (rb_used c) (rb_limit c)"
    "rb_exhausted c' \<or> rb_used c' \<le> rb_limit c'" "rb_used c' \<le> rb_limit c' + 1"
    "rb_limit c' = rb_limit c"
    using run r b z b0 assms(2-5)
    by (auto simp: budgetRead_def Let_def split: if_splits)
qed

end
