(* ===== verification/Send_Cache.thy ===== *)
theory Send_Cache
  imports Mail_Send
begin

text \<open>
  \<open>internal/mail/send_idempotency.go\<close> and \<open>SendMessage\<close> of \<open>smtp.go\<close>: the fingerprint of a send
  request, the claims of idempotency keys, and the callers that share them. The hash and
  \<open>strings.ToLower\<close> are arguments. Concurrent callers are a step relation whose steps are the
  critical sections of \<open>claim\<close> and \<open>complete\<close>.
\<close>

definition maxSendIdempotencyEntries :: nat where "maxSendIdempotencyEntries = 128"

section \<open>Fingerprints\<close>

text \<open>The bytes of \<open>binary.BigEndian.PutUint32\<close>; the conversion to 32 bits wraps.\<close>

definition be32 :: "nat \<Rightarrow> string" where
  "be32 n = map (\<lambda>i. char_of (n div 256 ^ i mod 256)) [3, 2, 1, 0]"

text \<open>\<open>string(rune(n))\<close>: the UTF-8 encoding, and U+FFFD for a number that is no rune.\<close>

definition runeBytes :: "nat \<Rightarrow> string" where
  "runeBytes n =
     (if n < 0x80 then [char_of n]
      else if n < 0x800 then [char_of (0xC0 + n div 64), char_of (0x80 + n mod 64)]
      else if (0xD800 \<le> n \<and> n < 0xE000) \<or> 0x110000 \<le> n then [CHR 0xEF, CHR 0xBF, CHR 0xBD]
      else if n < 0x10000
      then [char_of (0xE0 + n div 4096), char_of (0x80 + n div 64 mod 64), char_of (0x80 + n mod 64)]
      else [char_of (0xF0 + n div 262144), char_of (0x80 + n div 4096 mod 64),
            char_of (0x80 + n div 64 mod 64), char_of (0x80 + n mod 64)])"

definition frameField :: "string \<Rightarrow> string" where
  "frameField v = be32 (length v) @ v"

definition groupFields :: "(string \<Rightarrow> string) \<Rightarrow> string list \<Rightarrow> string list" where
  "groupFields lower addresses =
     runeBytes (length addresses) # map (\<lambda>a. lower (trimSpace a)) addresses"

definition sendFields :: "(string \<Rightarrow> string) \<Rightarrow> string \<Rightarrow> sendInput \<Rightarrow> string list" where
  "sendFields lower sender input =
     sender # concat (map (groupFields lower) [in_to input, in_cc input, in_bcc input])
       @ [in_subject input, in_body input, in_inReplyTo input] @ in_references input"

text \<open>The bytes written to the hash, and the fingerprint.\<close>

definition sendFrame :: "(string \<Rightarrow> string) \<Rightarrow> string \<Rightarrow> sendInput \<Rightarrow> string" where
  "sendFrame lower sender input = concat (map frameField (sendFields lower sender input))"

definition sendRequestFingerprint ::
  "(string \<Rightarrow> string) \<Rightarrow> (string \<Rightarrow> string) \<Rightarrow> string \<Rightarrow> sendInput \<Rightarrow> string" where
  "sendRequestFingerprint sha256 lower sender input = sha256 (sendFrame lower sender input)"

section \<open>Claims\<close>

type_synonym sendOutcome = "sendResult \<times> goError option"

text \<open>A claim, with the outcome once its channel is closed.\<close>

record sendClaim =
  cm_fingerprint :: string
  cm_outcome :: "sendOutcome option"

text \<open>\<open>entries\<close> in the order of insertion; nothing is ever removed.\<close>

type_synonym sendCache = "(string \<times> sendClaim) list"

definition newSendIdempotencyCache :: sendCache where
  "newSendIdempotencyCache = []"

datatype claimVerdict = ClaimRefused goError | ClaimOwner | ClaimDuplicate

text \<open>The critical section of \<open>claim\<close>, and the comparison of fingerprints that follows it.\<close>

definition claimSend :: "sendCache \<Rightarrow> string \<Rightarrow> string \<Rightarrow> claimVerdict \<times> sendCache" where
  "claimSend cache key fingerprint =
     (case map_of cache key of
        Some existing \<Rightarrow>
          if cm_fingerprint existing \<noteq> fingerprint
          then (ClaimRefused (mailError codeConflict
                  ''idempotency_key was already used with different content''), cache)
          else (ClaimDuplicate, cache)
      | None \<Rightarrow>
          if maxSendIdempotencyEntries \<le> length cache
          then (ClaimRefused (mailError codeConflict
                  ''idempotency cache is full; use a new process or a different key''), cache)
          else (ClaimOwner, cache @ [(key, \<lparr>cm_fingerprint = fingerprint, cm_outcome = None\<rparr>)]))"

definition completeSend :: "sendCache \<Rightarrow> string \<Rightarrow> sendOutcome \<Rightarrow> sendCache" where
  "completeSend cache key outcome =
     map (\<lambda>(k, c). (k, if k = key then c\<lparr>cm_outcome := Some outcome\<rparr> else c)) cache"

text \<open>
  \<open>SendMessage\<close> of one caller. \<open>wait\<close> is the \<open>select\<close> of a duplicate on the claim it found: the
  outcome, or \<open>None\<close> when its context ends first.
\<close>

definition sendMessage ::
  "(string \<Rightarrow> string) \<Rightarrow> (string \<Rightarrow> string) \<Rightarrow> (string \<Rightarrow> 'w \<Rightarrow> sendOutcome option \<times> 'w)
     \<Rightarrow> 'w smtpEnv \<Rightarrow> mailClient \<Rightarrow> sendInput \<Rightarrow> sendCache \<Rightarrow> 'w \<Rightarrow> sendOutcome \<times> sendCache \<times> 'w" where
  "sendMessage sha256 lower wait env client input cache w =
     (let key = in_idempotencyKey input in
      case validateSendIdempotencyKey key of
        Some e \<Rightarrow> ((emptySendResult, Some e), cache, w)
      | None \<Rightarrow>
          if key = [] then (case sendOnce env client input w of (outcome, w') \<Rightarrow> (outcome, cache, w'))
          else (case claimSend cache key
                       (sendRequestFingerprint sha256 lower (mc_address (cl_config client)) input) of
                  (claimed, cache') \<Rightarrow>
                    (case claimed of
                       ClaimRefused e \<Rightarrow> ((emptySendResult, Some e), cache', w)
                     | ClaimDuplicate \<Rightarrow>
                         (case wait key w of (r, w') \<Rightarrow>
                            (case r of
                               None \<Rightarrow> (emptySendResult, Some contextError)
                             | Some outcome \<Rightarrow> outcome, cache', w'))
                     | ClaimOwner \<Rightarrow>
                         (case sendOnce env client input w of (outcome, w') \<Rightarrow>
                            (outcome, completeSend cache' key outcome, w')))))"

section \<open>Concurrent callers\<close>

text \<open>
  The phases of a call with a key and a fingerprint: its own submission, waiting for the owner,
  and the return with the outcome of the key or with an error of its own.
\<close>

datatype sendPhase =
    SendIdle
  | Submitting string string
  | AwaitingOwner string string
  | Answered string string sendOutcome
  | Refused string string goError

text \<open>\<open>ys_sends\<close> records the submissions in order, with their keys and fingerprints.\<close>

record sendSystem =
  ys_cache :: sendCache
  ys_phase :: "nat \<Rightarrow> sendPhase"
  ys_sends :: "(string \<times> string) list"

definition sendStart :: sendSystem where
  "sendStart = \<lparr>ys_cache = newSendIdempotencyCache, ys_phase = (\<lambda>_. SendIdle), ys_sends = []\<rparr>"

inductive sendStep :: "sendSystem \<Rightarrow> sendSystem \<Rightarrow> bool" where
  own: "ys_phase s c = SendIdle \<Longrightarrow> claimSend (ys_cache s) key fp = (ClaimOwner, cache) \<Longrightarrow>
    sendStep s (s\<lparr>ys_cache := cache, ys_phase := (ys_phase s)(c := Submitting key fp),
      ys_sends := ys_sends s @ [(key, fp)]\<rparr>)"
| join: "ys_phase s c = SendIdle \<Longrightarrow> claimSend (ys_cache s) key fp = (ClaimDuplicate, cache) \<Longrightarrow>
    sendStep s (s\<lparr>ys_cache := cache, ys_phase := (ys_phase s)(c := AwaitingOwner key fp)\<rparr>)"
| refuse: "ys_phase s c = SendIdle \<Longrightarrow> claimSend (ys_cache s) key fp = (ClaimRefused e, cache) \<Longrightarrow>
    sendStep s (s\<lparr>ys_cache := cache, ys_phase := (ys_phase s)(c := Refused key fp e)\<rparr>)"
| finish: "ys_phase s c = Submitting key fp \<Longrightarrow>
    sendStep s (s\<lparr>ys_cache := completeSend (ys_cache s) key outcome,
      ys_phase := (ys_phase s)(c := Answered key fp outcome)\<rparr>)"
| wake: "ys_phase s c = AwaitingOwner key fp \<Longrightarrow> map_of (ys_cache s) key = Some claim \<Longrightarrow>
    cm_outcome claim = Some outcome \<Longrightarrow>
    sendStep s (s\<lparr>ys_phase := (ys_phase s)(c := Answered key fp outcome)\<rparr>)"
| cancel: "ys_phase s c = AwaitingOwner key fp \<Longrightarrow>
    sendStep s (s\<lparr>ys_phase := (ys_phase s)(c := Refused key fp contextError)\<rparr>)"

inductive sendReachable :: "sendSystem \<Rightarrow> bool" where
  start: "sendReachable sendStart"
| step: "sendReachable s \<Longrightarrow> sendStep s s' \<Longrightarrow> sendReachable s'"

text \<open>
  The invariant: the submissions are the claims, one per key; a submitting caller owns an open
  claim and no other caller submits its key; a waiting caller's claim has its fingerprint; an
  answer is the recorded outcome of the claim.
\<close>

definition phaseOk :: "sendCache \<Rightarrow> sendPhase \<Rightarrow> bool" where
  "phaseOk cache p =
     (case p of
        Submitting key fp \<Rightarrow> map_of cache key = Some \<lparr>cm_fingerprint = fp, cm_outcome = None\<rparr>
      | AwaitingOwner key fp \<Rightarrow> (\<exists>claim. map_of cache key = Some claim \<and> cm_fingerprint claim = fp)
      | Answered key fp outcome \<Rightarrow>
          map_of cache key = Some \<lparr>cm_fingerprint = fp, cm_outcome = Some outcome\<rparr>
      | _ \<Rightarrow> True)"

definition sendInv :: "sendSystem \<Rightarrow> bool" where
  "sendInv s \<longleftrightarrow> distinct (map fst (ys_cache s)) \<and> length (ys_cache s) \<le> maxSendIdempotencyEntries
     \<and> ys_sends s = map (\<lambda>(k, c). (k, cm_fingerprint c)) (ys_cache s)
     \<and> (\<forall>c. phaseOk (ys_cache s) (ys_phase s c))
     \<and> (\<forall>c d key fp fp'. ys_phase s c = Submitting key fp \<and> ys_phase s d = Submitting key fp' \<longrightarrow> c = d)
     \<and> (\<forall>key claim. map_of (ys_cache s) key = Some claim \<and> cm_outcome claim = None \<longrightarrow>
          (\<exists>c. ys_phase s c = Submitting key (cm_fingerprint claim)))"

lemma map_of_complete:
  "map_of (completeSend cache key outcome) k =
     map_option (\<lambda>c. if k = key then c\<lparr>cm_outcome := Some outcome\<rparr> else c) (map_of cache k)"
  by (induction cache) (auto simp: completeSend_def)

lemma complete_shape:
  "map fst (completeSend cache key outcome) = map fst cache"
  "map (\<lambda>(k, c). (k, cm_fingerprint c)) (completeSend cache key outcome)
     = map (\<lambda>(k, c). (k, cm_fingerprint c)) cache"
  "length (completeSend cache key outcome) = length cache"
  by (induction cache) (auto simp: completeSend_def)

lemma claimSend_cases:
  "claimSend cache key fp = (ClaimOwner, cache') \<Longrightarrow> map_of cache key = None
     \<and> length cache < maxSendIdempotencyEntries
     \<and> cache' = cache @ [(key, \<lparr>cm_fingerprint = fp, cm_outcome = None\<rparr>)]"
  "claimSend cache key fp = (ClaimDuplicate, cache') \<Longrightarrow> cache' = cache
     \<and> (\<exists>c. map_of cache key = Some c \<and> cm_fingerprint c = fp)"
  "claimSend cache key fp = (ClaimRefused e, cache') \<Longrightarrow> cache' = cache"
  by (auto simp: claimSend_def split: option.splits if_splits)

text \<open>A new claim leaves every other key alone.\<close>

lemma map_of_claimed:
  "map_of cache key = None \<Longrightarrow> map_of (cache @ [(key, v)]) k = (if k = key then Some v else map_of cache k)"
  by (auto simp: map_add_def split: option.split)

lemma phaseOk_claimed:
  assumes "phaseOk cache p" and "map_of cache key = None"
  shows "phaseOk (cache @ [(key, v)]) p"
  using assms by (auto simp: phaseOk_def map_of_claimed split: sendPhase.splits)

lemma phaseOk_complete:
  assumes "phaseOk cache p" and "\<And>f. p \<noteq> Submitting key f"
    and "map_of cache key = Some \<lparr>cm_fingerprint = fp, cm_outcome = None\<rparr>"
  shows "phaseOk (completeSend cache key outcome) p"
proof (cases p)
  case (AwaitingOwner k f)
  with assms(1) obtain claim where "map_of cache k = Some claim" "cm_fingerprint claim = f"
    by (auto simp: phaseOk_def)
  then have "map_of (completeSend cache key outcome) k =
      Some (if k = key then claim\<lparr>cm_outcome := Some outcome\<rparr> else claim)"
      "cm_fingerprint (if k = key then claim\<lparr>cm_outcome := Some outcome\<rparr> else claim) = f"
    by (simp_all add: map_of_complete)
  with AwaitingOwner show ?thesis by (simp add: phaseOk_def)
qed (use assms in \<open>auto simp: phaseOk_def map_of_complete\<close>)

lemma sendInv_start: "sendInv sendStart"
  by (simp add: sendInv_def sendStart_def newSendIdempotencyCache_def phaseOk_def)

lemma sendInvD:
  assumes "sendInv s"
  shows "distinct (map fst (ys_cache s))" "length (ys_cache s) \<le> maxSendIdempotencyEntries"
    "ys_sends s = map (\<lambda>(k, c). (k, cm_fingerprint c)) (ys_cache s)"
    "phaseOk (ys_cache s) (ys_phase s c)"
    "ys_phase s c = Submitting key fp \<Longrightarrow> ys_phase s d = Submitting key fp' \<Longrightarrow> c = d"
    "map_of (ys_cache s) key = Some claim \<Longrightarrow> cm_outcome claim = None \<Longrightarrow>
       \<exists>c. ys_phase s c = Submitting key (cm_fingerprint claim)"
  using assms unfolding sendInv_def by blast+

lemma sendInvI:
  assumes "distinct (map fst (ys_cache s))" "length (ys_cache s) \<le> maxSendIdempotencyEntries"
    "ys_sends s = map (\<lambda>(k, c). (k, cm_fingerprint c)) (ys_cache s)"
    "\<And>c. phaseOk (ys_cache s) (ys_phase s c)"
    "\<And>c d k f f'. ys_phase s c = Submitting k f \<Longrightarrow> ys_phase s d = Submitting k f' \<Longrightarrow> c = d"
    "\<And>k claim. map_of (ys_cache s) k = Some claim \<Longrightarrow> cm_outcome claim = None \<Longrightarrow>
       \<exists>c. ys_phase s c = Submitting k (cm_fingerprint claim)"
  shows "sendInv s"
  using assms unfolding sendInv_def by blast

text \<open>A step that only changes the phase of a caller that does not submit, into one that holds.\<close>

lemma sendInv_phase:
  assumes "sendInv s" and "\<And>k f. ys_phase s c \<noteq> Submitting k f" and "phaseOk (ys_cache s) p"
    and "\<And>k f. p \<noteq> Submitting k f"
  shows "sendInv (s\<lparr>ys_phase := (ys_phase s)(c := p)\<rparr>)"
proof -
  note I = sendInvD [OF assms(1)]
  have phases: "phaseOk (ys_cache s) (((ys_phase s)(c := p)) d)" for d
    using I(4) [of d] assms(3) by simp
  have sole: "c' = d" if "((ys_phase s)(c := p)) c' = Submitting k f" "((ys_phase s)(c := p)) d = Submitting k f'"
    for c' d k f f'
    using that assms(4) I(5) [of c' k f d f'] by (auto split: if_splits)
  have open': "\<exists>d. ((ys_phase s)(c := p)) d = Submitting k (cm_fingerprint claim)"
    if claim: "map_of (ys_cache s) k = Some claim" "cm_outcome claim = None" for k claim
  proof -
    from I(6) [OF claim] obtain d where "ys_phase s d = Submitting k (cm_fingerprint claim)" ..
    with assms(2) show ?thesis by (intro exI [of _ d]) auto
  qed
  show ?thesis
    by (rule sendInvI) (simp_all del: fun_upd_apply add: I(1,2,3) phases open', erule (1) sole)
qed

lemma sendInv_own:
  assumes inv: "sendInv s" and idle: "ys_phase s c = SendIdle"
    and claim: "claimSend (ys_cache s) key fp = (ClaimOwner, cache)"
  shows "sendInv (s\<lparr>ys_cache := cache, ys_phase := (ys_phase s)(c := Submitting key fp),
      ys_sends := ys_sends s @ [(key, fp)]\<rparr>)"
proof -
  note I = sendInvD [OF inv]
  from claimSend_cases(1) [OF claim] have new: "map_of (ys_cache s) key = None"
      "length (ys_cache s) < maxSendIdempotencyEntries"
      and cache: "cache = ys_cache s @ [(key, \<lparr>cm_fingerprint = fp, cm_outcome = None\<rparr>)]" by auto
  have lookup: "map_of cache k = (if k = key then Some \<lparr>cm_fingerprint = fp, cm_outcome = None\<rparr>
      else map_of (ys_cache s) k)" for k
    unfolding cache by (rule map_of_claimed [OF new(1)])
  have fresh: "key \<notin> fst ` set (ys_cache s)" using new(1) by (simp add: map_of_eq_None_iff)
  have sole: "ys_phase s d \<noteq> Submitting key f" for d f
    using I(4) [of d] new(1) by (auto simp: phaseOk_def)
  have phases: "phaseOk cache (((ys_phase s)(c := Submitting key fp)) d)" for d
  proof -
    have "phaseOk cache (ys_phase s d)" unfolding cache by (rule phaseOk_claimed [OF I(4) new(1)])
    with lookup [of key] show ?thesis by (simp add: phaseOk_def)
  qed
  have open': "\<exists>d. ((ys_phase s)(c := Submitting key fp)) d = Submitting k (cm_fingerprint claim')"
    if "map_of cache k = Some claim'" "cm_outcome claim' = None" for k claim'
  proof (cases "k = key")
    case True
    with that lookup [of k] show ?thesis by auto
  next
    case False
    with that lookup [of k] I(6) [of k claim'] obtain d where
      "ys_phase s d = Submitting k (cm_fingerprint claim')" by auto
    with idle show ?thesis by (intro exI [of _ d]) auto
  qed
  have sole': "c' = d" if "((ys_phase s)(c := Submitting key fp)) c' = Submitting k f"
      "((ys_phase s)(c := Submitting key fp)) d = Submitting k f'" for c' d k f f'
    using that sole I(5) [of c' k f d f'] by (auto split: if_splits)
  have "distinct (map fst cache)" "length cache \<le> maxSendIdempotencyEntries"
    "ys_sends s @ [(key, fp)] = map (\<lambda>(k, c). (k, cm_fingerprint c)) cache"
    using I(1-3) fresh new(2) by (simp_all add: cache)
  then show ?thesis
    by (intro sendInvI) (simp_all del: fun_upd_apply add: phases open', erule (1) sole')
qed

lemma sendInv_finish:
  assumes inv: "sendInv s" and owner: "ys_phase s c = Submitting key fp"
  shows "sendInv (s\<lparr>ys_cache := completeSend (ys_cache s) key outcome,
      ys_phase := (ys_phase s)(c := Answered key fp outcome)\<rparr>)"
proof -
  note I = sendInvD [OF inv]
  have mine: "map_of (ys_cache s) key = Some \<lparr>cm_fingerprint = fp, cm_outcome = None\<rparr>"
    using I(4) [of c] owner by (simp add: phaseOk_def)
  have others: "ys_phase s d \<noteq> Submitting key f" if "d \<noteq> c" for d f
    using I(5) [OF owner, of d f] that by auto
  have phases: "phaseOk (completeSend (ys_cache s) key outcome)
      (((ys_phase s)(c := Answered key fp outcome)) d)" for d
  proof (cases "d = c")
    case True
    with mine show ?thesis by (simp add: phaseOk_def map_of_complete)
  next
    case False
    with phaseOk_complete [OF I(4) [of d] others mine] show ?thesis by simp
  qed
  have open': "\<exists>d. ((ys_phase s)(c := Answered key fp outcome)) d = Submitting k (cm_fingerprint claim)"
    if "map_of (completeSend (ys_cache s) key outcome) k = Some claim" "cm_outcome claim = None" for k claim
  proof -
    from that mine have k: "k \<noteq> key" "map_of (ys_cache s) k = Some claim"
      by (auto simp: map_of_complete split: if_splits)
    from I(6) [OF k(2) that(2)] obtain d where "ys_phase s d = Submitting k (cm_fingerprint claim)" ..
    with k(1) owner show ?thesis by (intro exI [of _ d]) auto
  qed
  have sole: "c' = d" if "((ys_phase s)(c := Answered key fp outcome)) c' = Submitting k f"
      "((ys_phase s)(c := Answered key fp outcome)) d = Submitting k f'" for c' d k f f'
    using that I(5) [of c' k f d f'] by (auto split: if_splits)
  show ?thesis
    by (rule sendInvI)
      (simp_all del: fun_upd_apply add: I(1,2,3) complete_shape phases open', erule (1) sole)
qed

lemma sendInv_step:
  assumes "sendInv s" and "sendStep s s'"
  shows "sendInv s'"
  using assms(2)
proof cases
  case (own c key fp cache)
  with sendInv_own [OF assms(1)] show ?thesis by simp
next
  case (join c key fp cache)
  from claimSend_cases(2) [OF join(3)] have "cache = ys_cache s"
      "phaseOk (ys_cache s) (AwaitingOwner key fp)"
    by (auto simp: phaseOk_def)
  with sendInv_phase [OF assms(1), of c "AwaitingOwner key fp"] join(1,2) show ?thesis by simp
next
  case (refuse c key fp e cache)
  from claimSend_cases(3) [OF refuse(3)] sendInv_phase [OF assms(1), of c "Refused key fp e"] refuse(1,2)
  show ?thesis by (simp add: phaseOk_def)
next
  case (finish c key fp outcome)
  with sendInv_finish [OF assms(1)] show ?thesis by simp
next
  case (wake c key fp claim outcome)
  from sendInvD(4) [OF assms(1), of c] wake have "phaseOk (ys_cache s) (Answered key fp outcome)"
    by (auto simp: phaseOk_def)
  with sendInv_phase [OF assms(1), of c "Answered key fp outcome"] wake(1,2) show ?thesis by simp
next
  case (cancel c key fp)
  with sendInv_phase [OF assms(1), of c "Refused key fp contextError"] show ?thesis
    by (simp add: phaseOk_def)
qed

lemma sendReachable_inv: "sendReachable s \<Longrightarrow> sendInv s"
  by (induction rule: sendReachable.induct) (auto intro: sendInv_start sendInv_step)

section \<open>What the fingerprint binds\<close>

lemma be32_length [simp]: "length (be32 n) = 4"
  by (simp add: be32_def)

lemma be32_inj:
  assumes "be32 m = be32 n" and "m < 2 ^ 32" and "n < 2 ^ 32"
  shows "m = n"
proof -
  have eq: "m div 256 ^ i mod 256 = n div 256 ^ i mod 256" if "i \<in> {0, 1, 2, 3 :: nat}" for i
  proof -
    have "(char_of (m div 256 ^ i mod 256) :: char) = char_of (n div 256 ^ i mod 256)"
      using assms(1) that by (auto simp: be32_def)
    then have "of_char (char_of (m div 256 ^ i mod 256) :: char)
        = (of_char (char_of (n div 256 ^ i mod 256) :: char) :: nat)" by simp
    then show ?thesis by simp
  qed
  have step: "a = b" if "a div 256 = b div 256" "a mod 256 = b mod 256" for a b :: nat
    using that by (metis div_mult_mod_eq)
  have down: "k div 256 ^ i div 256 = k div 256 ^ Suc i" for k i :: nat
    by (simp add: div_mult2_eq [symmetric] mult.commute)
  have "m div 256 ^ 3 = n div 256 ^ 3"
    using eq [of 3] assms(2,3) by simp
  then have "m div 256 ^ 2 = n div 256 ^ 2"
    using step [of "m div 256 ^ 2" "n div 256 ^ 2"] down [of m 2] down [of n 2] eq [of 2] by simp
  then have "m div 256 ^ 1 = n div 256 ^ 1"
    using step [of "m div 256 ^ 1" "n div 256 ^ 1"] down [of m 1] down [of n 1] eq [of 1]
    by (simp add: numeral_2_eq_2)
  then show ?thesis using step [of m n] eq [of 0] by simp
qed

lemma frame_inj:
  assumes "frameField x @ r = frameField y @ r'" and "length x < 2 ^ 32" and "length y < 2 ^ 32"
  shows "x = y \<and> r = r'"
proof -
  from assms(1) have "be32 (length x) = be32 (length y)" and rest: "x @ r = y @ r'"
    by (auto simp: frameField_def append_eq_append_conv)
  with be32_inj assms(2,3) have "length x = length y" by blast
  with rest show ?thesis by simp
qed

lemma frames_inj:
  "concat (map frameField xs) = concat (map frameField ys) \<Longrightarrow>
     \<forall>x \<in> set xs \<union> set ys. length x < 2 ^ 32 \<Longrightarrow> xs = ys"
proof (induction xs arbitrary: ys)
  case Nil
  then show ?case by (cases ys) (auto simp: frameField_def be32_def)
next
  case (Cons x xs)
  then obtain y ys' where ys: "ys = y # ys'" by (cases ys) (auto simp: frameField_def be32_def)
  with Cons.prems frame_inj [of x "concat (map frameField xs)" y "concat (map frameField ys')"]
  have "x = y" "concat (map frameField xs) = concat (map frameField ys')" by auto
  with Cons.IH [of ys'] Cons.prems(2) ys show ?case by auto
qed

lemma char_of_nat_inj: "(char_of m :: char) = char_of n \<Longrightarrow> m < 256 \<Longrightarrow> n < 256 \<Longrightarrow> m = n" for m n :: nat
  by (metis mod_less of_char_of)

lemma runeBytes_inj:
  assumes "runeBytes m = runeBytes n" and "m < 0x800" and "n < 0x800"
  shows "m = n"
proof -
  have len: "length (runeBytes k) = (if k < 0x80 then 1 else 2)" if "k < 0x800" for k
    using that by (simp add: runeBytes_def)
  from arg_cong [OF assms(1), of length] assms(2,3) have same: "m < 0x80 \<longleftrightarrow> n < 0x80"
    by (simp add: len split: if_splits)
  show ?thesis
  proof (cases "m < 0x80")
    case True
    with same assms(1) show ?thesis by (simp add: runeBytes_def char_of_nat_inj)
  next
    case False
    with same assms have "(char_of (0xC0 + m div 64) :: char) = char_of (0xC0 + n div 64)"
        "(char_of (0x80 + m mod 64) :: char) = char_of (0x80 + n mod 64)"
      by (simp_all add: runeBytes_def)
    moreover have "m div 64 < 32" "n div 64 < 32" using assms(2,3) by simp_all
    ultimately have "m div 64 = n div 64" "m mod 64 = n mod 64"
      using char_of_nat_inj [of "0xC0 + m div 64" "0xC0 + n div 64"]
        char_of_nat_inj [of "0x80 + m mod 64" "0x80 + n mod 64"] by simp_all
    then show ?thesis by (metis div_mult_mod_eq)
  qed
qed

lemma group_inj:
  assumes "groupFields lower xs @ r = groupFields lower ys @ r'"
    and "length xs < 0x800" and "length ys < 0x800"
  shows "map (lower \<circ> trimSpace) xs = map (lower \<circ> trimSpace) ys \<and> r = r'"
proof -
  from assms have "length xs = length ys" by (auto simp: groupFields_def dest: runeBytes_inj)
  with assms(1) show ?thesis by (simp add: groupFields_def comp_def)
qed

section \<open>Properties\<close>

text \<open>
  C37. The bytes hashed for the fingerprint determine the sender, the three recipient groups up to
  case and surrounding blanks, the subject, the body, the message replied to and its references: no
  two requests with fewer than 2048 recipients in a group and fields below 4 GiB share them unless
  they agree in all of these.
\<close>

theorem fingerprint_binds_content:
  assumes "sendFrame lower sender input = sendFrame lower sender' input'"
    and "\<forall>field \<in> set (sendFields lower sender input) \<union> set (sendFields lower sender' input').
           length field < 2 ^ 32"
    and "\<forall>group \<in> {in_to input, in_cc input, in_bcc input, in_to input', in_cc input', in_bcc input'}.
           length group < 2048"
  shows "sender = sender' \<and> in_subject input = in_subject input' \<and> in_body input = in_body input'
     \<and> in_inReplyTo input = in_inReplyTo input' \<and> in_references input = in_references input'
     \<and> map (lower \<circ> trimSpace) (in_to input) = map (lower \<circ> trimSpace) (in_to input')
     \<and> map (lower \<circ> trimSpace) (in_cc input) = map (lower \<circ> trimSpace) (in_cc input')
     \<and> map (lower \<circ> trimSpace) (in_bcc input) = map (lower \<circ> trimSpace) (in_bcc input')"
proof -
  have "sendFields lower sender input = sendFields lower sender' input'"
    using frames_inj [OF assms(1) [unfolded sendFrame_def] assms(2)] .
  then have sender: "sender = sender'"
    and rest: "groupFields lower (in_to input) @ groupFields lower (in_cc input)
        @ groupFields lower (in_bcc input) @ in_subject input # in_body input # in_inReplyTo input
        # in_references input
      = groupFields lower (in_to input') @ groupFields lower (in_cc input')
        @ groupFields lower (in_bcc input') @ in_subject input' # in_body input' # in_inReplyTo input'
        # in_references input'"
    by (simp_all add: sendFields_def)
  from assms(3) have len: "length g < 0x800"
    if "g \<in> {in_to input, in_cc input, in_bcc input, in_to input', in_cc input', in_bcc input'}" for g
    using that by auto
  from group_inj [OF rest] len have to: "map (lower \<circ> trimSpace) (in_to input) = map (lower \<circ> trimSpace) (in_to input')"
    and rest2: "groupFields lower (in_cc input) @ groupFields lower (in_bcc input) @ in_subject input
        # in_body input # in_inReplyTo input # in_references input
      = groupFields lower (in_cc input') @ groupFields lower (in_bcc input') @ in_subject input'
        # in_body input' # in_inReplyTo input' # in_references input'" by blast+
  from group_inj [OF rest2] len have cc: "map (lower \<circ> trimSpace) (in_cc input) = map (lower \<circ> trimSpace) (in_cc input')"
    and rest3: "groupFields lower (in_bcc input) @ in_subject input # in_body input # in_inReplyTo input
        # in_references input
      = groupFields lower (in_bcc input') @ in_subject input' # in_body input' # in_inReplyTo input'
        # in_references input'" by blast+
  from group_inj [OF rest3] len have "map (lower \<circ> trimSpace) (in_bcc input) = map (lower \<circ> trimSpace) (in_bcc input')"
    "in_subject input # in_body input # in_inReplyTo input # in_references input
      = in_subject input' # in_body input' # in_inReplyTo input' # in_references input'" by blast+
  with sender to cc show ?thesis by simp
qed

definition sampleSend :: "string \<Rightarrow> sendInput" where
  "sampleSend recipient = \<lparr>in_to = [recipient], in_cc = [], in_bcc = [], in_subject = ''Hi'', in_body = ''text'',
     in_idempotencyKey = ''k'', in_archiveSent = False, in_inReplyTo = [], in_references = []\<rparr>"

theorem fingerprint_binds_content_witness:
  "sendFrame toLower ''me'' (sampleSend ''A@b.c'') = sendFrame toLower ''me'' (sampleSend ''a@B.c '')
     \<and> map (toLower \<circ> trimSpace) (in_to (sampleSend ''A@b.c''))
         = map (toLower \<circ> trimSpace) (in_to (sampleSend ''a@B.c ''))"
proof -
  have norm: "toLower (trimSpace ''A@b.c'') = ''a@b.c''" "toLower (trimSpace ''a@B.c '') = ''a@b.c''"
    by code_simp+
  have fields: "sendFields toLower ''me'' (sampleSend r) = [''me'', [char_of (Suc 0)], ''a@b.c'',
      [char_of (0 :: nat)], [char_of (0 :: nat)], ''Hi'', ''text'', []]" if "toLower (trimSpace r) = ''a@b.c''" for r
    using that by (simp add: sendFields_def groupFields_def sampleSend_def runeBytes_def)
  have frame: "sendFrame toLower ''me'' (sampleSend ''A@b.c'') = sendFrame toLower ''me'' (sampleSend ''a@B.c '')"
    by (simp add: sendFrame_def fields norm)
  from frame fingerprint_binds_content [OF frame] show ?thesis
    by (simp add: fields norm) (simp add: sampleSend_def norm)
qed

text \<open>The request for a Sent copy is not among the fields.\<close>

lemma archive_option_not_bound:
  "sendFrame lower sender (input\<lparr>in_archiveSent := b\<rparr>) = sendFrame lower sender input"
  by (simp add: sendFrame_def sendFields_def)

text \<open>Once the cache is full, no new key is accepted, whichever it is.\<close>

lemma full_cache_refuses_every_new_key:
  assumes "maxSendIdempotencyEntries \<le> length cache" and "map_of cache key = None"
  shows "\<exists>e. claimSend cache key fp = (ClaimRefused e, cache)"
  using assms by (simp add: claimSend_def)

text \<open>What the invariant says of a reachable state, fact by fact.\<close>

lemma sendReachable_facts:
  assumes "sendReachable s"
  shows "distinct (map fst (ys_sends s))" "length (ys_cache s) \<le> 128"
    "ys_phase s c = Answered key fp outcome \<Longrightarrow> (key, fp) \<in> set (ys_sends s)"
    "ys_phase s c = Answered key fp outcome \<Longrightarrow> ys_phase s d = Answered key fp' outcome' \<Longrightarrow>
       fp' = fp \<and> outcome' = outcome"
    "ys_phase s c = AwaitingOwner key fp \<Longrightarrow>
       (\<exists>d. ys_phase s d = Submitting key fp) \<or> (\<exists>outcome. map_of (ys_cache s) key =
          Some \<lparr>cm_fingerprint = fp, cm_outcome = Some outcome\<rparr>)"
proof -
  note I = sendInvD [OF sendReachable_inv [OF assms]]
  have "map fst (ys_sends s) = map fst (ys_cache s)" unfolding I(3) by (induction "ys_cache s") auto
  then show "distinct (map fst (ys_sends s))" using I(1) by simp
  show "length (ys_cache s) \<le> 128" using I(2) by (simp add: maxSendIdempotencyEntries_def)
  show "(key, fp) \<in> set (ys_sends s)" if "ys_phase s c = Answered key fp outcome"
    using I(4) [of c] that unfolding I(3) by (force simp: phaseOk_def dest: map_of_SomeD)
  show "fp' = fp \<and> outcome' = outcome"
    if "ys_phase s c = Answered key fp outcome" "ys_phase s d = Answered key fp' outcome'"
    using I(4) [of c] I(4) [of d] that by (simp add: phaseOk_def)
  show "(\<exists>d. ys_phase s d = Submitting key fp) \<or> (\<exists>outcome. map_of (ys_cache s) key =
      Some \<lparr>cm_fingerprint = fp, cm_outcome = Some outcome\<rparr>)" if "ys_phase s c = AwaitingOwner key fp"
  proof -
    from I(4) [of c] that obtain claim where claim: "map_of (ys_cache s) key = Some claim"
        "cm_fingerprint claim = fp" by (auto simp: phaseOk_def)
    show ?thesis
    proof (cases "cm_outcome claim")
      case None
      with I(6) [OF claim(1)] claim(2) show ?thesis by auto
    next
      case (Some outcome)
      with claim show ?thesis by (cases claim) auto
    qed
  qed
qed

text \<open>
  C36. In every interleaving of callers with idempotency keys each key is submitted at most once,
  the cache stays within 128 keys, and all answers for a key agree: a caller that is answered gets
  the outcome of the one submission of its key, which had the same fingerprint as its own request.
  A caller that waits has an owner that is submitting, or a recorded outcome.
\<close>

theorem send_at_most_once:
  assumes "sendReachable s"
  shows "distinct (map fst (ys_sends s)) \<and> length (ys_cache s) \<le> 128
    \<and> (\<forall>c key fp outcome. ys_phase s c = Answered key fp outcome \<longrightarrow>
         (key, fp) \<in> set (ys_sends s)
         \<and> (\<forall>d fp' outcome'. ys_phase s d = Answered key fp' outcome' \<longrightarrow> fp' = fp \<and> outcome' = outcome))
    \<and> (\<forall>c key fp. ys_phase s c = AwaitingOwner key fp \<longrightarrow>
         (\<exists>d. ys_phase s d = Submitting key fp)
         \<or> (\<exists>outcome. map_of (ys_cache s) key = Some \<lparr>cm_fingerprint = fp, cm_outcome = Some outcome\<rparr>))"
  using sendReachable_facts [OF assms] by (intro conjI allI impI) blast+

text \<open>Two callers with the same key: the second waits and gets the outcome of the first.\<close>

definition sampleRun :: "sendPhase \<Rightarrow> sendPhase \<Rightarrow> sendOutcome option \<Rightarrow> sendSystem" where
  "sampleRun p q outcome = \<lparr>ys_cache = [(''k'', \<lparr>cm_fingerprint = ''f'', cm_outcome = outcome\<rparr>)],
     ys_phase = (\<lambda>_. SendIdle)(0 := p, 1 := q), ys_sends = [(''k'', ''f'')]\<rparr>"

lemma sampleRun_reachable:
  "sendReachable (sampleRun (Answered ''k'' ''f'' o') (Answered ''k'' ''f'' o') (Some o'))"
proof -
  have claim: "claimSend [] ''k'' ''f'' = (ClaimOwner, [(''k'', \<lparr>cm_fingerprint = ''f'', cm_outcome = None\<rparr>)])"
    "claimSend [(''k'', \<lparr>cm_fingerprint = ''f'', cm_outcome = None\<rparr>)] ''k'' ''f''
      = (ClaimDuplicate, [(''k'', \<lparr>cm_fingerprint = ''f'', cm_outcome = None\<rparr>)])"
    by (simp_all add: claimSend_def maxSendIdempotencyEntries_def)
  have idle: "(\<lambda>_. SendIdle)(0 := p, Suc 0 := SendIdle) = (\<lambda>_. SendIdle)(0 := p)" for p
    by (simp add: fun_eq_iff)
  have "sendReachable (sampleRun (Submitting ''k'' ''f'') SendIdle None)"
    using sendReachable.step [OF sendReachable.start sendStep.own
      [where s = sendStart and c = 0 and key = "''k''" and fp = "''f''"]]
    by (simp add: sendStart_def newSendIdempotencyCache_def claim(1) sampleRun_def idle)
  then have "sendReachable (sampleRun (Submitting ''k'' ''f'') (AwaitingOwner ''k'' ''f'') None)"
    using sendReachable.step [OF _ sendStep.join [where s = "sampleRun (Submitting ''k'' ''f'') SendIdle None"
      and c = 1 and key = "''k''" and fp = "''f''"]] by (simp add: sampleRun_def claim(2))
  then have "sendReachable (sampleRun (Answered ''k'' ''f'' o') (AwaitingOwner ''k'' ''f'') (Some o'))"
    using sendReachable.step [OF _ sendStep.finish [where c = 0 and key = "''k''" and fp = "''f''" and outcome = o'
      and s = "sampleRun (Submitting ''k'' ''f'') (AwaitingOwner ''k'' ''f'') None"]]
    by (simp add: sampleRun_def completeSend_def fun_upd_twist)
  then show ?thesis
    using sendReachable.step [OF _ sendStep.wake [where c = 1 and key = "''k''" and fp = "''f''" and outcome = o'
      and s = "sampleRun (Answered ''k'' ''f'' o') (AwaitingOwner ''k'' ''f'') (Some o')"]]
    by (simp add: sampleRun_def)
qed

theorem send_at_most_once_witness:
  "sendReachable (sampleRun (Answered ''k'' ''f'' (emptySendResult, None))
       (Answered ''k'' ''f'' (emptySendResult, None)) (Some (emptySendResult, None)))
     \<and> distinct (map fst (ys_sends (sampleRun (Answered ''k'' ''f'' (emptySendResult, None))
         (Answered ''k'' ''f'' (emptySendResult, None)) (Some (emptySendResult, None)))))"
  using sampleRun_reachable send_at_most_once [OF sampleRun_reachable [of "(emptySendResult, None)"]]
  by simp

end
