(* ===== verification/Html_Text.thy ===== *)
theory Html_Text
  imports Mail_Validation
begin

text \<open>
  \<open>internal/mail/htmltext.go\<close>: the conversion of an HTML body to plain text. The scanner works on the
  rest of the input from the current index. \<open>html.UnescapeString\<close> and \<open>strings.ToLower\<close> on arbitrary
  Unicode text are arguments; nothing is assumed of them, in particular not that \<open>ToLower\<close> keeps the
  length of the text.
\<close>

definition maxHTMLNodes :: int where "maxHTMLNodes = 100000"
definition maxHTMLDepth :: int where "maxHTMLDepth = 1000"
definition maxHTMLTagBytes :: int where "maxHTMLTagBytes = 4096"

definition errMalformedHTML :: goError where
  "errMalformedHTML = mailError codeProtocolError ''HTML body is malformed''"

section \<open>Tags\<close>

text \<open>\<open>strings.Index\<close>.\<close>

fun indexStr :: "string \<Rightarrow> string \<Rightarrow> nat option" where
  "indexStr [] p = (if p = [] then Some 0 else None)"
| "indexStr (c # cs) p =
     (if hasPrefix (c # cs) p then Some 0 else map_option Suc (indexStr cs p))"

text \<open>
  The loop of \<open>htmlTagEnd\<close> on the bytes after the start, with the open quote; the result is the
  offset of the closing \<open>>\<close> in them.
\<close>

fun tagEndLoop :: "char option \<Rightarrow> string \<Rightarrow> nat option" where
  "tagEndLoop quot [] = None"
| "tagEndLoop quot (c # cs) =
     (if c = CHR 0x27 \<or> c = dquote
      then map_option Suc
             (tagEndLoop (case quot of
                None \<Rightarrow> Some c
              | Some q \<Rightarrow> if c = q then None else Some q) cs)
      else if c = CHR ''>'' \<and> quot = None then Some 0
      else map_option Suc (tagEndLoop quot cs))"

text \<open>\<open>htmlTagEnd\<close> on the input from the start; the offset is from the start.\<close>

definition htmlTagEnd :: "string \<Rightarrow> nat option" where
  "htmlTagEnd s = (case s of [] \<Rightarrow> None | _ # rest \<Rightarrow> map_option Suc (tagEndLoop None rest))"

definition htmlTagName :: "string \<Rightarrow> string" where
  "htmlTagName tag =
     takeWhile (\<lambda>c. c \<notin> {sp, tab, cr, lf, CHR ''/'', CHR ''>''}) (trimPrefix (trimSpace tag) ''/'')"

definition isHTMLVoid :: "string \<Rightarrow> bool" where
  "isHTMLVoid name \<longleftrightarrow>
     name \<in> set [''area'', ''base'', ''br'', ''col'', ''embed'', ''hr'', ''img'', ''input'', ''link'', ''meta'',
       ''param'', ''source'', ''track'', ''wbr'']"

definition hiddenElement :: "string \<Rightarrow> bool" where
  "hiddenElement name \<longleftrightarrow> name \<in> set [''script'', ''style'', ''template'', ''head'']"

definition blockElement :: "string \<Rightarrow> bool" where
  "blockElement name \<longleftrightarrow>
     name \<in> set [''br'', ''p'', ''div'', ''li'', ''tr'', ''h1'', ''h2'', ''h3'', ''h4'', ''h5'', ''h6'',
       ''blockquote'', ''pre'', ''table'', ''ul'', ''ol'']"

definition appendHTMLNewline :: "string \<Rightarrow> string" where
  "appendHTMLNewline out = (if out \<noteq> [] \<and> \<not> hasSuffix out [lf] then out @ [lf] else out)"

section \<open>Normalisation\<close>

definition runeError :: string where "runeError = [CHR 0xEF, CHR 0xBF, CHR 0xBD]"

text \<open>
  The loop over runes: a byte that does not start a valid rune is the rune U+FFFD. Its state is the
  output, the pending space and the number of newlines.
\<close>

function normalizeLoop :: "string \<Rightarrow> string \<Rightarrow> bool \<Rightarrow> nat \<Rightarrow> string" where
  "normalizeLoop s out space newlines =
     (case s of
        [] \<Rightarrow> out
      | c # cs \<Rightarrow>
          if c = cr \<or> c = tab \<or> c = sp then normalizeLoop cs out True newlines
          else if c = lf
          then normalizeLoop cs (if newlines < 2 \<and> out \<noteq> [] then out @ [lf] else out) False
                 (if newlines < 2 then newlines + 1 else newlines)
          else
            let n = utf8Size s;
                rune = (if n = 0 then runeError else take n s) in
            normalizeLoop (drop (if n = 0 then 1 else n) s)
              (out @ (if space \<and> out \<noteq> [] then [sp] else []) @ rune) False 0)"
  by pat_completeness auto
termination
  by (relation "measure (\<lambda>(s, out, space, newlines). length s)") auto

declare normalizeLoop.simps [simp del]

definition normalizeHTMLText :: "string \<Rightarrow> string" where
  "normalizeHTMLText v = trimSpace (normalizeLoop v [] False 0)"

section \<open>The scanner\<close>

text \<open>
  How the loop ends: with the malformed error, at the node limit, or with the collected text.
  \<open>mx\<close> is \<open>maxBytes\<close>.
\<close>

datatype scanEnd = Malformed | TooManyNodes | Text string

lemma htmlTagEnd_less: "htmlTagEnd s = Some e \<Longrightarrow> e < length s"
proof -
  have loop: "tagEndLoop quot r = Some k \<Longrightarrow> k < length r" for quot r k
    by (induction quot r arbitrary: k rule: tagEndLoop.induct) (auto split: if_splits)
  assume "htmlTagEnd s = Some e"
  then show ?thesis by (auto simp: htmlTagEnd_def dest: loop split: list.splits)
qed

function htmlLoop ::
  "(string \<Rightarrow> string) \<Rightarrow> (string \<Rightarrow> string) \<Rightarrow> nat \<Rightarrow> string \<Rightarrow> nat \<Rightarrow> nat \<Rightarrow> string \<Rightarrow> scanEnd" where
  "htmlLoop lower unescape mx input nodes depth out =
     (if input = [] then Text out
      else if hd input = CHR ''<''
      then
        if hasPrefix input ''<!--''
        then (case indexStr (drop 4 input) ''-->'' of
                None \<Rightarrow> Malformed
              | Some e \<Rightarrow> htmlLoop lower unescape mx (drop (4 + e + 3) input) nodes depth out)
        else (case htmlTagEnd input of
          None \<Rightarrow> Malformed
        | Some e \<Rightarrow>
            if maxHTMLNodes < int (nodes + 1) then TooManyNodes
            else
              let tag = take (e - 1) (drop 1 input);
                  closing = hasPrefix tag ''/'';
                  selfClosing = hasSuffix (trimSpace tag) ''/'';
                  name = lower (htmlTagName tag);
                  rest = drop (e + 1) input in
              if maxHTMLTagBytes < int (length name) then Malformed
              else if hiddenElement name \<and> \<not> closing \<and> \<not> selfClosing
              then (case indexStr (lower rest) (''</'' @ name) of
                      None \<Rightarrow> Malformed
                    | Some found \<Rightarrow>
                        (case htmlTagEnd (drop found rest) of
                           None \<Rightarrow> Malformed
                         | Some closeEnd \<Rightarrow>
                             htmlLoop lower unescape mx (drop (found + closeEnd + 1) rest) (nodes + 1)
                               depth out))
              else
                let out' = (if blockElement name then appendHTMLNewline out else out) in
                if \<not> closing \<and> \<not> selfClosing \<and> \<not> isHTMLVoid name
                then (if maxHTMLDepth < int (depth + 1) then Malformed
                      else htmlLoop lower unescape mx rest (nodes + 1) (depth + 1) out')
                else htmlLoop lower unescape mx rest (nodes + 1)
                       (if closing \<and> 0 < depth then depth - 1 else depth) out')
      else
        let text = takeWhile (\<lambda>c. c \<noteq> CHR ''<'') input;
            out' = out @ unescape text in
        if mx * 4 < length out' then Text out'
        else htmlLoop lower unescape mx (drop (length text) input) nodes depth out')"
  by pat_completeness auto
termination
proof (relation "measure (\<lambda>(lower, unescape, mx, input, nodes, depth, out). length input)", goal_cases)
  case (2 lower unescape mx input nodes depth out x)
  then show ?case by (cases input) auto
next
  case (6 lower unescape mx input nodes depth out t)
  then have "takeWhile (\<lambda>c. c \<noteq> CHR ''<'') input \<noteq> []" by (cases input) auto
  with 6 show ?case by (cases input) auto
qed (auto dest!: htmlTagEnd_less)

declare htmlLoop.simps [simp del]

definition htmlToText ::
  "(string \<Rightarrow> string) \<Rightarrow> (string \<Rightarrow> string) \<Rightarrow> string \<Rightarrow> nat \<Rightarrow> goError + (string \<times> bool)" where
  "htmlToText lower unescape input mx =
     (case htmlLoop lower unescape mx input 0 0 [] of
        Malformed \<Rightarrow> Inl errMalformedHTML
      | TooManyNodes \<Rightarrow> Inr ([], True)
      | Text out \<Rightarrow>
          let normalized = normalizeHTMLText out in
          if mx < length normalized then Inr (truncateUTF8 normalized mx, True)
          else Inr (normalized, False))"

section \<open>Properties\<close>

lemma indexStr_first: "p \<noteq> [] \<Longrightarrow> hd p \<notin> set u \<Longrightarrow> indexStr (u @ p @ v) p = Some (length u)"
proof (induction u)
  case Nil
  then show ?case by (cases p) (auto simp: hasPrefix_iff)
next
  case (Cons c u)
  then have "\<not> hasPrefix (c # u @ p @ v) p" by (cases p) auto
  with Cons show ?case by simp
qed

lemma tagEnd_plain: "set u \<inter> {CHR 0x27, dquote, CHR ''>''} = {} \<Longrightarrow>
    tagEndLoop None (u @ CHR ''>'' # v) = Some (length u)"
  by (induction u) auto

lemma htmlTagEnd_plain: "set u \<inter> {CHR 0x27, dquote, CHR ''>''} = {} \<Longrightarrow>
    htmlTagEnd (CHR ''<'' # u @ CHR ''>'' # v) = Some (Suc (length u))"
  by (simp add: htmlTagEnd_def tagEnd_plain)

lemma lowerByte_lt: "lowerByte c = CHR ''<'' \<longleftrightarrow> c = CHR ''<''"
proof (cases "inRange 0x41 0x5A c")
  case True
  then have "bval (lowerByte c) = bval c + 32"
    by (simp add: lowerByte_def inRange_def bval_def)
  with True show ?thesis by (auto simp: inRange_def bval_def)
qed (simp add: lowerByte_def)

lemma hidden_names:
  assumes "name \<in> {''script'', ''style'', ''template'', ''head''}"
  shows "htmlTagName name = name" "map lowerByte name = name" "hasSuffix (trimSpace name) ''/'' = False"
    "hasPrefix name ''/'' = False" "hiddenElement name" "int (length name) \<le> maxHTMLTagBytes"
    "set name \<inter> {CHR 0x27, dquote, CHR ''>'', CHR ''<''} = {}" "name \<noteq> []"
proof -
  have "htmlTagName ''script'' = ''script''" "htmlTagName ''style'' = ''style''"
    "htmlTagName ''template'' = ''template''" "htmlTagName ''head'' = ''head''"
    "hasSuffix (trimSpace ''script'') ''/'' = False" "hasSuffix (trimSpace ''style'') ''/'' = False"
    "hasSuffix (trimSpace ''template'') ''/'' = False" "hasSuffix (trimSpace ''head'') ''/'' = False"
    by code_simp+
  moreover have "map lowerByte ''script'' = ''script''" "map lowerByte ''style'' = ''style''"
    "map lowerByte ''template'' = ''template''" "map lowerByte ''head'' = ''head''"
    by code_simp+
  ultimately show "htmlTagName name = name" "map lowerByte name = name"
    "hasSuffix (trimSpace name) ''/'' = False"
    "hasPrefix name ''/'' = False" "hiddenElement name" "int (length name) \<le> maxHTMLTagBytes"
    "set name \<inter> {CHR 0x27, dquote, CHR ''>'', CHR ''<''} = {}" "name \<noteq> []"
    using assms by (auto simp: hiddenElement_def maxHTMLTagBytes_def)
qed

text \<open>
  Script, style, template and head elements contribute nothing to the text, and neither do the
  tags themselves: when letter case is folded byte by byte (as it is for ASCII text), the scanner
  goes from the start tag directly behind the end tag, whatever the element contains besides a
  further tag, with the output and the depth unchanged and one node counted.
\<close>

theorem hidden_elements_excluded:
  assumes "name \<in> {''script'', ''style'', ''template'', ''head''}" and "CHR ''<'' \<notin> set body"
    and "int nodes < maxHTMLNodes"
  shows "htmlLoop (map lowerByte) unescape mx
      (''<'' @ name @ ''>'' @ body @ ''</'' @ name @ ''>'' @ rest) nodes depth out =
    htmlLoop (map lowerByte) unescape mx rest (nodes + 1) depth out"
proof -
  note n = hidden_names [OF assms(1)]
  let ?rest = "body @ ''</'' @ name @ ''>'' @ rest"
  let ?input = "CHR ''<'' # name @ CHR ''>'' # ?rest"
  have noComment: "\<not> hasPrefix ?input ''<!--''"
    using assms(1) by (elim insertE emptyE) simp_all
  have tagEnd: "htmlTagEnd ?input = Some (Suc (length name))"
    by (rule htmlTagEnd_plain) (use n(7) in auto)
  have lowered: "map lowerByte ?rest = map lowerByte body @ (''</'' @ name) @ CHR ''>'' # map lowerByte rest"
    using n(2) by (simp add: lowerByte_def inRange_def bval_def)
  have "CHR ''<'' \<notin> set (map lowerByte body)"
  proof
    assume "CHR ''<'' \<in> set (map lowerByte body)"
    then obtain c where "c \<in> set body" "lowerByte c = CHR ''<''" by (metis (no_types) in_set_conv_nth length_map nth_map)
    then have "CHR ''<'' \<in> set body" using lowerByte_lt [of c] by simp
    with assms(2) show False by contradiction
  qed
  then have found: "indexStr (map lowerByte ?rest) (''</'' @ name) = Some (length body)"
    unfolding lowered using indexStr_first [of "''</'' @ name" "map lowerByte body"] by simp
  have closeEnd: "htmlTagEnd (drop (length body) ?rest) = Some (Suc (Suc (length name)))"
    using htmlTagEnd_plain [of "CHR ''/'' # name" rest] n(7) by auto
  have "htmlLoop (map lowerByte) unescape mx ?input nodes depth out =
      htmlLoop (map lowerByte) unescape mx
        (drop (length body + Suc (Suc (length name)) + 1) ?rest) (nodes + 1) depth out"
    using noComment tagEnd found closeEnd n assms(3)
    by (subst htmlLoop.simps) (simp add: Let_def)
  moreover have "drop (length body + Suc (Suc (length name)) + 1) ?rest = rest"
    by (simp add: numeral_3_eq_3)
  ultimately show ?thesis by simp
qed

theorem hidden_elements_excluded_witness:
  "htmlLoop (map lowerByte) (\<lambda>s. s) 50
      (''<'' @ ''style'' @ ''>'' @ ''p > a { }'' @ ''</'' @ ''style'' @ ''>'' @ ''hello'') 0 0 [] =
    htmlLoop (map lowerByte) (\<lambda>s. s) 50 ''hello'' (0 + 1) 0 []"
  by (rule hidden_elements_excluded) (simp_all add: maxHTMLNodes_def)

text \<open>
  The offset of the end tag is taken from the lower-cased text but used in the original one. The
  Kelvin sign U+212A takes three bytes and its lower case one, so five of them in a script move the
  offset in front of a \<open>>\<close> of the script, and what follows it becomes part of the text.
\<close>

definition leakingScript :: string where
  "leakingScript = ''<script>'' @ concat (replicate 5 [CHR 0xE2, CHR 0x84, CHR 0xAA])
     @ ''a>b secret</script>''"

lemma script_text_leaks: "htmlToText toLower (\<lambda>s. s) leakingScript 20 = Inr (''b secret'', False)"
  by code_simp

lemma htmlToText_bounded: "htmlToText lower unescape input mx = Inr (t, truncated) \<Longrightarrow> length t \<le> mx"
  by (auto simp: htmlToText_def Let_def truncateUTF8_length split: scanEnd.splits if_splits)

end
