(* ===== verification/Mail_Read.thy ===== *)
theory Mail_Read
  imports Mail_Mutation Html_Text
begin

text \<open>
  \<open>internal/mail/read.go\<close>: \<open>GetMessage\<close> with the choice of the body part, the decoding of plain and
  HTML bodies, attachments and their part numbers, and the fitting of the result into its limit.
  The MIME reader of go-message is the argument \<open>readEntity\<close>, the JSON length of a message the
  argument \<open>serializedSize\<close>; nothing is assumed of them.
\<close>

definition defaultBodyBytes :: int where "defaultBodyBytes = 102400"
definition maxBodyBytes :: int where "maxBodyBytes = 204800"
definition maxWireBytes :: int where "maxWireBytes = 524288"
definition maxMimeHeader :: int where "maxMimeHeader = 65536"
definition maxAttachments :: nat where "maxAttachments = 100"

record getMessageInput =
  gm_mailbox :: string
  gm_uidValidity :: "32 word"
  gm_uid :: "32 word"
  gm_maxBodyBytes :: int
  gm_allowHTMLFallback :: bool

record attachment =
  at_partID :: string
  at_filename :: string
  at_contentType :: string
  at_size :: "32 word"
  at_contentID :: string

type_synonym warning = "string \<times> string"

text \<open>The struct embeds the summary.\<close>

record message = messageSummary +
  mg_replyTo :: "address list"
  mg_inReplyTo :: "string list"
  mg_references :: "string list"
  mg_body :: string
  mg_bodySource :: string
  mg_bodyOmitted :: bool
  mg_bodyUnavailableReason :: string
  mg_attachments :: "attachment list"
  mg_warnings :: "warning list"

section \<open>Part numbers\<close>

text \<open>\<open>itoa\<close> writes the digits from the last one back; a negative value has none.\<close>

function itoaLoop :: "int \<Rightarrow> string \<Rightarrow> string" where
  "itoaLoop v digits =
     (if 0 < v then itoaLoop (v div 10) (char_of (48 + nat (v mod 10)) # digits) else digits)"
  by pat_completeness auto
termination
  by (relation "measure (\<lambda>(v, digits). nat v)") auto

declare itoaLoop.simps [simp del]

definition itoa :: "int \<Rightarrow> string" where
  "itoa v = (if v = 0 then ''0'' else itoaLoop v [])"

definition partID :: "nat list \<Rightarrow> string" where
  "partID path = (if path = [] then ''root'' else joinByte (CHR ''.'') (map (itoa \<circ> int) path))"

section \<open>Bodies\<close>

text \<open>\<open>strings.ToValidUTF8\<close> with U+FFFD: each run of invalid bytes becomes one replacement.\<close>

function toValidUTF8 :: "string \<Rightarrow> bool \<Rightarrow> string" where
  "toValidUTF8 s inRun =
     (if s = [] then []
      else let n = utf8Size s in
        if n = 0 then (if inRun then [] else runeError) @ toValidUTF8 (drop 1 s) True
        else take n s @ toValidUTF8 (drop n s) False)"
  by pat_completeness auto
termination
  by (relation "measure (\<lambda>(s, inRun). length s)") auto

declare toValidUTF8.simps [simp del]

text \<open>The header block, completed with the empty line that ends it, and the body.\<close>

definition combinedEntity :: "bytes \<Rightarrow> bytes \<Rightarrow> bytes" where
  "combinedEntity header body =
     (if \<not> hasSuffix header [cr, lf, cr, lf] \<and> \<not> hasSuffix header [lf, lf]
      then if hasSuffix header [cr, lf] then header @ [cr, lf]
           else if hasSuffix header [lf] then header @ [lf]
           else header @ [cr, lf, cr, lf]
      else header) @ body"

text \<open>
  An entity of go-message: its media type, and what reading at most \<open>n\<close> bytes of its decoded body
  yields; \<open>None\<close> is an error. \<open>io.LimitReader\<close> cuts at \<open>n\<close>.
\<close>

record entity =
  et_mediaType :: "string option"
  et_read :: "nat \<Rightarrow> bytes option"

definition readLimited :: "entity \<Rightarrow> nat \<Rightarrow> bytes option" where
  "readLimited e n = map_option (take n) (et_read e n)"

datatype bodyVerdict = BodyFailed | BodyOversized | BodyText string

definition decodePlainBody ::
  "(bytes \<Rightarrow> entity option) \<Rightarrow> bytes \<Rightarrow> bytes \<Rightarrow> nat \<Rightarrow> bodyVerdict" where
  "decodePlainBody readEntity header body mx =
     (if maxMimeHeader < int (length header) \<or> maxWireBytes < int (length body) then BodyOversized
      else case readEntity (combinedEntity header body) of
             None \<Rightarrow> BodyFailed
           | Some e \<Rightarrow>
               (case et_mediaType e of
                  None \<Rightarrow> BodyFailed
                | Some mediaType \<Rightarrow>
                    if \<not> equalFold mediaType ''text/plain'' then BodyFailed
                    else (case readLimited e (mx + 1) of
                            None \<Rightarrow> BodyFailed
                          | Some decoded \<Rightarrow>
                              if mx < length decoded then BodyOversized
                              else BodyText (toValidUTF8 decoded False))))"

definition decodeHTMLBody :: "(bytes \<Rightarrow> entity option) \<Rightarrow> bytes \<Rightarrow> bytes \<Rightarrow> string option" where
  "decodeHTMLBody readEntity header body =
     (if maxMimeHeader < int (length header) \<or> maxWireBytes < int (length body) then None
      else case readEntity (combinedEntity header body) of
             None \<Rightarrow> None
           | Some e \<Rightarrow>
               (case et_mediaType e of
                  None \<Rightarrow> None
                | Some mediaType \<Rightarrow>
                    if \<not> equalFold mediaType ''text/html'' then None
                    else (case readLimited e (nat maxWireBytes + 1) of
                            None \<Rightarrow> None
                          | Some decoded \<Rightarrow>
                              if maxWireBytes < int (length decoded) then None
                              else Some (toValidUTF8 decoded False))))"

section \<open>Fitting the result\<close>

text \<open>The loop that shortens the body; \<open>sz body\<close> is the length of the result with that body.\<close>

definition bodyCut :: "(string \<Rightarrow> int) \<Rightarrow> string \<Rightarrow> nat" where
  "bodyCut sz body = nat (int (length body) - (sz body - maxResultBytes) - 1024)"

function fitBody :: "(string \<Rightarrow> int) \<Rightarrow> string \<Rightarrow> string" where
  "fitBody sz body =
     (if maxResultBytes < sz body \<and> 0 < length body
      then fitBody sz (truncateUTF8 body (bodyCut sz body))
      else body)"
  by pat_completeness auto
termination
proof (relation "measure (\<lambda>(sz, body). length body)", goal_cases)
  case (2 sz body)
  then have "bodyCut sz body < length body" unfolding bodyCut_def by arith
  with truncateUTF8_length [of body "bodyCut sz body"] show ?case by simp
qed simp

declare fitBody.simps [simp del]

definition fitMessageResult :: "(message \<Rightarrow> int) \<Rightarrow> message \<Rightarrow> goError + message" where
  "fitMessageResult serializedSize result =
     (if serializedSize result \<le> maxResultBytes then Inr result
      else
        let r1 = (if mg_body result \<noteq> []
                  then let warned = result\<lparr>mg_warnings := mg_warnings result @ [(''body_truncated'',
                             ''message body was truncated to fit the result limit'')]\<rparr> in
                       warned\<lparr>mg_body := fitBody (\<lambda>b. serializedSize (warned\<lparr>mg_body := b\<rparr>)) (mg_body result)\<rparr>
                  else result);
            r2 = (if maxResultBytes < serializedSize r1
                  then r1\<lparr>mg_body := [], mg_bodyOmitted := True\<rparr> else r1) in
        if maxResultBytes < serializedSize r2
        then Inl (mailError codePayloadTooLarge ''message metadata exceeds the result limit'')
        else Inr r2)"

section \<open>GetMessage\<close>

text \<open>
  The loop over the parts: the first inline plain part, the first HTML part that is no attachment,
  and the attachments.
\<close>

record partChoice =
  pc_selected :: "bodyPart option"
  pc_html :: "bodyPart option"
  pc_attachments :: "attachment list"

fun choosePart :: "partChoice \<Rightarrow> bodyPart list \<Rightarrow> fault + partChoice" where
  "choosePart choice [] = Inr choice"
| "choosePart choice (part # parts) =
     (let c1 = (if bp_contentType part = ''text/html'' \<and> \<not> bp_attachment part \<and> pc_html choice = None
                then choice\<lparr>pc_html := Some part\<rparr> else choice);
          c2 = (if pc_selected c1 = None \<and> bp_inlinePlain part
                then c1\<lparr>pc_selected := Some part\<rparr> else c1) in
      if bp_attachment part
      then if maxAttachments \<le> length (pc_attachments c2) then Inl (imapFault ErrorTooLarge False)
           else choosePart (c2\<lparr>pc_attachments := pc_attachments c2 @
                  [\<lparr>at_partID = partID (bp_path part), at_filename = bp_filename part,
                    at_contentType = bp_contentType part, at_size = bp_size part,
                    at_contentID = bp_contentID part\<rparr>]\<rparr>) parts
      else choosePart c2 parts)"

definition initialMessage :: "getMessageInput \<Rightarrow> imapMessage \<Rightarrow> message" where
  "initialMessage input item =
     (let summary = summaryFromProtocol (gm_mailbox input) (gm_uidValidity input) item;
          headers = im_headers item; envelope = im_envelope item in
      \<lparr>ms_mailbox = ms_mailbox summary, ms_uidValidity = ms_uidValidity summary,
       ms_uid = ms_uid summary, ms_flags = ms_flags summary, ms_from = ms_from summary,
       ms_to = ms_to summary, ms_cc = ms_cc summary, ms_subject = ms_subject summary,
       ms_internalDate = ms_internalDate summary, ms_headerDate = ms_headerDate summary,
       ms_size = ms_size summary,
       ms_messageID = (if ch_messageID headers \<noteq> [] then ch_messageID headers else ms_messageID summary),
       ms_modSeq = ms_modSeq summary,
       mg_replyTo = (if ch_replyTo headers = [] then publicAddresses (en_replyTo envelope)
                     else publicAddresses (ch_replyTo headers)),
       mg_inReplyTo = (if ch_inReplyTo headers = [] then en_inReplyTo envelope else ch_inReplyTo headers),
       mg_references = ch_references headers, mg_body = [], mg_bodySource = [], mg_bodyOmitted = False,
       mg_bodyUnavailableReason = [], mg_attachments = [], mg_warnings = []\<rparr>)"

definition warn :: "string \<Rightarrow> string \<Rightarrow> message \<Rightarrow> message" where
  "warn c text m = m\<lparr>mg_warnings := mg_warnings m @ [(c, text)]\<rparr>"

text \<open>The result of an HTML-only message whose HTML may be converted.\<close>

definition htmlResult ::
  "(bytes \<Rightarrow> entity option) \<Rightarrow> (string \<Rightarrow> string) \<Rightarrow> (string \<Rightarrow> string) \<Rightarrow> nat \<Rightarrow> message \<Rightarrow> bodyData
     \<Rightarrow> message" where
  "htmlResult readEntity lower unescape maxBody result data =
     (let omitted = result\<lparr>mg_bodyOmitted := True, mg_bodyUnavailableReason := ''html_only''\<rparr> in
      if bd_tooLarge data
      then warn ''html_too_large'' ''HTML body exceeded the wire-byte limit and was omitted'' omitted
      else case decodeHTMLBody readEntity (bd_mimeHeader data) (bd_body data) of
             None \<Rightarrow> warn ''html_decode_failed''
               ''HTML body could not be safely decoded and was omitted'' omitted
           | Some htmlBody \<Rightarrow>
               (case htmlToText lower unescape htmlBody maxBody of
                  Inl _ \<Rightarrow> warn ''html_malformed'' ''HTML body was malformed and was omitted'' omitted
                | Inr (text, truncated) \<Rightarrow>
                    let r = result\<lparr>mg_body := text, mg_bodySource := ''html_fallback''\<rparr> in
                    if truncated
                    then warn ''html_truncated'' ''HTML text was truncated to max_body_bytes'' r
                    else r))"

definition plainResult :: "(bytes \<Rightarrow> entity option) \<Rightarrow> nat \<Rightarrow> message \<Rightarrow> bodyData \<Rightarrow> message" where
  "plainResult readEntity maxBody result data =
     (if bd_tooLarge data
      then warn ''body_too_large'' ''plain-text body exceeded the wire-byte limit and was omitted''
             (result\<lparr>mg_bodyOmitted := True\<rparr>)
      else case decodePlainBody readEntity (bd_mimeHeader data) (bd_body data) maxBody of
             BodyFailed \<Rightarrow> warn ''body_decode_failed''
               ''plain-text body could not be safely decoded and was omitted''
               (result\<lparr>mg_bodyOmitted := True\<rparr>)
           | BodyOversized \<Rightarrow> warn ''body_too_large''
               ''decoded plain-text body exceeded max_body_bytes and was omitted''
               (result\<lparr>mg_bodyOmitted := True\<rparr>)
           | BodyText body \<Rightarrow> result\<lparr>mg_body := body, mg_bodySource := ''plain_text''\<rparr>)"

record readLib =
  rl_serializedSize :: "message \<Rightarrow> int"
  rl_readEntity :: "bytes \<Rightarrow> entity option"
  rl_lower :: "string \<Rightarrow> string"
  rl_unescape :: "string \<Rightarrow> string"

definition opFit :: "readLib \<Rightarrow> message \<Rightarrow> ('w, message) op" where
  "opFit lib result =
     (case fitMessageResult (rl_serializedSize lib) result of
        Inl e \<Rightarrow> opFail (publicFault e) | Inr m \<Rightarrow> opReturn m)"

text \<open>The body of the message, once the parts are known.\<close>

definition readBody ::
  "readLib \<Rightarrow> 'w imapSession \<Rightarrow> getMessageInput \<Rightarrow> nat \<Rightarrow> partChoice \<Rightarrow> message \<Rightarrow> ('w, message) op" where
  "readBody lib session input maxBody choice result =
     (case pc_selected choice of
        Some part \<Rightarrow>
          opBind (opCall (ss_fetchBodyPart session (gm_uid input) (bp_path part)))
            (\<lambda>data. opFit lib (plainResult (rl_readEntity lib) maxBody result data))
      | None \<Rightarrow>
          (case pc_html choice of
             None \<Rightarrow> opFit lib (result\<lparr>mg_bodyUnavailableReason := ''no_plain_text''\<rparr>)
           | Some part \<Rightarrow>
               if \<not> gm_allowHTMLFallback input
               then opFit lib (result\<lparr>mg_bodyUnavailableReason := ''html_only''\<rparr>)
               else opBind (opCall (ss_fetchBodyPart session (gm_uid input) (bp_path part)))
                      (\<lambda>data. opFit lib (htmlResult (rl_readEntity lib) (rl_lower lib)
                         (rl_unescape lib) maxBody result data))))"

definition getOperation ::
  "readLib \<Rightarrow> 'w imapSession \<Rightarrow> getMessageInput \<Rightarrow> nat \<Rightarrow> ('w, message) op" where
  "getOperation lib session input maxBody =
     opBind (opCall (ss_select session (gm_mailbox input) True)) (\<lambda>selected.
       if sm_uidValidity selected \<noteq> gm_uidValidity input
       then opFail (publicFault (mailError codeConcurrentModification
              ''mailbox UIDVALIDITY changed; search for the message again''))
       else opBind (opCall (ss_fetchMetadata session [gm_uid input] True)) (\<lambda>metadata.
         case metadata of
           [item] \<Rightarrow>
             if im_uid item \<noteq> gm_uid input then opFail (imapFault ErrorNotFound False)
             else (case choosePart \<lparr>pc_selected = None, pc_html = None, pc_attachments = []\<rparr>
                          (im_parts item) of
                     Inl e \<Rightarrow> opFail e
                   | Inr choice \<Rightarrow>
                       readBody lib session input maxBody choice
                         ((initialMessage input item)\<lparr>mg_attachments := pc_attachments choice\<rparr>))
         | _ \<Rightarrow> opFail (imapFault ErrorNotFound False)))"

definition bodyLimit :: "getMessageInput \<Rightarrow> int" where
  "bodyLimit input = (if gm_maxBodyBytes input = 0 then defaultBodyBytes else gm_maxBodyBytes input)"

definition getMessage ::
  "readLib \<Rightarrow> 'w mailEnv \<Rightarrow> mailClient \<Rightarrow> getMessageInput \<Rightarrow> 'w \<Rightarrow> (goError + message) \<times> 'w" where
  "getMessage lib env client input w =
     (case validateIdentity (gm_mailbox input) (gm_uidValidity input) (gm_uid input) of
        Some e \<Rightarrow> (Inl e, w)
      | None \<Rightarrow>
          if bodyLimit input < 1 \<or> maxBodyBytes < bodyLimit input
          then (Inl (mailValidationError ''max_body_bytes must be between 1 and 204800''), w)
          else mailRead env client
                 (getOperation lib (me_session env) input (nat (bodyLimit input))) w)"

section \<open>Part numbers are unique\<close>

lemma digit_byte: "inRange 0x30 0x39 (char_of (48 + d)) \<and> bval (char_of (48 + d)) = 48 + d" if "d < 10"
  using that by (simp add: inRange_def bval_def)

lemma itoaLoop_value: "0 \<le> v \<Longrightarrow> digitsValue (itoaLoop v digits) 0 = digitsValue digits (nat v)"
proof (induction v digits rule: itoaLoop.induct)
  case (1 v digits)
  show ?case
  proof (cases "0 < v")
    case True
    let ?d = "nat (v mod 10)"
    have "?d < 10" by simp
    have v: "nat (v div 10) * 10 + ?d = nat v"
      using True by (simp add: nat_div_distrib nat_mod_distrib)
    from digit_byte [OF \<open>?d < 10\<close>] have step: "digitsValue (char_of (48 + ?d) # digits) (nat (v div 10))
        = digitsValue digits (nat v)"
      using v by simp
    have "itoaLoop v digits = itoaLoop (v div 10) (char_of (48 + ?d) # digits)"
      using True by (subst itoaLoop.simps) simp
    with 1(1) [OF True] True step show ?thesis by simp
  next
    case False
    with 1(2) show ?thesis by (simp add: itoaLoop.simps)
  qed
qed

lemma itoa_value: "digitsValue (itoa (int n)) 0 = Some n"
  using itoaLoop_value [of "int n" "[]"]
  by (auto simp: itoa_def inRange_def bval_def)

lemma itoa_inj: "itoa (int m) = itoa (int n) \<longleftrightarrow> m = n"
  by (metis itoa_value option.inject)

lemma digitsValue_digits: "digitsValue ds acc = Some n \<Longrightarrow> c \<in> set ds \<Longrightarrow> inRange 0x30 0x39 c"
  by (induction ds arbitrary: acc) (auto split: if_splits)

lemma itoa_digits: "c \<in> set (itoa (int n)) \<Longrightarrow> inRange 0x30 0x39 c"
  using digitsValue_digits [OF itoa_value] .

lemma partID_split:
  "path \<noteq> [] \<Longrightarrow> splitByte (partID path) (CHR ''.'') = map (itoa \<circ> int) path"
  unfolding partID_def
  by (simp, rule split_join) (auto dest!: itoa_digits simp: inRange_def bval_def)

lemma itoa_ne: "itoa (int n) \<noteq> ''root''"
  using itoa_digits [of "CHR ''r''" n] by (auto simp: inRange_def bval_def)

lemma partID_root: "partID path = ''root'' \<longleftrightarrow> path = []"
proof -
  have "\<not> (path \<noteq> [] \<and> partID path = ''root'')"
  proof
    assume path: "path \<noteq> [] \<and> partID path = ''root''"
    then have "map (itoa \<circ> int) path = [''root'']" using partID_split [of path] by simp
    with itoa_ne show False by (cases path) auto
  qed
  then show ?thesis by (auto simp: partID_def)
qed

lemma partID_inj: "partID p = partID q \<longleftrightarrow> p = q"
proof (cases "p = [] \<or> q = []")
  case True
  then show ?thesis using partID_root [of p] partID_root [of q] by (auto simp: partID_def)
next
  case False
  show ?thesis
  proof
    assume "partID p = partID q"
    then have "map (itoa \<circ> int) p = map (itoa \<circ> int) q" using False partID_split by metis
    then show "p = q" by (rule map_injective) (auto intro!: injI simp: itoa_inj)
  qed simp
qed

text \<open>The attachments come from the attached parts, in order, so different paths give different identifiers.\<close>

lemma choosePart_partIDs:
  "choosePart c parts = Inr c' \<Longrightarrow>
     map at_partID (pc_attachments c') = map at_partID (pc_attachments c)
       @ map (partID \<circ> bp_path) (filter bp_attachment parts)"
proof (induction parts arbitrary: c)
  case (Cons part parts)
  then show ?case by (auto simp: Let_def split: if_splits)
qed simp

lemma attachment_ids_distinct:
  assumes "choosePart \<lparr>pc_selected = None, pc_html = None, pc_attachments = []\<rparr> parts = Inr c"
    and "distinct (map bp_path parts)"
  shows "distinct (map at_partID (pc_attachments c))"
proof -
  have "distinct (map bp_path (filter bp_attachment parts))"
    using assms(2) by (simp add: distinct_map inj_on_def)
  then have "distinct (map partID (map bp_path (filter bp_attachment parts)))"
    unfolding distinct_map [of partID] by (simp add: inj_on_def partID_inj)
  with choosePart_partIDs [OF assms(1)] show ?thesis by simp
qed

section \<open>Decoded text\<close>

lemma utf8Size_take:
  assumes "0 < utf8Size s"
  shows "utf8Size (take (utf8Size s) s @ r) = utf8Size s"
  using assms
  by (cases s; cases "tl s"; cases "tl (tl s)"; cases "tl (tl (tl s))") (auto split: if_splits)

lemma validUTF8_rune:
  assumes "0 < utf8Size s" and "validUTF8 r"
  shows "validUTF8 (take (utf8Size s) s @ r)"
proof -
  have "length (take (utf8Size s) s) = utf8Size s" using utf8Size_le [of s] by simp
  then have "drop (utf8Size s) (take (utf8Size s) s @ r) = r" by simp
  moreover have "take (utf8Size s) s @ r \<noteq> []" using assms(1) by (cases s) auto
  ultimately show ?thesis
    using assms by (subst validUTF8.simps) (simp add: utf8Size_take)
qed

lemma runeError_size: "utf8Size runeError = 3" "length runeError = 3"
  by (simp_all add: runeError_def inRange_def bval_def)

lemma toValidUTF8_valid: "validUTF8 (toValidUTF8 s inRun)"
proof (induction s inRun rule: toValidUTF8.induct)
  case (1 s inRun)
  show ?case
  proof (cases "s = []")
    case True
    then show ?thesis by (simp add: toValidUTF8.simps validUTF8.simps)
  next
    case False
    show ?thesis
    proof (cases "utf8Size s = 0")
      case True
      have "validUTF8 (runeError @ r)" if "validUTF8 r" for r
        using validUTF8_rune [of runeError r] that by (simp add: runeError_size)
      with 1(1) [OF False refl True] False True show ?thesis
        by (simp add: toValidUTF8.simps [of s])
    next
      case n: False
      with 1(2) [OF False refl] False show ?thesis
        by (simp add: toValidUTF8.simps [of s] Let_def validUTF8_rune)
    qed
  qed
qed

lemma toValidUTF8_length: "length (toValidUTF8 s inRun) \<le> 3 * length s"
proof (induction s inRun rule: toValidUTF8.induct)
  case (1 s inRun)
  show ?case
  proof (cases "s = []")
    case True
    then show ?thesis by (simp add: toValidUTF8.simps)
  next
    case False
    then obtain c cs where s: "s = c # cs" by (cases s) auto
    show ?thesis
    proof (cases "utf8Size s = 0")
      case True
      with 1(1) [OF False refl True] s show ?thesis
        by (subst toValidUTF8.simps) (simp add: runeError_size)
    next
      case n: False
      with 1(2) [OF False refl] False utf8Size_le [of s] show ?thesis
        by (subst toValidUTF8.simps) (simp add: Let_def)
    qed
  qed
qed

lemma toValidUTF8_id: "validUTF8 s \<Longrightarrow> toValidUTF8 s inRun = s"
proof (induction s inRun rule: toValidUTF8.induct)
  case (1 s inRun)
  show ?case
  proof (cases "s = []")
    case False
    with 1(3) have n: "utf8Size s \<noteq> 0" "validUTF8 (drop (utf8Size s) s)"
      by (auto simp: validUTF8.simps [of s] split: if_splits)
    with 1(2) [OF False refl n] False show ?thesis by (subst toValidUTF8.simps) (simp add: Let_def)
  qed (simp add: toValidUTF8.simps)
qed

section \<open>Fitting\<close>

lemma fitBody_prefix: "\<exists>k. fitBody sz body = take k body"
proof (induction sz body rule: fitBody.induct)
  case (1 sz body)
  show ?case
  proof (cases "maxResultBytes < sz body \<and> 0 < length body")
    case True
    with 1 obtain k where "fitBody sz body = take k (truncateUTF8 body (bodyCut sz body))"
      by (auto simp: fitBody.simps [of sz body])
    then show ?thesis using truncateUTF8_props [of body "bodyCut sz body"] by (metis take_take)
  next
    case False
    then show ?thesis by (subst fitBody.simps) (metis order_refl take_all)
  qed
qed

text \<open>What fitting keeps: everything but the body, of which a prefix remains, and the warnings.\<close>

definition fitted :: "message \<Rightarrow> message \<Rightarrow> bool" where
  "fitted r m \<longleftrightarrow> (\<exists>k. mg_body m = take k (mg_body r)) \<and> mg_attachments m = mg_attachments r
     \<and> messageSummary.truncate m = messageSummary.truncate r \<and> mg_bodySource m = mg_bodySource r
     \<and> (mg_bodyOmitted m \<longrightarrow> mg_bodyOmitted r \<or> mg_body m = [])
     \<and> mg_replyTo m = mg_replyTo r \<and> mg_references m = mg_references r"

lemma fitMessageResult_Inr:
  assumes "fitMessageResult sz r = Inr m"
  shows "sz m \<le> maxResultBytes \<and> fitted r m"
proof -
  have pre: "\<exists>k. fitBody sz' b = take k b" for sz' b by (rule fitBody_prefix)
  have zero: "\<exists>k. [] = take k b" for b :: string by (rule exI [of _ 0]) simp
  have all: "\<exists>k. b = take k b" for b :: string by (rule exI [of _ "length b"]) simp
  show ?thesis
    using assms pre zero all
    by (auto simp: fitMessageResult_def fitted_def Let_def messageSummary.defs split: if_splits)
qed

section \<open>Reading never mutates\<close>

text \<open>The reads of a session as a contract that extends the one of the mutations.\<close>

locale mail_read_log = mail_log env logOf
  for env :: "'w mailEnv" and logOf :: "'w \<Rightarrow> imapEvent list" +
  assumes search_log: "logOf (snd (ss_search (me_session env) rq w)) = logOf w"
    and metadata_log: "logOf (snd (ss_fetchMetadata (me_session env) us h w)) = logOf w"
    and body_log: "logOf (snd (ss_fetchBodyPart (me_session env) u p w)) = logOf w"
begin

definition quiet :: "('w, 'a) op \<Rightarrow> bool" where
  "quiet operation \<longleftrightarrow> (\<forall>s. logOf (snd (snd (operation s))) = logOf (snd s))"

lemma quiet_return [intro!]: "quiet (opReturn a)" "quiet (opFail e)" "quiet (opGet f)"
  by (simp_all add: quiet_def op_defs)

lemma quiet_bind [intro!]: "quiet m \<Longrightarrow> (\<And>a. quiet (f a)) \<Longrightarrow> quiet (opBind m f)"
  by (auto simp: quiet_def opBind_def split: prod.splits call.splits) (metis snd_conv)+

lemma quiet_try [intro!]: "quiet m \<Longrightarrow> quiet (opTry m)"
  by (auto simp: quiet_def opTry_def split: prod.splits call.splits) (metis snd_conv)+

lemma quiet_call: "(\<And>w. logOf (snd (f w)) = logOf w) \<Longrightarrow> quiet (opCall f)"
  by (auto simp: quiet_def opCall_def split: prod.splits) (metis snd_conv)

lemmas quiet_calls [intro!] =
  quiet_call [OF list_log] quiet_call [OF select_log] quiet_call [OF search_log]
  quiet_call [OF metadata_log] quiet_call [OF body_log]

lemma quiet_attempt:
  assumes "quiet operation"
  shows "logOf (snd (snd (imapAttempt env client phase operation w))) = logOf w"
proof -
  obtain r1 w1 where 1: "me_imapDial env w = (r1, w1)" by (rule prod.exhaust)
  obtain r2 w2 where 2: "me_imapFactory env (mc_address (cl_config client))
      (mc_password (cl_config client)) w1 = (r2, w2)" by (rule prod.exhaust)
  obtain r3 d3 w3 where 3: "operation (False, w2) = (r3, d3, w3)" by (cases "operation (False, w2)") auto
  obtain r4 w4 where 4: "me_closeSession env w3 = (r4, w4)" by (rule prod.exhaust)
  have "logOf w1 = logOf w" "logOf w2 = logOf w1" "logOf w4 = logOf w3" "logOf w3 = logOf w2"
    using 1 2 3 4 dial_log [of w] factory_log [of _ _ w1] closeSession_log [of w3]
      assms [unfolded quiet_def] by (metis snd_conv)+
  then show ?thesis
    using 1 2 3 4 by (cases r1; cases r2; cases r3) (auto simp: imapAttempt_def closeConn_log)
qed

lemma quiet_readLoop:
  assumes "quiet operation"
  shows "logOf (snd (readLoop n k env client operation w)) = logOf w"
proof (induction n arbitrary: k w)
  case (Suc n)
  obtain b1 w1 where 1: "me_allow env ReadLimiter w = (b1, w1)" by (rule prod.exhaust)
  obtain r w2 where 2: "readWithSlot env client operation w1 = (r, w2)" by (rule prod.exhaust)
  obtain b3 w3 where 3: "me_acquire env ReadLimiter w1 = (b3, w3)" by (rule prod.exhaust)
  have "logOf w1 = logOf w" using 1 allow_log [of ReadLimiter w] by simp
  moreover have "logOf w3 = logOf w1" using 3 acquire_log [of ReadLimiter w1] by simp
  then have "logOf w2 = logOf w1"
    using 2 3 quiet_attempt [OF assms, of client False w3]
    by (auto simp: readWithSlot_def mailAcquire_def release_log split: prod.splits if_splits)
  ultimately show ?case using 1 2 Suc by (auto split: sum.split)
qed simp

lemma quiet_read: "quiet operation \<Longrightarrow> logOf (snd (mailRead env client operation w)) = logOf w"
  unfolding mailRead_def by (rule quiet_readLoop)

lemma getOperation_quiet: "quiet (getOperation lib (me_session env) input maxBody)"
proof -
  have fit: "quiet (opFit lib m)" for m by (auto simp: opFit_def split: sum.split)
  have body: "quiet (readBody lib (me_session env) input maxBody choice m)" for choice m
    by (auto simp: readBody_def intro!: fit split: option.split)
  show ?thesis
    unfolding getOperation_def by (auto intro!: body split: list.split sum.split)
qed

lemma scanLoop_quiet: "quiet (scanLoop (me_session env) input limit high scanned found)"
proof -
  have "logOf (snd (snd (scanLoop (me_session env) input limit high scanned found s))) = logOf (snd s)" for s
  proof (induction "me_session env" input limit high scanned found s rule: scanLoop.induct)
    case (1 input limit high scanned found s)
    define low where "low = windowLow high (windowWidth scanned)"
    obtain r s1 where call: "opCall (ss_search (me_session env) (windowRequest input low high)) s = (r, s1)"
      by (rule prod.exhaust)
    have log: "logOf (snd s1) = logOf (snd s)"
      using arg_cong [OF call, of "\<lambda>x. logOf (snd (snd x))"]
      by (simp add: opCall_def case_prod_unfold search_log)
    show ?case
    proof (cases "0 < high \<and> scanned < maxUIDsScanned \<and> length found \<le> limit")
      case False
      then have "scanLoop (me_session env) input limit high scanned found s
          = (Done (found, scanned, high), s)"
        by (simp only: scanLoop.simps [of "me_session env" input limit high scanned found s] if_False)
      then show ?thesis by simp
    next
      case True
      define cont where "cont = (\<lambda>f. scanLoop (me_session env) input limit
        (if low = 1 then 0 else low - 1) (scanned + (unat (high - low) + 1)) f s1)"
      have step: "scanLoop (me_session env) input limit high scanned found s =
          (case r of Fault e \<Rightarrow> (Fault e, s1) | Panic \<Rightarrow> (Panic, s1)
           | Done uids \<Rightarrow> (case collectUIDs low high uids found of
               None \<Rightarrow> (Fault (imapFault ErrorProtocol False), s1) | Some f \<Rightarrow> cont f))"
        using True by (subst scanLoop.simps) (simp only: if_True simp_thms Let_def low_def [symmetric] call prod.case cont_def)
      have "logOf (snd (snd (cont f))) = logOf (snd s1)"
        if "r = Done uids" "collectUIDs low high uids found = Some f" for uids f
        using 1 [OF True low_def call [symmetric]] that by (simp add: cont_def)
      with log show ?thesis unfolding step by (simp split: call.split option.split)
    qed
  qed
  then show ?thesis by (simp add: quiet_def)
qed

lemma finishSearch_quiet: "quiet (finishSearch sz (me_session env) input selected limit scan)"
  by (auto simp: finishSearch_def Let_def split: prod.split)

lemma searchOperation_quiet: "quiet (searchOperation sz (me_session env) input limit)"
  by (auto simp: searchOperation_def intro!: scanLoop_quiet finishSearch_quiet)

lemma probeLoop_quiet: "quiet (probeLoop (me_session env) result items)"
  by (induction items) (auto split: sum.split)


end

interpretation reading: mail_read_log "recordEnv env" snd
  by unfold_locales
    (simp_all add: recordEnv_def recordSession_def quietCall_def case_prod_unfold)

section \<open>Properties\<close>

text \<open>
  Reading never changes a mailbox. On every server, and whatever fails, \<open>GetMessage\<close>,
  \<open>SearchMessages\<close>, \<open>ListMailboxes\<close> and \<open>Probe\<close> send no command that stores flags, moves, copies,
  expunges or appends.
\<close>

theorem reads_never_mutate:
  "snd (snd (getMessage lib (recordEnv env) client input (w, []))) = []
   \<and> snd (snd (searchMessages sz (recordEnv env) client search (w, []))) = []
   \<and> snd (snd (listMailboxes sz' runeString (recordEnv env) client (w, []))) = []
   \<and> snd (snd (mailProbe (recordEnv env) client (w, []))) = []"
proof (intro conjI)
  note R = reading.quiet_read [where w = "(w, [])", simplified]
  show "snd (snd (getMessage lib (recordEnv env) client input (w, []))) = []"
    by (simp add: getMessage_def R [OF reading.getOperation_quiet] split: option.split)
  show "snd (snd (searchMessages sz (recordEnv env) client search (w, []))) = []"
    by (simp add: searchMessages_def Let_def R [OF reading.searchOperation_quiet] split: option.split)
  show "snd (snd (listMailboxes sz' runeString (recordEnv env) client (w, []))) = []"
    unfolding listMailboxes_def Let_def by (rule R) (auto split: prod.split)
  show "snd (snd (mailProbe (recordEnv env) client (w, []))) = []"
    unfolding mailProbe_def by (rule R) (auto intro!: reading.probeLoop_quiet)
qed

text \<open>The value of a successful read is the value of the operation in some state.\<close>

lemma imapAttempt_Inr:
  "fst (imapAttempt env client phase operation w) = Inr a \<Longrightarrow> \<exists>s s'. operation s = (Done a, s')"
  by (auto simp: imapAttempt_def split: prod.splits call.splits)

lemma readLoop_Inr:
  "fst (readLoop n k env client operation w) = Inr a \<Longrightarrow> \<exists>s s'. operation s = (Done a, s')"
proof (induction n arbitrary: k w)
  case (Suc n)
  obtain b1 w1 where 1: "me_allow env ReadLimiter w = (b1, w1)" by (rule prod.exhaust)
  obtain r w2 where 2: "readWithSlot env client operation w1 = (r, w2)" by (rule prod.exhaust)
  show ?case
  proof (cases r)
    case (Inl e)
    with Suc 1 2 show ?thesis by (auto split: if_splits)
  next
    case (Inr b)
    with 1 2 Suc.prems have "b = a" by (auto split: if_splits)
    with Inr 2 have "\<exists>w3. fst (imapAttempt env client False operation w3) = Inr a"
      by (auto simp: readWithSlot_def split: prod.splits option.splits) (metis fst_conv)
    then obtain w3 where "fst (imapAttempt env client False operation w3) = Inr a" by blast
    from imapAttempt_Inr [OF this] show ?thesis .
  qed
qed simp

lemma opBind_Done:
  assumes "opBind m f s = (Done b, s')"
  obtains a s1 where "m s = (Done a, s1)" "f a s1 = (Done b, s')"
  using assms by (auto simp: opBind_def split: prod.splits call.splits)

lemma opFail_Done [simp]: "opFail e s \<noteq> (Done b, s')"
  by (simp add: opFail_def)

lemma opFit_Done:
  assumes "opFit lib r s = (Done m, s')"
  shows "rl_serializedSize lib m \<le> maxResultBytes \<and> fitted r m"
  using assms by (auto simp: opFit_def opReturn_def dest: fitMessageResult_Inr split: sum.splits)

text \<open>
  What a body result may be: a prefix of the text is in the limits, an omitted body is empty, and
  the rest is as it was.
\<close>

definition bodyOk :: "nat \<Rightarrow> message \<Rightarrow> message \<Rightarrow> bool" where
  "bodyOk maxBody r m \<longleftrightarrow> mg_attachments m = mg_attachments r
     \<and> messageSummary.truncate m = messageSummary.truncate r
     \<and> (mg_bodyOmitted m \<longrightarrow> mg_body m = []) \<and> length (mg_body m) \<le> 3 * maxBody
     \<and> (mg_body m \<noteq> [] \<longrightarrow> mg_bodySource m = ''plain_text''
          \<or> mg_bodySource m = ''html_fallback'' \<and> length (mg_body m) \<le> maxBody)"

lemma fitted_bodyOk: "bodyOk maxBody r m \<Longrightarrow> fitted m m' \<Longrightarrow> bodyOk maxBody r m'"
  by (auto simp: bodyOk_def fitted_def)

lemma plainResult_ok:
  assumes "mg_body r = []" and "\<not> mg_bodyOmitted r"
  shows "bodyOk maxBody r (plainResult readEntity maxBody r data)"
proof -
  have "length t \<le> 3 * maxBody" if "decodePlainBody readEntity h b maxBody = BodyText t" for h b t
    using that by (auto simp: decodePlainBody_def intro!: order_trans [OF toValidUTF8_length]
        split: if_splits option.splits)
  with assms show ?thesis
    by (auto simp: plainResult_def bodyOk_def warn_def messageSummary.defs split: bodyVerdict.splits)
qed

lemma htmlResult_ok:
  assumes "mg_body r = []" and "\<not> mg_bodyOmitted r"
  shows "bodyOk maxBody r (htmlResult readEntity lower unescape maxBody r data)"
  using assms
  by (auto simp: htmlResult_def bodyOk_def warn_def Let_def messageSummary.defs
      dest: htmlToText_bounded split: option.splits sum.splits)

lemma readBody_ok:
  assumes "readBody lib session input maxBody choice r s = (Done m, s')"
    and "mg_body r = []" and "\<not> mg_bodyOmitted r"
  shows "rl_serializedSize lib m \<le> maxResultBytes \<and> bodyOk maxBody r m"
proof -
  have other: "bodyOk maxBody r (r\<lparr>mg_bodyUnavailableReason := reason\<rparr>)" for reason
    using assms(2,3) by (simp add: bodyOk_def messageSummary.defs)
  show ?thesis
    using assms(1) fitted_bodyOk [OF other] fitted_bodyOk [OF plainResult_ok [OF assms(2,3)]]
      fitted_bodyOk [OF htmlResult_ok [OF assms(2,3)]]
    by (auto simp: readBody_def dest!: opFit_Done elim!: opBind_Done split: option.splits if_splits)
qed

lemma choosePart_attachments:
  "choosePart c parts = Inr c' \<Longrightarrow> length (pc_attachments c) \<le> maxAttachments \<Longrightarrow>
     length (pc_attachments c') \<le> maxAttachments"
proof (induction parts arbitrary: c)
  case (Cons part parts)
  then show ?case
    by (auto simp: Let_def split: if_splits dest!: Cons.IH)
qed simp

lemma initialMessage_fields:
  "mg_body (initialMessage input item) = []" "\<not> mg_bodyOmitted (initialMessage input item)"
  "ms_mailbox (initialMessage input item) = gm_mailbox input"
  "ms_uidValidity (initialMessage input item) = gm_uidValidity input"
  "ms_uid (initialMessage input item) = im_uid item"
  by (simp_all add: initialMessage_def Let_def summaryFromProtocol_def messageSummary.defs message.defs)

text \<open>
  Where a returned message comes from: \<open>item\<close> is the server's only answer for the requested UID,
  fetched directly after the requested mailbox was opened read-only with the requested UIDVALIDITY.
\<close>

definition servedMessage :: "'w imapSession \<Rightarrow> getMessageInput \<Rightarrow> imapMessage \<Rightarrow> bool" where
  "servedMessage session input item \<longleftrightarrow>
     (\<exists>selected w0 w1 w2.
        ss_select session (gm_mailbox input) True w0 = (Done selected, w1)
        \<and> sm_uidValidity selected = gm_uidValidity input
        \<and> ss_fetchMetadata session [gm_uid input] True w1 = (Done [item], w2)
        \<and> im_uid item = gm_uid input)"

lemma opCall_Done: "opCall f s = (Done a, s') \<longleftrightarrow> f (snd s) = (Done a, snd s') \<and> fst s' = fst s"
  by (cases s; cases s') (auto simp: opCall_def split: prod.splits)

lemma getOperation_Done:
  assumes "getOperation lib session input maxBody s = (Done m, s')"
  obtains item choice s1 where "servedMessage session input item"
    "choosePart \<lparr>pc_selected = None, pc_html = None, pc_attachments = []\<rparr> (im_parts item) = Inr choice"
    "readBody lib session input maxBody choice
      ((initialMessage input item)\<lparr>mg_attachments := pc_attachments choice\<rparr>) s1 = (Done m, s')"
proof -
  from assms obtain selected item choice s0 s1 where
      "opCall (ss_select session (gm_mailbox input) True) s = (Done selected, s0)"
      "sm_uidValidity selected = gm_uidValidity input"
      "opCall (ss_fetchMetadata session [gm_uid input] True) s0 = (Done [item], s1)"
      "im_uid item = gm_uid input"
    and R: "choosePart \<lparr>pc_selected = None, pc_html = None, pc_attachments = []\<rparr> (im_parts item)
        = Inr choice"
      "readBody lib session input maxBody choice
        ((initialMessage input item)\<lparr>mg_attachments := pc_attachments choice\<rparr>) s1 = (Done m, s')"
    by (auto simp: getOperation_def elim!: opBind_Done split: if_splits list.splits sum.splits)
  then have "servedMessage session input item" by (auto simp: servedMessage_def opCall_Done)
  with R that show ?thesis by blast
qed

lemma getMessage_Inr:
  assumes "getMessage lib env client input w = (Inr m, w')"
  obtains item choice where "1 \<le> bodyLimit input" "bodyLimit input \<le> maxBodyBytes"
    "servedMessage (me_session env) input item"
    "choosePart \<lparr>pc_selected = None, pc_html = None, pc_attachments = []\<rparr> (im_parts item) = Inr choice"
    "rl_serializedSize lib m \<le> maxResultBytes"
    "bodyOk (nat (bodyLimit input))
      ((initialMessage input item)\<lparr>mg_attachments := pc_attachments choice\<rparr>) m"
proof -
  from assms have lim: "1 \<le> bodyLimit input" "bodyLimit input \<le> maxBodyBytes"
    and run: "fst (mailRead env client
        (getOperation lib (me_session env) input (nat (bodyLimit input))) w) = Inr m"
    by (auto simp: getMessage_def split: option.splits if_splits)
  from readLoop_Inr [OF run [unfolded mailRead_def]] obtain s s' where
    "getOperation lib (me_session env) input (nat (bodyLimit input)) s = (Done m, s')" by blast
  then obtain item choice s1 where item: "servedMessage (me_session env) input item"
    and choice: "choosePart \<lparr>pc_selected = None, pc_html = None, pc_attachments = []\<rparr> (im_parts item)
      = Inr choice"
    and body: "readBody lib (me_session env) input (nat (bodyLimit input)) choice
      ((initialMessage input item)\<lparr>mg_attachments := pc_attachments choice\<rparr>) s1 = (Done m, s')"
    by (rule getOperation_Done)
  have R: "rl_serializedSize lib m \<le> maxResultBytes \<and> bodyOk (nat (bodyLimit input))
      ((initialMessage input item)\<lparr>mg_attachments := pc_attachments choice\<rparr>) m"
    by (rule readBody_ok [OF body]) (simp_all add: initialMessage_fields)
  with that lim item choice show ?thesis by blast
qed

text \<open>
  C38. A message that \<open>GetMessage\<close> returns is the requested one and fits its limits, whatever the
  server and the MIME library answer. Its summary (mailbox, UIDVALIDITY, UID, flags, addresses,
  subject, dates, size, message ID and MODSEQ) is that of the server's only answer for the requested
  UID, which was fetched directly after the requested mailbox had been opened read-only and the
  server had reported the requested UIDVALIDITY for it, and its attachments are those of that
  answer's MIME parts. The encoded result has at most 256 KiB, at most 100 attachments are listed, a
  body declared as omitted is empty, the text of an HTML body has at most \<open>max_body_bytes\<close> bytes, and
  the text of a plain body at most three times as many (each invalid byte of the decoded body may
  become the three bytes of U+FFFD).
\<close>

theorem message_read_bounded:
  assumes "getMessage lib env client input w = (Inr m, w')"
  shows "(\<exists>item selected w0 w1 w2.
      ss_select (me_session env) (gm_mailbox input) True w0 = (Done selected, w1)
      \<and> sm_uidValidity selected = gm_uidValidity input
      \<and> ss_fetchMetadata (me_session env) [gm_uid input] True w1 = (Done [item], w2)
      \<and> im_uid item = gm_uid input
      \<and> messageSummary.truncate m = messageSummary.truncate (initialMessage input item)
      \<and> map at_partID (mg_attachments m) = map (partID \<circ> bp_path) (filter bp_attachment (im_parts item)))
    \<and> (ms_mailbox m = gm_mailbox input \<and> ms_uidValidity m = gm_uidValidity input
      \<and> ms_uid m = gm_uid input)
    \<and> rl_serializedSize lib m \<le> 262144 \<and> length (mg_attachments m) \<le> 100
    \<and> (mg_bodyOmitted m \<longrightarrow> mg_body m = [])
    \<and> (int (length (mg_body m)) \<le> 3 * bodyLimit input \<and> bodyLimit input \<le> 204800)
    \<and> (mg_bodySource m = ''html_fallback'' \<longrightarrow> int (length (mg_body m)) \<le> bodyLimit input)"
proof -
  from assms obtain item choice where lim: "1 \<le> bodyLimit input" "bodyLimit input \<le> maxBodyBytes"
    and item: "servedMessage (me_session env) input item"
    and choice: "choosePart \<lparr>pc_selected = None, pc_html = None, pc_attachments = []\<rparr> (im_parts item)
      = Inr choice"
    and R: "rl_serializedSize lib m \<le> maxResultBytes" "bodyOk (nat (bodyLimit input))
      ((initialMessage input item)\<lparr>mg_attachments := pc_attachments choice\<rparr>) m"
    by (rule getMessage_Inr)
  have sum: "messageSummary.truncate m = messageSummary.truncate (initialMessage input item)"
    using R by (simp add: bodyOk_def messageSummary.defs)
  have parts: "map at_partID (mg_attachments m)
      = map (partID \<circ> bp_path) (filter bp_attachment (im_parts item))"
    using R choosePart_partIDs [OF choice] by (simp add: bodyOk_def)
  have served: "\<exists>item selected w0 w1 w2.
      ss_select (me_session env) (gm_mailbox input) True w0 = (Done selected, w1)
      \<and> sm_uidValidity selected = gm_uidValidity input
      \<and> ss_fetchMetadata (me_session env) [gm_uid input] True w1 = (Done [item], w2)
      \<and> im_uid item = gm_uid input
      \<and> messageSummary.truncate m = messageSummary.truncate (initialMessage input item)
      \<and> map at_partID (mg_attachments m) = map (partID \<circ> bp_path) (filter bp_attachment (im_parts item))"
    using item sum parts unfolding servedMessage_def by blast
  have "im_uid item = gm_uid input" using item by (auto simp: servedMessage_def)
  then have ids: "ms_mailbox m = gm_mailbox input \<and> ms_uidValidity m = gm_uidValidity input
      \<and> ms_uid m = gm_uid input"
    using sum initialMessage_fields [of input item] by (simp add: messageSummary.defs)
  have size: "rl_serializedSize lib m \<le> 262144" using R by (simp add: maxResultBytes_def)
  have atts: "length (mg_attachments m) \<le> 100"
    using R choosePart_attachments [OF choice] by (simp add: bodyOk_def maxAttachments_def)
  have body: "mg_bodyOmitted m \<longrightarrow> mg_body m = []"
    "int (length (mg_body m)) \<le> 3 * bodyLimit input \<and> bodyLimit input \<le> 204800"
    using R lim by (auto simp: bodyOk_def maxBodyBytes_def)
  have "mg_bodySource m = ''html_fallback'' \<longrightarrow> int (length (mg_body m)) \<le> bodyLimit input"
    using R lim by (cases "mg_body m = []") (auto simp: bodyOk_def)
  with served ids size atts body show ?thesis by simp
qed

text \<open>A message with a plain part and an attachment.\<close>

definition samplePart :: "nat \<Rightarrow> string \<Rightarrow> bool \<Rightarrow> bodyPart" where
  "samplePart n contentType attached = \<lparr>bp_path = [n], bp_contentType = contentType,
     bp_disposition = [], bp_filename = [], bp_contentID = [], bp_size = 0,
     bp_inlinePlain = \<not> attached, bp_attachment = attached\<rparr>"

definition sampleReadSession :: "unit imapSession" where
  "sampleReadSession = sampleSession\<lparr>
     ss_fetchMetadata := (\<lambda>us h w. (Done [(sampleItem 5)\<lparr>im_parts :=
       [samplePart 1 ''text/plain'' False, samplePart 12 ''image/png'' True]\<rparr>], w)),
     ss_fetchBodyPart := (\<lambda>u p w. (Done \<lparr>bd_mimeHeader = ''Content-Type: text/plain'', bd_body = ''hi'',
       bd_tooLarge = False\<rparr>, w))\<rparr>"

definition sampleReadLib :: readLib where
  "sampleReadLib = \<lparr>rl_serializedSize = (\<lambda>m. int (length (mg_body m))),
     rl_readEntity = (\<lambda>b. Some \<lparr>et_mediaType = Some ''text/plain'', et_read = (\<lambda>n. Some ''hi'')\<rparr>),
     rl_lower = toLower, rl_unescape = (\<lambda>t. t)\<rparr>"

definition sampleGet :: getMessageInput where
  "sampleGet = \<lparr>gm_mailbox = ''INBOX'', gm_uidValidity = 7, gm_uid = 5, gm_maxBodyBytes = 100,
     gm_allowHTMLFallback = False\<rparr>"

definition sampleChoice :: partChoice where
  "sampleChoice = \<lparr>pc_selected = Some (samplePart 1 ''text/plain'' False), pc_html = None,
     pc_attachments = [\<lparr>at_partID = ''12'', at_filename = [], at_contentType = ''image/png'',
       at_size = 0, at_contentID = []\<rparr>]\<rparr>"

lemma sampleChoice_chosen:
  "choosePart \<lparr>pc_selected = None, pc_html = None, pc_attachments = []\<rparr>
     [samplePart 1 ''text/plain'' False, samplePart 12 ''image/png'' True] = Inr sampleChoice"
  by code_simp

lemma sampleBody_fits:
  "opFit sampleReadLib (plainResult (rl_readEntity sampleReadLib) 100 r \<lparr>bd_mimeHeader = h,
       bd_body = ''hi'', bd_tooLarge = False\<rparr>) s
     = (Done (r\<lparr>mg_body := ''hi'', mg_bodySource := ''plain_text''\<rparr>), s)"
  if "int (length h) \<le> maxMimeHeader"
proof -
  have "toValidUTF8 ''hi'' False = ''hi''" by code_simp
  with that show ?thesis
    by (simp add: opFit_def fitMessageResult_def plainResult_def decodePlainBody_def sampleReadLib_def
        readLimited_def opReturn_def maxResultBytes_def maxWireBytes_def)
qed

lemma sampleGet_runs:
  "\<exists>m s'. getOperation sampleReadLib sampleReadSession sampleGet 100 (False, w) = (Done m, s')
     \<and> mg_body m = ''hi'' \<and> map at_partID (mg_attachments m) = [''12''] \<and> ms_uid m = 5"
proof -
  define item where "item = (sampleItem 5)\<lparr>im_parts :=
       [samplePart 1 ''text/plain'' False, samplePart 12 ''image/png'' True]\<rparr>"
  define r where "r = (initialMessage sampleGet item)\<lparr>mg_attachments := pc_attachments sampleChoice\<rparr>"
  define header where "header = ''Content-Type: text/plain''"
  have select: "ss_select sampleReadSession m b v = (Done sampleSelected, v)" for m b v
    by (simp add: sampleReadSession_def sampleSession_def)
  have fetch: "ss_fetchMetadata sampleReadSession us h v = (Done [item], v)" for us h v
    by (simp add: sampleReadSession_def item_def)
  have body: "ss_fetchBodyPart sampleReadSession u p v =
      (Done \<lparr>bd_mimeHeader = header, bd_body = ''hi'', bd_tooLarge = False\<rparr>, v)" for u p v
    by (simp add: sampleReadSession_def header_def)
  have uid: "im_uid item = gm_uid sampleGet" "sm_uidValidity sampleSelected = gm_uidValidity sampleGet"
    by (simp_all add: item_def sampleItem_def sampleGet_def sampleSelected_def)
  have choice: "choosePart \<lparr>pc_selected = None, pc_html = None, pc_attachments = []\<rparr> (im_parts item)
      = Inr sampleChoice"
    using sampleChoice_chosen by (simp add: item_def)
  have sel: "pc_selected sampleChoice = Some (samplePart 1 ''text/plain'' False)"
    by (simp add: sampleChoice_def)
  have hdr: "int (length header) \<le> maxMimeHeader" by (simp add: header_def maxMimeHeader_def)
  have "getOperation sampleReadLib sampleReadSession sampleGet 100 (False, w)
      = (Done (r\<lparr>mg_body := ''hi'', mg_bodySource := ''plain_text''\<rparr>), False, w)"
    by (simp add: getOperation_def opBind_def opCall_def select fetch uid choice readBody_def sel body
        sampleBody_fits [OF hdr] flip: r_def)
  moreover have "ms_uid r = 5" using initialMessage_fields(5) [of sampleGet item] uid
    by (simp add: r_def sampleGet_def)
  ultimately show ?thesis
    by (intro exI [of _ "r\<lparr>mg_body := ''hi'', mg_bodySource := ''plain_text''\<rparr>"] exI [of _ "(False, w)"])
      (simp add: r_def sampleChoice_def)
qed

theorem message_read_bounded_witness:
  "\<exists>m. fst (getMessage sampleReadLib (sampleEnvOf sampleReadSession) sampleClient sampleGet ()) = Inr m
     \<and> mg_body m = ''hi'' \<and> map at_partID (mg_attachments m) = [''12''] \<and> ms_uid m = 5
     \<and> length (mg_attachments m) \<le> 100"
proof -
  have "validateIdentity (gm_mailbox sampleGet) (gm_uidValidity sampleGet) (gm_uid sampleGet) = None"
    "\<not> (bodyLimit sampleGet < 1 \<or> maxBodyBytes < bodyLimit sampleGet)" "nat (bodyLimit sampleGet) = 100"
    by code_simp+
  moreover have "\<exists>m. fst (mailRead (sampleEnvOf sampleReadSession) sampleClient
      (getOperation sampleReadLib sampleReadSession sampleGet 100) ()) = Inr m
      \<and> (mg_body m = ''hi'' \<and> map at_partID (mg_attachments m) = [''12''] \<and> ms_uid m = 5)"
    by (rule mailRead_healthy) (simp add: sampleEnvOf_def healthyEnv_def, rule sampleGet_runs)
  ultimately obtain m where m: "fst (getMessage sampleReadLib (sampleEnvOf sampleReadSession) sampleClient
      sampleGet ()) = Inr m" "mg_body m = ''hi''" "map at_partID (mg_attachments m) = [''12'']" "ms_uid m = 5"
    by (auto simp: getMessage_def sampleEnvOf_def)
  obtain r w' where run: "getMessage sampleReadLib (sampleEnvOf sampleReadSession) sampleClient
      sampleGet () = (r, w')" by (rule prod.exhaust)
  with m(1) have "r = Inr m" by simp
  from message_read_bounded [OF run [unfolded this]] have "length (mg_attachments m) \<le> 100" by blast
  with m show ?thesis by (intro exI [of _ m] conjI)
qed

end
