(* ===== verification/Imap_Adapter.thy ===== *)
theory Imap_Adapter
  imports Mail_Mutation
begin

text \<open>
  \<open>internal/mail/imapadapter/session.go\<close>: the adapter between the mail client and the go-imap
  library. The library's client is the record \<open>imapClient\<close> of functions on the state of the outside;
  nothing is assumed of it. \<open>imapAdapter\<close> is the adapter's \<open>Session\<close> as the \<open>imapSession\<close> of the mail
  client, over a state that also holds the capabilities found at login. What the library computes
  from its own data (media types, file names, addresses, decoded headers) comes with that data.
\<close>

definition maxAddresses :: nat where "maxAddresses = 100"
definition maxParts :: nat where "maxParts = 200"
definition maxDepth :: nat where "maxDepth = 20"
definition maxHeaderBytes :: int where "maxHeaderBytes = 65536"
definition maxWireBodyBytes :: int where "maxWireBodyBytes = 524288"
definition maxMailboxResponses :: nat where "maxMailboxResponses = 201"
definition maxMetadataMessages :: nat where "maxMetadataMessages = 50"
definition maxSearchWindowUIDs :: nat where "maxSearchWindowUIDs = 5000"

section \<open>Errors of the library\<close>

datatype responseCode =
    NoCode | AuthenticationFailed | AuthorizationFailed | NoPerm | PrivacyRequired | NonExistent
  | AlreadyExists | InUse | CodeLimit | CodeUnavailable | TooBig | OverQuota | OtherCode string

text \<open>
  What \<open>errors.Is\<close> and \<open>errors.As\<close> find: the inbound limit of the guard, an \<open>imap.Error\<close> (whether its
  type is \<open>NO\<close>, and its code), a \<open>net.Error\<close> with its \<open>Timeout\<close>, the end or closing of the connection.
\<close>

record libErr =
  le_inbound :: bool
  le_imap :: "(bool \<times> responseCode) option"
  le_net :: "bool option"
  le_closed :: bool

datatype 'a libCall = Got 'a | Err libErr | Crash

definition classifyCode :: "responseCode \<Rightarrow> imapKind" where
  "classifyCode c =
     (case c of
        AuthenticationFailed \<Rightarrow> ErrorAuthentication
      | AuthorizationFailed \<Rightarrow> ErrorAuthorization
      | NoPerm \<Rightarrow> ErrorAuthorization
      | PrivacyRequired \<Rightarrow> ErrorAuthorization
      | NonExistent \<Rightarrow> ErrorNotFound
      | AlreadyExists \<Rightarrow> ErrorConflict
      | InUse \<Rightarrow> ErrorConflict
      | CodeLimit \<Rightarrow> ErrorRateLimited
      | CodeUnavailable \<Rightarrow> ErrorUnavailable
      | TooBig \<Rightarrow> ErrorTooLarge
      | OverQuota \<Rightarrow> ErrorTooLarge
      | _ \<Rightarrow> ErrorProtocol)"

definition classify :: "libErr \<Rightarrow> bool \<Rightarrow> fault" where
  "classify err ambiguous =
     (if le_inbound err then imapFault ErrorTooLarge ambiguous
      else case le_imap err of
             Some (_, c) \<Rightarrow> imapFault (classifyCode c) False
           | None \<Rightarrow>
               if le_net err = Some True then imapFault ErrorTimeout ambiguous
               else if le_closed err then imapFault ErrorUnavailable ambiguous
               else imapFault ErrorProtocol ambiguous)"

definition loginRejection :: "libErr \<Rightarrow> bool" where
  "loginRejection err \<longleftrightarrow>
     (case le_imap err of
        Some (no, c) \<Rightarrow> no \<and> (c = NoCode \<or> c = AuthenticationFailed)
      | None \<Rightarrow> False)"

abbreviation protocolFault :: fault where "protocolFault \<equiv> imapFault ErrorProtocol False"
abbreviation tooLargeFault :: fault where "tooLargeFault \<equiv> imapFault ErrorTooLarge False"

definition boundedString :: "string \<Rightarrow> fault option" where
  "boundedString v = (if maxMetadataString < length v then Some tooLargeFault else None)"

definition boundedStrings :: "string list \<Rightarrow> fault option" where
  "boundedStrings vs = (if list_ex (\<lambda>v. boundedString v \<noteq> None) vs then Some tooLargeFault else None)"

section \<open>UID sets\<close>

text \<open>An \<open>imap.NumSet\<close>: nil, a sequence set, or a UID set of ranges.\<close>

datatype numSet = NilSet | SeqSet | UIDSet "(32 word \<times> 32 word) list"

text \<open>
  The checking loop of \<open>expandUIDSet\<close>; \<open>prev\<close> is \<open>previousStop\<close>, absent before the first range.
  The counters are 64-bit in the source and stay below \<open>maxCount + 2 ^ 32\<close>.
\<close>

fun checkRanges ::
  "nat \<Rightarrow> nat \<Rightarrow> nat \<Rightarrow> (32 word \<times> 32 word) list \<Rightarrow> nat \<Rightarrow> nat option \<Rightarrow> fault option" where
  "checkRanges minUID maxUID maxCount [] cardinality prev = None"
| "checkRanges minUID maxUID maxCount (r # rs) cardinality prev =
     (let start = unat (fst r); stop = unat (snd r) in
      if start = 0 \<or> stop = 0 \<or> stop < start then Some protocolFault
      else if start < minUID \<or> maxUID < stop \<or> (case prev of None \<Rightarrow> False | Some p \<Rightarrow> start \<le> p)
      then Some protocolFault
      else if maxCount - cardinality < stop - start + 1 then Some tooLargeFault
      else checkRanges minUID maxUID maxCount rs (cardinality + (stop - start + 1)) (Some stop))"

definition expandRanges :: "(32 word \<times> 32 word) list \<Rightarrow> 32 word list" where
  "expandRanges rs = concat (map (\<lambda>(a, b). map of_nat [unat a..<unat b + 1]) rs)"

text \<open>\<open>isSearchRes\<close> is \<open>imap.IsSearchRes\<close>.\<close>

definition expandUIDSet ::
  "((32 word \<times> 32 word) list \<Rightarrow> bool) \<Rightarrow> numSet \<Rightarrow> 32 word \<Rightarrow> 32 word \<Rightarrow> nat \<Rightarrow> fault + 32 word list" where
  "expandUIDSet isSearchRes ns requestedMin requestedMax maxCount =
     (case ns of
        UIDSet rs \<Rightarrow>
          if isSearchRes rs \<or> requestedMin = 0 \<or> requestedMax < requestedMin \<or> maxCount = 0
          then Inl protocolFault
          else if maxCount < length rs then Inl tooLargeFault
          else (case checkRanges (unat requestedMin) (unat requestedMax) maxCount rs 0 None of
                  Some e \<Rightarrow> Inl e
                | None \<Rightarrow> Inr (expandRanges rs))
      | _ \<Rightarrow> Inl protocolFault)"

definition scalarUID :: "numSet \<Rightarrow> 32 word option" where
  "scalarUID ns =
     (case ns of
        UIDSet [r] \<Rightarrow> if fst r = 0 \<or> snd r = 0 \<or> fst r \<noteq> snd r then None else Some (fst r)
      | _ \<Rightarrow> None)"

definition validatedCopyData ::
  "32 word \<Rightarrow> 32 word \<Rightarrow> numSet \<Rightarrow> numSet \<Rightarrow> bool \<Rightarrow> fault + copyData" where
  "validatedCopyData requested uidValidity sourceSet destinationSet required =
     (if sourceSet = NilSet \<and> destinationSet = NilSet \<and> uidValidity = 0 \<and> \<not> required
      then Inr \<lparr>cd_uidValidity = 0, cd_destinationUID = 0\<rparr>
      else if uidValidity = 0 then Inl (imapFault ErrorProtocol True)
      else if scalarUID sourceSet \<noteq> Some requested then Inl (imapFault ErrorProtocol True)
      else case scalarUID destinationSet of
             None \<Rightarrow> Inl (imapFault ErrorProtocol True)
           | Some destination \<Rightarrow> Inr \<lparr>cd_uidValidity = uidValidity, cd_destinationUID = destination\<rparr>)"

section \<open>Messages\<close>

text \<open>An \<open>imap.Address\<close> is its name and its \<open>Addr()\<close>.\<close>

record libEnvelope =
  ln_date :: time
  ln_subject :: string
  ln_from :: "address list"
  ln_sender :: "address list"
  ln_replyTo :: "address list"
  ln_to :: "address list"
  ln_cc :: "address list"
  ln_bcc :: "address list"
  ln_messageID :: string
  ln_inReplyTo :: "string list"

record singlePart =
  sp_type :: string
  sp_subtype :: string
  sp_params :: "(string \<times> string) list"
  sp_id :: string
  sp_description :: string
  sp_encoding :: string
  sp_size :: "32 word"
  sp_filename :: string
  sp_mediaType :: string
  sp_disposition :: "string option"

datatype bodyStructure =
    SinglePart singlePart
  | MultiPart "string option" string "bodyStructure list"
  | OtherPart "string option"

record fetchBuffer =
  fb_uid :: "32 word"
  fb_flags :: "string list"
  fb_envelope :: "libEnvelope option"
  fb_internalDate :: time
  fb_size :: int
  fb_modSeq :: "64 word"
  fb_bodyStructure :: "bodyStructure option"
  fb_bodySection :: "bytes list"

text \<open>The decoded header fields of go-message; \<open>None\<close> is an error of the accessor.\<close>

record headerFields =
  hf_messageID :: "string option"
  hf_inReplyTo :: "string list option"
  hf_references :: "string list option"
  hf_replyTo :: "address list option"

text \<open>\<open>readHeader\<close> is \<open>message.ReadWithOptions\<close> and \<open>lower\<close> is \<open>strings.ToLower\<close>.\<close>

record adapterLib =
  al_readHeader :: "bytes \<Rightarrow> headerFields option"
  al_lower :: "string \<Rightarrow> string"
  al_isSearchRes :: "(32 word \<times> 32 word) list \<Rightarrow> bool"

fun convertLoop :: "address list \<Rightarrow> fault + address list" where
  "convertLoop [] = Inr []"
| "convertLoop (a # as) =
     (if snd a = [] then convertLoop as
      else case boundedStrings [fst a, snd a] of
             Some e \<Rightarrow> Inl e
           | None \<Rightarrow> andThen (convertLoop as) (\<lambda>out. Inr (a # out)))"

definition convertAddresses :: "address list \<Rightarrow> fault + address list" where
  "convertAddresses addresses =
     (if maxAddresses < length addresses then Inl tooLargeFault else convertLoop addresses)"

definition convertEnvelope :: "libEnvelope \<Rightarrow> fault + envelope" where
  "convertEnvelope e =
     (case boundedString (ln_subject e) of
        Some err \<Rightarrow> Inl err
      | None \<Rightarrow>
          andThen (convertAddresses (ln_from e)) (\<lambda>from.
          andThen (convertAddresses (ln_replyTo e)) (\<lambda>replyTo.
          andThen (convertAddresses (ln_to e)) (\<lambda>to.
          andThen (convertAddresses (ln_cc e)) (\<lambda>cc.
            if maxAddresses < length from + length replyTo + length to + length cc
                 + length (ln_bcc e) + length (ln_sender e)
            then Inl tooLargeFault
            else case boundedStrings (ln_messageID e # ln_inReplyTo e) of
                   Some err \<Rightarrow> Inl err
                 | None \<Rightarrow>
                     Inr \<lparr>en_date = ln_date e, en_subject = ln_subject e, en_from = from,
                       en_replyTo = replyTo, en_to = to, en_cc = cc, en_messageID = ln_messageID e,
                       en_inReplyTo = ln_inReplyTo e\<rparr>)))))"

section \<open>Body structures\<close>

definition dispositionOf :: "(string \<Rightarrow> string) \<Rightarrow> string option \<Rightarrow> fault + string" where
  "dispositionOf lower d =
     (case d of
        None \<Rightarrow> Inr []
      | Some v \<Rightarrow> (case boundedString (lower v) of Some e \<Rightarrow> Inl e | None \<Rightarrow> Inr (lower v)))"

definition flattenSingle :: "singlePart \<Rightarrow> nat list \<Rightarrow> string \<Rightarrow> bool \<Rightarrow> fault + bodyPart" where
  "flattenSingle p path disposition excluded =
     (case boundedStrings ([sp_type p, sp_subtype p, sp_id p, sp_filename p, sp_description p,
             sp_encoding p] @ concat (map (\<lambda>(k, v). [k, v]) (sp_params p))) of
        Some e \<Rightarrow> Inl e
      | None \<Rightarrow>
          let attachment = (excluded \<or> sp_filename p \<noteq> [] \<or> sp_mediaType p = ''message/rfc822''
                \<or> sp_mediaType p = ''message/global'') in
          Inr \<lparr>bp_path = path, bp_contentType = sp_mediaType p, bp_disposition = disposition,
            bp_filename = sp_filename p, bp_contentID = sp_id p, bp_size = sp_size p,
            bp_inlinePlain = (sp_mediaType p = ''text/plain'' \<and> \<not> attachment),
            bp_attachment = attachment\<rparr>)"

fun walkPart ::
  "(string \<Rightarrow> string) \<Rightarrow> bodyStructure \<Rightarrow> nat list \<Rightarrow> bool \<Rightarrow> bodyPart list \<Rightarrow> fault + bodyPart list"
and walkChildren ::
  "(string \<Rightarrow> string) \<Rightarrow> bodyStructure list \<Rightarrow> nat list \<Rightarrow> nat \<Rightarrow> bodyPart list \<Rightarrow> fault + bodyPart list"
where
  "walkPart lower (SinglePart p) path excluded parts =
     (if maxParts \<le> length parts \<or> maxDepth < length path then Inl tooLargeFault
      else andThen (dispositionOf lower (sp_disposition p)) (\<lambda>d.
           andThen (flattenSingle p path d (excluded \<or> d = ''attachment'')) (\<lambda>bp.
             Inr (parts @ [bp]))))"
| "walkPart lower (MultiPart disposition mediaType children) path excluded parts =
     (if maxParts \<le> length parts \<or> maxDepth < length path then Inl tooLargeFault
      else andThen (dispositionOf lower disposition) (\<lambda>d.
           let excluded' = (excluded \<or> d = ''attachment'');
               parts' = parts @ [\<lparr>bp_path = path, bp_contentType = mediaType, bp_disposition = d,
                 bp_filename = [], bp_contentID = [], bp_size = 0, bp_inlinePlain = False,
                 bp_attachment = excluded'\<rparr>] in
           if excluded' then Inr parts' else walkChildren lower children path 1 parts'))"
| "walkPart lower (OtherPart disposition) path excluded parts =
     (if maxParts \<le> length parts \<or> maxDepth < length path then Inl tooLargeFault
      else andThen (dispositionOf lower disposition) (\<lambda>d. Inl protocolFault))"
| "walkChildren lower [] path i parts = Inr parts"
| "walkChildren lower (child # children) path i parts =
     andThen (walkPart lower child (path @ [i]) False parts)
       (\<lambda>parts'. walkChildren lower children path (i + 1) parts')"

definition flattenBodyStructure :: "(string \<Rightarrow> string) \<Rightarrow> bodyStructure \<Rightarrow> fault + bodyPart list" where
  "flattenBodyStructure lower root =
     walkPart lower root (case root of MultiPart _ _ _ \<Rightarrow> [] | _ \<Rightarrow> [1]) False []"

section \<open>Headers and messages\<close>

definition parseCuratedHeaders :: "adapterLib \<Rightarrow> bytes \<Rightarrow> fault + curatedHeaders" where
  "parseCuratedHeaders lib data =
     (case al_readHeader lib data of
        None \<Rightarrow> Inl protocolFault
      | Some h \<Rightarrow>
          (case (hf_messageID h, hf_inReplyTo h, hf_references h, hf_replyTo h) of
             (Some messageID, Some inReplyTo, Some references, Some replyTo) \<Rightarrow>
               if maxAddresses < length replyTo then Inl protocolFault
               else (case boundedStrings (concat (map (\<lambda>(n, a). [n, a]) replyTo)
                           @ messageID # inReplyTo @ references) of
                       Some e \<Rightarrow> Inl e
                     | None \<Rightarrow>
                         Inr \<lparr>ch_messageID = messageID, ch_inReplyTo = inReplyTo,
                           ch_references = references, ch_replyTo = replyTo\<rparr>)
           | _ \<Rightarrow> Inl protocolFault))"

definition emptyHeaders :: curatedHeaders where
  "emptyHeaders = \<lparr>ch_messageID = [], ch_inReplyTo = [], ch_references = [], ch_replyTo = []\<rparr>"

definition emptyEnvelope :: envelope where
  "emptyEnvelope = \<lparr>en_date = zeroTime, en_subject = [], en_from = [], en_replyTo = [], en_to = [],
     en_cc = [], en_messageID = [], en_inReplyTo = []\<rparr>"

text \<open>A message of which only the UID, the flags and the MODSEQ are known.\<close>

definition flagsMessage :: "32 word \<Rightarrow> fetchBuffer \<Rightarrow> imapMessage" where
  "flagsMessage uid b = \<lparr>im_uid = uid, im_flags = fb_flags b, im_envelope = emptyEnvelope,
     im_internalDate = zeroTime, im_size = 0, im_modSeq = fb_modSeq b, im_parts = [],
     im_headers = emptyHeaders\<rparr>"

definition convertMessage :: "adapterLib \<Rightarrow> fetchBuffer \<Rightarrow> bool \<Rightarrow> fault + imapMessage" where
  "convertMessage lib b includeHeaders =
     (case (fb_envelope b, fb_bodyStructure b) of
        (Some e, Some structure) \<Rightarrow>
          if fb_uid b = 0 then Inl protocolFault
          else andThen (convertEnvelope e) (\<lambda>envelope.
               andThen (flattenBodyStructure (al_lower lib) structure) (\<lambda>parts.
               let msg = \<lparr>im_uid = fb_uid b, im_flags = fb_flags b, im_envelope = envelope,
                     im_internalDate = fb_internalDate b, im_size = fb_size b,
                     im_modSeq = fb_modSeq b, im_parts = parts, im_headers = emptyHeaders\<rparr> in
               if \<not> includeHeaders then Inr msg
               else (case fb_bodySection b of
                       [section] \<Rightarrow>
                         if maxHeaderBytes < int (length section) then Inl tooLargeFault
                         else andThen (parseCuratedHeaders lib section)
                                (\<lambda>headers. Inr (msg\<lparr>im_headers := headers\<rparr>))
                     | _ \<Rightarrow> Inl tooLargeFault)))
      | _ \<Rightarrow> Inl protocolFault)"

definition validateConditionalStore ::
  "32 word \<Rightarrow> bool \<Rightarrow> string list \<Rightarrow> 64 word \<Rightarrow> fetchBuffer list \<Rightarrow> fault + imapMessage" where
  "validateConditionalStore uid add flags expectedModSeq buffers =
     (case buffers of
        [] \<Rightarrow> Inl (imapFault ErrorConflict False)
      | [b] \<Rightarrow>
          if fb_uid b \<noteq> uid then Inl protocolFault
          else if expectedModSeq < fb_modSeq b then Inr (flagsMessage uid b)
          else if fb_modSeq b = 0 then Inl protocolFault
          else if list_ex (\<lambda>flag. add \<noteq> (flag \<in> set (fb_flags b))) flags
          then Inl (imapFault ErrorConflict False)
          else Inr (flagsMessage uid b)
      | _ \<Rightarrow> Inl protocolFault)"

section \<open>The session\<close>

record searchCriteria =
  sc_range :: "32 word \<times> 32 word"
  sc_since :: time
  sc_before :: time
  sc_text :: "string list"
  sc_header :: "(string \<times> string) list"
  sc_notFlag :: "string list"
  sc_flag :: "string list"

text \<open>
  The calls of the go-imap client. \<open>ic_list\<close> answers the items of \<open>Next\<close> and the error of \<open>Close\<close>;
  \<open>ic_fetch\<close> the results of \<open>Collect\<close> for each message and the error of \<open>Close\<close>; \<open>ic_fetchBody\<close> the UID
  and the two sections of each message; \<open>ic_move\<close> and \<open>ic_copy\<close> the \<open>COPYUID\<close> data.
\<close>

record 'w imapClient =
  ic_waitGreeting :: "'w \<Rightarrow> unit libCall \<times> 'w"
  ic_login :: "string \<Rightarrow> string \<Rightarrow> 'w \<Rightarrow> unit libCall \<times> 'w"
  ic_caps :: "'w \<Rightarrow> imapCapabilities option"
  ic_list :: "bool \<Rightarrow> 'w \<Rightarrow> (imapMailbox list \<times> libErr option) libCall \<times> 'w"
  ic_select :: "string \<Rightarrow> bool \<Rightarrow> bool \<Rightarrow> 'w \<Rightarrow> selectedMailbox libCall \<times> 'w"
  ic_uidSearch :: "searchCriteria \<Rightarrow> 'w \<Rightarrow> numSet option libCall \<times> 'w"
  ic_fetch :: "32 word list \<Rightarrow> bool \<Rightarrow> bool \<Rightarrow> 'w
     \<Rightarrow> ((libErr + fetchBuffer) list \<times> libErr option) libCall \<times> 'w"
  ic_fetchBody :: "32 word \<Rightarrow> nat list \<Rightarrow> 'w
     \<Rightarrow> (32 word \<times> bytes option \<times> bytes option) list libCall \<times> 'w"
  ic_fetchFlags :: "32 word \<Rightarrow> bool \<Rightarrow> 'w \<Rightarrow> fetchBuffer list libCall \<times> 'w"
  ic_store :: "32 word \<Rightarrow> bool \<Rightarrow> string list \<Rightarrow> 'w \<Rightarrow> unit libCall \<times> 'w"
  ic_storeUnchanged :: "32 word \<Rightarrow> bool \<Rightarrow> string list \<Rightarrow> 64 word \<Rightarrow> 'w \<Rightarrow> fetchBuffer list libCall \<times> 'w"
  ic_move :: "32 word \<Rightarrow> string \<Rightarrow> 'w \<Rightarrow> (32 word \<times> numSet \<times> numSet) option libCall \<times> 'w"
  ic_copy :: "32 word \<Rightarrow> string \<Rightarrow> 'w \<Rightarrow> (32 word \<times> numSet \<times> numSet) option libCall \<times> 'w"
  ic_uidExpunge :: "32 word \<Rightarrow> 'w \<Rightarrow> unit libCall \<times> 'w"
  ic_appendWrite :: "string \<Rightarrow> bytes \<Rightarrow> 'w \<Rightarrow> unit libCall \<times> 'w"
  ic_appendClose :: "'w \<Rightarrow> unit libCall \<times> 'w"
  ic_appendWait :: "'w \<Rightarrow> appendData option libCall \<times> 'w"
  ic_close :: "'w \<Rightarrow> 'w"

text \<open>
  The state of a session is that of the outside and the capabilities. \<open>onClient\<close> runs a library call
  and hands its value to \<open>f\<close>; an error is classified.
\<close>

definition onClient ::
  "bool \<Rightarrow> ('w \<Rightarrow> 'a libCall \<times> 'w) \<Rightarrow> ('a \<Rightarrow> fault + 'b) \<Rightarrow> 'w \<times> imapCapabilities
     \<Rightarrow> 'b call \<times> 'w \<times> imapCapabilities" where
  "onClient ambiguous request f s =
     (case request (fst s) of (r, w') \<Rightarrow>
        (case r of
           Crash \<Rightarrow> Panic
         | Err e \<Rightarrow> Fault (classify e ambiguous)
         | Got a \<Rightarrow> (case f a of Inl e \<Rightarrow> Fault e | Inr b \<Rightarrow> Done b), w', snd s))"

text \<open>The user name of the first login: the local part of the address.\<close>

definition loginName :: "string \<Rightarrow> string" where
  "loginName address =
     (let before = rev (drop 1 (dropWhile (\<lambda>c. c \<noteq> CHR ''@'') (rev address))) in
      if CHR ''@'' \<in> set address \<and> before \<noteq> [] then before else address)"

definition login :: "'w imapClient \<Rightarrow> string \<Rightarrow> string \<Rightarrow> 'w \<Rightarrow> unit libCall \<times> 'w" where
  "login client address password w =
     (let local = loginName address in
      case ic_login client local password w of (r, w1) \<Rightarrow>
        (case r of
           Err e \<Rightarrow> if loginRejection e \<and> local \<noteq> address then ic_login client address password w1
                    else (r, w1)
         | _ \<Rightarrow> (r, w1)))"

text \<open>
  \<open>NewSession\<close> once the deadline of the connection is set; a failure after the greeting closes the
  client.
\<close>

definition newSession ::
  "'w imapClient \<Rightarrow> string \<Rightarrow> string \<Rightarrow> 'w \<times> imapCapabilities \<Rightarrow> unit call \<times> 'w \<times> imapCapabilities" where
  "newSession client address password s =
     (case ic_waitGreeting client (fst s) of (greeting, w1) \<Rightarrow>
      case greeting of
        Crash \<Rightarrow> (Panic, w1, snd s)
      | Err e \<Rightarrow> (Fault (classify e False), ic_close client w1, snd s)
      | Got _ \<Rightarrow>
          (case login client address password w1 of (r, w2) \<Rightarrow>
           case r of
             Crash \<Rightarrow> (Panic, w2, snd s)
           | Err e \<Rightarrow>
               (Fault (if loginRejection e then imapFault ErrorAuthentication False
                       else classify e False), ic_close client w2, snd s)
           | Got _ \<Rightarrow>
               (case ic_caps client w2 of
                  None \<Rightarrow> (Fault protocolFault, ic_close client w2, snd s)
                | Some caps \<Rightarrow> (Done (), w2, caps))))"

fun listLoop :: "imapMailbox list \<Rightarrow> imapMailbox list \<Rightarrow> fault + imapMailbox list" where
  "listLoop [] out = Inr out"
| "listLoop (item # items) out =
     (if maxMailboxResponses - 1 \<le> length out then Inl tooLargeFault
      else case boundedStrings (mb_name item # mb_attributes item) of
             Some e \<Rightarrow> Inl e
           | None \<Rightarrow> listLoop items (out @ [item]))"

text \<open>The answer of a command whose items were read until the end: the error of \<open>Close\<close> comes last.\<close>

definition closed :: "libErr option \<Rightarrow> 'a \<Rightarrow> fault + 'a" where
  "closed err a = (case err of Some e \<Rightarrow> Inl (classify e False) | None \<Rightarrow> Inr a)"

definition sessionList ::
  "'w imapClient \<Rightarrow> 'w \<times> imapCapabilities \<Rightarrow> imapMailbox list call \<times> 'w \<times> imapCapabilities" where
  "sessionList client s =
     onClient False (ic_list client (cap_specialUse (snd s)))
       (\<lambda>(items, err). andThen (listLoop items []) (closed err)) s"

definition sessionSelect ::
  "'w imapClient \<Rightarrow> string \<Rightarrow> bool \<Rightarrow> 'w \<times> imapCapabilities
     \<Rightarrow> selectedMailbox call \<times> 'w \<times> imapCapabilities" where
  "sessionSelect client mailbox readOnly s =
     onClient False (ic_select client mailbox readOnly (cap_condStore (snd s)))
       (\<lambda>data. if sm_uidValidity data = 0 \<or> sm_uidNext data = 0 then Inl protocolFault else Inr data) s"

definition criteriaOf :: "searchRequest \<Rightarrow> searchCriteria" where
  "criteriaOf request =
     \<lparr>sc_range = (rq_uidMin request, rq_uidMax request), sc_since = rq_since request,
      sc_before = rq_before request,
      sc_text = (if rq_query request \<noteq> [] then [rq_query request] else []),
      sc_header = filter (\<lambda>(key, v). v \<noteq> [])
        [(''FROM'', rq_from request), (''TO'', rq_to request), (''SUBJECT'', rq_subject request)],
      sc_notFlag = (if rq_unseenOnly request then [backslash # ''Seen''] else []),
      sc_flag = (if rq_flaggedOnly request then [backslash # ''Flagged''] else [])\<rparr>"

definition sessionSearch ::
  "adapterLib \<Rightarrow> 'w imapClient \<Rightarrow> searchRequest \<Rightarrow> 'w \<times> imapCapabilities
     \<Rightarrow> 32 word list call \<times> 'w \<times> imapCapabilities" where
  "sessionSearch lib client request s =
     (if rq_uidMin request = 0 \<or> rq_uidMax request < rq_uidMin request then (Fault protocolFault, s)
      else if maxSearchWindowUIDs < unat (rq_uidMax request) - unat (rq_uidMin request) + 1
      then (Fault tooLargeFault, s)
      else onClient False (ic_uidSearch client (criteriaOf request))
             (\<lambda>data. case data of
                None \<Rightarrow> Inl protocolFault
              | Some found \<Rightarrow>
                  andThen (expandUIDSet (al_isSearchRes lib) found (rq_uidMin request)
                             (rq_uidMax request) maxSearchWindowUIDs)
                    (\<lambda>out. Inr (rev (sort out)))) s)"

fun fetchLoop ::
  "adapterLib \<Rightarrow> bool \<Rightarrow> 32 word list \<Rightarrow> (libErr + fetchBuffer) list \<Rightarrow> imapMessage list
     \<Rightarrow> fault + imapMessage list" where
  "fetchLoop lib includeHeaders expected [] out = Inr out"
| "fetchLoop lib includeHeaders expected (item # items) out =
     (if length expected \<le> length out then Inl protocolFault
      else case item of
             Inl err \<Rightarrow> Inl (classify err False)
           | Inr b \<Rightarrow>
               if fb_uid b = 0 \<or> fb_uid b \<notin> set expected \<or> fb_uid b \<in> im_uid ` set out
               then Inl protocolFault
               else andThen (convertMessage lib b includeHeaders)
                      (\<lambda>m. fetchLoop lib includeHeaders expected items (out @ [m])))"

definition sessionFetchMetadata ::
  "adapterLib \<Rightarrow> 'w imapClient \<Rightarrow> 32 word list \<Rightarrow> bool \<Rightarrow> 'w \<times> imapCapabilities
     \<Rightarrow> imapMessage list call \<times> 'w \<times> imapCapabilities" where
  "sessionFetchMetadata lib client uids includeHeaders s =
     (if uids = [] then (Done [], s)
      else if maxMetadataMessages < length uids then (Fault tooLargeFault, s)
      else if 0 \<in> set uids \<or> \<not> distinct uids then (Fault protocolFault, s)
      else onClient False (ic_fetch client uids (cap_condStore (snd s)) includeHeaders)
             (\<lambda>(items, err). andThen (fetchLoop lib includeHeaders uids items []) (closed err)) s)"

definition sessionFetchBodyPart ::
  "'w imapClient \<Rightarrow> 32 word \<Rightarrow> nat list \<Rightarrow> 'w \<times> imapCapabilities
     \<Rightarrow> bodyData call \<times> 'w \<times> imapCapabilities" where
  "sessionFetchBodyPart client uid path s =
     onClient False (ic_fetchBody client uid path)
       (\<lambda>buffers. case buffers of
          [(u, mime, body)] \<Rightarrow>
            if u \<noteq> uid then Inl (imapFault ErrorNotFound False)
            else if maxHeaderBytes < int (length (case mime of None \<Rightarrow> [] | Some m \<Rightarrow> m))
                 \<or> maxWireBodyBytes < int (length (case body of None \<Rightarrow> [] | Some b \<Rightarrow> b))
            then Inr \<lparr>bd_mimeHeader = [], bd_body = [], bd_tooLarge = True\<rparr>
            else (case (mime, body) of
                    (Some m, Some b) \<Rightarrow> Inr \<lparr>bd_mimeHeader = m, bd_body = b, bd_tooLarge = False\<rparr>
                  | _ \<Rightarrow> Inl protocolFault)
        | _ \<Rightarrow> Inl (imapFault ErrorNotFound False)) s"

definition sessionStoreDelta ::
  "'w imapClient \<Rightarrow> 32 word \<Rightarrow> bool \<Rightarrow> string list \<Rightarrow> 'w \<times> imapCapabilities
     \<Rightarrow> unit call \<times> 'w \<times> imapCapabilities" where
  "sessionStoreDelta client uid add flags s = onClient True (ic_store client uid add flags) Inr s"

definition sessionConditionalStoreDelta ::
  "'w imapClient \<Rightarrow> 32 word \<Rightarrow> bool \<Rightarrow> string list \<Rightarrow> 64 word \<Rightarrow> 'w \<times> imapCapabilities
     \<Rightarrow> imapMessage call \<times> 'w \<times> imapCapabilities" where
  "sessionConditionalStoreDelta client uid add flags expectedModSeq s =
     (if \<not> cap_condStore (snd s) \<or> expectedModSeq = 0 then (Fault protocolFault, s)
      else onClient True (ic_storeUnchanged client uid add flags expectedModSeq)
             (validateConditionalStore uid add flags expectedModSeq) s)"

definition sessionFetchFlags ::
  "'w imapClient \<Rightarrow> 32 word \<Rightarrow> 'w \<times> imapCapabilities \<Rightarrow> imapMessage call \<times> 'w \<times> imapCapabilities" where
  "sessionFetchFlags client uid s =
     onClient False (ic_fetchFlags client uid (cap_condStore (snd s)))
       (\<lambda>buffers. case buffers of
          [b] \<Rightarrow> if fb_uid b \<noteq> uid then Inl (imapFault ErrorNotFound False) else Inr (flagsMessage uid b)
        | _ \<Rightarrow> Inl (imapFault ErrorNotFound False)) s"

definition copyUID ::
  "32 word \<Rightarrow> bool \<Rightarrow> (32 word \<times> numSet \<times> numSet) option \<Rightarrow> fault + copyData" where
  "copyUID uid required data =
     (case data of
        None \<Rightarrow> Inl (imapFault ErrorProtocol True)
      | Some (uidValidity, source, destination) \<Rightarrow>
          validatedCopyData uid uidValidity source destination required)"

definition sessionNativeMove ::
  "'w imapClient \<Rightarrow> 32 word \<Rightarrow> string \<Rightarrow> 'w \<times> imapCapabilities
     \<Rightarrow> copyData call \<times> 'w \<times> imapCapabilities" where
  "sessionNativeMove client uid destination s =
     (if \<not> cap_move (snd s) then (Fault protocolFault, s)
      else onClient True (ic_move client uid destination) (copyUID uid False) s)"

definition sessionCopy ::
  "'w imapClient \<Rightarrow> 32 word \<Rightarrow> string \<Rightarrow> 'w \<times> imapCapabilities
     \<Rightarrow> copyData call \<times> 'w \<times> imapCapabilities" where
  "sessionCopy client uid destination s =
     onClient True (ic_copy client uid destination) (copyUID uid True) s"

definition sessionAddDeleted ::
  "'w imapClient \<Rightarrow> 32 word \<Rightarrow> 'w \<times> imapCapabilities \<Rightarrow> unit call \<times> 'w \<times> imapCapabilities" where
  "sessionAddDeleted client uid s =
     onClient True (ic_store client uid True [backslash # ''Deleted'']) Inr s"

definition sessionUIDExpunge ::
  "'w imapClient \<Rightarrow> 32 word \<Rightarrow> 'w \<times> imapCapabilities \<Rightarrow> unit call \<times> 'w \<times> imapCapabilities" where
  "sessionUIDExpunge client uid s =
     (if \<not> cap_uidPlus (snd s) then (Fault protocolFault, s)
      else onClient True (ic_uidExpunge client uid) Inr s)"

text \<open>\<open>AppendSent\<close>: the literal, its end and the tagged answer; each failure leaves the outcome open.\<close>

definition sessionAppendSent ::
  "'w imapClient \<Rightarrow> string \<Rightarrow> bytes \<Rightarrow> 'w \<times> imapCapabilities
     \<Rightarrow> appendData call \<times> 'w \<times> imapCapabilities" where
  "sessionAppendSent client mailbox message s =
     (case onClient True (ic_appendWrite client mailbox message) Inr s of (written, s1) \<Rightarrow>
      case written of
        Panic \<Rightarrow> (Panic, s1)
      | Fault e \<Rightarrow>
          (case onClient True (ic_appendClose client) Inr s1 of (ended, s2) \<Rightarrow>
             (if ended = Panic then Panic else Fault e, s2))
      | Done _ \<Rightarrow>
          (case onClient True (ic_appendClose client) Inr s1 of (ended, s2) \<Rightarrow>
           case ended of
             Panic \<Rightarrow> (Panic, s2)
           | Fault e \<Rightarrow> (Fault e, s2)
           | Done _ \<Rightarrow>
               onClient True (ic_appendWait client)
                 (\<lambda>data. case data of None \<Rightarrow> Inl (imapFault ErrorProtocol True) | Some d \<Rightarrow> Inr d) s2))"

definition imapAdapter :: "adapterLib \<Rightarrow> 'w imapClient \<Rightarrow> ('w \<times> imapCapabilities) imapSession" where
  "imapAdapter lib client =
     \<lparr>ss_capabilities = snd, ss_supportsConditionalStore = cap_condStore \<circ> snd,
      ss_list = sessionList client, ss_select = sessionSelect client,
      ss_search = sessionSearch lib client, ss_fetchMetadata = sessionFetchMetadata lib client,
      ss_fetchBodyPart = sessionFetchBodyPart client, ss_storeDelta = sessionStoreDelta client,
      ss_conditionalStoreDelta = sessionConditionalStoreDelta client,
      ss_fetchFlags = sessionFetchFlags client, ss_nativeMove = sessionNativeMove client,
      ss_appendSent = sessionAppendSent client, ss_copy = sessionCopy client,
      ss_addDeleted = sessionAddDeleted client, ss_uidExpunge = sessionUIDExpunge client\<rparr>"

section \<open>Expanded UID sets\<close>

definition rangesUIDs :: "(32 word \<times> 32 word) list \<Rightarrow> 32 word set" where
  "rangesUIDs rs = (\<Union>(a, b)\<in>set rs. {a..b})"

lemma rangesUIDs_simps [simp]:
  "rangesUIDs [] = {}" "rangesUIDs (r # rs) = {fst r..snd r} \<union> rangesUIDs rs"
  by (auto simp: rangesUIDs_def split: prod.splits)

lemma word_upto:
  fixes a b :: "32 word"
  defines "xs \<equiv> map of_nat [unat a..<unat b + 1] :: 32 word list"
  shows "set xs = {a..b}" "sorted_wrt (<) xs" "length xs = unat b + 1 - unat a"
proof -
  have lim: "n < 2 ^ 32" if "n < unat b + 1" for n
    using that unsigned_less [where ?'a = nat and w = b] by simp
  have unat: "unat (of_nat n :: 32 word) = n" if "n < unat b + 1" for n
    using lim [OF that] by (simp add: unat_of_nat take_bit_eq_mod)
  show "set xs = {a..b}"
  proof (intro set_eqI iffI)
    fix u assume "u \<in> set xs"
    then show "u \<in> {a..b}" by (auto simp: xs_def word_le_nat_alt unat)
  next
    fix u assume "u \<in> {a..b}"
    then have "unat u \<in> set [unat a..<unat b + 1]" by (auto simp: word_le_nat_alt)
    then have "of_nat (unat u) \<in> set xs" unfolding xs_def set_map by blast
    then show "u \<in> set xs" by simp
  qed
  show "sorted_wrt (<) xs"
    unfolding xs_def sorted_wrt_map
    by (rule sorted_wrt_mono_rel [OF _ sorted_wrt_upt]) (auto simp: word_less_nat_alt unat)
  show "length xs = unat b + 1 - unat a" by (simp add: xs_def del: upt_Suc)
qed

lemma checkRanges_None:
  assumes "checkRanges lo hi mx rs k prev = None" and "k \<le> mx"
  shows "sorted_wrt (<) (expandRanges rs)" "set (expandRanges rs) = rangesUIDs rs"
    "k + length (expandRanges rs) \<le> mx"
    "\<And>u. u \<in> rangesUIDs rs \<Longrightarrow> lo \<le> unat u \<and> unat u \<le> hi \<and> (\<forall>p. prev = Some p \<longrightarrow> p < unat u)"
proof -
  have "sorted_wrt (<) (expandRanges rs) \<and> set (expandRanges rs) = rangesUIDs rs
      \<and> k + length (expandRanges rs) \<le> mx
      \<and> (\<forall>u \<in> rangesUIDs rs. lo \<le> unat u \<and> unat u \<le> hi \<and> (\<forall>p. prev = Some p \<longrightarrow> p < unat u))"
    using assms
  proof (induction rs arbitrary: k prev)
    case Nil
    then show ?case by (simp add: expandRanges_def)
  next
    case (Cons r rs)
    define a b where "a = fst r" and "b = snd r"
    let ?n = "unat b - unat a + 1"
    from Cons.prems(1) have first: "unat a \<le> unat b" "lo \<le> unat a" "unat b \<le> hi" "?n \<le> mx - k"
        "\<And>p. prev = Some p \<Longrightarrow> p < unat a"
      and rest: "checkRanges lo hi mx rs (k + ?n) (Some (unat b)) = None"
      by (auto simp: a_def b_def Let_def not_le not_less split: if_splits option.splits)
    have expand: "expandRanges (r # rs) = map of_nat [unat a..<unat b + 1] @ expandRanges rs"
      by (simp add: expandRanges_def a_def b_def case_prod_unfold)
    have "k + ?n \<le> mx" using first(4) Cons.prems(2) by simp
    note IH = Cons.IH [OF rest this]
    note up = word_upto [of a b]
    have later: "unat b < unat u" if "u \<in> rangesUIDs rs" for u using IH that by blast
    have sorted: "sorted_wrt (<) (expandRanges (r # rs))"
      unfolding expand sorted_wrt_append up(1)
    proof (intro conjI ballI)
      fix x y assume "x \<in> {a..b}" "y \<in> set (expandRanges rs)"
      with IH later show "x < y" by (auto simp: word_less_nat_alt word_le_nat_alt intro: le_less_trans)
    qed (use IH up(2) in blast)+
    have "set (expandRanges (r # rs)) = rangesUIDs (r # rs)"
      using IH unfolding expand set_append up(1) by (simp add: a_def b_def)
    moreover have "k + length (expandRanges (r # rs)) \<le> mx"
      using IH up(3) first(1) unfolding expand length_append by linarith
    moreover have "lo \<le> unat u \<and> unat u \<le> hi \<and> (\<forall>p. prev = Some p \<longrightarrow> p < unat u)"
      if "u \<in> rangesUIDs (r # rs)" for u
    proof (cases "u \<in> {a..b}")
      case True
      with first show ?thesis by (auto simp: word_le_nat_alt intro: order.strict_trans2)
    next
      case False
      with that have u: "u \<in> rangesUIDs rs" by (auto simp: a_def b_def)
      with IH later [OF u] first show ?thesis by fastforce
    qed
    ultimately show ?case using sorted by blast
  qed
  then show "sorted_wrt (<) (expandRanges rs)" "set (expandRanges rs) = rangesUIDs rs"
    "k + length (expandRanges rs) \<le> mx"
    "\<And>u. u \<in> rangesUIDs rs \<Longrightarrow> lo \<le> unat u \<and> unat u \<le> hi \<and> (\<forall>p. prev = Some p \<longrightarrow> p < unat u)"
    by blast+
qed

lemma expandUIDSet_Inr:
  assumes "expandUIDSet isSearchRes found lo hi mx = Inr out"
  obtains rs where "found = UIDSet rs" "set out = rangesUIDs rs" "sorted_wrt (<) out"
    "set out \<subseteq> {lo..hi}" "length out \<le> mx" "0 \<notin> set out"
proof -
  from assms obtain rs where rs: "found = UIDSet rs" "out = expandRanges rs" "lo \<noteq> 0"
      and check: "checkRanges (unat lo) (unat hi) mx rs 0 None = None"
    by (auto simp: expandUIDSet_def split: numSet.splits if_splits option.splits)
  note R = checkRanges_None [OF check le0]
  have "set out \<subseteq> {lo..hi}" using R(2,4) rs by (auto simp: word_le_nat_alt)
  moreover have "0 \<notin> set out" using R(2) R(4) [of 0] rs by (auto simp: unsigned_eq_0_iff)
  ultimately show ?thesis using that rs R by simp
qed

section \<open>Flattened body structures\<close>

text \<open>
  What holds of the parts below a path: they are the ones added, their paths extend the path and
  are distinct, and a part offered as inline text is no attachment.
\<close>

definition shortString :: "string \<Rightarrow> bool" where
  "shortString v \<longleftrightarrow> length v \<le> maxMetadataString"

lemma boundedString_None [simp]: "boundedString v = None \<longleftrightarrow> shortString v"
  by (auto simp: boundedString_def shortString_def)

lemma boundedStrings_None [simp]: "boundedStrings vs = None \<longleftrightarrow> list_all shortString vs"
  by (auto simp: boundedStrings_def list_ex_iff list_all_iff simp flip: boundedString_None)

definition partOk :: "bodyPart \<Rightarrow> bool" where
  "partOk p \<longleftrightarrow> length (bp_path p) \<le> maxDepth
     \<and> shortString (bp_filename p) \<and> shortString (bp_contentID p) \<and> shortString (bp_disposition p)
     \<and> (bp_inlinePlain p \<longrightarrow> bp_contentType p = ''text/plain'' \<and> \<not> bp_attachment p)"

definition partsUnder :: "nat list set \<Rightarrow> bodyPart list \<Rightarrow> bool" where
  "partsUnder roots ps \<longleftrightarrow> list_all partOk ps \<and> distinct (map bp_path ps)
     \<and> (\<forall>p \<in> set ps. \<exists>r \<in> roots. \<exists>rest. bp_path p = r @ rest)"

lemma shortString_Nil [simp]: "shortString []"
  by (simp add: shortString_def)

lemma dispositionOf_short: "dispositionOf lower v = Inr d \<Longrightarrow> shortString d"
  by (auto simp: dispositionOf_def split: option.splits)

lemma flattenSingle_ok:
  "flattenSingle p path d x = Inr bp \<Longrightarrow> length path \<le> maxDepth \<Longrightarrow> shortString d \<Longrightarrow>
     partOk bp \<and> bp_path bp = path"
  by (auto simp: flattenSingle_def partOk_def Let_def split: option.splits)

lemma partsUnder_append:
  assumes "partsUnder A xs" and "partsUnder B ys"
    and "\<And>a b r r'. a \<in> A \<Longrightarrow> b \<in> B \<Longrightarrow> a @ r \<noteq> b @ r'"
  shows "partsUnder (A \<union> B) (xs @ ys)"
proof -
  have "bp_path x \<noteq> bp_path y" if "x \<in> set xs" "y \<in> set ys" for x y
    using assms that unfolding partsUnder_def by metis
  then have "distinct (map bp_path (xs @ ys))" using assms(1,2) by (auto simp: partsUnder_def)
  moreover have "\<exists>r \<in> A \<union> B. \<exists>rest. bp_path p = r @ rest" if "p \<in> set (xs @ ys)" for p
    using assms(1,2) that unfolding partsUnder_def by (metis Un_iff set_append)
  ultimately show ?thesis using assms(1,2) by (simp add: partsUnder_def)
qed

lemma partsUnder_mono: "partsUnder A xs \<Longrightarrow> A \<subseteq> B \<Longrightarrow> partsUnder B xs"
  unfolding partsUnder_def by blast

text \<open>The roots of the children from position \<open>i\<close> on.\<close>

abbreviation childRoots :: "nat list \<Rightarrow> nat \<Rightarrow> nat list set" where
  "childRoots path i \<equiv> {path @ [j] |j. i \<le> j}"

lemma partsUnder_children:
  assumes "partsUnder {path @ [i]} xs" and "partsUnder (childRoots path (Suc i)) ys"
  shows "partsUnder (childRoots path i) (xs @ ys)"
  by (rule partsUnder_mono [OF partsUnder_append [OF assms]]) auto

lemma partsUnder_multi:
  assumes "partsUnder (childRoots path i) ys" and "partOk bp" and "bp_path bp = path"
  shows "partsUnder {path} (bp # ys)"
proof -
  have below: "\<exists>j rest. bp_path p = path @ j # rest" if "p \<in> set ys" for p
  proof -
    from assms(1) that obtain r rest where "r \<in> childRoots path i" "bp_path p = r @ rest"
      unfolding partsUnder_def by blast
    then show ?thesis by auto
  qed
  then have "path \<notin> bp_path ` set ys" by fastforce
  moreover have "\<exists>rest. bp_path p = path @ rest" if "p \<in> set ys" for p
    using below [OF that] by blast
  ultimately show ?thesis using assms unfolding partsUnder_def by simp
qed

lemma walk_parts:
  "walkPart lower part path x ps = Inr ps' \<Longrightarrow> length ps \<le> maxParts \<Longrightarrow>
     length ps' \<le> maxParts \<and> (\<exists>new. ps' = ps @ new \<and> partsUnder {path} new)"
  "walkChildren lower children path i ps = Inr ps' \<Longrightarrow> length ps \<le> maxParts \<Longrightarrow>
     length ps' \<le> maxParts \<and> (\<exists>new. ps' = ps @ new \<and> partsUnder (childRoots path i) new)"
proof (induction lower part path x ps and lower children path i ps arbitrary: ps' and ps'
    rule: walkPart_walkChildren.induct)
  case (1 lower p path excluded parts)
  then obtain d bp where "flattenSingle p path d (excluded \<or> d = ''attachment'') = Inr bp"
      "ps' = parts @ [bp]" "length path \<le> maxDepth" "length parts < maxParts" "shortString d"
    by (auto simp: andThen_def dest: dispositionOf_short split: if_splits sum.splits)
  with flattenSingle_ok [OF this(1,3,5)] show ?case by (auto simp: partsUnder_def)
next
  case (2 lower disposition mediaType children path excluded parts)
  then obtain d where len: "length path \<le> maxDepth" "length parts < maxParts"
      and d: "dispositionOf lower disposition = Inr d"
    by (auto simp: andThen_def split: if_splits sum.splits)
  define ex where "ex = (excluded \<or> d = ''attachment'')"
  define bp where "bp = \<lparr>bp_path = path, bp_contentType = mediaType, bp_disposition = d,
                 bp_filename = [], bp_contentID = [], bp_size = 0, bp_inlinePlain = False,
                 bp_attachment = ex\<rparr>"
  have ok: "partOk bp" "bp_path bp = path" using len dispositionOf_short [OF d] by (simp_all add: partOk_def bp_def)
  show ?case
  proof (cases ex)
    case True
    with 2(2) len d have "ps' = parts @ [bp]"
      by (simp add: andThen_def Let_def ex_def bp_def)
    with ok len show ?thesis by (auto simp: partsUnder_def)
  next
    case False
    with 2(2) len d have run: "walkChildren lower children path 1 (parts @ [bp]) = Inr ps'"
      by (simp add: andThen_def Let_def ex_def bp_def)
    have "length ps' \<le> maxParts \<and> (\<exists>new. ps' = (parts @ [bp]) @ new \<and> partsUnder (childRoots path 1) new)"
      by (rule 2(1) [where x = d and xa = False]) (use len run False in \<open>auto simp: ex_def bp_def\<close>)
    with ok show ?thesis using partsUnder_multi [of path 1] by fastforce
  qed
next
  case (5 lower child children path i parts)
  then obtain mid where part: "walkPart lower child (path @ [i]) False parts = Inr mid"
      and rest: "walkChildren lower children path (Suc i) mid = Inr ps'"
    by (auto simp: andThen_def split: sum.splits)
  from 5(1) [OF part 5(4)] obtain new where new: "length mid \<le> maxParts" "mid = parts @ new"
      "partsUnder {path @ [i]} new" by blast
  from 5(2) [of mid ps'] rest new(1) part obtain more where "length ps' \<le> maxParts"
      "ps' = mid @ more" "partsUnder (childRoots path (Suc i)) more"
    by auto
  with new partsUnder_children [OF new(3)] show ?case by auto
qed (auto simp: andThen_def partsUnder_def split: if_splits sum.splits)

lemma flatten_parts:
  assumes "flattenBodyStructure lower root = Inr parts"
  shows "length parts \<le> maxParts" "list_all partOk parts" "distinct (map bp_path parts)"
  using walk_parts(1) [OF assms [unfolded flattenBodyStructure_def]]
  by (auto simp: partsUnder_def maxParts_def)

text \<open>
  The strings of a part that do not reach the result are limited too. The parts the adapter walks
  are the leaves of the structure, except those below a multipart that is itself an attachment.
\<close>

fun walkedSingles :: "(string \<Rightarrow> string) \<Rightarrow> bodyStructure \<Rightarrow> singlePart list" where
  "walkedSingles lower (SinglePart p) = [p]"
| "walkedSingles lower (MultiPart disposition mediaType children) =
     (if map_option lower disposition = Some ''attachment'' then []
      else concat (map (walkedSingles lower) children))"
| "walkedSingles lower (OtherPart disposition) = []"

definition singleShort :: "singlePart \<Rightarrow> bool" where
  "singleShort p \<longleftrightarrow> list_all shortString [sp_type p, sp_subtype p, sp_id p, sp_filename p,
       sp_description p, sp_encoding p]
     \<and> list_all (\<lambda>(k, v). shortString k \<and> shortString v) (sp_params p)"

lemma flattenSingle_short: "flattenSingle p path d x = Inr bp \<Longrightarrow> singleShort p"
  by (auto simp: flattenSingle_def singleShort_def list_all_iff split: option.splits)

lemma dispositionOf_attachment:
  "dispositionOf lower v = Inr d \<Longrightarrow> d = ''attachment'' \<longleftrightarrow> map_option lower v = Some ''attachment''"
  by (auto simp: dispositionOf_def split: option.splits)

lemma walk_short:
  "walkPart lower part path x ps = Inr ps' \<Longrightarrow> \<not> x \<Longrightarrow> list_all singleShort (walkedSingles lower part)"
  "walkChildren lower children path i ps = Inr ps' \<Longrightarrow>
     list_all singleShort (concat (map (walkedSingles lower) children))"
proof (induction lower part path x ps and lower children path i ps arbitrary: ps' and ps'
    rule: walkPart_walkChildren.induct)
  case (2 lower disposition mediaType children path excluded parts)
  then obtain d where d: "dispositionOf lower disposition = Inr d" "length path \<le> maxDepth"
      "length parts < maxParts"
    by (auto simp: andThen_def split: if_splits sum.splits)
  show ?case
  proof (cases "d = ''attachment''")
    case True
    with dispositionOf_attachment [OF d(1)] show ?thesis by simp
  next
    case False
    with 2(2,3) d have "walkChildren lower children path 1 (parts @ [\<lparr>bp_path = path,
        bp_contentType = mediaType, bp_disposition = d, bp_filename = [], bp_contentID = [], bp_size = 0,
        bp_inlinePlain = False, bp_attachment = False\<rparr>]) = Inr ps'"
      by (simp add: andThen_def Let_def)
    then have "list_all singleShort (concat (map (walkedSingles lower) children))"
      by (intro 2(1) [where x = d and xa = False]) (use 2(3) d False in auto)
    with False dispositionOf_attachment [OF d(1)] show ?thesis by simp
  qed
qed (auto simp: andThen_def dest: flattenSingle_short split: if_splits sum.splits)

section \<open>Well-formed messages\<close>

definition shortAddresses :: "address list \<Rightarrow> bool" where
  "shortAddresses as \<longleftrightarrow> list_all (\<lambda>(n, a). shortString n \<and> shortString a) as"

definition envelopeOk :: "envelope \<Rightarrow> bool" where
  "envelopeOk e \<longleftrightarrow> shortString (en_subject e) \<and> shortString (en_messageID e)
     \<and> list_all shortString (en_inReplyTo e)
     \<and> list_all shortAddresses [en_from e, en_replyTo e, en_to e, en_cc e]
     \<and> list_all (\<lambda>(n, a). a \<noteq> []) (en_from e @ en_replyTo e @ en_to e @ en_cc e)
     \<and> length (en_from e) + length (en_replyTo e) + length (en_to e) + length (en_cc e) \<le> maxAddresses"

definition headersOk :: "curatedHeaders \<Rightarrow> bool" where
  "headersOk h \<longleftrightarrow> shortString (ch_messageID h) \<and> list_all shortString (ch_inReplyTo h @ ch_references h)
     \<and> shortAddresses (ch_replyTo h) \<and> length (ch_replyTo h) \<le> maxAddresses"

definition messageOk :: "imapMessage \<Rightarrow> bool" where
  "messageOk m \<longleftrightarrow> im_uid m \<noteq> 0 \<and> envelopeOk (im_envelope m) \<and> headersOk (im_headers m)
     \<and> length (im_parts m) \<le> maxParts \<and> list_all partOk (im_parts m)
     \<and> distinct (map bp_path (im_parts m))"

lemma convertLoop_Inr:
  "convertLoop as = Inr out \<Longrightarrow> shortAddresses out \<and> list_all (\<lambda>(n, a). a \<noteq> []) out
     \<and> out = filter (\<lambda>a. snd a \<noteq> []) as"
  by (induction as arbitrary: out)
    (auto simp: shortAddresses_def andThen_def split: if_splits option.splits sum.splits)

lemma convertAddresses_Inr:
  "convertAddresses as = Inr out \<Longrightarrow> shortAddresses out \<and> list_all (\<lambda>(n, a). a \<noteq> []) out"
  by (auto simp: convertAddresses_def dest: convertLoop_Inr split: if_splits)

lemma convertEnvelope_Inr: "convertEnvelope e = Inr env \<Longrightarrow> envelopeOk env"
  by (auto simp: convertEnvelope_def envelopeOk_def andThen_def dest!: convertAddresses_Inr
      split: option.splits sum.splits if_splits)

lemma parseCuratedHeaders_Inr: "parseCuratedHeaders lib data = Inr h \<Longrightarrow> headersOk h"
  by (fastforce simp: parseCuratedHeaders_def headersOk_def shortAddresses_def list_all_iff
      split: option.splits if_splits)

lemma emptyHeaders_ok: "headersOk emptyHeaders"
  by (simp add: headersOk_def emptyHeaders_def shortString_def shortAddresses_def)

text \<open>A message is that of the server's answer, whose strings are limited too.\<close>

definition convertedFrom :: "(string \<Rightarrow> string) \<Rightarrow> fetchBuffer \<Rightarrow> imapMessage \<Rightarrow> bool" where
  "convertedFrom lower b m \<longleftrightarrow> im_uid m = fb_uid b \<and> im_flags m = fb_flags b
     \<and> im_internalDate m = fb_internalDate b \<and> im_size m = fb_size b \<and> im_modSeq m = fb_modSeq b
     \<and> (case fb_bodyStructure b of
          None \<Rightarrow> False
        | Some body \<Rightarrow> list_all singleShort (walkedSingles lower body))"

lemma convertMessage_from:
  "convertMessage lib b includeHeaders = Inr m \<Longrightarrow> convertedFrom (al_lower lib) b m"
  by (auto simp: convertMessage_def convertedFrom_def andThen_def Let_def flattenBodyStructure_def
      dest: walk_short(1) split: option.splits sum.splits if_splits list.splits)

lemma convertMessage_Inr:
  assumes "convertMessage lib b includeHeaders = Inr m"
  shows "messageOk m \<and> im_uid m = fb_uid b"
proof -
  from assms obtain e body envelope parts where uid: "fb_uid b \<noteq> 0"
      and env: "convertEnvelope e = Inr envelope"
      and parts: "flattenBodyStructure (al_lower lib) body = Inr parts"
      and m: "im_uid m = fb_uid b" "im_envelope m = envelope" "im_parts m = parts"
        "headersOk (im_headers m)"
    using emptyHeaders_ok
    by (auto simp: convertMessage_def andThen_def Let_def dest: parseCuratedHeaders_Inr
        split: option.splits sum.splits if_splits list.splits)
  then show ?thesis
    using convertEnvelope_Inr [OF env] flatten_parts [OF parts]
    by (auto simp: messageOk_def)
qed

lemma fetchLoop_Inr:
  "fetchLoop lib hdrs expected items out = Inr ms \<Longrightarrow>
     list_all messageOk out \<Longrightarrow> distinct (map im_uid out) \<Longrightarrow> set (map im_uid out) \<subseteq> set expected \<Longrightarrow>
     list_all messageOk ms \<and> distinct (map im_uid ms) \<and> set (map im_uid ms) \<subseteq> set expected"
proof (induction items arbitrary: out)
  case Nil
  then show ?case by simp
next
  case (Cons item items)
  then obtain b m where "item = Inr b" "fb_uid b \<in> set expected" "fb_uid b \<notin> im_uid ` set out"
      and conv: "convertMessage lib b hdrs = Inr m"
      and rest: "fetchLoop lib hdrs expected items (out @ [m]) = Inr ms"
    by (auto simp: andThen_def split: if_splits sum.splits)
  with convertMessage_Inr [OF conv] Cons.prems show ?case
    by (intro Cons.IH [OF rest]) auto
qed

lemma fetchLoop_from:
  "fetchLoop lib hdrs expected items out = Inr ms \<Longrightarrow> m \<in> set ms \<Longrightarrow> m \<notin> set out \<Longrightarrow>
     \<exists>b. Inr b \<in> set items \<and> convertedFrom (al_lower lib) b m"
proof (induction items arbitrary: out)
  case (Cons item items)
  then obtain b m' where "item = Inr b" and conv: "convertMessage lib b hdrs = Inr m'"
      and rest: "fetchLoop lib hdrs expected items (out @ [m']) = Inr ms"
    by (auto simp: andThen_def split: if_splits sum.splits)
  with convertMessage_from [OF conv] Cons.IH [OF rest] Cons.prems show ?case by auto
qed simp

section \<open>Faults of the adapter\<close>

lemma imapFault_sel [simp]: "f_mail (imapFault k a) = None" "f_imap (imapFault k a) = Some (k, a)"
  by (simp_all add: imapFault_def plainFault_def)

lemma classify_mail [simp]: "f_mail (classify e a) = None"
  by (auto simp: classify_def split: option.splits)

lemma classify_definite: "f_imap (classify e True) = Some (k, False) \<Longrightarrow> le_imap e \<noteq> None"
  by (auto simp: classify_def split: option.splits if_splits)

lemma onClient_Done:
  assumes "onClient a request f s = (Done b, s')"
  obtains v where "request (fst s) = (Got v, fst s')" "f v = Inr b" "snd s' = snd s"
  using assms by (auto simp: onClient_def split: prod.splits libCall.splits sum.splits)

lemma onClient_Fault:
  assumes "onClient a request f s = (Fault e, s')"
  shows "(\<exists>err. request (fst s) = (Err err, fst s') \<and> e = classify err a)
     \<or> (\<exists>v. request (fst s) = (Got v, fst s') \<and> f v = Inl e)"
  using assms by (auto simp: onClient_def split: prod.splits libCall.splits sum.splits)

lemma copyUID_Inr:
  "copyUID uid True data = Inr d \<Longrightarrow>
     data = Some (cd_uidValidity d, UIDSet [(uid, uid)], UIDSet [(cd_destinationUID d, cd_destinationUID d)])
     \<and> cd_uidValidity d \<noteq> 0 \<and> cd_destinationUID d \<noteq> 0"
  by (auto simp: copyUID_def validatedCopyData_def scalarUID_def
      split: option.splits if_splits numSet.splits list.splits)

lemma copyUID_Inl: "copyUID uid required data = Inl e \<Longrightarrow> e = imapFault ErrorProtocol True"
  by (auto simp: copyUID_def validatedCopyData_def split: option.splits if_splits)

lemma validateConditionalStore_Inl: "validateConditionalStore u a f q bs = Inl e \<Longrightarrow> f_mail e = None"
  by (auto simp: validateConditionalStore_def split: list.splits if_splits)

text \<open>The adapter meets the assumption of the mutations on their session.\<close>

lemma onClient_faults:
  assumes "fst (onClient a request f s) = Fault e" and "\<And>v e. f v = Inl e \<Longrightarrow> f_mail e = None"
  shows "f_mail e = None"
  using assms by (auto simp: onClient_def split: prod.splits libCall.splits sum.splits)

lemma adapter_session: "adapterSession (imapAdapter lib client)"
proof -
  have move: "adapterFaults (sessionNativeMove client u d)" for u d
    by (auto simp: adapterFaults_def sessionNativeMove_def dest!: copyUID_Inl elim!: onClient_faults)
  have copy: "adapterFaults (sessionCopy client u d)" for u d
    by (auto simp: adapterFaults_def sessionCopy_def dest!: copyUID_Inl elim!: onClient_faults)
  have store: "adapterFaults (sessionStoreDelta client u a f)" for u a f
    by (auto simp: adapterFaults_def sessionStoreDelta_def elim!: onClient_faults)
  have cond: "adapterFaults (sessionConditionalStoreDelta client u a f q)" for u a f q
    by (auto simp: adapterFaults_def sessionConditionalStoreDelta_def
        dest!: validateConditionalStore_Inl elim!: onClient_faults)
  from move copy store cond show ?thesis by (simp add: adapterSession_def imapAdapter_def)
qed

section \<open>A sample server\<close>

text \<open>A server with one message, whose searches find the UIDs 2, 3 and 5.\<close>

definition sampleBuffer :: fetchBuffer where
  "sampleBuffer = \<lparr>fb_uid = 5, fb_flags = [], fb_envelope = Some \<lparr>ln_date = 0, ln_subject = ''Hi'',
     ln_from = [(''A'', ''a@example.com'')], ln_sender = [], ln_replyTo = [], ln_to = [], ln_cc = [],
     ln_bcc = [], ln_messageID = ''m@example.com'', ln_inReplyTo = []\<rparr>, fb_internalDate = 0, fb_size = 10,
     fb_modSeq = 3, fb_bodyStructure = Some (MultiPart None ''multipart/mixed''
       [SinglePart \<lparr>sp_type = ''text'', sp_subtype = ''plain'', sp_params = [], sp_id = [],
          sp_description = [], sp_encoding = ''7bit'', sp_size = 4, sp_filename = [],
          sp_mediaType = ''text/plain'', sp_disposition = None\<rparr>]), fb_bodySection = []\<rparr>"

definition sampleIMAP :: "unit imapClient" where
  "sampleIMAP = \<lparr>ic_waitGreeting = (\<lambda>w. (Got (), w)), ic_login = (\<lambda>a p w. (Got (), w)),
     ic_caps = (\<lambda>w. Some sampleCaps), ic_list = (\<lambda>b w. (Got ([], None), w)),
     ic_select = (\<lambda>m r c w. (Got \<lparr>sm_uidValidity = 7, sm_uidNext = 6\<rparr>, w)),
     ic_uidSearch = (\<lambda>c w. (Got (Some (UIDSet [(2, 3), (5, 5)])), w)),
     ic_fetch = (\<lambda>u c h w. (Got ([Inr sampleBuffer], None), w)),
     ic_fetchBody = (\<lambda>u p w. (Got [], w)), ic_fetchFlags = (\<lambda>u c w. (Got [sampleBuffer], w)),
     ic_store = (\<lambda>u a f w. (Got (), w)), ic_storeUnchanged = (\<lambda>u a f q w. (Got [sampleBuffer], w)),
     ic_move = (\<lambda>u d w. (Got None, w)), ic_copy = (\<lambda>u d w. (Got None, w)),
     ic_uidExpunge = (\<lambda>u w. (Got (), w)), ic_appendWrite = (\<lambda>m b w. (Got (), w)),
     ic_appendClose = (\<lambda>w. (Got (), w)), ic_appendWait = (\<lambda>w. (Got None, w)), ic_close = (\<lambda>w. w)\<rparr>"

definition sampleAdapterLib :: adapterLib where
  "sampleAdapterLib = \<lparr>al_readHeader = (\<lambda>_. None), al_lower = (\<lambda>v. v), al_isSearchRes = (\<lambda>_. False)\<rparr>"

definition sampleWindow :: searchRequest where
  "sampleWindow = \<lparr>rq_uidMin = 1, rq_uidMax = 10, rq_query = [], rq_from = [], rq_to = [],
     rq_subject = [], rq_since = 0, rq_before = 0, rq_unseenOnly = False, rq_flaggedOnly = False\<rparr>"

section \<open>Properties\<close>



text \<open>
  The adapter answers a search with exactly the UIDs of the server's ranges, newest first and
  each once, all inside the requested window and none of them zero.
\<close>

theorem adapter_search_exact:
  assumes "sessionSearch lib client request s = (Done uids, s')"
  shows "\<exists>rs. ic_uidSearch client (criteriaOf request) (fst s) = (Got (Some (UIDSet rs)), fst s')
      \<and> set uids = rangesUIDs rs"
    "sorted_wrt (>) uids" "set uids \<subseteq> {rq_uidMin request..rq_uidMax request}" "0 \<notin> set uids"
    "length uids \<le> maxSearchWindowUIDs"
proof -
  from assms obtain found out where call: "ic_uidSearch client (criteriaOf request) (fst s)
        = (Got (Some found), fst s')"
      and out: "expandUIDSet (al_isSearchRes lib) found (rq_uidMin request) (rq_uidMax request)
        maxSearchWindowUIDs = Inr out" "uids = rev (sort out)"
    by (auto simp: sessionSearch_def andThen_def elim!: onClient_Done
        split: if_splits option.splits sum.splits)
  from out(1) obtain rs where R: "found = UIDSet rs" "set out = rangesUIDs rs" "sorted_wrt (<) out"
      "set out \<subseteq> {rq_uidMin request..rq_uidMax request}" "length out \<le> maxSearchWindowUIDs"
      "0 \<notin> set out"
    by (rule expandUIDSet_Inr)
  have "sorted out" using R(3) by (rule strict_sorted_imp_sorted)
  then have "uids = rev out" using out(2) by (simp add: sorted_sort_id)
  with R call show "\<exists>rs. ic_uidSearch client (criteriaOf request) (fst s)
        = (Got (Some (UIDSet rs)), fst s') \<and> set uids = rangesUIDs rs"
    "sorted_wrt (>) uids" "set uids \<subseteq> {rq_uidMin request..rq_uidMax request}" "0 \<notin> set uids"
    "length uids \<le> maxSearchWindowUIDs"
    by (auto simp: sorted_wrt_rev)
qed

theorem adapter_search_exact_witness:
  "sessionSearch sampleAdapterLib sampleIMAP sampleWindow ((), sampleCaps) = (Done [5, 3, 2], (), sampleCaps)
     \<and> sorted_wrt (>) [5, 3, 2 :: 32 word] \<and> {2, 3, 5} \<subseteq> {rq_uidMin sampleWindow..rq_uidMax sampleWindow}"
proof -
  have run: "sessionSearch sampleAdapterLib sampleIMAP sampleWindow ((), sampleCaps)
      = (Done [5, 3, 2], (), sampleCaps)"
    by code_simp
  from run adapter_search_exact(2,3) [OF run] show ?thesis by auto
qed

text \<open>
  The adapter's verdict on a COPY is what the server said. A success means that the server
  confirmed with \<open>COPYUID\<close> that exactly the requested message was copied to exactly one new UID; a
  failure is called definite only when the server answered the command itself, and is otherwise
  marked as ambiguous.
\<close>

theorem adapter_copy_verdict:
  "case sessionCopy client uid destination s of (r, s') \<Rightarrow>
     case r of
       Done d \<Rightarrow>
         ic_copy client uid destination (fst s) =
           (Got (Some (cd_uidValidity d, UIDSet [(uid, uid)],
              UIDSet [(cd_destinationUID d, cd_destinationUID d)])), fst s')
         \<and> cd_uidValidity d \<noteq> 0 \<and> cd_destinationUID d \<noteq> 0
     | Fault e \<Rightarrow>
         \<exists>kind ambiguous. f_imap e = Some (kind, ambiguous)
           \<and> (ambiguous \<or> (\<exists>err. ic_copy client uid destination (fst s) = (Err err, fst s')
                             \<and> le_imap err \<noteq> None))
     | Panic \<Rightarrow> True"
proof -
  obtain r s' where run: "sessionCopy client uid destination s = (r, s')" by (rule prod.exhaust)
  show ?thesis
  proof (cases r)
    case (Done d)
    with run show ?thesis
      by (auto simp: sessionCopy_def dest!: copyUID_Inr elim!: onClient_Done)
  next
    case (Fault e)
    then have "(\<exists>err. ic_copy client uid destination (fst s) = (Err err, fst s') \<and> e = classify err True)
        \<or> e = imapFault ErrorProtocol True"
      using run onClient_Fault [of True "ic_copy client uid destination" "copyUID uid True" s e s']
      by (auto simp: sessionCopy_def dest: copyUID_Inl)
    moreover have "\<exists>kind ambiguous. f_imap (classify err True) = Some (kind, ambiguous)" for err
      by (auto simp: classify_def split: option.splits)
    ultimately show ?thesis using run Fault classify_definite by (auto, metis)
  qed (use run in simp)
qed

text \<open>
  The validation of a conditional STORE accepts an answer without the requested flag as soon as
  its MODSEQ is newer than expected, which is how a message looks that another client changed.
\<close>

lemma conditional_store_ignores_missing_flag:
  assumes "expected < q" and "fb_uid b = uid" and "fb_modSeq b = q"
  shows "validateConditionalStore uid add flags expected [b] = Inr (flagsMessage uid b)"
  using assms by (simp add: validateConditionalStore_def)

end
