(* ===== verification/Mail_Reply.thy ===== *)
theory Mail_Reply
  imports Send_Cache Mail_Read Imap_Adapter
begin

text \<open>
  \<open>ReplyMessage\<close> of \<open>internal/mail/reply.go\<close>: the source message is read, the reply is addressed and
  handed to \<open>SendMessage\<close>. The theory composes the reading, the IMAP adapter and the sending of the
  other mail theories.
\<close>

record replyInput =
  ri_mailbox :: string
  ri_uidValidity :: "32 word"
  ri_uid :: "32 word"
  ri_mode :: string
  ri_subject :: string
  ri_body :: string
  ri_idempotencyKey :: string

definition replyModeSender :: string where "replyModeSender = ''sender''"
definition replyModeReplyAll :: string where "replyModeReplyAll = ''reply_all''"

definition replyMode :: "replyInput \<Rightarrow> string" where
  "replyMode input = (let mode = trimSpace (ri_mode input) in if mode = [] then replyModeSender else mode)"

section \<open>Preparing the reply\<close>

text \<open>The loop over the candidates; \<open>seen\<close> holds the keys of the recipients found so far.\<close>

fun replyRecipients ::
  "addressParser \<Rightarrow> (string \<Rightarrow> string) \<Rightarrow> string \<Rightarrow> address list \<Rightarrow> string list \<Rightarrow> goError + string list" where
  "replyRecipients parseAddress lower own [] recipients = Inr recipients"
| "replyRecipients parseAddress lower own (candidate # candidates) recipients =
     (let address = trimSpace (snd candidate) in
      if address = [] \<or> equalFold address own
      then replyRecipients parseAddress lower own candidates recipients
      else case validateAddrSpec parseAddress address of
             None \<Rightarrow> Inl (mailValidationError ''source reply recipient is not a plain addr-spec'')
           | Some normalized \<Rightarrow>
               if lower normalized \<in> lower ` set recipients
               then replyRecipients parseAddress lower own candidates recipients
               else replyRecipients parseAddress lower own candidates (recipients @ [normalized]))"

definition replyCandidates :: "string \<Rightarrow> message \<Rightarrow> address list" where
  "replyCandidates mode source =
     (let candidates = (if mg_replyTo source = [] then ms_from source else mg_replyTo source) in
      if mode = replyModeReplyAll then candidates @ ms_to source @ ms_cc source else candidates)"

definition replySubject :: "(string \<Rightarrow> string) \<Rightarrow> string \<Rightarrow> string" where
  "replySubject lower subject =
     truncateUTF8 (if hasPrefix (lower (trimSpace subject)) ''re:'' then subject else ''Re: '' @ subject)
       maxSubjectBytes"

definition prepareReply ::
  "addressParser \<Rightarrow> (string \<Rightarrow> string) \<Rightarrow> string \<Rightarrow> replyInput \<Rightarrow> message \<Rightarrow> goError + sendInput" where
  "prepareReply parseAddress lower own input source =
     (if \<not> validMessageID (ms_messageID source)
      then Inl (mailValidationError ''source message has no valid Message-ID for a reply'')
      else andThen (replyRecipients parseAddress lower own
                      (replyCandidates (replyMode input) source) []) (\<lambda>recipients.
        if recipients = [] then Inl (mailValidationError ''source message has no valid reply recipient'')
        else if maxRecipients < length recipients
        then Inl (mailValidationError ''reply recipient count exceeds 50'')
        else andThen (replyReferences (mg_references source) (ms_messageID source)) (\<lambda>references.
          Inr \<lparr>in_to = recipients, in_cc = [], in_bcc = [],
            in_subject = replySubject lower (ms_subject source), in_body = ri_body input,
            in_idempotencyKey = ri_idempotencyKey input, in_archiveSent = False,
            in_inReplyTo = ms_messageID source, in_references = references\<rparr>)))"

definition validateReply :: "replyInput \<Rightarrow> goError option" where
  "validateReply input =
     (if replyMode input \<noteq> replyModeSender \<and> replyMode input \<noteq> replyModeReplyAll
      then Some (mailValidationError ''mode must be sender or reply_all'')
      else if maxSendBodyBytes < int (length (ri_body input)) \<or> \<not> validUTF8 (ri_body input)
              \<or> nul \<in> set (ri_body input)
      then Some (mailValidationError ''body contains invalid or excessive data'')
      else validateSendIdempotencyKey (ri_idempotencyKey input))"

definition replyMessage ::
  "readLib \<Rightarrow> (string \<Rightarrow> string) \<Rightarrow> (string \<Rightarrow> string) \<Rightarrow> (string \<Rightarrow> 'w \<Rightarrow> sendOutcome option \<times> 'w)
     \<Rightarrow> 'w smtpEnv \<Rightarrow> mailClient \<Rightarrow> replyInput \<Rightarrow> sendCache \<Rightarrow> 'w \<Rightarrow> sendOutcome \<times> sendCache \<times> 'w" where
  "replyMessage lib sha256 lower wait env client input cache w =
     (case validateReply input of
        Some e \<Rightarrow> ((emptySendResult, Some e), cache, w)
      | None \<Rightarrow>
          (case getMessage lib (sv_mail env) client
                  \<lparr>gm_mailbox = ri_mailbox input, gm_uidValidity = ri_uidValidity input,
                   gm_uid = ri_uid input, gm_maxBodyBytes = 0, gm_allowHTMLFallback = False\<rparr> w of
             (read, w1) \<Rightarrow>
               (case read of
                  Inl e \<Rightarrow> ((emptySendResult, Some e), cache, w1)
                | Inr source \<Rightarrow>
                    (case prepareReply (ml_parseAddress (sv_lib env)) lower
                            (mc_address (cl_config client)) input source of
                       Inl e \<Rightarrow> ((emptySendResult, Some e), cache, w1)
                     | Inr send \<Rightarrow> sendMessage sha256 lower wait env client send cache w1))))"

section \<open>What a prepared reply contains\<close>

lemma replyRecipients_Inr:
  "replyRecipients parse lower own candidates acc = Inr out \<Longrightarrow> distinct (map lower acc) \<Longrightarrow>
     distinct (map lower out)
     \<and> (\<forall>r \<in> set out. r \<in> set acc \<or> (\<exists>c \<in> set candidates.
          validateAddrSpec parse (trimSpace (snd c)) = Some r \<and> \<not> equalFold (trimSpace (snd c)) own))"
proof (induction candidates arbitrary: acc)
  case (Cons c cs)
  define a where "a = trimSpace (snd c)"
  consider "a = [] \<or> equalFold a own"
    | n where "\<not> (a = [] \<or> equalFold a own)" "validateAddrSpec parse a = Some n"
        "lower n \<in> lower ` set acc"
    | n where "\<not> (a = [] \<or> equalFold a own)" "validateAddrSpec parse a = Some n"
        "lower n \<notin> lower ` set acc"
    using Cons.prems(1) by (auto simp: a_def Let_def split: if_splits option.splits)
  then show ?case
  proof cases
    case 1
    with Cons.prems have "replyRecipients parse lower own cs acc = Inr out" by (simp add: a_def Let_def)
    from Cons.IH [OF this Cons.prems(2)] show ?thesis by auto
  next
    case (2 n)
    with Cons.prems have "replyRecipients parse lower own cs acc = Inr out" by (simp add: a_def Let_def)
    from Cons.IH [OF this Cons.prems(2)] show ?thesis by auto
  next
    case (3 n)
    with Cons.prems have run: "replyRecipients parse lower own cs (acc @ [n]) = Inr out"
      by (simp add: a_def Let_def)
    have "distinct (map lower (acc @ [n]))" using Cons.prems(2) 3(3) by auto
    from Cons.IH [OF run this] 3 show ?thesis by (auto simp: a_def)
  qed
qed simp

text \<open>
  A reply goes only where it may: its recipients are addresses of the source message (Reply-To
  or else From, and To and Cc only in the mode \<open>reply_all\<close>), normalised and different up to case,
  between 1 and 50 of them and none that is the own address; it has no Cc and no Bcc and asks for
  no Sent copy; and its In-Reply-To is the Message-ID of the source.
\<close>

theorem reply_addressed_to_source:
  assumes "prepareReply parse lower own input source = Inr send"
  shows "in_cc send = [] \<and> in_bcc send = [] \<and> \<not> in_archiveSent send
      \<and> in_inReplyTo send = ms_messageID source \<and> in_idempotencyKey send = ri_idempotencyKey input"
    "in_to send \<noteq> [] \<and> length (in_to send) \<le> 50 \<and> distinct (map lower (in_to send))"
    "\<forall>r \<in> set (in_to send). \<exists>c \<in> set (mg_replyTo source @ ms_from source
         @ (if replyMode input = ''reply_all'' then ms_to source @ ms_cc source else [])).
       validateAddrSpec parse (trimSpace (snd c)) = Some r \<and> \<not> equalFold (trimSpace (snd c)) own"
    "length (in_subject send) \<le> 998"
proof -
  from assms obtain references where
    recipients: "replyRecipients parse lower own (replyCandidates (replyMode input) source) [] = Inr (in_to send)"
    and ne: "in_to send \<noteq> []" "length (in_to send) \<le> maxRecipients"
    and send: "send = \<lparr>in_to = in_to send, in_cc = [], in_bcc = [],
            in_subject = replySubject lower (ms_subject source), in_body = ri_body input,
            in_idempotencyKey = ri_idempotencyKey input, in_archiveSent = False,
            in_inReplyTo = ms_messageID source, in_references = references\<rparr>"
    by (auto simp: prepareReply_def andThen_def split: if_splits sum.splits)
  have cand: "set (replyCandidates (replyMode input) source) \<subseteq> set (mg_replyTo source @ ms_from source
         @ (if replyMode input = ''reply_all'' then ms_to source @ ms_cc source else []))"
    by (auto simp: replyCandidates_def Let_def replyModeReplyAll_def)
  note R = replyRecipients_Inr [OF recipients, simplified]
  show "in_cc send = [] \<and> in_bcc send = [] \<and> \<not> in_archiveSent send
      \<and> in_inReplyTo send = ms_messageID source \<and> in_idempotencyKey send = ri_idempotencyKey input"
    by (subst send, simp)+
  show "in_to send \<noteq> [] \<and> length (in_to send) \<le> 50 \<and> distinct (map lower (in_to send))"
    using ne R by (simp add: maxRecipients_def)
  show "\<forall>r \<in> set (in_to send). \<exists>c \<in> set (mg_replyTo source @ ms_from source
         @ (if replyMode input = ''reply_all'' then ms_to source @ ms_cc source else [])).
       validateAddrSpec parse (trimSpace (snd c)) = Some r \<and> \<not> equalFold (trimSpace (snd c)) own"
    using R cand by blast
  show "length (in_subject send) \<le> 998"
    using truncateUTF8_length [of _ maxSubjectBytes] by (subst send) (simp add: replySubject_def maxSubjectBytes_def)
qed

definition sampleSource :: message where
  "sampleSource = (initialMessage \<lparr>gm_mailbox = ''INBOX'', gm_uidValidity = 7, gm_uid = 5,
     gm_maxBodyBytes = 0, gm_allowHTMLFallback = False\<rparr> (sampleItem 5))\<lparr>ms_messageID := ''<m@example.com>'',
     ms_subject := ''Plan'', ms_from := [(''A'', ''a@example.com''), (''Me'', ''ME@icloud.com'')]\<rparr>"

definition sampleReply :: replyInput where
  "sampleReply = \<lparr>ri_mailbox = ''INBOX'', ri_uidValidity = 7, ri_uid = 5, ri_mode = [], ri_subject = [],
     ri_body = ''Yes.'', ri_idempotencyKey = []\<rparr>"

text \<open>A parser that takes every text with an \<open>@\<close> as a plain address.\<close>

definition sampleParser :: addressParser where
  "sampleParser v = (if CHR ''@'' \<in> set v then Some ([], v) else None)"

theorem reply_addressed_to_source_witness:
  "\<exists>send. prepareReply sampleParser toLower ''me@icloud.com'' sampleReply sampleSource = Inr send
     \<and> in_to send = [''a@example.com''] \<and> in_subject send = ''Re: Plan'' \<and> in_cc send = []"
proof -
  have "case prepareReply sampleParser toLower ''me@icloud.com'' sampleReply sampleSource of
      Inr send \<Rightarrow> in_to send = [''a@example.com''] \<and> in_subject send = ''Re: Plan'' | Inl _ \<Rightarrow> False"
    by code_simp
  then obtain send where send: "prepareReply sampleParser toLower ''me@icloud.com'' sampleReply sampleSource
      = Inr send" "in_to send = [''a@example.com'']" "in_subject send = ''Re: Plan''"
    by (auto split: sum.splits)
  from reply_addressed_to_source(1) [OF send(1)] send show ?thesis by blast
qed

section \<open>Replies through the adapter\<close>

text \<open>
  The documented behaviour of the two libraries: \<open>Header.MessageID\<close> of go-message and the envelope
  of go-imap give message identifiers without their angle brackets. The adapter's own test expects
  \<open>message@example.com\<close> for \<open><message@example.com>\<close>.
\<close>

definition bracketless :: "adapterLib \<Rightarrow> 'w imapClient \<Rightarrow> bool" where
  "bracketless alib client \<longleftrightarrow>
     (\<forall>data h v. al_readHeader alib data = Some h \<and> hf_messageID h = Some v \<longrightarrow> \<not> hasPrefix v ''<'')
     \<and> (\<forall>us c h w items err w' b e. ic_fetch client us c h w = (Got (items, err), w')
          \<and> Inr b \<in> set items \<and> fb_envelope b = Some e \<longrightarrow> \<not> hasPrefix (ln_messageID e) ''<'')"

definition idsBare :: "imapMessage \<Rightarrow> bool" where
  "idsBare m \<longleftrightarrow> \<not> hasPrefix (ch_messageID (im_headers m)) ''<''
     \<and> \<not> hasPrefix (en_messageID (im_envelope m)) ''<''"

lemma convertMessage_bare:
  assumes "convertMessage alib b hdrs = Inr m"
    and "\<And>data h v. al_readHeader alib data = Some h \<Longrightarrow> hf_messageID h = Some v \<Longrightarrow> \<not> hasPrefix v ''<''"
    and "\<And>e. fb_envelope b = Some e \<Longrightarrow> \<not> hasPrefix (ln_messageID e) ''<''"
  shows "idsBare m"
proof -
  have env: "en_messageID env = ln_messageID e" if "convertEnvelope e = Inr env" for e env
    using that by (auto simp: convertEnvelope_def andThen_def split: option.splits sum.splits if_splits)
  have hdr: "\<not> hasPrefix (ch_messageID h) ''<''" if "parseCuratedHeaders alib data = Inr h" for data h
    using that assms(2) by (auto simp: parseCuratedHeaders_def split: option.splits if_splits)
  have none: "\<not> hasPrefix (ch_messageID emptyHeaders) ''<''"
    by (simp add: emptyHeaders_def hasPrefix_def)
  show ?thesis
    using assms(1,3) env hdr none
    by (auto simp: convertMessage_def idsBare_def andThen_def Let_def
        split: option.splits sum.splits if_splits list.splits)
qed

lemma fetchLoop_bare:
  assumes "fetchLoop alib hdrs expected items out = Inr ms" and "list_all idsBare out"
    and "\<And>data h v. al_readHeader alib data = Some h \<Longrightarrow> hf_messageID h = Some v \<Longrightarrow> \<not> hasPrefix v ''<''"
    and "\<And>b e. Inr b \<in> set items \<Longrightarrow> fb_envelope b = Some e \<Longrightarrow> \<not> hasPrefix (ln_messageID e) ''<''"
  shows "list_all idsBare ms"
  using assms(1,2,4)
proof (induction items arbitrary: out)
  case (Cons item items)
  then obtain b m where "item = Inr b" and conv: "convertMessage alib b hdrs = Inr m"
      and rest: "fetchLoop alib hdrs expected items (out @ [m]) = Inr ms"
    by (auto simp: andThen_def split: if_splits sum.splits)
  have "idsBare m"
    by (rule convertMessage_bare [OF conv assms(3)]) (use Cons.prems(3) \<open>item = Inr b\<close> in auto)
  with Cons.prems(2,3) show ?case by (intro Cons.IH [OF rest]) auto
qed simp

lemma metadata_bare:
  assumes "bracketless alib client"
    and "sessionFetchMetadata alib client uids hdrs s = (Done ms, s')"
  shows "list_all idsBare ms"
proof (cases "uids = []")
  case True
  with assms(2) show ?thesis by (simp add: sessionFetchMetadata_def)
next
  case False
  with assms(2) obtain items err where
    call: "ic_fetch client uids (cap_condStore (snd s)) hdrs (fst s) = (Got (items, err), fst s')"
    and loop: "fetchLoop alib hdrs uids items [] = Inr ms"
    by (auto simp: sessionFetchMetadata_def andThen_def closed_def elim!: onClient_Done
        split: if_splits sum.splits option.splits)
  show ?thesis
    by (rule fetchLoop_bare [OF loop]) (use assms(1) call in \<open>auto simp: bracketless_def\<close>)
qed

lemma validMessageID_bracket: "validMessageID v \<Longrightarrow> hasPrefix v ''<''"
  by (simp add: validMessageID_def)

text \<open>
  C35. Through the program's own IMAP adapter no reply is ever sent: the adapter delivers message
  identifiers without angle brackets and \<open>ReplyMessage\<close> requires them, so every call ends with an
  error before the submission and leaves the idempotency cache as it was.
\<close>

theorem reply_never_sends:
  assumes "me_session (sv_mail env) = imapAdapter alib client" and "bracketless alib client"
  shows "\<exists>e w'. replyMessage lib sha256 lower wait env mailClient input cache w
     = ((emptySendResult, Some e), cache, w')"
proof (cases "validateReply input")
  case (Some e)
  then show ?thesis by (simp add: replyMessage_def)
next
  case None
  define get where "get = \<lparr>gm_mailbox = ri_mailbox input, gm_uidValidity = ri_uidValidity input,
    gm_uid = ri_uid input, gm_maxBodyBytes = 0, gm_allowHTMLFallback = False\<rparr>"
  obtain r w1 where run: "getMessage lib (sv_mail env) mailClient get w = (r, w1)" by (rule prod.exhaust)
  show ?thesis
  proof (cases r)
    case (Inl e)
    with None run show ?thesis by (simp add: replyMessage_def get_def)
  next
    case (Inr source)
    obtain item choice where "1 \<le> bodyLimit get" "bodyLimit get \<le> maxBodyBytes"
      and served: "servedMessage (me_session (sv_mail env)) get item"
      and "choosePart \<lparr>pc_selected = None, pc_html = None, pc_attachments = []\<rparr> (im_parts item) = Inr choice"
        "rl_serializedSize lib source \<le> maxResultBytes"
      and body: "bodyOk (nat (bodyLimit get))
        ((initialMessage get item)\<lparr>mg_attachments := pc_attachments choice\<rparr>) source"
      by (rule getMessage_Inr [OF run [unfolded Inr]])
    from served obtain s1 s2 where
      "sessionFetchMetadata alib client [gm_uid get] True s1 = (Done [item], s2)"
      unfolding assms(1) servedMessage_def by (auto simp: imapAdapter_def)
    from metadata_bare [OF assms(2) this] have bare: "idsBare item" by simp
    have "ms_messageID source = ms_messageID (initialMessage get item)"
      using body by (simp add: bodyOk_def messageSummary.defs)
    also have "\<not> hasPrefix (ms_messageID (initialMessage get item)) ''<''"
      using bare by (simp add: idsBare_def initialMessage_def Let_def summaryFromProtocol_def)
    finally have "\<not> validMessageID (ms_messageID source)" using validMessageID_bracket by auto
    with None run Inr show ?thesis by (simp add: replyMessage_def get_def prepareReply_def)
  qed
qed

text \<open>The sample server of the adapter, whose message has the identifier \<open>m@example.com\<close>.\<close>

definition sampleReplyLib :: adapterLib where
  "sampleReplyLib = sampleAdapterLib\<lparr>al_readHeader := (\<lambda>_. Some \<lparr>hf_messageID = Some ''m@example.com'',
     hf_inReplyTo = Some [], hf_references = Some [], hf_replyTo = Some []\<rparr>)\<rparr>"

definition sampleReplyIMAP :: "unit imapClient" where
  "sampleReplyIMAP = sampleIMAP\<lparr>ic_fetch :=
     (\<lambda>u c h w. (Got ([Inr (sampleBuffer\<lparr>fb_bodySection := [''Message-ID: <m@example.com>'']\<rparr>)], None), w))\<rparr>"

definition sampleSmtpEnv :: "(unit \<times> imapCapabilities) smtpEnv" where
  "sampleSmtpEnv = \<lparr>sv_mail = sampleEnvOf (imapAdapter sampleReplyLib sampleReplyIMAP),
     sv_lib = \<lparr>ml_parseAddress = sampleParser, ml_random = (\<lambda>w. (Done [], w)),
       ml_encode = (\<lambda>m w. (Done [], w))\<rparr>,
     sv_dial = (\<lambda>w. (Done (), w)), sv_factory = (\<lambda>w. (Done (), w)),
     sv_session = \<lparr>sm_auth = (\<lambda>a p w. (Done (), w)), sm_mail = (\<lambda>a n u w. (Done (), w)),
       sm_rcpt = (\<lambda>a w. (Done (), w)), sm_reset = (\<lambda>w. (Done (), w)),
       sm_data = (\<lambda>m w. ((True, Done ()), w))\<rparr>,
     sv_closeConn = (\<lambda>w. (Done (), w)), sv_safeCloseConn = (\<lambda>w. w), sv_safeCloseSession = (\<lambda>w. w)\<rparr>"

lemma sample_bracketless: "bracketless sampleReplyLib sampleReplyIMAP"
  by (auto simp: bracketless_def sampleReplyLib_def sampleReplyIMAP_def sampleBuffer_def hasPrefix_def)

theorem reply_never_sends_witness:
  "bracketless sampleReplyLib sampleReplyIMAP
     \<and> (\<exists>e w'. replyMessage sampleReadLib (\<lambda>v. v) toLower (\<lambda>k w. (None, w)) sampleSmtpEnv sampleClient
          sampleReply [] ((), sampleCaps) = ((emptySendResult, Some e), [], w'))"
  using sample_bracketless reply_never_sends [of sampleSmtpEnv sampleReplyLib sampleReplyIMAP sampleReadLib
    "\<lambda>v. v" toLower "\<lambda>k w. (None, w)" sampleClient sampleReply "[]" "((), sampleCaps)"]
  by (simp add: sampleSmtpEnv_def sampleEnvOf_def)

end
