(* ===== verification/Spec2Isabelle.thy ===== *)
theory Spec2Isabelle
  imports Redact_Writer Capability_Plan Resource_Scope Cal_Dav Idempotency Free_Slots Config_Load Contact_Ops Bounded_Stdio
    Imap_Guard Mail_Reply
begin

text \<open>
  A verification development for the icloud-mcp server (Go, under \<open>src/\<close>).

  \<^bold>\<open>The program.\<close> The server speaks the Model Context Protocol on standard input and output
  and gives an agent access to iCloud Calendar (CalDAV), Contacts (CardDAV) and Mail (IMAP and
  SMTP). \<open>cmd/icloud-mcp\<close> reads the configuration, builds one client per requested domain behind an
  allowlisting transport or dialer, registers the tools that the configured capabilities permit, and
  serves frames through bounded, redacting readers and writers. A tool handler
  (\<open>internal/mcptools\<close>) checks its arguments and its resource scope, calls a domain service
  (\<open>internal/icloud\<close>, \<open>internal/contacts\<close>, \<open>internal/mail\<close>) and reports a typed error or a result.

  \<^bold>\<open>Conventions.\<close> A Go string or byte slice is a list of characters, read as bytes; a UID and a
  MODSEQ are words of their width, other integers are \<open>int\<close> or \<open>nat\<close> with the bounds the code has.
  A struct is a record, an enumeration a datatype, a map an association list, a map or a set
  (whichever order and duplicates call for), an error a value of \<open>goError\<close> or \<open>fault\<close>, a call that may
  panic a value of \<open>call\<close>. State is passed explicitly; the outside world (network, clock, files,
  limiters, other packages) is a type variable with records of functions on it, about which nothing
  is assumed unless a property says so. Third-party packages are such arguments: the vCard library
  (\<open>vcardLib\<close>), JSON encoding (\<open>jsonLib\<close>, \<open>serializedSize\<close>), go-message (\<open>messageLib\<close>, \<open>readEntity\<close>,
  \<open>adapterLib\<close>), go-imap (\<open>imapClient\<close>), go-smtp (\<open>smtpClient\<close>), address parsers, SHA-256, time zones
  (functions from instants to offsets), \<open>html.UnescapeString\<close> and \<open>strings.ToLower\<close> where its full
  Unicode behaviour matters.

  \<^bold>\<open>Shared theories.\<close> \<open>Go_Prelude\<close> (bytes, \<open>strings\<close> and \<open>bytes\<close> operations, results with early
  returns), \<open>Go_Encoding\<close> (UTF-8, base64, URL and JSON escaping, case folding) and \<open>Go_Errors\<close>
  (the error types of the three domain packages, classification of HTTP status codes, decimal
  printing and parsing, durations; \<open>internal/*/errors.go\<close>).

  \<^bold>\<open>Security.\<close> \<open>Redactor\<close> and \<open>Redact_Writer\<close> model \<open>internal/security/redact.go\<close>: the bounded
  re-scanning replacement (32 passes, the constant of the code), the encoded variants of the
  credentials and the line-buffering writer, whose contract is the locale \<open>line_filter\<close> interpreted on
  \<open>redact\<close>. They show that no registered variant survives as long as no secret contains a delimiter
  byte of the replacement texts, that the cut of the input into writes does not matter, and an input
  with such a secret for which 32 passes are not enough. \<open>Net_Policy\<close> models
  \<open>allowlist.go\<close> and \<open>mail_dial.go\<close>: the two HTTP transports forward exactly https requests to their
  disjoint host sets. \<open>Bounded_Stdio\<close> models \<open>cmd/icloud-mcp/bounded_stdio.go\<close>: oversized frames are
  withheld whatever the sizes of the reads, and what is written is redacted and has at most 256 KiB a
  frame, under the same condition on the secrets and a bound on the growth of \<open>json.Marshal\<close>.

  \<^bold>\<open>Configuration and tools.\<close> \<open>Permissions\<close>, \<open>Scopes\<close>, \<open>Config_Load\<close> model \<open>internal/config\<close>:
  parsing of permissions and resource scopes, \<open>Load\<close> and \<open>Validate\<close>, credential files, recipient
  policies. \<open>Capability_Plan\<close> models the registration in \<open>internal/mcptools\<close>, \<open>Resource_Scope\<close> the
  authorisation of \<open>resources.go\<close>, \<open>Idempotency\<close> the key store of \<open>idempotency.go\<close> as a step relation
  of concurrent callers with an inductive reachability predicate.

  \<^bold>\<open>Calendar.\<close> \<open>Cal_Retry\<close> models \<open>retry.go\<close> and \<open>middleware.go\<close>; the locales
  \<open>dispatch_meter\<close> and \<open>guard_meter\<close> count dispatches and are interpreted on metered versions of any
  classifier and service. \<open>Cal_Validation\<close> models paths, UIDs, ranges, ETags and the location cache
  (locale \<open>bounded_cache\<close>), \<open>Cal_Dav\<close> the request loop with its redirects and the discovery checks
  (locale \<open>wire_log\<close>, interpreted on a logging transport), \<open>Free_Slots\<close> the interval algebra. Its walk
  over days is a \<open>partial_function\<close>, since it may not end: the properties say when it does and give a
  zone in which it does not.

  \<^bold>\<open>Contacts.\<close> \<open>Contact_Validation\<close> models \<open>validation.go\<close>, \<open>Contact_Card\<close> the raw parser and the
  patches of \<open>vcard.go\<close>, \<open>Contact_Model\<close> its projection of a card to the results. \<open>Contact_Url\<close> models
  the URL policy of \<open>client.go\<close>: validation, canonical paths that stay safe under repeated decoding,
  containment in a collection. \<open>Contact_Xml\<close> models \<open>xml.go\<close>: the structural scan of a multistatus
  document and its decoding with the struct tags of the source, over the tokens of \<open>encoding/xml\<close>.
  \<open>Contact_Dav\<close> models \<open>dav.go\<close>: limiter, slot, redirects, retries and body limits over any HTTP doer; the
  locale \<open>contact_wire\<close> states what a log of the requests shows and is interpreted on a recording doer.
  \<open>Contact_Discovery\<close> models \<open>discovery.go\<close>; its operations are a state monad over the client and the
  world whose outcomes include panics, and the single-flight cache is also a step relation of
  concurrent callers; an unexpected success status on any of its requests (\<open>discoveryAsks\<close>) blocks it
  for good. \<open>Contact_Ops\<close> models \<open>operations.go\<close> on top of them; the locale \<open>contact_service\<close>
  extends the contract of the wire to whole operations: reads never write, and each write is sent
  once, under a condition taken from the caller or from the server's answer in the same operation, inside
  the selected address book.

  \<^bold>\<open>Mail.\<close> \<open>Mail_Validation\<close> models \<open>validation.go\<close> and the reply headers. \<open>Mail_Session\<close> models
  the client of \<open>service.go\<close>: slots, limiters, one IMAP session per attempt, recovered panics, the two
  attempts of a read (the constant of the loop) and the error mapping; session operations are a state
  monad \<open>op\<close> whose state also holds whether a mutation was dispatched. \<open>Mail_Search\<close>, \<open>Mail_Read\<close>,
  \<open>Mail_Mutation\<close> and \<open>Mail_Send\<close> model the operations of \<open>service.go\<close>, \<open>read.go\<close>, \<open>mutation.go\<close>,
  \<open>archive.go\<close> and \<open>smtp.go\<close>; \<open>Html_Text\<close> models \<open>htmltext.go\<close>, \<open>Send_Cache\<close> \<open>send_idempotency.go\<close> with
  its concurrent callers, \<open>Mail_Reply\<close> \<open>reply.go\<close>. The contracts of a recorded IMAP session are the
  locales \<open>imap_log\<close>, \<open>mail_log\<close> (which extends it to the environment) and \<open>mail_read_log\<close> (which
  extends that to the reads), interpreted on the recording of any environment; \<open>smtp_log\<close> is the one
  of a recorded submission. \<open>Imap_Guard\<close> and \<open>Imap_Adapter\<close> model \<open>internal/mail/imapadapter\<close>: the guard
  of the connection, which passes exactly the longest prefix of a session whose text is within its
  limits (\<open>wireOk\<close>, stated without the guard), and the session over any go-imap client, which meets the assumption that the
  mutations make of their session (\<open>adapter_session\<close>).

  \<^bold>\<open>Loops.\<close> Every loop of the source is a recursive function with a termination proof, except
  the day walk of \<open>Free_Slots\<close>; no fuel is used beyond the constants of the code (32 redaction passes,
  2 read attempts, 4 Calendar requests, 6 retries, 3 Contacts redirects and attempts).

  \<^bold>\<open>Not modelled.\<close> Parsing, editing and expanding of iCalendar objects (\<open>ical.go\<close>,
  \<open>recurrence.go\<close>, \<open>eventvalidate.go\<close>, \<open>timepolicy.go\<close>), the Calendar client operations and multistatus
  parsing (\<open>client.go\<close> beyond its path checks, \<open>webdav_xml.go\<close>, \<open>calendars.go\<close>) and the tool handlers:
  the first two rest on the component trees of go-ical and the sets of rrule-go throughout, the
  handlers on the argument decoding of the MCP library. The JSON schemas of the tools, TLS settings, process start and signal
  handling, health checks, the audit log and the mock service are glue around libraries or test
  support.
\<close>

end
